(* ===== verification/Prelude.thy ===== *)
theory Prelude
  imports Main "HOL-Library.Char_ord" "HOL-Library.List_Lexorder" "HOL-Library.Product_Lexorder"
begin

text \<open>
  Shared vocabulary of the development: the Python values and library functions that several
  components of the source use, with the generic lemmas about them.

  A Python \<open>str\<close> is a \<^typ>\<open>string\<close>, each \<^typ>\<open>char\<close> being one code point below 256; the
  character classes \<open>\d\<close>, \<open>\s\<close> and \<open>\w\<close> of the \<open>re\<close> module are written out for that range.
  An exception is a value of \<^term>\<open>py_error\<close> on the left of a sum. The order on
  strings, lists and pairs is the lexicographic one, as Python compares them.
\<close>

named_theorems pystr \<open>facts about the string functions\<close>
named_theorems pyres \<open>facts about results that may be errors\<close>

section \<open>Errors\<close>

text \<open>The built-in exceptions, and \<open>Raised\<close> with its class name for those of the repository.\<close>

datatype py_error =
    ValueError | KeyError | IndexError | TypeError | LookupError | AssertionError
  | AttributeError | RecursionError | Raised string

type_synonym 'a res = "py_error + 'a"

fun res_bind :: "'e + 'a \<Rightarrow> ('a \<Rightarrow> 'e + 'b) \<Rightarrow> 'e + 'b" where
  "res_bind (Inl e) f = Inl e"
| "res_bind (Inr a) f = f a"

fun map_res :: "('a \<Rightarrow> 'e + 'b) \<Rightarrow> 'a list \<Rightarrow> 'e + 'b list" where
  "map_res f [] = Inr []"
| "map_res f (x # xs) =
     (case f x of Inl e \<Rightarrow> Inl e
      | Inr y \<Rightarrow> (case map_res f xs of Inl e \<Rightarrow> Inl e | Inr ys \<Rightarrow> Inr (y # ys)))"

text \<open>A loop whose body may raise, over a state that the exception discards.\<close>

fun fold_res :: "('a \<Rightarrow> 's \<Rightarrow> 'e + 's) \<Rightarrow> 'a list \<Rightarrow> 's \<Rightarrow> 'e + 's" where
  "fold_res f [] s = Inr s"
| "fold_res f (x # xs) s = (case f x s of Inl e \<Rightarrow> Inl e | Inr s' \<Rightarrow> fold_res f xs s')"

lemma fold_res_invariant:
  assumes "fold_res f xs s = Inr t" "P s"
    and "\<And>x a b. x \<in> set xs \<Longrightarrow> P a \<Longrightarrow> f x a = Inr b \<Longrightarrow> P b"
  shows "P t"
  using assms
proof (induction xs arbitrary: s)
  case (Cons x xs)
  then obtain s' where s: "f x s = Inr s'" "fold_res f xs s' = Inr t" by (auto split: sum.splits)
  show ?case by (rule Cons.IH[OF s(2)]) (use Cons.prems s(1) in auto)
qed simp

definition isOk :: "'e + 'a \<Rightarrow> bool" where
  "isOk r = (case r of Inl _ \<Rightarrow> False | Inr _ \<Rightarrow> True)"

lemma isOk_simps [simp]: "isOk (Inr a)" "\<not> isOk (Inl e)"
  by (simp_all add: isOk_def)

lemma isOk_iff: "isOk r \<longleftrightarrow> (\<exists>a. r = Inr a)"
  by (cases r) auto

lemma res_bind_Inr [pyres]: "res_bind r f = Inr b \<longleftrightarrow> (\<exists>a. r = Inr a \<and> f a = Inr b)"
  by (cases r) auto

lemma res_bind_Inl [pyres]:
  "res_bind r f = Inl e \<longleftrightarrow> r = Inl e \<or> (\<exists>a. r = Inr a \<and> f a = Inl e)"
  by (cases r) auto

lemma map_res_Cons_Inr:
  "map_res f (x # xs) = Inr zs \<longleftrightarrow> (\<exists>y ys. zs = y # ys \<and> f x = Inr y \<and> map_res f xs = Inr ys)"
  by (auto split: sum.splits)

lemma map_res_Inr [pyres]: "map_res f xs = Inr ys \<longleftrightarrow> list_all2 (\<lambda>x y. f x = Inr y) xs ys"
proof (induction xs arbitrary: ys)
  case (Cons x xs)
  show ?case unfolding map_res_Cons_Inr Cons.IH list_all2_Cons1 by auto
qed auto

lemma map_res_all: "(\<And>x. x \<in> set xs \<Longrightarrow> f x = Inr (g x)) \<Longrightarrow> map_res f xs = Inr (map g xs)"
  by (induction xs) auto

section \<open>Three-way comparison\<close>

definition py_cmp :: "'a::linorder \<Rightarrow> 'a \<Rightarrow> int" where
  "py_cmp x y = (if x < y then -1 else if y < x then 1 else 0)"

lemma py_cmp_self [simp]: "py_cmp x x = 0"
  by (simp add: py_cmp_def)

lemma py_cmp_0 [simp]: "py_cmp x y = 0 \<longleftrightarrow> x = y"
  by (auto simp: py_cmp_def)

lemma py_cmp_swap: "py_cmp y x = - py_cmp x y"
  by (auto simp: py_cmp_def)

lemma py_cmp_range: "py_cmp x y \<in> {-1, 0, 1}"
  by (simp add: py_cmp_def)

lemma py_cmp_pair:
  "py_cmp (a, b) (c, d) = (if py_cmp a c \<noteq> 0 then py_cmp a c else py_cmp b d)"
  by (auto simp: py_cmp_def less_prod_def)

lemma py_cmp_Cons:
  "py_cmp (x # xs) (y # ys) = (if py_cmp x y \<noteq> 0 then py_cmp x y else py_cmp xs ys)"
  by (auto simp: py_cmp_def)

lemma py_cmp_Nil [simp]:
  "py_cmp [] (y # ys) = -1" "py_cmp (x # xs) [] = 1"
  by (simp_all add: py_cmp_def)

lemma py_cmp_Suc [simp]: "py_cmp (Suc m) (Suc n) = py_cmp m n"
  by (simp add: py_cmp_def)

section \<open>Characters\<close>

definition py_ord :: "char \<Rightarrow> nat" where
  "py_ord c = of_char c"

definition is_digit :: "char \<Rightarrow> bool" where
  "is_digit c \<longleftrightarrow> 48 \<le> py_ord c \<and> py_ord c \<le> 57"

definition is_lower :: "char \<Rightarrow> bool" where
  "is_lower c \<longleftrightarrow> 97 \<le> py_ord c \<and> py_ord c \<le> 122"

definition is_upper :: "char \<Rightarrow> bool" where
  "is_upper c \<longleftrightarrow> 65 \<le> py_ord c \<and> py_ord c \<le> 90"

definition lower_char :: "char \<Rightarrow> char" where
  "lower_char c = (if is_upper c then char_of (py_ord c + 32) else c)"

text \<open>\<open>str.isspace\<close>, which is also \<open>\s\<close> of a \<open>str\<close> pattern.\<close>

definition is_space :: "char \<Rightarrow> bool" where
  "is_space c \<longleftrightarrow> py_ord c \<in> set [9, 10, 11, 12, 13, 28, 29, 30, 31, 32, 133, 160]"

text \<open>The white space \<open>int()\<close> skips around the digits of an ASCII string.\<close>

definition is_cspace :: "char \<Rightarrow> bool" where
  "is_cspace c \<longleftrightarrow> py_ord c \<in> set [9, 10, 11, 12, 13, 32]"

text \<open>\<open>\w\<close>: the alphanumeric code points below 256 (the superscript digits and the vulgar
  fractions among them) and the underscore.\<close>

definition is_word :: "char \<Rightarrow> bool" where
  "is_word c \<longleftrightarrow> is_digit c \<or> is_lower c \<or> is_upper c \<or> py_ord c = 95
     \<or> py_ord c \<in> set [170, 178, 179, 181, 185, 186, 188, 189, 190]
     \<or> (192 \<le> py_ord c \<and> py_ord c \<noteq> 215 \<and> py_ord c \<noteq> 247)"

lemma py_ord_inj [simp]: "py_ord c = py_ord d \<longleftrightarrow> c = d"
  by (simp add: py_ord_def)

lemma less_char_ord: "c < d \<longleftrightarrow> py_ord c < py_ord d"
  by (simp add: py_ord_def less_char_def)

lemma is_digit_word: "is_digit c \<Longrightarrow> is_word c"
  by (simp add: is_word_def)

lemma is_lower_word: "is_lower c \<Longrightarrow> is_word c"
  by (simp add: is_word_def)

lemma is_digit_not_space: "is_digit c \<Longrightarrow> \<not> is_space c"
  by (auto simp: is_digit_def is_space_def)

lemma is_digit_not_cspace: "is_digit c \<Longrightarrow> \<not> is_cspace c"
  by (auto simp: is_digit_def is_cspace_def)

section \<open>Strings\<close>

definition startswith :: "string \<Rightarrow> string \<Rightarrow> bool" where
  "startswith s p \<longleftrightarrow> take (length p) s = p"

definition endswith :: "string \<Rightarrow> string \<Rightarrow> bool" where
  "endswith s p \<longleftrightarrow> length p \<le> length s \<and> drop (length s - length p) s = p"

definition lstrip :: "(char \<Rightarrow> bool) \<Rightarrow> string \<Rightarrow> string" where
  "lstrip p s = dropWhile p s"

definition rstrip :: "(char \<Rightarrow> bool) \<Rightarrow> string \<Rightarrow> string" where
  "rstrip p s = rev (dropWhile p (rev s))"

definition strip :: "(char \<Rightarrow> bool) \<Rightarrow> string \<Rightarrow> string" where
  "strip p s = rstrip p (lstrip p s)"

fun join :: "'a list \<Rightarrow> 'a list list \<Rightarrow> 'a list" where
  "join sep [] = []"
| "join sep [x] = x"
| "join sep (x # y # ys) = x @ sep @ join sep (y # ys)"

text \<open>\<open>s.split(c)\<close> for a one-character separator.\<close>

fun split_on :: "'a \<Rightarrow> 'a list \<Rightarrow> 'a list list" where
  "split_on c [] = [[]]"
| "split_on c (x # xs) =
     (if x = c then [] # split_on c xs
      else (case split_on c xs of [] \<Rightarrow> [[x]] | y # ys \<Rightarrow> (x # y) # ys))"

text \<open>\<open>s.split(p, 1)\<close>: the text before and after the first occurrence of \<open>p\<close>, if any.\<close>

fun split_first :: "string \<Rightarrow> string \<Rightarrow> (string \<times> string) option" where
  "split_first p [] = (if p = [] then Some ([], []) else None)"
| "split_first p (x # xs) =
     (if startswith (x # xs) p then Some ([], drop (length p) (x # xs))
      else map_option (\<lambda>(a, b). (x # a, b)) (split_first p xs))"

text \<open>\<open>s.split()\<close>: the maximal runs of non-space characters.\<close>

fun split_ws_aux :: "string \<Rightarrow> string \<Rightarrow> string list" where
  "split_ws_aux acc [] = (if acc = [] then [] else [rev acc])"
| "split_ws_aux acc (x # xs) =
     (if is_space x then (if acc = [] then split_ws_aux [] xs else rev acc # split_ws_aux [] xs)
      else split_ws_aux (x # acc) xs)"

definition split_ws :: "string \<Rightarrow> string list" where
  "split_ws s = split_ws_aux [] s"

lemma split_on_not_Nil [simp]: "split_on c s \<noteq> []"
  by (induction s) (auto split: list.splits)

lemma join_split_on [pystr, simp]: "join [c] (split_on c s) = s"
proof (induction s)
  case (Cons x xs)
  then show ?case
    by (cases "split_on c xs" rule: remdups_adj.cases) (auto split: list.splits)
qed simp

lemma split_on_free: "c \<notin> set s \<Longrightarrow> split_on c s = [s]"
  by (induction s) auto

lemma split_on_append: "c \<notin> set x \<Longrightarrow> split_on c (x @ c # s) = x # split_on c s"
  by (induction x) auto

lemma split_on_join [pystr]:
  "xs \<noteq> [] \<Longrightarrow> (\<And>x. x \<in> set xs \<Longrightarrow> c \<notin> set x) \<Longrightarrow> split_on c (join [c] xs) = xs"
proof (induction "[c]" xs rule: join.induct)
  case (3 x y ys)
  then show ?case by (simp add: split_on_append)
qed (auto simp: split_on_free)

lemma split_on_sep_free: "x \<in> set (split_on c s) \<Longrightarrow> c \<notin> set x"
  by (induction s arbitrary: x) (auto split: if_splits list.splits)

lemma split_on_subset: "x \<in> set (split_on c s) \<Longrightarrow> set x \<subseteq> set s"
  by (induction s arbitrary: x) (auto split: if_splits list.splits, blast)

lemma join_Cons: "xs \<noteq> [] \<Longrightarrow> join sep (x # xs) = x @ sep @ join sep xs"
  by (cases xs) auto

lemma join_append: "xs \<noteq> [] \<Longrightarrow> ys \<noteq> [] \<Longrightarrow> join sep (xs @ ys) = join sep xs @ sep @ join sep ys"
proof (induction xs)
  case (Cons x xs)
  then show ?case by (cases "xs = []") (simp_all add: join_Cons)
qed simp

lemma set_join_subset: "set (join sep xs) \<subseteq> set sep \<union> (\<Union>x \<in> set xs. set x)"
  by (induction sep xs rule: join.induct) auto

lemma startswith_append [simp]: "startswith (p @ s) p"
  by (simp add: startswith_def)

lemma startswith_iff: "startswith s p \<longleftrightarrow> (\<exists>t. s = p @ t)"
  unfolding startswith_def by (metis append_eq_conv_conj append_take_drop_id)

lemma endswith_append [simp]: "endswith (s @ p) p"
  by (simp add: endswith_def)

lemma endswith_iff: "endswith s p \<longleftrightarrow> (\<exists>t. s = t @ p)"
proof
  assume "endswith s p"
  then have "s = take (length s - length p) s @ p"
    unfolding endswith_def by (metis append_take_drop_id)
  then show "\<exists>t. s = t @ p" ..
qed auto

lemma split_first_Some:
  "split_first p s = Some (a, b) \<Longrightarrow> s = a @ p @ b"
  by (induction s arbitrary: a) (auto split: if_splits simp: startswith_iff)

lemma lstrip_id: "(s \<noteq> [] \<Longrightarrow> \<not> p (hd s)) \<Longrightarrow> lstrip p s = s"
  by (cases s) (auto simp: lstrip_def)

lemma rstrip_id: "(s \<noteq> [] \<Longrightarrow> \<not> p (last s)) \<Longrightarrow> rstrip p s = s"
  by (cases s rule: rev_cases) (auto simp: rstrip_def)

lemma strip_id: "(s \<noteq> [] \<Longrightarrow> \<not> p (hd s) \<and> \<not> p (last s)) \<Longrightarrow> strip p s = s"
  by (simp add: strip_def lstrip_id rstrip_id)

lemma rstrip_snoc [simp]:
  "rstrip p (s @ [c]) = (if p c then rstrip p s else s @ [c])"
  by (simp add: rstrip_def)

lemma rstrip_Nil [simp]: "rstrip p [] = []"
  by (simp add: rstrip_def)

lemma rstrip_Cons:
  "rstrip p (x # xs) = (if p x \<and> rstrip p xs = [] then [] else x # rstrip p xs)"
  unfolding rstrip_def by (cases "\<exists>y \<in> set xs. \<not> p y") (auto simp: dropWhile_append1 dropWhile_append3)

lemma span_append:
  assumes "list_all P d" and "rest = [] \<or> \<not> P (hd rest)"
  shows "takeWhile P (d @ rest) = d" and "dropWhile P (d @ rest) = rest"
  using assms by (cases rest; auto simp: list_all_iff takeWhile_append2 dropWhile_append2)+

lemma join_Nil_Cons: "join [c] ([] # ps) = concat (map (Cons c) ps)"
proof (induction ps)
  case (Cons p ps)
  then show ?case by (cases ps) auto
qed simp

lemma split_on_Nil_Cons: "split_on c m = [] # ps \<Longrightarrow> m = concat (map (Cons c) ps)"
  by (metis join_Nil_Cons join_split_on)

lemma split_on_concat_Cons:
  "(\<And>x. x \<in> set ps \<Longrightarrow> c \<notin> set x) \<Longrightarrow> split_on c (concat (map (Cons c) ps)) = [] # ps"
  using split_on_join[of "[] # ps" c] unfolding join_Nil_Cons by (metis empty_iff empty_set list.distinct(1) set_ConsD)

lemma takeWhile_all: "\<forall>x \<in> set l. P x \<Longrightarrow> takeWhile P l = l"
  by (simp add: takeWhile_eq_all_conv)

lemma dropWhile_all: "\<forall>x \<in> set l. P x \<Longrightarrow> dropWhile P l = []"
  by simp

lemma neq_Cons: "(\<forall>y ys. xs \<noteq> y # ys) \<longleftrightarrow> xs = []"
  by (cases xs) auto

text \<open>\<open>s.replace(p, q)\<close> for a non-empty \<open>p\<close>: the occurrences from the left, without overlap.\<close>

function replace_all :: "string \<Rightarrow> string \<Rightarrow> string \<Rightarrow> string" where
  "replace_all p q [] = []"
| "replace_all p q (c # s) =
     (if p \<noteq> [] \<and> startswith (c # s) p then q @ replace_all p q (drop (length p) (c # s))
      else c # replace_all p q s)"
  by pat_completeness auto
termination by (relation "measure (\<lambda>(p, q, s). length s)") (auto simp: diff_less_Suc)

declare replace_all.simps(2) [simp del]

lemma replace_all_id: "p \<noteq> [] \<Longrightarrow> hd p \<notin> set s \<Longrightarrow> replace_all p q s = s"
  by (induction s) (auto simp: replace_all.simps(2) startswith_def Cons_eq_append_conv neq_Nil_conv)

text \<open>\<open>s.split(c, n)\<close>: at most \<open>n\<close> separators are used.\<close>

fun split_max :: "nat \<Rightarrow> char \<Rightarrow> string \<Rightarrow> string list" where
  "split_max 0 c s = [s]"
| "split_max (Suc n) c s =
     (if c \<in> set s
      then takeWhile (\<lambda>x. x \<noteq> c) s # split_max n c (tl (dropWhile (\<lambda>x. x \<noteq> c) s)) else [s])"

lemma split_max_append: "c \<notin> set x \<Longrightarrow> split_max (Suc n) c (x @ c # s) = x # split_max n c s"
  by (auto simp: takeWhile_append dropWhile_append intro!: takeWhile_eq_all_conv[THEN iffD2])

lemma split_ws_aux_run:
  "\<forall>c \<in> set x. \<not> is_space c \<Longrightarrow> split_ws_aux acc (x @ s) = split_ws_aux (rev x @ acc) s"
  by (induction x arbitrary: acc) auto

lemma split_ws_run:
  assumes "x \<noteq> []" "\<forall>c \<in> set x. \<not> is_space c" "is_space d"
  shows "split_ws (x @ d # s) = x # split_ws s"
  using assms split_ws_aux_run[of x "[]" "d # s"] by (simp add: split_ws_def)

lemma split_ws_last:
  assumes "x \<noteq> []" "\<forall>c \<in> set x. \<not> is_space c"
  shows "split_ws x = [x]"
  using assms split_ws_aux_run[of x "[]" "[]"] by (simp add: split_ws_def)

lemma split_ws_skip: "is_space d \<Longrightarrow> split_ws (d # s) = split_ws s"
  by (simp add: split_ws_def)

text \<open>\<open>s.splitlines()\<close>: \<open>\r\n\<close> is one line end, and there is no empty line after a final line end.\<close>

definition is_line_end :: "char \<Rightarrow> bool" where
  "is_line_end c \<longleftrightarrow> py_ord c \<in> set [10, 11, 12, 13, 28, 29, 30, 133]"

fun splitlines_aux :: "string \<Rightarrow> string \<Rightarrow> string list" where
  "splitlines_aux acc [] = (if acc = [] then [] else [rev acc])"
| "splitlines_aux acc (x # xs) =
     (if is_line_end x
      then rev acc # splitlines_aux [] (if x = CHR 0x0D \<and> xs \<noteq> [] \<and> hd xs = CHR 0x0A then tl xs else xs)
      else splitlines_aux (x # acc) xs)"

definition splitlines :: "string \<Rightarrow> string list" where
  "splitlines s = splitlines_aux [] s"

definition line_free :: "string \<Rightarrow> bool" where
  "line_free s \<longleftrightarrow> list_all (\<lambda>c. \<not> is_line_end c) s"

lemma line_free_append [simp]: "line_free (s @ t) \<longleftrightarrow> line_free s \<and> line_free t"
  "line_free (c # s) \<longleftrightarrow> \<not> is_line_end c \<and> line_free s" "line_free []"
  by (simp_all add: line_free_def)

lemma splitlines_aux_run: "line_free x \<Longrightarrow> splitlines_aux acc (x @ s) = splitlines_aux (rev x @ acc) s"
  by (induction x arbitrary: acc) (auto simp: line_free_def)

lemma is_line_end_newline [simp]: "is_line_end CHR 0x0A"
  by (simp add: is_line_end_def py_ord_def)

lemma splitlines_Cons: "line_free x \<Longrightarrow> splitlines (x @ CHR 0x0A # s) = x # splitlines s"
  by (simp add: splitlines_def splitlines_aux_run)

lemma splitlines_last: "line_free x \<Longrightarrow> x \<noteq> [] \<Longrightarrow> splitlines x = [x]"
  using splitlines_aux_run[of x "[]" "[]"] by (simp add: splitlines_def)

lemma splitlines_join:
  "(\<And>x. x \<in> set xs \<Longrightarrow> line_free x \<and> x \<noteq> []) \<Longrightarrow> splitlines (join [CHR 0x0A] xs) = xs"
proof (induction "[CHR 0x0A]" xs rule: join.induct)
  case 1
  then show ?case by (simp add: splitlines_def)
next
  case (2 x)
  then show ?case by (simp add: splitlines_last)
next
  case (3 x y ys)
  then show ?case by (simp add: splitlines_Cons)
qed

lemma splitlines_aux_free: "line_free acc \<Longrightarrow> x \<in> set (splitlines_aux acc s) \<Longrightarrow> line_free x"
  by (induction acc s rule: splitlines_aux.induct) (auto simp: line_free_def split: if_splits)

lemma splitlines_free: "x \<in> set (splitlines s) \<Longrightarrow> line_free x"
  unfolding splitlines_def by (rule splitlines_aux_free) (simp_all add: line_free_def)

section \<open>Sequences\<close>

text \<open>The lines that a text file yields, without their line ends.\<close>

definition file_lines :: "string \<Rightarrow> string list" where
  "file_lines s = (let ls = split_on CHR 0x0A s in if last ls = [] then butlast ls else ls)"

lemma file_lines_written:
  assumes "\<forall>l \<in> set ls. CHR 0x0A \<notin> set l"
  shows "file_lines (concat (map (\<lambda>l. l @ [CHR 0x0A]) ls)) = ls"
proof -
  have "split_on CHR 0x0A (concat (map (\<lambda>l. l @ [CHR 0x0A]) ls)) = ls @ [[]]"
    using assms by (induction ls) (auto simp: split_on_append)
  then show ?thesis by (simp add: file_lines_def Let_def)
qed

text \<open>The lines of a text with their line ends, which the last may lack. The text is what a file opened in text mode has
  given: other line ends have been translated.\<close>

definition lines_kept :: "string \<Rightarrow> string list" where
  "lines_kept s =
     (let ls = split_on CHR 0x0A s
      in map (\<lambda>l. l @ [CHR 0x0A]) (butlast ls) @ (if last ls = [] then [] else [last ls]))"

definition kept_line :: "string \<Rightarrow> bool" where
  "kept_line l \<longleftrightarrow> (\<exists>x. CHR 0x0A \<notin> set x \<and> l = x @ [CHR 0x0A])"

definition kept_last :: "string \<Rightarrow> bool" where
  "kept_last l \<longleftrightarrow> kept_line l \<or> (l \<noteq> [] \<and> CHR 0x0A \<notin> set l)"

lemma lines_kept_run: "kept_line l \<Longrightarrow> lines_kept (l @ s) = l # lines_kept s"
  by (auto simp: kept_line_def lines_kept_def split_on_append Let_def)

lemma lines_kept_Nil [simp]: "lines_kept [] = []"
  by (simp add: lines_kept_def)

lemma lines_kept_concat:
  "(\<And>l. l \<in> set (butlast ls) \<Longrightarrow> kept_line l) \<Longrightarrow> (ls \<noteq> [] \<Longrightarrow> kept_last (last ls)) \<Longrightarrow> lines_kept (concat ls) = ls"
proof (induction ls)
  case (Cons l ls)
  show ?case
  proof (cases "kept_line l")
    case True
    with Cons show ?thesis by (cases "ls = []") (auto simp: lines_kept_run lines_kept_run[where s = "[]", simplified])
  next
    case False
    with Cons.prems have "ls = []" "l \<noteq> []" "CHR 0x0A \<notin> set l" by (auto simp: kept_last_def split: if_splits)
    then show ?thesis by (simp add: lines_kept_def split_on_free)
  qed
qed simp

lemma lines_kept_kept:
  "(\<forall>l \<in> set (butlast (lines_kept s)). kept_line l) \<and> (lines_kept s \<noteq> [] \<longrightarrow> kept_last (last (lines_kept s)))"
proof -
  let ?ls = "split_on CHR 0x0A s"
  have free: "CHR 0x0A \<notin> set x" if "x \<in> set ?ls" for x using that by (rule split_on_sep_free)
  have kept: "kept_line (x @ [CHR 0x0A])" if "x \<in> set (butlast ?ls)" for x
    using free[OF in_set_butlastD[OF that]] by (auto simp: kept_line_def)
  show ?thesis
  proof (cases "last ?ls = []")
    case True
    then have "lines_kept s = map (\<lambda>l. l @ [CHR 0x0A]) (butlast ?ls)" by (simp add: lines_kept_def Let_def)
    then show ?thesis using kept by (auto simp: kept_last_def map_butlast[symmetric] last_map dest: in_set_butlastD)
  next
    case False
    then have "lines_kept s = map (\<lambda>l. l @ [CHR 0x0A]) (butlast ?ls) @ [last ?ls]" by (simp add: lines_kept_def Let_def)
    then show ?thesis using kept False free[OF last_in_set] by (auto simp: kept_last_def)
  qed
qed

text \<open>
  \<open>xs[i]\<close> with its negative indices, and \<open>xs[i:j]\<close>: an index counts from the end when it is
  negative, a slice is clipped to the sequence.
\<close>

definition py_nth :: "'a list \<Rightarrow> int \<Rightarrow> 'a res" where
  "py_nth xs i =
     (let j = (if i < 0 then i + int (length xs) else i)
      in if 0 \<le> j \<and> j < int (length xs) then Inr (xs ! nat j) else Inl IndexError)"

definition clip :: "'a list \<Rightarrow> int \<Rightarrow> nat" where
  "clip xs i = min (length xs) (nat (if i < 0 then i + int (length xs) else i))"

definition slice_bounds :: "'a list \<Rightarrow> int option \<Rightarrow> int option \<Rightarrow> nat \<times> nat" where
  "slice_bounds xs i j =
     (let a = (case i of None \<Rightarrow> 0 | Some i \<Rightarrow> clip xs i);
          b = (case j of None \<Rightarrow> length xs | Some j \<Rightarrow> clip xs j)
      in (a, max a b))"

definition py_slice :: "'a list \<Rightarrow> int option \<Rightarrow> int option \<Rightarrow> 'a list" where
  "py_slice xs i j = (case slice_bounds xs i j of (a, b) \<Rightarrow> take (b - a) (drop a xs))"

definition py_splice :: "'a list \<Rightarrow> int option \<Rightarrow> int option \<Rightarrow> 'a list \<Rightarrow> 'a list" where
  "py_splice xs i j ys = (case slice_bounds xs i j of (a, b) \<Rightarrow> take a xs @ ys @ drop b xs)"

lemma clip_nat [simp]: "clip xs (int n) = min (length xs) n"
  by (simp add: clip_def)

lemma py_nth_nat: "n < length xs \<Longrightarrow> py_nth xs (int n) = Inr (xs ! n)"
  by (simp add: py_nth_def)

lemma py_slice_to [simp]: "py_slice xs None (Some (int n)) = take n xs"
  by (simp add: py_slice_def slice_bounds_def min_def)

lemma py_slice_from [simp]: "py_slice xs (Some (int n)) None = drop n xs"
  by (simp add: py_slice_def slice_bounds_def min_def)

lemma py_slice_range [simp]: "py_slice xs (Some (int m)) (Some (int n)) = take (n - m) (drop m xs)"
  by (simp add: py_slice_def slice_bounds_def min_def max_def Let_def)

section \<open>Decimal numbers\<close>

definition digit_char :: "nat \<Rightarrow> char" where
  "digit_char n = char_of (48 + n)"

definition digit_val :: "char \<Rightarrow> nat" where
  "digit_val c = py_ord c - 48"

function str_of_nat :: "nat \<Rightarrow> string" where
  "str_of_nat n = (if n < 10 then [digit_char n] else str_of_nat (n div 10) @ [digit_char (n mod 10)])"
  by pat_completeness auto
termination by (relation "measure id") auto

declare str_of_nat.simps [simp del]

definition str_of_int :: "int \<Rightarrow> string" where
  "str_of_int i = (if i < 0 then CHR ''-'' # str_of_nat (nat (- i)) else str_of_nat (nat i))"

definition nat_of_digits :: "string \<Rightarrow> nat" where
  "nat_of_digits s = foldl (\<lambda>a c. 10 * a + digit_val c) 0 s"

text \<open>
  \<open>int(s)\<close> for an ASCII string: surrounding white space, an optional sign, then decimal digits
  with single underscores between them; anything else raises \<open>ValueError\<close>.
\<close>

definition nat_literal :: "string \<Rightarrow> nat option" where
  "nat_literal s =
     (let parts = split_on CHR ''_'' s
      in if list_all (\<lambda>p. p \<noteq> [] \<and> list_all is_digit p) parts
         then Some (nat_of_digits (concat parts)) else None)"

definition py_int :: "string \<Rightarrow> int res" where
  "py_int s =
     (let t = strip is_cspace s
      in case t of
           [] \<Rightarrow> Inl ValueError
         | c # r \<Rightarrow>
             if c = CHR ''-''
             then (case nat_literal r of None \<Rightarrow> Inl ValueError | Some n \<Rightarrow> Inr (- int n))
             else (case nat_literal (if c = CHR ''+'' then r else t) of
                     None \<Rightarrow> Inl ValueError | Some n \<Rightarrow> Inr (int n)))"

lemma py_ord_digit_char: "n < 10 \<Longrightarrow> py_ord (digit_char n) = 48 + n"
  by (simp add: py_ord_def digit_char_def)

lemma is_digit_digit_char [simp]: "n < 10 \<Longrightarrow> is_digit (digit_char n)"
  by (simp add: is_digit_def py_ord_digit_char)

lemma digit_val_digit_char [simp]: "n < 10 \<Longrightarrow> digit_val (digit_char n) = n"
  by (simp add: digit_val_def py_ord_digit_char)

lemma nat_of_digits_snoc [simp]: "nat_of_digits (s @ [c]) = 10 * nat_of_digits s + digit_val c"
  by (simp add: nat_of_digits_def)

lemma nat_of_digits_Nil [simp]: "nat_of_digits [] = 0"
  by (simp add: nat_of_digits_def)

lemma str_of_nat_digits: "list_all is_digit (str_of_nat n)"
proof (induction n rule: str_of_nat.induct)
  case (1 n)
  then show ?case by (subst str_of_nat.simps) auto
qed

lemma str_of_nat_not_Nil [simp]: "str_of_nat n \<noteq> []"
  by (subst str_of_nat.simps) simp

lemma nat_of_digits_str_of_nat [simp]: "nat_of_digits (str_of_nat n) = n"
proof (induction n rule: str_of_nat.induct)
  case (1 n)
  show ?case
  proof (cases "n < 10")
    case True
    then show ?thesis by (subst str_of_nat.simps) (simp add: nat_of_digits_def)
  next
    case False
    with 1 have "nat_of_digits (str_of_nat (n div 10)) = n div 10" by simp
    with False show ?thesis by (subst str_of_nat.simps) simp
  qed
qed

lemma str_of_nat_inj [simp]: "str_of_nat m = str_of_nat n \<longleftrightarrow> m = n"
  by (metis nat_of_digits_str_of_nat)

lemma digits_no_char: "list_all is_digit s \<Longrightarrow> \<not> is_digit c \<Longrightarrow> c \<notin> set s"
  by (auto simp: list_all_iff)

lemma is_digit_simps [simp]:
  "\<not> is_digit CHR ''_''" "\<not> is_digit CHR ''-''" "\<not> is_digit CHR ''+''" "\<not> is_digit CHR ''.''"
  "\<not> is_digit CHR '':''" "\<not> is_digit CHR '',''" "\<not> is_digit CHR '' ''" "\<not> is_digit CHR ''/''"
  "\<not> is_digit CHR ''r''" "\<not> is_digit CHR 0x0A"
  by (simp_all add: is_digit_def py_ord_def)

lemma nat_literal_digits:
  "s \<noteq> [] \<Longrightarrow> list_all is_digit s \<Longrightarrow> nat_literal s = Some (nat_of_digits s)"
  by (simp add: nat_literal_def split_on_free digits_no_char)

lemma strip_cspace_digits:
  assumes "list_all is_digit s" shows "strip is_cspace s = s"
  by (rule strip_id)
    (use assms in \<open>auto simp: list_all_iff dest: is_digit_not_cspace hd_in_set last_in_set\<close>)

lemma py_int_digits:
  assumes "s \<noteq> []" and "list_all is_digit s"
  shows "py_int s = Inr (int (nat_of_digits s))"
proof -
  obtain c r where s: "s = c # r" using assms(1) by (cases s) auto
  with assms have "is_digit c" by simp
  then have "c \<noteq> CHR ''-''" "c \<noteq> CHR ''+''" by auto
  with assms s show ?thesis
    by (simp add: py_int_def strip_cspace_digits nat_literal_digits)
qed

lemma py_int_str_of_nat [simp]: "py_int (str_of_nat n) = Inr (int n)"
  by (simp add: py_int_digits str_of_nat_digits)

lemma py_int_str_of_int [simp]: "py_int (str_of_int i) = Inr i"
proof (cases "i < 0")
  case True
  let ?d = "str_of_nat (nat (- i))"
  have d: "list_all is_digit ?d" by (rule str_of_nat_digits)
  have "is_digit (last ?d)"
    using d last_in_set[OF str_of_nat_not_Nil] by (auto simp: list_all_iff)
  then have "strip is_cspace (CHR ''-'' # ?d) = CHR ''-'' # ?d"
    by (intro strip_id) (auto simp: is_cspace_def py_ord_def is_digit_def)
  with True d show ?thesis by (simp add: py_int_def str_of_int_def nat_literal_digits)
next
  case False
  then show ?thesis by (simp add: str_of_int_def)
qed

text \<open>The parts before and after the first or the last separator are determined by the whole.\<close>

lemma append_first_sep: "c \<notin> set a \<Longrightarrow> c \<notin> set a' \<Longrightarrow> a @ c # t = a' @ c # t' \<Longrightarrow> a = a' \<and> t = t'"
proof (induction a arbitrary: a')
  case Nil
  then show ?case by (cases a') auto
next
  case (Cons x a)
  then show ?case by (cases a') auto
qed

lemma append_last_sep:
  assumes "c \<notin> set t" "c \<notin> set t'" "a @ c # t = a' @ c # t'" shows "a = a' \<and> t = t'"
proof -
  have "rev t @ c # rev a = rev t' @ c # rev a'" using arg_cong[OF assms(3), of rev] by simp
  moreover have "c \<notin> set u \<Longrightarrow> takeWhile (\<lambda>x. x \<noteq> c) (u @ c # v) = u" for u v by (induction u) auto
  then have "takeWhile (\<lambda>x. x \<noteq> c) (rev t @ c # rev a) = rev t" "takeWhile (\<lambda>x. x \<noteq> c) (rev t' @ c # rev a') = rev t'"
    using assms(1,2) by simp_all
  ultimately show ?thesis by (metis append.right_neutral append_same_eq list.inject rev_rev_ident same_append_eq)
qed

end
