(* ===== verification/Store.thy ===== *)
theory Store
  imports Prelude
begin

text \<open>
  Keyed stores: the contract of everything the source reads and writes by key (a \<open>dict\<close>, an
  \<open>OrderedDict\<close>, a \<open>KernelArgList\<close>, the patch caches), and Python's \<open>dict\<close> itself as an
  association list in insertion order. The loop that stores a sequence of pairs is analysed
  once, in the locale.
\<close>

locale keyed_store =
  fixes get :: "'s \<Rightarrow> 'k \<Rightarrow> 'v option"
    and put :: "'s \<Rightarrow> 'k \<Rightarrow> 'v \<Rightarrow> 's"
  assumes get_put: "get (put s k v) k' = (if k' = k then Some v else get s k')"
begin

definition puts :: "'s \<Rightarrow> ('k \<times> 'v) list \<Rightarrow> 's" where
  "puts s kvs = fold (\<lambda>(k, v) s. put s k v) kvs s"

lemma puts_simps [simp]:
  "puts s [] = s" "puts s ((k, v) # kvs) = puts (put s k v) kvs"
  by (simp_all add: puts_def)

lemma get_puts: "get (puts s kvs) k = (case map_of (rev kvs) k of Some v \<Rightarrow> Some v | None \<Rightarrow> get s k)"
  by (induction kvs arbitrary: s) (auto simp: get_put map_add_def split: option.splits)

lemma get_puts_other: "k \<notin> fst ` set kvs \<Longrightarrow> get (puts s kvs) k = get s k"
  using map_of_eq_None_iff[of "rev kvs" k] by (simp add: get_puts)

lemma get_puts_member:
  assumes "distinct (map fst kvs)" and "(k, v) \<in> set kvs"
  shows "get (puts s kvs) k = Some v"
proof -
  have "map_of (rev kvs) k = Some v" using assms by (simp add: rev_map[symmetric])
  then show ?thesis by (simp add: get_puts)
qed

lemma put_put_get: "get (put (put s k v) k w) k' = get (put s k w) k'"
  by (simp add: get_put)

lemma put_swap_get: "k \<noteq> l \<Longrightarrow> get (put (put s k v) l w) k' = get (put (put s l w) k v) k'"
  by (simp add: get_put)

end

text \<open>A store whose keys can be removed as well.\<close>

locale deletable_store = keyed_store get put
  for get :: "'s \<Rightarrow> 'k \<Rightarrow> 'v option" and put :: "'s \<Rightarrow> 'k \<Rightarrow> 'v \<Rightarrow> 's" +
  fixes del :: "'s \<Rightarrow> 'k \<Rightarrow> 's"
  assumes get_del: "get (del s k) k' = (if k' = k then None else get s k')"
begin

definition dels :: "'s \<Rightarrow> 'k list \<Rightarrow> 's" where
  "dels s ks = fold (\<lambda>k s. del s k) ks s"

lemma get_dels: "get (dels s ks) k = (if k \<in> set ks then None else get s k)"
  unfolding dels_def by (induction ks arbitrary: s) (auto simp: get_del)

lemma get_del_put: "get (del (put s k v) k) k' = (if k' = k then None else get s k')"
  by (simp add: get_del get_put)

end

section \<open>Python's dict\<close>

type_synonym ('k, 'v) dict = "('k \<times> 'v) list"

text \<open>Storing under a key that is present keeps its position, as \<open>dict\<close> and \<open>OrderedDict\<close> do.\<close>

fun dict_set :: "('k, 'v) dict \<Rightarrow> 'k \<Rightarrow> 'v \<Rightarrow> ('k, 'v) dict" where
  "dict_set [] k v = [(k, v)]"
| "dict_set ((k', v') # d) k v = (if k' = k then (k, v) # d else (k', v') # dict_set d k v)"

definition dict_get :: "('k, 'v) dict \<Rightarrow> 'k \<Rightarrow> 'v option" where
  "dict_get d k = map_of d k"

definition dict_del :: "('k, 'v) dict \<Rightarrow> 'k \<Rightarrow> ('k, 'v) dict" where
  "dict_del d k = filter (\<lambda>p. fst p \<noteq> k) d"

definition dict_update :: "('k, 'v) dict \<Rightarrow> ('k, 'v) dict \<Rightarrow> ('k, 'v) dict" where
  "dict_update d e = fold (\<lambda>(k, v) d. dict_set d k v) e d"

definition dict_keys :: "('k, 'v) dict \<Rightarrow> 'k list" where
  "dict_keys d = map fst d"

definition dict_ok :: "('k, 'v) dict \<Rightarrow> bool" where
  "dict_ok d \<longleftrightarrow> distinct (map fst d)"

lemma dict_get_set: "dict_get (dict_set d k v) k' = (if k' = k then Some v else dict_get d k')"
  by (induction d k v rule: dict_set.induct) (auto simp: dict_get_def)

lemma dict_get_del: "dict_get (dict_del d k) k' = (if k' = k then None else dict_get d k')"
  unfolding dict_get_def dict_del_def by (induction d) auto

interpretation dict: deletable_store dict_get dict_set dict_del
  by unfold_locales (simp_all add: dict_get_set dict_get_del)

lemma dict_update_puts: "dict_update d e = dict.puts d e"
  by (simp add: dict_update_def dict.puts_def)

lemma dict_get_Nil [simp]: "dict_get [] k = None"
  by (simp add: dict_get_def)

lemma dict_get_Cons: "dict_get ((k, v) # d) k' = (if k' = k then Some v else dict_get d k')"
  by (simp add: dict_get_def)

lemma dict_get_None: "dict_get d k = None \<longleftrightarrow> k \<notin> set (dict_keys d)"
  by (simp add: dict_get_def dict_keys_def map_of_eq_None_iff)

lemma dict_keys_simps [simp]: "dict_keys [] = []" "dict_keys ((k, v) # d) = k # dict_keys d"
  by (simp_all add: dict_keys_def)

lemma dict_ok_Nil [simp]: "dict_ok []"
  by (simp add: dict_ok_def)

lemma dict_set_keys: "set (dict_keys (dict_set d k v)) = insert k (set (dict_keys d))"
  by (induction d k v rule: dict_set.induct) (auto simp: dict_keys_def)

lemma dict_set_new: "k \<notin> set (dict_keys d) \<Longrightarrow> dict_set d k v = d @ [(k, v)]"
  by (induction d k v rule: dict_set.induct) (auto simp: dict_keys_def)

lemma dict_ok_set: "dict_ok d \<Longrightarrow> dict_ok (dict_set d k v)"
proof (induction d k v rule: dict_set.induct)
  case (2 k' v' d k v)
  then show ?case using dict_set_keys[of d k v] by (auto simp: dict_ok_def dict_keys_def)
qed (simp add: dict_ok_def)

lemma dict_ok_update: "dict_ok d \<Longrightarrow> dict_ok (dict_update d e)"
  unfolding dict_update_def by (induction e arbitrary: d) (auto simp: dict_ok_set)

lemma dict_ok_del: "dict_ok d \<Longrightarrow> dict_ok (dict_del d k)"
  by (simp add: dict_ok_def dict_del_def distinct_map_filter)

lemma dict_update_Nil_id: "dict_ok e \<Longrightarrow> dict_update [] e = e"
proof -
  have "dict_ok (d @ e) \<Longrightarrow> fold (\<lambda>(k, v) d. dict_set d k v) e d = d @ e" for d
  proof (induction e arbitrary: d)
    case (Cons p e)
    obtain k v where "p = (k, v)" by force
    with Cons show ?case by (simp add: dict_set_new dict_ok_def dict_keys_def)
  qed simp
  from this[of "[]"] show "dict_ok e \<Longrightarrow> dict_update [] e = e" by (simp add: dict_update_def)
qed

lemma dict_set_subset: "set (dict_set d k v) \<subseteq> insert (k, v) (set d)"
  by (induction d k v rule: dict_set.induct) auto

end
