(* ===== verification/EbuildFile.thy ===== *)
theory EbuildFile
  imports Store
begin

text \<open>
  The text of an ebuild (\<open>lib/portage_util.py\<close>, class \<open>EBuild\<close>): what is read off its lines,
  the rewriting that marks it as stable, the comparison without the commit, and bash arrays. The
  files around the texts are in \<open>Ebuild\<close>.

  A text is decoded already; bytes that are not UTF-8 are outside the model.
\<close>

section \<open>Rewriting\<close>

text \<open>\<open>_blank_or_eapi_re.match(line)\<close>.\<close>

definition blank_or_eapi :: "string \<Rightarrow> bool" where
  "blank_or_eapi line \<longleftrightarrow>
     (let t = lstrip is_space line in t = [] \<or> startswith t ''#'' \<or> startswith t ''EAPI='')"

definition variable_line :: "string \<times> string \<Rightarrow> string" where
  "variable_line kv = fst kv @ ''='' @ snd kv"

definition variable_lines :: "(string, string) dict \<Rightarrow> string list" where
  "variable_lines variables = map variable_line (sort variables)"

text \<open>\<open>varname, eq, _ = line.partition('=')\<close>: the stripped name, when there is an equals sign.\<close>

definition assigned :: "string \<Rightarrow> string option" where
  "assigned line = map_option (\<lambda>(varname, v). strip is_space varname) (split_first ''='' line)"

definition assigns :: "(string, string) dict \<Rightarrow> string \<Rightarrow> bool" where
  "assigns variables line \<longleftrightarrow>
     (case assigned line of None \<Rightarrow> False | Some k \<Rightarrow> k \<in> set (dict_keys variables))"

definition keep_line :: "(string, string) dict \<Rightarrow> bool \<Rightarrow> string \<Rightarrow> string list" where
  "keep_line variables make_stable line =
     (if startswith line ''KEYWORDS='' \<and> make_stable then [replace_all ''~'' [] line]
      else if assigns variables line then [] else [line])"

fun update_lines :: "(string, string) dict \<Rightarrow> bool \<Rightarrow> bool \<Rightarrow> string list \<Rightarrow> string list" where
  "update_lines variables make_stable written [] = []"
| "update_lines variables make_stable written (line # lines) =
     (if \<not> written \<and> \<not> blank_or_eapi line
      then variable_lines variables @ keep_line variables make_stable line
        @ update_lines variables make_stable True lines
      else keep_line variables make_stable line @ update_lines variables make_stable written lines)"

definition UpdateEBuild_text :: "(string, string) dict \<Rightarrow> bool \<Rightarrow> string \<Rightarrow> string" where
  "UpdateEBuild_text variables make_stable text =
     join [CHR 0x0A] (update_lines variables make_stable False (splitlines text)) @ [CHR 0x0A]"

section \<open>Classification\<close>

record classification =
  cl_workon :: bool
  cl_stable :: bool
  cl_manual :: bool
  cl_test :: bool

definition ECLASS_IMPLIES_TEST :: "string list" where
  "ECLASS_IMPLIES_TEST =
     [''cros-common.mk'', ''cros-ec'', ''cros-firmware'', ''cros-go'', ''cros-rust'', ''tast-bundle'']"

text \<open>
  \<open>_RE_MANUAL_UPREV.match(line)\<close> on a stripped line: the closing quote is optional and has to
  repeat the opening one.
\<close>

definition manual_uprev :: "string \<Rightarrow> bool" where
  "manual_uprev line \<longleftrightarrow>
     list_ex (\<lambda>p. list_ex (\<lambda>v. line = p @ v)
         [''1'', [CHR 0x22, CHR ''1''], [CHR 0x22, CHR ''1'', CHR 0x22],
          [CHR 0x27, CHR ''1''], [CHR 0x27, CHR ''1'', CHR 0x27]])
       [''CROS_WORKON_MANUAL_UPREV='', ''CROS_WORKON_BLACKLIST='']"

definition is_quote :: "char \<Rightarrow> bool" where
  "is_quote c \<longleftrightarrow> c = CHR 0x22 \<or> c = CHR 0x27"

text \<open>The words of a \<open>KEYWORDS\<close> line; an equals sign that only the comment has raises \<open>IndexError\<close>,
  which does not happen after \<open>startswith('KEYWORDS=')\<close>.\<close>

definition keyword_words :: "string \<Rightarrow> string list" where
  "keyword_words line =
     (let value = hd (split_max 1 CHR ''#'' line)
      in split_ws (strip is_quote (last (split_max 1 CHR ''='' value))))"

definition stable_word :: "string \<Rightarrow> bool" where
  "stable_word w \<longleftrightarrow> \<not> startswith w ''~'' \<and> w \<noteq> ''-*''"

text \<open>The attributes so far, and whether tests are restricted.\<close>

definition classify_line :: "string \<Rightarrow> classification \<times> bool \<Rightarrow> classification \<times> bool" where
  "classify_line line c =
     (if startswith line ''inherit ''
      then (let eclasses = split_ws line
            in ((fst c)\<lparr>cl_workon := cl_workon (fst c) \<or> ''cros-workon'' \<in> set eclasses,
                  cl_test := cl_test (fst c) \<or> list_ex (\<lambda>e. e \<in> set eclasses) ECLASS_IMPLIES_TEST\<rparr>, snd c))
      else if startswith line ''KEYWORDS=''
      then ((fst c)\<lparr>cl_stable := cl_stable (fst c) \<or> list_ex stable_word (keyword_words line)\<rparr>, snd c)
      else if manual_uprev (strip is_space line) then ((fst c)\<lparr>cl_manual := True\<rparr>, snd c)
      else if startswith line ''src_test()'' \<or> startswith line ''platform_pkg_test()''
        \<or> startswith line ''multilib_src_test()''
      then ((fst c)\<lparr>cl_test := True\<rparr>, snd c)
      else if startswith line ''RESTRICT='' \<and> split_first ''test'' line \<noteq> None then (fst c, True)
      else c)"

definition Classify :: "string \<Rightarrow> classification" where
  "Classify text =
     (let c = fold classify_line (lines_kept text)
                (\<lparr>cl_workon = False, cl_stable = False, cl_manual = False, cl_test = False\<rparr>, False)
      in (fst c)\<lparr>cl_test := cl_test (fst c) \<and> \<not> snd c\<rparr>)"

section \<open>Comparison\<close>

definition commit_line :: "string \<Rightarrow> bool" where
  "commit_line line \<longleftrightarrow> startswith line ''CROS_WORKON_COMMIT=''"

definition LoadEBuildForComparison :: "string \<Rightarrow> string" where
  "LoadEBuildForComparison text = join [CHR 0x0A] (filter (\<lambda>l. \<not> commit_line l) (splitlines text))"

definition AlmostSameEBuilds :: "string \<Rightarrow> string \<Rightarrow> bool" where
  "AlmostSameEBuilds text1 text2 \<longleftrightarrow> LoadEBuildForComparison text1 = LoadEBuildForComparison text2"

section \<open>Bash arrays and test names\<close>

definition quoted :: "string \<Rightarrow> string" where
  "quoted s = CHR 0x22 # s @ [CHR 0x22]"

definition FormatBashArray :: "string list \<Rightarrow> string res" where
  "FormatBashArray unformatted_list =
     (if length unformatted_list > 1
      then Inr (CHR ''('' # quoted (join [CHR 0x22, CHR '' '', CHR 0x22] unformatted_list) @ '')'')
      else res_bind (py_nth unformatted_list 0) (\<lambda>s. Inr (quoted s)))"

text \<open>\<open>_autotest_re.findall(s)\<close>.\<close>

function autotest_names :: "string \<Rightarrow> string list" where
  "autotest_names [] = []"
| "autotest_names (c # s) =
     (let r = drop (length ''+tests_'') (c # s); name = takeWhile is_word r
      in if startswith (c # s) ''+tests_'' \<and> name \<noteq> [] then name # autotest_names (drop (length name) r)
         else autotest_names s)"
  by pat_completeness auto
termination by (relation "measure length") auto

definition GetAutotestTestsFromSettings :: "(string, string) dict \<Rightarrow> string list res" where
  "GetAutotestTestsFromSettings settings =
     (case dict_get settings ''IUSE_TESTS'' of
        None \<Rightarrow> Inl KeyError
      | Some s \<Rightarrow> Inr (if s = [] then [] else autotest_names s))"

section \<open>Lines\<close>

lemma split_first_char: "c \<notin> set a \<Longrightarrow> split_first [c] (a @ c # b) = Some (a, b)"
  by (induction a) (auto simp: startswith_def)

lemma split_first_None: "c \<notin> set s \<Longrightarrow> split_first [c] s = None"
  by (induction s) (auto simp: startswith_def)

lemma splitlines_ended:
  assumes "\<forall>l \<in> set ls. line_free l" "ls \<noteq> []"
  shows "splitlines (join [CHR 0x0A] ls @ [CHR 0x0A]) = ls"
  using assms
proof (induction ls)
  case (Cons l ls)
  have nil: "splitlines [] = []" by (simp add: splitlines_def)
  show ?case
  proof (cases "ls = []")
    case True
    then show ?thesis using Cons.prems splitlines_Cons[of l "[]"] nil by simp
  next
    case False
    then show ?thesis using Cons splitlines_Cons[of l] by (simp add: join_Cons)
  qed
qed simp

text \<open>Names of variables that the rewriting and the classification leave alone.\<close>

definition reserved :: "string list" where
  "reserved = [''EAPI'', ''KEYWORDS'', ''inherit'', ''RESTRICT'', ''CROS_WORKON_MANUAL_UPREV'', ''CROS_WORKON_BLACKLIST'']"

definition variables_ok :: "(string, string) dict \<Rightarrow> bool" where
  "variables_ok vs \<longleftrightarrow>
     dict_ok vs \<and> list_all (\<lambda>(k, v). k \<noteq> [] \<and> list_all is_word k \<and> k \<notin> set reserved \<and> line_free v) vs"

lemma variables_ok_item:
  "variables_ok vs \<Longrightarrow> (k, v) \<in> set vs \<Longrightarrow> k \<noteq> [] \<and> list_all is_word k \<and> k \<notin> set reserved \<and> line_free v"
  by (auto simp: variables_ok_def list_all_iff)

lemma is_word_simps [simp]:
  "is_word c \<Longrightarrow> \<not> is_space c" "is_word c \<Longrightarrow> \<not> is_line_end c" "\<not> is_word CHR ''=''" "\<not> is_word CHR ''#''"
  "\<not> is_word CHR '' ''" "\<not> is_word CHR ''(''" "\<not> is_word CHR 0x0A"
  by (auto simp: is_word_def is_space_def is_line_end_def is_digit_def is_lower_def is_upper_def py_ord_def)

lemma word_no_char: "list_all is_word k \<Longrightarrow> \<not> is_word c \<Longrightarrow> c \<notin> set k"
  by (auto simp: list_all_iff)

lemma strip_word: "list_all is_word k \<Longrightarrow> strip is_space k = k"
  by (rule strip_id) (auto simp: list_all_iff)

lemma assigned_variable: "list_all is_word k \<Longrightarrow> assigned (variable_line (k, v)) = Some k"
  using split_first_char[of "CHR ''=''" k v]
  by (simp add: assigned_def variable_line_def word_no_char strip_word)

lemma line_free_word: "list_all is_word k \<Longrightarrow> line_free k"
  by (auto simp: line_free_def list_all_iff)

lemma variable_line_free: "list_all is_word k \<Longrightarrow> line_free v \<Longrightarrow> line_free (variable_line (k, v))"
  by (simp add: variable_line_def line_free_word is_line_end_def py_ord_def)

lemma strip_parts: "\<exists>x y. a = x @ strip p a @ y \<and> list_all p x \<and> list_all p y"
proof -
  have l: "s = takeWhile p s @ lstrip p s" "list_all p (takeWhile p s)" for s
    by (auto simp: lstrip_def list_all_iff dest: set_takeWhileD)
  have r: "\<exists>y. s = rstrip p s @ y \<and> list_all p y" for s
  proof -
    have "s = rev (dropWhile p (rev s)) @ rev (takeWhile p (rev s))"
      by (metis rev_append rev_rev_ident takeWhile_dropWhile_id)
    moreover have "list_all p (rev (takeWhile p (rev s)))" by (auto simp: list_all_iff dest: set_takeWhileD)
    ultimately show ?thesis unfolding rstrip_def by blast
  qed
  obtain y where "lstrip p a = strip p a @ y" "list_all p y" using r[of "lstrip p a"] by (auto simp: strip_def)
  with l[of a] show ?thesis by metis
qed

text \<open>A line that assigns a variable: its name between spaces, and the value.\<close>

lemma assigned_parts:
  assumes "assigned line = Some k" "list_all is_word k"
  obtains x y b where "line = x @ k @ y @ CHR ''='' # b" "list_all is_space x" "list_all is_space y"
proof -
  obtain a b where a: "line = a @ CHR ''='' # b" "k = strip is_space a"
    using assms(1) by (auto simp: assigned_def dest: split_first_Some)
  obtain x y where "a = x @ k @ y" "list_all is_space x" "list_all is_space y"
    using strip_parts[of a is_space] a(2) by blast
  with a(1) show thesis by (intro that[of x y b]) simp_all
qed

lemma lstrip_spaces: "list_all is_space x \<Longrightarrow> lstrip is_space (x @ s) = lstrip is_space s"
  by (induction x) (simp_all add: lstrip_def)

lemma lstrip_assigned:
  assumes "list_all is_space x" "k \<noteq> []" "list_all is_word k"
  shows "lstrip is_space (x @ k @ t) = k @ t"
  unfolding lstrip_spaces[OF assms(1)] using assms(2,3) by (cases k) (simp_all add: lstrip_def)

text \<open>The name that a line with a given beginning assigns.\<close>

lemma assigned_start:
  assumes "x @ k @ y @ CHR ''='' # b = p @ CHR ''='' # r" "list_all is_space x" "list_all is_space y"
    "list_all is_word k" "list_all is_word p" "p \<noteq> []"
  shows "k = p"
proof -
  have "CHR ''='' \<notin> set (x @ k @ y)" "CHR ''='' \<notin> set p"
    using assms(2-5) by (auto simp: list_all_iff is_space_def py_ord_def)
  then have p: "x @ k @ y = p" using append_first_sep[of "CHR ''=''" "x @ k @ y" p b r] assms(1) by simp
  have "x = []" using p assms(2,5) by (cases x) auto
  moreover have "y = []" using p assms(3,5) by (cases y rule: rev_cases) auto
  ultimately show ?thesis using p by simp
qed

lemma assigns_parts:
  assumes "variables_ok vs" "assigns vs line"
  obtains k v x y b where "(k, v) \<in> set vs" "line = x @ k @ y @ CHR ''='' # b" "list_all is_space x" "list_all is_space y"
    "k \<noteq> []" "list_all is_word k" "k \<notin> set reserved"
proof -
  obtain k v where k: "assigned line = Some k" "(k, v) \<in> set vs"
    using assms(2) by (auto simp: assigns_def dict_keys_def split: option.splits)
  note ok = variables_ok_item[OF assms(1) k(2)]
  obtain x y b where "line = x @ k @ y @ CHR ''='' # b" "list_all is_space x" "list_all is_space y"
    using ok by (elim conjE) (rule assigned_parts[OF k(1)])
  with k ok show thesis by (intro that[of k v x y b]) simp_all
qed

lemma word_names:
  "list_all is_word ''EAPI''" "list_all is_word ''KEYWORDS''" "list_all is_word ''RESTRICT''" "list_all is_word ''inherit''"
  "list_all is_word ''CROS_WORKON_MANUAL_UPREV''" "list_all is_word ''CROS_WORKON_BLACKLIST''"
  by code_simp+

lemma blank_not_assigned:
  assumes "variables_ok vs" "blank_or_eapi line" shows "\<not> assigns vs line"
proof
  assume "assigns vs line"
  with assms(1) obtain k v x y b where l: "(k, v) \<in> set vs" "line = x @ k @ y @ CHR ''='' # b" "list_all is_space x"
    "list_all is_space y" "k \<noteq> []" "list_all is_word k" "k \<notin> set reserved" by (rule assigns_parts)
  have t: "lstrip is_space line = k @ y @ CHR ''='' # b" using l by (simp add: lstrip_assigned)
  obtain c cs where k: "k = c # cs" using l(5) by (cases k) auto
  have "\<not> startswith (lstrip is_space line) ''#''" using t k l(6) by (auto simp: startswith_def)
  with assms(2) t l(5) have "startswith (lstrip is_space line) ''EAPI=''" by (simp add: blank_or_eapi_def Let_def)
  then obtain r where "k @ y @ CHR ''='' # b = ''EAPI'' @ CHR ''='' # r" using t by (auto simp: startswith_iff)
  then have "k = ''EAPI''" by (intro assigned_start[of "[]" k y b "''EAPI''" r] word_names) (use l in simp_all)
  with l(7) show False by (simp add: reserved_def)
qed

lemma keywords_not_assigned:
  assumes "variables_ok vs" "startswith line ''KEYWORDS=''" shows "\<not> assigns vs line"
proof
  assume "assigns vs line"
  with assms(1) obtain k v x y b where l: "(k, v) \<in> set vs" "line = x @ k @ y @ CHR ''='' # b" "list_all is_space x"
    "list_all is_space y" "k \<noteq> []" "list_all is_word k" "k \<notin> set reserved" by (rule assigns_parts)
  obtain r where "x @ k @ y @ CHR ''='' # b = ''KEYWORDS'' @ CHR ''='' # r" using assms(2) l(2) by (auto simp: startswith_iff)
  then have "k = ''KEYWORDS''" by (intro assigned_start[of x k y b "''KEYWORDS''" r] word_names) (use l in simp_all)
  with l(7) show False by (simp add: reserved_def)
qed

section \<open>The rewritten lines\<close>

definition make_stable_line :: "bool \<Rightarrow> string \<Rightarrow> string" where
  "make_stable_line make_stable line =
     (if startswith line ''KEYWORDS='' \<and> make_stable then replace_all ''~'' [] line else line)"

definition kept_lines :: "(string, string) dict \<Rightarrow> bool \<Rightarrow> string list \<Rightarrow> string list" where
  "kept_lines vs make_stable ls = map (make_stable_line make_stable) (filter (\<lambda>l. \<not> assigns vs l) ls)"

lemma replace_tilde: "replace_all ''~'' [] s = filter (\<lambda>c. c \<noteq> CHR ''~'') s"
  by (induction s) (simp_all add: replace_all.simps(2) startswith_def)

lemma keywords_stable: "startswith line ''KEYWORDS='' \<Longrightarrow> startswith (replace_all ''~'' [] line) ''KEYWORDS=''"
  unfolding replace_tilde by (auto simp: startswith_iff)

lemma make_stable_line_idem [simp]: "make_stable_line b (make_stable_line b l) = make_stable_line b l"
  by (auto simp: make_stable_line_def keywords_stable replace_tilde[of "replace_all _ _ _"] replace_tilde)

lemma make_stable_line_blank:
  assumes "blank_or_eapi l" shows "make_stable_line b l = l"
proof -
  have "\<not> startswith l ''KEYWORDS=''"
    using assms by (auto simp: blank_or_eapi_def startswith_iff lstrip_def is_space_def py_ord_def)
  then show ?thesis by (simp add: make_stable_line_def)
qed

lemma assigns_make_stable:
  assumes "variables_ok vs" shows "assigns vs (make_stable_line b l) = assigns vs l"
  using keywords_not_assigned[OF assms] keywords_stable by (auto simp: make_stable_line_def)

lemma keep_line_kept: "variables_ok vs \<Longrightarrow> keep_line vs b l = kept_lines vs b [l]"
  using keywords_not_assigned by (auto simp: keep_line_def kept_lines_def make_stable_line_def)

lemma kept_lines_append [simp]: "kept_lines vs b (xs @ ys) = kept_lines vs b xs @ kept_lines vs b ys"
  by (simp add: kept_lines_def)

lemma kept_lines_Nil [simp]: "kept_lines vs b [] = []"
  by (simp add: kept_lines_def)

lemma kept_lines_Cons: "kept_lines vs b (l # ls) = kept_lines vs b [l] @ kept_lines vs b ls"
  by (simp add: kept_lines_def)

lemma kept_lines_idem:
  "variables_ok vs \<Longrightarrow> kept_lines vs b (kept_lines vs b ls) = kept_lines vs b ls"
  by (simp add: kept_lines_def filter_map o_def assigns_make_stable)

lemma kept_lines_blank:
  assumes "variables_ok vs" "\<forall>l \<in> set ls. blank_or_eapi l" shows "kept_lines vs b ls = ls"
proof -
  have "filter (\<lambda>l. \<not> assigns vs l) ls = ls"
    using assms by (intro filter_True) (simp add: blank_not_assigned)
  then show ?thesis using assms(2) by (simp add: kept_lines_def make_stable_line_blank map_idI)
qed

lemma update_lines_written: "variables_ok vs \<Longrightarrow> update_lines vs b True ls = kept_lines vs b ls"
proof (induction ls)
  case (Cons l ls)
  then show ?case by (simp add: keep_line_kept kept_lines_Cons[of vs b l ls])
qed simp

lemma update_lines_parts:
  assumes "variables_ok vs" "\<forall>l \<in> set pre. blank_or_eapi l" "ls \<noteq> [] \<Longrightarrow> \<not> blank_or_eapi (hd ls)"
  shows "update_lines vs b False (pre @ ls) = pre @ (if ls = [] then [] else variable_lines vs) @ kept_lines vs b ls"
  using assms(2)
proof (induction pre)
  case Nil
  show ?case
  proof (cases ls)
    case (Cons l ls')
    then show ?thesis
      using assms(1,3) by (simp add: update_lines_written keep_line_kept kept_lines_Cons[of vs b l ls'])
  qed simp
next
  case (Cons l pre)
  then show ?case using kept_lines_blank[OF assms(1), of "[l]"] assms(1) by (simp add: keep_line_kept)
qed

lemma set_variable_lines: "set (variable_lines vs) = variable_line ` set vs"
  by (simp add: variable_lines_def)

lemma kept_lines_variables:
  assumes "variables_ok vs" shows "kept_lines vs b (variable_lines vs) = []"
proof -
  have "assigns vs l" if "l \<in> set (variable_lines vs)" for l
  proof -
    from that obtain k v where "l = variable_line (k, v)" "(k, v) \<in> set vs" by (auto simp: set_variable_lines)
    then show ?thesis using variables_ok_item[OF assms] assigned_variable[of k v]
      by (auto simp: assigns_def dict_keys_def rev_image_eqI)
  qed
  then show ?thesis by (simp add: kept_lines_def)
qed

section \<open>The rewritten doc\<close>

lemma kept_lines_free: "\<forall>l \<in> set ls. line_free l \<Longrightarrow> \<forall>l \<in> set (kept_lines vs b ls). line_free l"
  by (auto simp: kept_lines_def make_stable_line_def replace_tilde line_free_def list_all_iff)

lemma variable_lines_free: "variables_ok vs \<Longrightarrow> \<forall>l \<in> set (variable_lines vs). line_free l"
  using variables_ok_item variable_line_free by (fastforce simp: set_variable_lines)

text \<open>The lines of a doc: those the variables are written after, and the others.\<close>

definition blank_lines :: "string \<Rightarrow> string list" where
  "blank_lines doc = takeWhile blank_or_eapi (splitlines doc)"

definition body_lines :: "string \<Rightarrow> string list" where
  "body_lines doc = dropWhile blank_or_eapi (splitlines doc)"

lemma text_lines:
  "splitlines doc = blank_lines doc @ body_lines doc" "\<forall>l \<in> set (blank_lines doc). blank_or_eapi l"
  "body_lines doc \<noteq> [] \<Longrightarrow> \<not> blank_or_eapi (hd (body_lines doc))"
  using hd_dropWhile[of blank_or_eapi "splitlines doc"]
  by (auto simp: blank_lines_def body_lines_def dest: set_takeWhileD)

definition new_lines :: "(string, string) dict \<Rightarrow> bool \<Rightarrow> string \<Rightarrow> string list" where
  "new_lines vs b doc =
     blank_lines doc @ (if body_lines doc = [] then [] else variable_lines vs) @ kept_lines vs b (body_lines doc)"

lemma update_lines_new: "variables_ok vs \<Longrightarrow> update_lines vs b False (splitlines doc) = new_lines vs b doc"
  unfolding text_lines(1) new_lines_def by (rule update_lines_parts) (simp_all add: text_lines(2,3))

lemma new_lines_free: "variables_ok vs \<Longrightarrow> \<forall>l \<in> set (new_lines vs b doc). line_free l"
  using splitlines_free[of _ doc] kept_lines_free[of "body_lines doc"] variable_lines_free[of vs]
  unfolding text_lines(1) new_lines_def by auto

lemma no_body_lines: "kept_lines [] b ls = map (make_stable_line b) ls"
  by (simp add: kept_lines_def assigns_def dict_keys_def split: option.split)

lemma new_lines_Nil: "variables_ok vs \<Longrightarrow> new_lines vs b doc = [] \<Longrightarrow> splitlines doc = []"
  unfolding text_lines(1) by (cases vs) (auto simp: new_lines_def no_body_lines variable_lines_def split: if_splits)

lemma assigned_key: "assigned l = Some k \<Longrightarrow> (k, v) \<in> set vs \<Longrightarrow> assigns vs l"
  by (auto simp: assigns_def dict_keys_def rev_image_eqI)

lemma variable_line_body:
  assumes "variables_ok vs" "l \<in> set (variable_lines vs)" shows "\<not> blank_or_eapi l"
proof -
  obtain k v where "l = variable_line (k, v)" "(k, v) \<in> set vs" using assms(2) by (auto simp: set_variable_lines)
  then have "assigns vs l" using variables_ok_item[OF assms(1)] assigned_variable[of k v] by (auto intro: assigned_key)
  then show ?thesis using blank_not_assigned[OF assms(1)] by blast
qed

lemma variable_lines_Nil: "variable_lines vs = [] \<longleftrightarrow> vs = []"
  by (metis map_is_Nil_conv set_empty set_sort variable_lines_def)

lemma UpdateEBuild_lines:
  assumes "variables_ok vs"
  shows "splitlines (UpdateEBuild_text vs b doc) = (if splitlines doc = [] then [[]] else new_lines vs b doc)"
proof (cases "splitlines doc = []")
  case True
  then show ?thesis by (simp add: UpdateEBuild_text_def) (simp add: splitlines_def)
next
  case False
  then have "new_lines vs b doc \<noteq> []" using new_lines_Nil[OF assms] by blast
  then show ?thesis
    using False splitlines_ended[OF new_lines_free[OF assms]] by (simp add: UpdateEBuild_text_def update_lines_new[OF assms])
qed

text \<open>The parts of a doc that has been rewritten.\<close>

lemma parts_unique:
  assumes "splitlines doc = pre @ ls" "\<forall>l \<in> set pre. blank_or_eapi l" "ls \<noteq> [] \<Longrightarrow> \<not> blank_or_eapi (hd ls)"
  shows "blank_lines doc = pre" "body_lines doc = ls"
  using assms by (cases ls; simp add: blank_lines_def body_lines_def takeWhile_append2 dropWhile_append2)+

lemma rewritten_parts:
  assumes "variables_ok vs" "vs \<noteq> []" "body_lines doc \<noteq> []"
  shows "blank_lines (UpdateEBuild_text vs b doc) = blank_lines doc"
    "body_lines (UpdateEBuild_text vs b doc) = variable_lines vs @ kept_lines vs b (body_lines doc)"
proof -
  have vl: "variable_lines vs \<noteq> []" using assms(2) by (simp add: variable_lines_Nil)
  have l: "splitlines (UpdateEBuild_text vs b doc) = blank_lines doc @ variable_lines vs @ kept_lines vs b (body_lines doc)"
    using UpdateEBuild_lines[OF assms(1)] assms(3) text_lines(1)[of doc] by (simp add: new_lines_def)
  have "\<not> blank_or_eapi (hd (variable_lines vs @ kept_lines vs b (body_lines doc)))"
    using vl variable_line_body[OF assms(1)] by simp
  note parts = parts_unique[OF l text_lines(2) this]
  show "blank_lines (UpdateEBuild_text vs b doc) = blank_lines doc"
    "body_lines (UpdateEBuild_text vs b doc) = variable_lines vs @ kept_lines vs b (body_lines doc)"
    by (rule parts)+
qed

lemma UpdateEBuild_idem:
  assumes "variables_ok vs" "vs \<noteq> []" "body_lines doc \<noteq> []"
  shows "UpdateEBuild_text vs b (UpdateEBuild_text vs b doc) = UpdateEBuild_text vs b doc"
proof -
  let ?t = "UpdateEBuild_text vs b doc"
  have "body_lines ?t \<noteq> []" using rewritten_parts(2)[OF assms] assms(2) by (simp add: variable_lines_Nil)
  then have "new_lines vs b ?t = new_lines vs b doc"
    using assms(3) rewritten_parts[OF assms] kept_lines_variables[OF assms(1)] kept_lines_idem[OF assms(1)]
    by (simp add: new_lines_def)
  then show ?thesis using update_lines_new[OF assms(1)] by (simp add: UpdateEBuild_text_def)
qed

lemma filter_key:
  "distinct (map fst xs) \<Longrightarrow> (k, v) \<in> set xs \<Longrightarrow> filter (\<lambda>p. fst p = k) xs = [(k, v)]"
proof (induction xs)
  case (Cons p xs)
  show ?case
  proof (cases "fst p = k")
    case True
    with Cons.prems(1) have "k \<notin> fst ` set xs" by simp
    then have other: "\<forall>q \<in> set xs. fst q \<noteq> k" by blast
    with Cons.prems(2) have "p = (k, v)" by auto
    with other show ?thesis by (simp add: filter_empty_conv)
  next
    case False
    then show ?thesis using Cons by auto
  qed
qed simp

lemma assigning_variable_lines:
  assumes "variables_ok vs" "(k, v) \<in> set vs"
  shows "filter (\<lambda>l. assigned l = Some k) (variable_lines vs) = [variable_line (k, v)]"
proof -
  have "distinct (map fst (sort vs))"
    using assms(1) by (simp add: variables_ok_def dict_ok_def dict_keys_def distinct_map inj_on_def)
  then have "filter (\<lambda>p. fst p = k) (sort vs) = [(k, v)]" by (rule filter_key) (simp add: assms(2))
  moreover have "filter ((\<lambda>l. assigned l = Some k) \<circ> variable_line) (sort vs) = filter (\<lambda>p. fst p = k) (sort vs)"
  proof (rule filter_cong[OF refl])
    fix p assume "p \<in> set (sort vs)"
    moreover obtain j w where "p = (j, w)" by force
    ultimately show "((\<lambda>l. assigned l = Some k) \<circ> variable_line) p = (fst p = k)"
      using variables_ok_item[OF assms(1)] assigned_variable[of j w] by auto
  qed
  ultimately show ?thesis by (simp add: variable_lines_def filter_map)
qed

lemma kept_not_assigning:
  assumes "variables_ok vs" "l \<in> set (kept_lines vs b ls)" shows "\<not> assigns vs l"
  using assms by (auto simp: kept_lines_def assigns_make_stable)

text \<open>C13. Rewriting an ebuild that has more than comments: each variable is assigned by one line, the
  one that is written, and every other line is there, in order, with the tildes of the keywords
  removed when the ebuild is made stable. Rewriting twice is rewriting once.\<close>

theorem update_ebuild_result:
  assumes "variables_ok vs" "vs \<noteq> []" "\<exists>l \<in> set (splitlines doc). \<not> blank_or_eapi l"
  shows "(\<forall>(k, v) \<in> set vs. filter (\<lambda>l. assigned l = Some k) (splitlines (UpdateEBuild_text vs b doc)) = [k @ ''='' @ v])
    \<and> filter (\<lambda>l. \<not> assigns vs l) (splitlines (UpdateEBuild_text vs b doc))
        = map (\<lambda>l. if b \<and> startswith l ''KEYWORDS='' then filter (\<lambda>c. c \<noteq> CHR ''~'') l else l)
            (filter (\<lambda>l. \<not> assigns vs l) (splitlines doc))
    \<and> UpdateEBuild_text vs b (UpdateEBuild_text vs b doc) = UpdateEBuild_text vs b doc"
proof -
  have body: "body_lines doc \<noteq> []" using assms(3) by (auto simp: body_lines_def)
  then have lines: "splitlines (UpdateEBuild_text vs b doc)
      = blank_lines doc @ variable_lines vs @ kept_lines vs b (body_lines doc)"
    using UpdateEBuild_lines[OF assms(1)] text_lines(1)[of doc] by (simp add: new_lines_def)
  have blank: "\<not> assigns vs l" if "l \<in> set (blank_lines doc)" for l
    using that text_lines(2) blank_not_assigned[OF assms(1)] by blast
  have "filter (\<lambda>l. assigned l = Some k) (splitlines (UpdateEBuild_text vs b doc)) = [k @ ''='' @ v]"
    if kv: "(k, v) \<in> set vs" for k v
  proof -
    have "filter (\<lambda>l. assigned l = Some k) (blank_lines doc) = []"
      "filter (\<lambda>l. assigned l = Some k) (kept_lines vs b (body_lines doc)) = []"
      unfolding filter_empty_conv using blank kept_not_assigning[OF assms(1)] assigned_key[OF _ kv] by blast+
    then show ?thesis using assigning_variable_lines[OF assms(1) kv] by (simp add: lines variable_line_def)
  qed
  moreover have "filter (\<lambda>l. \<not> assigns vs l) (splitlines (UpdateEBuild_text vs b doc)) = kept_lines vs b (splitlines doc)"
  proof -
    have "filter (\<lambda>l. \<not> assigns vs l) ls = ls" if "\<forall>l \<in> set ls. \<not> assigns vs l" for ls
      using that by (simp add: filter_id_conv)
    moreover have "filter (\<lambda>l. \<not> assigns vs l) (variable_lines vs) = []"
      using kept_lines_variables[OF assms(1), of b] by (simp add: kept_lines_def)
    ultimately show ?thesis
      using blank kept_not_assigning[OF assms(1)] kept_lines_blank[OF assms(1) text_lines(2)]
      unfolding lines text_lines(1)[of doc] by simp
  qed
  moreover have "make_stable_line b = (\<lambda>l. if b \<and> startswith l ''KEYWORDS='' then filter (\<lambda>c. c \<noteq> CHR ''~'') l else l)"
    by (auto simp: make_stable_line_def replace_tilde)
  ultimately show ?thesis using UpdateEBuild_idem[OF assms(1,2) body] by (auto simp: kept_lines_def)
qed

section \<open>Comparing rewritten ebuilds\<close>

definition uprev_variables :: "string \<Rightarrow> string \<Rightarrow> (string, string) dict" where
  "uprev_variables commits trees = [(''CROS_WORKON_COMMIT'', commits), (''CROS_WORKON_TREE'', trees)]"

lemma uprev_variables_ok: "variables_ok (uprev_variables c t) \<longleftrightarrow> line_free c \<and> line_free t"
proof -
  have "list_all is_word ''CROS_WORKON_COMMIT''" "list_all is_word ''CROS_WORKON_TREE''" by code_simp+
  then show ?thesis by (simp add: variables_ok_def uprev_variables_def dict_ok_def dict_keys_def reserved_def)
qed

lemma uprev_variable_lines:
  "variable_lines (uprev_variables c t) = [variable_line (''CROS_WORKON_COMMIT'', c), variable_line (''CROS_WORKON_TREE'', t)]"
proof -
  have "''CROS_WORKON_COMMIT'' < ''CROS_WORKON_TREE''" by code_simp
  then have "sorted (uprev_variables c t)" by (simp add: uprev_variables_def less_eq_prod_def)
  then have "sort (uprev_variables c t) = uprev_variables c t" by (rule sorted_sort_id)
  then show ?thesis by (simp add: variable_lines_def uprev_variables_def)
qed

lemma join_inj:
  assumes "\<forall>l \<in> set xs. line_free l" "\<forall>l \<in> set ys. line_free l" "xs \<noteq> []" "ys \<noteq> []"
    "join [CHR 0x0A] xs = join [CHR 0x0A] ys"
  shows "xs = ys"
proof -
  have "CHR 0x0A \<notin> set l" if "line_free l" for l using that by (auto simp: line_free_def list_all_iff)
  then show ?thesis using assms split_on_join[of xs "CHR 0x0A"] split_on_join[of ys "CHR 0x0A"] by metis
qed

lemma kept_lines_keys:
  assumes "dict_keys vs = dict_keys ws" shows "kept_lines vs b ls = kept_lines ws b ls"
proof -
  have "assigns vs = assigns ws" using assms by (simp add: assigns_def fun_eq_iff split: option.split)
  then show ?thesis by (simp add: kept_lines_def)
qed

lemma Load_uprev:
  assumes "line_free c" "line_free t" "body_lines doc \<noteq> []"
  shows "LoadEBuildForComparison (UpdateEBuild_text (uprev_variables c t) b doc) =
     join [CHR 0x0A] (filter (\<lambda>l. \<not> commit_line l) (blank_lines doc) @ variable_line (''CROS_WORKON_TREE'', t)
       # filter (\<lambda>l. \<not> commit_line l) (kept_lines (uprev_variables [] []) b (body_lines doc)))"
proof -
  have ok: "variables_ok (uprev_variables c t)" using assms by (simp add: uprev_variables_ok)
  have "commit_line (variable_line (''CROS_WORKON_COMMIT'', c))" "\<not> commit_line (variable_line (''CROS_WORKON_TREE'', t))"
    by (simp_all add: commit_line_def variable_line_def startswith_def)
  moreover have "splitlines doc \<noteq> []" using assms(3) by (auto simp: body_lines_def)
  moreover have "kept_lines (uprev_variables c t) b ls = kept_lines (uprev_variables [] []) b ls" for ls
    by (rule kept_lines_keys) (simp add: uprev_variables_def dict_keys_def)
  ultimately show ?thesis
    using assms(3) by (simp add: LoadEBuildForComparison_def UpdateEBuild_lines[OF ok] new_lines_def uprev_variable_lines)
qed

text \<open>Two revisions made from the same unstable ebuild are the same up to the commit if and only if
  their trees are the same.\<close>

lemma AlmostSame_uprev:
  assumes "line_free c" "line_free t" "line_free c'" "line_free t'" "body_lines doc \<noteq> []"
  shows "AlmostSameEBuilds (UpdateEBuild_text (uprev_variables c t) b doc) (UpdateEBuild_text (uprev_variables c' t') b doc)
    \<longleftrightarrow> t = t'"
proof
  let ?pre = "filter (\<lambda>l. \<not> commit_line l) (blank_lines doc)"
  let ?post = "filter (\<lambda>l. \<not> commit_line l) (kept_lines (uprev_variables [] []) b (body_lines doc))"
  have free: "line_free l" if "l \<in> set (splitlines doc)" for l using that by (rule splitlines_free)
  have ok: "\<forall>l \<in> set (?pre @ variable_line (''CROS_WORKON_TREE'', x) # ?post). line_free l" if x: "line_free x" for x
  proof -
    have "line_free (variable_line (''CROS_WORKON_TREE'', x))"
      using x by (intro variable_line_free) code_simp
    moreover have "\<forall>l \<in> set (blank_lines doc) \<union> set (body_lines doc). line_free l"
      using free text_lines(1)[of doc] by auto
    moreover from this have "\<forall>l \<in> set (kept_lines (uprev_variables [] []) b (body_lines doc)). line_free l"
      by (intro kept_lines_free) blast
    ultimately show ?thesis by auto
  qed
  assume "AlmostSameEBuilds (UpdateEBuild_text (uprev_variables c t) b doc) (UpdateEBuild_text (uprev_variables c' t') b doc)"
  then have "join [CHR 0x0A] (?pre @ variable_line (''CROS_WORKON_TREE'', t) # ?post)
      = join [CHR 0x0A] (?pre @ variable_line (''CROS_WORKON_TREE'', t') # ?post)"
    using assms by (simp add: AlmostSameEBuilds_def Load_uprev)
  then have "?pre @ variable_line (''CROS_WORKON_TREE'', t) # ?post = ?pre @ variable_line (''CROS_WORKON_TREE'', t') # ?post"
    by (rule join_inj[OF ok[OF assms(2)] ok[OF assms(4)], rotated 2]) simp_all
  then show "t = t'" by (simp add: variable_line_def)
next
  assume "t = t'"
  then show "AlmostSameEBuilds (UpdateEBuild_text (uprev_variables c t) b doc) (UpdateEBuild_text (uprev_variables c' t') b doc)"
    using assms by (simp add: AlmostSameEBuilds_def Load_uprev)
qed

section \<open>What is read off a rewritten ebuild\<close>

definition workon_line :: "string \<Rightarrow> bool" where
  "workon_line l \<longleftrightarrow> startswith l ''inherit '' \<and> ''cros-workon'' \<in> set (split_ws l)"

definition stable_line :: "string \<Rightarrow> bool" where
  "stable_line l \<longleftrightarrow> startswith l ''KEYWORDS='' \<and> list_ex stable_word (keyword_words l)"

definition plain_line :: "string \<Rightarrow> bool" where
  "plain_line l \<longleftrightarrow> \<not> startswith l ''inherit '' \<and> \<not> startswith l ''KEYWORDS=''"

definition manual_line :: "string \<Rightarrow> bool" where
  "manual_line l \<longleftrightarrow> plain_line l \<and> manual_uprev (strip is_space l)"

definition test_function :: "string \<Rightarrow> bool" where
  "test_function l \<longleftrightarrow> startswith l ''src_test()'' \<or> startswith l ''platform_pkg_test()'' \<or> startswith l ''multilib_src_test()''"

definition test_line :: "string \<Rightarrow> bool" where
  "test_line l \<longleftrightarrow>
     (if startswith l ''inherit '' then list_ex (\<lambda>e. e \<in> set (split_ws l)) ECLASS_IMPLIES_TEST
      else plain_line l \<and> \<not> manual_uprev (strip is_space l) \<and> test_function l)"

definition restrict_line :: "string \<Rightarrow> bool" where
  "restrict_line l \<longleftrightarrow> plain_line l \<and> \<not> manual_uprev (strip is_space l) \<and> \<not> test_function l
     \<and> startswith l ''RESTRICT='' \<and> split_first ''test'' l \<noteq> None"

lemma keywords_not_inherit: "startswith l ''inherit '' \<Longrightarrow> \<not> startswith l ''KEYWORDS=''"
  by (auto simp: startswith_iff)

lemma classify_line_facts:
  "classify_line l (c, r) =
     (c\<lparr>cl_workon := cl_workon c \<or> workon_line l, cl_stable := cl_stable c \<or> stable_line l,
        cl_manual := cl_manual c \<or> manual_line l, cl_test := cl_test c \<or> test_line l\<rparr>, r \<or> restrict_line l)"
  using keywords_not_inherit[of l]
  by (cases c) (auto simp: classify_line_def workon_line_def stable_line_def manual_line_def test_line_def restrict_line_def
      plain_line_def test_function_def Let_def)

lemma classify_lines:
  "fold classify_line ls (c, r) =
     (c\<lparr>cl_workon := cl_workon c \<or> list_ex workon_line ls, cl_stable := cl_stable c \<or> list_ex stable_line ls,
        cl_manual := cl_manual c \<or> list_ex manual_line ls, cl_test := cl_test c \<or> list_ex test_line ls\<rparr>,
      r \<or> list_ex restrict_line ls)"
  by (induction ls arbitrary: c r) (simp_all add: classify_line_facts disj_assoc)

lemma Classify_lines:
  "Classify s = \<lparr>cl_workon = list_ex workon_line (lines_kept s), cl_stable = list_ex stable_line (lines_kept s),
     cl_manual = list_ex manual_line (lines_kept s),
     cl_test = list_ex test_line (lines_kept s) \<and> \<not> list_ex restrict_line (lines_kept s)\<rparr>"
  by (simp add: Classify_def classify_lines Let_def)

text \<open>The lines that assign one of the variables say nothing else.\<close>

lemma assigns_start:
  assumes "variables_ok vs" "assigns vs (p @ c # r)" "list_all is_word p" "p \<noteq> []" "\<not> is_word c"
  shows "p \<notin> set reserved \<and> (is_space c \<or> c = CHR ''='')"
proof -
  obtain k v x y b where l: "(k, v) \<in> set vs" "p @ c # r = x @ k @ y @ CHR ''='' # b" "list_all is_space x"
    "list_all is_space y" "k \<noteq> []" "list_all is_word k" "k \<notin> set reserved"
    using assigns_parts[OF assms(1,2)] by metis
  have "x = []" using l(2,3) assms(3,4) by (cases x; cases p) auto
  then have eq: "p @ c # r = k @ y @ CHR ''='' # b" using l(2) by simp
  obtain d u where d: "y @ CHR ''='' # b = d # u" "is_space d \<or> d = CHR ''=''" using l(4) by (cases y) auto
  then have "\<not> is_word d" by auto
  then have "takeWhile is_word (k @ d # u) = k" using l(6) by (simp add: span_append(1))
  moreover have "takeWhile is_word (p @ c # r) = p" using assms(3,5) by (simp add: span_append(1))
  ultimately have "p = k" using eq d(1) by simp
  then show ?thesis using eq d l(7) by simp
qed

lemma startswith_parts: "startswith l (p @ [c]) \<Longrightarrow> \<exists>r. l = p @ c # r"
  by (auto simp: startswith_iff)

lemma assigns_not_start:
  assumes "variables_ok vs" "assigns vs l" "list_all is_word p" "p \<noteq> []" "\<not> is_word c"
    and "p \<in> set reserved \<or> (\<not> is_space c \<and> c \<noteq> CHR ''='')"
  shows "\<not> startswith l (p @ c # q)"
proof
  assume "startswith l (p @ c # q)"
  then obtain r where "l = p @ c # r" by (auto simp: startswith_iff)
  with assigns_start[OF assms(1) _ assms(3-5), of r] assms(2,6) show False by auto
qed

lemma test_names: "list_all is_word ''src_test''" "list_all is_word ''platform_pkg_test''" "list_all is_word ''multilib_src_test''"
  by code_simp+

lemma assigns_plain:
  assumes "variables_ok vs" "assigns vs l"
  shows "\<not> startswith l ''inherit ''" "\<not> startswith l ''KEYWORDS=''" "\<not> startswith l ''RESTRICT=''" "\<not> test_function l"
proof -
  note no = assigns_not_start[OF assms]
  show "\<not> startswith l ''inherit ''" using no[OF word_names(4), of "CHR '' ''" "[]"] by (simp add: reserved_def)
  show "\<not> startswith l ''KEYWORDS=''" using no[OF word_names(2), of "CHR ''=''" "[]"] by (simp add: reserved_def)
  show "\<not> startswith l ''RESTRICT=''" using no[OF word_names(3), of "CHR ''=''" "[]"] by (simp add: reserved_def)
  have "\<not> is_space CHR ''(''" by code_simp
  then show "\<not> test_function l"
    using no[OF test_names(1), of "CHR ''(''" "'')''"] no[OF test_names(2), of "CHR ''(''" "'')''"]
      no[OF test_names(3), of "CHR ''(''" "'')''"] by (simp add: test_function_def)
qed

lemma assigns_not_manual:
  assumes "variables_ok vs" "assigns vs l" shows "\<not> manual_uprev (strip is_space l)"
proof
  assume "manual_uprev (strip is_space l)"
  then have "(\<exists>v. strip is_space l = ''CROS_WORKON_MANUAL_UPREV'' @ CHR ''='' # v)
      \<or> (\<exists>v. strip is_space l = ''CROS_WORKON_BLACKLIST'' @ CHR ''='' # v)"
    by (auto simp: manual_uprev_def)
  moreover have "''CROS_WORKON_MANUAL_UPREV'' \<in> set reserved" "''CROS_WORKON_BLACKLIST'' \<in> set reserved"
    by (simp_all add: reserved_def)
  ultimately obtain p v where p: "strip is_space l = p @ CHR ''='' # v" "p \<in> set reserved" "list_all is_word p" "p \<noteq> []"
    using word_names(5,6) by (metis list.distinct(1))
  obtain x y where l: "l = x @ p @ CHR ''='' # v @ y" "list_all is_space x"
    using strip_parts[of l is_space] p(1) by force
  obtain k w x' y' b where k: "(k, w) \<in> set vs" "l = x' @ k @ y' @ CHR ''='' # b" "list_all is_space x'"
    "list_all is_space y'" "k \<noteq> []" "list_all is_word k" "k \<notin> set reserved" by (rule assigns_parts[OF assms])
  have "lstrip is_space l = p @ CHR ''='' # v @ y" unfolding l(1) using l(2) p(3,4) by (intro lstrip_assigned)
  moreover have "lstrip is_space l = k @ y' @ CHR ''='' # b" unfolding k(2) using k by (intro lstrip_assigned)
  ultimately have "[] @ k @ y' @ CHR ''='' # b = p @ CHR ''='' # (v @ y)" by simp
  then have "k = p" by (rule assigned_start) (use k p in simp_all)
  with k(7) p(2) show False by simp
qed

text \<open>A newline at the end of a line does not matter, except for the quotes of the keywords.\<close>

lemma startswith_newline: "CHR 0x0A \<notin> set p \<Longrightarrow> startswith (l @ [CHR 0x0A]) p \<longleftrightarrow> startswith l p"
proof (induction p arbitrary: l)
  case (Cons c p)
  then show ?case by (cases l) (auto simp: startswith_def)
qed (simp add: startswith_def)

lemma split_ws_newline: "split_ws (l @ [CHR 0x0A]) = split_ws l"
proof -
  have "split_ws_aux acc (l @ [CHR 0x0A]) = split_ws_aux acc l" for acc
    by (induction l arbitrary: acc) (simp_all add: is_space_def py_ord_def)
  then show ?thesis by (simp add: split_ws_def)
qed

lemma strip_newline: "strip is_space (l @ [CHR 0x0A]) = strip is_space l"
proof -
  have s: "is_space CHR 0x0A" by code_simp
  show ?thesis
  proof (cases "\<exists>c \<in> set l. \<not> is_space c")
    case True
    then obtain c where "c \<in> set l" "\<not> is_space c" by blast
    then have "lstrip is_space (l @ [CHR 0x0A]) = lstrip is_space l @ [CHR 0x0A]" by (simp add: lstrip_def dropWhile_append1)
    then show ?thesis using s by (simp add: strip_def)
  next
    case False
    then have "lstrip is_space l = []" "lstrip is_space (l @ [CHR 0x0A]) = []" using s by (auto simp: lstrip_def)
    then show ?thesis by (simp add: strip_def)
  qed
qed

lemma split_first_found: "split_first p s \<noteq> None \<longleftrightarrow> (\<exists>a b. s = a @ p @ b)"
proof
  show "\<exists>a b. s = a @ p @ b" if "split_first p s \<noteq> None" using that split_first_Some[of p s] by auto
  assume "\<exists>a b. s = a @ p @ b"
  then obtain a b where "s = a @ p @ b" by blast
  then show "split_first p s \<noteq> None"
  proof (induction a arbitrary: s)
    case Nil
    then have "startswith s p" by simp
    then show ?case by (cases s) (auto simp: startswith_def[of "[]"])
  next
    case (Cons c a)
    then show ?case by (cases s) auto
  qed
qed

lemma split_first_newline: "split_first ''test'' (l @ [CHR 0x0A]) \<noteq> None \<longleftrightarrow> split_first ''test'' l \<noteq> None"
proof -
  have "\<exists>a b. l = a @ ''test'' @ b" if u: "l @ [CHR 0x0A] = a @ ''test'' @ b" for a b
  proof (cases b rule: rev_cases)
    case Nil
    with u have "l @ [CHR 0x0A] = (a @ ''tes'') @ [CHR ''t'']" by simp
    then show ?thesis by (simp only: append1_eq_conv) simp
  next
    case (snoc b' c)
    with u have "l @ [CHR 0x0A] = (a @ ''test'' @ b') @ [c]" by simp
    then show ?thesis by (simp only: append1_eq_conv) blast
  qed
  moreover have "l @ [CHR 0x0A] = a @ ''test'' @ (b @ [CHR 0x0A])" if "l = a @ ''test'' @ b" for a b using that by simp
  ultimately show ?thesis unfolding split_first_found by blast
qed

text \<open>The properties of lines that rewriting keeps.\<close>

definition kept_properties :: "(string \<Rightarrow> bool) list" where
  "kept_properties = [workon_line, manual_line, test_line, restrict_line]"

lemma kept_newline: "P \<in> set kept_properties \<Longrightarrow> P (l @ [CHR 0x0A]) \<longleftrightarrow> P l"
  by (auto simp: kept_properties_def workon_line_def manual_line_def plain_line_def test_line_def restrict_line_def
      test_function_def startswith_newline split_ws_newline strip_newline split_first_newline simp del: not_None_eq)

lemma kept_assigned: "P \<in> set kept_properties \<Longrightarrow> variables_ok vs \<Longrightarrow> assigns vs l \<Longrightarrow> \<not> P l"
  by (auto simp: kept_properties_def workon_line_def manual_line_def plain_line_def test_line_def restrict_line_def
      split: if_splits dest: assigns_plain assigns_not_manual)

lemma kept_keywords: "P \<in> set kept_properties \<Longrightarrow> startswith l ''KEYWORDS='' \<Longrightarrow> \<not> P l"
  using keywords_not_inherit[of l]
  by (auto simp: kept_properties_def workon_line_def manual_line_def plain_line_def test_line_def restrict_line_def
      split: if_splits)

lemma kept_make_stable: "P \<in> set kept_properties \<Longrightarrow> P (make_stable_line b l) \<longleftrightarrow> P l"
  using kept_keywords[of P l] kept_keywords[of P "make_stable_line b l"] keywords_stable[of l]
  by (auto simp: make_stable_line_def)

lemma kept_rewritten:
  assumes "P \<in> set kept_properties" "variables_ok vs"
  shows "list_ex P (new_lines vs b doc) \<longleftrightarrow> list_ex P (splitlines doc)"
proof -
  have "\<not> P l" if "l \<in> set (variable_lines vs)" for l
    using that kept_lines_variables[OF assms(2), of b] kept_assigned[OF assms]
    by (auto simp: kept_lines_def filter_empty_conv)
  then have "\<not> list_ex P (variable_lines vs)" by (auto simp: list_ex_iff)
  moreover have "list_ex P (kept_lines vs b ls) = list_ex P ls" for ls
    using kept_assigned[OF assms] kept_make_stable[OF assms(1)] by (auto simp: kept_lines_def list_ex_iff)
  ultimately show ?thesis by (simp add: new_lines_def text_lines(1))
qed

lemma newline_lines:
  assumes "\<forall>c \<in> set s. is_line_end c \<longrightarrow> c = CHR 0x0A"
  shows "splitlines s = (let ls = split_on CHR 0x0A s in if last ls = [] then butlast ls else ls)"
proof -
  have main: "splitlines (join [CHR 0x0A] ls) = (if last ls = [] then butlast ls else ls)"
    if "ls \<noteq> []" "\<forall>l \<in> set ls. line_free l" for ls
    using that
  proof (induction ls)
    case (Cons l ls)
    show ?case
    proof (cases "ls = []")
      case True
      then show ?thesis using Cons.prems splitlines_last[of l] by (auto simp: splitlines_def)
    next
      case False
      then show ?thesis using Cons splitlines_Cons[of l] by (simp add: join_Cons)
    qed
  qed simp
  have "line_free l" if "l \<in> set (split_on CHR 0x0A s)" for l
    using split_on_subset[OF that] split_on_sep_free[OF that] assms by (auto simp: line_free_def list_all_iff)
  with main[of "split_on CHR 0x0A s"] show ?thesis by (simp add: Let_def)
qed

text \<open>A property of lines for which a final newline does not matter holds of the same lines of the file.\<close>

lemma list_ex_lines_kept:
  assumes "\<forall>c \<in> set s. is_line_end c \<longrightarrow> c = CHR 0x0A" "\<And>l. P (l @ [CHR 0x0A]) \<longleftrightarrow> P l"
  shows "list_ex P (lines_kept s) \<longleftrightarrow> list_ex P (splitlines s)"
proof -
  let ?ls = "split_on CHR 0x0A s"
  have m: "list_ex P (map (\<lambda>l. l @ [CHR 0x0A]) xs) = list_ex P xs" for xs
    using assms(2) by (simp add: list_ex_iff)
  show ?thesis
  proof (cases "last ?ls = []")
    case True
    then have "lines_kept s = map (\<lambda>l. l @ [CHR 0x0A]) (butlast ?ls)" "splitlines s = butlast ?ls"
      by (simp_all add: lines_kept_def newline_lines[OF assms(1)] Let_def)
    then show ?thesis using m by simp
  next
    case False
    then have l: "lines_kept s = map (\<lambda>l. l @ [CHR 0x0A]) (butlast ?ls) @ [last ?ls]" "splitlines s = ?ls"
      by (simp_all add: lines_kept_def newline_lines[OF assms(1)] Let_def)
    have "list_ex P ?ls = list_ex P (butlast ?ls @ [last ?ls])"
      by (rule arg_cong[of _ _ "list_ex P"]) simp
    then show ?thesis unfolding l list_ex_append m by simp
  qed
qed

lemma UpdateEBuild_kept:
  assumes "variables_ok vs" "body_lines doc \<noteq> []"
  shows "lines_kept (UpdateEBuild_text vs b doc) = map (\<lambda>l. l @ [CHR 0x0A]) (new_lines vs b doc)"
proof -
  have ne: "new_lines vs b doc \<noteq> []" using assms(2) new_lines_Nil[OF assms(1), of b doc] text_lines(1)[of doc] by auto
  have nl: "CHR 0x0A \<notin> set l" if "l \<in> set (new_lines vs b doc)" for l
  proof -
    have "line_free l" using that new_lines_free[OF assms(1)] by blast
    then show ?thesis using is_line_end_newline by (auto simp: line_free_def list_all_iff)
  qed
  have "join [CHR 0x0A] ls @ [CHR 0x0A] = concat (map (\<lambda>l. l @ [CHR 0x0A]) ls)" if "ls \<noteq> []" for ls
    using that
  proof (induction ls)
    case (Cons l ls)
    then show ?case by (cases "ls = []") (simp_all add: join_Cons)
  qed simp
  with ne have "UpdateEBuild_text vs b doc = concat (map (\<lambda>l. l @ [CHR 0x0A]) (new_lines vs b doc))"
    by (simp add: UpdateEBuild_text_def update_lines_new[OF assms(1)])
  moreover have "lines_kept (concat (map (\<lambda>l. l @ [CHR 0x0A]) (new_lines vs b doc))) = map (\<lambda>l. l @ [CHR 0x0A]) (new_lines vs b doc)"
  proof (rule lines_kept_concat)
    have k: "kept_line (l @ [CHR 0x0A])" if "l \<in> set (new_lines vs b doc)" for l using nl[OF that] by (auto simp: kept_line_def)
    show "kept_line l" if "l \<in> set (butlast (map (\<lambda>l. l @ [CHR 0x0A]) (new_lines vs b doc)))" for l
      using in_set_butlastD[OF that] k by auto
    show "kept_last (last (map (\<lambda>l. l @ [CHR 0x0A]) (new_lines vs b doc)))"
      using ne k[OF last_in_set] by (simp add: kept_last_def last_map)
  qed
  ultimately show ?thesis by simp
qed

lemma stable_line_assigned:
  "variables_ok vs \<Longrightarrow> assigns vs l \<Longrightarrow> \<not> startswith l ''KEYWORDS=''"
  using assigns_plain(2) by blast

lemma stable_rewritten:
  assumes "variables_ok vs"
  shows "list_ex stable_line (map (\<lambda>l. l @ [CHR 0x0A]) (new_lines vs True doc)) \<longleftrightarrow>
    (\<exists>l \<in> set (splitlines doc). startswith l ''KEYWORDS='' \<and>
       list_ex stable_word (keyword_words (filter (\<lambda>c. c \<noteq> CHR ''~'') l @ [CHR 0x0A])))"
proof -
  have kw: "stable_line (l @ [CHR 0x0A]) \<longleftrightarrow> startswith l ''KEYWORDS='' \<and> list_ex stable_word (keyword_words (l @ [CHR 0x0A]))" for l
    by (simp add: stable_line_def startswith_newline)
  have "\<not> assigns vs l" if "startswith l ''KEYWORDS=''" for l using keywords_not_assigned[OF assms that] .
  then have kept: "(\<exists>x \<in> set (kept_lines vs True ls). stable_line (x @ [CHR 0x0A])) \<longleftrightarrow>
      (\<exists>l \<in> set ls. startswith l ''KEYWORDS='' \<and> list_ex stable_word (keyword_words (filter (\<lambda>c. c \<noteq> CHR ''~'') l @ [CHR 0x0A])))" for ls
    using keywords_stable unfolding kw
    by (fastforce simp: kept_lines_def make_stable_line_def replace_tilde split: if_splits)
  have v: "\<not> startswith l ''KEYWORDS=''" if "l \<in> set (variable_lines vs)" for l
    using that kept_lines_variables[OF assms, of True] keywords_not_assigned[OF assms]
    by (auto simp: kept_lines_def filter_empty_conv)
  have bl: "\<not> startswith l ''KEYWORDS=''" if "l \<in> set (blank_lines doc)" for l
    using text_lines(2)[of doc] make_stable_line_blank[of l True] that
    by (auto simp: blank_or_eapi_def startswith_iff lstrip_def is_space_def py_ord_def)
  have "list_ex stable_line (map (\<lambda>l. l @ [CHR 0x0A]) (new_lines vs True doc))
      \<longleftrightarrow> (\<exists>x \<in> set (kept_lines vs True (body_lines doc)). stable_line (x @ [CHR 0x0A]))"
    using v bl by (auto simp: list_ex_iff new_lines_def kw bex_Un)
  then show ?thesis using bl by (auto simp: kept text_lines(1)[of doc])
qed

text \<open>C18. An ebuild that is marked as stable reads as before, except that it is stable if its
  keywords, with their tildes removed, have a word other than \<open>-*\<close>: the eclasses, the test functions and
  the manual uprev are not affected by the variables that are written.\<close>

theorem marked_stable_classified:
  assumes "variables_ok vs" "\<exists>l \<in> set (splitlines doc). \<not> blank_or_eapi l"
    and "\<forall>c \<in> set doc. is_line_end c \<longrightarrow> c = CHR 0x0A"
  shows "Classify (UpdateEBuild_text vs True doc) = (Classify doc)\<lparr>cl_stable :=
    (\<exists>l \<in> set (splitlines doc). startswith l ''KEYWORDS='' \<and>
       list_ex stable_word (keyword_words (filter (\<lambda>c. c \<noteq> CHR ''~'') l @ [CHR 0x0A])))\<rparr>"
proof -
  have body: "body_lines doc \<noteq> []" using assms(2) by (auto simp: body_lines_def)
  have "list_ex P (lines_kept (UpdateEBuild_text vs True doc)) \<longleftrightarrow> list_ex P (lines_kept doc)"
    if P: "P \<in> set kept_properties" for P
  proof -
    have "list_ex P (map (\<lambda>l. l @ [CHR 0x0A]) ls) = list_ex P ls" for ls
      using kept_newline[OF P] by (simp add: list_ex_iff)
    then show ?thesis
      using kept_rewritten[OF P assms(1)] list_ex_lines_kept[OF assms(3), of P, OF kept_newline[OF P]]
      by (simp add: UpdateEBuild_kept[OF assms(1) body])
  qed
  then have "list_ex workon_line (lines_kept (UpdateEBuild_text vs True doc)) = list_ex workon_line (lines_kept doc)"
    "list_ex manual_line (lines_kept (UpdateEBuild_text vs True doc)) = list_ex manual_line (lines_kept doc)"
    "list_ex test_line (lines_kept (UpdateEBuild_text vs True doc)) = list_ex test_line (lines_kept doc)"
    "list_ex restrict_line (lines_kept (UpdateEBuild_text vs True doc)) = list_ex restrict_line (lines_kept doc)"
    by (simp_all add: kept_properties_def)
  then show ?thesis
    using stable_rewritten[OF assms(1), of doc] by (simp add: Classify_lines UpdateEBuild_kept[OF assms(1) body])
qed

text \<open>C38. The quotes of a line are stripped before its newline is, so the closing quote stays: an ebuild
  that is keyworded for no architecture by a line \<open>KEYWORDS="-*"\<close> counts as stable, whatever else it
  contains.\<close>

theorem dash_star_counts_as_stable:
  assumes "\<forall>l \<in> set ls. CHR 0x0A \<notin> set l"
  shows "cl_stable (Classify (concat (map (\<lambda>l. l @ [CHR 0x0A]) ls) @ ''KEYWORDS='' @ quoted ''-*'' @ CHR 0x0A # rest))"
proof -
  let ?k = "''KEYWORDS='' @ quoted ''-*'' @ [CHR 0x0A]"
  have run: "lines_kept (concat (map (\<lambda>l. l @ [CHR 0x0A]) ls) @ s) = map (\<lambda>l. l @ [CHR 0x0A]) ls @ lines_kept s" for s
    using assms
  proof (induction ls)
    case (Cons l ls)
    then show ?case using lines_kept_run[of "l @ [CHR 0x0A]"] by (simp add: kept_line_def)
  qed simp
  have "kept_line ?k" unfolding kept_line_def by (intro exI[of _ "''KEYWORDS='' @ quoted ''-*''"]) (simp add: quoted_def)
  then have "lines_kept (?k @ rest) = ?k # lines_kept rest" by (rule lines_kept_run)
  moreover have "stable_line ?k" by code_simp
  ultimately show ?thesis unfolding Classify_lines using run[of "?k @ rest"] by simp
qed

section \<open>Examples\<close>

definition example_ebuild :: string where
  "example_ebuild =
     concat (map (\<lambda>l. l @ [CHR 0x0A]) [''# Copyright'', ''EAPI=7'', ''CROS_WORKON_TREE=old'', ''inherit cros-workon'',
       ''KEYWORDS='' @ quoted ''~*''])"

lemma example_variables_ok: "variables_ok (uprev_variables (quoted ''c1'') (quoted ''t1''))"
proof -
  have "line_free (quoted ''c1'')" "line_free (quoted ''t1'')" by code_simp+
  then show ?thesis by (simp add: uprev_variables_ok)
qed

lemma example_body: "\<exists>l \<in> set (splitlines example_ebuild). \<not> blank_or_eapi l"
  by code_simp

lemma update_ebuild_result_witness:
  "filter (\<lambda>l. assigned l = Some ''CROS_WORKON_TREE'')
     (splitlines (UpdateEBuild_text (uprev_variables (quoted ''c1'') (quoted ''t1'')) True example_ebuild))
   = [''CROS_WORKON_TREE='' @ quoted ''t1'']"
proof -
  have "uprev_variables (quoted ''c1'') (quoted ''t1'') \<noteq> []" by (simp add: uprev_variables_def)
  from update_ebuild_result[OF example_variables_ok this example_body, of True]
  show ?thesis by (simp add: uprev_variables_def)
qed

lemma marked_stable_classified_witness:
  "Classify (UpdateEBuild_text (uprev_variables (quoted ''c1'') (quoted ''t1'')) True example_ebuild)
     = \<lparr>cl_workon = True, cl_stable = True, cl_manual = False, cl_test = False\<rparr>
   \<and> \<not> cl_stable (Classify example_ebuild)"
proof -
  have ends: "\<forall>c \<in> set example_ebuild. is_line_end c \<longrightarrow> c = CHR 0x0A" by code_simp
  have old: "Classify example_ebuild = \<lparr>cl_workon = True, cl_stable = False, cl_manual = False, cl_test = False\<rparr>"
    by code_simp
  have "\<exists>l \<in> set (splitlines example_ebuild). startswith l ''KEYWORDS='' \<and>
       list_ex stable_word (keyword_words (filter (\<lambda>c. c \<noteq> CHR ''~'') l @ [CHR 0x0A]))" by code_simp
  with marked_stable_classified[OF example_variables_ok example_body ends] old show ?thesis by simp
qed

lemma dash_star_counts_as_stable_witness:
  "cl_stable (Classify (''EAPI=7'' @ CHR 0x0A # ''KEYWORDS='' @ quoted ''-*'' @ [CHR 0x0A]))
   \<and> \<not> cl_stable (Classify (''EAPI=7'' @ CHR 0x0A # ''KEYWORDS='' @ quoted ''-*''))"
proof -
  have "cl_stable (Classify (''EAPI=7'' @ CHR 0x0A # ''KEYWORDS='' @ quoted ''-*'' @ [CHR 0x0A]))"
    using dash_star_counts_as_stable[of "[''EAPI=7'']" "[]"] by simp
  moreover have "\<not> cl_stable (Classify (''EAPI=7'' @ CHR 0x0A # ''KEYWORDS='' @ quoted ''-*''))" by code_simp
  ultimately show ?thesis ..
qed

end
