(* ===== verification/Comparison.thy ===== *)
theory Comparison
  imports Prelude
begin

text \<open>
  The contract of the three-way comparison functions of the source (\<open>utils/pms.py\<close>
  \<open>cmp_versions\<close>, \<open>VersionInfo\<close>'s comparison operators): on valid arguments the comparison
  returns -1, 0 or 1, swapping the arguments negates it and \<open>\<le>\<close> is transitive. A comparison
  that goes through a sort key satisfies the contract (\<open>keyed_cmp\<close>). The clients are the
  boolean operators and the selection of a maximum.
\<close>

locale three_way =
  fixes cmp :: "'a \<Rightarrow> 'a \<Rightarrow> int res"
    and valid :: "'a \<Rightarrow> bool"
  assumes cmp_ok: "valid a \<Longrightarrow> valid b \<Longrightarrow> \<exists>c. cmp a b = Inr c \<and> c \<in> {-1, 0, 1}"
    and cmp_swap: "valid a \<Longrightarrow> valid b \<Longrightarrow> cmp a b = Inr c \<Longrightarrow> cmp b a = Inr (- c)"
    and cmp_trans: "valid a \<Longrightarrow> valid b \<Longrightarrow> valid d \<Longrightarrow> cmp a b = Inr c \<Longrightarrow> c \<le> 0 \<Longrightarrow>
        cmp b d = Inr c' \<Longrightarrow> c' \<le> 0 \<Longrightarrow>
        \<exists>c''. cmp a d = Inr c'' \<and> c'' \<le> 0 \<and> (c'' = 0 \<longrightarrow> c = 0 \<and> c' = 0)"
begin

lemma cmp_refl: "valid a \<Longrightarrow> cmp a a = Inr 0"
  using cmp_ok[of a a] cmp_swap[of a a] by force

lemma cmp_le_cases:
  assumes "valid a" and "valid b"
  shows "(\<exists>c \<le> 0. cmp a b = Inr c) \<or> (\<exists>c \<le> 0. cmp b a = Inr c)"
proof -
  obtain c where c: "cmp a b = Inr c" "c \<in> {-1, 0, 1}" using cmp_ok[OF assms] by blast
  from cmp_swap[OF assms c(1)] have "cmp b a = Inr (- c)" .
  with c show ?thesis by (cases "c \<le> 0") auto
qed

lemma cmp_eq_sym: "valid a \<Longrightarrow> valid b \<Longrightarrow> cmp a b = Inr 0 \<Longrightarrow> cmp b a = Inr 0"
  using cmp_swap[of a b 0] by simp

lemma cmp_le_trans:
  assumes "valid a" "valid b" "valid d"
    and "cmp a b \<in> {Inr (-1), Inr 0}" and "cmp b d \<in> {Inr (-1), Inr 0}"
  shows "cmp a d \<in> {Inr (-1), Inr 0}"
proof -
  obtain c c' where c: "cmp a b = Inr c" "c \<le> 0" "cmp b d = Inr c'" "c' \<le> 0"
    using assms(4,5) by auto
  then obtain c'' where c'': "cmp a d = Inr c''" "c'' \<le> 0"
    using cmp_trans[OF assms(1-3)] by blast
  then show ?thesis using cmp_ok[OF assms(1,3)] by auto
qed

lemma cmp_lt_trans:
  assumes "valid a" "valid b" "valid d"
    and "cmp a b = Inr (-1)" and "cmp b d \<in> {Inr (-1), Inr 0}"
  shows "cmp a d = Inr (-1)"
proof -
  obtain c' where c: "cmp b d = Inr c'" "c' \<le> 0" using assms(5) by auto
  then obtain c'' where "cmp a d = Inr c''" "c'' \<le> 0" "c'' = 0 \<longrightarrow> False"
    using cmp_trans[OF assms(1-4)] by auto
  then show ?thesis using cmp_ok[OF assms(1,3)] by auto
qed

end

locale keyed_cmp =
  fixes cmp :: "'a \<Rightarrow> 'a \<Rightarrow> int res"
    and valid :: "'a \<Rightarrow> bool"
    and key :: "'a \<Rightarrow> 'k::linorder"
  assumes cmp_key: "valid a \<Longrightarrow> valid b \<Longrightarrow> cmp a b = Inr (py_cmp (key a) (key b))"
begin

lemma cmp_lt_iff: "valid a \<Longrightarrow> valid b \<Longrightarrow> cmp a b = Inr (-1) \<longleftrightarrow> key a < key b"
  by (auto simp: cmp_key py_cmp_def)

lemma cmp_eq_iff: "valid a \<Longrightarrow> valid b \<Longrightarrow> cmp a b = Inr 0 \<longleftrightarrow> key a = key b"
  by (auto simp: cmp_key)

end

sublocale keyed_cmp \<subseteq> three_way cmp valid
proof
  fix a b c
  assume "valid a" "valid b"
  then show "\<exists>c. cmp a b = Inr c \<and> c \<in> {-1, 0, 1}"
    using py_cmp_range by (auto simp: cmp_key)
  assume "cmp a b = Inr c"
  with \<open>valid a\<close> \<open>valid b\<close> show "cmp b a = Inr (- c)"
    using py_cmp_swap[of "key b" "key a"] by (auto simp: cmp_key)
next
  fix a b d c c'
  assume v: "valid a" "valid b" "valid d"
    and "cmp a b = Inr c" "c \<le> 0" "cmp b d = Inr c'" "c' \<le> 0"
  then show "\<exists>c''. cmp a d = Inr c'' \<and> c'' \<le> 0 \<and> (c'' = 0 \<longrightarrow> c = 0 \<and> c' = 0)"
    by (auto simp: cmp_key py_cmp_def split: if_splits)
qed

end
