(* ===== verification/Pms.thy ===== *)
theory Pms
  imports Comparison
begin

text \<open>
  \<open>utils/pms.py\<close>: validity and comparison of Portage package versions (the algorithms 3.1 to
  3.7 of the Package Manager Specification). The compiled regular expression is modelled by the
  deterministic recogniser \<open>version_fullmatch\<close>, whose groups are the fields of \<open>version\<close>; its
  soundness and completeness for the grammar of the expression are proved below. The
  \<open>lru_cache\<close> of the source memoises pure functions and leaves no trace in the model.
\<close>

record version =
  numbers :: string
  letter :: string
  suffixes :: string
  revision :: "string option"

definition suffix_names :: "string list" where
  "suffix_names = [''pre'', ''p'', ''beta'', ''alpha'', ''rc'']"

text \<open>The groups of the regular expression, each consuming a prefix of the input.\<close>

function match_dotted :: "string \<Rightarrow> string \<times> string" where
  "match_dotted s =
     (case s of
        [] \<Rightarrow> ([], [])
      | c # r \<Rightarrow>
          if c = CHR ''.'' \<and> takeWhile is_digit r \<noteq> []
          then (case match_dotted (dropWhile is_digit r) of
                  (m, rest) \<Rightarrow> (c # takeWhile is_digit r @ m, rest))
          else ([], s))"
  by pat_completeness auto
termination
  by (relation "measure length") (auto intro: le_less_trans[OF length_dropWhile_le])

declare match_dotted.simps [simp del]

fun match_name :: "string list \<Rightarrow> string \<Rightarrow> (string \<times> string) option" where
  "match_name [] s = None"
| "match_name (n # ns) s =
     (if startswith s n then Some (n, drop (length n) s) else match_name ns s)"

lemma match_name_append: "match_name ns s = Some (n, r) \<Longrightarrow> s = n @ r \<and> n \<in> set ns"
  by (induction ns) (auto simp: startswith_iff split: if_splits)

function match_suffixes :: "string \<Rightarrow> string \<times> string" where
  "match_suffixes s =
     (case s of
        [] \<Rightarrow> ([], [])
      | c # r \<Rightarrow>
          if c = CHR ''_''
          then (case match_name suffix_names r of
                  None \<Rightarrow> ([], s)
                | Some (n, r') \<Rightarrow>
                    (case match_suffixes (dropWhile is_digit r') of
                       (m, rest) \<Rightarrow> (c # n @ takeWhile is_digit r' @ m, rest)))
          else ([], s))"
  by pat_completeness auto
termination
proof (relation "measure length", goal_cases)
  case (2 s c r p n r')
  then have "r = n @ r'" by (auto dest: match_name_append)
  with 2 show ?case by (auto intro: le_less_trans[OF length_dropWhile_le])
qed simp

declare match_suffixes.simps [simp del]

fun match_letter :: "string \<Rightarrow> string \<times> string" where
  "match_letter [] = ([], [])"
| "match_letter (c # r) = (if is_lower c then ([c], r) else ([], c # r))"

definition match_revision :: "string \<Rightarrow> string option option" where
  "match_revision s =
     (if s = [] then Some None
      else if startswith s ''-r'' \<and> drop 2 s \<noteq> [] \<and> list_all is_digit (drop 2 s)
      then Some (Some (drop 2 s)) else None)"

text \<open>\<open>_get_version_regex().fullmatch(v)\<close>\<close>

definition version_fullmatch :: "string \<Rightarrow> version option" where
  "version_fullmatch v =
     (if takeWhile is_digit v = [] then None
      else case match_dotted (dropWhile is_digit v) of (dots, r1) \<Rightarrow>
        case match_letter r1 of (l, r2) \<Rightarrow>
          case match_suffixes r2 of (sfx, r3) \<Rightarrow>
            map_option (\<lambda>rev. \<lparr>numbers = takeWhile is_digit v @ dots, letter = l,
                                suffixes = sfx, revision = rev\<rparr>)
              (match_revision r3))"

definition version_valid :: "string \<Rightarrow> bool" where
  "version_valid v \<longleftrightarrow> version_fullmatch v \<noteq> None"

text \<open>\<open>int(x or 0)\<close> on a string of digits.\<close>

abbreviation int_or_0 :: "string \<Rightarrow> nat" where
  "int_or_0 s \<equiv> nat_of_digits s"

abbreviation rstrip0 :: "string \<Rightarrow> string" where
  "rstrip0 s \<equiv> rstrip (\<lambda>c. c = CHR ''0'') s"

definition cmp_number_part :: "string \<Rightarrow> string \<Rightarrow> int" where
  "cmp_number_part p1 p2 =
     (if startswith p1 ''0'' \<or> startswith p2 ''0''
      then py_cmp (rstrip0 p1) (rstrip0 p2)
      else py_cmp (int_or_0 p1) (int_or_0 p2))"

fun cmp_number_parts :: "string list \<Rightarrow> string list \<Rightarrow> int" where
  "cmp_number_parts (p1 # r1) (p2 # r2) =
     (let c = cmp_number_part p1 p2 in if c \<noteq> 0 then c else cmp_number_parts r1 r2)"
| "cmp_number_parts _ _ = 0"

definition cmp_numbers :: "string \<Rightarrow> string \<Rightarrow> int" where
  "cmp_numbers v1 v2 =
     (if v1 = v2 then 0
      else
        let v1_parts = split_on CHR ''.'' v1; v2_parts = split_on CHR ''.'' v2;
            c = py_cmp (nat_of_digits (hd v1_parts)) (nat_of_digits (hd v2_parts))
        in if c \<noteq> 0 then c
           else let c = cmp_number_parts (tl v1_parts) (tl v2_parts)
                in if c \<noteq> 0 then c else py_cmp (length v1_parts) (length v2_parts))"

text \<open>\<open>re.finditer(r'(?P<suffix>_[a-z]+)(?P<number>\d*)', s)\<close>\<close>

function suffix_parts :: "string \<Rightarrow> (string \<times> nat) list" where
  "suffix_parts s =
     (case s of
        [] \<Rightarrow> []
      | c # r \<Rightarrow>
          if c = CHR ''_'' \<and> takeWhile is_lower r \<noteq> []
          then (c # takeWhile is_lower r, int_or_0 (takeWhile is_digit (dropWhile is_lower r)))
               # suffix_parts (dropWhile is_digit (dropWhile is_lower r))
          else suffix_parts r)"
  by pat_completeness auto
termination
  by (relation "measure length")
    (auto intro!: le_less_trans[OF length_dropWhile_le] intro: length_dropWhile_le le_imp_less_Suc)

declare suffix_parts.simps [simp del]

fun cmp_suffix_parts :: "(string \<times> nat) list \<Rightarrow> (string \<times> nat) list \<Rightarrow> int" where
  "cmp_suffix_parts [] [] = 0"
| "cmp_suffix_parts ((sfx, n) # _) [] = (if sfx = ''_p'' then 1 else -1)"
| "cmp_suffix_parts [] ((sfx, n) # _) = (if sfx = ''_p'' then -1 else 1)"
| "cmp_suffix_parts ((s1, n1) # r1) ((s2, n2) # r2) =
     (let c = (if py_cmp (length s2) (length s1) \<noteq> 0 then py_cmp (length s2) (length s1)
               else py_cmp n1 n2)
      in if c \<noteq> 0 then c else cmp_suffix_parts r1 r2)"

definition cmp_suffixes :: "string \<Rightarrow> string \<Rightarrow> int" where
  "cmp_suffixes s1 s2 =
     (if s1 = s2 then 0 else cmp_suffix_parts (suffix_parts s1) (suffix_parts s2))"

definition revision_number :: "version \<Rightarrow> nat" where
  "revision_number m = (case revision m of None \<Rightarrow> 0 | Some r \<Rightarrow> nat_of_digits r)"

definition cmp_versions :: "string \<Rightarrow> string \<Rightarrow> int res" where
  "cmp_versions v1 v2 =
     (if v1 = [] \<or> v2 = [] then Inl ValueError
      else case version_fullmatch v1 of
        None \<Rightarrow> Inl ValueError
      | Some m1 \<Rightarrow>
          (case version_fullmatch v2 of
             None \<Rightarrow> Inl ValueError
           | Some m2 \<Rightarrow>
               if v1 = v2 then Inr 0
               else
                 let ncmp = cmp_numbers (numbers m1) (numbers m2)
                 in if ncmp \<noteq> 0 then Inr ncmp
                 else let lcmp = py_cmp (letter m1) (letter m2)
                 in if lcmp \<noteq> 0 then Inr lcmp
                 else let scmp = cmp_suffixes (suffixes m1) (suffixes m2)
                 in if scmp \<noteq> 0 then Inr scmp
                 else Inr (py_cmp (revision_number m1) (revision_number m2))))"

definition version_ge :: "string \<Rightarrow> string \<Rightarrow> bool res" where
  "version_ge v1 v2 = res_bind (cmp_versions v1 v2) (\<lambda>c. Inr (c \<in> {0, 1}))"

definition version_gt :: "string \<Rightarrow> string \<Rightarrow> bool res" where
  "version_gt v1 v2 = res_bind (cmp_versions v1 v2) (\<lambda>c. Inr (c = 1))"

definition version_eq :: "string \<Rightarrow> string \<Rightarrow> bool res" where
  "version_eq v1 v2 = res_bind (cmp_versions v1 v2) (\<lambda>c. Inr (c = 0))"

definition version_le :: "string \<Rightarrow> string \<Rightarrow> bool res" where
  "version_le v1 v2 = res_bind (cmp_versions v1 v2) (\<lambda>c. Inr (c \<in> {-1, 0}))"

definition version_lt :: "string \<Rightarrow> string \<Rightarrow> bool res" where
  "version_lt v1 v2 = res_bind (cmp_versions v1 v2) (\<lambda>c. Inr (c = -1))"

section \<open>The recogniser and the grammar of the regular expression\<close>

definition number_ok :: "string \<Rightarrow> bool" where
  "number_ok p \<longleftrightarrow> p \<noteq> [] \<and> list_all is_digit p"

definition suffix_ok :: "string \<Rightarrow> bool" where
  "suffix_ok p \<longleftrightarrow> takeWhile is_lower p \<in> set suffix_names \<and> list_all is_digit (dropWhile is_lower p)"

definition suffixes_ok :: "string \<Rightarrow> bool" where
  "suffixes_ok m \<longleftrightarrow> hd (split_on CHR ''_'' m) = [] \<and> list_all suffix_ok (tl (split_on CHR ''_'' m))"

definition wf_version :: "version \<Rightarrow> bool" where
  "wf_version m \<longleftrightarrow>
     list_all number_ok (split_on CHR ''.'' (numbers m)) \<and>
     (letter m = [] \<or> (length (letter m) = 1 \<and> is_lower (hd (letter m)))) \<and>
     suffixes_ok (suffixes m) \<and>
     (case revision m of None \<Rightarrow> True | Some r \<Rightarrow> number_ok r)"

definition version_string :: "version \<Rightarrow> string" where
  "version_string m =
     numbers m @ letter m @ suffixes m @ (case revision m of None \<Rightarrow> [] | Some r \<Rightarrow> ''-r'' @ r)"

lemma suffix_ok_no_sep:
  assumes "suffix_ok p" shows "CHR ''_'' \<notin> set p"
proof -
  have "set p = set (takeWhile is_lower p) \<union> set (dropWhile is_lower p)"
    by (metis set_append takeWhile_dropWhile_id)
  moreover have "\<not> is_lower CHR ''_''" by (simp add: is_lower_def py_ord_def)
  ultimately show ?thesis
    using assms by (auto simp: suffix_ok_def list_all_iff dest: set_takeWhileD)
qed

lemma suffixes_ok_iff:
  "suffixes_ok m \<longleftrightarrow> (\<exists>ps. m = concat (map (Cons CHR ''_'') ps) \<and> (\<forall>p \<in> set ps. suffix_ok p))"
  (is "_ = ?R")
proof
  assume m: "suffixes_ok m"
  then obtain ps where ps: "split_on CHR ''_'' m = [] # ps"
    unfolding suffixes_ok_def by (cases "split_on CHR ''_'' m") auto
  with m show ?R
    using split_on_Nil_Cons[OF ps] by (auto simp: suffixes_ok_def list_all_iff)
next
  assume ?R
  then obtain ps where ps: "m = concat (map (Cons CHR ''_'') ps)" "\<forall>p \<in> set ps. suffix_ok p" by blast
  then have "split_on CHR ''_'' m = [] # ps"
    by (simp add: split_on_concat_Cons suffix_ok_no_sep)
  with ps show "suffixes_ok m" by (simp add: suffixes_ok_def list_all_iff)
qed

lemma suffix_ok_iff:
  "suffix_ok p \<longleftrightarrow> (\<exists>n d. p = n @ d \<and> n \<in> set suffix_names \<and> list_all is_digit d)"
proof
  assume "suffix_ok p"
  then show "\<exists>n d. p = n @ d \<and> n \<in> set suffix_names \<and> list_all is_digit d"
    unfolding suffix_ok_def by (metis takeWhile_dropWhile_id)
next
  assume "\<exists>n d. p = n @ d \<and> n \<in> set suffix_names \<and> list_all is_digit d"
  then obtain n d where p: "p = n @ d" "n \<in> set suffix_names" "list_all is_digit d" by blast
  have "d = [] \<or> \<not> is_lower (hd d)"
    using p(3) by (cases d) (auto simp: is_lower_def is_digit_def)
  moreover have "list_all is_lower n"
    using p(2) by (auto simp: suffix_names_def is_lower_def py_ord_def)
  ultimately show "suffix_ok p"
    using p span_append[of is_lower n d] by (simp add: suffix_ok_def)
qed

lemma is_lower_r: "is_lower CHR ''r''"
  by (simp add: is_lower_def py_ord_def)

lemma match_name_suffix:
  assumes "n \<in> set suffix_names" and t: "t = [] \<or> \<not> is_lower (hd t)"
  shows "match_name suffix_names (n @ t) = Some (n, t)"
proof -
  have p: "\<not> startswith (CHR ''p'' # t) ''pre''"
    using t is_lower_r by (cases t) (auto simp: startswith_def)
  consider "n = ''pre''" | "n = ''p''" | "n = ''beta''" | "n = ''alpha''" | "n = ''rc''"
    using assms(1) by (auto simp: suffix_names_def)
  then show ?thesis
  proof cases
    case 2
    then show ?thesis using p by (simp add: suffix_names_def startswith_iff)
  qed (simp_all add: suffix_names_def startswith_def)
qed

lemma match_suffixes_sound:
  "match_suffixes s = (m, rest) \<Longrightarrow> s = m @ rest \<and> suffixes_ok m"
proof (induction s arbitrary: m rest rule: match_suffixes.induct)
  case (1 s)
  have nil: "suffixes_ok []" by (simp add: suffixes_ok_def)
  show ?case
  proof (cases s)
    case Nil
    with 1 nil show ?thesis by (simp add: match_suffixes.simps)
  next
    case (Cons c r)
    show ?thesis
    proof (cases "c = CHR ''_'' \<and> match_name suffix_names r \<noteq> None")
      case False
      with 1 Cons nil show ?thesis by (auto simp: match_suffixes.simps[of "c # r"] split: if_splits option.splits)
    next
      case True
      then obtain n r' where n: "match_name suffix_names r = Some (n, r')" by auto
      obtain m' rest' where m': "match_suffixes (dropWhile is_digit r') = (m', rest')" by fastforce
      have IH: "dropWhile is_digit r' = m' @ rest' \<and> suffixes_ok m'"
        using 1(1)[OF Cons _ n] True m' by blast
      have m: "m = c # n @ takeWhile is_digit r' @ m'" "rest = rest'"
        using 1(2) Cons True n m' by (auto simp: match_suffixes.simps[of "_ # _"])
      have "suffix_ok (n @ takeWhile is_digit r')"
        using match_name_append[OF n] by (auto simp: suffix_ok_iff list_all_iff dest: set_takeWhileD)
      moreover obtain ps where "m' = concat (map (Cons CHR ''_'') ps)" "\<forall>p \<in> set ps. suffix_ok p"
        using IH suffixes_ok_iff by blast
      ultimately have "suffixes_ok m"
        unfolding suffixes_ok_iff m using True
        by (intro exI[of _ "(n @ takeWhile is_digit r') # ps"]) auto
      moreover have "s = m @ rest"
        using m Cons IH match_name_append[OF n] by (metis append.assoc append_Cons takeWhile_dropWhile_id)
      ultimately show ?thesis by simp
    qed
  qed
qed

lemma match_suffixes_complete:
  assumes "\<forall>p \<in> set ps. suffix_ok p" and "rest = [] \<or> hd rest = CHR ''-''"
  shows "match_suffixes (concat (map (Cons CHR ''_'') ps) @ rest) = (concat (map (Cons CHR ''_'') ps), rest)"
  using assms(1)
proof (induction ps)
  case Nil
  then show ?case using assms(2) by (cases rest) (simp_all add: match_suffixes.simps)
next
  case (Cons p ps)
  let ?tail = "concat (map (Cons CHR ''_'') ps) @ rest"
  obtain n d where p: "p = n @ d" "n \<in> set suffix_names" "list_all is_digit d"
    using Cons.prems suffix_ok_iff by auto
  have tail: "?tail = [] \<or> hd ?tail \<in> {CHR ''_'', CHR ''-''}"
    using assms(2) by (cases ps) auto
  then have d: "d @ ?tail = [] \<or> \<not> is_lower (hd (d @ ?tail))"
    using p(3) by (cases d) (auto simp: is_lower_def is_digit_def py_ord_def)
  have "?tail = [] \<or> \<not> is_digit (hd ?tail)" using tail by auto
  from span_append[OF p(3) this] match_name_suffix[OF p(2) d] Cons p(1) show ?case
    by (simp add: match_suffixes.simps[of "CHR ''_'' # _"])
qed

lemma match_dotted_sound:
  "match_dotted s = (m, rest) \<Longrightarrow>
   s = m @ rest \<and> (\<exists>ds. m = concat (map (Cons CHR ''.'') ds) \<and> list_all number_ok ds)"
proof (induction s arbitrary: m rest rule: match_dotted.induct)
  case (1 s)
  show ?case
  proof (cases "s \<noteq> [] \<and> hd s = CHR ''.'' \<and> takeWhile is_digit (tl s) \<noteq> []")
    case False
    with 1 show ?thesis
      by (cases s; simp add: match_dotted.simps[of "[]"] match_dotted.simps[of "_ # _"] split: if_splits)
  next
    case True
    then obtain r where s: "s = CHR ''.'' # r" and t: "takeWhile is_digit r \<noteq> []" by (cases s) auto
    obtain m' rest' where m': "match_dotted (dropWhile is_digit r) = (m', rest')" by fastforce
    have IH: "dropWhile is_digit r = m' @ rest' \<and>
        (\<exists>ds. m' = concat (map (Cons CHR ''.'') ds) \<and> list_all number_ok ds)"
      using 1(1)[OF s] t m' by blast
    then obtain ds where ds: "m' = concat (map (Cons CHR ''.'') ds)" "list_all number_ok ds" by blast
    have m: "m = CHR ''.'' # takeWhile is_digit r @ m'" "rest = rest'"
      using 1(2) s t m' by (auto simp: match_dotted.simps[of "_ # _"])
    have "number_ok (takeWhile is_digit r)"
      using t by (auto simp: number_ok_def list_all_iff dest: set_takeWhileD)
    then have "\<exists>ds. m = concat (map (Cons CHR ''.'') ds) \<and> list_all number_ok ds"
      using ds m by (intro exI[of _ "takeWhile is_digit r # ds"]) auto
    moreover have "s = m @ rest"
      using m s IH by (metis append.assoc append_Cons takeWhile_dropWhile_id)
    ultimately show ?thesis by simp
  qed
qed

lemma match_dotted_complete:
  assumes "list_all number_ok ds" and "rest = [] \<or> \<not> is_digit (hd rest) \<and> hd rest \<noteq> CHR ''.''"
  shows "match_dotted (concat (map (Cons CHR ''.'') ds) @ rest) = (concat (map (Cons CHR ''.'') ds), rest)"
  using assms(1)
proof (induction ds)
  case Nil
  then show ?case using assms(2) by (cases rest) (simp_all add: match_dotted.simps)
next
  case (Cons d ds)
  let ?tail = "concat (map (Cons CHR ''.'') ds) @ rest"
  have "?tail = [] \<or> \<not> is_digit (hd ?tail)" using assms(2) by (cases ds) auto
  moreover have "list_all is_digit d" "d \<noteq> []" using Cons.prems by (auto simp: number_ok_def)
  ultimately show ?case
    using Cons span_append[of is_digit d ?tail] by (simp add: match_dotted.simps[of "CHR ''.'' # _"])
qed

lemma match_letter_sound:
  "match_letter s = (l, r) \<Longrightarrow> s = l @ r \<and> (l = [] \<or> (length l = 1 \<and> is_lower (hd l)))"
  by (cases s) (auto split: if_splits)

lemma match_letter_complete:
  "l = [] \<or> (length l = 1 \<and> is_lower (hd l)) \<Longrightarrow> rest = [] \<or> \<not> is_lower (hd rest) \<Longrightarrow>
   match_letter (l @ rest) = (l, rest)"
  by (cases l; cases rest) auto

lemma match_revision_iff:
  "match_revision s = Some rv \<longleftrightarrow>
     s = (case rv of None \<Rightarrow> [] | Some r \<Rightarrow> ''-r'' @ r) \<and> (case rv of None \<Rightarrow> True | Some r \<Rightarrow> number_ok r)"
  by (cases rv) (auto simp: match_revision_def startswith_iff number_ok_def)

lemma join_dot_numbers:
  assumes "list_all number_ok (d # ds)"
  shows "split_on CHR ''.'' (d @ concat (map (Cons CHR ''.'') ds)) = d # ds"
proof -
  have "d @ concat (map (Cons CHR ''.'') ds) = join [CHR ''.''] (d # ds)"
    using join_Nil_Cons[of "CHR ''.''" ds] by (cases ds) auto
  moreover have "CHR ''.'' \<notin> set x" if "x \<in> set (d # ds)" for x
    using assms that digits_no_char[of x "CHR ''.''"] by (auto simp: list_all_iff number_ok_def)
  ultimately show ?thesis by (simp add: split_on_join del: join.simps set_simps)
qed

lemma numbers_split:
  assumes "list_all number_ok (split_on CHR ''.'' s)"
  obtains d ds where "s = d @ concat (map (Cons CHR ''.'') ds)" "list_all number_ok (d # ds)"
proof -
  obtain d ds where d: "split_on CHR ''.'' s = d # ds"
    by (cases "split_on CHR ''.'' s") auto
  then have "s = join [CHR ''.''] (d # ds)" by (metis join_split_on)
  then have "s = d @ concat (map (Cons CHR ''.'') ds)"
    using join_Nil_Cons[of "CHR ''.''" ds] by (cases ds) auto
  with that d assms show thesis by simp
qed

lemma version_fullmatch_sound:
  assumes "version_fullmatch v = Some m"
  shows "wf_version m \<and> v = version_string m"
proof -
  let ?d = "takeWhile is_digit v"
  obtain dots r1 where 1: "match_dotted (dropWhile is_digit v) = (dots, r1)" by fastforce
  obtain l r2 where 2: "match_letter r1 = (l, r2)" by fastforce
  obtain sfx r3 where 3: "match_suffixes r2 = (sfx, r3)" by fastforce
  obtain rv where 4: "match_revision r3 = Some rv" and d: "?d \<noteq> []"
      and m: "m = \<lparr>numbers = ?d @ dots, letter = l, suffixes = sfx, revision = rv\<rparr>"
    using assms 1 2 3 by (auto simp: version_fullmatch_def split: if_splits)
  obtain ds where ds: "dots = concat (map (Cons CHR ''.'') ds)" "list_all number_ok ds"
      and s1: "dropWhile is_digit v = dots @ r1"
    using match_dotted_sound[OF 1] by blast
  have "number_ok ?d" using d by (auto simp: number_ok_def list_all_iff dest: set_takeWhileD)
  then have "list_all number_ok (split_on CHR ''.'' (?d @ dots))"
    using ds join_dot_numbers[of ?d ds] by simp
  then have "wf_version m"
    using match_letter_sound[OF 2] match_suffixes_sound[OF 3] match_revision_iff 4 m
    by (auto simp: wf_version_def)
  moreover have "v = ?d @ dots @ l @ sfx @ r3"
    using s1 match_letter_sound[OF 2] match_suffixes_sound[OF 3] by (metis append.assoc takeWhile_dropWhile_id)
  then have "v = version_string m"
    using 4 m by (simp add: version_string_def match_revision_iff)
  ultimately show ?thesis by simp
qed

lemma version_fullmatch_complete:
  assumes "wf_version m"
  shows "version_fullmatch (version_string m) = Some m"
proof -
  let ?rev = "case revision m of None \<Rightarrow> [] | Some r \<Rightarrow> ''-r'' @ r"
  obtain d ds where num: "numbers m = d @ concat (map (Cons CHR ''.'') ds)" "list_all number_ok (d # ds)"
    using assms numbers_split[of "numbers m"] by (auto simp: wf_version_def)
  obtain ps where ps: "suffixes m = concat (map (Cons CHR ''_'') ps)" "\<forall>p \<in> set ps. suffix_ok p"
    using assms by (auto simp: wf_version_def suffixes_ok_iff)
  let ?dots = "concat (map (Cons CHR ''.'') ds)"
  have rev: "match_revision ?rev = Some (revision m)"
    using assms by (simp add: match_revision_iff wf_version_def)
  have r: "?rev = [] \<or> hd ?rev = CHR ''-''" by (cases "revision m") auto
  have t3: "match_suffixes (suffixes m @ ?rev) = (suffixes m, ?rev)"
    using match_suffixes_complete[OF ps(2) r] ps(1) by simp
  have h2: "suffixes m @ ?rev = [] \<or> hd (suffixes m @ ?rev) \<in> {CHR ''_'', CHR ''-''}"
    using r ps(1) by (cases ps) auto
  then have "suffixes m @ ?rev = [] \<or> \<not> is_lower (hd (suffixes m @ ?rev))"
    by (auto simp: is_lower_def py_ord_def)
  then have t2: "match_letter (letter m @ suffixes m @ ?rev) = (letter m, suffixes m @ ?rev)"
    using assms by (intro match_letter_complete) (auto simp: wf_version_def)
  let ?r1 = "letter m @ suffixes m @ ?rev"
  have h1: "?r1 = [] \<or> \<not> is_digit (hd ?r1) \<and> hd ?r1 \<noteq> CHR ''.''"
  proof (cases "letter m")
    case Nil
    with h2 show ?thesis by auto
  next
    case (Cons c cs)
    then have "is_lower c" using assms by (auto simp: wf_version_def)
    then show ?thesis using Cons by (auto simp: is_lower_def is_digit_def py_ord_def)
  qed
  have t1: "match_dotted (?dots @ ?r1) = (?dots, ?r1)"
    using num(2) h1 by (intro match_dotted_complete) auto
  have "?dots @ ?r1 = [] \<or> \<not> is_digit (hd (?dots @ ?r1))"
    using h1 by (cases ds) auto
  with num(2) have "takeWhile is_digit (d @ ?dots @ ?r1) = d" "dropWhile is_digit (d @ ?dots @ ?r1) = ?dots @ ?r1"
    using span_append[of is_digit d "?dots @ ?r1"] by (auto simp: number_ok_def)
  moreover have "d \<noteq> []" using num(2) by (simp add: number_ok_def)
  ultimately show ?thesis
    using t1 t2 t3 rev num(1) by (simp add: version_fullmatch_def version_string_def)
qed

section \<open>The order as a sort key\<close>

text \<open>
  A numeric component after the first is compared as a string without its trailing zeros when
  one of the two begins with a zero, as a number otherwise. As an order this is: components with
  a leading zero come first, by the stripped string, then the others by value.
\<close>

datatype part_key = Frac string | Whole nat

instantiation part_key :: linorder
begin

fun less_eq_part_key :: "part_key \<Rightarrow> part_key \<Rightarrow> bool" where
  "less_eq_part_key (Frac s) (Frac t) = (s \<le> t)"
| "less_eq_part_key (Frac s) (Whole n) = True"
| "less_eq_part_key (Whole m) (Frac t) = False"
| "less_eq_part_key (Whole m) (Whole n) = (m \<le> n)"

definition less_part_key :: "part_key \<Rightarrow> part_key \<Rightarrow> bool" where
  "less_part_key x y \<longleftrightarrow> x \<le> y \<and> \<not> y \<le> x"

instance
proof
  fix x y z :: part_key
  show "x < y \<longleftrightarrow> x \<le> y \<and> \<not> y \<le> x" by (rule less_part_key_def)
  show "x \<le> x" by (cases x) auto
  show "x \<le> y \<Longrightarrow> y \<le> z \<Longrightarrow> x \<le> z" by (cases x; cases y; cases z) auto
  show "x \<le> y \<Longrightarrow> y \<le> x \<Longrightarrow> x = y" by (cases x; cases y) auto
  show "x \<le> y \<or> y \<le> x" by (cases x; cases y) auto
qed

end

lemma py_cmp_part_key [simp]:
  "py_cmp (Frac s) (Frac t) = py_cmp s t" "py_cmp (Whole m) (Whole n) = py_cmp m n"
  "py_cmp (Frac s) (Whole n) = -1" "py_cmp (Whole m) (Frac t) = 1"
  by (auto simp: py_cmp_def less_part_key_def not_le)

definition part_key :: "string \<Rightarrow> part_key" where
  "part_key p = (if startswith p ''0'' then Frac (rstrip0 p) else Whole (nat_of_digits p))"

definition numbers_key :: "string \<Rightarrow> nat \<times> part_key list" where
  "numbers_key v =
     (let parts = split_on CHR ''.'' v in (nat_of_digits (hd parts), map part_key (tl parts)))"

text \<open>
  The suffixes are ranked by the inverse of their length (alpha < beta < pre < rc < p), and the
  end of the list ranks between rc and p, so that \<open>1_rc < 1 < 1_p\<close>.
\<close>

fun suffix_item_key :: "string \<times> nat \<Rightarrow> int \<times> nat" where
  "suffix_item_key (sfx, n) = (- 2 * int (length sfx), n)"

definition suffix_end_key :: "int \<times> nat" where
  "suffix_end_key = (-5, 0)"

definition suffix_list_key :: "(string \<times> nat) list \<Rightarrow> (int \<times> nat) list" where
  "suffix_list_key parts = map suffix_item_key parts @ [suffix_end_key]"

definition version_key :: "version \<Rightarrow> (nat \<times> part_key list) \<times> string \<times> (int \<times> nat) list \<times> nat" where
  "version_key m =
     (numbers_key (numbers m), letter m, suffix_list_key (suffix_parts (suffixes m)), revision_number m)"

definition version_str_key :: "string \<Rightarrow> ((nat \<times> part_key list) \<times> string \<times> (int \<times> nat) list \<times> nat) option" where
  "version_str_key v = map_option version_key (version_fullmatch v)"

lemma py_cmp_not_zero_first:
  assumes "number_ok p" "\<not> startswith p ''0''" "startswith q ''0''"
  shows "py_cmp (rstrip0 p) (rstrip0 q) = 1"
proof -
  obtain c r where p: "p = c # r" "c \<noteq> CHR ''0''" "is_digit c"
    using assms(1,2) by (cases p) (auto simp: startswith_def number_ok_def)
  obtain t where q: "q = CHR ''0'' # t" using assms(3) by (auto simp: startswith_iff)
  have "py_ord c \<noteq> py_ord CHR ''0''" using p(2) by (simp only: py_ord_inj) simp
  then have "CHR ''0'' < c" using p(3) by (simp add: less_char_ord is_digit_def py_ord_def)
  then have "rstrip0 q < rstrip0 p" using p q by (simp add: rstrip_Cons)
  then show ?thesis by (simp add: py_cmp_def)
qed

lemma cmp_number_part_key:
  assumes "number_ok p" "number_ok q"
  shows "cmp_number_part p q = py_cmp (part_key p) (part_key q)"
  using assms py_cmp_not_zero_first[of p q] py_cmp_not_zero_first[of q p]
    py_cmp_swap[of "rstrip0 p" "rstrip0 q"]
  by (auto simp: cmp_number_part_def part_key_def)

lemma cmp_number_parts_key:
  "list_all number_ok ps \<Longrightarrow> list_all number_ok qs \<Longrightarrow>
   (if cmp_number_parts ps qs \<noteq> 0 then cmp_number_parts ps qs else py_cmp (length ps) (length qs)) =
   py_cmp (map part_key ps) (map part_key qs)"
proof (induction ps qs rule: cmp_number_parts.induct)
  case (1 p ps q qs)
  from 1(2,3) have "cmp_number_part p q = py_cmp (part_key p) (part_key q)"
    by (simp add: cmp_number_part_key)
  with 1 show ?case by (cases "part_key p = part_key q") (auto simp: py_cmp_Cons Let_def split: if_splits)
qed (auto simp: py_cmp_def neq_Cons neq_Nil_conv)

lemma cmp_numbers_key:
  assumes "list_all number_ok (split_on CHR ''.'' s)" "list_all number_ok (split_on CHR ''.'' t)"
  shows "cmp_numbers s t = py_cmp (numbers_key s) (numbers_key t)"
proof -
  obtain p ps q qs where s: "split_on CHR ''.'' s = p # ps" and t: "split_on CHR ''.'' t = q # qs"
    by (metis list.exhaust split_on_not_Nil)
  have "(if cmp_number_parts ps qs \<noteq> 0 then cmp_number_parts ps qs else py_cmp (length ps) (length qs)) =
      py_cmp (map part_key ps) (map part_key qs)"
    using assms s t by (simp add: cmp_number_parts_key)
  then show ?thesis
    using s t
    by (cases "s = t") (auto simp: cmp_numbers_def numbers_key_def py_cmp_pair Let_def split: if_splits)
qed

definition suffix_keywords :: "string list" where
  "suffix_keywords = map (Cons CHR ''_'') suffix_names"

lemma suffix_rank:
  assumes "s \<in> set suffix_keywords"
  shows "py_cmp (suffix_item_key (s, n)) suffix_end_key = (if s = ''_p'' then 1 else -1)"
    and "py_cmp suffix_end_key (suffix_item_key (s, n)) = (if s = ''_p'' then -1 else 1)"
  using assms
  by (auto simp: suffix_end_key_def suffix_keywords_def suffix_names_def py_cmp_pair py_cmp_def)

lemma cmp_suffix_parts_key:
  "(\<forall>(s, _) \<in> set xs. s \<in> set suffix_keywords) \<Longrightarrow> (\<forall>(s, _) \<in> set ys. s \<in> set suffix_keywords) \<Longrightarrow>
   cmp_suffix_parts xs ys = py_cmp (suffix_list_key xs) (suffix_list_key ys)"
proof (induction xs ys rule: cmp_suffix_parts.induct)
  case (4 s1 n1 r1 s2 n2 r2)
  have "py_cmp (suffix_item_key (s1, n1)) (suffix_item_key (s2, n2)) =
      (if py_cmp (length s2) (length s1) \<noteq> 0 then py_cmp (length s2) (length s1) else py_cmp n1 n2)"
    by (auto simp: py_cmp_pair py_cmp_def)
  with 4 show ?case
    by (simp add: suffix_list_key_def py_cmp_Cons Let_def del: suffix_item_key.simps)
qed (simp_all add: suffix_list_key_def py_cmp_Cons suffix_rank del: suffix_item_key.simps)

lemma suffix_parts_names:
  assumes "\<forall>p \<in> set ps. suffix_ok p"
  shows "\<forall>(s, _) \<in> set (suffix_parts (concat (map (Cons CHR ''_'') ps))). s \<in> set suffix_keywords"
  using assms
proof (induction ps)
  case Nil
  then show ?case by (simp add: suffix_parts.simps)
next
  case (Cons p ps)
  let ?tail = "concat (map (Cons CHR ''_'') ps)"
  obtain n d where p: "p = n @ d" "n \<in> set suffix_names" "list_all is_digit d"
    using Cons.prems suffix_ok_iff by auto
  have n: "list_all is_lower n" "n \<noteq> []"
    using p(2) by (auto simp: suffix_names_def is_lower_def py_ord_def)
  have tail: "?tail = [] \<or> hd ?tail = CHR ''_''" by (cases ps) auto
  then have "d @ ?tail = [] \<or> \<not> is_lower (hd (d @ ?tail))"
    using p(3) by (cases d) (auto simp: is_lower_def is_digit_def py_ord_def)
  note s1 = span_append[OF n(1) this]
  have "?tail = [] \<or> \<not> is_digit (hd ?tail)" using tail by auto
  note s2 = span_append[OF p(3) this]
  have "CHR ''_'' # n \<in> set suffix_keywords" using p(2) by (simp add: suffix_keywords_def)
  with Cons s1 s2 p(1) n(2) show ?case by (auto simp: suffix_parts.simps[of "CHR ''_'' # _"])
qed

lemma cmp_suffixes_key:
  assumes "suffixes_ok s" "suffixes_ok t"
  shows "cmp_suffixes s t = py_cmp (suffix_list_key (suffix_parts s)) (suffix_list_key (suffix_parts t))"
proof -
  have "\<forall>(k, _) \<in> set (suffix_parts x). k \<in> set suffix_keywords" if "suffixes_ok x" for x
    using that suffix_parts_names by (auto simp only: suffixes_ok_iff)
  with assms show ?thesis by (simp add: cmp_suffixes_def cmp_suffix_parts_key)
qed

lemma cmp_versions_keys:
  "cmp_versions v1 v2 =
     (case (version_str_key v1, version_str_key v2) of
        (Some k1, Some k2) \<Rightarrow> Inr (py_cmp k1 k2)
      | _ \<Rightarrow> Inl ValueError)"
proof (cases "version_fullmatch v1"; cases "version_fullmatch v2")
  fix m1 m2
  assume m: "version_fullmatch v1 = Some m1" "version_fullmatch v2 = Some m2"
  then have "wf_version m1" "wf_version m2" "v1 \<noteq> []" "v2 \<noteq> []"
    using version_fullmatch_sound by (auto simp: version_fullmatch_def)
  then have "cmp_numbers (numbers m1) (numbers m2) = py_cmp (numbers_key (numbers m1)) (numbers_key (numbers m2))"
    "cmp_suffixes (suffixes m1) (suffixes m2) =
       py_cmp (suffix_list_key (suffix_parts (suffixes m1))) (suffix_list_key (suffix_parts (suffixes m2)))"
    by (simp_all add: wf_version_def cmp_numbers_key cmp_suffixes_key)
  with m \<open>v1 \<noteq> []\<close> \<open>v2 \<noteq> []\<close> show ?thesis
    by (cases "v1 = v2")
      (simp_all add: cmp_versions_def version_str_key_def version_key_def py_cmp_pair Let_def)
qed (auto simp: cmp_versions_def version_str_key_def)

interpretation pms: keyed_cmp cmp_versions version_valid "\<lambda>v. the (version_str_key v)"
  by unfold_locales (auto simp: cmp_versions_keys version_valid_def version_str_key_def)

section \<open>Properties\<close>

text \<open>
  C33. \<open>_get_version_regex().fullmatch\<close> accepts exactly the version strings of the grammar
  (dot-separated decimal components, an optional letter, a sequence of suffixes, an optional
  revision), and its groups are the unique decomposition of the string.
\<close>

theorem version_fullmatch_grammar:
  "version_fullmatch v = Some m \<longleftrightarrow> wf_version m \<and> v = version_string m"
  using version_fullmatch_sound version_fullmatch_complete by blast

text \<open>
  C4. \<open>cmp_versions\<close> raises \<open>ValueError\<close> exactly when one of the strings is not a version, and
  otherwise compares the two versions by one sort key: the algorithms 3.1 to 3.7 together are a
  lexicographic order (with \<open>rc < nothing < p\<close> and zero-led components as decimal fractions).
\<close>

theorem cmp_versions_by_key:
  "cmp_versions v1 v2 =
     (case (version_str_key v1, version_str_key v2) of
        (Some k1, Some k2) \<Rightarrow> Inr (py_cmp k1 k2)
      | _ \<Rightarrow> Inl ValueError)"
  by (rule cmp_versions_keys)

text \<open>
  The five boolean operators form a total preorder on valid versions: \<open>version_ge\<close> is the
  converse of \<open>version_le\<close>, \<open>version_gt\<close> and \<open>version_lt\<close> are their strict parts,
  \<open>version_eq\<close> is the equivalence, \<open>version_le\<close> is total and transitive.
\<close>

theorem version_order:
  assumes "version_valid a" "version_valid b" "version_valid c"
  shows "version_ge a b = version_le b a \<and> version_gt a b = version_lt b a
    \<and> (version_lt a b = Inr True \<longleftrightarrow> version_le b a = Inr False)
    \<and> (version_eq a b = Inr True \<longleftrightarrow> version_le a b = Inr True \<and> version_le b a = Inr True)
    \<and> (version_le a b = Inr True \<or> version_le b a = Inr True)
    \<and> (version_le a b = Inr True \<and> version_le b c = Inr True \<longrightarrow> version_le a c = Inr True)"
proof -
  note defs = version_ge_def version_le_def version_gt_def version_lt_def version_eq_def
  have ok: "\<exists>r. cmp_versions x y = Inr r \<and> cmp_versions y x = Inr (- r) \<and> r \<in> {-1, 0, 1}"
    if "version_valid x" "version_valid y" for x y
    using pms.cmp_ok[OF that] pms.cmp_swap[OF that] by blast
  have le: "version_le x y = Inr True \<longleftrightarrow> cmp_versions x y \<in> {Inr (-1), Inr 0}" for x y
    by (cases "cmp_versions x y") (auto simp: version_le_def)
  have "version_le a b = Inr True \<and> version_le b c = Inr True \<longrightarrow> version_le a c = Inr True"
    unfolding le using pms.cmp_le_trans[OF assms] by blast
  moreover have "version_ge a b = version_le b a \<and> version_gt a b = version_lt b a
    \<and> (version_lt a b = Inr True \<longleftrightarrow> version_le b a = Inr False)
    \<and> (version_eq a b = Inr True \<longleftrightarrow> version_le a b = Inr True \<and> version_le b a = Inr True)
    \<and> (version_le a b = Inr True \<or> version_le b a = Inr True)"
    using ok[OF assms(1,2)] by (auto simp: defs)
  ultimately show ?thesis by blast
qed

theorem version_order_witness:
  "version_le ''1.2_rc1'' ''1.2'' = Inr True \<and> version_le ''1.2'' ''1.2_p'' = Inr True
   \<and> version_le ''1.2_rc1'' ''1.2_p'' = Inr True"
proof -
  have v: "version_valid ''1.2_rc1''" "version_valid ''1.2''" "version_valid ''1.2_p''" by code_simp+
  have "version_le ''1.2_rc1'' ''1.2'' = Inr True" "version_le ''1.2'' ''1.2_p'' = Inr True"
    by code_simp+
  with version_order[OF v] show ?thesis by blast
qed

end
