(* ===== verification/PackageInfo.thy ===== *)
theory PackageInfo
  imports Pms
begin

text \<open>
  \<open>lib/parser/package_info.py\<close>: splitting of Portage package strings
  (\<open>category/package-version-revision\<close>) and the \<open>PackageInfo\<close> class with its formatting
  properties and comparison operators. \<open>None\<close> is the \<^term>\<open>None\<close> of an option; comparing
  \<open>None\<close> with \<open><\<close> or \<open>>\<close> raises \<open>TypeError\<close>, as Python does.
\<close>

section \<open>Splitting\<close>

record pv_tuple =
  pv_pv :: "string option"
  pv_package :: string
  pv_version :: "string option"
  pv_version_no_rev :: "string option"
  pv_rev :: "string option"

record cpv_tuple =
  cpv_category :: "string option"
  cpv_cp :: "string option"
  cpv_cpv :: "string option"
  cpv_cpf :: "string option"
  cpv_pv :: pv_tuple

text \<open>The group \<open>[\w+][\w+-]*\<close> of the pattern, which has to match the whole of its argument.\<close>

definition pkg_ok :: "string \<Rightarrow> bool" where
  "pkg_ok p \<longleftrightarrow> p \<noteq> [] \<and> (is_word (hd p) \<or> hd p = CHR ''+'')
     \<and> list_all (\<lambda>c. is_word c \<or> c = CHR ''+'' \<or> c = CHR ''-'') p"

text \<open>
  The package group is greedy, so the expression splits at the last hyphen that leaves a package
  name before it and a version after it.
\<close>

definition dash_splits :: "string \<Rightarrow> (string \<times> string) list" where
  "dash_splits s = map (\<lambda>i. (take i s, drop (Suc i) s)) (filter (\<lambda>i. s ! i = CHR ''-'') (rev [0..<length s]))"

definition pv_exact :: "string \<Rightarrow> (string \<times> version) option" where
  "pv_exact s =
     (case find (\<lambda>(p, v). pkg_ok p \<and> version_valid v) (dash_splits s) of
        None \<Rightarrow> None
      | Some (p, v) \<Rightarrow> map_option (\<lambda>m. (p, m)) (version_fullmatch v))"

definition version_no_rev :: "version \<Rightarrow> string" where
  "version_no_rev m = numbers m @ letter m @ suffixes m"

definition pv_of_match :: "string \<Rightarrow> string \<times> version \<Rightarrow> pv_tuple" where
  "pv_of_match s pm =
     \<lparr>pv_pv = Some s, pv_package = fst pm, pv_version = Some (version_string (snd pm)),
      pv_version_no_rev = Some (version_no_rev (snd pm)),
      pv_rev = map_option (\<lambda>r. CHR ''r'' # r) (revision (snd pm))\<rparr>"

text \<open>\<open>_pvr_re.match(pv)\<close>: the \<open>$\<close> of the pattern also matches before a final newline.\<close>

definition pvr_match :: "string \<Rightarrow> pv_tuple option" where
  "pvr_match s =
     (case pv_exact s of
        Some pm \<Rightarrow> Some (pv_of_match s pm)
      | None \<Rightarrow>
          if s \<noteq> [] \<and> last s = CHR 0x0A
          then map_option (pv_of_match (butlast s)) (pv_exact (butlast s)) else None)"

definition SplitPV :: "string \<Rightarrow> bool \<Rightarrow> pv_tuple option" where
  "SplitPV s strict =
     (case pvr_match s of
        Some t \<Rightarrow> Some t
      | None \<Rightarrow>
          if strict then None
          else Some \<lparr>pv_pv = None, pv_package = s, pv_version = None, pv_version_no_rev = None,
                     pv_rev = None\<rparr>)"

text \<open>Truthiness of an optional string.\<close>

definition truthy :: "string option \<Rightarrow> bool" where
  "truthy x \<longleftrightarrow> (case x of None \<Rightarrow> False | Some s \<Rightarrow> s \<noteq> [])"

definition if_all2 :: "string \<Rightarrow> string option \<Rightarrow> string option \<Rightarrow> string option" where
  "if_all2 sep a b = (if truthy a \<and> truthy b then Some (the a @ sep @ the b) else None)"

definition SplitCPV :: "string \<Rightarrow> bool \<Rightarrow> cpv_tuple option res" where
  "SplitCPV cpv strict =
     (let chunks = split_on CHR ''/'' cpv
      in if length chunks > 2 then Inl ValueError
         else
           let category = (if length chunks = 1 then None else Some (hd chunks));
               m = SplitPV (last chunks) strict
           in case m of
                None \<Rightarrow> Inr None
              | Some t \<Rightarrow>
                  if strict \<and> category = None then Inr None
                  else
                    let cp = if_all2 ''/'' category (Some (pv_package t));
                        real_cpv = if_all2 ''-'' cp (pv_version_no_rev t);
                        cpf = (if truthy real_cpv \<and> truthy (pv_rev t)
                               then if_all2 ''-'' real_cpv (pv_rev t) else real_cpv)
                    in Inr (Some \<lparr>cpv_category = category, cpv_cp = cp, cpv_cpv = real_cpv,
                                  cpv_cpf = cpf, cpv_pv = t\<rparr>))"

section \<open>The PackageInfo class\<close>

record package_info =
  category :: "string option"
  package :: "string option"
  pversion :: "string option"
  prevision :: int

text \<open>The arguments \<open>parse\<close> and the comparison operators accept, and any other object.\<close>

datatype pkg_arg = PStr string | PCpv cpv_tuple | PInfo package_info | POther

definition info_of_cpv :: "cpv_tuple \<Rightarrow> package_info res" where
  "info_of_cpv c =
     (let rev = pv_rev (cpv_pv c);
          revn = (if truthy rev then Some (filter (\<lambda>x. x \<noteq> CHR ''r'') (the rev)) else None)
      in res_bind (if truthy revn then py_int (the revn) else Inr 0)
           (\<lambda>n. Inr \<lparr>category = cpv_category c, package = Some (pv_package (cpv_pv c)),
                     pversion = pv_version_no_rev (cpv_pv c), prevision = n\<rparr>))"

fun parse_pkg :: "pkg_arg \<Rightarrow> package_info res" where
  "parse_pkg (PInfo i) = Inr i"
| "parse_pkg (PCpv c) = info_of_cpv c"
| "parse_pkg (PStr s) =
     (case SplitCPV s False of
        Inl e \<Rightarrow> Inl e
      | Inr None \<Rightarrow> Inl AttributeError
      | Inr (Some c) \<Rightarrow> info_of_cpv c)"
| "parse_pkg POther = Inl TypeError"

text \<open>
  \<open>__format__\<close>: the pieces of the format string, a literal or a field with its value; an empty
  or missing field makes the whole result empty. The field \<open>r\<close> is \<open>None\<close> for revision 0.
\<close>

datatype piece = Lit string | Field "string option"

fun piece_missing :: "piece \<Rightarrow> bool" where
  "piece_missing (Lit s) = False"
| "piece_missing (Field v) = (\<not> truthy v)"

fun piece_text :: "piece \<Rightarrow> string" where
  "piece_text (Lit s) = s"
| "piece_text (Field v) = (case v of None \<Rightarrow> [] | Some s \<Rightarrow> s)"

definition format_pieces :: "piece list \<Rightarrow> string" where
  "format_pieces ps = (if list_ex piece_missing ps then [] else concat (map piece_text ps))"

definition field_r :: "package_info \<Rightarrow> string option" where
  "field_r i = (if prevision i = 0 then None else Some (str_of_int (prevision i)))"

definition str_or :: "string \<Rightarrow> string \<Rightarrow> string" where
  "str_or a b = (if a \<noteq> [] then a else b)"

definition info_cpv :: "package_info \<Rightarrow> string" where
  "info_cpv i = format_pieces [Field (category i), Lit ''/'', Field (package i), Lit ''-'', Field (pversion i)]"

definition info_cpvr :: "package_info \<Rightarrow> string" where
  "info_cpvr i = str_or (format_pieces [Field (Some (info_cpv i)), Lit ''-r'', Field (field_r i)]) (info_cpv i)"

definition info_atom :: "package_info \<Rightarrow> string" where
  "info_atom i = format_pieces [Field (category i), Lit ''/'', Field (package i)]"

definition info_pv :: "package_info \<Rightarrow> string" where
  "info_pv i = format_pieces [Field (package i), Lit ''-'', Field (pversion i)]"

definition info_pvr :: "package_info \<Rightarrow> string" where
  "info_pvr i = str_or (format_pieces [Field (Some (info_pv i)), Lit ''-r'', Field (field_r i)]) (info_pv i)"

definition info_vr :: "package_info \<Rightarrow> string option" where
  "info_vr i =
     (let s = format_pieces [Field (pversion i), Lit ''-r'', Field (field_r i)]
      in if s \<noteq> [] then Some s else pversion i)"

definition info_ebuild :: "package_info \<Rightarrow> string" where
  "info_ebuild i = format_pieces [Field (Some (info_pvr i)), Lit ''.ebuild'']"

definition info_relative_path :: "package_info \<Rightarrow> string" where
  "info_relative_path i =
     format_pieces [Field (category i), Lit ''/'', Field (package i), Lit ''/'', Field (Some (info_ebuild i))]"

definition info_str :: "package_info \<Rightarrow> string" where
  "info_str i = str_or (info_cpvr i) (info_atom i)"

definition info_eq_info :: "package_info \<Rightarrow> package_info \<Rightarrow> bool res" where
  "info_eq_info i j =
     (if category i \<noteq> category j \<or> package i \<noteq> package j \<or> prevision i \<noteq> prevision j then Inr False
      else if truthy (pversion i) \<and> truthy (pversion j)
      then version_eq (the (pversion i)) (the (pversion j))
      else Inr (pversion i = pversion j))"

fun info_eq :: "package_info \<Rightarrow> pkg_arg \<Rightarrow> bool res" where
  "info_eq i (PInfo j) = info_eq_info i j"
| "info_eq i POther = Inr False"
| "info_eq i arg = (case parse_pkg arg of Inl e \<Rightarrow> Inl e | Inr j \<Rightarrow> info_eq_info i j)"

fun opt_gt :: "string option \<Rightarrow> string option \<Rightarrow> bool res" where
  "opt_gt (Some a) (Some b) = Inr (a > b)"
| "opt_gt _ _ = Inl TypeError"

definition info_gt_info :: "package_info \<Rightarrow> package_info \<Rightarrow> bool res" where
  "info_gt_info i j =
     (if info_atom i \<noteq> [] \<and> info_atom j \<noteq> [] \<and> info_atom i \<noteq> info_atom j
      then Inr (info_atom i > info_atom j)
      else if category i \<noteq> category j then opt_gt (category i) (category j)
      else if package i \<noteq> package j then opt_gt (package i) (package j)
      else if truthy (info_vr i) \<and> truthy (info_vr j)
      then version_gt (the (info_vr i)) (the (info_vr j))
      else opt_gt (info_vr i) (info_vr j))"

fun info_gt :: "package_info \<Rightarrow> pkg_arg \<Rightarrow> bool res" where
  "info_gt i (PInfo j) = info_gt_info i j"
| "info_gt i _ = Inl TypeError"

fun info_lt :: "package_info \<Rightarrow> pkg_arg \<Rightarrow> bool res" where
  "info_lt i (PInfo j) = info_gt_info j i"
| "info_lt i _ = Inl TypeError"

definition info_ge :: "package_info \<Rightarrow> pkg_arg \<Rightarrow> bool res" where
  "info_ge i arg = res_bind (info_eq i arg) (\<lambda>b. if b then Inr True else info_gt i arg)"

definition info_le :: "package_info \<Rightarrow> pkg_arg \<Rightarrow> bool res" where
  "info_le i arg = res_bind (info_eq i arg) (\<lambda>b. if b then Inr True else info_lt i arg)"

text \<open>The tuple \<open>__hash__\<close> hashes.\<close>

definition info_hash_key :: "package_info \<Rightarrow> string option \<times> string option \<times> string option \<times> int" where
  "info_hash_key i = (category i, package i, pversion i, prevision i)"

definition revision_bump :: "package_info \<Rightarrow> package_info" where
  "revision_bump i = i\<lparr>prevision := prevision i + 1\<rparr>"

definition with_version :: "package_info \<Rightarrow> string \<Rightarrow> package_info" where
  "with_version i v = i\<lparr>pversion := Some v, prevision := 0\<rparr>"

definition to_cpv :: "package_info \<Rightarrow> cpv_tuple option res" where
  "to_cpv i = SplitCPV (info_cpvr i) True"

section \<open>Fully specified packages\<close>

text \<open>A category without a slash, a package name, a version without revision, a revision.\<close>

definition wf_info :: "package_info \<Rightarrow> bool" where
  "wf_info i \<longleftrightarrow>
     (case (category i, package i, pversion i) of
        (Some c, Some p, Some v) \<Rightarrow>
          c \<noteq> [] \<and> CHR ''/'' \<notin> set c \<and> pkg_ok p
          \<and> (case version_fullmatch v of None \<Rightarrow> False | Some m \<Rightarrow> revision m = None)
      | _ \<Rightarrow> False) \<and> 0 \<le> prevision i"

lemma wf_infoE:
  assumes "wf_info i"
  obtains c p v m n where "category i = Some c" "package i = Some p" "pversion i = Some v"
    "prevision i = int n" "c \<noteq> []" "CHR ''/'' \<notin> set c" "pkg_ok p" "v \<noteq> []" "p \<noteq> []"
    "version_fullmatch v = Some m" "revision m = None" "wf_version m" "v = version_no_rev m"
proof -
  obtain c p v m where i: "category i = Some c" "package i = Some p" "pversion i = Some v"
      "c \<noteq> []" "CHR ''/'' \<notin> set c" "pkg_ok p" "version_fullmatch v = Some m" "revision m = None"
      "0 \<le> prevision i"
    using assms unfolding wf_info_def by (auto split: option.splits)
  obtain n where "prevision i = int n" using i(9) by (metis nonneg_int_cases)
  moreover have "v \<noteq> []" using i(7) by (auto simp: version_fullmatch_def)
  moreover have "wf_version m" "v = version_no_rev m"
    using version_fullmatch_sound[OF i(7)] i(8)
    by (auto simp: version_string_def version_no_rev_def)
  moreover have "p \<noteq> []" using i(6) by (simp add: pkg_ok_def)
  ultimately show thesis using i that by blast
qed

definition version_char :: "char \<Rightarrow> bool" where
  "version_char c \<longleftrightarrow> is_digit c \<or> is_lower c \<or> c = CHR ''.'' \<or> c = CHR ''_''"

lemma version_chars:
  assumes "wf_version m" shows "list_all version_char (version_no_rev m)"
proof -
  obtain d ds where num: "numbers m = d @ concat (map (Cons CHR ''.'') ds)" "list_all number_ok (d # ds)"
    using assms numbers_split[of "numbers m"] by (auto simp: wf_version_def)
  then have "list_all version_char (numbers m)"
    by (auto simp: list_all_iff number_ok_def version_char_def)
  moreover have "list_all version_char (letter m)"
    using assms by (cases "letter m") (auto simp: wf_version_def version_char_def)
  moreover have "list_all version_char (suffixes m)"
  proof -
    obtain ps where ps: "suffixes m = concat (map (Cons CHR ''_'') ps)" "\<forall>p \<in> set ps. suffix_ok p"
      using assms by (auto simp: wf_version_def suffixes_ok_iff)
    have "list_all version_char p" if "suffix_ok p" for p
    proof -
      obtain n d where p: "p = n @ d" "n \<in> set suffix_names" "list_all is_digit d"
        using \<open>suffix_ok p\<close> suffix_ok_iff by auto
      moreover have "list_all is_lower n"
        using p(2) by (auto simp: suffix_names_def is_lower_def py_ord_def)
      ultimately show ?thesis by (auto simp: list_all_iff version_char_def)
    qed
    with ps show ?thesis by (auto simp: list_all_iff version_char_def)
  qed
  ultimately show ?thesis by (simp add: version_no_rev_def)
qed

lemma version_char_simps [simp]: "\<not> version_char CHR ''-''" "\<not> version_char CHR ''/''"
  by (simp_all add: version_char_def is_lower_def py_ord_def)

lemma version_no_rev_free:
  assumes "wf_version m"
  shows "CHR ''-'' \<notin> set (version_no_rev m)" "CHR ''/'' \<notin> set (version_no_rev m)"
  using version_chars[OF assms] by (auto simp: list_all_iff)

text \<open>The version with its revision, as \<open>vr\<close> and \<open>cpvr\<close> print it.\<close>

definition vr_string :: "string \<Rightarrow> nat \<Rightarrow> string" where
  "vr_string v n = v @ (if n = 0 then [] else ''-r'' @ str_of_nat n)"

definition vr_version :: "version \<Rightarrow> nat \<Rightarrow> version" where
  "vr_version m n = m\<lparr>revision := (if n = 0 then None else Some (str_of_nat n))\<rparr>"

lemma vr_fullmatch:
  assumes "wf_version m" "revision m = None"
  shows "version_fullmatch (vr_string (version_no_rev m) n) = Some (vr_version m n)"
proof -
  have "wf_version (vr_version m n)"
    using assms by (auto simp: wf_version_def vr_version_def number_ok_def str_of_nat_digits)
  moreover have "version_string (vr_version m n) = vr_string (version_no_rev m) n"
    by (simp add: version_string_def vr_version_def vr_string_def version_no_rev_def)
  ultimately show ?thesis by (metis version_fullmatch_complete)
qed

lemma vr_parts:
  "version_no_rev (vr_version m n) = version_no_rev m"
  "revision (vr_version m n) = (if n = 0 then None else Some (str_of_nat n))"
  "version_string (vr_version m n) = vr_string (version_no_rev m) n"
  by (simp_all add: version_no_rev_def vr_version_def version_string_def vr_string_def)

lemma find_append_first:
  "(\<And>x. x \<in> set xs \<Longrightarrow> \<not> P x) \<Longrightarrow> P y \<Longrightarrow> find P (xs @ y # ys) = Some y"
  by (induction xs) auto

lemma dash_splits_at:
  obtains xs ys where "dash_splits (p @ CHR ''-'' # w) = xs @ (p, w) # ys"
    "\<forall>q \<in> set xs. \<exists>a. w = a @ CHR ''-'' # snd q"
proof -
  let ?s = "p @ CHR ''-'' # w" and ?k = "length p"
  let ?f = "\<lambda>i. (take i ?s, drop (Suc i) ?s)" and ?Q = "\<lambda>i. ?s ! i = CHR ''-''"
  have "[0..<length ?s] = [0..<?k] @ ?k # [Suc ?k..<length ?s]"
    by (metis add.right_neutral add_Suc_right le_add1 length_Cons length_append less_add_Suc1 upt_add_eq_append upt_conv_Cons zero_le)
  then have d: "dash_splits ?s =
      map ?f (filter ?Q (rev [Suc ?k..<length ?s])) @ (p, w) # map ?f (filter ?Q (rev [0..<?k]))"
    by (simp add: dash_splits_def)
  have "\<exists>a. w = a @ CHR ''-'' # drop (Suc i) ?s" if "i \<in> set (filter ?Q (rev [Suc ?k..<length ?s]))" for i
  proof -
    have i: "?s ! i = CHR ''-''" "i < length ?s" "Suc ?k \<le> i"
      using that by (auto simp only: set_filter set_rev set_upt mem_Collect_eq atLeastLessThan_iff)
    define j where "j = i - Suc ?k"
    have j: "i = Suc ?k + j" "j < length w" using i(2,3) by (auto simp: j_def)
    then have "w ! j = CHR ''-''" using i(1) by (simp add: nth_append)
    then have "w = take j w @ CHR ''-'' # drop (Suc j) w"
      using j(2) by (metis id_take_nth_drop)
    moreover have "drop (Suc i) ?s = drop (Suc j) w" using j(1) by simp
    ultimately show ?thesis by metis
  qed
  then show thesis by (intro that[OF d]) auto
qed

lemma find_dash_split:
  assumes "pkg_ok p" "version_valid w"
    and "\<And>a b. w = a @ CHR ''-'' # b \<Longrightarrow> \<not> version_valid b"
  shows "find (\<lambda>(p, v). pkg_ok p \<and> version_valid v) (dash_splits (p @ CHR ''-'' # w)) = Some (p, w)"
proof -
  obtain xs ys where d: "dash_splits (p @ CHR ''-'' # w) = xs @ (p, w) # ys"
    "\<forall>q \<in> set xs. \<exists>a. w = a @ CHR ''-'' # snd q" by (rule dash_splits_at)
  have "\<not> version_valid (snd q)" if "q \<in> set xs" for q using d(2) that assms(3) by blast
  then show ?thesis unfolding d(1) using assms(1,2) by (intro find_append_first) auto
qed

lemma vr_no_inner_version:
  assumes "wf_version m" "vr_string (version_no_rev m) n = a @ CHR ''-'' # b"
  shows "\<not> version_valid b"
proof -
  let ?v = "version_no_rev m"
  have free: "CHR ''-'' \<notin> set ?v" by (rule version_no_rev_free[OF assms(1)])
  have "b = CHR ''r'' # str_of_nat n"
  proof (cases "n = 0")
    case True
    with assms free show ?thesis by (auto simp: vr_string_def)
  next
    case False
    then have eq: "?v @ CHR ''-'' # (CHR ''r'' # str_of_nat n) = a @ CHR ''-'' # b"
      using assms by (simp add: vr_string_def)
    have "CHR ''-'' \<notin> set (CHR ''r'' # str_of_nat n)"
      using str_of_nat_digits[of n] by (auto simp: list_all_iff)
    with eq free show ?thesis
      by (auto simp: append_eq_append_conv2 Cons_eq_append_conv append_eq_Cons_conv)
  qed
  then show ?thesis by (simp add: version_valid_def version_fullmatch_def)
qed

lemma pv_exact_vr:
  assumes "pkg_ok p" "wf_version m" "revision m = None"
  shows "pv_exact (p @ CHR ''-'' # vr_string (version_no_rev m) n) = Some (p, vr_version m n)"
proof -
  have "version_valid (vr_string (version_no_rev m) n)"
    using vr_fullmatch[OF assms(2,3)] by (simp add: version_valid_def)
  from find_dash_split[OF assms(1) this vr_no_inner_version[OF assms(2)]]
  show ?thesis using vr_fullmatch[OF assms(2,3)] by (simp add: pv_exact_def)
qed

lemma info_cpvr_wf:
  assumes "category i = Some c" "package i = Some p" "pversion i = Some v" "prevision i = int n"
    "c \<noteq> []" "p \<noteq> []" "v \<noteq> []"
  shows "info_cpvr i = c @ CHR ''/'' # p @ CHR ''-'' # vr_string v n"
    and "info_atom i = c @ CHR ''/'' # p"
    and "info_vr i = Some (vr_string v n)"
  using assms
  by (auto simp: info_cpvr_def info_cpv_def info_atom_def info_vr_def format_pieces_def truthy_def
      str_or_def field_r_def vr_string_def str_of_int_def)

lemma pkg_ok_no_slash: "pkg_ok p \<Longrightarrow> CHR ''/'' \<notin> set p"
  by (auto simp: pkg_ok_def list_all_iff is_word_def is_digit_def is_lower_def is_upper_def py_ord_def)

lemma vr_string_no_slash: "wf_version m \<Longrightarrow> CHR ''/'' \<notin> set (vr_string (version_no_rev m) n)"
  using version_no_rev_free(2)[of m] str_of_nat_digits[of n]
  by (auto simp: vr_string_def list_all_iff)

lemma SplitCPV_wf:
  assumes "c \<noteq> []" "CHR ''/'' \<notin> set c" "pkg_ok p" "wf_version m" "revision m = None" "version_no_rev m \<noteq> []"
  shows "SplitCPV (c @ CHR ''/'' # p @ CHR ''-'' # vr_string (version_no_rev m) n) b =
    (let v = version_no_rev m; cp = c @ ''/'' @ p; cpv = cp @ ''-'' @ v;
         rev = (if n = 0 then None else Some (CHR ''r'' # str_of_nat n))
     in Inr (Some \<lparr>cpv_category = Some c, cpv_cp = Some cp, cpv_cpv = Some cpv,
          cpv_cpf = Some (case rev of None \<Rightarrow> cpv | Some r \<Rightarrow> cpv @ ''-'' @ r),
          cpv_pv = \<lparr>pv_pv = Some (p @ ''-'' @ vr_string v n), pv_package = p,
             pv_version = Some (vr_string v n), pv_version_no_rev = Some v, pv_rev = rev\<rparr>\<rparr>))"
proof -
  let ?rest = "p @ CHR ''-'' # vr_string (version_no_rev m) n"
  have "CHR ''/'' \<notin> set ?rest"
    using pkg_ok_no_slash[OF assms(3)] vr_string_no_slash[OF assms(4)] by auto
  then have chunks: "split_on CHR ''/'' (c @ CHR ''/'' # ?rest) = [c, ?rest]"
    using assms(2) by (simp add: split_on_append split_on_free)
  have "p \<noteq> []" using assms(3) by (simp add: pkg_ok_def)
  moreover have "SplitPV ?rest b = Some (pv_of_match ?rest (p, vr_version m n))"
    using pv_exact_vr[OF assms(3-5)] by (simp add: SplitPV_def pvr_match_def)
  ultimately show ?thesis
    using assms(1,6) chunks
    by (auto simp: SplitCPV_def pv_of_match_def vr_parts if_all2_def truthy_def Let_def)
qed

lemma str_of_nat_no_r: "filter (\<lambda>x. x \<noteq> CHR ''r'') (str_of_nat n) = str_of_nat n"
  using str_of_nat_digits[of n] by (auto simp: filter_id_conv list_all_iff)

text \<open>The sort key of the comparison operators: the atom, then the version with its revision.\<close>

definition info_key :: "package_info \<Rightarrow> string \<times> (nat \<times> part_key list) \<times> string \<times> (int \<times> nat) list \<times> nat" where
  "info_key i = (info_atom i, the (version_str_key (the (info_vr i))))"

lemma revision_number_vr: "revision_number (vr_version m n) = n"
  by (simp add: revision_number_def vr_version_def)

lemma vr_key:
  assumes "wf_version m" "revision m = None"
  shows "version_str_key (vr_string (version_no_rev m) n) =
    Some (numbers_key (numbers m), letter m, suffix_list_key (suffix_parts (suffixes m)), n)"
  using vr_fullmatch[OF assms, of n]
  by (simp add: version_str_key_def version_key_def revision_number_vr) (simp add: vr_version_def)

lemma vr_string_0: "vr_string v 0 = v"
  by (simp add: vr_string_def)

lemma atom_inj:
  assumes "CHR ''/'' \<notin> set c" "CHR ''/'' \<notin> set d"
  shows "c @ CHR ''/'' # p = d @ CHR ''/'' # q \<longleftrightarrow> c = d \<and> p = q"
proof
  assume "c @ CHR ''/'' # p = d @ CHR ''/'' # q"
  with assms show "c = d \<and> p = q"
    by (auto simp: append_eq_append_conv2 Cons_eq_append_conv append_eq_Cons_conv)
qed auto

lemma info_compare_key:
  assumes "wf_info i" "wf_info j"
  shows "info_gt_info i j = Inr (info_key j < info_key i)"
    and "info_eq_info i j = Inr (info_key i = info_key j)"
proof -
  from assms(1) obtain c p v m n where i: "category i = Some c" "package i = Some p" "pversion i = Some v"
      "prevision i = int n" "c \<noteq> []" "CHR ''/'' \<notin> set c" "p \<noteq> []" "v \<noteq> []"
      "revision m = None" "wf_version m" "v = version_no_rev m"
    by (rule wf_infoE)
  from assms(2) obtain d q w l k where j: "category j = Some d" "package j = Some q" "pversion j = Some w"
      "prevision j = int k" "d \<noteq> []" "CHR ''/'' \<notin> set d" "q \<noteq> []" "w \<noteq> []"
      "revision l = None" "wf_version l" "w = version_no_rev l"
    by (rule wf_infoE)
  note ii = info_cpvr_wf[OF i(1-5,7,8)] and jj = info_cpvr_wf[OF j(1-5,7,8)]
  note atom = atom_inj[OF i(6) j(6), of p q]
  note vk = vr_key[OF i(10,9)] vr_key[OF j(10,9)]
  have truthy: "truthy (info_vr i)" "truthy (info_vr j)"
    using ii jj i(8) j(8) by (simp_all add: truthy_def vr_string_def)
  let ?ki = "the (version_str_key (the (info_vr i)))" and ?kj = "the (version_str_key (the (info_vr j)))"
  have cmp: "cmp_versions (the (info_vr i)) (the (info_vr j)) = Inr (py_cmp ?ki ?kj)"
    using ii jj i j vk by (simp add: cmp_versions_keys)
  then have gt: "version_gt (the (info_vr i)) (the (info_vr j)) = Inr (?kj < ?ki)"
    by (auto simp: version_gt_def py_cmp_def)
  show "info_gt_info i j = Inr (info_key j < info_key i)"
    using ii jj i j atom gt truthy by (auto simp: info_gt_info_def info_key_def less_prod_def)
  have "cmp_versions v w = Inr (py_cmp (the (version_str_key v)) (the (version_str_key w)))"
    using vk[of 0] i(11) j(11) by (simp add: cmp_versions_keys vr_string_0)
  then have "version_eq v w = Inr (the (version_str_key v) = the (version_str_key w))"
    by (simp add: version_eq_def)
  moreover have "?ki = ?kj \<longleftrightarrow> the (version_str_key v) = the (version_str_key w) \<and> n = k"
    using vk vk[of 0] ii jj i(11) j(11) by (auto simp: vr_string_0)
  ultimately show "info_eq_info i j = Inr (info_key i = info_key j)"
    using ii jj i j atom by (auto simp: info_eq_info_def info_key_def truthy_def)
qed

lemma wf_revision_bump: "wf_info i \<Longrightarrow> wf_info (revision_bump i)"
  by (simp add: wf_info_def revision_bump_def)

section \<open>Properties\<close>

text \<open>
  C34. Printing and parsing are inverse: for every fully specified package, \<open>parse(str(info))\<close>
  is \<open>info\<close> again, whatever hyphens and digits the package name contains.
\<close>

theorem parse_str_roundtrip:
  assumes "wf_info i"
  shows "parse_pkg (PStr (info_str i)) = Inr i"
proof -
  from assms obtain c p v m n where i: "category i = Some c" "package i = Some p" "pversion i = Some v"
      "prevision i = int n" "c \<noteq> []" "CHR ''/'' \<notin> set c" "pkg_ok p" "v \<noteq> []" "p \<noteq> []"
      "revision m = None" "wf_version m" "v = version_no_rev m"
    by (rule wf_infoE)
  note split = SplitCPV_wf[OF i(5,6,7,11,10), of n False]
  have "info_str i = c @ CHR ''/'' # p @ CHR ''-'' # vr_string (version_no_rev m) n"
    using info_cpvr_wf(1)[OF i(1-5,9,8)] i(12) by (simp add: info_str_def str_or_def)
  with i split show ?thesis
    by (auto simp: info_of_cpv_def Let_def truthy_def str_of_nat_no_r)
qed

theorem parse_str_roundtrip_witness:
  "parse_pkg (PStr (info_str \<lparr>category = Some ''dev-libs'', package = Some ''foo-1-bar'',
      pversion = Some ''1.2_p3'', prevision = 4\<rparr>)) =
    Inr \<lparr>category = Some ''dev-libs'', package = Some ''foo-1-bar'', pversion = Some ''1.2_p3'', prevision = 4\<rparr>"
  by (rule parse_str_roundtrip) code_simp

text \<open>
  On fully specified packages the six comparison operators never raise and are the operators
  of one linear order: by atom as a string, then by version and revision as \<open>cmp_versions\<close>
  orders them. \<open>revision_bump\<close> always gives a strictly greater package.
\<close>

theorem info_order:
  assumes "wf_info i" "wf_info j"
  shows "info_eq i (PInfo j) = Inr (info_key i = info_key j)
    \<and> info_gt i (PInfo j) = Inr (info_key i > info_key j) \<and> info_lt i (PInfo j) = Inr (info_key i < info_key j)
    \<and> info_ge i (PInfo j) = Inr (info_key i \<ge> info_key j) \<and> info_le i (PInfo j) = Inr (info_key i \<le> info_key j)
    \<and> info_gt (revision_bump i) (PInfo i) = Inr True"
proof -
  note ij = info_compare_key[OF assms] and ji = info_compare_key[OF assms(2,1)]
  have bump: "info_key i < info_key (revision_bump i)"
  proof -
    from assms(1) obtain c p v m n where i: "category i = Some c" "package i = Some p" "pversion i = Some v"
        "prevision i = int n" "c \<noteq> []" "p \<noteq> []" "v \<noteq> []"
        "revision m = None" "wf_version m" "v = version_no_rev m"
      by (rule wf_infoE)
    have b: "category (revision_bump i) = Some c" "package (revision_bump i) = Some p"
        "pversion (revision_bump i) = Some v" "prevision (revision_bump i) = int (Suc n)"
      using i by (simp_all add: revision_bump_def)
    show ?thesis
      using info_cpvr_wf[OF i(1-7)] info_cpvr_wf[OF b i(5-7)] vr_key[OF i(9,8)] i(10)
      by (simp add: info_key_def less_prod_def)
  qed
  show ?thesis
    using ij ji bump info_compare_key(1)[OF wf_revision_bump[OF assms(1)] assms(1)]
    by (auto simp: info_ge_def info_le_def not_less le_less)
qed

theorem info_order_witness:
  "info_gt \<lparr>category = Some ''a'', package = Some ''b'', pversion = Some ''1.10'', prevision = 0\<rparr>
      (PInfo \<lparr>category = Some ''a'', package = Some ''b'', pversion = Some ''1.9'', prevision = 7\<rparr>) = Inr True"
proof -
  let ?i = "\<lparr>category = Some ''a'', package = Some ''b'', pversion = Some ''1.10'', prevision = 0\<rparr>"
  let ?j = "\<lparr>category = Some ''a'', package = Some ''b'', pversion = Some ''1.9'', prevision = 7\<rparr>"
  have w: "wf_info ?i" "wf_info ?j" by code_simp+
  have "info_gt ?i (PInfo ?j) = Inr True" by code_simp
  with info_order[OF w] show ?thesis by simp
qed

text \<open>
  Comparing two packages of the same name with \<open>>\<close> raises \<open>TypeError\<close> whenever one of them
  has no version: the last branch of \<open>__gt__\<close>, written for that case, compares with \<open>None\<close>.
\<close>

theorem gt_without_version_raises:
  assumes "category i = category j" "package i = package j"
    and "pversion i = None \<or> pversion j = None"
  shows "info_gt i (PInfo j) = Inl TypeError"
proof -
  have "info_atom i = info_atom j" using assms(1,2) by (simp add: info_atom_def)
  moreover have "info_vr i = None \<or> info_vr j = None"
    using assms(3) by (auto simp: info_vr_def format_pieces_def truthy_def)
  ultimately show ?thesis
    using assms(1,2) by (cases "info_vr i"; cases "info_vr j") (auto simp: info_gt_info_def truthy_def)
qed

theorem gt_without_version_raises_witness:
  "info_gt \<lparr>category = Some ''a'', package = Some ''b'', pversion = Some ''1'', prevision = 0\<rparr>
      (PInfo \<lparr>category = Some ''a'', package = Some ''b'', pversion = None, prevision = 0\<rparr>) = Inl TypeError"
  by (rule gt_without_version_raises) simp_all

text \<open>
  Packages with the same hash tuple are equal, but equal packages can have different hash
  tuples: \<open>1.0\<close> and \<open>1.00\<close> are equal versions, and \<open>__hash__\<close> hashes the version string.
\<close>

theorem info_hash_eq:
  "(\<forall>i j. wf_info i \<and> info_hash_key i = info_hash_key j \<longrightarrow> info_eq i (PInfo j) = Inr True)
   \<and> (\<exists>i j. wf_info i \<and> wf_info j \<and> info_eq i (PInfo j) = Inr True \<and> info_hash_key i \<noteq> info_hash_key j)"
proof
  show "\<forall>i j. wf_info i \<and> info_hash_key i = info_hash_key j \<longrightarrow> info_eq i (PInfo j) = Inr True"
  proof (intro allI impI, elim conjE)
    fix i j assume i: "wf_info i" and "info_hash_key i = info_hash_key j"
    then have "i = j" by (cases i; cases j) (simp add: info_hash_key_def)
    with info_compare_key(2)[OF i i] show "info_eq i (PInfo j) = Inr True" by simp
  qed
  let ?i = "\<lparr>category = Some ''a'', package = Some ''b'', pversion = Some ''1.0'', prevision = 0\<rparr>"
  let ?j = "\<lparr>category = Some ''a'', package = Some ''b'', pversion = Some ''1.00'', prevision = 0\<rparr>"
  have "wf_info ?i" "wf_info ?j" "info_eq ?i (PInfo ?j) = Inr True" by code_simp+
  then show "\<exists>i j. wf_info i \<and> wf_info j \<and> info_eq i (PInfo j) = Inr True \<and> info_hash_key i \<noteq> info_hash_key j"
    by (intro exI[of _ ?i] exI[of _ ?j]) (simp add: info_hash_key_def)
qed

theorem info_hash_eq_witness:
  "info_eq \<lparr>category = Some ''a'', package = Some ''b'', pversion = Some ''1'', prevision = 2\<rparr>
     (PInfo \<lparr>category = Some ''a'', package = Some ''b'', pversion = Some ''1'', prevision = 2\<rparr>) = Inr True"
proof -
  have "wf_info \<lparr>category = Some ''a'', package = Some ''b'', pversion = Some ''1'', prevision = 2\<rparr>"
    by code_simp
  then show ?thesis using info_hash_eq by blast
qed

end
