(* ===== verification/Paths.thy ===== *)
theory Paths
  imports Prelude
begin

text \<open>
  The functions of \<open>os.path\<close> and \<open>pathlib\<close> that the modelled modules call, on POSIX paths:
  \<open>normpath\<close>, \<open>join\<close>, \<open>basename\<close>, \<open>dirname\<close>, \<open>splitext\<close>, \<open>relpath\<close> and \<open>Path.relative_to\<close>.
\<close>

definition leading_slashes :: "string \<Rightarrow> nat" where
  "leading_slashes p =
     (if \<not> startswith p ''/'' then 0
      else if startswith p ''//'' \<and> \<not> startswith p ''///'' then 2 else 1)"

fun norm_comps :: "bool \<Rightarrow> string list \<Rightarrow> string list \<Rightarrow> string list" where
  "norm_comps rooted acc [] = rev acc"
| "norm_comps rooted acc (c # cs) =
     (if c = [] \<or> c = ''.'' then norm_comps rooted acc cs
      else if c \<noteq> ''..'' \<or> (\<not> rooted \<and> acc = []) \<or> (acc \<noteq> [] \<and> hd acc = ''..'')
      then norm_comps rooted (c # acc) cs
      else norm_comps rooted (tl acc) cs)"

definition normpath :: "string \<Rightarrow> string" where
  "normpath p =
     (if p = [] then ''.''
      else (let n = leading_slashes p;
                r = replicate n CHR ''/'' @ join ''/'' (norm_comps (n > 0) [] (split_on CHR ''/'' p))
            in if r = [] then ''.'' else r))"

fun path_join :: "string \<Rightarrow> string list \<Rightarrow> string" where
  "path_join p [] = p"
| "path_join p (q # qs) =
     path_join (if startswith q ''/'' then q
                else if p = [] \<or> endswith p ''/'' then p @ q else p @ ''/'' @ q) qs"

definition basename :: "string \<Rightarrow> string" where
  "basename p = last (split_on CHR ''/'' p)"

definition dirname :: "string \<Rightarrow> string" where
  "dirname p =
     (let h = take (length p - length (basename p)) p
      in if h \<noteq> [] \<and> list_ex (\<lambda>c. c \<noteq> CHR ''/'') h then rstrip (\<lambda>c. c = CHR ''/'') h else h)"

text \<open>\<open>Path(p).parts\<close>, and whether \<open>Path(p).relative_to(q)\<close> returns rather than raises.\<close>

definition path_parts :: "string \<Rightarrow> string list" where
  "path_parts p =
     (if leading_slashes p = 0 then [] else [replicate (leading_slashes p) CHR ''/''])
     @ filter (\<lambda>c. c \<noteq> [] \<and> c \<noteq> ''.'') (split_on CHR ''/'' p)"

definition is_relative_to :: "string \<Rightarrow> string \<Rightarrow> bool" where
  "is_relative_to p q =
     (if path_parts q = [] then leading_slashes p = 0
      else take (length (path_parts q)) (path_parts p) = path_parts q)"

text \<open>The root of \<open>os.path.splitext\<close>: leading dots of a name do not begin an extension.\<close>

definition splitext_root :: "string \<Rightarrow> string" where
  "splitext_root p =
     (let b = basename p; stem = join ''.'' (butlast (split_on CHR ''.'' b))
      in if list_ex (\<lambda>c. c \<noteq> CHR ''.'') stem then take (length p - (length b - length stem)) p else p)"

text \<open>\<open>os.path.relpath\<close> of absolute paths.\<close>

fun drop_common :: "'a list \<Rightarrow> 'a list \<Rightarrow> 'a list \<times> 'a list" where
  "drop_common (x # xs) (y # ys) = (if x = y then drop_common xs ys else (x # xs, y # ys))"
| "drop_common xs ys = (xs, ys)"

definition relpath :: "string \<Rightarrow> string \<Rightarrow> string" where
  "relpath p start =
     (let comps = (\<lambda>q. filter (\<lambda>c. c \<noteq> []) (split_on CHR ''/'' (normpath q)));
          (up, down) = drop_common (comps start) (comps p);
          rel = replicate (length up) ''..'' @ down
      in if rel = [] then ''.'' else join ''/'' rel)"

lemma normpath_root [simp]: "normpath ''/'' = ''/''"
  by code_simp

lemma path_parts_abs: "leading_slashes p = 0 \<longleftrightarrow> \<not> startswith p ''/''"
  by (simp add: leading_slashes_def)

lemma is_relative_to_refl: "is_relative_to p p \<or> path_parts p = []"
  by (simp add: is_relative_to_def)

lemma is_relative_to_trans:
  assumes "is_relative_to p q" "is_relative_to q r" "path_parts r \<noteq> []" "path_parts q \<noteq> []"
  shows "is_relative_to p r"
proof -
  have q: "take (length (path_parts q)) (path_parts p) = path_parts q"
    and r: "take (length (path_parts r)) (path_parts q) = path_parts r"
    using assms by (simp_all add: is_relative_to_def)
  have "length (path_parts r) \<le> length (path_parts q)"
    by (metis r length_take min.cobounded1)
  then have "take (length (path_parts r)) (path_parts p) = path_parts r"
    by (metis q r min.absorb1 take_take)
  with assms(3) show ?thesis by (simp add: is_relative_to_def)
qed

end
