(* ===== verification/Actions.thy ===== *)
theory Actions
  imports Prelude
begin

text \<open>
  Sequencing of operations that change a state and may raise: an action returns a result or an
  error, and the state it leaves in either case. The components that drive services (patch series,
  build specifications) are written with these; \<open>try\<close>/\<open>except\<close> and \<open>try\<close>/\<open>finally\<close> are the two
  ways the source goes on after an exception.
\<close>

type_synonym ('s, 'e, 'a) action = "'s \<Rightarrow> ('e + 'a) \<times> 's"

definition act_bind :: "('s, 'e, 'a) action \<Rightarrow> ('a \<Rightarrow> ('s, 'e, 'b) action) \<Rightarrow> ('s, 'e, 'b) action" where
  "act_bind m f s = (case m s of (Inl e, t) \<Rightarrow> (Inl e, t) | (Inr a, t) \<Rightarrow> f a t)"

definition act_return :: "'a \<Rightarrow> ('s, 'e, 'a) action" where
  "act_return a s = (Inr a, s)"

definition act_raise :: "'e \<Rightarrow> ('s, 'e, 'a) action" where
  "act_raise e s = (Inl e, s)"

text \<open>What an expression over the state yields.\<close>

definition gets :: "('s \<Rightarrow> 'a) \<Rightarrow> ('s, 'e, 'a) action" where
  "gets f s = (Inr (f s), s)"

fun fold_act :: "('a \<Rightarrow> 'b \<Rightarrow> ('s, 'e, 'b) action) \<Rightarrow> 'a list \<Rightarrow> 'b \<Rightarrow> ('s, 'e, 'b) action" where
  "fold_act f [] b s = (Inr b, s)"
| "fold_act f (x # xs) b s = (case f x b s of (Inl e, t) \<Rightarrow> (Inl e, t) | (Inr b', t) \<Rightarrow> fold_act f xs b' t)"

text \<open>Statements one after the other.\<close>

fun act_seq :: "('s, 'e, unit) action list \<Rightarrow> ('s, 'e, unit) action" where
  "act_seq [] = act_return ()"
| "act_seq (m # ms) = act_bind m (\<lambda>_. act_seq ms)"

text \<open>\<open>try: m except: h\<close>, where the handler may raise the exception again.\<close>

definition act_catch :: "('s, 'e, 'a) action \<Rightarrow> ('e \<Rightarrow> ('s, 'e, 'a) action) \<Rightarrow> ('s, 'e, 'a) action" where
  "act_catch m h s = (case m s of (Inl e, t) \<Rightarrow> h e t | (Inr a, t) \<Rightarrow> (Inr a, t))"

text \<open>\<open>try: m finally: f\<close>: an exception of the last part replaces what the first has left.\<close>

definition act_finally :: "('s, 'e, 'a) action \<Rightarrow> ('s, 'e, unit) action \<Rightarrow> ('s, 'e, 'a) action" where
  "act_finally m f s = (case m s of (r, t) \<Rightarrow> (case f t of (Inl e, u) \<Rightarrow> (Inl e, u) | (Inr _, u) \<Rightarrow> (r, u)))"

lemma act_bind_Inr:
  "act_bind m f s = (Inr b, u) \<longleftrightarrow> (\<exists>a t. m s = (Inr a, t) \<and> f a t = (Inr b, u))"
  by (auto simp: act_bind_def split: prod.splits sum.splits)

lemma act_bind_Inl:
  "act_bind m f s = (Inl e, u) \<longleftrightarrow> m s = (Inl e, u) \<or> (\<exists>a t. m s = (Inr a, t) \<and> f a t = (Inl e, u))"
  by (auto simp: act_bind_def split: prod.splits sum.splits)

lemma act_return_simps [simp]: "act_return a s = (Inr a, s)" "act_raise e s = (Inl e, s)"
  by (simp_all add: act_return_def act_raise_def)

lemma gets_simp [simp]: "gets f s = (Inr (f s), s)"
  by (simp add: gets_def)

lemma act_bind_ok [simp]: "m s = (Inr a, t) \<Longrightarrow> act_bind m f s = f a t"
  by (simp add: act_bind_def)

lemma act_bind_error [simp]: "m s = (Inl e, t) \<Longrightarrow> act_bind m f s = (Inl e, t)"
  by (simp add: act_bind_def)

lemma act_bind_return [simp]: "act_bind (act_return a) f = f a"
  by (rule ext) (simp add: act_bind_def)

lemma act_bind_assoc: "act_bind (act_bind m f) g = act_bind m (\<lambda>a. act_bind (f a) g)"
  by (rule ext) (auto simp: act_bind_def split: prod.split sum.split)

lemma fold_act_invariant:
  assumes "fold_act f xs b s = (Inr b', t)" "P b s"
    and "\<And>x b s b' t. x \<in> set xs \<Longrightarrow> P b s \<Longrightarrow> f x b s = (Inr b', t) \<Longrightarrow> P b' t"
  shows "P b' t"
  using assms
proof (induction xs arbitrary: b s)
  case (Cons x xs)
  then obtain c u where s: "f x b s = (Inr c, u)" "fold_act f xs c u = (Inr b', t)"
    by (auto split: prod.splits sum.splits)
  show ?case
  proof (rule Cons.IH[OF s(2)])
    show "P c u" by (rule Cons.prems(3)[OF _ Cons.prems(2) s(1)]) simp
    show "\<And>y b s b' t. y \<in> set xs \<Longrightarrow> P b s \<Longrightarrow> f y b s = (Inr b', t) \<Longrightarrow> P b' t"
      by (rule Cons.prems(3)) simp_all
  qed
qed simp

section \<open>What an action keeps\<close>

text \<open>A property of states that holds after an action, whether it returns or raises, if it held before.\<close>

definition keeps :: "('s \<Rightarrow> bool) \<Rightarrow> ('s, 'e, 'a) action \<Rightarrow> bool" where
  "keeps P m \<longleftrightarrow> (\<forall>s. P s \<longrightarrow> P (snd (m s)))"

named_theorems keeps_rules \<open>the actions that keep a property\<close>

lemma keepsD: "keeps P m \<Longrightarrow> P s \<Longrightarrow> m s = (r, t) \<Longrightarrow> P t"
  by (auto simp: keeps_def dest: spec[of _ s])

lemma keepsI: "(\<And>s r t. P s \<Longrightarrow> m s = (r, t) \<Longrightarrow> P t) \<Longrightarrow> keeps P m"
  unfolding keeps_def by (metis prod.collapse)

lemma keeps_return [keeps_rules]: "keeps P (act_return a)"
  by (simp add: keeps_def)

lemma keeps_raise [keeps_rules]: "keeps P (act_raise e)"
  by (simp add: keeps_def)

lemma keeps_bind [keeps_rules]: "keeps P m \<Longrightarrow> (\<And>a. keeps P (f a)) \<Longrightarrow> keeps P (act_bind m f)"
  by (rule keepsI) (auto simp: act_bind_def split: prod.splits sum.splits dest: keepsD)

lemma keeps_seq [keeps_rules]: "(\<And>m. m \<in> set ms \<Longrightarrow> keeps P m) \<Longrightarrow> keeps P (act_seq ms)"
  by (induction ms) (simp_all add: keeps_return keeps_bind)

lemma keeps_catch [keeps_rules]: "keeps P m \<Longrightarrow> (\<And>e. keeps P (h e)) \<Longrightarrow> keeps P (act_catch m h)"
  by (rule keepsI) (auto simp: act_catch_def split: prod.splits sum.splits dest: keepsD)

lemma keeps_finally [keeps_rules]: "keeps P m \<Longrightarrow> keeps P f \<Longrightarrow> keeps P (act_finally m f)"
  by (rule keepsI) (auto simp: act_finally_def split: prod.splits sum.splits dest: keepsD)

lemma keeps_gets [keeps_rules]: "keeps P (gets f)"
  by (simp add: keeps_def gets_def)

lemma keeps_if_state [keeps_rules]: "keeps P m \<Longrightarrow> keeps P m' \<Longrightarrow> keeps P (\<lambda>s. if b s then m s else m' s)"
  by (simp add: keeps_def)

lemma keeps_option [keeps_rules]:
  "keeps P m \<Longrightarrow> (\<And>x. keeps P (f x)) \<Longrightarrow> keeps P (case opt of None \<Rightarrow> m | Some x \<Rightarrow> f x)"
  by (simp split: option.split)

lemma keeps_list [keeps_rules]:
  "keeps P m \<Longrightarrow> (\<And>x xs. keeps P (f x xs)) \<Longrightarrow> keeps P (case l of [] \<Rightarrow> m | x # xs \<Rightarrow> f x xs)"
  by (simp split: list.split)

lemma keeps_prod [keeps_rules]: "(\<And>x y. keeps P (f x y)) \<Longrightarrow> keeps P (case p of (x, y) \<Rightarrow> f x y)"
  by (simp split: prod.split)

lemma keeps_if [keeps_rules]: "(b \<Longrightarrow> keeps P m) \<Longrightarrow> (\<not> b \<Longrightarrow> keeps P m') \<Longrightarrow> keeps P (if b then m else m')"
  by simp

section \<open>Attempts\<close>

text \<open>
  \<open>for index in range(n): try: return m() except E\<close>, with what follows the loop. The state that a
  failed attempt leaves is the state of the next.
\<close>

fun try_attempts :: "('e \<Rightarrow> bool) \<Rightarrow> ('s, 'e, 'a) action \<Rightarrow> ('s, 'e, 'a) action \<Rightarrow> nat \<Rightarrow> ('s, 'e, 'a) action" where
  "try_attempts caught m final 0 s = final s"
| "try_attempts caught m final (Suc n) s =
     (case m s of (Inl e, t) \<Rightarrow> if caught e then try_attempts caught m final n t else (Inl e, t) | r \<Rightarrow> r)"

text \<open>The state before attempt \<open>k\<close>, and whether an attempt fails with an exception that is caught.\<close>

primrec before_attempt :: "('s, 'e, 'a) action \<Rightarrow> nat \<Rightarrow> 's \<Rightarrow> 's" where
  "before_attempt m 0 s = s"
| "before_attempt m (Suc k) s = before_attempt m k (snd (m s))"

definition caught_at :: "('e \<Rightarrow> bool) \<Rightarrow> ('s, 'e, 'a) action \<Rightarrow> 's \<Rightarrow> bool" where
  "caught_at caught m s = (case fst (m s) of Inl e \<Rightarrow> caught e | Inr _ \<Rightarrow> False)"

lemma try_attempts_first:
  "k < n \<Longrightarrow> (\<And>j. j < k \<Longrightarrow> caught_at caught m (before_attempt m j s)) \<Longrightarrow> \<not> caught_at caught m (before_attempt m k s)
    \<Longrightarrow> try_attempts caught m final n s = m (before_attempt m k s)"
proof (induction n arbitrary: k s)
  case (Suc n)
  show ?case
  proof (cases k)
    case 0
    with Suc.prems(3) show ?thesis by (auto simp: caught_at_def split: prod.splits sum.splits)
  next
    case (Suc i)
    obtain e t where m: "m s = (Inl e, t)" "caught e"
      using Suc.prems(2)[of 0] \<open>k = Suc i\<close> by (auto simp: caught_at_def split: sum.splits prod.splits) (metis prod.collapse)
    have "try_attempts caught m final n t = m (before_attempt m i t)"
      by (rule Suc.IH) (use Suc.prems(1,3) Suc.prems(2)[of "Suc _"] \<open>k = Suc i\<close> m in auto)
    with m \<open>k = Suc i\<close> show ?thesis by simp
  qed
qed simp

lemma try_attempts_none:
  "(\<And>j. j < n \<Longrightarrow> caught_at caught m (before_attempt m j s)) \<Longrightarrow> try_attempts caught m final n s = final (before_attempt m n s)"
proof (induction n arbitrary: s)
  case (Suc n)
  obtain e t where m: "m s = (Inl e, t)" "caught e"
    using Suc.prems[of 0] by (auto simp: caught_at_def split: sum.splits prod.splits) (metis prod.collapse)
  have "try_attempts caught m final n t = final (before_attempt m n t)"
    by (rule Suc.IH) (use Suc.prems[of "Suc _"] m in auto)
  with m show ?case by simp
qed simp

lemma keeps_try_attempts [keeps_rules]: "keeps P m \<Longrightarrow> keeps P final \<Longrightarrow> keeps P (try_attempts caught m final n)"
proof (induction n)
  case 0
  then show ?case by (simp add: keeps_def)
next
  case (Suc n)
  then show ?case
    by (intro keepsI) (auto split: prod.splits sum.splits if_splits dest: keepsD)
qed

end
