(* ===== verification/Retry.thy ===== *)
theory Retry
  imports Prelude Complex_Main
begin

text \<open>
  Retries (\<open>lib/retry_util.py\<close>) and their statistics (\<open>lib/retry_stats.py\<close>). What is retried is a
  function on the state of the world that returns or raises; the loop records the delays it
  sleeps. Seconds are rationals, and the random jitter of an attempt is a parameter.
\<close>

section \<open>Exceptions and parameters\<close>

text \<open>
  \<open>RunCommandError\<close> has the exit code, which is \<open>None\<close> when the command could not be started, and
  the error output; \<open>GSCommandError\<close> is its subclass of \<open>lib/gs.py\<close>. The others are those that the modules raise,
  and anything else. A handler answers whether to retry, or raises itself.
\<close>

datatype download_message = CertificateHint | ExitCode int string

datatype exn =
    RunCommandError "int option" string
  | GSCommandError "int option" string
  | DownloadError download_message
  | PyExc py_error
  | OtherExn string

text \<open>The exit code and the error output of an instance of \<open>RunCommandError\<close>.\<close>

definition command_failure :: "exn \<Rightarrow> (int option \<times> string) option" where
  "command_failure e = (case e of RunCommandError c err \<Rightarrow> Some (c, err) | GSCommandError c err \<Rightarrow> Some (c, err) | _ \<Rightarrow> None)"

type_synonym ('s, 'a) call = "'s \<Rightarrow> (exn + 'a) \<times> 's"

record 's retry =
  max_retry :: int
  handler :: "exn \<Rightarrow> exn + bool"
  sleep_secs :: rat
  backoff_factor :: rat
  jitter :: rat
  raise_first :: bool
  exception_to_raise :: "(exn \<Rightarrow> exn) option"
  status_callback :: "nat \<Rightarrow> bool \<Rightarrow> 's \<Rightarrow> exn option \<times> 's"

definition no_callback :: "nat \<Rightarrow> bool \<Rightarrow> 's \<Rightarrow> exn option \<times> 's" where
  "no_callback attempt success s = (None, s)"

section \<open>Delays\<close>

definition RetryDelayStrategy :: "rat \<Rightarrow> rat \<Rightarrow> rat \<Rightarrow> unit res" where
  "RetryDelayStrategy sl factor jit =
     (if sl < 0 then Inl ValueError else if factor < 1 then Inl ValueError
      else if jit < 0 then Inl ValueError else Inr ())"

definition sleep_duration :: "'s retry \<Rightarrow> nat \<Rightarrow> rat" where
  "sleep_duration r attempt =
     (if 1 < backoff_factor r then sleep_secs r * backoff_factor r ^ (attempt - 1) else sleep_secs r * of_nat attempt)"

definition Sleep :: "'s retry \<Rightarrow> (nat \<Rightarrow> rat) \<Rightarrow> nat \<Rightarrow> rat list \<Rightarrow> rat list res" where
  "Sleep r rnd attempt slept =
     (if attempt < 1 then Inl AssertionError
      else (let total = sleep_duration r attempt + rnd attempt in Inr (if total \<noteq> 0 then slept @ [total] else slept)))"

section \<open>WithRetry\<close>

text \<open>
  The constructor: a handler, an exception class (the test for its instances) or neither, but not both.
\<close>

definition WithRetry ::
    "int \<Rightarrow> (exn \<Rightarrow> exn + bool) option \<Rightarrow> (exn \<Rightarrow> bool) option \<Rightarrow> rat \<Rightarrow> rat \<Rightarrow> rat \<Rightarrow> bool \<Rightarrow> (exn \<Rightarrow> exn) option
      \<Rightarrow> (nat \<Rightarrow> bool \<Rightarrow> 's \<Rightarrow> exn option \<times> 's) option \<Rightarrow> 's retry res" where
  "WithRetry mr hdl ex sl factor jit first to_raise cb =
     (if mr < 0 then Inl ValueError
      else if hdl \<noteq> None \<and> ex \<noteq> None then Inl ValueError
      else res_bind (RetryDelayStrategy sl factor jit) (\<lambda>u. Inr
        \<lparr>max_retry = mr,
         handler = (case hdl of Some h \<Rightarrow> h | None \<Rightarrow> (case ex of Some c \<Rightarrow> (\<lambda>e. Inr (c e)) | None \<Rightarrow> (\<lambda>e. Inr True))),
         sleep_secs = sl, backoff_factor = factor, jitter = jit, raise_first = first, exception_to_raise = to_raise,
         status_callback = (case cb of Some c \<Rightarrow> c | None \<Rightarrow> no_callback)\<rparr>))"

definition final_error :: "'s retry \<Rightarrow> exn option \<Rightarrow> exn" where
  "final_error r exc_info =
     (case exc_info of None \<Rightarrow> PyExc TypeError
      | Some e \<Rightarrow> (case exception_to_raise r of Some mk \<Rightarrow> mk e | None \<Rightarrow> e))"

text \<open>The loop of \<open>_Wrapper\<close>, by the number of attempts left; the state is the world and the delays.\<close>

fun retry_loop ::
    "'s retry \<Rightarrow> (nat \<Rightarrow> rat) \<Rightarrow> ('s, 'a) call \<Rightarrow> nat \<Rightarrow> nat \<Rightarrow> exn option \<Rightarrow> 's \<times> rat list \<Rightarrow> (exn + 'a) \<times> 's \<times> rat list" where
  "retry_loop r rnd f 0 attempt exc_info st = (Inl (final_error r exc_info), st)"
| "retry_loop r rnd f (Suc n) attempt exc_info (s, slept) =
     (case (if attempt = 0 then Inr slept else Sleep r rnd attempt slept) of
        Inl e \<Rightarrow> (Inl (PyExc e), s, slept)
      | Inr slept' \<Rightarrow>
          (case f s of
             (Inr a, s1) \<Rightarrow>
               (case status_callback r attempt True s1 of
                  (Some e, s2) \<Rightarrow> (Inl e, s2, slept') | (None, s2) \<Rightarrow> (Inr a, s2, slept'))
           | (Inl e, s1) \<Rightarrow>
               (let exc' = (if exc_info = None \<or> \<not> raise_first r then Some e else exc_info) in
                case status_callback r attempt False s1 of
                  (Some e', s2) \<Rightarrow> (Inl e', s2, slept')
                | (None, s2) \<Rightarrow>
                    (case handler r e of
                       Inl e' \<Rightarrow> (Inl e', s2, slept')
                     | Inr again \<Rightarrow>
                         if again then retry_loop r rnd f n (Suc attempt) exc' (s2, slept')
                         else (Inl (final_error r exc'), s2, slept')))))"

definition Wrapper :: "'s retry \<Rightarrow> (nat \<Rightarrow> rat) \<Rightarrow> ('s, 'a) call \<Rightarrow> 's \<Rightarrow> (exn + 'a) \<times> 's \<times> rat list" where
  "Wrapper r rnd f s = retry_loop r rnd f (nat (max_retry r + 1)) 0 None (s, [])"

text \<open>\<open>GenericRetry\<close> and \<open>RetryException\<close>, with the delay and the other options as given or by default.\<close>

record 's retry_options =
  opt_sleep :: rat
  opt_backoff :: rat
  opt_delay :: rat
  opt_first :: bool
  opt_raise :: "(exn \<Rightarrow> exn) option"
  opt_callback :: "(nat \<Rightarrow> bool \<Rightarrow> 's \<Rightarrow> exn option \<times> 's) option"

definition default_options :: "'s retry_options" where
  "default_options = \<lparr>opt_sleep = 0, opt_backoff = 1, opt_delay = 0, opt_first = True, opt_raise = None, opt_callback = None\<rparr>"

definition run_retry :: "'s retry res \<Rightarrow> (nat \<Rightarrow> rat) \<Rightarrow> ('s, 'a) call \<Rightarrow> 's \<Rightarrow> (exn + 'a) \<times> 's \<times> rat list" where
  "run_retry r rnd f s = (case r of Inl e \<Rightarrow> (Inl (PyExc e), s, []) | Inr r \<Rightarrow> Wrapper r rnd f s)"

definition GenericRetry ::
    "(exn \<Rightarrow> exn + bool) \<Rightarrow> int \<Rightarrow> 's retry_options \<Rightarrow> (nat \<Rightarrow> rat) \<Rightarrow> ('s, 'a) call \<Rightarrow> 's \<Rightarrow> (exn + 'a) \<times> 's \<times> rat list" where
  "GenericRetry hdl mr opts =
     run_retry (WithRetry mr (Some hdl) None (opt_sleep opts) (opt_backoff opts) (opt_delay opts) (opt_first opts)
       (opt_raise opts) (opt_callback opts))"

definition RetryException ::
    "(exn \<Rightarrow> bool) \<Rightarrow> int \<Rightarrow> 's retry_options \<Rightarrow> (nat \<Rightarrow> rat) \<Rightarrow> ('s, 'a) call \<Rightarrow> 's \<Rightarrow> (exn + 'a) \<times> 's \<times> rat list" where
  "RetryException ex mr opts =
     run_retry (WithRetry mr None (Some ex) (opt_sleep opts) (opt_backoff opts) (opt_delay opts) (opt_first opts)
       (opt_raise opts) (opt_callback opts))"

section \<open>Commands\<close>

definition ShouldRetryCommandCommon :: "exn \<Rightarrow> bool" where
  "ShouldRetryCommandCommon e = (case command_failure e of Some (Some c, err) \<Rightarrow> True | _ \<Rightarrow> False)"

definition ShouldRetry :: "int list option \<Rightarrow> (exn \<Rightarrow> bool option) \<Rightarrow> exn \<Rightarrow> bool" where
  "ShouldRetry values error_check e =
     (if \<not> ShouldRetryCommandCommon e then False
      else (case command_failure e of
         Some (Some c, err) \<Rightarrow>
           if values = None \<and> c < 0 then False
           else (case error_check e of Some b \<Rightarrow> b
                 | None \<Rightarrow> (case values of None \<Rightarrow> True | Some vs \<Rightarrow> c \<in> set vs))
       | _ \<Rightarrow> False))"

definition RetryCommand ::
    "int list option \<Rightarrow> (exn \<Rightarrow> bool option) \<Rightarrow> int \<Rightarrow> 's retry_options \<Rightarrow> (nat \<Rightarrow> rat) \<Rightarrow> ('s, 'a) call \<Rightarrow> 's
      \<Rightarrow> (exn + 'a) \<times> 's \<times> rat list" where
  "RetryCommand retry_on error_check = GenericRetry (\<lambda>e. Inr (ShouldRetry retry_on error_check e))"

text \<open>\<open>RunCurl\<close>; \<open>curl\<close> runs the command once. Formatting a missing exit code with \<open>%i\<close> raises.\<close>

definition retriable_exits :: "int list" where
  "retriable_exits = [5, 6, 7, 15, 18, 22, 26, 28, 35, 52, 56]"

definition curl_error_text :: string where
  "curl_error_text = ''The requested URL returned error: ''"

fun curl_status :: "string \<Rightarrow> string option" where
  "curl_status s =
     (let rest = drop (length curl_error_text) s; ds = takeWhile is_digit rest in
      if startswith s curl_error_text \<and> ds \<noteq> [] \<and> startswith (drop (length ds) rest) '' '' then Some ds
      else (case s of [] \<Rightarrow> None | c # s' \<Rightarrow> curl_status s'))"

declare curl_status.simps [simp del]

definition CheckExit :: "exn \<Rightarrow> bool option" where
  "CheckExit e =
     (case command_failure e of
        Some (Some c, err) \<Rightarrow>
          if c = 22 then (case curl_status err of None \<Rightarrow> Some True | Some code \<Rightarrow> Some (\<not> startswith code ''4''))
          else None
      | _ \<Rightarrow> None)"

definition curl_options :: "'s retry_options" where
  "curl_options = default_options\<lparr>opt_sleep := 3, opt_backoff := 8 / 5\<rparr>"

definition curl_failure :: "exn \<Rightarrow> exn" where
  "curl_failure e =
     (case command_failure e of
        Some (Some c, err) \<Rightarrow>
          if c \<in> set [51, 58, 60] then DownloadError CertificateHint else DownloadError (ExitCode c err)
      | Some (None, err) \<Rightarrow> PyExc TypeError
      | None \<Rightarrow> e)"

definition RunCurl :: "(nat \<Rightarrow> rat) \<Rightarrow> ('s, 'a) call \<Rightarrow> 's \<Rightarrow> (exn + 'a) \<times> 's \<times> rat list" where
  "RunCurl rnd curl s =
     (case RetryCommand (Some retriable_exits) CheckExit 10 curl_options rnd curl s of
        (Inl e, st) \<Rightarrow> (Inl (curl_failure e), st)
      | (Inr a, st) \<Rightarrow> (Inr a, st))"

section \<open>Statistics\<close>

text \<open>An attempt has its exception's description, or none; the times are left out.\<close>

record stat_entry =
  category :: string
  attempts :: "string option list"

definition SuccessFilter :: "stat_entry \<Rightarrow> bool" where
  "SuccessFilter entry \<longleftrightarrow> \<not> list_all (\<lambda>a. a \<noteq> None \<and> a \<noteq> Some []) (attempts entry)"

definition RetryCount :: "stat_entry \<Rightarrow> nat" where
  "RetryCount entry = length (attempts entry) - 1"

definition CategoryStats :: "stat_entry list \<Rightarrow> string \<Rightarrow> nat \<times> nat \<times> nat" where
  "CategoryStats collection cat =
     (let stats = filter (\<lambda>e. category e = cat) collection;
          success = length (filter SuccessFilter stats)
      in (success, length stats - success, sum_list (map RetryCount stats)))"

text \<open>
  The wrapped functor keeps the attempts beside the state; \<open>describe\<close> renders an exception, and is what
  follows its class name and a colon.
\<close>

definition stats_wrapper :: "(exn \<Rightarrow> string) \<Rightarrow> ('s, 'a) call \<Rightarrow> ('s \<times> string option list, 'a) call" where
  "stats_wrapper describe f st =
     (case f (fst st) of
        (Inl e, s) \<Rightarrow> (Inl e, s, snd st @ [Some (describe e)])
      | (Inr a, s) \<Rightarrow> (Inr a, s, snd st @ [None]))"

definition RetryWithStats ::
    "(exn \<Rightarrow> string) \<Rightarrow> string \<Rightarrow> (exn \<Rightarrow> exn + bool) \<Rightarrow> int \<Rightarrow> ('s \<times> string option list) retry_options \<Rightarrow> (nat \<Rightarrow> rat)
      \<Rightarrow> ('s, 'a) call \<Rightarrow> 's \<Rightarrow> stat_entry list option \<Rightarrow> ((exn + 'a) \<times> 's \<times> rat list) \<times> stat_entry list option" where
  "RetryWithStats describe cat hdl mr opts rnd f s collection =
     (case GenericRetry hdl mr opts rnd (stats_wrapper describe f) (s, []) of
        (r, (s', ats), slept) \<Rightarrow>
          ((r, s', slept), map_option (\<lambda>c. c @ [\<lparr>category = cat, attempts = ats\<rparr>]) collection))"

section \<open>What the loop computes\<close>

text \<open>
  The attempts one after the other as if all of them failed: the state before each, its result, and
  what the callback says after it.
\<close>

fun state_at :: "'s retry \<Rightarrow> ('s, 'a) call \<Rightarrow> 's \<Rightarrow> nat \<Rightarrow> 's" where
  "state_at r f s 0 = s"
| "state_at r f s (Suc k) = snd (status_callback r k False (snd (f (state_at r f s k))))"

definition result_at :: "'s retry \<Rightarrow> ('s, 'a) call \<Rightarrow> 's \<Rightarrow> nat \<Rightarrow> exn + 'a" where
  "result_at r f s k = fst (f (state_at r f s k))"

definition error_at :: "'s retry \<Rightarrow> ('s, 'a) call \<Rightarrow> 's \<Rightarrow> nat \<Rightarrow> exn" where
  "error_at r f s k = projl (result_at r f s k)"

definition verdict :: "'s retry \<Rightarrow> ('s, 'a) call \<Rightarrow> 's \<Rightarrow> nat \<Rightarrow> exn option \<times> 's" where
  "verdict r f s k = status_callback r k (isOk (result_at r f s k)) (snd (f (state_at r f s k)))"

definition stops :: "'s retry \<Rightarrow> ('s, 'a) call \<Rightarrow> 's \<Rightarrow> nat \<Rightarrow> bool" where
  "stops r f s k \<longleftrightarrow> int k = max_retry r \<or> isOk (result_at r f s k) \<or> fst (verdict r f s k) \<noteq> None
     \<or> handler r (error_at r f s k) \<noteq> Inr True"

definition outcome :: "'s retry \<Rightarrow> ('s, 'a) call \<Rightarrow> 's \<Rightarrow> nat \<Rightarrow> exn + 'a" where
  "outcome r f s k =
     (case fst (verdict r f s k) of Some e \<Rightarrow> Inl e
      | None \<Rightarrow> (case result_at r f s k of Inr a \<Rightarrow> Inr a
          | Inl e \<Rightarrow> (case handler r e of Inl e' \<Rightarrow> Inl e'
              | Inr _ \<Rightarrow> Inl (final_error r (Some (if raise_first r then error_at r f s 0 else e))))))"

definition delays :: "'s retry \<Rightarrow> (nat \<Rightarrow> rat) \<Rightarrow> nat \<Rightarrow> rat list" where
  "delays r rnd j = filter (\<lambda>d. d \<noteq> 0) (map (\<lambda>i. sleep_duration r i + rnd i) [1..<j])"

lemma delays_simps [simp]: "delays r rnd 0 = []" "delays r rnd (Suc 0) = []"
  by (simp_all add: delays_def)

lemma Sleep_delays: "0 < j \<Longrightarrow> Sleep r rnd j (delays r rnd j) = Inr (delays r rnd (Suc j))"
  by (simp add: Sleep_def delays_def Let_def)

lemma retry_loop_spec:
  assumes "\<forall>i < j. \<not> stops r f s i" "int j \<le> max_retry r" "n = nat (max_retry r + 1) - j"
  shows "\<exists>k \<le> nat (max_retry r). stops r f s k \<and> (\<forall>i < k. \<not> stops r f s i)
    \<and> retry_loop r rnd f n j (if j = 0 then None else Some (if raise_first r then error_at r f s 0 else error_at r f s (j - 1)))
        (state_at r f s j, delays r rnd j)
      = (outcome r f s k, snd (verdict r f s k), delays r rnd (Suc k))"
  using assms
proof (induction n arbitrary: j)
  case 0
  then show ?case by linarith
next
  case (Suc n)
  let ?exc = "if j = 0 then None else Some (if raise_first r then error_at r f s 0 else error_at r f s (j - 1))"
  let ?s = "state_at r f s j" and ?d = "delays r rnd j" and ?d' = "delays r rnd (Suc j)"
  have slept: "(if j = 0 then Inr ?d else Sleep r rnd j ?d) = Inr ?d'" by (simp add: Sleep_delays)
  have le: "j \<le> nat (max_retry r)" using Suc.prems(2) by linarith
  obtain res s1 where f: "f ?s = (res, s1)" by force
  then have res: "result_at r f s j = res" by (simp add: result_at_def)
  obtain v s2 where v: "status_callback r j (isOk res) s1 = (v, s2)" by force
  then have ver: "verdict r f s j = (v, s2)" by (simp add: verdict_def res f)
  show ?case
  proof (cases "stops r f s j")
    case True
    have "retry_loop r rnd f (Suc n) j ?exc (?s, ?d) = (outcome r f s j, s2, ?d')"
    proof (cases res)
      case (Inr a)
      then show ?thesis using slept f v res ver by (simp add: outcome_def split: option.splits)
    next
      case (Inl e)
      have err: "error_at r f s j = e" by (simp add: error_at_def res Inl)
      have exc: "(if ?exc = None \<or> \<not> raise_first r then Some e else ?exc) = Some (if raise_first r then error_at r f s 0 else e)"
        using err by auto
      have last: "retry_loop r rnd f n (Suc j) x (s2, ?d') = (Inl (final_error r x), s2, ?d')" if "handler r e = Inr True" "v = None" for x
      proof -
        have "int j = max_retry r" using True that err by (auto simp: stops_def res Inl ver)
        then have "n = 0" using Suc.prems(3) by linarith
        then show ?thesis by simp
      qed
      show ?thesis using slept f v res ver Inl exc last by (simp add: outcome_def Let_def split: option.splits sum.splits)
    qed
    with True Suc.prems(1) le ver show ?thesis by (intro exI[of _ j]) simp
  next
    case False
    then obtain e where Inl: "res = Inl e" by (cases res) (auto simp: stops_def res)
    have err: "error_at r f s j = e" by (simp add: error_at_def res Inl)
    have no: "v = None" "handler r e = Inr True" "int j \<noteq> max_retry r" using False by (auto simp: stops_def ver err)
    have exc: "(if ?exc = None \<or> \<not> raise_first r then Some e else ?exc) = Some (if raise_first r then error_at r f s 0 else e)"
      using err by auto
    have st: "state_at r f s (Suc j) = s2" using v Inl f by simp
    have "retry_loop r rnd f (Suc n) j ?exc (?s, ?d)
        = retry_loop r rnd f n (Suc j) (Some (if raise_first r then error_at r f s 0 else error_at r f s (Suc j - 1)))
            (state_at r f s (Suc j), ?d')"
      using slept f v Inl no exc err st by (simp add: Let_def del: state_at.simps)
    moreover have "\<forall>i < Suc j. \<not> stops r f s i" "int (Suc j) \<le> max_retry r" "n = nat (max_retry r + 1) - Suc j"
      using Suc.prems False no(3) by (auto simp: less_Suc_eq)
    ultimately show ?thesis using Suc.IH[of "Suc j"] by simp
  qed
qed

lemma Wrapper_spec:
  assumes "0 \<le> max_retry r"
  shows "\<exists>k \<le> nat (max_retry r). stops r f s k \<and> (\<forall>i < k. \<not> stops r f s i)
    \<and> Wrapper r rnd f s = (outcome r f s k, snd (verdict r f s k), delays r rnd (Suc k))"
  using retry_loop_spec[of 0 r f s "nat (max_retry r + 1)" rnd] assms by (simp add: Wrapper_def)

lemma WithRetry_Inr:
  assumes "WithRetry mr hdl ex sl factor jit first to_raise cb = Inr r"
  shows "0 \<le> mr" "0 \<le> sl" "1 \<le> factor" "0 \<le> jit" "max_retry r = mr" "sleep_secs r = sl" "backoff_factor r = factor" "jitter r = jit"
    "raise_first r = first" "exception_to_raise r = to_raise" "handler r = (case hdl of Some h \<Rightarrow> h | None \<Rightarrow> (case ex of Some c \<Rightarrow> (\<lambda>e. Inr (c e)) | None \<Rightarrow> (\<lambda>e. Inr True)))"
    "status_callback r = (case cb of Some c \<Rightarrow> c | None \<Rightarrow> no_callback)"
  using assms by (auto simp: WithRetry_def RetryDelayStrategy_def res_bind_Inr split: if_splits)

section \<open>Bounds on the delays\<close>

text \<open>The closed form of the delays without jitter: triangular, or geometric with a factor.\<close>

definition delay_total :: "'s retry \<Rightarrow> nat \<Rightarrow> rat" where
  "delay_total r k =
     (if 1 < backoff_factor r then sleep_secs r * (backoff_factor r ^ k - 1) / (backoff_factor r - 1)
      else sleep_secs r * of_nat (k * (k + 1)) / 2)"

lemma delay_total_Suc: "delay_total r (Suc k) = delay_total r k + sleep_duration r (Suc k)"
proof (cases "1 < backoff_factor r")
  case True
  define b where "b = backoff_factor r"
  have "b - 1 \<noteq> 0" using True by (simp add: b_def)
  then have "sleep_secs r * (b ^ Suc k - 1) / (b - 1) = sleep_secs r * (b ^ k - 1) / (b - 1) + sleep_secs r * b ^ k"
    by (simp add: field_simps)
  with True show ?thesis by (simp add: delay_total_def sleep_duration_def b_def)
next
  case False
  then show ?thesis by (simp add: delay_total_def sleep_duration_def field_simps)
qed

lemma sum_list_filter_nonzero: "sum_list (filter (\<lambda>d. d \<noteq> 0) xs) = sum_list (xs :: rat list)"
  by (induction xs) auto

lemma sum_delays:
  "sum_list (delays r rnd (Suc k)) = delay_total r k + sum_list (map rnd [1..<Suc k])"
proof -
  have "sum_list (map (\<lambda>i. sleep_duration r i + rnd i) [1..<Suc k]) = delay_total r k + sum_list (map rnd [1..<Suc k])"
  proof (induction k)
    case (Suc k)
    then show ?case by (simp add: delay_total_Suc)
  qed (simp add: delay_total_def)
  then show ?thesis by (simp add: delays_def sum_list_filter_nonzero)
qed

lemma sleep_duration_nonneg: "0 \<le> sleep_secs r \<Longrightarrow> 0 \<le> sleep_duration r j"
  by (simp add: sleep_duration_def)

lemma delay_total_mono:
  assumes "0 \<le> sleep_secs r" "k \<le> m"
  shows "delay_total r k \<le> delay_total r m"
  using assms(2)
proof (induction m rule: dec_induct)
  case (step m)
  then show ?case using sleep_duration_nonneg[OF assms(1)] by (simp add: delay_total_Suc add_increasing2)
qed simp

lemma jitter_sum:
  assumes "\<And>i. rnd i \<le> j" "0 \<le> j" "k \<le> m"
  shows "sum_list (map rnd [1..<Suc k]) \<le> of_nat m * (j :: rat)"
proof -
  have "sum_list (map rnd [1..<Suc k]) \<le> of_nat k * j"
  proof (induction k)
    case (Suc k)
    then show ?case using assms(1)[of "Suc k"] by (simp add: algebra_simps add_mono)
  qed simp
  also have "\<dots> \<le> of_nat m * j" using assms(2,3) by (intro mult_right_mono) simp_all
  finally show ?thesis .
qed

lemma delays_bounds:
  assumes "0 \<le> sleep_secs r" "\<And>i. 0 \<le> rnd i" "\<And>i. rnd i \<le> j" "0 \<le> j" "k \<le> m"
  shows "length (delays r rnd (Suc k)) \<le> m \<and> (\<forall>d \<in> set (delays r rnd (Suc k)). 0 < d)
    \<and> sum_list (delays r rnd (Suc k)) \<le> delay_total r m + of_nat m * j"
proof (intro conjI)
  have "length (delays r rnd (Suc k)) \<le> length [1..<Suc k]"
    unfolding delays_def by (metis length_filter_le length_map)
  then show "length (delays r rnd (Suc k)) \<le> m" using assms(5) by (simp del: upt_Suc)
  have "0 \<le> sleep_duration r i + rnd i" for i
    using sleep_duration_nonneg[OF assms(1)] assms(2) by (simp add: add_nonneg_nonneg)
  then show "\<forall>d \<in> set (delays r rnd (Suc k)). 0 < d" by (auto simp: delays_def less_le)
  show "sum_list (delays r rnd (Suc k)) \<le> delay_total r m + of_nat m * j"
    unfolding sum_delays using delay_total_mono[OF assms(1,5)] jitter_sum[OF assms(3-5)] by (rule add_mono)
qed

section \<open>Runs without a callback\<close>

lemma state_at_iterate:
  "status_callback r = no_callback \<Longrightarrow> state_at r f s k = ((\<lambda>s. snd (f s)) ^^ k) s"
  by (induction k) (simp_all add: no_callback_def)

definition iterate :: "('s, 'a) call \<Rightarrow> nat \<Rightarrow> 's \<Rightarrow> 's" where
  "iterate f k s = ((\<lambda>s. snd (f s)) ^^ k) s"

definition call_at :: "('s, 'a) call \<Rightarrow> 's \<Rightarrow> nat \<Rightarrow> exn + 'a" where
  "call_at f s k = fst (f (iterate f k s))"

lemma iterate_simps [simp]: "iterate f 0 s = s" "iterate f (Suc k) s = snd (f (iterate f k s))"
  by (simp_all add: iterate_def)

text \<open>The number of attempts that fail with an error to retry on, before the last attempt.\<close>

definition last_call :: "(exn \<Rightarrow> exn + bool) \<Rightarrow> nat \<Rightarrow> ('s, 'a) call \<Rightarrow> 's \<Rightarrow> nat \<Rightarrow> bool" where
  "last_call hdl m f s k \<longleftrightarrow> k \<le> m \<and> (\<forall>i < k. \<exists>e. call_at f s i = Inl e \<and> hdl e = Inr True)
     \<and> (k = m \<or> isOk (call_at f s k) \<or> (\<exists>e. call_at f s k = Inl e \<and> hdl e \<noteq> Inr True))"

text \<open>The result: what the last attempt returned or the handler raised, or the error that is reported.\<close>

definition retry_result :: "'s retry \<Rightarrow> (exn \<Rightarrow> exn + bool) \<Rightarrow> bool \<Rightarrow> (exn + 'a) \<Rightarrow> (exn + 'a) \<Rightarrow> exn + 'a" where
  "retry_result r hdl first_error a0 a =
     (case a of Inr x \<Rightarrow> Inr x
      | Inl e \<Rightarrow> (case hdl e of Inl e' \<Rightarrow> Inl e' | Inr _ \<Rightarrow> Inl (final_error r (Some (if first_error then projl a0 else e)))))"

lemma GenericRetry_plain:
  fixes r :: "'s retry" and f :: "('s, 'a) call"
  assumes valid: "WithRetry mr (Some hdl) None sl factor jit first to_raise None = Inr r"
  shows "\<exists>k. last_call hdl (nat mr) f s k
    \<and> GenericRetry hdl mr \<lparr>opt_sleep = sl, opt_backoff = factor, opt_delay = jit, opt_first = first, opt_raise = to_raise, opt_callback = None\<rparr> rnd f s
      = (retry_result r hdl first (call_at f s 0) (call_at f s k), iterate f (Suc k) s, delays r rnd (Suc k))"
proof -
  note r = WithRetry_Inr[OF valid]
  have cb: "status_callback r = no_callback" and h: "handler r = hdl" using r(11,12) by simp_all
  have at: "state_at r f s k = iterate f k s" for k using state_at_iterate[OF cb] by (simp add: iterate_def)
  have res: "result_at r f s k = call_at f s k" for k by (simp add: result_at_def call_at_def at)
  have ver: "verdict r f s k = (None, iterate f (Suc k) s)" for k by (simp add: verdict_def cb no_callback_def at)
  have st: "stops r f s k \<longleftrightarrow> int k = mr \<or> isOk (call_at f s k) \<or> (\<exists>e. call_at f s k = Inl e \<and> hdl e \<noteq> Inr True)" for k
    by (cases "call_at f s k") (auto simp: stops_def res ver error_at_def h r(5))
  obtain k where k: "k \<le> nat mr" "stops r f s k" "\<forall>i < k. \<not> stops r f s i"
    "Wrapper r rnd f s = (outcome r f s k, snd (verdict r f s k), delays r rnd (Suc k))"
    using Wrapper_spec[of r f s rnd] r(1,5) by auto
  have "\<exists>e. call_at f s i = Inl e \<and> hdl e = Inr True" if "i < k" for i
    using k(3) that st[of i] by (cases "call_at f s i") auto
  moreover have "int k = mr \<longleftrightarrow> k = nat mr" using r(1) by auto
  ultimately have "last_call hdl (nat mr) f s k" using k(1,2) st[of k] by (auto simp: last_call_def)
  moreover have "outcome r f s k = retry_result r hdl first (call_at f s 0) (call_at f s k)"
    by (simp add: outcome_def retry_result_def ver res error_at_def r(9) h split: sum.splits)
  ultimately show ?thesis using k(4) ver by (auto simp: GenericRetry_def run_retry_def valid)
qed

text \<open>What \<open>curl\<close>'s failures are retried on.\<close>

definition curl_retriable :: "exn \<Rightarrow> bool" where
  "curl_retriable e = (case command_failure e of
       Some (Some c, err) \<Rightarrow>
         c \<in> set retriable_exits \<and> (c = 22 \<longrightarrow> (case curl_status err of None \<Rightarrow> True | Some code \<Rightarrow> \<not> startswith code ''4''))
     | _ \<Rightarrow> False)"

lemma ShouldRetry_curl: "ShouldRetry (Some retriable_exits) CheckExit = curl_retriable"
  by (auto simp: fun_eq_iff ShouldRetry_def ShouldRetryCommandCommon_def CheckExit_def curl_retriable_def retriable_exits_def
      split: option.splits)

section \<open>Properties\<close>

text \<open>
  C20. A retry ends: with the first attempt that succeeds, that the callback or the handler ends, or that is
  attempt number \<open>max_retry + 1\<close>. It returns what that attempt returned, or raises the exception of the
  callback, or that of the first or last attempt, converted if so asked; and it has slept before
  every attempt but the first.
\<close>

theorem with_retry_spec:
  assumes "WithRetry mr hdl ex sl factor jit first to_raise cb = Inr r"
  shows "\<exists>k \<le> nat mr. (\<forall>i < k. \<not> stops r f s i) \<and> stops r f s k
    \<and> Wrapper r rnd f s = (outcome r f s k, snd (verdict r f s k), delays r rnd (Suc k))"
  using Wrapper_spec[of r f s rnd] WithRetry_Inr(1,5)[OF assms] by auto

definition failing_twice :: "(nat, nat) call" where
  "failing_twice n = (if n < 2 then (Inl (RunCommandError (Some 7) []), Suc n) else (Inr n, Suc n))"

theorem with_retry_spec_witness:
  "\<exists>r. WithRetry 3 None None 1 1 0 True None None = Inr r \<and> fst (Wrapper r (\<lambda>i. 0) failing_twice 0) = Inr 2"
proof -
  let ?w = "WithRetry 3 None None 1 1 0 True None None :: nat retry res"
  have "isOk ?w" by (simp add: WithRetry_def RetryDelayStrategy_def)
  then obtain r where r: "?w = Inr r" by (auto simp: isOk_iff)
  note f = WithRetry_Inr[OF r]
  have "fst (Wrapper r (\<lambda>i. 0) failing_twice 0) = Inr 2"
    by (simp add: Wrapper_def f failing_twice_def no_callback_def Sleep_def eval_nat_numeral Let_def)
  with with_retry_spec[OF r, of failing_twice 0 "\<lambda>i. 0"] r show ?thesis by blast
qed

text \<open>
  C40. The delays of a retry are bounded: at most \<open>max_retry\<close> of them, all positive, and together no more than the
  triangular value of \<open>sleep\<close>, or its geometric sum when there is a factor, plus the jitter.
\<close>

theorem retry_delays_bounded:
  assumes "WithRetry mr hdl ex sl factor jit first to_raise cb = Inr r"
    and "\<forall>i. jit / 2 \<le> rnd i \<and> rnd i \<le> 3 / 2 * jit"
    and "Wrapper r rnd f s = (res, s', slept)"
  shows "length slept \<le> nat mr \<and> (\<forall>d \<in> set slept. 0 < d)
    \<and> sum_list slept \<le> (if 1 < factor then sl * (factor ^ nat mr - 1) / (factor - 1) else sl * of_nat (nat mr * (nat mr + 1)) / 2)
        + of_nat (nat mr) * (3 / 2 * jit)"
proof -
  note r = WithRetry_Inr[OF assms(1)]
  obtain k where k: "k \<le> nat mr" "slept = delays r rnd (Suc k)"
    using Wrapper_spec[of r f s rnd] r(1,5) assms(3) by auto
  have "0 \<le> rnd i" "rnd i \<le> 3 / 2 * jit" for i using assms(2) r(4) by (auto intro: order_trans[of 0 "jit / 2"])
  moreover have "0 \<le> sleep_secs r" "0 \<le> 3 / 2 * jit" using r(2,4,6) by simp_all
  ultimately show ?thesis
    using delays_bounds[of r rnd "3 / 2 * jit" k "nat mr", OF _ _ _ _ k(1)] unfolding k(2) delay_total_def r(6,7) by blast
qed

theorem retry_delays_bounded_witness:
  "\<exists>r res s' slept. WithRetry 5 None None 10 1 0 True None None = Inr r
    \<and> Wrapper r (\<lambda>i. 0) failing_twice 0 = (res, s', slept) \<and> sum_list slept \<le> 150"
proof -
  let ?w = "WithRetry 5 None None 10 1 0 True None None :: nat retry res"
  have "isOk ?w" by (simp add: WithRetry_def RetryDelayStrategy_def)
  then obtain r where r: "?w = Inr r" by (auto simp: isOk_iff)
  obtain res s' slept where w: "Wrapper r (\<lambda>i. 0) failing_twice 0 = (res, s', slept)" by (metis prod_cases3)
  have "nat 5 * (nat 5 + 1) = 30" by simp
  with retry_delays_bounded[OF r _ w] have "sum_list slept \<le> 150" by simp
  with r w show ?thesis by blast
qed

text \<open>
  \<open>RunCurl\<close> runs \<open>curl\<close> at most eleven times, again only after one of the listed exit codes and never after
  a 4xx answer, and returns what the last run returned. No \<open>RunCommandError\<close> leaves it: the first
  failure becomes a \<open>DownloadError\<close>, but a \<open>TypeError\<close> if \<open>curl\<close> could not be started.
\<close>

theorem run_curl_spec:
  fixes s :: 's and curl :: "('s, 'a) call"
  shows "\<exists>k \<le> 10. (\<forall>i < k. \<exists>e. call_at curl s i = Inl e \<and> curl_retriable e)
    \<and> (k = 10 \<or> isOk (call_at curl s k) \<or> (\<exists>e. call_at curl s k = Inl e \<and> \<not> curl_retriable e))
    \<and> fst (RunCurl rnd curl s) = (case call_at curl s k of Inr a \<Rightarrow> Inr a | Inl e \<Rightarrow> Inl (curl_failure (projl (call_at curl s 0))))
    \<and> (\<forall>c err. fst (RunCurl rnd curl s) \<noteq> Inl (RunCommandError c err))
    \<and> (\<forall>err. call_at curl s 0 = Inl (RunCommandError None err) \<longrightarrow> fst (RunCurl rnd curl s) = Inl (PyExc TypeError))"
proof -
  obtain r where r: "WithRetry 10 (Some (\<lambda>e. Inr (curl_retriable e))) None 3 (8 / 5) 0 True None None = Inr (r :: 's retry)"
    by (simp add: WithRetry_def RetryDelayStrategy_def)
  have f: "final_error r (Some e) = e" for e using WithRetry_Inr(10)[OF r] by (simp add: final_error_def)
  obtain k where k: "last_call (\<lambda>e. Inr (curl_retriable e)) (nat 10) curl s k"
    and gen: "GenericRetry (\<lambda>e. Inr (curl_retriable e)) 10
        \<lparr>opt_sleep = 3, opt_backoff = 8 / 5, opt_delay = 0, opt_first = True, opt_raise = None, opt_callback = None\<rparr> rnd curl s
      = (case call_at curl s k of Inr a \<Rightarrow> Inr a | Inl e \<Rightarrow> Inl (projl (call_at curl s 0)), iterate curl (Suc k) s, delays r rnd (Suc k))"
    using GenericRetry_plain[OF r, of curl s rnd] unfolding retry_result_def f if_True sum.case by blast
  have run: "RetryCommand (Some retriable_exits) CheckExit 10 curl_options rnd curl s
      = (case call_at curl s k of Inr a \<Rightarrow> Inr a | Inl e \<Rightarrow> Inl (projl (call_at curl s 0)), iterate curl (Suc k) s, delays r rnd (Suc k))"
    unfolding gen[symmetric] by (simp add: RetryCommand_def fun_cong[OF ShouldRetry_curl] curl_options_def default_options_def)
  have res: "fst (RunCurl rnd curl s) = (case call_at curl s k of Inr a \<Rightarrow> Inr a | Inl e \<Rightarrow> Inl (curl_failure (projl (call_at curl s 0))))"
    unfolding RunCurl_def run by (simp split: sum.splits)
  have "curl_failure e \<noteq> RunCommandError c err" for e c err
    by (auto simp: curl_failure_def command_failure_def split: exn.splits option.splits)
  then have none: "fst (RunCurl rnd curl s) \<noteq> Inl (RunCommandError c err)" for c err
    unfolding res by (simp split: sum.splits)
  have "fst (RunCurl rnd curl s) = Inl (PyExc TypeError)" if "call_at curl s 0 = Inl (RunCommandError None err)" for err
  proof -
    have "k = 0"
    proof (rule ccontr)
      assume "k \<noteq> 0"
      then have "curl_retriable (RunCommandError None err)" using k that by (auto simp: last_call_def)
      then show False by (simp add: curl_retriable_def command_failure_def)
    qed
    then show ?thesis using that by (simp add: res curl_failure_def command_failure_def)
  qed
  moreover have "k \<le> 10" "\<forall>i < k. \<exists>e. call_at curl s i = Inl e \<and> curl_retriable e"
      "k = 10 \<or> isOk (call_at curl s k) \<or> (\<exists>e. call_at curl s k = Inl e \<and> \<not> curl_retriable e)"
    using k by (auto simp: last_call_def)
  ultimately show ?thesis using res none by blast
qed

definition missing_curl :: "(nat, nat) call" where
  "missing_curl n = (Inl (RunCommandError None ''curl: not found''), Suc n)"

theorem run_curl_spec_witness:
  "fst (RunCurl (\<lambda>i. 0) missing_curl 0) = Inl (PyExc TypeError)"
proof -
  have "call_at missing_curl 0 0 = Inl (RunCommandError None ''curl: not found'')"
    by (simp add: call_at_def missing_curl_def)
  with run_curl_spec[of missing_curl 0 "\<lambda>i. 0"] show ?thesis by blast
qed

section \<open>Statistics are transparent\<close>

lemma stats_iterate:
  assumes "\<forall>i < k. \<exists>e. call_at f s i = Inl e"
  shows "iterate (stats_wrapper describe f) k (s, []) = (iterate f k s, map (\<lambda>i. Some (describe (projl (call_at f s i)))) [0..<k])"
  using assms
proof (induction k)
  case (Suc k)
  then obtain e t where "f (iterate f k s) = (Inl e, t)" by (metis call_at_def lessI prod.collapse)
  with Suc show ?case by (simp add: stats_wrapper_def call_at_def)
qed simp

lemma stats_call_at:
  assumes "\<forall>i < k. \<exists>e. call_at f s i = Inl e"
  shows "call_at (stats_wrapper describe f) (s, []) k = call_at f s k"
  using stats_iterate[OF assms, of describe]
  by (simp add: call_at_def[of "stats_wrapper describe f"]) (simp add: stats_wrapper_def call_at_def split: prod.splits sum.splits)

lemma last_call_unique:
  assumes "last_call hdl m f s k" "last_call hdl m f s l"
  shows "k = l"
proof (rule ccontr)
  have no: "\<not> (last_call hdl m f s a \<and> last_call hdl m f s b \<and> a < b)" for a b
    by (fastforce simp: last_call_def)
  assume "k \<noteq> l"
  then have "k < l \<or> l < k" by linarith
  with no assms show False by blast
qed

lemma last_call_stats:
  assumes "last_call hdl m f s k"
  shows "last_call hdl m (stats_wrapper describe f) (s, []) k"
proof -
  have fail: "\<forall>i < k. \<exists>e. call_at f s i = Inl e" using assms by (auto simp: last_call_def)
  then have "call_at (stats_wrapper describe f) (s, []) i = call_at f s i" if "i \<le> k" for i
    using that by (intro stats_call_at) auto
  with assms show ?thesis by (simp add: last_call_def)
qed

lemma delays_cong: "sleep_secs r = sleep_secs r' \<Longrightarrow> backoff_factor r = backoff_factor r' \<Longrightarrow> delays r rnd k = delays r' rnd k"
  unfolding delays_def sleep_duration_def by presburger

definition plain_options :: "rat \<Rightarrow> rat \<Rightarrow> rat \<Rightarrow> bool \<Rightarrow> (exn \<Rightarrow> exn) option \<Rightarrow> 's retry_options" where
  "plain_options sl factor jit first to_raise =
     \<lparr>opt_sleep = sl, opt_backoff = factor, opt_delay = jit, opt_first = first, opt_raise = to_raise, opt_callback = None\<rparr>"

lemma RetryWithStats_run:
  fixes f :: "('s, 'a) call" and s :: 's
  assumes "RetryWithStats describe cat hdl mr (plain_options sl factor jit first to_raise) rnd f s (Some coll) = (run, coll')"
  shows "run = GenericRetry hdl mr (plain_options sl factor jit first to_raise) rnd f s
    \<and> (\<exists>ats. coll' = Some (coll @ [\<lparr>category = cat, attempts = ats\<rparr>]) \<and>
        (ats = [] \<and> \<not> isOk (fst run) \<or>
         (\<exists>es. ats = map (\<lambda>e. Some (describe e)) es @ [if isOk (fst run) then None else Some (describe (projl (call_at f s (length es))))]
            \<and> length es \<le> nat mr)))"
proof (cases "WithRetry mr (Some hdl) None sl factor jit first to_raise None :: 's retry res")
  case (Inl e)
  then have "(WithRetry mr (Some hdl) None sl factor jit first to_raise None :: ('s \<times> string option list) retry res) = Inl e"
    by (auto simp: WithRetry_def res_bind_Inl split: if_splits)
  with Inl assms show ?thesis by (auto simp: RetryWithStats_def GenericRetry_def run_retry_def plain_options_def)
next
  case (Inr r)
  then obtain r' where r': "WithRetry mr (Some hdl) None sl factor jit first to_raise None = Inr (r' :: ('s \<times> string option list) retry)"
    by (auto simp: WithRetry_def res_bind_Inr split: if_splits)
  note a = WithRetry_Inr[OF Inr] and b = WithRetry_Inr[OF r']
  have d: "delays r' rnd j = delays r rnd j" for j by (rule delays_cong) (simp_all add: a(6,7) b(6,7))
  have fe: "retry_result r' hdl first x y = retry_result r hdl first x y" for x y :: "exn + 'a"
    unfolding retry_result_def final_error_def a(10) b(10) ..
  obtain k where k: "last_call hdl (nat mr) f s k" and plain: "GenericRetry hdl mr (plain_options sl factor jit first to_raise) rnd f s
      = (retry_result r hdl first (call_at f s 0) (call_at f s k), iterate f (Suc k) s, delays r rnd (Suc k))"
    using GenericRetry_plain[OF Inr, of f s rnd] unfolding plain_options_def by blast
  let ?w = "stats_wrapper describe f"
  obtain l where l: "last_call hdl (nat mr) ?w (s, []) l" and stats: "GenericRetry hdl mr (plain_options sl factor jit first to_raise) rnd ?w (s, [])
      = (retry_result r' hdl first (call_at ?w (s, []) 0) (call_at ?w (s, []) l), iterate ?w (Suc l) (s, []), delays r' rnd (Suc l))"
    using GenericRetry_plain[OF r', of ?w "(s, [])" rnd] unfolding plain_options_def by blast
  have lk: "l = k" by (rule last_call_unique[OF l last_call_stats[OF k]])
  have fail: "\<forall>i < k. \<exists>e. call_at f s i = Inl e" using k by (auto simp: last_call_def)
  have c: "call_at ?w (s, []) k = call_at f s k" "call_at ?w (s, []) 0 = call_at f s 0"
    using stats_call_at[OF fail] stats_call_at[of 0 f s] by simp_all
  define es where "es = map (\<lambda>i. projl (call_at f s i)) [0..<k]"
  have it: "iterate ?w (Suc k) (s, []) = (iterate f (Suc k) s, map (\<lambda>e. Some (describe e)) es
      @ [if isOk (call_at f s k) then None else Some (describe (projl (call_at f s k)))])"
    using stats_iterate[OF fail, of describe]
    by (simp add: es_def o_def) (simp add: stats_wrapper_def call_at_def split: prod.splits sum.splits)
  have len: "length es = k" "k \<le> nat mr" using k by (simp_all add: es_def last_call_def)
  have ok: "isOk (fst (GenericRetry hdl mr (plain_options sl factor jit first to_raise) rnd f s)) \<longleftrightarrow> isOk (call_at f s k)"
    unfolding plain by (simp add: retry_result_def split: sum.splits)
  have "run = GenericRetry hdl mr (plain_options sl factor jit first to_raise) rnd f s"
    and "coll' = Some (coll @ [\<lparr>category = cat, attempts = map (\<lambda>e. Some (describe e)) es
      @ [if isOk (call_at f s k) then None else Some (describe (projl (call_at f s k)))]\<rparr>])"
    using assms unfolding RetryWithStats_def stats lk c it d fe plain by simp_all
  with ok len show ?thesis by auto
qed

lemma CategoryStats_snoc:
  "CategoryStats (coll @ [e]) cat = (case CategoryStats coll cat of (s, f, r) \<Rightarrow>
     if category e \<noteq> cat then (s, f, r)
     else (s + (if SuccessFilter e then 1 else 0), f + (if SuccessFilter e then 0 else 1), r + RetryCount e))"
proof -
  have "length (filter SuccessFilter (filter (\<lambda>e. category e = cat) coll)) \<le> length (filter (\<lambda>e. category e = cat) coll)"
    by (rule length_filter_le)
  from Suc_diff_le[OF this] show ?thesis by (simp add: CategoryStats_def Let_def)
qed

text \<open>
  Collecting statistics does not change a retry: same result, state and delays. It adds one entry,
  which counts as a success exactly if the retry returned and with at most \<open>max_retry\<close> retries, to the
  category and to no other.
\<close>

theorem retry_with_stats_transparent:
  assumes "RetryWithStats describe cat hdl mr (plain_options sl factor jit first to_raise) rnd f s (Some coll) = (run, coll')"
    and "\<forall>e. describe e \<noteq> []"
  shows "run = GenericRetry hdl mr (plain_options sl factor jit first to_raise) rnd f s
    \<and> (\<exists>c retries. coll' = Some c \<and> retries \<le> nat mr \<and> (\<forall>other. CategoryStats c other =
        (case CategoryStats coll other of (suc, fail, ret) \<Rightarrow>
          if other \<noteq> cat then (suc, fail, ret)
          else if isOk (fst run) then (suc + 1, fail, ret + retries) else (suc, fail + 1, ret + retries))))"
proof -
  obtain ats where run: "run = GenericRetry hdl mr (plain_options sl factor jit first to_raise) rnd f s"
    and c: "coll' = Some (coll @ [\<lparr>category = cat, attempts = ats\<rparr>])"
    and ats: "ats = [] \<and> \<not> isOk (fst run) \<or>
       (\<exists>es. ats = map (\<lambda>e. Some (describe e)) es @ [if isOk (fst run) then None else Some (describe (projl (call_at f s (length es))))]
          \<and> length es \<le> nat mr)"
    using RetryWithStats_run[OF assms(1)] by blast
  let ?e = "\<lparr>category = cat, attempts = ats\<rparr>"
  have nonempty: "describe x \<noteq> []" "[] \<noteq> describe x" for x using assms(2) by metis+
  have "SuccessFilter ?e \<longleftrightarrow> isOk (fst run)"
    using ats nonempty by (cases "isOk (fst run)") (auto simp: SuccessFilter_def list_all_iff)
  moreover have "RetryCount ?e \<le> nat mr" using ats by (auto simp: RetryCount_def)
  ultimately show ?thesis using run c
    by (intro conjI exI[of _ "coll @ [?e]"] exI[of _ "RetryCount ?e"]) (auto simp: CategoryStats_snoc split: prod.splits)
qed

theorem retry_with_stats_transparent_witness:
  "\<exists>run c. RetryWithStats (\<lambda>e. ''E: '') ''CIDB'' (\<lambda>e. Inr True) 3 (plain_options 1 1 0 True None) (\<lambda>i. 0) failing_twice 0 (Some [])
      = (run, Some c) \<and> CategoryStats c ''CIDB'' = (1, 0, 2) \<and> CategoryStats c ''GS'' = (0, 0, 0)"
proof -
  let ?r = "RetryWithStats (\<lambda>e. ''E: '') ''CIDB'' (\<lambda>e. Inr True) 3 (plain_options 1 1 0 True None) (\<lambda>i. 0) failing_twice 0 (Some [])"
  obtain run coll' where r: "?r = (run, coll')" by (rule prod.exhaust)
  have none: "CategoryStats [] ''GS'' = (0, 0, 0)" by code_simp
  from retry_with_stats_transparent[OF r] obtain c where c: "coll' = Some c"
    and other: "CategoryStats c ''GS'' = (0, 0, 0)" using none by force
  have "snd ?r = Some [\<lparr>category = ''CIDB'', attempts = [Some ''E: '', Some ''E: '', None]\<rparr>]"
    by (simp add: RetryWithStats_def GenericRetry_def run_retry_def plain_options_def WithRetry_def RetryDelayStrategy_def Wrapper_def
        stats_wrapper_def failing_twice_def no_callback_def Sleep_def eval_nat_numeral Let_def)
  with r c have "c = [\<lparr>category = ''CIDB'', attempts = [Some ''E: '', Some ''E: '', None]\<rparr>]" by simp
  moreover have "CategoryStats [\<lparr>category = ''CIDB'', attempts = [Some ''E: '', Some ''E: '', None]\<rparr>] ''CIDB'' = (1, 0, 2)"
    by code_simp
  ultimately show ?thesis using r c other by blast
qed

end
