(* ===== verification/Services.thy ===== *)
theory Services
  imports Actions Retry
begin

text \<open>
  What the components that drive services share: the class of failed commands, results and assertions of
  Python code as actions.
\<close>

definition is_command_error :: "exn \<Rightarrow> bool" where
  "is_command_error e \<longleftrightarrow> command_failure e \<noteq> None"

definition lift_py :: "'a res \<Rightarrow> ('s, exn, 'a) action" where
  "lift_py r s = (case r of Inl e \<Rightarrow> (Inl (PyExc e), s) | Inr a \<Rightarrow> (Inr a, s))"

definition check_that :: "bool \<Rightarrow> py_error \<Rightarrow> ('s, exn, unit) action" where
  "check_that b e = (if b then act_return () else act_raise (PyExc e))"

lemma lift_py_Inr: "lift_py r s = (Inr a, t) \<longleftrightarrow> r = Inr a \<and> t = s"
  by (cases r) (auto simp: lift_py_def)

lemma check_that_Inr: "check_that b e s = (Inr u, t) \<longleftrightarrow> b \<and> t = s"
  by (auto simp: check_that_def)

lemma keeps_lift_py [keeps_rules]: "keeps P (lift_py r)"
  by (cases r) (simp_all add: keeps_def lift_py_def)

lemma keeps_check_that [keeps_rules]: "keeps P (check_that b e)"
  by (simp add: check_that_def keeps_def)

end
