(* ===== verification/Patterns.thy ===== *)
theory Patterns
  imports Prelude
begin

text \<open>
  Regular expressions of the \<open>re\<close> module as far as the source uses them in sequences: literals, greedy runs
  of a class with or without a name, references to named groups, choices between words, and \<open>$\<close>. The
  matches of a sequence are listed in the order in which backtracking tries them, so that the first is the
  one that \<open>re.match\<close> answers.
\<close>

type_synonym groups = "(string \<times> string) list"

datatype pitem =
    Lit string
  | AnyChar
  | Run "string option" "char \<Rightarrow> bool" nat
  | Ref string
  | Choice string "string list"
  | AtEnd

definition add_group :: "string option \<Rightarrow> string \<Rightarrow> groups \<Rightarrow> groups" where
  "add_group n v g = (case n of None \<Rightarrow> g | Some n \<Rightarrow> g @ [(n, v)])"

text \<open>A run takes as many characters as it can, and at least so many; \<open>$\<close> also holds before a final newline.\<close>

fun item_matches :: "pitem \<Rightarrow> groups \<Rightarrow> string \<Rightarrow> (groups \<times> string) list" where
  "item_matches (Lit p) g s = (if startswith s p then [(g, drop (length p) s)] else [])"
| "item_matches AnyChar g s = (case s of [] \<Rightarrow> [] | c # r \<Rightarrow> if c = CHR 0x0A then [] else [(g, r)])"
| "item_matches (Run n cls m) g s =
     map (\<lambda>k. (add_group n (take k s) g, drop k s)) (rev [m..<length (takeWhile cls s) + 1])"
| "item_matches (Ref n) g s =
     (case map_of g n of None \<Rightarrow> [] | Some v \<Rightarrow> if startswith s v then [(g, drop (length v) s)] else [])"
| "item_matches (Choice n ps) g s = map (\<lambda>p. (g @ [(n, p)], drop (length p) s)) (filter (startswith s) ps)"
| "item_matches AtEnd g s = (if s = [] \<or> s = [CHR 0x0A] then [(g, s)] else [])"

fun seq_matches :: "pitem list \<Rightarrow> groups \<Rightarrow> string \<Rightarrow> groups list" where
  "seq_matches [] g s = [g]"
| "seq_matches (i # is) g s = concat (map (\<lambda>(g, r). seq_matches is g r) (item_matches i g s))"

definition re_match :: "pitem list \<Rightarrow> string \<Rightarrow> groups option" where
  "re_match pat s = (case seq_matches pat [] s of [] \<Rightarrow> None | g # _ \<Rightarrow> Some g)"

definition group :: "groups \<Rightarrow> string \<Rightarrow> string" where
  "group g n = (case map_of g n of Some v \<Rightarrow> v | None \<Rightarrow> [])"

text \<open>The first place where one of the sequences matches, and the first that does there.\<close>

fun search_any :: "pitem list list \<Rightarrow> string \<Rightarrow> groups option" where
  "search_any pats [] = (case concat (map (\<lambda>p. seq_matches p [] []) pats) of g # _ \<Rightarrow> Some g | [] \<Rightarrow> None)"
| "search_any pats (c # s) =
     (case concat (map (\<lambda>p. seq_matches p [] (c # s)) pats) of g # _ \<Rightarrow> Some g | [] \<Rightarrow> search_any pats s)"

section \<open>Matches as decompositions of the string\<close>

named_theorems match_iff \<open>what the matches of a sequence are\<close>

lemma match_Nil [match_iff]: "m \<in> set (seq_matches [] g s) \<longleftrightarrow> m = g"
  by simp

lemma match_Lit [match_iff]:
  "m \<in> set (seq_matches (Lit p # is) g s) \<longleftrightarrow> (\<exists>r. s = p @ r \<and> m \<in> set (seq_matches is g r))"
  by (auto simp: startswith_iff)

lemma match_AnyChar [match_iff]:
  "m \<in> set (seq_matches (AnyChar # is) g s) \<longleftrightarrow> (\<exists>c r. s = c # r \<and> c \<noteq> CHR 0x0A \<and> m \<in> set (seq_matches is g r))"
  by (auto split: list.splits)

lemma match_Run [match_iff]:
  "m \<in> set (seq_matches (Run n cls k # is) g s) \<longleftrightarrow>
     (\<exists>x r. s = x @ r \<and> k \<le> length x \<and> list_all cls x \<and> m \<in> set (seq_matches is (add_group n x g) r))"
proof
  assume "m \<in> set (seq_matches (Run n cls k # is) g s)"
  then obtain j where j: "j \<in> set [k..<length (takeWhile cls s) + 1]" "m \<in> set (seq_matches is (add_group n (take j s) g) (drop j s))"
    by (auto simp: image_iff simp del: upt_Suc)
  then have k: "k \<le> j" and len: "j \<le> length (takeWhile cls s)" by auto
  have "take j s = take j (takeWhile cls s)"
    using len by (metis takeWhile_dropWhile_id take_append diff_is_0_eq take0 append_Nil2)
  then have cls: "list_all cls (take j s)" by (auto simp: list_all_iff dest!: in_set_takeD set_takeWhileD)
  have "j \<le> length s" using len length_takeWhile_le[of cls s] by linarith
  then show "\<exists>x r. s = x @ r \<and> k \<le> length x \<and> list_all cls x \<and> m \<in> set (seq_matches is (add_group n x g) r)"
    using j(2) k cls by (intro exI[of _ "take j s"] exI[of _ "drop j s"]) simp
next
  assume "\<exists>x r. s = x @ r \<and> k \<le> length x \<and> list_all cls x \<and> m \<in> set (seq_matches is (add_group n x g) r)"
  then obtain x r where s: "s = x @ r" and x: "k \<le> length x" "list_all cls x"
    and m: "m \<in> set (seq_matches is (add_group n x g) r)" by blast
  have "length x \<le> length (takeWhile cls s)" using s x(2) by (simp add: takeWhile_append2 list_all_iff)
  then have "length x \<in> set [k..<length (takeWhile cls s) + 1]" using x(1) by auto
  then have "(add_group n x g, r) \<in> set (item_matches (Run n cls k) g s)" using s by (force simp del: upt_Suc)
  then show "m \<in> set (seq_matches (Run n cls k # is) g s)" using m by force
qed

lemma match_Ref [match_iff]:
  "m \<in> set (seq_matches (Ref n # is) g s) \<longleftrightarrow>
     (\<exists>v r. map_of g n = Some v \<and> s = v @ r \<and> m \<in> set (seq_matches is g r))"
proof (cases "map_of g n")
  case (Some v)
  then show ?thesis by (auto simp: startswith_iff)
qed simp

lemma match_Choice [match_iff]:
  "m \<in> set (seq_matches (Choice n ps # is) g s) \<longleftrightarrow>
     (\<exists>p r. p \<in> set ps \<and> s = p @ r \<and> m \<in> set (seq_matches is (g @ [(n, p)]) r))"
  by (auto simp: startswith_iff)

lemma match_AtEnd [match_iff]:
  "m \<in> set (seq_matches (AtEnd # is) g s) \<longleftrightarrow> (s = [] \<or> s = [CHR 0x0A]) \<and> m \<in> set (seq_matches is g s)"
  by auto

text \<open>A run takes all it can at first.\<close>

lemma takeWhile_run: "list_all cls d \<Longrightarrow> r = [] \<or> \<not> cls (r ! 0) \<Longrightarrow> takeWhile cls (d @ r) = d"
  by (induction d) (auto simp: takeWhile_eq_Nil_iff hd_conv_nth)

definition first_match :: "groups \<Rightarrow> pitem list \<Rightarrow> groups \<Rightarrow> string \<Rightarrow> bool" where
  "first_match m is g s \<longleftrightarrow> (\<exists>rest. seq_matches is g s = m # rest)"

named_theorems first_match_intros \<open>the first match of a sequence\<close>

lemma first_match_Nil [first_match_intros]: "first_match g [] g s"
  by (simp add: first_match_def)

lemma first_match_Lit [first_match_intros]: "first_match m is g r \<Longrightarrow> first_match m (Lit p # is) g (p @ r)"
  by (simp add: first_match_def startswith_def)

lemma first_match_Run [first_match_intros]:
  assumes "list_all cls d" "r = [] \<or> \<not> cls (r ! 0)" "k \<le> length d" "first_match m is (add_group n d g) r"
  shows "first_match m (Run n cls k # is) g (d @ r)"
proof -
  have "rev [k..<length (takeWhile cls (d @ r)) + 1] = length d # rev [k..<length d]"
    using takeWhile_run[OF assms(1,2)] assms(3) by simp
  then show ?thesis using assms(4) by (auto simp: first_match_def)
qed

lemma search_any_first: "first_match m p [] s \<Longrightarrow> search_any (p # ps) s = Some m"
  by (cases s) (auto simp: first_match_def)

lemma search_any_second:
  assumes "\<And>m. m \<notin> set (seq_matches p [] s)" "first_match m q [] s" shows "search_any (p # q # ps) s = Some m"
proof -
  have "seq_matches p [] s = []" using assms(1) by (cases "seq_matches p [] s") auto
  then show ?thesis using assms(2) by (cases s) (auto simp: first_match_def)
qed

lemma search_any_member: "search_any ps s = Some m \<Longrightarrow> \<exists>p \<in> set ps. \<exists>s'. m \<in> set (seq_matches p [] s')"
proof (induction ps s rule: search_any.induct)
  case (1 pats)
  show ?case
  proof (cases "concat (map (\<lambda>p. seq_matches p [] []) pats)")
    case Nil
    with 1 show ?thesis by simp
  next
    case (Cons a r)
    then have "m \<in> set (concat (map (\<lambda>p. seq_matches p [] []) pats))" using 1 by simp
    then show ?thesis by auto
  qed
next
  case (2 pats c s)
  show ?case
  proof (cases "concat (map (\<lambda>p. seq_matches p [] (c # s)) pats)")
    case Nil
    with 2 show ?thesis by simp
  next
    case (Cons a r)
    then have "m \<in> set (concat (map (\<lambda>p. seq_matches p [] (c # s)) pats))" using 2(2) by simp
    then show ?thesis by auto
  qed
qed

text \<open>A decomposition that is the only one is the answer, and without any there is none.\<close>

lemma re_match_unique:
  assumes "m \<in> set (seq_matches pat [] s)" "\<And>m'. m' \<in> set (seq_matches pat [] s) \<Longrightarrow> m' = m"
  shows "re_match pat s = Some m"
proof (cases "seq_matches pat [] s")
  case Nil
  with assms(1) show ?thesis by simp
next
  case (Cons a ms)
  with assms(2)[of a] show ?thesis by (simp add: re_match_def)
qed

lemma re_match_none:
  assumes "\<And>m. m \<notin> set (seq_matches pat [] s)" shows "re_match pat s = None"
proof (cases "seq_matches pat [] s")
  case (Cons a ms)
  with assms[of a] show ?thesis by simp
qed (simp add: re_match_def)

section \<open>Unique decompositions\<close>

lemma split_on_append_sep: "split_on c (x @ c # y) = split_on c x @ split_on c y"
proof (induction x)
  case (Cons a x)
  then show ?case by (cases "split_on c x") auto
qed simp

text \<open>A string is in one way the join of a given number of parts, if in one of them no part has the separator.\<close>

lemma split_on_join_concat: "xs \<noteq> [] \<Longrightarrow> split_on c (join [c] xs) = concat (map (split_on c) xs)"
proof (induction "[c]" xs rule: join.induct)
  case (3 x y ys)
  then show ?case by (simp add: split_on_append_sep)
qed auto

lemma length_concat_split_on: "length ys \<le> length (concat (map (split_on c) ys))"
proof (induction ys)
  case (Cons y ys)
  have "Suc 0 \<le> length (split_on c y)" by (simp add: Suc_le_eq)
  then show ?case using Cons.IH unfolding list.map concat.simps length_append list.size by linarith
qed simp

lemma concat_split_on_parts:
  "concat (map (split_on c) ys) = xs \<Longrightarrow> length ys = length xs \<Longrightarrow> ys = xs"
proof (induction ys arbitrary: xs)
  case (Cons y ys)
  have "length (split_on c y) + length (concat (map (split_on c) ys)) = Suc (length ys)"
    using arg_cong[OF Cons.prems(1), of length] Cons.prems(2) by simp
  moreover have "0 < length (split_on c y)" by simp
  ultimately have "length (split_on c y) = Suc 0" using length_concat_split_on[of ys c] by linarith
  then obtain z where z: "split_on c y = [z]" by (auto simp: length_Suc_conv)
  then have "z = y" using join_split_on[of c y] by simp
  with z Cons show ?case by auto
qed simp

lemma join_unique:
  assumes "join [c] xs = join [c] ys" "length ys = length xs" "xs \<noteq> []" "\<And>x. x \<in> set xs \<Longrightarrow> c \<notin> set x"
  shows "ys = xs"
proof (rule concat_split_on_parts)
  have "ys \<noteq> []" using assms(2,3) by auto
  then show "concat (map (split_on c) ys) = xs"
    using split_on_join_concat[of ys c] split_on_join[of xs c] assms(1,3,4) by simp
qed (rule assms(2))

end
