(* ===== verification/Ebuild.thy ===== *)
theory Ebuild
  imports EbuildFile PackageInfo Paths Services Patterns
begin

text \<open>
  Ebuilds and their uprevs (\<open>lib/portage_util.py\<close>, class \<open>EBuild\<close>): what is known of an ebuild
  from its path and its text, the \<open>CROS_WORKON\<close> variables, the sources they name, and the new
  revision that is made when the sources have changed.

  The state is the regular files, \<open>tree\<close>. What is asked of the rest of the world is the record
  \<open>environment\<close>: the directories and links, the variables that bash exports when it sources an
  ebuild, git, the version script of a package, and the manifest of the checkout. A path names one
  file; reading and writing need no permission.
\<close>

type_synonym tree = "string \<Rightarrow> string option"
type_synonym checkout = "(string, string) dict"

record environment =
  is_dir :: "string \<Rightarrow> bool"
  is_link :: "string \<Rightarrow> bool"
  realpath :: "string \<Rightarrow> string"
  source_environment ::
    "tree \<Rightarrow> string \<Rightarrow> string list \<Rightarrow> (string, string) dict \<Rightarrow> bool \<Rightarrow> exn + (string, string) dict"
  run_git :: "string \<Rightarrow> string list \<Rightarrow> exn + string"
  version_script :: "string \<Rightarrow> string list \<Rightarrow> int \<times> string"
  find_checkout :: "string \<Rightarrow> bool \<Rightarrow> exn + checkout option"
  under_pytest :: bool

abbreviation raised :: "string \<Rightarrow> exn" where
  "raised name \<equiv> PyExc (Raised name)"

definition lift_res :: "'a res \<Rightarrow> exn + 'a" where
  "lift_res r = (case r of Inl e \<Rightarrow> Inl (PyExc e) | Inr a \<Rightarrow> Inr a)"

section \<open>Files\<close>

definition read_file :: "environment \<Rightarrow> string \<Rightarrow> tree \<Rightarrow> exn + string" where
  "read_file env path t =
     (case t path of
        Some s \<Rightarrow> Inr s
      | None \<Rightarrow> Inl (OtherExn (if is_dir env path then ''IsADirectoryError'' else ''FileNotFoundError'')))"

definition path_exists :: "environment \<Rightarrow> tree \<Rightarrow> string \<Rightarrow> bool" where
  "path_exists env t path \<longleftrightarrow> t path \<noteq> None \<or> is_dir env path"

definition write_file :: "environment \<Rightarrow> string \<Rightarrow> string \<Rightarrow> (tree, exn, unit) action" where
  "write_file env path s t =
     (if is_dir env path then (Inl (OtherExn ''IsADirectoryError''), t) else (Inr (), t(path := Some s)))"

definition copyfile :: "environment \<Rightarrow> string \<Rightarrow> string \<Rightarrow> (tree, exn, unit) action" where
  "copyfile env src dst t =
     (if src = dst \<and> path_exists env t src then (Inl (OtherExn ''SameFileError''), t)
      else case read_file env src t of Inl e \<Rightarrow> (Inl e, t) | Inr s \<Rightarrow> write_file env dst s t)"

definition unlink :: "environment \<Rightarrow> string \<Rightarrow> (tree, exn, unit) action" where
  "unlink env path t =
     (case read_file env path t of Inl e \<Rightarrow> (Inl e, t) | Inr s \<Rightarrow> (Inr (), t(path := None)))"

text \<open>A question that leaves the files as they are.\<close>

definition ask :: "(tree \<Rightarrow> exn + 'a) \<Rightarrow> (tree, exn, 'a) action" where
  "ask f t = (f t, t)"

section \<open>The path of an ebuild\<close>

text \<open>
  \<open>_PACKAGE_VERSION_PATTERN.match(filename)\<close>: the greedy \<open>.*\<close> tries the last hyphen first, the
  version the longest run of its characters first; what follows is the suffix, after an optional
  revision. The groups are the version without the revision and the revision.
\<close>

definition version_tail :: "string \<Rightarrow> string option option" where
  "version_tail r =
     (if startswith r ''.ebuild'' then Some None
      else let d = takeWhile is_digit (drop 2 r)
           in if startswith r ''-r'' \<and> d \<noteq> [] \<and> startswith (drop (2 + length d) r) ''.ebuild''
              then Some (Some (''-r'' @ d)) else None)"

definition version_at :: "string \<Rightarrow> (string \<times> string option) option" where
  "version_at s =
     (if s = [] \<or> \<not> is_digit (hd s) then None
      else case List.map_filter (\<lambda>j. map_option (Pair (take j s)) (version_tail (drop j s)))
                  (rev [1..<Suc (length (takeWhile version_char s))]) of
             [] \<Rightarrow> None | m # _ \<Rightarrow> Some m)"

definition PACKAGE_VERSION_match :: "string \<Rightarrow> (string \<times> string option) option" where
  "PACKAGE_VERSION_match filename =
     (case List.map_filter (\<lambda>(p, v). if CHR 0x0A \<in> set p then None else version_at v) (dash_splits filename) of
        [] \<Rightarrow> None | m # _ \<Rightarrow> Some m)"

section \<open>The variables of an ebuild\<close>

record workon_vars =
  localname :: "string list"
  project :: "string list"
  srcpath :: "string list"
  subdir :: "string list"
  always_live :: string
  commit :: "string option"
  rev_subdirs :: "string list"
  subtrees :: "string list list"

definition WORKON_VARS :: "string list" where
  "WORKON_VARS =
     [''CROS_WORKON_LOCALNAME'', ''CROS_WORKON_PROJECT'', ''CROS_WORKON_SRCPATH'', ''CROS_WORKON_SUBDIR'',
      ''CROS_WORKON_ALWAYS_LIVE'', ''CROS_WORKON_COMMIT'', ''CROS_WORKON_SUBDIRS_TO_REV'',
      ''CROS_WORKON_SUBTREE'']"

definition setting_list :: "(string, string) dict \<Rightarrow> string \<Rightarrow> string list" where
  "setting_list settings k = (case dict_get settings k of None \<Rightarrow> [] | Some v \<Rightarrow> split_on CHR '','' v)"

definition setting :: "(string, string) dict \<Rightarrow> string \<Rightarrow> exn + string" where
  "setting settings k = (case dict_get settings k of None \<Rightarrow> Inl (PyExc KeyError) | Some v \<Rightarrow> Inr v)"

definition subtree_paths :: "string \<Rightarrow> string list" where
  "subtree_paths subtree = (let ps = split_ws subtree in if ps = [] then [[]] else ps)"

definition parse_workon_vars :: "(string, string) dict \<Rightarrow> exn + workon_vars" where
  "parse_workon_vars settings =
     (let projects = setting_list settings ''CROS_WORKON_PROJECT'';
          srcpaths = setting_list settings ''CROS_WORKON_SRCPATH'';
          subdirs = setting_list settings ''CROS_WORKON_SUBDIR'';
          rev_dirs = setting_list settings ''CROS_WORKON_SUBDIRS_TO_REV''
      in if projects = [] \<and> srcpaths = [] then Inl (raised ''EbuildFormatIncorrectError'')
         else res_bind (setting settings ''CROS_WORKON_LOCALNAME'') (\<lambda>local.
           res_bind (setting settings ''CROS_WORKON_ALWAYS_LIVE'') (\<lambda>live.
             if (length projects > 1 \<or> length srcpaths > 1) \<and> rev_dirs \<noteq> []
             then Inl (raised ''EbuildFormatIncorrectError'')
             else Inr
               \<lparr>localname = split_on CHR '','' local, project = projects, srcpath = srcpaths, subdir = subdirs,
                always_live = live, commit = dict_get settings ''CROS_WORKON_COMMIT'', rev_subdirs = rev_dirs,
                subtrees = map subtree_paths (split_on CHR '',''
                  (case dict_get settings ''CROS_WORKON_SUBTREE'' of None \<Rightarrow> [] | Some s \<Rightarrow> s))\<rparr>)))"

definition ReadCrosWorkonVars :: "environment \<Rightarrow> tree \<Rightarrow> string \<Rightarrow> string \<Rightarrow> exn + workon_vars" where
  "ReadCrosWorkonVars env t path pkg_name =
     res_bind (source_environment env t path WORKON_VARS
                 [(''CROS_WORKON_LOCALNAME'', pkg_name), (''CROS_WORKON_ALWAYS_LIVE'', [])] False)
       parse_workon_vars"

text \<open>The projects, local names, source paths, and the number of projects.\<close>

definition complete_srcpaths ::
    "workon_vars \<Rightarrow> exn + (string list \<times> string list \<times> string list \<times> nat)" where
  "complete_srcpaths w =
     (let n = length (project w); m = length (srcpath w)
      in if m > n
         then (if n > 0 then Inl (raised ''EbuildFormatIncorrectError'')
               else Inr (replicate m [], replicate m [], srcpath w, m))
         else if m < n
         then (if srcpath w \<noteq> [] then Inl (raised ''EbuildFormatIncorrectError'')
               else Inr (project w, localname w, replicate n [], n))
         else Inr (project w, localname w, srcpath w, n))"

definition FinalizeCrosWorkonVars :: "workon_vars \<Rightarrow> exn + workon_vars" where
  "FinalizeCrosWorkonVars w =
     (if length (project w) \<noteq> length (localname w) then Inl (raised ''EbuildFormatIncorrectError'')
      else res_bind (complete_srcpaths w) (\<lambda>(projects, localnames, srcpaths, num_projects).
        if subdir w \<noteq> [] \<and> length (subdir w) \<noteq> length projects
        then Inl (raised ''EbuildFormatIncorrectError'')
        else if num_projects = 0 then Inl (raised ''EbuildFormatIncorrectError'')
        else if num_projects \<noteq> length (subtrees w) \<and> length (subtrees w) > 1
        then Inl (raised ''EbuildFormatIncorrectError'')
        else Inr (w\<lparr>localname := localnames, project := projects, srcpath := srcpaths,
               subdir := (if subdir w \<noteq> [] then subdir w else replicate (length projects) []),
               subtrees := (if num_projects \<noteq> length (subtrees w)
                            then concat (replicate num_projects (subtrees w)) else subtrees w)\<rparr>)))"

definition GetCrosWorkonVars :: "environment \<Rightarrow> tree \<Rightarrow> string \<Rightarrow> string \<Rightarrow> exn + workon_vars" where
  "GetCrosWorkonVars env t path pkg_name =
     res_bind (ReadCrosWorkonVars env t path pkg_name) FinalizeCrosWorkonVars"

section \<open>The object\<close>

record ebuild =
  subdir_support :: bool
  eb_overlay :: string
  eb_category :: string
  pkgname :: string
  eb_version :: string
  version_no_rev :: string
  current_revision :: int
  eb_package :: string
  path_no_version :: string
  path_no_revision :: string
  unstable_path :: string
  ebuild_path :: string
  attributes :: classification
  cros_workon_vars :: "workon_vars option"

definition WORKON_EBUILD_VERSION :: string where
  "WORKON_EBUILD_VERSION = ''9999''"

definition WORKON_EBUILD_SUFFIX :: string where
  "WORKON_EBUILD_SUFFIX = ''-'' @ WORKON_EBUILD_VERSION @ ''.ebuild''"

text \<open>\<open>path.rsplit('/', 3)\<close> into four names.\<close>

definition split_path4 :: "string \<Rightarrow> exn + (string \<times> string \<times> string \<times> string)" where
  "split_path4 path =
     (case rev (split_on CHR ''/'' path) of
        f # p # c # o1 # os \<Rightarrow> Inr (join ''/'' (rev (o1 # os)), c, p, f)
      | _ \<Rightarrow> Inl (PyExc ValueError))"

definition format_error_None :: "exn + workon_vars \<Rightarrow> exn + workon_vars option" where
  "format_error_None r =
     (case r of
        Inr w \<Rightarrow> Inr (Some w)
      | Inl e \<Rightarrow> if e = raised ''EbuildFormatIncorrectError'' then Inr None else Inl e)"

text \<open>The settings of the ebuild itself, unless those of the unstable one differ in more than the commit.\<close>

definition merge_vars :: "workon_vars option \<Rightarrow> workon_vars option \<Rightarrow> workon_vars option" where
  "merge_vars new_vars old_vars =
     (case (new_vars, old_vars) of
        (Some n, Some old) \<Rightarrow> if n\<lparr>commit := commit old\<rparr> \<noteq> old then Some n else Some old
      | _ \<Rightarrow> old_vars)"

definition EBuild :: "environment \<Rightarrow> tree \<Rightarrow> string \<Rightarrow> bool \<Rightarrow> exn + ebuild" where
  "EBuild env t path support =
     res_bind (split_path4 path) (\<lambda>(overlay, category, pkg, filename).
       case PACKAGE_VERSION_match filename of
         None \<Rightarrow> Inl (raised ''EBuildVersionFormatError'')
       | Some (no_rev, rv) \<Rightarrow>
           res_bind (case rv of None \<Rightarrow> Inr 0
                     | Some r \<Rightarrow> lift_res (py_int (replace_all ''-r'' [] r))) (\<lambda>rev.
             let base = path_join (dirname path) [pkg];
                 unstable = base @ WORKON_EBUILD_SUFFIX
             in res_bind (read_file env path t) (\<lambda>text.
                res_bind (format_error_None (GetCrosWorkonVars env t unstable pkg)) (\<lambda>new_vars.
                res_bind (format_error_None (GetCrosWorkonVars env t path pkg)) (\<lambda>old_vars.
                  Inr \<lparr>subdir_support = support, eb_overlay = overlay, eb_category = category, pkgname = pkg,
                       eb_version = no_rev @ (case rv of None \<Rightarrow> [] | Some r \<Rightarrow> r),
                       version_no_rev = no_rev, current_revision = rev,
                       eb_package = category @ ''/'' @ pkg, path_no_version = base,
                       path_no_revision = base @ ''-'' @ no_rev, unstable_path = unstable,
                       ebuild_path = path, attributes = Classify text,
                       cros_workon_vars = merge_vars new_vars old_vars\<rparr>)))))"

abbreviation is_workon :: "ebuild \<Rightarrow> bool" where "is_workon e \<equiv> cl_workon (attributes e)"
abbreviation is_stable :: "ebuild \<Rightarrow> bool" where "is_stable e \<equiv> cl_stable (attributes e)"
abbreviation is_manually_uprevved :: "ebuild \<Rightarrow> bool" where "is_manually_uprevved e \<equiv> cl_manual (attributes e)"

definition IsSticky :: "ebuild \<Rightarrow> bool" where
  "IsSticky e \<longleftrightarrow> is_stable e \<and> current_revision e = 0"

section \<open>Lemmas\<close>

lemma GetCrosWorkonVars_complete:
  assumes "GetCrosWorkonVars env t path pkg = Inr w"
  shows "project w \<noteq> []" "length (localname w) = length (project w)" "length (srcpath w) = length (project w)"
    "length (subdir w) = length (project w)" "length (subtrees w) = length (project w)"
    "FinalizeCrosWorkonVars w = Inr w"
proof -
  obtain settings v where v: "parse_workon_vars settings = Inr v" "FinalizeCrosWorkonVars v = Inr w"
    using assms by (auto simp: GetCrosWorkonVars_def ReadCrosWorkonVars_def res_bind_Inr)
  have sub: "subtrees v \<noteq> []" using v(1) by (auto simp: parse_workon_vars_def Let_def res_bind_Inr split: if_splits)
  obtain r where "complete_srcpaths v = Inr r"
    using v(2) by (cases "complete_srcpaths v") (simp_all add: FinalizeCrosWorkonVars_def split: if_splits)
  moreover obtain ps ls ss n where "r = (ps, ls, ss, n)" by (cases r) auto
  ultimately have c: "complete_srcpaths v = Inr (ps, ls, ss, n)" by simp
  define w' where "w' = v\<lparr>localname := ls, project := ps, srcpath := ss,
               subdir := (if subdir v \<noteq> [] then subdir v else replicate (length ps) []),
               subtrees := (if n \<noteq> length (subtrees v)
                            then concat (replicate n (subtrees v)) else subtrees v)\<rparr>"
  have "n \<noteq> 0 \<and> w = w' \<and> length (project v) = length (localname v)
      \<and> (subdir v = [] \<or> length (subdir v) = length ps) \<and> (n = length (subtrees v) \<or> length (subtrees v) \<le> 1)"
    using v(2) unfolding FinalizeCrosWorkonVars_def c w'_def[symmetric] by (auto simp flip: w'_def split: if_splits)
  then have n: "n \<noteq> 0" and w: "w = w'" and ok: "length (project v) = length (localname v)"
    "subdir v = [] \<or> length (subdir v) = length ps" "n = length (subtrees v) \<or> length (subtrees v) \<le> 1"
    by blast+
  note w = w[unfolded w'_def]
  have len: "length ps = n" "length ls = n" "length ss = n"
    using c ok(1) by (auto simp: complete_srcpaths_def Let_def split: if_splits)
  have one: "length (subtrees v) = 1" if "n \<noteq> length (subtrees v)" using that ok(3) sub by (cases "subtrees v") auto
  have trees: "length (subtrees w) = n"
    using one by (cases "n = length (subtrees v)") (simp_all add: w length_concat sum_list_replicate)
  have subs: "length (subdir w) = n" "subdir w \<noteq> []" using ok(2) len n by (auto simp: w)
  show "project w \<noteq> []" "length (localname w) = length (project w)" "length (srcpath w) = length (project w)"
    "length (subdir w) = length (project w)" "length (subtrees w) = length (project w)"
    using len n trees subs by (auto simp: w)
  then show "FinalizeCrosWorkonVars w = Inr w"
    using n len subs trees by (simp add: FinalizeCrosWorkonVars_def complete_srcpaths_def)
qed

text \<open>C37. The variables of an ebuild are complete: there is at least one project, every list has one item
  for each project, and completing them again changes nothing.\<close>

theorem workon_vars_complete:
  assumes "GetCrosWorkonVars env t path pkg = Inr w"
  shows "project w \<noteq> [] \<and> length (localname w) = length (project w) \<and> length (srcpath w) = length (project w)
    \<and> length (subdir w) = length (project w) \<and> length (subtrees w) = length (project w)
    \<and> FinalizeCrosWorkonVars w = Inr w"
  using GetCrosWorkonVars_complete[OF assms] by simp

text \<open>Source paths without projects are rejected: the local name always has an item, so the number
  of projects cannot match, and the branch that completes the projects is not reached.\<close>

theorem project_required:
  assumes "source_environment env t path WORKON_VARS
      [(''CROS_WORKON_LOCALNAME'', pkg), (''CROS_WORKON_ALWAYS_LIVE'', [])] False = Inr settings"
    and "dict_get settings ''CROS_WORKON_PROJECT'' = None"
    and "dict_get settings ''CROS_WORKON_LOCALNAME'' \<noteq> None" "dict_get settings ''CROS_WORKON_ALWAYS_LIVE'' \<noteq> None"
  shows "GetCrosWorkonVars env t path pkg = Inl (raised ''EbuildFormatIncorrectError'')"
  using assms
  by (auto simp: GetCrosWorkonVars_def ReadCrosWorkonVars_def parse_workon_vars_def setting_list_def setting_def
      FinalizeCrosWorkonVars_def Let_def)

section \<open>Paths of revisions\<close>

lemma version_tail_rev: "d \<noteq> [] \<Longrightarrow> list_all is_digit d \<Longrightarrow> version_tail (''-r'' @ d @ ''.ebuild'') = Some (Some (''-r'' @ d))"
  using span_append(1)[of is_digit d "''.ebuild''"]
  by (simp add: version_tail_def startswith_def)

lemma version_at_revised:
  assumes "v \<noteq> []" "is_digit (hd v)" "list_all version_char v" "d \<noteq> []" "list_all is_digit d"
  shows "version_at (v @ ''-r'' @ d @ ''.ebuild'') = Some (v, Some (''-r'' @ d))"
proof -
  let ?s = "v @ ''-r'' @ d @ ''.ebuild''"
  have "takeWhile version_char ?s = v" using assms(3) by (intro span_append(1)) simp_all
  moreover have "rev [1..<Suc (length v)] = length v # rev [1..<length v]" using assms(1) by (cases v) simp_all
  moreover have "version_tail (drop (length v) ?s) = Some (Some (''-r'' @ d))"
    using version_tail_rev[OF assms(4,5)] by simp
  ultimately show ?thesis using assms(1,2) by (simp add: version_at_def List.map_filter_simps)
qed

lemma version_at_no_digit: "s \<noteq> [] \<Longrightarrow> \<not> is_digit (hd s) \<Longrightarrow> version_at s = None"
  by (simp add: version_at_def)


lemma PACKAGE_VERSION_revised:
  assumes "CHR 0x0A \<notin> set p" "v \<noteq> []" "is_digit (hd v)" "list_all version_char v" "d \<noteq> []" "list_all is_digit d"
  shows "PACKAGE_VERSION_match (p @ CHR ''-'' # v @ ''-r'' @ d @ ''.ebuild'') = Some (v, Some (''-r'' @ d))"
proof -
  let ?w = "v @ ''-r'' @ d @ ''.ebuild''"
  let ?f = "\<lambda>(p, v). if CHR 0x0A \<in> set p then None else version_at v"
  obtain xs ys where xs: "dash_splits (p @ CHR ''-'' # ?w) = xs @ (p, ?w) # ys"
    "\<forall>q \<in> set xs. \<exists>a. ?w = a @ CHR ''-'' # snd q" by (rule dash_splits_at)
  have free: "CHR ''-'' \<notin> set (''r'' @ d @ ''.ebuild'')" "CHR ''-'' \<notin> set v" using assms(4,6) by (auto simp: list_all_iff)
  have "snd q = ''r'' @ d @ ''.ebuild''" if q: "q \<in> set xs" for q
  proof -
    obtain a where a: "v @ CHR ''-'' # (''r'' @ d @ ''.ebuild'') = a @ CHR ''-'' # snd q" using xs(2) q by auto
    have "split_on CHR ''-'' a @ split_on CHR ''-'' (snd q) = [v, ''r'' @ d @ ''.ebuild'']"
      unfolding split_on_append_sep[symmetric] a[symmetric] using free by (simp add: split_on_append_sep split_on_free)
    then have "split_on CHR ''-'' (snd q) = [''r'' @ d @ ''.ebuild'']"
      by (cases "split_on CHR ''-'' a"; cases "split_on CHR ''-'' (snd q)") (auto simp: append_eq_Cons_conv)
    then show ?thesis using join_split_on[of "CHR ''-''" "snd q"] by simp
  qed
  then have none: "?f q = None" if "q \<in> set xs" for q
  proof -
    obtain a b where q: "q = (a, b)" by (cases q)
    then have "version_at b = None"
      using \<open>\<And>q. q \<in> set xs \<Longrightarrow> snd q = ''r'' @ d @ ''.ebuild''\<close>[OF that] by (simp add: version_at_def is_digit_def py_ord_def)
    with q show ?thesis by simp
  qed
  then have "List.map_filter ?f xs = []" by (auto simp: List.map_filter_def filter_empty_conv)
  moreover have "?f (p, ?w) = Some (v, Some (''-r'' @ d))" using assms version_at_revised[of v d] by simp
  ultimately have "List.map_filter ?f (xs @ (p, ?w) # ys) = (v, Some (''-r'' @ d)) # List.map_filter ?f ys"
    by (simp add: List.map_filter_def)
  then show ?thesis unfolding PACKAGE_VERSION_match_def xs(1) by (simp only: list.case)
qed

lemma version_tail_parts:
  "version_tail r = Some rv \<Longrightarrow> rv = None \<or> (\<exists>d. rv = Some (''-r'' @ d) \<and> d \<noteq> [] \<and> list_all is_digit d)"
  by (auto simp: version_tail_def Let_def list_all_iff dest: set_takeWhileD split: if_splits)

lemma version_at_parts:
  assumes "version_at s = Some (v, rv)"
  shows "v \<noteq> []" "is_digit (hd v)" "list_all version_char v"
    "rv = None \<or> (\<exists>d. rv = Some (''-r'' @ d) \<and> d \<noteq> [] \<and> list_all is_digit d)"
proof -
  have s: "s \<noteq> []" "is_digit (hd s)" using assms by (auto simp: version_at_def split: if_splits)
  have "(v, rv) \<in> set (List.map_filter (\<lambda>j. map_option (Pair (take j s)) (version_tail (drop j s)))
      (rev [1..<Suc (length (takeWhile version_char s))]))"
    using assms s by (auto simp: version_at_def simp del: upt_Suc split: list.splits)
  then obtain j where j: "1 \<le> j" "j \<le> length (takeWhile version_char s)" "v = take j s" "version_tail (drop j s) = Some rv"
    by (auto simp: List.map_filter_def simp del: upt_Suc)
  have "take j s = take j (takeWhile version_char s)"
    using j(2) by (metis takeWhile_dropWhile_id take_append diff_is_0_eq take0 append_Nil2)
  then have "set v \<subseteq> set (takeWhile version_char s)" using j(3) by (simp add: set_take_subset)
  then show "list_all version_char v" by (auto simp: list_all_iff dest!: set_takeWhileD)
  show "v \<noteq> []" "is_digit (hd v)" using j(1,3) s by (cases s; cases j; simp)+
  show "rv = None \<or> (\<exists>d. rv = Some (''-r'' @ d) \<and> d \<noteq> [] \<and> list_all is_digit d)" by (rule version_tail_parts[OF j(4)])
qed

lemma PACKAGE_VERSION_parts:
  assumes "PACKAGE_VERSION_match f = Some (v, rv)"
  shows "v \<noteq> []" "is_digit (hd v)" "list_all version_char v"
    "rv = None \<or> (\<exists>d. rv = Some (''-r'' @ d) \<and> d \<noteq> [] \<and> list_all is_digit d)"
proof -
  have "(v, rv) \<in> set (List.map_filter (\<lambda>(p, v). if CHR 0x0A \<in> set p then None else version_at v) (dash_splits f))"
    using assms by (auto simp: PACKAGE_VERSION_match_def split: list.splits)
  then obtain s where "version_at s = Some (v, rv)" by (auto simp: List.map_filter_def split: if_splits)
  from version_at_parts[OF this] show "v \<noteq> []" "is_digit (hd v)" "list_all version_char v"
    "rv = None \<or> (\<exists>d. rv = Some (''-r'' @ d) \<and> d \<noteq> [] \<and> list_all is_digit d)" .
qed

lemma replace_revision: "list_all is_digit d \<Longrightarrow> replace_all ''-r'' [] (''-r'' @ d) = d"
proof -
  assume d: "list_all is_digit d"
  then have "CHR ''-'' \<notin> set d" by (auto simp: list_all_iff)
  then have "replace_all ''-r'' [] d = d" by (intro replace_all_id) auto
  then show ?thesis by (simp add: replace_all.simps(2) startswith_def)
qed

lemma basename_slash: "CHR ''/'' \<notin> set f \<Longrightarrow> basename (a @ CHR ''/'' # f) = f"
  by (simp add: basename_def split_on_append_sep split_on_free)

lemma dirname_slash:
  assumes "CHR ''/'' \<notin> set f" "a \<noteq> []" "last a \<noteq> CHR ''/''" shows "dirname (a @ CHR ''/'' # f) = a"
proof -
  have "take (length (a @ CHR ''/'' # f) - length f) (a @ CHR ''/'' # f) = a @ ''/''" by simp
  moreover have "last a \<in> set a" using assms(2) by simp
  ultimately show ?thesis
    using assms(3) rstrip_id[of a "\<lambda>c. c = CHR ''/''"]
    by (auto simp: dirname_def basename_slash[OF assms(1)] Let_def list_ex_iff)
qed

section \<open>The revision of an ebuild\<close>

lemma split_path4_parts:
  assumes "split_path4 path = Inr (ov, c, p, f)"
  shows "path = ov @ ''/'' @ c @ ''/'' @ p @ ''/'' @ f" "CHR ''/'' \<notin> set c" "CHR ''/'' \<notin> set p" "CHR ''/'' \<notin> set f"
proof -
  obtain o1 os where r: "rev (split_on CHR ''/'' path) = f # p # c # o1 # os" "ov = join ''/'' (rev (o1 # os))"
    using assms by (auto simp: split_path4_def split: list.splits)
  then have s: "split_on CHR ''/'' path = rev (o1 # os) @ [c, p, f]" by (metis rev_rev_ident rev.simps(2) append.assoc append_Cons append_Nil)
  show "CHR ''/'' \<notin> set c" "CHR ''/'' \<notin> set p" "CHR ''/'' \<notin> set f"
    using split_on_sep_free[of _ "CHR ''/''" path] s by auto
  have "path = join ''/'' (rev (o1 # os) @ [c, p, f])" using join_split_on[of "CHR ''/''" path] s by simp
  also have "\<dots> = ov @ ''/'' @ c @ ''/'' @ p @ ''/'' @ f" using r(2) join_append[of "rev (o1 # os)" "[c, p, f]"] by simp
  finally show "path = ov @ ''/'' @ c @ ''/'' @ p @ ''/'' @ f" .
qed

lemma split_path4_of:
  assumes "CHR ''/'' \<notin> set c" "CHR ''/'' \<notin> set p" "CHR ''/'' \<notin> set f"
  shows "split_path4 (ov @ ''/'' @ c @ ''/'' @ p @ ''/'' @ f) = Inr (ov, c, p, f)"
proof -
  have "split_on CHR ''/'' (ov @ ''/'' @ c @ ''/'' @ p @ ''/'' @ f) = split_on CHR ''/'' ov @ [c, p, f]"
    using assms by (simp add: split_on_append_sep split_on_free)
  moreover obtain o1 os where "rev (split_on CHR ''/'' ov) = o1 # os" by (cases "rev (split_on CHR ''/'' ov)") auto
  moreover from this have "split_on CHR ''/'' ov = rev (o1 # os)" by (metis rev_rev_ident)
  ultimately show ?thesis using join_split_on[of "CHR ''/''" ov] by (simp add: split_path4_def)
qed

text \<open>What is known of an ebuild from its path.\<close>

lemma EBuild_parts:
  assumes "EBuild env t path support = Inr e"
  obtains f rv where "split_path4 path = Inr (eb_overlay e, eb_category e, pkgname e, f)"
    "PACKAGE_VERSION_match f = Some (version_no_rev e, rv)"
    "eb_version e = version_no_rev e @ (case rv of None \<Rightarrow> [] | Some r \<Rightarrow> r)"
    "current_revision e = (case rv of None \<Rightarrow> 0 | Some r \<Rightarrow> int (nat_of_digits (drop 2 r)))"
    "eb_package e = eb_category e @ ''/'' @ pkgname e" "ebuild_path e = path"
    "path_no_version e = path_join (dirname path) [pkgname e]" "subdir_support e = support"
proof -
  obtain ov c p f where s: "split_path4 path = Inr (ov, c, p, f)"
    using assms by (cases "split_path4 path") (auto simp: EBuild_def)
  obtain v rv where m: "PACKAGE_VERSION_match f = Some (v, rv)"
    using assms s by (cases "PACKAGE_VERSION_match f") (auto simp: EBuild_def)
  have d: "replace_all ''-r'' [] (CHR ''-'' # CHR ''r'' # d) = d" if "list_all is_digit d" for d
    using replace_revision[OF that] by simp
  have r: "(case rv of None \<Rightarrow> Inr 0 | Some r \<Rightarrow> lift_res (py_int (replace_all ''-r'' [] r)))
      = Inr (case rv of None \<Rightarrow> 0 | Some r \<Rightarrow> int (nat_of_digits (drop 2 r)))"
    using PACKAGE_VERSION_parts(4)[OF m] by (auto simp: d py_int_digits lift_res_def)
  show thesis
    using assms unfolding EBuild_def s m Let_def
    by (auto simp: res_bind_Inr s m r simp del: path_join.simps intro!: that[of f rv])
qed

lemma newer_revision:
  assumes "version_valid v" "list_all version_char v"
    and "rv = None \<or> (\<exists>d. rv = Some (''-r'' @ d) \<and> d \<noteq> [] \<and> list_all is_digit d)"
    and "(case rv of None \<Rightarrow> 0 | Some r \<Rightarrow> nat_of_digits (drop 2 r)) < n"
  shows "version_lt (v @ (case rv of None \<Rightarrow> [] | Some r \<Rightarrow> r)) (v @ ''-r'' @ str_of_nat n) = Inr True"
proof -
  obtain m where m: "version_fullmatch v = Some m" using assms(1) by (auto simp: version_valid_def)
  then have wf: "wf_version m" "v = version_string m" using version_fullmatch_sound by blast+
  have "CHR ''-'' \<notin> set v" using assms(2) by (auto simp: list_all_iff)
  then have "revision m = None" using wf(2) by (cases "revision m") (simp_all add: version_string_def)
  then have v: "v = numbers m @ letter m @ suffixes m" using wf(2) by (simp add: version_string_def)
  have key: "version_str_key (v @ (case q of None \<Rightarrow> [] | Some d \<Rightarrow> ''-r'' @ d))
      = Some (numbers_key (numbers m), letter m, suffix_list_key (suffix_parts (suffixes m)),
          case q of None \<Rightarrow> 0 | Some d \<Rightarrow> nat_of_digits d)"
    if q: "q = None \<or> (\<exists>d. q = Some d \<and> d \<noteq> [] \<and> list_all is_digit d)" for q
  proof -
    have "wf_version (m\<lparr>revision := q\<rparr>)" using wf(1) q by (auto simp: wf_version_def number_ok_def)
    moreover have "version_string (m\<lparr>revision := q\<rparr>) = v @ (case q of None \<Rightarrow> [] | Some d \<Rightarrow> ''-r'' @ d)"
      by (simp add: version_string_def v)
    ultimately have "version_fullmatch (v @ (case q of None \<Rightarrow> [] | Some d \<Rightarrow> ''-r'' @ d)) = Some (m\<lparr>revision := q\<rparr>)"
      using version_fullmatch_complete by metis
    then show ?thesis by (simp add: version_str_key_def version_key_def revision_number_def)
  qed
  have q1: "map_option (drop 2) rv = None \<or> (\<exists>d. map_option (drop 2) rv = Some d \<and> d \<noteq> [] \<and> list_all is_digit d)"
    using assms(3) by auto
  have e: "(case rv of None \<Rightarrow> [] | Some r \<Rightarrow> r) = (case map_option (drop 2) rv of None \<Rightarrow> [] | Some d \<Rightarrow> ''-r'' @ d)"
    "(case rv of None \<Rightarrow> 0 | Some r \<Rightarrow> nat_of_digits (drop 2 r)) = (case map_option (drop 2) rv of None \<Rightarrow> 0 | Some d \<Rightarrow> nat_of_digits d)"
    using assms(3) by auto
  show ?thesis
    using key[OF q1] key[of "Some (str_of_nat n)"] assms(4) unfolding e
    by (simp add: version_lt_def cmp_versions_keys str_of_nat_digits py_cmp_def)
qed

section \<open>Examples\<close>

definition example_old :: string where
  "example_old = ''/s/ov/chromeos-base/pkg/pkg-0.0.1-r1.ebuild''"

definition example_new :: string where
  "example_new = ''/s/ov/chromeos-base/pkg/pkg-0.0.1-r2.ebuild''"

definition example_unstable :: string where
  "example_unstable = ''/s/ov/chromeos-base/pkg/pkg-9999.ebuild''"

text \<open>A checkout whose head is at another commit with another tree than the ebuild names.\<close>

definition example_environment :: environment where
  "example_environment =
     \<lparr>is_dir = (\<lambda>p. p = ''/s/src/pkg''), is_link = (\<lambda>p. False), realpath = (\<lambda>p. p),
      source_environment = (\<lambda>t path names env multiline. Inr (if multiline then [] else
        [(''CROS_WORKON_LOCALNAME'', ''pkg''), (''CROS_WORKON_ALWAYS_LIVE'', []), (''CROS_WORKON_PROJECT'', ''proj''),
         (''CROS_WORKON_COMMIT'', ''c1'')])),
      run_git = (\<lambda>dir args. Inr (if args = [''rev-parse'', ''HEAD^{commit}''] then ''c2'' @ [CHR 0x0A]
        else if hd args = ''rev-parse'' then ''t2'' @ [CHR 0x0A] else [])),
      version_script = (\<lambda>path dirs. (0, [])),
      find_checkout = (\<lambda>path strict. Inr (Some [(''name'', ''proj''),
        (''local_path'', if path = ''/s/src/pkg'' then path else ''/s/ov'')])),
      under_pytest = False\<rparr>"

definition example_tree :: tree where
  "example_tree = (\<lambda>p.
     if p = example_unstable then Some example_ebuild
     else if p = example_old
     then Some (UpdateEBuild_text (uprev_variables (quoted ''c1'') (quoted ''t1'')) True example_ebuild)
     else None)"

definition example_vars :: workon_vars where
  "example_vars =
     \<lparr>localname = [''pkg''], project = [''proj''], srcpath = [[]], subdir = [[]], always_live = [],
      commit = Some ''c1'', rev_subdirs = [], subtrees = [[[]]]\<rparr>"

lemma example_vars_read: "GetCrosWorkonVars example_environment example_tree example_old ''pkg'' = Inr example_vars"
  by code_simp

lemma workon_vars_complete_witness:
  "FinalizeCrosWorkonVars example_vars = Inr example_vars \<and> subtrees example_vars = [[[]]]"
proof -
  have "subtrees example_vars = [[[]]]" by code_simp
  with workon_vars_complete[OF example_vars_read] show ?thesis by blast
qed

lemma project_required_witness:
  "GetCrosWorkonVars
     (example_environment\<lparr>source_environment := (\<lambda>t path names env multiline. Inr
        [(''CROS_WORKON_LOCALNAME'', ''pkg''), (''CROS_WORKON_ALWAYS_LIVE'', []), (''CROS_WORKON_SRCPATH'', ''platform2'')])\<rparr>)
     example_tree example_old ''pkg'' = Inl (raised ''EbuildFormatIncorrectError'')"
  by (rule project_required[where settings = "[(''CROS_WORKON_LOCALNAME'', ''pkg''), (''CROS_WORKON_ALWAYS_LIVE'', []),
      (''CROS_WORKON_SRCPATH'', ''platform2'')]"]) (simp_all add: dict_get_def)

end
