(* ===== verification/Uprev.thy ===== *)
theory Uprev
  imports Ebuild
begin

text \<open>
  What an ebuild is built from and the uprev (\<open>lib/portage_util.py\<close>): \<open>GetSourceInfo\<close>,
  \<open>GetVersion\<close>, \<open>RevWorkOnEBuild\<close>, and the choice of the ebuild of a package to uprev.
\<close>

section \<open>Sources\<close>

record source_info =
  projects :: "string list"
  srcdirs :: "string list"
  subdirs :: "string list"
  info_subtrees :: "string list"

definition vars_of :: "ebuild \<Rightarrow> exn + workon_vars" where
  "vars_of e = (case cros_workon_vars e of None \<Rightarrow> Inl (PyExc AttributeError) | Some w \<Rightarrow> Inr w)"

text \<open>\<open>checkout[k]\<close> and \<open>checkout.get(k)\<close>, where a checkout may be missing.\<close>

definition checkout_item :: "checkout option \<Rightarrow> string \<Rightarrow> exn + string" where
  "checkout_item c k =
     (case c of None \<Rightarrow> Inl (PyExc TypeError) | Some d \<Rightarrow> setting d k)"

definition checkout_path :: "checkout option \<Rightarrow> string option" where
  "checkout_path c =
     (case c of None \<Rightarrow> None | Some d \<Rightarrow> if d = [] then None else dict_get d ''local_path'')"

definition add_subdir :: "ebuild \<Rightarrow> string \<Rightarrow> string \<Rightarrow> string" where
  "add_subdir e path sub = (if subdir_support e \<and> sub \<noteq> [] then path_join path [sub] else path)"

definition local_path :: "environment \<Rightarrow> string \<Rightarrow> string \<Rightarrow> string \<Rightarrow> string" where
  "local_path env srcroot dir local =
     (let p = realpath env (path_join srcroot [dir, local])
      in if dir = [] \<and> \<not> is_dir env p then realpath env (path_join srcroot [''platform'', local]) else p)"

text \<open>The source directory of one project.\<close>

definition project_path ::
    "environment \<Rightarrow> ebuild \<Rightarrow> string \<Rightarrow> string \<Rightarrow> string \<Rightarrow> string \<times> string \<times> string \<times> string \<Rightarrow> exn + string" where
  "project_path env e srcroot dir srcbase p =
     (case p of (local, proj, src, sub) \<Rightarrow>
        if src \<noteq> []
        then (let path = path_join srcbase [src]
              in if \<not> is_dir env path then Inl (raised ''Error'') else Inr (add_subdir e path sub))
        else
          let path = add_subdir e (local_path env srcroot dir local) sub
          in res_bind (find_checkout env path True) (\<lambda>c.
               res_bind (checkout_item c ''name'') (\<lambda>real_project.
                 if proj \<noteq> real_project then Inl (raised ''Error'') else Inr path)))"

definition source_step ::
    "environment \<Rightarrow> ebuild \<Rightarrow> string \<Rightarrow> string \<Rightarrow> string \<Rightarrow> string option \<Rightarrow> bool
      \<Rightarrow> (string \<times> string \<times> string \<times> string) \<times> string list \<Rightarrow> string list \<times> string list \<Rightarrow> exn + string list \<times> string list" where
  "source_step env e srcroot dir srcbase tree_path reject p r =
     res_bind (project_path env e srcroot dir srcbase (fst p)) (\<lambda>path.
       if Some path = tree_path \<and> reject then Inl (raised ''Error'')
       else Inr (fst r @ [path],
                 snd r @ map (\<lambda>s. if s \<noteq> [] then path_join path [s] else path) (snd p)))"

definition source_base :: "environment \<Rightarrow> ebuild \<Rightarrow> string list \<Rightarrow> exn + string" where
  "source_base env e srcpaths =
     (if list_ex (\<lambda>s. s \<noteq> []) srcpaths
      then (let srcbase = path_join (dirname (dirname (dirname (dirname (unstable_path e))))) [''src'']
            in if is_dir env srcbase then Inr srcbase else Inl (raised ''Error''))
      else Inr [])"

definition GetSourceInfo :: "environment \<Rightarrow> ebuild \<Rightarrow> string \<Rightarrow> bool \<Rightarrow> exn + source_info" where
  "GetSourceInfo env e srcroot reject_self_repo =
     res_bind (vars_of e) (\<lambda>w.
       if always_live w \<noteq> []
       then Inr \<lparr>projects = [], srcdirs = [], subdirs = [], info_subtrees = []\<rparr>
       else
         let dir = (if eb_category e \<in> set [''chromeos-base'', ''brillo-base''] then [] else ''third_party'')
         in res_bind (source_base env e (srcpath w)) (\<lambda>srcbase.
            res_bind (find_checkout env (ebuild_path e) (\<not> under_pytest env)) (\<lambda>c.
            res_bind (fold_res (source_step env e srcroot dir srcbase (checkout_path c) reject_self_repo)
                (zip (zip (localname w) (zip (project w) (zip (srcpath w) (subdir w)))) (subtrees w)) ([], []))
              (\<lambda>(dirs, trees). Inr \<lparr>projects = project w, srcdirs = dirs, subdirs = [], info_subtrees = trees\<rparr>))))"

section \<open>Commits, trees and versions\<close>

definition GetCommitId :: "environment \<Rightarrow> tree \<Rightarrow> string \<Rightarrow> string \<Rightarrow> exn + string" where
  "GetCommitId env t srcdir ref =
     (if \<not> path_exists env t srcdir then Inl (raised ''SourceDirectoryDoesNotExistError'')
      else res_bind (run_git env srcdir [''rev-parse'', ref @ ''^{commit}'']) (\<lambda>output.
        if output = [] then Inl (raised ''Error'') else Inr (rstrip is_space output)))"

definition GetTreeId :: "environment \<Rightarrow> tree \<Rightarrow> string \<Rightarrow> string \<Rightarrow> exn + string option" where
  "GetTreeId env t path ref =
     (if \<not> path_exists env t path then Inr None
      else
        let (basedir, rel) = (if is_dir env path then (path, []) else (dirname path, basename path))
        in res_bind (run_git env basedir [''rev-parse'', ref @ '':./'' @ rel]) (\<lambda>output.
             if output = [] then Inl (raised ''Error'') else Inr (Some (rstrip is_space output))))"

definition check_version :: "string \<Rightarrow> exn + string" where
  "check_version output =
     res_bind (lift_res (py_int (hd (split_max 1 CHR ''.'' output)))) (\<lambda>main_pv.
       if 9999 \<le> main_pv then Inl (PyExc ValueError)
       else res_bind (lift_res (SplitCPV (''foo/bar-'' @ output) True)) (\<lambda>cpv.
         if cpv = None then Inl (raised ''EbuildVersionError'') else Inr output))"

definition vers_script :: "ebuild \<Rightarrow> string" where
  "vers_script e = path_join (dirname (path_no_version e)) [''files'', ''chromeos-version.sh'']"

definition GetVersion :: "environment \<Rightarrow> tree \<Rightarrow> ebuild \<Rightarrow> string \<Rightarrow> string \<Rightarrow> exn + string" where
  "GetVersion env t e srcroot default_version =
     (if \<not> path_exists env t (vers_script e) then Inr default_version
      else if \<not> is_workon e then Inl (raised ''EbuildFormatIncorrectError'')
      else res_bind (GetSourceInfo env e srcroot True) (\<lambda>info.
        let (returncode, stdout) = version_script env (vers_script e) (srcdirs info);
            output = strip is_space stdout
        in if returncode \<noteq> 0 \<or> output = [] then Inl (raised ''Error'') else check_version output))"

section \<open>The uprev\<close>

definition UpdateEBuild :: "environment \<Rightarrow> string \<Rightarrow> (string, string) dict \<Rightarrow> bool \<Rightarrow> (tree, exn, unit) action" where
  "UpdateEBuild env path variables make_stable =
     act_bind (ask (read_file env path)) (\<lambda>text.
       write_file env path (UpdateEBuild_text variables make_stable text))"

definition MarkAsStable ::
    "environment \<Rightarrow> string \<Rightarrow> string \<Rightarrow> (string, string) dict \<Rightarrow> bool \<Rightarrow> (tree, exn, unit) action" where
  "MarkAsStable env unstable new_stable variables make_stable =
     act_bind (copyfile env unstable new_stable) (\<lambda>_. UpdateEBuild env new_stable variables make_stable)"

definition test_dirs :: "environment \<Rightarrow> string \<Rightarrow> string \<Rightarrow> string list" where
  "test_dirs env srcdir test =
     map (\<lambda>(x, y). path_join x [y, test])
       (filter (\<lambda>(x, y). is_dir env (path_join srcdir [x, y, test]))
         (List.product [''client'', ''server''] [''tests'', ''site_tests'']))"

definition GetAutotestSubdirsToRev :: "environment \<Rightarrow> tree \<Rightarrow> string \<Rightarrow> string \<Rightarrow> exn + string list" where
  "GetAutotestSubdirsToRev env t path srcdir =
     (if path = [] \<or> srcdir = [] then Inr []
      else res_bind (source_environment env t path [''IUSE_TESTS''] [] True) (\<lambda>settings.
        if dict_get settings ''IUSE_TESTS'' = None then Inr []
        else res_bind (lift_res (GetAutotestTestsFromSettings settings)) (\<lambda>tests.
          Inr (concat (map (test_dirs env srcdir) tests)))))"

definition ShouldRevEBuild :: "environment \<Rightarrow> ebuild \<Rightarrow> string list \<Rightarrow> string list \<Rightarrow> string list \<Rightarrow> exn + bool" where
  "ShouldRevEBuild env e commit_ids srcs subdirs_to_rev =
     (case cros_workon_vars e of
        None \<Rightarrow> Inr True
      | Some w \<Rightarrow>
          (case commit w of
             None \<Rightarrow> Inr True
           | Some stable_commit \<Rightarrow>
               if stable_commit = [] \<or> length commit_ids \<noteq> 1 \<or> length srcs \<noteq> 1
                 \<or> (subdirs_to_rev = [] \<and> rev_subdirs w = []) then Inr True
               else
                 let dirs = rev_subdirs w @ subdirs_to_rev;
                     dirs = (if dirs \<noteq> [] then dirs @ [''*9999.ebuild''] else dirs);
                     logrange = stable_commit @ ''..'' @ hd commit_ids
                 in (case run_git env (hd srcs) ([''log'', ''--oneline'', logrange, ''--''] @ dirs) of
                       Inl ex \<Rightarrow> if is_command_error ex then Inr True else Inl ex
                     | Inr output \<Rightarrow> Inr (output \<noteq> []))))"

text \<open>\<open>_CheckForChanges\<close>: the unstable ebuild or \<open>files/\<close> since the last stable revision.\<close>

definition CheckForChanges :: "environment \<Rightarrow> tree \<Rightarrow> ebuild \<Rightarrow> string \<Rightarrow> exn + bool" where
  "CheckForChanges env t e old_stable_ebuild_path =
     (if \<not> path_exists env t old_stable_ebuild_path then Inr True
      else res_bind (run_git env (eb_overlay e)
             [''log'', ''--pretty=%H'', ''-n1'', ''--'', old_stable_ebuild_path]) (\<lambda>log.
        res_bind (run_git env (eb_overlay e)
             [''log'', rstrip is_space log @ ''..HEAD'', ''--'', unstable_path e,
              path_join (dirname (ebuild_path e)) [''files'']]) (\<lambda>output.
          Inr (output \<noteq> []))))"

definition same_ebuilds :: "environment \<Rightarrow> string \<Rightarrow> string \<Rightarrow> tree \<Rightarrow> exn + bool" where
  "same_ebuilds env path1 path2 t =
     res_bind (read_file env path1 t) (\<lambda>s1. res_bind (read_file env path2 t) (\<lambda>s2.
       Inr (AlmostSameEBuilds s1 s2)))"

definition revision_path :: "ebuild \<Rightarrow> string \<Rightarrow> int \<Rightarrow> string" where
  "revision_path e version r = path_no_version e @ ''-'' @ version @ ''-r'' @ str_of_int r @ ''.ebuild''"

text \<open>The version, the commits and the variables of the new revision.\<close>

record uprev_source =
  stable_version :: string
  commit_ids :: "string list"
  source_dirs :: "string list"
  variables :: "(string, string) dict"

definition uprev_sources :: "environment \<Rightarrow> ebuild \<Rightarrow> string \<Rightarrow> bool \<Rightarrow> tree \<Rightarrow> exn + uprev_source" where
  "uprev_sources env e srcroot reject_self_repo t =
     (let starting_pv = (if is_stable e then version_no_rev e else ''0.0.1'')
      in res_bind (GetVersion env t e srcroot starting_pv) (\<lambda>version.
         res_bind (GetSourceInfo env e srcroot reject_self_repo) (\<lambda>info.
         res_bind (map_res (\<lambda>x. GetCommitId env t x ''HEAD'') (srcdirs info)) (\<lambda>commits.
           if commits = [] then Inl (raised ''InvalidUprevSourceError'')
           else res_bind (map_res (\<lambda>x. GetTreeId env t x ''HEAD'') (info_subtrees info)) (\<lambda>tree_ids.
             let trees = filter (\<lambda>s. s \<noteq> []) (List.map_filter id tree_ids)
             in if trees = [] then Inl (raised ''InvalidUprevSourceError'')
                else res_bind (lift_res (FormatBashArray commits)) (\<lambda>cs.
                  res_bind (lift_res (FormatBashArray trees)) (\<lambda>ts.
                    Inr \<lparr>stable_version = version, commit_ids = commits, source_dirs = srcdirs info,
                         variables = [(''CROS_WORKON_COMMIT'', cs), (''CROS_WORKON_TREE'', ts)]\<rparr>)))))))"

text \<open>Whether the unstable ebuild or \<open>files/\<close> have changed, and whether anything speaks for an uprev.\<close>

definition uprev_needed :: "environment \<Rightarrow> ebuild \<Rightarrow> uprev_source \<Rightarrow> tree \<Rightarrow> exn + (bool \<times> bool)" where
  "uprev_needed env e src t =
     res_bind (GetAutotestSubdirsToRev env t (unstable_path e) (hd (source_dirs src))) (\<lambda>subdirs_to_rev.
     res_bind (GetAutotestSubdirsToRev env t (ebuild_path e) (hd (source_dirs src))) (\<lambda>old_subdirs.
     res_bind (CheckForChanges env t e (revision_path e (stable_version src) (current_revision e))) (\<lambda>changed.
       if sort subdirs_to_rev \<noteq> sort old_subdirs \<or> changed then Inr (changed, True)
       else res_bind (ShouldRevEBuild env e (commit_ids src) (source_dirs src) subdirs_to_rev) (\<lambda>b.
         Inr (changed, b)))))"

definition make_revision ::
    "environment \<Rightarrow> ebuild \<Rightarrow> uprev_source \<Rightarrow> bool \<Rightarrow> (tree, exn, (string \<times> string \<times> string option) option) action" where
  "make_revision env e src changed =
     (let new_path = revision_path e (stable_version src) (current_revision e + 1)
      in act_bind (MarkAsStable env (unstable_path e) new_path (variables src) True) (\<lambda>_.
         act_bind (ask (same_ebuilds env (ebuild_path e) new_path)) (\<lambda>same.
           if same \<and> \<not> changed
           then act_bind (unlink env new_path) (\<lambda>_. act_return None)
           else act_return (Some
             (eb_package e @ ''-'' @ stable_version src @ ''-r'' @ str_of_int (current_revision e + 1),
              new_path, if is_stable e then Some (ebuild_path e) else None)))))"

definition RevWorkOnEBuild ::
    "environment \<Rightarrow> ebuild \<Rightarrow> string \<Rightarrow> bool \<Rightarrow> (tree, exn, (string \<times> string \<times> string option) option) action" where
  "RevWorkOnEBuild env e srcroot reject_self_repo =
     act_bind (ask (uprev_sources env e srcroot reject_self_repo)) (\<lambda>src.
     act_bind (ask (uprev_needed env e src)) (\<lambda>(changed, needed).
       if \<not> needed then act_return None
       else act_bind (gets (\<lambda>t. path_exists env t (unstable_path e))) (\<lambda>there.
         if \<not> there then act_raise (PyExc AssertionError)
         else make_revision env e src changed)))"

section \<open>Choosing the ebuild of a package\<close>

text \<open>Portage's \<open>vercmp\<close> is a parameter; it answers \<open>None\<close> for what is no version.\<close>

definition best_step :: "(string \<Rightarrow> string \<Rightarrow> int option) \<Rightarrow> ebuild \<Rightarrow> ebuild \<Rightarrow> exn + ebuild" where
  "best_step vercmp e winner =
     (case vercmp (eb_version winner) (eb_version e) of
        None \<Rightarrow> Inl (PyExc TypeError) | Some i \<Rightarrow> Inr (if i < 0 then e else winner))"

definition BestEBuild :: "(string \<Rightarrow> string \<Rightarrow> int option) \<Rightarrow> ebuild list \<Rightarrow> exn + ebuild option" where
  "BestEBuild vercmp ebuilds =
     (case ebuilds of
        [] \<Rightarrow> Inr None
      | e # es \<Rightarrow> res_bind (fold_res (best_step vercmp) es e) (\<lambda>winner. Inr (Some winner)))"

text \<open>The stable and the unstable candidates, and whether an unstable one is uprevved manually.\<close>

type_synonym candidates = "ebuild list \<times> ebuild list \<times> bool"

definition candidate_step ::
    "environment \<Rightarrow> tree \<Rightarrow> bool \<Rightarrow> bool \<Rightarrow> string \<Rightarrow> candidates \<Rightarrow> exn + candidates" where
  "candidate_step env t allow_manual_uprev support path c =
     (case c of (stables, unstables, manual) \<Rightarrow>
        if \<not> endswith path ''.ebuild'' \<or> is_link env path then Inr c
        else res_bind (EBuild env t path support) (\<lambda>e.
          if \<not> is_workon e then Inr c
          else if is_manually_uprevved e \<and> \<not> allow_manual_uprev
          then Inr (stables, unstables, manual \<or> \<not> is_stable e)
          else if is_stable e
          then (if eb_version e = WORKON_EBUILD_VERSION then Inl (raised ''Error'')
                else Inr (stables @ [e], unstables, manual))
          else Inr (stables, unstables @ [e], manual)))"

text \<open>\<open>max(ebuilds, key=lambda eb: eb.current_revision)\<close>.\<close>

definition max_revision :: "ebuild list \<Rightarrow> ebuild" where
  "max_revision es = foldl (\<lambda>b e. if current_revision b < current_revision e then e else b) (hd es) (tl es)"

definition choose_candidate :: "candidates \<Rightarrow> exn + ebuild option" where
  "choose_candidate c =
     (case c of (stables, unstables, manual) \<Rightarrow>
        if unstables = []
        then (if stables \<noteq> [] \<and> \<not> manual then Inl (raised ''Error'') else Inr None)
        else if length unstables > 1 then Inl (PyExc AssertionError)
        else if stables = [] then Inr (Some (hd unstables))
        else if length stables = 1 then Inr (Some (hd stables))
        else if length (remdups (map version_no_rev stables)) > 1 then Inl (raised ''Error'')
        else Inr (Some (max_revision stables)))"

definition FindUprevCandidates :: "environment \<Rightarrow> tree \<Rightarrow> string list \<Rightarrow> bool \<Rightarrow> bool \<Rightarrow> exn + ebuild option" where
  "FindUprevCandidates env t paths allow_manual_uprev support =
     res_bind (fold_res (candidate_step env t allow_manual_uprev support) paths ([], [], False)) choose_candidate"

text \<open>What \<open>os.walk\<close> yields is a list: the directories with the names of their files.\<close>

definition overlay_step ::
    "environment \<Rightarrow> tree \<Rightarrow> bool \<Rightarrow> string list \<Rightarrow> bool \<Rightarrow> bool \<Rightarrow> string \<times> string list \<Rightarrow> ebuild list \<Rightarrow> exn + ebuild list" where
  "overlay_step env t use_all packages allow_manual_uprev support d ebuilds =
     (let package_name = basename (fst d); category = basename (dirname (fst d))
      in if \<not> (use_all \<or> path_join category [package_name] \<in> set packages) then Inr ebuilds
         else res_bind (FindUprevCandidates env t (map (\<lambda>f. path_join (fst d) [f]) (snd d)) allow_manual_uprev support)
           (\<lambda>e. Inr (case e of None \<Rightarrow> ebuilds | Some e \<Rightarrow> ebuilds @ [e])))"

definition GetOverlayEBuilds ::
    "environment \<Rightarrow> tree \<Rightarrow> (string \<times> string list) list \<Rightarrow> bool \<Rightarrow> string list \<Rightarrow> bool \<Rightarrow> bool \<Rightarrow> exn + ebuild list" where
  "GetOverlayEBuilds env t walk use_all packages allow_manual_uprev support =
     fold_res (overlay_step env t use_all packages allow_manual_uprev support) walk []"

text \<open>A generator runs its consumer between the ebuilds it yields.\<close>

definition workon_paths :: "(string \<times> string list) list \<Rightarrow> string list" where
  "workon_paths walk =
     concat (map (\<lambda>(root, files). map (\<lambda>f. path_join root [f]) (filter (\<lambda>f. endswith f WORKON_EBUILD_SUFFIX) files)) walk)"

definition for_workon_ebuilds ::
    "environment \<Rightarrow> tree \<Rightarrow> bool \<Rightarrow> (ebuild \<Rightarrow> 's \<Rightarrow> exn + 's) \<Rightarrow> (string \<times> string list) list \<Rightarrow> 's \<Rightarrow> exn + 's" where
  "for_workon_ebuilds env t support body walk s =
     fold_res (\<lambda>path s. res_bind (EBuild env t path support) (\<lambda>e. if is_workon e then body e s else Inr s))
       (workon_paths walk) s"

definition WorkonEBuildGeneratorForDirectory ::
    "environment \<Rightarrow> tree \<Rightarrow> (string \<times> string list) list \<Rightarrow> bool \<Rightarrow> exn + ebuild list" where
  "WorkonEBuildGeneratorForDirectory env t walk support =
     for_workon_ebuilds env t support (\<lambda>e es. Inr (es @ [e])) walk []"

definition StripRefsHeads :: "string \<Rightarrow> string" where
  "StripRefsHeads r = replace_all ''refs/heads/'' [] r"

definition StripRefs :: "string \<Rightarrow> string" where
  "StripRefs r =
     (let s = StripRefsHeads r
      in if startswith s ''refs/remotes/'' then last (split_max 3 CHR ''/'' s) else s)"

definition add_package ::
    "environment \<Rightarrow> string \<Rightarrow> string \<Rightarrow> ((string \<times> string), string list) dict \<Rightarrow> exn + ((string \<times> string), string list) dict" where
  "add_package env pkg path pkg_map =
     res_bind (find_checkout env path True) (\<lambda>c.
       res_bind (checkout_item c ''name'') (\<lambda>proj.
         res_bind (checkout_item c ''tracking_branch'') (\<lambda>ref.
           let k = (proj, StripRefs ref)
           in Inr (dict_set pkg_map k ((case dict_get pkg_map k of None \<Rightarrow> [] | Some l \<Rightarrow> l) @ [pkg])))))"

definition workon_package ::
    "environment \<Rightarrow> string \<Rightarrow> ebuild \<Rightarrow> ((string \<times> string), string list) dict \<Rightarrow> exn + ((string \<times> string), string list) dict" where
  "workon_package env buildroot e m =
     (if is_manually_uprevved e then Inr m
      else res_bind (GetSourceInfo env e (path_join buildroot [''src'']) True) (\<lambda>info.
             fold_res (add_package env (eb_package e)) (srcdirs info) m))"

definition BuildFullWorkonPackageDictionary ::
    "environment \<Rightarrow> tree \<Rightarrow> (string \<times> string list) list list \<Rightarrow> string \<Rightarrow> exn + ((string \<times> string), string list) dict" where
  "BuildFullWorkonPackageDictionary env t overlays buildroot =
     fold_res (for_workon_ebuilds env t False (workon_package env buildroot)) overlays []"

text \<open>\<open>GetWorkonProjectMap\<close>, given what \<open>os.walk\<close> yields for each of the subdirectories.\<close>

definition GetWorkonProjectMap ::
    "environment \<Rightarrow> tree \<Rightarrow> string \<Rightarrow> (string \<times> string list) list list \<Rightarrow> exn + (string \<times> string list \<times> string list) list" where
  "GetWorkonProjectMap env t overlay subdirectories =
     fold_res (for_workon_ebuilds env t False (\<lambda>e r.
         res_bind (GetCrosWorkonVars env t (ebuild_path e) (pkgname e)) (\<lambda>w.
           Inr (r @ [(relpath (ebuild_path e) overlay, project w, srcpath w)])))) subdirectories []"

text \<open>\<open>rsplit('/', 3)[-3:]\<close> of the path without its extension.\<close>

definition SplitEbuildPath :: "string \<Rightarrow> string list" where
  "SplitEbuildPath path = (let ps = split_on CHR ''/'' (splitext_root path) in drop (length ps - 3) ps)"

definition EbuildToCP :: "string \<Rightarrow> string" where
  "EbuildToCP path = (let ps = take 2 (SplitEbuildPath path) in path_join (hd ps) (tl ps))"

section \<open>What an uprev does\<close>

lemma uprev_sources_variables:
  assumes "uprev_sources env e srcroot reject_self_repo t = Inr src"
  shows "\<exists>commits trees. variables src = uprev_variables commits trees"
    "GetVersion env t e srcroot (if is_stable e then version_no_rev e else ''0.0.1'') = Inr (stable_version src)"
  using assms by (auto simp: uprev_sources_def Let_def res_bind_Inr uprev_variables_def split: if_splits)

text \<open>Every change to the files is at the path of the new revision.\<close>

definition same_but :: "string \<Rightarrow> tree \<Rightarrow> tree \<Rightarrow> bool" where
  "same_but p t t' \<longleftrightarrow> (\<forall>q. q \<noteq> p \<longrightarrow> t' q = t q)"

lemma keeps_ask [keeps_rules]: "keeps P (ask f)"
  by (simp add: keeps_def ask_def)

lemma keeps_write_file [keeps_rules]: "keeps (same_but p t) (write_file env p s)"
  by (simp add: keeps_def write_file_def same_but_def)

lemma keeps_copyfile [keeps_rules]: "keeps (same_but p t) (copyfile env src p)"
  by (auto simp: keeps_def copyfile_def write_file_def same_but_def split: sum.splits)

lemma keeps_unlink [keeps_rules]: "keeps (same_but p t) (unlink env p)"
  by (auto simp: keeps_def unlink_def same_but_def split: sum.splits)

lemma make_revision_frame:
  "keeps (same_but (revision_path e (stable_version src) (current_revision e + 1)) t) (make_revision env e src changed)"
  unfolding make_revision_def MarkAsStable_def UpdateEBuild_def Let_def by (intro keeps_rules)

lemma RevWork_cases:
  assumes "RevWorkOnEBuild env e srcroot reject_self_repo t = (r, t')"
  shows "t' = t \<and> (\<nexists>x. r = Inr (Some x)) \<or> (\<exists>src changed. uprev_sources env e srcroot reject_self_repo t = Inr src
    \<and> uprev_needed env e src t = Inr (changed, True) \<and> make_revision env e src changed t = (r, t'))"
  using assms
  by (auto simp: RevWorkOnEBuild_def act_bind_def ask_def split: sum.splits if_splits prod.splits)

lemma make_revision_Some:
  assumes "make_revision env e src changed t = (Inr (Some r), t')"
  shows "r = (eb_package e @ ''-'' @ stable_version src @ ''-r'' @ str_of_int (current_revision e + 1),
    revision_path e (stable_version src) (current_revision e + 1), if is_stable e then Some (ebuild_path e) else None)"
  using assms by (auto simp: make_revision_def Let_def act_bind_Inr split: if_splits)

text \<open>C19. An uprev leaves every file as it is but the one of the new revision, whatever its outcome.\<close>

theorem uprev_touches_only_new_revision:
  assumes "RevWorkOnEBuild env e srcroot reject_self_repo t = (r, t')" "t' p \<noteq> t p"
  shows "\<exists>src. uprev_sources env e srcroot reject_self_repo t = Inr src
    \<and> p = revision_path e (stable_version src) (current_revision e + 1)"
proof -
  from RevWork_cases[OF assms(1)] assms(2) obtain src changed
    where s: "uprev_sources env e srcroot reject_self_repo t = Inr src" "make_revision env e src changed t = (r, t')"
    by blast
  have "same_but (revision_path e (stable_version src) (current_revision e + 1)) t t'"
    using keepsD[OF make_revision_frame _ s(2)] by (simp add: same_but_def)
  with assms(2) s(1) show ?thesis by (auto simp: same_but_def)
qed

lemma revision_path_parts:
  assumes "EBuild env t path support = Inr e" "pkgname e \<noteq> []" "CHR ''/'' \<notin> set v"
  shows "split_path4 (revision_path e v (int n)) = Inr (eb_overlay e, eb_category e, pkgname e,
    pkgname e @ ''-'' @ v @ ''-r'' @ str_of_nat n @ ''.ebuild'')"
proof -
  obtain f where f: "split_path4 path = Inr (eb_overlay e, eb_category e, pkgname e, f)"
    "path_no_version e = path_join (dirname path) [pkgname e]"
    by (rule EBuild_parts[OF assms(1)]) blast
  note p = split_path4_parts[OF f(1)]
  let ?d = "eb_overlay e @ ''/'' @ eb_category e @ ''/'' @ pkgname e"
  have last: "last ?d \<noteq> CHR ''/''" using assms(2) p(3) last_in_set[of "pkgname e"] by (metis append_is_Nil_conv last_appendR)
  have d: "dirname path = ?d" using dirname_slash[OF p(4), of ?d] last p(1) by simp
  have ns: "\<not> startswith (pkgname e) ''/''" using p(3) by (auto simp: startswith_iff)
  have ne: "\<not> endswith ?d ''/''"
  proof
    assume "endswith ?d ''/''"
    then obtain u where "?d = u @ ''/''" by (auto simp: endswith_iff)
    with last show False by (metis last_snoc)
  qed
  have "path_no_version e = ?d @ ''/'' @ pkgname e" unfolding f(2) d using ns ne by simp
  moreover have "CHR ''/'' \<notin> set (str_of_nat n)" using str_of_nat_digits[of n] by (auto simp: list_all_iff)
  ultimately show ?thesis
    using split_path4_of[OF p(2,3), of "pkgname e @ ''-'' @ v @ ''-r'' @ str_of_nat n @ ''.ebuild''" "eb_overlay e"] p(3) assms(3)
    by (simp add: revision_path_def str_of_int_def)
qed

text \<open>C7. The uprev of a stable ebuild, without a version script, is the next revision: the file that
  is written has a name that parses to the same package and version with the revision one higher, which is
  newer as versions are compared; the result names it, and the old file to remove.\<close>

theorem uprev_new_revision:
  assumes "EBuild env t0 path support = Inr e" "pkgname e \<noteq> []" "CHR 0x0A \<notin> set (pkgname e)"
    and "is_stable e" "version_valid (version_no_rev e)" "\<not> path_exists env t (vers_script e)"
    and "RevWorkOnEBuild env e srcroot reject_self_repo t = (Inr (Some (pv, new_path, remove)), t')"
    and "EBuild env t' new_path support = Inr e'"
  shows "eb_package e' = eb_package e \<and> version_no_rev e' = version_no_rev e
    \<and> current_revision e' = current_revision e + 1 \<and> pv = eb_package e' @ ''-'' @ eb_version e'
    \<and> remove = Some path \<and> version_lt (eb_version e) (eb_version e') = Inr True"
proof -
  let ?v = "version_no_rev e"
  obtain f rv where f: "PACKAGE_VERSION_match f = Some (?v, rv)"
    "eb_version e = ?v @ (case rv of None \<Rightarrow> [] | Some r \<Rightarrow> r)"
    "current_revision e = (case rv of None \<Rightarrow> 0 | Some r \<Rightarrow> int (nat_of_digits (drop 2 r)))"
    "eb_package e = eb_category e @ ''/'' @ pkgname e" "ebuild_path e = path"
    by (rule EBuild_parts[OF assms(1)]) blast
  note v = PACKAGE_VERSION_parts[OF f(1)]
  define n where "n = (case rv of None \<Rightarrow> 0 | Some r \<Rightarrow> nat_of_digits (drop 2 r))"
  have n: "current_revision e = int n" using f(3) by (simp add: n_def split: option.splits)
  obtain src changed where src: "uprev_sources env e srcroot reject_self_repo t = Inr src"
    "make_revision env e src changed t = (Inr (Some (pv, new_path, remove)), t')"
    using RevWork_cases[OF assms(7)] by blast
  have "stable_version src = ?v"
    using uprev_sources_variables(2)[OF src(1)] assms(4,6) by (simp add: GetVersion_def)
  with make_revision_Some[OF src(2)] assms(4) f(5) n
  have new: "new_path = revision_path e ?v (int (Suc n))" "remove = Some path"
    "pv = eb_package e @ ''-'' @ ?v @ ''-r'' @ str_of_nat (Suc n)"
    by (simp_all add: str_of_int_def nat_add_distrib add.commute)
  have "CHR ''/'' \<notin> set ?v" using v(3) by (auto simp: list_all_iff)
  note s = revision_path_parts[OF assms(1,2) this, of "Suc n", folded new(1)]
  have m: "PACKAGE_VERSION_match (pkgname e @ ''-'' @ ?v @ ''-r'' @ str_of_nat (Suc n) @ ''.ebuild'') = Some (?v, Some (''-r'' @ str_of_nat (Suc n)))"
    using PACKAGE_VERSION_revised[OF assms(3) v(1-3) str_of_nat_not_Nil str_of_nat_digits] by simp
  obtain f' rv' where f': "split_path4 new_path = Inr (eb_overlay e', eb_category e', pkgname e', f')"
    "PACKAGE_VERSION_match f' = Some (version_no_rev e', rv')"
    "eb_version e' = version_no_rev e' @ (case rv' of None \<Rightarrow> [] | Some r \<Rightarrow> r)"
    "current_revision e' = (case rv' of None \<Rightarrow> 0 | Some r \<Rightarrow> int (nat_of_digits (drop 2 r)))"
    "eb_package e' = eb_category e' @ ''/'' @ pkgname e'"
    by (rule EBuild_parts[OF assms(8)]) blast
  have eq: "eb_category e' = eb_category e" "pkgname e' = pkgname e"
    "f' = pkgname e @ ''-'' @ ?v @ ''-r'' @ str_of_nat (Suc n) @ ''.ebuild''"
    using trans[OF sym[OF f'(1)] s] by simp_all
  from eq(3) f'(2) m have e': "version_no_rev e' = ?v" "rv' = Some (''-r'' @ str_of_nat (Suc n))" by simp_all
  have "version_lt (eb_version e) (eb_version e') = Inr True"
    using newer_revision[OF assms(5) v(3,4), of "Suc n"] unfolding f(2) f'(3) e' by (simp add: n_def)
  then show ?thesis using f'(3-5) e' eq(1,2) new(2,3) f(4) n by simp
qed
lemma read_same_but:
  "read_file env p t = Inr s \<longleftrightarrow> t p = Some s"
  by (auto simp: read_file_def split: option.splits)

lemma MarkAsStable_new:
  assumes "t unstable = Some doc" "t new = None" "\<not> is_dir env new"
  shows "MarkAsStable env unstable new vs b t = (Inr (), t(new \<mapsto> UpdateEBuild_text vs b doc))"
proof -
  have "unstable \<noteq> new" using assms by auto
  then have "copyfile env unstable new t = (Inr (), t(new \<mapsto> doc))"
    using assms by (simp add: copyfile_def read_file_def write_file_def)
  then show ?thesis
    using assms(3) by (simp add: MarkAsStable_def UpdateEBuild_def act_bind_def ask_def read_file_def write_file_def)
qed

lemma RevWork_trees:
  assumes "uprev_sources env e srcroot reject_self_repo t = Inr src" "uprev_needed env e src t = Inr (False, True)"
    and "t (unstable_path e) = Some doc" "\<exists>l \<in> set (splitlines doc). \<not> blank_or_eapi l"
    and "t (ebuild_path e) = Some (UpdateEBuild_text (uprev_variables commits trees) True doc)"
    and "variables src = uprev_variables commits' trees'"
    and "line_free commits" "line_free trees" "line_free commits'" "line_free trees'"
    and "new_path = revision_path e (stable_version src) (current_revision e + 1)"
    and "t new_path = None" "\<not> is_dir env new_path"
  shows "RevWorkOnEBuild env e srcroot reject_self_repo t =
    (if trees' = trees then (Inr None, t)
     else (Inr (Some (eb_package e @ ''-'' @ stable_version src @ ''-r'' @ str_of_int (current_revision e + 1), new_path,
                      if is_stable e then Some (ebuild_path e) else None)),
           t(new_path \<mapsto> UpdateEBuild_text (uprev_variables commits' trees') True doc)))"
proof -
  have there: "path_exists env t (unstable_path e)" using assms(3) by (simp add: path_exists_def)
  let ?new = "UpdateEBuild_text (uprev_variables commits' trees') True doc"
  have ne: "ebuild_path e \<noteq> new_path" using assms(5,12) by auto
  have body: "body_lines doc \<noteq> []" using assms(4) by (auto simp: body_lines_def)
  have run: "RevWorkOnEBuild env e srcroot reject_self_repo t = make_revision env e src False t"
    using assms(1,2) there by (simp add: RevWorkOnEBuild_def act_bind_def ask_def)
  have mark: "MarkAsStable env (unstable_path e) new_path (variables src) True t = (Inr (), t(new_path \<mapsto> ?new))"
    unfolding assms(6) by (rule MarkAsStable_new[OF assms(3,12,13)])
  have same: "same_ebuilds env (ebuild_path e) new_path (t(new_path \<mapsto> ?new)) = Inr (trees' = trees)"
    using ne assms(5) AlmostSame_uprev[OF assms(7-10) body, of True]
    by (auto simp: same_ebuilds_def read_file_def)
  have un: "unlink env new_path (t(new_path \<mapsto> ?new)) = (Inr (), t)"
    using assms(12) by (simp add: unlink_def read_file_def fun_upd_idem)
  show ?thesis
    unfolding run make_revision_def Let_def assms(11)[symmetric]
    by (cases "trees' = trees") (use mark same un in \<open>simp_all add: act_bind_def ask_def\<close>)
qed

text \<open>C6. When the unstable ebuild is as it was, an uprev that reaches the comparison makes a new
  revision exactly if the trees of the sources differ from those of the current revision: otherwise the
  files are as before, even if the commits differ.\<close>

theorem uprev_follows_trees:
  assumes "uprev_sources env e srcroot reject_self_repo t = Inr src" "uprev_needed env e src t = Inr (False, True)"
    and "t (unstable_path e) = Some doc" "\<exists>l \<in> set (splitlines doc). \<not> blank_or_eapi l"
    and "t (ebuild_path e) = Some (UpdateEBuild_text (uprev_variables commits trees) True doc)"
    and "variables src = uprev_variables commits' trees'"
    and "line_free commits" "line_free trees" "line_free commits'" "line_free trees'"
    and "new_path = revision_path e (stable_version src) (current_revision e + 1)"
    and "t new_path = None" "\<not> is_dir env new_path"
  shows "RevWorkOnEBuild env e srcroot reject_self_repo t =
    (if trees' = trees then (Inr None, t)
     else (Inr (Some (eb_package e @ ''-'' @ stable_version src @ ''-r'' @ str_of_int (current_revision e + 1), new_path,
                      if is_stable e then Some (ebuild_path e) else None)),
           t(new_path \<mapsto> UpdateEBuild_text (uprev_variables commits' trees') True doc)))"
  by (rule RevWork_trees) fact+

section \<open>The choice\<close>

text \<open>The ebuilds among the paths that may be uprevved.\<close>

definition eligible :: "environment \<Rightarrow> tree \<Rightarrow> bool \<Rightarrow> bool \<Rightarrow> string list \<Rightarrow> ebuild list" where
  "eligible env t allow_manual_uprev support paths =
     List.map_filter (\<lambda>path.
       if endswith path ''.ebuild'' \<and> \<not> is_link env path
       then (case EBuild env t path support of
               Inl _ \<Rightarrow> None
             | Inr e \<Rightarrow> if is_workon e \<and> (is_manually_uprevved e \<longrightarrow> allow_manual_uprev) then Some e else None)
       else None) paths"

lemma candidate_step_eligible:
  assumes "candidate_step env t allow support path (ss, us, m) = Inr (ss', us', m')"
  shows "ss' = ss @ filter is_stable (eligible env t allow support [path])
    \<and> us' = us @ filter (\<lambda>e. \<not> is_stable e) (eligible env t allow support [path])"
  using assms
  by (cases "EBuild env t path support")
    (auto simp: candidate_step_def eligible_def List.map_filter_simps split: if_splits)

lemma candidates_eligible:
  "fold_res (candidate_step env t allow support) paths (ss, us, m) = Inr (ss', us', m')
   \<Longrightarrow> ss' = ss @ filter is_stable (eligible env t allow support paths)
     \<and> us' = us @ filter (\<lambda>e. \<not> is_stable e) (eligible env t allow support paths)"
proof (induction paths arbitrary: ss us m)
  case Nil
  then show ?case by (simp add: eligible_def List.map_filter_simps)
next
  case (Cons path paths)
  obtain s u n where c: "candidate_step env t allow support path (ss, us, m) = Inr (s, u, n)"
    using Cons.prems by (cases "candidate_step env t allow support path (ss, us, m)") auto
  have "eligible env t allow support (path # paths) = eligible env t allow support [path] @ eligible env t allow support paths"
    by (simp add: eligible_def List.map_filter_def)
  then show ?case using Cons.IH[of s u n] Cons.prems c candidate_step_eligible[OF c] by simp
qed

lemma max_revision_max:
  assumes "es \<noteq> []"
  shows "max_revision es \<in> set es" "e \<in> set es \<Longrightarrow> current_revision e \<le> current_revision (max_revision es)"
proof -
  let ?f = "\<lambda>b e. if current_revision b < current_revision e then e else b"
  have main: "foldl ?f b xs \<in> insert b (set xs) \<and> (\<forall>e \<in> insert b (set xs). current_revision e \<le> current_revision (foldl ?f b xs))" for b xs
  proof (induction xs arbitrary: b)
    case (Cons x xs)
    from Cons.IH[of "?f b x"] show ?case by (auto split: if_splits)
  qed simp
  obtain x xs where "es = x # xs" using assms by (cases es) auto
  with main[of x xs] show "max_revision es \<in> set es" "e \<in> set es \<Longrightarrow> current_revision e \<le> current_revision (max_revision es)"
    by (auto simp: max_revision_def)
qed

lemma choose_candidate_Some:
  assumes "choose_candidate (ss, us, m) = Inr (Some e)"
  shows "length us = 1" "ss = [] \<and> e = hd us \<or> ss \<noteq> [] \<and> e \<in> set ss
    \<and> (\<forall>e' \<in> set ss. version_no_rev e' = version_no_rev e \<and> current_revision e' \<le> current_revision e)"
proof -
  have us: "us \<noteq> []" "\<not> length us > 1" using assms unfolding choose_candidate_def by (simp_all split: if_splits)
  then show "length us = 1" by (cases us) simp_all
  have c: "(if ss = [] then Inr (Some (hd us)) else if length ss = 1 then Inr (Some (hd ss))
      else if length (remdups (map version_no_rev ss)) > 1 then Inl (raised ''Error'')
      else Inr (Some (max_revision ss))) = (Inr (Some e) :: exn + ebuild option)"
    using assms us by (simp add: choose_candidate_def)
  consider (none) "ss = []" | (one) s where "ss = [s]" | (many) "ss \<noteq> []" "length ss \<noteq> 1"
    by (cases ss; cases "tl ss") simp_all
  then show "ss = [] \<and> e = hd us \<or> ss \<noteq> [] \<and> e \<in> set ss
    \<and> (\<forall>e' \<in> set ss. version_no_rev e' = version_no_rev e \<and> current_revision e' \<le> current_revision e)"
  proof cases
    case many
    then have "\<not> length (remdups (map version_no_rev ss)) > 1 \<and> e = max_revision ss"
      using c by (simp split: if_splits)
    then have one: "card (set (map version_no_rev ss)) \<le> Suc 0" "e = max_revision ss"
      using length_remdups_card_conv[of "map version_no_rev ss"] by linarith+
    have "a = b" if "a \<in> set (map version_no_rev ss)" "b \<in> set (map version_no_rev ss)" for a b
      using one(1) that card_le_Suc0_iff_eq[of "set (map version_no_rev ss)"] by blast
    then have "\<forall>e' \<in> set ss. version_no_rev e' = version_no_rev (max_revision ss)"
      using max_revision_max(1)[OF many(1)] by (metis image_eqI image_set)
    then show ?thesis using max_revision_max[OF many(1)] many(1) unfolding one(2) by blast
  next
    case one
    then show ?thesis using c by simp
  qed (use c in simp)
qed

text \<open>C12. The ebuild that is chosen for an uprev is one of those that may be uprevved, next to exactly one
  unstable ebuild; if there are stable ones it is stable, and they all have its version and no later revision.\<close>

theorem candidate_newest:
  assumes "FindUprevCandidates env t paths allow_manual_uprev support = Inr (Some e)"
  shows "e \<in> set (eligible env t allow_manual_uprev support paths)
    \<and> length (filter (\<lambda>e. \<not> is_stable e) (eligible env t allow_manual_uprev support paths)) = 1
    \<and> (\<forall>e' \<in> set (eligible env t allow_manual_uprev support paths). is_stable e' \<longrightarrow>
         is_stable e \<and> version_no_rev e' = version_no_rev e \<and> current_revision e' \<le> current_revision e)"
proof -
  let ?es = "eligible env t allow_manual_uprev support paths"
  obtain ss us m where f: "fold_res (candidate_step env t allow_manual_uprev support) paths ([], [], False) = Inr (ss, us, m)"
    and c: "choose_candidate (ss, us, m) = Inr (Some e)"
    using assms by (auto simp: FindUprevCandidates_def res_bind_Inr)
  from candidates_eligible[OF f] have es: "ss = filter is_stable ?es" "us = filter (\<lambda>e. \<not> is_stable e) ?es" by simp_all
  note ch = choose_candidate_Some[OF c]
  show ?thesis
  proof (cases "ss = []")
    case True
    then have "e = hd us" using ch(2) by simp
    moreover have "us \<noteq> []" using ch(1) by (cases us) simp_all
    ultimately have "e \<in> set us" by simp
    moreover have "\<forall>e' \<in> set ?es. \<not> is_stable e'" using True es(1) by (simp add: filter_empty_conv)
    ultimately show ?thesis using ch(1) unfolding es(2) by simp
  next
    case False
    then have e: "e \<in> set ss" and all: "\<forall>e' \<in> set ss. version_no_rev e' = version_no_rev e \<and> current_revision e' \<le> current_revision e"
      using ch(2) by blast+
    from e have "e \<in> set ?es" "is_stable e" unfolding es(1) by simp_all
    moreover have "version_no_rev e' = version_no_rev e \<and> current_revision e' \<le> current_revision e"
      if "e' \<in> set ?es" "is_stable e'" for e' using all that unfolding es(1) by simp
    ultimately show ?thesis using ch(1) unfolding es(2) by blast
  qed
qed
section \<open>Examples\<close>

definition example_stable :: ebuild where
  "example_stable =
     \<lparr>subdir_support = False, eb_overlay = ''/s/ov'', eb_category = ''chromeos-base'', pkgname = ''pkg'',
      eb_version = ''0.0.1-r1'', version_no_rev = ''0.0.1'', current_revision = 1, eb_package = ''chromeos-base/pkg'',
      path_no_version = ''/s/ov/chromeos-base/pkg/pkg'', path_no_revision = ''/s/ov/chromeos-base/pkg/pkg-0.0.1'',
      unstable_path = example_unstable, ebuild_path = example_old,
      attributes = \<lparr>cl_workon = True, cl_stable = True, cl_manual = False, cl_test = False\<rparr>,
      cros_workon_vars = Some example_vars\<rparr>"

definition example_revised :: ebuild where
  "example_revised = example_stable\<lparr>eb_version := ''0.0.1-r2'', current_revision := 2, ebuild_path := example_new\<rparr>"

definition example_source :: uprev_source where
  "example_source =
     \<lparr>stable_version = ''0.0.1'', commit_ids = [''c2''], source_dirs = [''/s/src/pkg''],
      variables = uprev_variables (quoted ''c2'') (quoted ''t2'')\<rparr>"

definition example_revised_tree :: tree where
  "example_revised_tree =
     example_tree(example_new \<mapsto> UpdateEBuild_text (uprev_variables (quoted ''c2'') (quoted ''t2'')) True example_ebuild)"

lemma example_EBuild: "EBuild example_environment example_tree example_old False = Inr example_stable"
  by code_simp

lemma example_EBuild_new: "EBuild example_environment example_revised_tree example_new False = Inr example_revised"
  by code_simp

lemma example_sources: "uprev_sources example_environment example_stable ''/s/src'' True example_tree = Inr example_source"
  by code_simp

lemma example_needed: "uprev_needed example_environment example_stable example_source example_tree = Inr (False, True)"
  by code_simp

lemma example_files:
  "example_tree (unstable_path example_stable) = Some example_ebuild"
  "example_tree (ebuild_path example_stable)
     = Some (UpdateEBuild_text (uprev_variables (quoted ''c1'') (quoted ''t1'')) True example_ebuild)"
  "variables example_source = uprev_variables (quoted ''c2'') (quoted ''t2'')"
  "line_free (quoted ''c1'')" "line_free (quoted ''t1'')" "line_free (quoted ''c2'')" "line_free (quoted ''t2'')"
  "example_new = revision_path example_stable (stable_version example_source) (current_revision example_stable + 1)"
  "example_tree example_new = None" "\<not> is_dir example_environment example_new"
  by code_simp+

lemmas example_uprev =
  RevWork_trees[OF example_sources example_needed example_files(1) example_body example_files(2-10)]

lemma example_result:
  "RevWorkOnEBuild example_environment example_stable ''/s/src'' True example_tree =
     (Inr (Some (''chromeos-base/pkg-0.0.1-r2'', example_new, Some example_old)), example_revised_tree)"
proof -
  have "quoted ''t2'' \<noteq> quoted ''t1''"
    "eb_package example_stable @ ''-'' @ stable_version example_source @ ''-r'' @ str_of_int (current_revision example_stable + 1)
      = ''chromeos-base/pkg-0.0.1-r2''" "is_stable example_stable" "ebuild_path example_stable = example_old" by code_simp+
  with example_uprev show ?thesis by (simp add: example_revised_tree_def)
qed

lemma uprev_touches_only_new_revision_witness:
  "\<exists>src. uprev_sources example_environment example_stable ''/s/src'' True example_tree = Inr src
     \<and> example_new = revision_path example_stable (stable_version src) (current_revision example_stable + 1)"
  by (rule uprev_touches_only_new_revision[OF example_result])
    (simp add: example_revised_tree_def example_files(9))

lemma uprev_new_revision_witness:
  "version_lt (eb_version example_stable) (eb_version example_revised) = Inr True
     \<and> current_revision example_revised = current_revision example_stable + 1"
proof -
  have "pkgname example_stable \<noteq> []" "CHR 0x0A \<notin> set (pkgname example_stable)" "is_stable example_stable"
    "version_valid (version_no_rev example_stable)" "\<not> path_exists example_environment example_tree (vers_script example_stable)"
    by code_simp+
  from uprev_new_revision[OF example_EBuild this example_result example_EBuild_new] show ?thesis by blast
qed

lemma uprev_follows_trees_witness:
  "RevWorkOnEBuild example_environment example_stable ''/s/src'' True example_tree =
     (if quoted ''t2'' = quoted ''t1'' then (Inr None, example_tree)
      else (Inr (Some (eb_package example_stable @ ''-'' @ stable_version example_source @ ''-r''
                         @ str_of_int (current_revision example_stable + 1), example_new,
                       if is_stable example_stable then Some (ebuild_path example_stable) else None)),
            example_revised_tree))
   \<and> quoted ''t2'' \<noteq> quoted ''t1''"
  using uprev_follows_trees[OF example_sources example_needed example_files(1) example_body example_files(2-10)]
  by (simp add: example_revised_tree_def quoted_def)

lemma candidate_newest_witness:
  "example_stable \<in> set (eligible example_environment example_tree False False [example_unstable, example_old])"
proof -
  have "FindUprevCandidates example_environment example_tree [example_unstable, example_old] False False
    = Inr (Some example_stable)" by code_simp
  from candidate_newest[OF this] show ?thesis by blast
qed

end
