(* ===== verification/Json.thy ===== *)
theory Json
  imports Store
begin

text \<open>
  Python's \<open>json\<close> module as \<open>lib/config_lib.py\<close> uses it: \<open>json.dumps\<close> with \<open>sort_keys=True\<close>,
  \<open>indent=4\<close> and \<open>separators=(',', ': ')\<close>, and \<open>json.loads\<close>. An object is a \<open>dict\<close> with string
  keys, in order; code points above 255 and numbers that are not integers are outside the
  model, and reading one of them is the error \<open>NotModelled\<close>. The parser takes fuel because its
  recursion follows the nesting of the text: \<open>loads_returns\<close> shows that twice the length of
  the text is enough for every text. \<open>loads_dumps\<close> is the round trip.
\<close>

datatype json =
    JNull | JBool bool | JInt int | JString string | JArray "json list"
  | JObject "(string \<times> json) list"

section \<open>Printing\<close>

text \<open>\<open>ESCAPE_DCT\<close>: the characters with an escape of their own.\<close>

definition escapes :: "(char \<times> char) list" where
  "escapes = [(CHR 0x22, CHR 0x22), (CHR 0x5C, CHR 0x5C), (CHR 0x0A, CHR ''n''), (CHR 0x0D, CHR ''r''),
     (CHR 0x09, CHR ''t''), (CHR 0x0C, CHR ''f''), (CHR 0x08, CHR ''b'')]"

definition hex_char :: "nat \<Rightarrow> char" where
  "hex_char n = (if n < 10 then char_of (48 + n) else char_of (87 + n))"

definition escape_char :: "char \<Rightarrow> string" where
  "escape_char c =
     (case map_of escapes c of
        Some e \<Rightarrow> [CHR 0x5C, e]
      | None \<Rightarrow>
          if 32 \<le> py_ord c \<and> py_ord c \<le> 126 then [c]
          else [CHR 0x5C, CHR ''u'', CHR ''0'', CHR ''0'', hex_char (py_ord c div 16), hex_char (py_ord c mod 16)])"

definition print_string :: "string \<Rightarrow> string" where
  "print_string s = CHR 0x22 # concat (map escape_char s) @ [CHR 0x22]"

text \<open>A line break followed by the indentation of a nesting depth.\<close>

definition newline_indent :: "nat \<Rightarrow> string" where
  "newline_indent n = CHR 0x0A # replicate (4 * n) (CHR '' '')"

definition print_seq :: "nat \<Rightarrow> char \<Rightarrow> char \<Rightarrow> string list \<Rightarrow> string" where
  "print_seq n a b ts =
     (if ts = [] then [a, b]
      else a # newline_indent (Suc n) @ join (CHR '','' # newline_indent (Suc n)) ts @ newline_indent n @ [b])"

definition print_member :: "string \<Rightarrow> string \<Rightarrow> string" where
  "print_member k t = print_string k @ '': '' @ t"

primrec print_json :: "json \<Rightarrow> nat \<Rightarrow> string" where
  "print_json JNull = (\<lambda>n. ''null'')"
| "print_json (JBool b) = (\<lambda>n. if b then ''true'' else ''false'')"
| "print_json (JInt i) = (\<lambda>n. str_of_int i)"
| "print_json (JString s) = (\<lambda>n. print_string s)"
| "print_json (JArray vs) = (\<lambda>n. print_seq n CHR ''['' CHR '']'' (map (\<lambda>p. p (Suc n)) (map print_json vs)))"
| "print_json (JObject kvs) =
     (\<lambda>n. print_seq n CHR ''{'' CHR ''}''
        (map (\<lambda>(k, p). print_member k (p (Suc n))) (map (map_prod id print_json) kvs)))"

text \<open>\<open>sort_keys\<close>: every object in the order of its keys.\<close>

primrec sort_json :: "json \<Rightarrow> json" where
  "sort_json JNull = JNull"
| "sort_json (JBool b) = JBool b"
| "sort_json (JInt i) = JInt i"
| "sort_json (JString s) = JString s"
| "sort_json (JArray vs) = JArray (map sort_json vs)"
| "sort_json (JObject kvs) = JObject (sort_key fst (map (map_prod id sort_json) kvs))"

definition dumps :: "json \<Rightarrow> string" where
  "dumps v = print_json (sort_json v) 0"

section \<open>Parsing\<close>

abbreviation decode_error :: "py_error + 'a" where
  "decode_error \<equiv> Inl (Raised ''JSONDecodeError'')"

abbreviation not_modelled :: "py_error + 'a" where
  "not_modelled \<equiv> Inl (Raised ''NotModelled'')"

definition is_json_space :: "char \<Rightarrow> bool" where
  "is_json_space c \<longleftrightarrow> py_ord c \<in> set [32, 9, 10, 13]"

definition skip_ws :: "string \<Rightarrow> string" where
  "skip_ws s = dropWhile is_json_space s"

definition hex_val :: "char \<Rightarrow> nat option" where
  "hex_val c =
     (if is_digit c then Some (py_ord c - 48)
      else if 97 \<le> py_ord c \<and> py_ord c \<le> 102 then Some (py_ord c - 87)
      else if 65 \<le> py_ord c \<and> py_ord c \<le> 70 then Some (py_ord c - 55) else None)"

text \<open>The code point of four hexadecimal digits, when it is below 256.\<close>

definition hex_code :: "char \<Rightarrow> char \<Rightarrow> char \<Rightarrow> char \<Rightarrow> char res" where
  "hex_code a b c d =
     (case (hex_val a, hex_val b, hex_val c, hex_val d) of
        (Some a', Some b', Some c', Some d') \<Rightarrow>
          if a' = 0 \<and> b' = 0 then Inr (char_of (16 * c' + d')) else not_modelled
      | _ \<Rightarrow> decode_error)"

definition unescape_char :: "char \<Rightarrow> char option" where
  "unescape_char e = (if e = CHR ''/'' then Some e else map_of (map (\<lambda>(c, e). (e, c)) escapes) e)"

text \<open>\<open>scanstring\<close> of \<open>json.decoder\<close>: the text after an opening quote, up to the closing one.\<close>

definition scan_escape :: "string \<Rightarrow> (char \<times> string) res" where
  "scan_escape s =
     (case s of
        [] \<Rightarrow> decode_error
      | e # t \<Rightarrow>
          if e = CHR ''u''
          then (case t of
                  a # b # x # y # r \<Rightarrow> res_bind (hex_code a b x y) (\<lambda>d. Inr (d, r))
                | _ \<Rightarrow> decode_error)
          else (case unescape_char e of None \<Rightarrow> decode_error | Some d \<Rightarrow> Inr (d, t)))"

lemma scan_escape_length: "scan_escape s = Inr (d, r) \<Longrightarrow> length r < length s"
  by (auto simp: scan_escape_def res_bind_Inr split: list.splits if_splits option.splits)

function scan_string :: "string \<Rightarrow> (string \<times> string) res" where
  "scan_string [] = decode_error"
| "scan_string (c # s) =
     (if c = CHR 0x22 then Inr ([], s)
      else if c = CHR 0x5C
      then (case scan_escape s of
              Inl e \<Rightarrow> Inl e
            | Inr (d, t) \<Rightarrow> res_bind (scan_string t) (\<lambda>(v, u). Inr (d # v, u)))
      else if py_ord c < 32 then decode_error
      else res_bind (scan_string s) (\<lambda>(v, u). Inr (c # v, u)))"
  by pat_completeness auto
termination by (relation "measure length") (auto dest!: scan_escape_length)

text \<open>\<open>NUMBER_RE\<close> without its fraction and its exponent, and whether one of these follows.\<close>

definition number_digits :: "string \<Rightarrow> string" where
  "number_digits s = (if s \<noteq> [] \<and> hd s = CHR ''0'' then ''0'' else takeWhile is_digit s)"

definition starts_digit :: "string \<Rightarrow> bool" where
  "starts_digit s \<longleftrightarrow> s \<noteq> [] \<and> is_digit (hd s)"

definition is_fraction :: "string \<Rightarrow> bool" where
  "is_fraction s =
     (case s of
        [] \<Rightarrow> False
      | c # r \<Rightarrow>
          (c = CHR ''.'' \<and> starts_digit r)
          \<or> (c \<in> set ''eE'' \<and> (starts_digit r \<or> (r \<noteq> [] \<and> hd r \<in> set ''+-'' \<and> starts_digit (tl r)))))"

definition scan_number :: "string \<Rightarrow> (json \<times> string) res" where
  "scan_number s =
     (let neg = (s \<noteq> [] \<and> hd s = CHR ''-'');
          t = (if neg then tl s else s);
          ds = number_digits t;
          r = drop (length ds) t
      in if ds = [] then (if startswith t ''Infinity'' then not_modelled else decode_error)
         else if is_fraction r then not_modelled
         else Inr (JInt (if neg then - int (nat_of_digits ds) else int (nat_of_digits ds)), r))"

definition scan_atom :: "string \<Rightarrow> (json \<times> string) res" where
  "scan_atom s =
     (if startswith s ''null'' then Inr (JNull, drop 4 s)
      else if startswith s ''true'' then Inr (JBool True, drop 4 s)
      else if startswith s ''false'' then Inr (JBool False, drop 5 s)
      else if startswith s ''NaN'' then not_modelled
      else scan_number s)"

text \<open>After a member: the closing character \<open>b\<close>, or a comma and the next member.\<close>

definition after_item :: "char \<Rightarrow> string \<Rightarrow> string \<Rightarrow> (string \<Rightarrow> ('a list \<times> string) res) \<Rightarrow> 'a \<Rightarrow> ('a list \<times> string) res" where
  "after_item b s0 s next_items x =
     (case skip_ws s of
        [] \<Rightarrow> decode_error
      | c # r \<Rightarrow>
          if c = b then Inr ([x], r)
          else if c = CHR '','' then res_bind (next_items (skip_ws r)) (\<lambda>(xs, u). Inr (x # xs, u))
          else decode_error)"

text \<open>The empty array or object, and what follows a member: the closing character \<open>b\<close>
  (\<open>True\<close>), or a comma (\<open>False\<close>).\<close>

definition closed :: "char \<Rightarrow> string \<Rightarrow> string option" where
  "closed b s = (case s of [] \<Rightarrow> None | c # r \<Rightarrow> if c = b then Some r else None)"

definition item_end :: "char \<Rightarrow> string \<Rightarrow> (bool \<times> string) res" where
  "item_end b s =
     (case skip_ws s of
        [] \<Rightarrow> decode_error
      | c # r \<Rightarrow>
          if c = b then Inr (True, r) else if c = CHR '','' then Inr (False, skip_ws r) else decode_error)"

text \<open>A key with its colon.\<close>

definition scan_key :: "string \<Rightarrow> (string \<times> string) res" where
  "scan_key s =
     (case closed CHR 0x22 s of
        None \<Rightarrow> decode_error
      | Some t \<Rightarrow>
          res_bind (scan_string t) (\<lambda>(k, r).
            case closed CHR '':'' (skip_ws r) of None \<Rightarrow> decode_error | Some u \<Rightarrow> Inr (k, skip_ws u)))"

fun parse_value :: "nat \<Rightarrow> string \<Rightarrow> (json \<times> string) res"
and parse_elements :: "nat \<Rightarrow> string \<Rightarrow> (json list \<times> string) res"
and parse_members :: "nat \<Rightarrow> string \<Rightarrow> ((string \<times> json) list \<times> string) res" where
  "parse_value 0 s = Inl RecursionError"
| "parse_value (Suc n) s =
     (case s of
        [] \<Rightarrow> decode_error
      | c # r \<Rightarrow>
          if c = CHR 0x22 then res_bind (scan_string r) (\<lambda>(v, u). Inr (JString v, u))
          else if c = CHR ''{''
          then (case closed CHR ''}'' (skip_ws r) of
                  Some u \<Rightarrow> Inr (JObject [], u)
                | None \<Rightarrow> res_bind (parse_members n (skip_ws r)) (\<lambda>(ms, u). Inr (JObject (dict_update [] ms), u)))
          else if c = CHR ''[''
          then (case closed CHR '']'' (skip_ws r) of
                  Some u \<Rightarrow> Inr (JArray [], u)
                | None \<Rightarrow> res_bind (parse_elements n (skip_ws r)) (\<lambda>(vs, u). Inr (JArray vs, u)))
          else scan_atom s)"
| "parse_elements 0 s = Inl RecursionError"
| "parse_elements (Suc n) s =
     res_bind (parse_value n s) (\<lambda>(v, r).
       res_bind (item_end CHR '']'' r) (\<lambda>(fin, t).
         if fin then Inr ([v], t)
         else res_bind (parse_elements n t) (\<lambda>(vs, u). Inr (v # vs, u))))"
| "parse_members 0 s = Inl RecursionError"
| "parse_members (Suc n) s =
     res_bind (scan_key s) (\<lambda>(k, q).
       res_bind (parse_value n q) (\<lambda>(v, r).
         res_bind (item_end CHR ''}'' r) (\<lambda>(fin, t).
           if fin then Inr ([(k, v)], t)
           else res_bind (parse_members n t) (\<lambda>(ms, u). Inr ((k, v) # ms, u)))))"

definition loads :: "string \<Rightarrow> json res" where
  "loads s =
     res_bind (parse_value (2 * length s + 2) (skip_ws s)) (\<lambda>(v, r).
       if skip_ws r = [] then Inr v else decode_error)"


section \<open>Strings round trip\<close>

lemma hex_val_hex_char: "n < 16 \<Longrightarrow> hex_val (hex_char n) = Some n"
  by (auto simp: hex_val_def hex_char_def is_digit_def py_ord_def)

lemma py_ord_less: "py_ord c < 256"
  using range_nat_of_char by (auto simp: py_ord_def)

lemma hex_code_ord: "hex_code CHR ''0'' CHR ''0'' (hex_char (py_ord c div 16)) (hex_char (py_ord c mod 16)) = Inr c"
proof -
  have "hex_val CHR ''0'' = Some 0" by (simp add: hex_val_def is_digit_def py_ord_def)
  moreover have "py_ord c div 16 < 16" using py_ord_less[of c] by simp
  moreover have "char_of (16 * (py_ord c div 16) + py_ord c mod 16) = c"
    by (simp add: py_ord_def)
  ultimately show ?thesis by (simp add: hex_code_def hex_val_hex_char)
qed

lemma escapes_unescape:
  "map_of escapes c = Some e \<Longrightarrow> unescape_char e = Some c \<and> e \<noteq> CHR ''u''"
  by (auto simp: escapes_def unescape_char_def split: if_splits)

lemma escapes_None: "map_of escapes c = None \<Longrightarrow> c \<noteq> CHR 0x22 \<and> c \<noteq> CHR 0x5C"
  by (auto simp: escapes_def split: if_splits)

lemma scan_escape_ord:
  "scan_escape (CHR ''u'' # CHR ''0'' # CHR ''0'' # hex_char (py_ord c div 16) # hex_char (py_ord c mod 16) # s)
     = Inr (c, s)"
  by (simp add: scan_escape_def hex_code_ord)

lemma scan_escape_char:
  "scan_string (escape_char c @ s) = res_bind (scan_string s) (\<lambda>(v, u). Inr (c # v, u))"
proof (cases "map_of escapes c")
  case None
  then show ?thesis
    using escapes_None[OF None] by (simp add: escape_char_def scan_escape_ord)
next
  case (Some e)
  then show ?thesis using escapes_unescape[OF Some] by (simp add: escape_char_def scan_escape_def)
qed

lemma scan_print_chars:
  "scan_string (concat (map escape_char t) @ CHR 0x22 # s) = Inr (t, s)"
  by (induction t) (simp_all add: scan_escape_char del: scan_string.simps(2) add: scan_string.simps(2)[of "CHR 0x22"])

section \<open>Numbers round trip\<close>

text \<open>What may follow a printed number: nothing that continues it.\<close>

definition number_end :: "string \<Rightarrow> bool" where
  "number_end s \<longleftrightarrow> \<not> starts_digit s \<and> \<not> is_fraction s"

lemma number_end_simps [simp]:
  "number_end []" "number_end (CHR '','' # s)" "number_end (CHR 0x0A # s)"
  by (simp_all add: number_end_def starts_digit_def is_fraction_def)

lemma digit_char_0: "n < 10 \<Longrightarrow> digit_char n = CHR ''0'' \<longleftrightarrow> n = 0"
  unfolding py_ord_inj[symmetric] by (simp add: py_ord_digit_char) (simp add: py_ord_def)

lemma str_of_nat_hd_0: "hd (str_of_nat n) = CHR ''0'' \<longleftrightarrow> n = 0"
proof (induction n rule: str_of_nat.induct)
  case (1 n)
  show ?case
  proof (cases "n < 10")
    case True
    then show ?thesis by (subst str_of_nat.simps) (simp add: digit_char_0)
  next
    case False
    then show ?thesis using 1 by (subst str_of_nat.simps) simp
  qed
qed

lemma str_of_nat_0: "str_of_nat 0 = ''0''"
  using digit_char_0[of 0] by (subst str_of_nat.simps) simp

lemma number_digits_str_of_nat:
  assumes "number_end s" shows "number_digits (str_of_nat n @ s) = str_of_nat n"
proof (cases "n = 0")
  case True
  then show ?thesis by (simp add: number_digits_def str_of_nat_0)
next
  case False
  moreover have "takeWhile is_digit (str_of_nat n @ s) = str_of_nat n"
    using assms by (intro span_append(1)[OF str_of_nat_digits]) (auto simp: number_end_def starts_digit_def)
  ultimately show ?thesis
    using str_of_nat_hd_0[of n] by (simp add: number_digits_def hd_append)
qed

lemma str_of_nat_hd_digit: "is_digit (hd (str_of_nat n))"
  using str_of_nat_digits[of n] by (cases "str_of_nat n") simp_all

lemma digit_hd_neq: "is_digit (hd (str_of_nat n @ s))"
  by (simp add: hd_append str_of_nat_hd_digit)

lemma scan_number_str_of_int:
  assumes "number_end s" shows "scan_number (str_of_int i @ s) = Inr (JInt i, s)"
proof (cases "i < 0")
  case True
  with assms show ?thesis
    by (simp add: scan_number_def str_of_int_def Let_def number_digits_str_of_nat number_end_def)
next
  case False
  have "hd (str_of_nat (nat i) @ s) \<noteq> CHR ''-''" using digit_hd_neq[of "nat i" s] by auto
  with False assms show ?thesis
    by (simp add: scan_number_def str_of_int_def Let_def number_digits_str_of_nat number_end_def)
qed

lemma startswith_first: "p \<noteq> [] \<Longrightarrow> s \<noteq> [] \<Longrightarrow> hd s \<noteq> hd p \<Longrightarrow> \<not> startswith s p"
  by (auto simp: startswith_iff)

text \<open>The first character of a printed value decides how it is read.\<close>

definition int_start :: "char \<Rightarrow> bool" where
  "int_start c \<longleftrightarrow> is_digit c \<or> c = CHR ''-''"

lemma str_of_int_start: "str_of_int i \<noteq> [] \<and> int_start (hd (str_of_int i))"
  by (simp add: str_of_int_def int_start_def str_of_nat_hd_digit)

lemma int_start_simps [simp]:
  "\<not> int_start CHR ''n''" "\<not> int_start CHR ''t''" "\<not> int_start CHR ''f''" "\<not> int_start CHR ''N''"
  "\<not> int_start CHR 0x22" "\<not> int_start CHR ''{''" "\<not> int_start CHR ''[''"
  by (simp_all add: int_start_def is_digit_def py_ord_def)

lemma int_start_neq: "int_start c \<Longrightarrow> \<not> int_start d \<Longrightarrow> c \<noteq> d"
  by auto

lemma parse_str_of_int:
  assumes "number_end s" shows "parse_value (Suc f) (str_of_int i @ s) = Inr (JInt i, s)"
proof -
  let ?t = "str_of_int i @ s"
  have t: "?t \<noteq> []" "int_start (hd ?t)" using str_of_int_start[of i] by (simp_all add: hd_append)
  have no: "\<not> startswith ?t ''null''" "\<not> startswith ?t ''true''" "\<not> startswith ?t ''false''" "\<not> startswith ?t ''NaN''"
    by (rule startswith_first; use t in \<open>auto dest: int_start_neq\<close>)+
  have hd: "hd ?t \<noteq> CHR 0x22" "hd ?t \<noteq> CHR ''{''" "hd ?t \<noteq> CHR ''[''"
    by (rule int_start_neq[OF t(2)], simp)+
  have atom: "scan_atom ?t = Inr (JInt i, s)"
    using no by (simp only: scan_atom_def scan_number_str_of_int[OF assms] if_False)
  obtain c u where cu: "?t = c # u" using t(1) by (cases ?t) auto
  show ?thesis using hd atom unfolding cu by simp
qed

section \<open>White space\<close>

lemma skip_ws_newline_indent [simp]: "skip_ws (newline_indent n @ s) = skip_ws s"
proof -
  have "\<forall>c \<in> set (newline_indent n). is_json_space c"
    by (auto simp: newline_indent_def is_json_space_def py_ord_def)
  then show ?thesis by (simp add: skip_ws_def dropWhile_append2)
qed

lemma skip_ws_Cons: "\<not> is_json_space c \<Longrightarrow> skip_ws (c # s) = c # s"
  by (simp add: skip_ws_def)

lemma is_json_space_simps [simp]:
  "\<not> is_json_space CHR '',''" "\<not> is_json_space CHR '':''" "\<not> is_json_space CHR '']''"
  "\<not> is_json_space CHR ''}''" "\<not> is_json_space CHR ''[''" "\<not> is_json_space CHR ''{''"
  "\<not> is_json_space CHR 0x22" "is_json_space CHR '' ''" "is_json_space CHR 0x0A"
  "\<not> is_json_space CHR ''n''" "\<not> is_json_space CHR ''t''" "\<not> is_json_space CHR ''f''"
  by (simp_all add: is_json_space_def py_ord_def)

lemma skip_ws_skip [simp]: "is_json_space c \<Longrightarrow> skip_ws (c # s) = skip_ws s"
  by (simp add: skip_ws_def)

lemma item_end_simps [simp]:
  "item_end b (newline_indent n @ s) = item_end b s"
  "\<not> is_json_space b \<Longrightarrow> item_end b (b # s) = Inr (True, s)"
  "b \<noteq> CHR '','' \<Longrightarrow> item_end b (CHR '','' # s) = Inr (False, skip_ws s)"
  by (simp_all add: item_end_def skip_ws_Cons)

lemma closed_simps [simp]:
  "closed b [] = None" "closed b (c # s) = (if c = b then Some s else None)"
  by (simp_all add: closed_def)

lemma scan_key_print:
  "scan_key (print_member k t @ s) = Inr (k, skip_ws (t @ s))"
  by (simp add: scan_key_def print_member_def print_string_def scan_print_chars skip_ws_Cons)

lemma skip_ws_length: "length (skip_ws s) \<le> length s"
  by (simp add: skip_ws_def length_dropWhile_le)


section \<open>Values round trip\<close>

text \<open>The values that a Python program can build: the keys of a \<open>dict\<close> are distinct.\<close>

primrec json_ok :: "json \<Rightarrow> bool" where
  "json_ok JNull = True"
| "json_ok (JBool b) = True"
| "json_ok (JInt i) = True"
| "json_ok (JString s) = True"
| "json_ok (JArray vs) = list_all id (map json_ok vs)"
| "json_ok (JObject kvs) = (distinct (map fst kvs) \<and> list_all id (map snd (map (map_prod id json_ok) kvs)))"

lemma json_ok_array: "json_ok (JArray vs) \<longleftrightarrow> (\<forall>v \<in> set vs. json_ok v)"
  by (simp add: list_all_iff)

lemma json_ok_object: "json_ok (JObject kvs) \<longleftrightarrow> distinct (map fst kvs) \<and> (\<forall>(k, v) \<in> set kvs. json_ok v)"
  by (auto simp: list_all_iff)

declare json_ok.simps(5,6) [simp del]

lemma print_array: "print_json (JArray vs) n = print_seq n CHR ''['' CHR '']'' (map (\<lambda>v. print_json v (Suc n)) vs)"
  by (simp add: comp_def)

lemma print_object:
  "print_json (JObject kvs) n =
     print_seq n CHR ''{'' CHR ''}'' (map (\<lambda>(k, v). print_member k (print_json v (Suc n))) kvs)"
  by (simp add: comp_def case_prod_unfold)

declare print_json.simps(5,6) [simp del]

definition value_start :: "char \<Rightarrow> bool" where
  "value_start c \<longleftrightarrow> int_start c \<or> c \<in> {CHR ''n'', CHR ''t'', CHR ''f'', CHR 0x22, CHR ''['', CHR ''{''}"

lemma print_json_start: "print_json v n \<noteq> [] \<and> value_start (hd (print_json v n))"
  by (cases v)
    (simp_all add: value_start_def print_array print_object print_seq_def print_string_def str_of_int_start)

lemma value_start_not:
  assumes "value_start c" shows "\<not> is_json_space c" "c \<noteq> CHR '']''" "c \<noteq> CHR ''}''"
proof -
  have d: "is_digit e \<Longrightarrow> \<not> is_json_space e" for e by (auto simp: is_digit_def is_json_space_def)
  have "\<not> is_json_space CHR ''-''" by (simp add: is_json_space_def py_ord_def)
  then show "\<not> is_json_space c" using assms d by (auto simp: value_start_def int_start_def)
  have "\<not> value_start CHR '']''" "\<not> value_start CHR ''}''"
    by (simp_all add: value_start_def int_start_def is_digit_def py_ord_def)
  then show "c \<noteq> CHR '']''" "c \<noteq> CHR ''}''" using assms by auto
qed

lemma print_json_Cons: "\<exists>c t. print_json v n @ s = c # t \<and> value_start c"
  using print_json_start[of v n] by (cases "print_json v n") auto

lemma skip_ws_print_json [simp]: "skip_ws (print_json v n @ s) = print_json v n @ s"
  using print_json_Cons[of v n s] by (auto simp: skip_ws_Cons value_start_not)

lemma number_end_newline [simp]: "number_end (newline_indent n @ s)"
  by (simp add: newline_indent_def)

lemma parse_atoms:
  "parse_value (Suc f) (''null'' @ s) = Inr (JNull, s)"
  "parse_value (Suc f) ((if b then ''true'' else ''false'') @ s) = Inr (JBool b, s)"
  by (simp_all add: scan_atom_def startswith_def)

lemma parse_print_string: "parse_value (Suc f) (print_string t @ s) = Inr (JString t, s)"
  by (simp add: print_string_def scan_print_chars)

text \<open>What the induction carries: the text of a value is read back within twice its length.\<close>

definition reads_back :: "json \<Rightarrow> bool" where
  "reads_back v \<longleftrightarrow>
     (\<forall>n f s. number_end s \<longrightarrow> 2 * length (print_json v n) < f \<longrightarrow> parse_value f (print_json v n @ s) = Inr (v, s))"

lemma reads_backD:
  "reads_back v \<Longrightarrow> number_end s \<Longrightarrow> 2 * length (print_json v n) < f \<Longrightarrow>
     parse_value f (print_json v n @ s) = Inr (v, s)"
  by (simp add: reads_back_def)

lemma parse_elements_print:
  assumes "vs \<noteq> []" and "\<forall>v \<in> set vs. reads_back v"
    and "2 * length (join (CHR '','' # newline_indent n) (map (\<lambda>v. print_json v n) vs)) + 2 \<le> f"
  shows "parse_elements f (join (CHR '','' # newline_indent n) (map (\<lambda>v. print_json v n) vs)
           @ newline_indent m @ CHR '']'' # s) = Inr (vs, s)"
  using assms
proof (induction vs arbitrary: f)
  case (Cons v vs)
  obtain g where f: "f = Suc g" using Cons.prems(3) by (cases f) auto
  have v: "reads_back v" using Cons.prems(2) by simp
  show ?case
  proof (cases "vs = []")
    case True
    then show ?thesis using Cons.prems(3) f reads_backD[OF v, where f = g and n = n] by (simp add: skip_ws_Cons)
  next
    case False
    let ?t = "join (CHR '','' # newline_indent n) (map (\<lambda>v. print_json v n) vs)"
    have ws: "skip_ws (?t @ u) = ?t @ u" for u
    proof -
      obtain w ws where "vs = w # ws" using False by (cases vs) auto
      then show ?thesis by (cases ws) simp_all
    qed
    have j: "join (CHR '','' # newline_indent n) (map (\<lambda>v. print_json v n) (v # vs))
        = print_json v n @ CHR '','' # newline_indent n @ ?t"
      using False by (simp add: join_Cons)
    have len: "2 * length (print_json v n) < g" "2 * length ?t + 2 \<le> g"
      using Cons.prems(3) unfolding j f by simp_all
    note IH = Cons.IH[OF False _ len(2)]
    have "parse_elements g (?t @ newline_indent m @ CHR '']'' # s) = Inr (vs, s)"
      by (rule IH) (use Cons.prems(2) in simp)
    then show ?thesis
      unfolding j f using reads_backD[OF v _ len(1)] ws by (simp add: skip_ws_Cons)
  qed
qed simp

lemma parse_members_print:
  assumes "kvs \<noteq> []" and "\<forall>(k, v) \<in> set kvs. reads_back v"
    and "2 * length (join (CHR '','' # newline_indent n) (map (\<lambda>(k, v). print_member k (print_json v n)) kvs)) + 2 \<le> f"
  shows "parse_members f (join (CHR '','' # newline_indent n) (map (\<lambda>(k, v). print_member k (print_json v n)) kvs)
           @ newline_indent m @ CHR ''}'' # s) = Inr (kvs, s)"
  using assms
proof (induction kvs arbitrary: f)
  case (Cons p kvs)
  obtain k v where p: "p = (k, v)" by force
  obtain g where f: "f = Suc g" using Cons.prems(3) by (cases f) auto
  have v: "reads_back v" using Cons.prems(2) p by simp
  have ws': "skip_ws (CHR '' '' # print_json v n @ u) = print_json v n @ u" for u by simp
  show ?case
  proof (cases "kvs = []")
    case True
    then have len: "2 * length (print_json v n) < g"
      using Cons.prems(3) f p by (simp add: print_member_def print_string_def)
    show ?thesis
      using True f p reads_backD[OF v _ len]
      by (simp add: scan_key_print)
  next
    case False
    let ?t = "join (CHR '','' # newline_indent n) (map (\<lambda>(k, v). print_member k (print_json v n)) kvs)"
    have ws: "skip_ws (?t @ u) = ?t @ u" for u
    proof -
      obtain k' w ws where "kvs = (k', w) # ws" using False by (cases kvs) auto
      then show ?thesis by (cases ws) (simp_all add: print_member_def print_string_def skip_ws_Cons)
    qed
    have j: "join (CHR '','' # newline_indent n) (map (\<lambda>(k, v). print_member k (print_json v n)) (p # kvs))
        = print_member k (print_json v n) @ CHR '','' # newline_indent n @ ?t"
      using False p by (simp add: join_Cons)
    have len: "2 * length (print_json v n) < g" "2 * length ?t + 2 \<le> g"
      using Cons.prems(3) unfolding j f by (simp_all add: print_member_def)
    note IH = Cons.IH[OF False _ len(2)]
    have "parse_members g (?t @ newline_indent m @ CHR ''}'' # s) = Inr (kvs, s)"
      by (rule IH) (use Cons.prems(2) in simp)
    then show ?thesis
      unfolding j f using reads_backD[OF v _ len(1)] ws p
      by (simp add: scan_key_print)
  qed
qed simp

lemma print_seq_Cons:
  "ts \<noteq> [] \<Longrightarrow> print_seq n a b ts @ s =
     a # newline_indent (Suc n) @ join (CHR '','' # newline_indent (Suc n)) ts @ newline_indent n @ b # s"
  by (simp add: print_seq_def)

lemma join_print_start:
  assumes "ts \<noteq> []" "\<forall>t \<in> set ts. t \<noteq> [] \<and> value_start (hd t)"
  shows "\<exists>c u. join sep ts @ s = c # u \<and> value_start c"
proof -
  obtain t ts' where t: "ts = t # ts'" using assms(1) by (cases ts) auto
  then obtain c t' where "t = c # t'" "value_start c" using assms(2) by (cases t) auto
  with t show ?thesis by (cases ts') auto
qed

lemma print_member_start: "print_member k t \<noteq> [] \<and> value_start (hd (print_member k t))"
  by (simp add: print_member_def print_string_def value_start_def)

lemma reads_back_array:
  assumes "\<forall>v \<in> set vs. reads_back v" shows "reads_back (JArray vs)"
  unfolding reads_back_def
proof (intro allI impI)
  fix n f s assume len: "2 * length (print_json (JArray vs) n) < f"
  obtain g where f: "f = Suc g" using len by (cases f) auto
  show "parse_value f (print_json (JArray vs) n @ s) = Inr (JArray vs, s)"
  proof (cases "vs = []")
    case True
    then show ?thesis by (simp add: f print_array print_seq_def skip_ws_Cons)
  next
    case False
    let ?ts = "map (\<lambda>v. print_json v (Suc n)) vs"
    define u where "u = join (CHR '','' # newline_indent (Suc n)) ?ts @ newline_indent n @ CHR '']'' # s"
    have "\<exists>c t. u = c # t \<and> value_start c"
      unfolding u_def by (rule join_print_start) (use False print_json_start in auto)
    then have ws: "skip_ws u = u" and cl: "closed CHR '']'' u = None"
      by (auto simp: skip_ws_Cons value_start_not dest: value_start_not(2))
    have "parse_elements g u = Inr (vs, s)"
      unfolding u_def by (rule parse_elements_print[OF False assms])
        (use len False in \<open>simp add: f print_array print_seq_def\<close>)
    then show ?thesis
      using ws cl False by (simp add: f print_array print_seq_Cons flip: u_def)
  qed
qed

lemma reads_back_object:
  assumes "\<forall>(k, v) \<in> set kvs. reads_back v" and "distinct (map fst kvs)"
  shows "reads_back (JObject kvs)"
  unfolding reads_back_def
proof (intro allI impI)
  fix n f s assume len: "2 * length (print_json (JObject kvs) n) < f"
  obtain g where f: "f = Suc g" using len by (cases f) auto
  show "parse_value f (print_json (JObject kvs) n @ s) = Inr (JObject kvs, s)"
  proof (cases "kvs = []")
    case True
    then show ?thesis by (simp add: f print_object print_seq_def skip_ws_Cons)
  next
    case False
    let ?ts = "map (\<lambda>(k, v). print_member k (print_json v (Suc n))) kvs"
    define u where "u = join (CHR '','' # newline_indent (Suc n)) ?ts @ newline_indent n @ CHR ''}'' # s"
    have "\<exists>c t. u = c # t \<and> value_start c"
      unfolding u_def by (rule join_print_start) (use False print_member_start in auto)
    then have ws: "skip_ws u = u" and cl: "closed CHR ''}'' u = None"
      by (auto simp: skip_ws_Cons value_start_not dest: value_start_not(3))
    have "parse_members g u = Inr (kvs, s)"
      unfolding u_def by (rule parse_members_print[OF False assms(1)])
        (use len False in \<open>simp add: f print_object print_seq_def\<close>)
    moreover have "dict_update [] kvs = kvs" using assms(2) by (simp add: dict_update_Nil_id dict_ok_def)
    ultimately show ?thesis
      using ws cl False by (simp add: f print_object print_seq_Cons flip: u_def)
  qed
qed

lemma reads_backI:
  assumes "\<And>n f s. number_end s \<Longrightarrow> parse_value (Suc f) (print_json v n @ s) = Inr (v, s)"
  shows "reads_back v"
  unfolding reads_back_def
proof (intro allI impI)
  fix n f s assume "number_end s" "2 * length (print_json v n) < f"
  then obtain g where "f = Suc g" by (cases f) auto
  with assms \<open>number_end s\<close> show "parse_value f (print_json v n @ s) = Inr (v, s)" by simp
qed

lemma json_reads_back: "json_ok v \<Longrightarrow> reads_back v"
proof (induction v)
  case (JArray vs)
  then show ?case by (intro reads_back_array) (auto simp: json_ok_array)
next
  case (JObject kvs)
  have "\<forall>(k, v) \<in> set kvs. reads_back v"
  proof (clarify)
    fix k v assume kv: "(k, v) \<in> set kvs"
    moreover have "json_ok v" using JObject.prems kv by (auto simp: json_ok_object)
    ultimately show "reads_back v" by (intro JObject.IH[OF kv]) simp_all
  qed
  then show ?case using JObject.prems by (intro reads_back_object) (simp_all add: json_ok_object)
qed (rule reads_backI, simp only: print_json.simps parse_atoms parse_str_of_int parse_print_string)+

lemma distinct_map_sort_key: "distinct (map f (sort_key g xs)) \<longleftrightarrow> distinct (map f xs)"
  by (simp add: distinct_map)

lemma json_ok_sort: "json_ok v \<Longrightarrow> json_ok (sort_json v)"
proof (induction v)
  case (JArray vs)
  then show ?case by (auto simp: json_ok_array)
next
  case (JObject kvs)
  have "map fst (map (map_prod id sort_json) kvs) = map fst kvs" by simp
  then have "distinct (map fst (sort_key fst (map (map_prod id sort_json) kvs)))"
    using JObject.prems by (simp only: distinct_map_sort_key json_ok_object)
  moreover have "json_ok (sort_json v)" if kv: "(k, v) \<in> set kvs" for k v
    using JObject.prems kv by (intro JObject.IH[OF kv]) (auto simp: json_ok_object)
  ultimately show ?case by (auto simp: json_ok_object)
qed simp_all

lemma loads_dumps:
  assumes "json_ok v" and "skip_ws s = []" and "number_end s"
  shows "loads (dumps v @ s) = Inr (sort_json v)"
proof -
  let ?t = "print_json (sort_json v) 0"
  have "parse_value (2 * length (?t @ s) + 2) (?t @ s) = Inr (sort_json v, s)"
    using json_reads_back[OF json_ok_sort[OF assms(1)]] assms(3) by (intro reads_backD) simp_all
  then show ?thesis using assms(2) by (simp add: loads_def dumps_def)
qed


section \<open>The fuel of the parser\<close>

text \<open>A step that consumes text: it does not run out of fuel and leaves a shorter rest.\<close>

definition consumes :: "nat \<Rightarrow> ('a \<times> string) res \<Rightarrow> bool" where
  "consumes m r = (case r of Inl e \<Rightarrow> e \<noteq> RecursionError | Inr (v, t) \<Rightarrow> length t < m)"

lemma consumes_Inl [simp]: "consumes m (Inl e) \<longleftrightarrow> e \<noteq> RecursionError"
  by (simp add: consumes_def)

lemma consumes_Inr [simp]: "consumes m (Inr (v, t)) \<longleftrightarrow> length t < m"
  by (simp add: consumes_def)

lemma consumes_bind:
  assumes "consumes m r" and "\<And>v t. r = Inr (v, t) \<Longrightarrow> length t < m \<Longrightarrow> consumes n (f (v, t))"
  shows "consumes n (res_bind r f)"
  using assms by (cases r) (auto simp: consumes_def)

lemma consumes_mono: "consumes m r \<Longrightarrow> m \<le> n \<Longrightarrow> consumes n r"
  by (auto simp: consumes_def split: sum.splits)

lemma hex_code_error: "hex_code a b c d = Inl e \<Longrightarrow> e \<noteq> RecursionError"
  by (auto simp: hex_code_def split: option.splits if_splits)

lemma scan_escape_error: "scan_escape s = Inl e \<Longrightarrow> e \<noteq> RecursionError"
  by (auto simp: scan_escape_def res_bind_Inl dest: hex_code_error split: list.splits if_splits option.splits)

lemma consumes_step:
  "consumes m r \<Longrightarrow> m \<le> n \<Longrightarrow> consumes n (res_bind r (\<lambda>(v, u). Inr (f v, u)))"
  by (auto simp: consumes_def split: sum.splits)

lemma scan_string_consumes: "consumes (length s) (scan_string s)"
proof (induction s rule: scan_string.induct)
  case (2 c s)
  show ?case
  proof (cases "scan_escape s")
    case (Inl e)
    then show ?thesis using 2 scan_escape_error[OF Inl] by (auto intro!: consumes_step)
  next
    case (Inr p)
    obtain d t where p: "p = (d, t)" by force
    with Inr have "length t < length s" by (auto dest: scan_escape_length)
    then show ?thesis using 2 Inr p by (auto intro!: consumes_step)
  qed
qed simp

lemma number_digits_take: "number_digits s = take (length (number_digits s)) s"
proof (cases "s \<noteq> [] \<and> hd s = CHR ''0''")
  case True
  then show ?thesis by (cases s) (simp_all add: number_digits_def)
next
  case False
  then show ?thesis unfolding number_digits_def by (simp only: if_False takeWhile_eq_take[symmetric])
qed

lemma scan_number_consumes: "consumes (length s) (scan_number s)"
proof -
  have "number_digits t \<noteq> [] \<Longrightarrow> length (drop (length (number_digits t)) t) < length t" for t
    by (metis diff_less length_drop length_greater_0_conv number_digits_take take_Nil)
  from this[of s] this[of "tl s"] show ?thesis
    by (cases s) (auto simp: scan_number_def Let_def)
qed

lemma scan_atom_consumes: "consumes (length s) (scan_atom s)"
  using scan_number_consumes[of s] by (auto simp: scan_atom_def startswith_iff)

lemma closed_length: "closed b s = Some r \<Longrightarrow> length r < length s"
  by (auto simp: closed_def split: list.splits if_splits)

lemma closed_skip_length: "closed b (skip_ws s) = Some r \<Longrightarrow> length r < length s"
  using closed_length skip_ws_length[of s] by fastforce

lemma item_end_consumes: "consumes (length s) (item_end b s)"
proof (cases "skip_ws s")
  case (Cons c r)
  then have "length r < length s" using skip_ws_length[of s] by simp
  then show ?thesis using Cons skip_ws_length[of r] by (simp add: item_end_def)
qed (simp add: item_end_def)

lemma scan_key_consumes: "consumes (length s) (scan_key s)"
proof (cases "closed CHR 0x22 s")
  case (Some t)
  have "consumes (length s) (res_bind (scan_string t) (\<lambda>(k, r).
      case closed CHR '':'' (skip_ws r) of None \<Rightarrow> decode_error | Some u \<Rightarrow> Inr (k, skip_ws u)))"
  proof (rule consumes_bind[OF scan_string_consumes])
    fix k r assume "length (r :: string) < length t"
    then show "consumes (length s) ((\<lambda>(k, r). case closed CHR '':'' (skip_ws r) of
        None \<Rightarrow> decode_error | Some u \<Rightarrow> Inr (k, skip_ws u)) (k, r))"
      using closed_length[OF Some] by (auto split: option.splits dest!: closed_skip_length
        intro: le_less_trans[OF skip_ws_length])
  qed
  then show ?thesis using Some by (simp add: scan_key_def)
qed (simp add: scan_key_def)

lemma parse_consumes:
  "2 * length s < f \<Longrightarrow> consumes (length s) (parse_value f s)"
  "2 * length s + 2 \<le> g \<Longrightarrow> consumes (length s) (parse_elements g s)"
  "2 * length s + 2 \<le> h \<Longrightarrow> consumes (length s) (parse_members h s)"
proof (induction f s and g s and h s rule: parse_value_parse_elements_parse_members.induct)
  case (2 n s)
  show ?case
  proof (cases s)
    case (Cons c r)
    have fuel: "2 * length (skip_ws r) + 2 \<le> n" using 2(3) Cons skip_ws_length[of r] by simp
    have "consumes (length s) (res_bind (scan_string r) (\<lambda>(v, u). Inr (JString v, u)))"
      by (rule consumes_step[OF scan_string_consumes]) (simp add: Cons)
    moreover have "consumes (length s) (res_bind (parse_members n (skip_ws r)) (\<lambda>(ms, u). Inr (JObject (dict_update [] ms), u)))"
      if "c = CHR ''{''" "closed CHR ''}'' (skip_ws r) = None"
      using that skip_ws_length[of r] Cons by (intro consumes_step[OF 2(1)[OF Cons _ that fuel]]) auto
    moreover have "consumes (length s) (res_bind (parse_elements n (skip_ws r)) (\<lambda>(vs, u). Inr (JArray vs, u)))"
      if "c = CHR ''[''" "closed CHR '']'' (skip_ws r) = None"
      using that skip_ws_length[of r] Cons by (intro consumes_step[OF 2(2)[OF Cons _ _ that fuel]]) auto
    ultimately show ?thesis
      using Cons scan_atom_consumes[of s] by (auto split: option.splits dest!: closed_skip_length)
  qed simp
next
  case (4 n s)
  show ?case
    unfolding parse_elements.simps parse_members.simps
  proof (rule consumes_bind)
    show "consumes (length s) (parse_value n s)" by (rule 4(1)) (use 4(3) in simp)
    fix v r assume r: "length (r :: string) < length s"
    have rest: "consumes (length s) (res_bind (parse_elements n t) (\<lambda>(vs, u). Inr (v # vs, u)))"
      if "length t < length r" for t
      using that r 4(3) by (intro consumes_step[OF 4(2)]) auto
    show "consumes (length s) ((\<lambda>(v, r). res_bind (item_end CHR '']'' r) (\<lambda>(fin, t).
        if fin then Inr ([v], t) else res_bind (parse_elements n t) (\<lambda>(vs, u). Inr (v # vs, u)))) (v, r))"
      unfolding prod.case by (rule consumes_bind[OF item_end_consumes]) (use rest r in simp)
  qed
next
  case (6 n s)
  show ?case
    unfolding parse_elements.simps parse_members.simps
  proof (rule consumes_bind[OF scan_key_consumes])
    fix k q assume q: "length (q :: string) < length s"
    have v: "consumes (length q) (parse_value n q)" by (rule 6(1)) (use 6(3) q in simp)
    show "consumes (length s) ((\<lambda>(k, q). res_bind (parse_value n q) (\<lambda>(v, r).
       res_bind (item_end CHR ''}'' r) (\<lambda>(fin, t).
         if fin then Inr ([(k, v)], t) else res_bind (parse_members n t) (\<lambda>(ms, u). Inr ((k, v) # ms, u))))) (k, q))"
      unfolding prod.case
    proof (rule consumes_bind[OF v], unfold prod.case, rule consumes_bind[OF item_end_consumes])
      fix v r fin t assume r: "length (r :: string) < length q" "length (t :: string) < length r"
      have "consumes (length s) (res_bind (parse_members n t) (\<lambda>(ms, u). Inr ((k, v) # ms, u)))"
        using r q 6(3) by (intro consumes_step[OF 6(2)]) auto
      then show "consumes (length s) ((\<lambda>(fin, t). if fin then Inr ([(k, v)], t)
          else res_bind (parse_members n t) (\<lambda>(ms, u). Inr ((k, v) # ms, u))) (fin, t))"
        using r q by simp
    qed
  qed
qed simp_all

text \<open>Every text has an outcome: reading it never stops for want of fuel.\<close>

lemma loads_returns: "loads s \<noteq> Inl RecursionError"
proof -
  have "consumes (length (skip_ws s)) (parse_value (2 * length s + 2) (skip_ws s))"
    using skip_ws_length[of s] by (intro parse_consumes(1)) simp
  then show ?thesis by (auto simp: loads_def res_bind_Inl split: if_splits)
qed

end
