(* ===== verification/ConfigValues.thy ===== *)
theory ConfigValues
  imports Json
begin

text \<open>
  The values of build configurations (\<open>lib/config_lib.py\<close>): what a setting can hold, its
  truth value and its equality, the classes of test configurations with their constructors,
  and the encoding of a value as JSON (\<open>ObjectJSONEncoder\<close>).

  A value has no identity here: the copies that \<open>deepcopy\<close> and \<open>copy.copy\<close> make are the
  same value. Floating point numbers, tuples and dictionaries with keys other than strings are
  left out. An instance of a configuration class is its class with its \<open>__dict__\<close>. Comparing
  such an instance with a value that has no \<open>__dict__\<close> raises \<open>AttributeError\<close>, because the
  \<open>__eq__\<close> of the classes reads the other side's. The property \<open>norm\<close> is the canonical form
  of a value: two values are equal for Python when their forms are the same (\<open>py_eq_norm\<close>).
\<close>

datatype config_class =
    VMTestConfig | GCETestConfig | TastVMTestConfig | MoblabVMTestConfig | ModelTestConfig
  | HWTestConfig | NotificationConfig

datatype config_value =
    VNone | VBool bool | VInt int | VStr string | VList "config_value list"
  | VDict "(string \<times> config_value) list" | VObj config_class "(string \<times> config_value) list"

type_synonym fields = "(string, config_value) dict"

fun truthy :: "config_value \<Rightarrow> bool" where
  "truthy VNone = False"
| "truthy (VBool b) = b"
| "truthy (VInt i) = (i \<noteq> 0)"
| "truthy (VStr s) = (s \<noteq> [])"
| "truthy (VList vs) = (vs \<noteq> [])"
| "truthy (VDict kvs) = (kvs \<noteq> [])"
| "truthy (VObj c fs) = True"

section \<open>Equality\<close>

text \<open>The numeric value: \<open>True\<close> and \<open>False\<close> are the numbers 1 and 0.\<close>

fun number_of_value :: "config_value \<Rightarrow> int option" where
  "number_of_value (VBool b) = Some (if b then 1 else 0)"
| "number_of_value (VInt i) = Some i"
| "number_of_value v = None"

definition size_fields :: "fields \<Rightarrow> nat" where
  "size_fields fs = size_list (size_prod (\<lambda>_. 0) size) fs"

lemma size_fields_simps [simp]:
  "size_fields [] = 0" "size_fields ((k, v) # fs) = Suc (Suc (size v + size_fields fs))"
  by (simp_all add: size_fields_def)

lemma size_value_fields [simp]:
  "size (VDict fs) = Suc (size_fields fs)" "size (VObj c fs) = Suc (size_fields fs)"
  by (simp_all add: size_fields_def)

text \<open>\<open>v == w\<close>; the lists and dictionaries stop at the first difference.\<close>

function (sequential) py_eq :: "config_value \<Rightarrow> config_value \<Rightarrow> bool res"
and list_eq :: "config_value list \<Rightarrow> config_value list \<Rightarrow> bool res"
and fields_eq :: "fields \<Rightarrow> fields \<Rightarrow> bool res" where
  "py_eq (VObj c fs) (VObj d gs) = (if length fs = length gs then fields_eq fs gs else Inr False)"
| "py_eq (VObj c fs) w = Inl AttributeError"
| "py_eq v (VObj d gs) = Inl AttributeError"
| "py_eq VNone VNone = Inr True"
| "py_eq (VStr s) (VStr t) = Inr (s = t)"
| "py_eq (VList vs) (VList ws) = (if length vs = length ws then list_eq vs ws else Inr False)"
| "py_eq (VDict fs) (VDict gs) = (if length fs = length gs then fields_eq fs gs else Inr False)"
| "py_eq v w = Inr (number_of_value v \<noteq> None \<and> number_of_value v = number_of_value w)"
| "list_eq (v # vs) (w # ws) =
     (case py_eq v w of Inl e \<Rightarrow> Inl e | Inr b \<Rightarrow> if b then list_eq vs ws else Inr False)"
| "list_eq vs ws = Inr True"
| "fields_eq [] gs = Inr True"
| "fields_eq ((k, v) # fs) gs =
     (case dict_get gs k of
        None \<Rightarrow> Inr False
      | Some w \<Rightarrow> (case py_eq v w of Inl e \<Rightarrow> Inl e | Inr b \<Rightarrow> if b then fields_eq fs gs else Inr False))"
  by pat_completeness auto
termination
  by (relation "measure (\<lambda>x. case x of
        Inl (v, w) \<Rightarrow> size v
      | Inr (Inl (vs, ws)) \<Rightarrow> size_list size vs
      | Inr (Inr (fs, gs)) \<Rightarrow> size_fields fs)") (auto simp flip: size_fields_def)

section \<open>The canonical form\<close>

definition sort_fields :: "(string \<times> 'a) list \<Rightarrow> (string \<times> 'a) list" where
  "sort_fields fs = sort_key fst fs"

primrec norm :: "config_value \<Rightarrow> config_value" where
  "norm VNone = VNone"
| "norm (VBool b) = VInt (if b then 1 else 0)"
| "norm (VInt i) = VInt i"
| "norm (VStr s) = VStr s"
| "norm (VList vs) = VList (map norm vs)"
| "norm (VDict fs) = VDict (sort_fields (map (map_prod id norm) fs))"
| "norm (VObj c fs) = VObj VMTestConfig (sort_fields (map (map_prod id norm) fs))"

text \<open>Dictionaries have distinct keys, at every depth.\<close>

primrec value_ok :: "config_value \<Rightarrow> bool" where
  "value_ok VNone = True"
| "value_ok (VBool b) = True"
| "value_ok (VInt i) = True"
| "value_ok (VStr s) = True"
| "value_ok (VList vs) = list_all id (map value_ok vs)"
| "value_ok (VDict fs) = (distinct (map fst fs) \<and> list_all id (map snd (map (map_prod id value_ok) fs)))"
| "value_ok (VObj c fs) = (distinct (map fst fs) \<and> list_all id (map snd (map (map_prod id value_ok) fs)))"

text \<open>No instance of a configuration class inside.\<close>

primrec plain :: "config_value \<Rightarrow> bool" where
  "plain VNone = True"
| "plain (VBool b) = True"
| "plain (VInt i) = True"
| "plain (VStr s) = True"
| "plain (VList vs) = list_all id (map plain vs)"
| "plain (VDict fs) = list_all id (map snd (map (map_prod id plain) fs))"
| "plain (VObj c fs) = False"

definition fields_ok :: "fields \<Rightarrow> bool" where
  "fields_ok fs \<longleftrightarrow> dict_ok fs \<and> (\<forall>(k, v) \<in> set fs. value_ok v)"

lemma fields_all: "list_all id (map snd (map (map_prod id P) fs)) \<longleftrightarrow> (\<forall>(k, v) \<in> set fs. P v)"
  by (auto simp: list_all_iff)

lemma value_ok_simps [simp]:
  "value_ok (VList vs) \<longleftrightarrow> (\<forall>v \<in> set vs. value_ok v)"
  "value_ok (VDict fs) \<longleftrightarrow> fields_ok fs" "value_ok (VObj c fs) \<longleftrightarrow> fields_ok fs"
  by (simp_all only: value_ok.simps fields_all fields_ok_def dict_ok_def) (simp add: list_all_iff)

declare value_ok.simps(5-7) [simp del]

lemma plain_simps [simp]:
  "plain (VList vs) \<longleftrightarrow> (\<forall>v \<in> set vs. plain v)"
  "plain (VDict fs) \<longleftrightarrow> (\<forall>(k, v) \<in> set fs. plain v)"
  by (simp_all only: plain.simps fields_all) (simp add: list_all_iff)

declare plain.simps(5,6) [simp del]

text \<open>Sorting by distinct keys depends on the set of pairs only.\<close>

lemma sort_fields_cong:
  assumes "distinct (map fst fs)" "distinct (map fst gs)" "set fs = set gs"
  shows "sort_fields fs = sort_fields gs"
  unfolding sort_fields_def
proof (rule map_sorted_distinct_set_unique[of fst])
  show "inj_on fst (set (sort_key fst fs) \<union> set (sort_key fst gs))"
    using assms by (simp add: distinct_map)
  show "sorted (map fst (sort_key fst fs))" "sorted (map fst (sort_key fst gs))" by simp_all
  show "distinct (map fst (sort_key fst fs))" "distinct (map fst (sort_key fst gs))"
    using assms by (simp_all only: distinct_map_sort_key)
qed (use assms in simp)

lemma sort_fields_eq:
  assumes "distinct (map fst fs)" "distinct (map fst gs)"
  shows "sort_fields fs = sort_fields gs \<longleftrightarrow> set fs = set gs"
proof
  assume "sort_fields fs = sort_fields gs"
  then have "set (sort_key fst fs) = set (sort_key fst gs)" by (simp only: sort_fields_def)
  then show "set fs = set gs" by simp
qed (rule sort_fields_cong[OF assms])

lemma set_sort_fields [simp]: "set (sort_fields fs) = set fs"
  by (simp add: sort_fields_def)

lemma dict_ok_sort_fields [simp]: "dict_ok (sort_fields fs) \<longleftrightarrow> dict_ok fs"
  by (simp add: sort_fields_def dict_ok_def distinct_map_sort_key)

lemma sort_fields_Nil [simp]: "sort_fields fs = [] \<longleftrightarrow> fs = []"
  using set_sort_fields[of fs] by (metis set_empty)

lemma length_sort_fields [simp]: "length (sort_fields fs) = length fs"
  by (simp add: sort_fields_def)

lemma dict_get_set_iff: "dict_ok d \<Longrightarrow> dict_get d k = Some v \<longleftrightarrow> (k, v) \<in> set d"
  by (simp add: dict_get_def dict_ok_def)

text \<open>Two dictionaries with distinct keys and the same look-ups hold the same pairs.\<close>

lemma dict_ext: "dict_ok d \<Longrightarrow> dict_ok e \<Longrightarrow> (\<And>k. dict_get d k = dict_get e k) \<Longrightarrow> set d = set e"
  by (auto simp flip: dict_get_set_iff)

lemma dict_get_sort_fields:
  assumes "dict_ok d" shows "dict_get (sort_fields d) k = dict_get d k"
proof -
  have "dict_get (sort_fields d) k = Some v \<longleftrightarrow> dict_get d k = Some v" for v
    using assms by (simp add: dict_get_set_iff)
  then show ?thesis by (metis not_None_eq)
qed

lemma dict_get_map: "dict_get (map (map_prod id f) d) k = map_option f (dict_get d k)"
  by (induction d) (auto simp: dict_get_def)

lemma dict_ok_map [simp]: "dict_ok (map (map_prod id f) d) \<longleftrightarrow> dict_ok d"
  by (simp add: dict_ok_def)

lemma dict_keys_map [simp]: "dict_keys (map (map_prod id f) d) = dict_keys d"
  by (simp add: dict_keys_def)

text \<open>The same dictionary for Python: as many keys, and equal values under each.\<close>

lemma sort_norm_eq:
  assumes "dict_ok fs" "dict_ok gs"
  shows "sort_fields (map (map_prod id norm) fs) = sort_fields (map (map_prod id norm) gs) \<longleftrightarrow>
    (\<forall>k. map_option norm (dict_get fs k) = map_option norm (dict_get gs k))"
proof -
  let ?f = "map (map_prod id norm) fs" and ?g = "map (map_prod id norm) gs"
  have ok: "dict_ok ?f" "dict_ok ?g" using assms by simp_all
  have "sort_fields ?f = sort_fields ?g \<longleftrightarrow> set ?f = set ?g"
    using ok by (intro sort_fields_eq) (simp_all add: dict_ok_def)
  also have "\<dots> \<longleftrightarrow> (\<forall>k. dict_get ?f k = dict_get ?g k)"
    using dict_ext[OF ok] dict_get_set_iff[OF ok(1)] dict_get_set_iff[OF ok(2)] by (metis not_None_eq)
  finally show ?thesis by (simp only: dict_get_map)
qed


lemma map_id_comp: "map fst (map (map_prod id f) d) = map fst d"
  by simp

lemma list_eq_norm_step:
  assumes "length vs = length ws" and "\<And>v w. v \<in> set vs \<Longrightarrow> w \<in> set ws \<Longrightarrow> py_eq v w = Inr True \<longleftrightarrow> norm v = norm w"
  shows "list_eq vs ws = Inr True \<longleftrightarrow> map norm vs = map norm ws"
  using assms
proof (induction vs ws rule: list_induct2)
  case (Cons v vs w ws)
  have hd: "py_eq v w = Inr True \<longleftrightarrow> norm v = norm w" by (rule Cons.prems) simp_all
  have "list_eq vs ws = Inr True \<longleftrightarrow> map norm vs = map norm ws" by (rule Cons.IH) (simp add: Cons.prems)
  with hd show ?case by (auto split: sum.splits if_splits)
qed simp

text \<open>The loop over a dictionary: every key is found on the other side, with an equal value.\<close>

lemma fields_eq_step:
  "fields_eq fs gs = Inr True \<longleftrightarrow> (\<forall>(k, v) \<in> set fs. \<exists>w. dict_get gs k = Some w \<and> py_eq v w = Inr True)"
proof (induction fs)
  case (Cons p fs)
  obtain k v where p: "p = (k, v)" by force
  show ?case
    using Cons by (cases "dict_get gs k") (auto simp: p split: sum.splits if_splits)
qed simp

lemma fields_norm_step:
  assumes "dict_ok fs" "dict_ok gs"
    and "\<And>k v w. (k, v) \<in> set fs \<Longrightarrow> (k, w) \<in> set gs \<Longrightarrow> py_eq v w = Inr True \<longleftrightarrow> norm v = norm w"
  shows "length fs = length gs \<and> fields_eq fs gs = Inr True \<longleftrightarrow>
     sort_fields (map (map_prod id norm) fs) = sort_fields (map (map_prod id norm) gs)"
proof -
  have len: "length d = card (set (dict_keys d))" if "dict_ok d" for d :: fields
    using that distinct_card[of "map fst d"] by (simp add: dict_ok_def dict_keys_def)
  have eq: "fields_eq fs gs = Inr True \<longleftrightarrow>
      (\<forall>k v. dict_get fs k = Some v \<longrightarrow> (\<exists>w. dict_get gs k = Some w \<and> norm v = norm w))"
    unfolding fields_eq_step using assms by (auto simp: dict_get_set_iff) blast+
  show ?thesis
    unfolding sort_norm_eq[OF assms(1,2)]
  proof
    assume l: "length fs = length gs \<and> fields_eq fs gs = Inr True"
    then have sub: "set (dict_keys fs) \<subseteq> set (dict_keys gs)"
      using eq by (metis dict_get_None option.distinct(1) option.exhaust subsetI)
    then have keys: "set (dict_keys fs) = set (dict_keys gs)"
      using l len[OF assms(1)] len[OF assms(2)] by (intro card_subset_eq) simp_all
    show "\<forall>k. map_option norm (dict_get fs k) = map_option norm (dict_get gs k)"
    proof
      fix k
      show "map_option norm (dict_get fs k) = map_option norm (dict_get gs k)"
      proof (cases "dict_get fs k")
        case None
        then have "dict_get gs k = None" using keys by (simp add: dict_get_None)
        with None show ?thesis by simp
      next
        case (Some v)
        then obtain w where "dict_get gs k = Some w" "norm v = norm w" using l eq by blast
        with Some show ?thesis by simp
      qed
    qed
  next
    assume r: "\<forall>k. map_option norm (dict_get fs k) = map_option norm (dict_get gs k)"
    then have "dict_get fs k = None \<longleftrightarrow> dict_get gs k = None" for k by (metis map_option_is_None)
    then have "set (dict_keys fs) = set (dict_keys gs)" by (auto simp: dict_get_None)
    moreover have "fields_eq fs gs = Inr True"
      unfolding eq using r by (metis map_option_eq_Some)
    ultimately show "length fs = length gs \<and> fields_eq fs gs = Inr True"
      using len[OF assms(1)] len[OF assms(2)] by simp
  qed
qed

lemma py_eq_norm:
  "value_ok v \<Longrightarrow> value_ok w \<Longrightarrow> py_eq v w = Inr True \<longleftrightarrow> norm v = norm w"
proof (induction v arbitrary: w)
  case (VList vs)
  show ?case
  proof (cases w)
    case (VList ws)
    have "length vs = length ws \<Longrightarrow> list_eq vs ws = Inr True \<longleftrightarrow> map norm vs = map norm ws"
      using VList.IH VList.prems VList by (intro list_eq_norm_step) auto
    then show ?thesis using VList by (auto dest: map_eq_imp_length_eq)
  qed simp_all
next
  case (VDict fs)
  show ?case
  proof (cases w)
    case (VDict gs)
    have ok: "fields_ok fs" "fields_ok gs" using VDict.prems VDict by simp_all
    have "py_eq v w = Inr True \<longleftrightarrow> norm v = norm w" if kv: "(k, v) \<in> set fs" "(k, w) \<in> set gs" for k v w
      using ok kv by (intro VDict.IH[OF kv(1)]) (auto simp: fields_ok_def)
    then show ?thesis
      using ok VDict fields_norm_step[of fs gs] by (auto simp: fields_ok_def)
  qed simp_all
next
  case (VObj c fs)
  show ?case
  proof (cases w)
    case (VObj d gs)
    have ok: "fields_ok fs" "fields_ok gs" using VObj.prems VObj by simp_all
    have "py_eq v w = Inr True \<longleftrightarrow> norm v = norm w" if kv: "(k, v) \<in> set fs" "(k, w) \<in> set gs" for k v w
      using ok kv by (intro VObj.IH[OF kv(1)]) (auto simp: fields_ok_def)
    then show ?thesis
      using ok VObj fields_norm_step[of fs gs] by (auto simp: fields_ok_def)
  qed simp_all
next
  case VNone
  show ?case by (cases w) simp_all
next
  case (VBool b)
  show ?case by (cases w) auto
next
  case (VInt i)
  show ?case by (cases w) auto
next
  case (VStr s)
  show ?case by (cases w) auto
qed


section \<open>The classes of test configurations\<close>

text \<open>The parameters of a constructor with their default values, \<open>None\<close> for a required one.\<close>

type_synonym params = "(string \<times> config_value option) list"

definition VMTestConfig_params :: params where
  "VMTestConfig_params =
     [(''test_type'', None), (''test_suite'', Some VNone), (''timeout'', Some (VInt 5400)),
      (''retry'', Some (VBool False)), (''max_retries'', Some (VInt 5)),
      (''warn_only'', Some (VBool False)), (''use_ctest'', Some (VBool True))]"

definition GCETestConfig_params :: params where
  "GCETestConfig_params =
     [(''test_type'', None), (''test_suite'', Some VNone), (''timeout'', Some (VInt 3600)),
      (''use_ctest'', Some (VBool True))]"

definition TastVMTestConfig_params :: params where
  "TastVMTestConfig_params =
     [(''suite_name'', None), (''test_exprs'', None), (''timeout'', Some (VInt 3600))]"

definition MoblabVMTestConfig_params :: params where
  "MoblabVMTestConfig_params = [(''test_type'', None), (''timeout'', Some (VInt 3600))]"

definition ModelTestConfig_params :: params where
  "ModelTestConfig_params =
     [(''name'', None), (''lab_board_name'', None), (''test_suites'', Some VNone),
      (''enable_skylab'', Some (VBool True))]"

definition NotificationConfig_params :: params where
  "NotificationConfig_params =
     [(''email'', None), (''threshold'', Some (VInt 1)), (''template'', Some (VStr ''legacy_release''))]"

definition HWTestConfig_params :: params where
  "HWTestConfig_params =
     [(''suite'', None), (''pool'', Some (VStr ''quota'')), (''timeout'', Some (VInt 10800)),
      (''warn_only'', Some (VBool False)), (''critical'', Some (VBool False)),
      (''blocking'', Some (VBool False)), (''file_bugs'', Some (VBool False)),
      (''priority'', Some (VStr ''Build'')), (''retry'', Some (VBool True)),
      (''max_retries'', Some (VInt 5)), (''minimum_duts'', Some (VInt 0)),
      (''suite_min_duts'', Some (VInt 0)), (''suite_args'', Some VNone),
      (''offload_failures_only'', Some (VBool False)), (''enable_skylab'', Some (VBool True)),
      (''quota_account'', Some (VStr ''legacypool-bvt''))]"

text \<open>A call with keyword arguments: every one is a parameter, and every parameter gets a value.\<close>

definition bind_param :: "fields \<Rightarrow> string \<times> config_value option \<Rightarrow> (string \<times> config_value) res" where
  "bind_param kwargs p =
     (case dict_get kwargs (fst p) of
        Some v \<Rightarrow> Inr (fst p, v)
      | None \<Rightarrow> (case snd p of Some d \<Rightarrow> Inr (fst p, d) | None \<Rightarrow> Inl TypeError))"

definition bind_args :: "params \<Rightarrow> fields \<Rightarrow> fields res" where
  "bind_args ps kwargs =
     (if list_all (\<lambda>k. k \<in> set (map fst ps)) (dict_keys kwargs) then map_res (bind_param kwargs) ps
      else Inl TypeError)"

definition get_or :: "fields \<Rightarrow> string \<Rightarrow> config_value \<Rightarrow> config_value" where
  "get_or fs k d = (case dict_get fs k of Some v \<Rightarrow> v | None \<Rightarrow> d)"

definition is_list :: "config_value \<Rightarrow> bool" where
  "is_list v = (case v of VList _ \<Rightarrow> True | _ \<Rightarrow> False)"

definition TastVMTestConfig_init :: "fields \<Rightarrow> config_value res" where
  "TastVMTestConfig_init kwargs =
     res_bind (bind_args TastVMTestConfig_params kwargs) (\<lambda>fs.
       if is_list (get_or fs ''test_exprs'' VNone) then Inr (VObj TastVMTestConfig fs) else Inl TypeError)"

definition HWTestConfig_init :: "fields \<Rightarrow> config_value res" where
  "HWTestConfig_init kwargs =
     (let named = filter (\<lambda>p. fst p \<in> set (map fst HWTestConfig_params)) kwargs;
          extra = filter (\<lambda>p. fst p \<notin> set (map fst HWTestConfig_params)) kwargs;
          asynchronous = get_or extra ''async'' (VBool False)
      in res_bind (bind_args HWTestConfig_params named) (\<lambda>fs.
           if dict_del extra ''async'' \<noteq> [] then Inl AssertionError
           else if truthy asynchronous \<and> truthy (get_or fs ''blocking'' VNone) then Inl AssertionError
           else if truthy (get_or fs ''warn_only'' VNone) \<and> truthy (get_or fs ''critical'' VNone)
           then Inl AssertionError
           else Inr (VObj HWTestConfig ((''async'', asynchronous) # fs))))"

definition make_config :: "config_class \<Rightarrow> fields \<Rightarrow> config_value res" where
  "make_config c kwargs =
     (case c of
        VMTestConfig \<Rightarrow> res_bind (bind_args VMTestConfig_params kwargs) (\<lambda>fs. Inr (VObj c fs))
      | GCETestConfig \<Rightarrow> res_bind (bind_args GCETestConfig_params kwargs) (\<lambda>fs. Inr (VObj c fs))
      | TastVMTestConfig \<Rightarrow> TastVMTestConfig_init kwargs
      | MoblabVMTestConfig \<Rightarrow> res_bind (bind_args MoblabVMTestConfig_params kwargs) (\<lambda>fs. Inr (VObj c fs))
      | ModelTestConfig \<Rightarrow> res_bind (bind_args ModelTestConfig_params kwargs) (\<lambda>fs. Inr (VObj c fs))
      | HWTestConfig \<Rightarrow> HWTestConfig_init kwargs
      | NotificationConfig \<Rightarrow> res_bind (bind_args NotificationConfig_params kwargs) (\<lambda>fs. Inr (VObj c fs)))"

section \<open>Branched values of a hardware test\<close>

definition attr :: "config_value \<Rightarrow> string \<Rightarrow> config_value res" where
  "attr v k =
     (case v of
        VObj c fs \<Rightarrow> (case dict_get fs k of Some w \<Rightarrow> Inr w | None \<Rightarrow> Inl AttributeError)
      | _ \<Rightarrow> Inl AttributeError)"

definition set_attr :: "config_value \<Rightarrow> string \<Rightarrow> config_value \<Rightarrow> config_value" where
  "set_attr v k w = (case v of VObj c fs \<Rightarrow> VObj c (dict_set fs k w) | _ \<Rightarrow> v)"

text \<open>\<open>d[v]\<close> for a dictionary with string keys.\<close>

definition lookup_value :: "(string, 'a) dict \<Rightarrow> config_value \<Rightarrow> 'a res" where
  "lookup_value d v =
     (case v of
        VStr s \<Rightarrow> (case dict_get d s of Some x \<Rightarrow> Inr x | None \<Rightarrow> Inl KeyError)
      | VList _ \<Rightarrow> Inl TypeError | VDict _ \<Rightarrow> Inl TypeError | VObj _ _ \<Rightarrow> Inl TypeError
      | _ \<Rightarrow> Inl KeyError)"

definition HWTEST_PRIORITIES_MAP :: "(string, int) dict" where
  "HWTEST_PRIORITIES_MAP =
     [(''Weekly'', 10), (''CTS'', 11), (''Daily'', 20), (''PostBuild'', 30), (''DEFAULT'', 40),
      (''Build'', 50), (''PFQ'', 60), (''CQ'', 70)]"

definition SKYLAB_HWTEST_PRIORITIES_MAP :: "(string, int) dict" where
  "SKYLAB_HWTEST_PRIORITIES_MAP =
     [(''Weekly'', 230), (''CTS'', 215), (''Daily'', 200), (''PostBuild'', 170), (''DEFAULT'', 140),
      (''Build'', 110), (''PFQ'', 80), (''CQ'', 50)]"

definition BRANCHED_HW_TEST_TIMEOUT :: int where
  "BRANCHED_HW_TEST_TIMEOUT = 36000"

definition SetCommonBranchedValues :: "config_value \<Rightarrow> config_value res" where
  "SetCommonBranchedValues v =
     res_bind (attr v ''timeout'') (\<lambda>t.
       case number_of_value t of
         None \<Rightarrow> Inl TypeError
       | Some i \<Rightarrow>
           Inr (set_attr (set_attr v ''timeout''
                  (if BRANCHED_HW_TEST_TIMEOUT < i then t else VInt BRANCHED_HW_TEST_TIMEOUT))
                ''minimum_duts'' (VInt 0)))"

definition SetBranchedValuesForSkylab :: "config_value \<Rightarrow> config_value res" where
  "SetBranchedValuesForSkylab v =
     res_bind (SetCommonBranchedValues v) (\<lambda>v.
       res_bind (attr v ''priority'') (\<lambda>p.
         res_bind (lookup_value SKYLAB_HWTEST_PRIORITIES_MAP p) (\<lambda>i.
           Inr (if i < 140 then set_attr v ''priority'' (VStr ''DEFAULT'') else v))))"

definition SetBranchedValues :: "config_value \<Rightarrow> config_value res" where
  "SetBranchedValues v =
     res_bind (SetCommonBranchedValues v) (\<lambda>v.
       res_bind (attr v ''priority'') (\<lambda>p.
         case number_of_value p of
           Some i \<Rightarrow> Inr (set_attr v ''priority'' (if 40 < i then VInt 40 else p))
         | None \<Rightarrow>
             res_bind (lookup_value HWTEST_PRIORITIES_MAP p) (\<lambda>i.
               Inr (if 40 < i then set_attr v ''priority'' (VInt 40) else v))))"

definition timeout_mins :: "config_value \<Rightarrow> int res" where
  "timeout_mins v =
     res_bind (attr v ''timeout'') (\<lambda>t.
       case number_of_value t of None \<Rightarrow> Inl TypeError | Some i \<Rightarrow> Inr (i div 60))"

definition email_notify :: "config_value \<Rightarrow> config_value res" where
  "email_notify v =
     res_bind (attr v ''email'') (\<lambda>e. res_bind (attr v ''template'') (\<lambda>t.
       Inr (VDict [(''email'', e), (''template'', t)])))"

section \<open>Values as JSON\<close>

text \<open>
  \<open>ObjectJSONEncoder\<close>: an instance is a JSON string that holds its dictionary encoded as JSON.
\<close>

primrec to_json :: "config_value \<Rightarrow> json" where
  "to_json VNone = JNull"
| "to_json (VBool b) = JBool b"
| "to_json (VInt i) = JInt i"
| "to_json (VStr s) = JString s"
| "to_json (VList vs) = JArray (map to_json vs)"
| "to_json (VDict fs) = JObject (map (map_prod id to_json) fs)"
| "to_json (VObj c fs) = JString (dumps (JObject (map (map_prod id to_json) fs)))"

definition PrettyJsonDict :: "fields \<Rightarrow> string" where
  "PrettyJsonDict d = dumps (to_json (VDict d)) @ [CHR 0x0A]"

primrec from_json :: "json \<Rightarrow> config_value" where
  "from_json JNull = VNone"
| "from_json (JBool b) = VBool b"
| "from_json (JInt i) = VInt i"
| "from_json (JString s) = VStr s"
| "from_json (JArray vs) = VList (map from_json vs)"
| "from_json (JObject kvs) = VDict (map (map_prod id from_json) kvs)"

definition json_value :: "string \<Rightarrow> config_value res" where
  "json_value s = res_bind (loads s) (\<lambda>j. Inr (from_json j))"

text \<open>What a saved value is after loading.\<close>

definition reload :: "config_value \<Rightarrow> config_value" where
  "reload v = from_json (sort_json (to_json v))"

definition encode_fields :: "fields \<Rightarrow> string" where
  "encode_fields fs = dumps (to_json (VDict fs))"

lemma map_sort_key: "map f (sort_key (\<lambda>x. g (f x)) xs) = sort_key g (map f xs)"
proof -
  have ins: "map f (insort_key (\<lambda>x. g (f x)) x ys) = insort_key g (f x) (map f ys)" for x ys
    by (induction ys) auto
  show ?thesis by (induction xs) (simp_all add: ins)
qed

lemma sort_fields_map: "map (map_prod id f) (sort_fields fs) = sort_fields (map (map_prod id f) fs)"
  using map_sort_key[of "map_prod id f" fst fs] by (simp add: sort_fields_def)

lemma map_prod_id_comp: "map_prod id f \<circ> map_prod id g = map_prod id (\<lambda>x. f (g x))"
  by auto

lemma reload_simps [simp]:
  "reload VNone = VNone" "reload (VBool b) = VBool b" "reload (VInt i) = VInt i" "reload (VStr s) = VStr s"
  "reload (VList vs) = VList (map reload vs)"
  "reload (VDict fs) = VDict (sort_fields (map (map_prod id reload) fs))"
  "reload (VObj c fs) = VStr (encode_fields fs)"
  unfolding reload_def
  by (simp_all add: sort_fields_map map_prod_id_comp encode_fields_def flip: sort_fields_def)

lemma json_ok_to_json: "value_ok v \<Longrightarrow> json_ok (to_json v)"
proof (induction v)
  case (VList vs)
  then show ?case by (auto simp: json_ok_array)
next
  case (VDict fs)
  have "json_ok (to_json v)" if kv: "(k, v) \<in> set fs" for k v
    using VDict.prems kv by (intro VDict.IH[OF kv]) (auto simp: fields_ok_def)
  with VDict.prems show ?case by (auto simp: json_ok_object fields_ok_def dict_ok_def)
qed simp_all

lemma json_value_encode:
  assumes "fields_ok fs" "skip_ws s = []" "number_end s"
  shows "json_value (encode_fields fs @ s) = Inr (reload (VDict fs))"
proof -
  have "json_ok (to_json (VDict fs))" by (rule json_ok_to_json) (use assms(1) in simp)
  from loads_dumps[OF this assms(2,3)] show ?thesis
    by (simp only: json_value_def encode_fields_def res_bind.simps reload_def)
qed

lemma json_value_pretty: "fields_ok d \<Longrightarrow> json_value (PrettyJsonDict d) = Inr (reload (VDict d))"
  using json_value_encode[of d "[CHR 0x0A]"] by (simp only: PrettyJsonDict_def encode_fields_def[symmetric]) (simp add: skip_ws_def)

lemma reload_ok: "value_ok v \<Longrightarrow> value_ok (reload v) \<and> plain (reload v)"
proof (induction v)
  case (VDict fs)
  have "value_ok (reload v) \<and> plain (reload v)" if kv: "(k, v) \<in> set fs" for k v
    using VDict.prems kv by (intro VDict.IH[OF kv]) (auto simp: fields_ok_def)
  with VDict.prems show ?case by (auto simp: fields_ok_def)
qed auto

lemma norm_reload: "value_ok v \<Longrightarrow> plain v \<Longrightarrow> norm (reload v) = norm v"
proof (induction v)
  case (VDict fs)
  have "norm (reload v) = norm v" if kv: "(k, v) \<in> set fs" for k v
    using VDict.prems kv by (intro VDict.IH[OF kv]) (auto simp: fields_ok_def)
  then have m: "map (map_prod id (\<lambda>x. norm (reload x))) fs = map (map_prod id norm) fs" by auto
  have "sort_fields (sort_fields (map (map_prod id norm) fs)) = sort_fields (map (map_prod id norm) fs)"
    using VDict.prems by (intro sort_fields_cong) (simp_all add: sort_fields_def distinct_map_sort_key fields_ok_def dict_ok_def)
  then show ?case by (simp add: sort_fields_map map_prod_id_comp m)
qed simp_all

section \<open>A configuration object after saving and loading\<close>

text \<open>Two dictionaries with the same keys and, under each, values equal for Python.\<close>

definition same_fields :: "fields \<Rightarrow> fields \<Rightarrow> bool" where
  "same_fields fs gs \<longleftrightarrow> (\<forall>k. map_option norm (dict_get fs k) = map_option norm (dict_get gs k))"

lemma same_fields_None: "same_fields fs gs \<Longrightarrow> dict_get fs k = None \<longleftrightarrow> dict_get gs k = None"
  unfolding same_fields_def by (metis map_option_is_None)

lemma same_fields_keys: "same_fields fs gs \<Longrightarrow> set (dict_keys fs) = set (dict_keys gs)"
  using same_fields_None[of fs gs] by (auto simp: dict_get_None)

lemma same_fields_norm: "dict_ok fs \<Longrightarrow> dict_ok gs \<Longrightarrow> same_fields fs gs \<Longrightarrow> norm (VDict fs) = norm (VDict gs)"
  by (simp add: sort_norm_eq same_fields_def)

lemma norm_dict_same: "dict_ok fs \<Longrightarrow> dict_ok gs \<Longrightarrow> norm (VDict fs) = norm (VDict gs) \<Longrightarrow> same_fields fs gs"
  by (simp add: sort_norm_eq same_fields_def)

lemma truthy_norm: "truthy (norm v) = truthy v"
  by (cases v) auto

lemma truthy_cong: "norm v = norm w \<Longrightarrow> truthy v = truthy w"
  by (metis truthy_norm)

lemma is_list_cong: "norm v = norm w \<Longrightarrow> is_list v = is_list w"
  by (cases v; cases w) (auto simp: is_list_def)

lemma get_or_cong: "same_fields fs gs \<Longrightarrow> norm (get_or fs k d) = norm (get_or gs k d)"
  unfolding same_fields_def get_or_def by (auto split: option.split dest!: spec[of _ k])

lemma list_all2_member: "list_all2 P xs ys \<Longrightarrow> x \<in> set xs \<Longrightarrow> \<exists>y \<in> set ys. P x y"
  by (induction rule: list_all2_induct) auto

lemma bind_args_all2: "bind_args ps kw = Inr gs \<Longrightarrow> list_all2 (\<lambda>p g. bind_param kw p = Inr g) ps gs"
  by (simp add: bind_args_def map_res_Inr split: if_splits)

lemma bind_args_Inr:
  assumes "bind_args ps kw = Inr gs" "distinct (map fst ps)"
  shows "dict_keys gs = map fst ps"
    and "(k, d) \<in> set ps \<Longrightarrow> dict_get gs k = (case dict_get kw k of Some v \<Rightarrow> Some v | None \<Rightarrow> d)"
proof -
  have all: "list_all2 (\<lambda>p g. bind_param kw p = Inr g) ps gs"
    by (rule bind_args_all2[OF assms(1)])
  have fst: "fst g = fst p" if "bind_param kw p = Inr g" for p g
    using that by (auto simp: bind_param_def split: option.splits)
  from all show keys: "dict_keys gs = map fst ps"
    unfolding dict_keys_def by (induction rule: list_all2_induct) (auto simp: fst)
  assume "(k, d) \<in> set ps"
  with all obtain g where g: "g \<in> set gs" "bind_param kw (k, d) = Inr g"
    using list_all2_member[of "\<lambda>p g. bind_param kw p = Inr g"] by blast
  have ok: "dict_ok gs" using keys assms(2) by (simp add: dict_ok_def dict_keys_def)
  show "dict_get gs k = (case dict_get kw k of Some v \<Rightarrow> Some v | None \<Rightarrow> d)"
    using g ok by (auto simp: bind_param_def dict_get_set_iff split: option.splits)
qed

lemma bind_args_cong:
  assumes "bind_args ps fs = Inr gs" "distinct (map fst ps)" "same_fields fs fs'"
  shows "\<exists>gs'. bind_args ps fs' = Inr gs' \<and> same_fields gs gs' \<and> dict_ok gs'"
proof -
  have keys: "list_all (\<lambda>k. k \<in> set (map fst ps)) (dict_keys fs')"
    using assms(1) same_fields_keys[OF assms(3)] by (auto simp: bind_args_def list_all_iff split: if_splits)
  have step: "\<exists>g. bind_param fs' p = Inr g" if "p \<in> set ps" for p
  proof -
    have "\<exists>g. bind_param fs p = Inr g"
      using list_all2_member[OF bind_args_all2[OF assms(1)] that] by blast
    then show ?thesis
      using same_fields_None[OF assms(3), of "fst p"] by (auto simp: bind_param_def split: option.splits)
  qed
  then obtain h where "\<forall>p \<in> set ps. bind_param fs' p = Inr (h p)" by metis
  then have "map_res (bind_param fs') ps = Inr (map h ps)" by (simp add: map_res_all)
  then obtain gs' where gs': "bind_args ps fs' = Inr gs'" using keys by (simp add: bind_args_def)
  note B = bind_args_Inr[OF assms(1,2)] and B' = bind_args_Inr[OF gs' assms(2)]
  have "same_fields gs gs'"
    unfolding same_fields_def
  proof
    fix k
    show "map_option norm (dict_get gs k) = map_option norm (dict_get gs' k)"
    proof (cases "k \<in> set (map fst ps)")
      case True
      then obtain d where d: "(k, d) \<in> set ps" by auto
      have "map_option norm (dict_get fs k) = map_option norm (dict_get fs' k)"
        using assms(3) by (simp add: same_fields_def)
      then show ?thesis unfolding B(2)[OF d] B'(2)[OF d] by (auto split: option.split)
    next
      case False
      then have "dict_get gs k = None" "dict_get gs' k = None"
        unfolding dict_get_None B(1) B'(1) by simp_all
      then show ?thesis by simp
    qed
  qed
  moreover have "dict_ok gs'" using B'(1) assms(2) by (simp add: dict_ok_def dict_keys_def)
  ultimately show ?thesis using gs' by blast
qed

lemma params_distinct:
  "distinct (map fst VMTestConfig_params)" "distinct (map fst GCETestConfig_params)"
  "distinct (map fst TastVMTestConfig_params)" "distinct (map fst MoblabVMTestConfig_params)"
  "distinct (map fst ModelTestConfig_params)" "distinct (map fst NotificationConfig_params)"
  "distinct (map fst HWTestConfig_params)"
  by (simp_all add: VMTestConfig_params_def GCETestConfig_params_def TastVMTestConfig_params_def
      MoblabVMTestConfig_params_def ModelTestConfig_params_def NotificationConfig_params_def HWTestConfig_params_def)

lemma dict_get_filter: "dict_get (filter (\<lambda>p. P (fst p)) d) k = (if P k then dict_get d k else None)"
  by (induction d) (auto simp: dict_get_def)

lemma same_fields_filter:
  "same_fields fs gs \<Longrightarrow> same_fields (filter (\<lambda>p. P (fst p)) fs) (filter (\<lambda>p. P (fst p)) gs)"
  by (simp add: same_fields_def dict_get_filter)

lemma same_fields_Nil: "same_fields fs gs \<Longrightarrow> fs = [] \<longleftrightarrow> gs = []"
  using same_fields_keys[of fs gs] by (auto simp: dict_keys_def)

lemma same_fields_del: "same_fields fs gs \<Longrightarrow> same_fields (dict_del fs k) (dict_del gs k)"
  by (simp add: same_fields_def dict_get_del)

lemma same_fields_Cons:
  "norm v = norm w \<Longrightarrow> same_fields fs gs \<Longrightarrow> same_fields ((k, v) # fs) ((k, w) # gs)"
  by (simp add: same_fields_def dict_get_Cons)

lemma async_no_param: "''async'' \<notin> set (map fst HWTestConfig_params)"
  by (simp add: HWTestConfig_params_def)

lemma HWTestConfig_cong:
  assumes "HWTestConfig_init fs = Inr (VObj c gs)" "same_fields fs fs'"
  shows "\<exists>gs'. HWTestConfig_init fs' = Inr (VObj HWTestConfig gs') \<and> same_fields gs gs' \<and> dict_ok gs'"
proof -
  let ?P = "\<lambda>k. k \<in> set (map fst HWTestConfig_params)"
  let ?named = "filter (\<lambda>p. ?P (fst p))" and ?extra = "filter (\<lambda>p. \<not> ?P (fst p))"
  let ?a = "\<lambda>fs. get_or (?extra fs) ''async'' (VBool False)"
  have n: "same_fields (?named fs) (?named fs')" and x: "same_fields (?extra fs) (?extra fs')"
    using same_fields_filter[OF assms(2), of ?P] same_fields_filter[OF assms(2), of "\<lambda>k. \<not> ?P k"] by simp_all
  have a: "norm (?a fs) = norm (?a fs')" using get_or_cong[OF x] .
  from assms(1) obtain bs where bs: "bind_args HWTestConfig_params (?named fs) = Inr bs"
      and no: "dict_del (?extra fs) ''async'' = []"
        "\<not> (truthy (?a fs) \<and> truthy (get_or bs ''blocking'' VNone))"
        "\<not> (truthy (get_or bs ''warn_only'' VNone) \<and> truthy (get_or bs ''critical'' VNone))"
      and gs: "gs = (''async'', ?a fs) # bs"
    by (auto simp: HWTestConfig_init_def Let_def res_bind_Inr split: if_splits)
  obtain bs' where bs': "bind_args HWTestConfig_params (?named fs') = Inr bs'" "same_fields bs bs'" "dict_ok bs'"
    using bind_args_cong[OF bs params_distinct(7) n] by blast
  have "dict_del (?extra fs') ''async'' = []"
    using no(1) same_fields_Nil[OF same_fields_del[OF x]] by metis
  moreover have "truthy (?a fs') = truthy (?a fs)" using truthy_cong[OF a] by simp
  moreover have "truthy (get_or bs' k VNone) = truthy (get_or bs k VNone)" for k
    using truthy_cong[OF get_or_cong[OF bs'(2)]] by simp
  ultimately have "HWTestConfig_init fs' = Inr (VObj HWTestConfig ((''async'', ?a fs') # bs'))"
    using no bs'(1) by (simp add: HWTestConfig_init_def Let_def)
  moreover have "same_fields gs ((''async'', ?a fs') # bs')"
    unfolding gs by (rule same_fields_Cons[OF a bs'(2)])
  moreover have "dict_ok ((''async'', ?a fs') # bs')"
    using bind_args_Inr(1)[OF bs'(1) params_distinct(7)] async_no_param bs'(3) by (simp add: dict_ok_def dict_keys_def)
  ultimately show ?thesis by blast
qed

lemma make_config_cong:
  assumes "make_config c fs = Inr (VObj d gs)" "same_fields fs fs'"
  shows "\<exists>gs'. make_config c fs' = Inr (VObj c gs') \<and> same_fields gs gs' \<and> dict_ok gs'"
proof (cases c)
  case HWTestConfig
  then show ?thesis using assms HWTestConfig_cong by (simp add: make_config_def)
next
  case TastVMTestConfig
  from assms(1) TastVMTestConfig have bs: "bind_args TastVMTestConfig_params fs = Inr gs"
      "is_list (get_or gs ''test_exprs'' VNone)"
    by (auto simp: make_config_def TastVMTestConfig_init_def res_bind_Inr split: if_splits)
  then show ?thesis
    using bind_args_cong[OF bs(1) params_distinct(3) assms(2)] TastVMTestConfig
      is_list_cong[OF get_or_cong] by (fastforce simp: make_config_def TastVMTestConfig_init_def)
next
  case VMTestConfig
  with assms(1) have "bind_args VMTestConfig_params fs = Inr gs" by (simp add: make_config_def res_bind_Inr)
  from bind_args_cong[OF this params_distinct(1) assms(2)] VMTestConfig show ?thesis
    by (auto simp: make_config_def)
next
  case GCETestConfig
  with assms(1) have "bind_args GCETestConfig_params fs = Inr gs" by (simp add: make_config_def res_bind_Inr)
  from bind_args_cong[OF this params_distinct(2) assms(2)] GCETestConfig show ?thesis
    by (auto simp: make_config_def)
next
  case MoblabVMTestConfig
  with assms(1) have "bind_args MoblabVMTestConfig_params fs = Inr gs" by (simp add: make_config_def res_bind_Inr)
  from bind_args_cong[OF this params_distinct(4) assms(2)] MoblabVMTestConfig show ?thesis
    by (auto simp: make_config_def)
next
  case ModelTestConfig
  with assms(1) have "bind_args ModelTestConfig_params fs = Inr gs" by (simp add: make_config_def res_bind_Inr)
  from bind_args_cong[OF this params_distinct(5) assms(2)] ModelTestConfig show ?thesis
    by (auto simp: make_config_def)
next
  case NotificationConfig
  with assms(1) have "bind_args NotificationConfig_params fs = Inr gs" by (simp add: make_config_def res_bind_Inr)
  from bind_args_cong[OF this params_distinct(6) assms(2)] NotificationConfig show ?thesis
    by (auto simp: make_config_def)
qed

end
