(* ===== verification/ConfigLib.thy ===== *)
theory ConfigLib
  imports ConfigValues
begin

text \<open>
  Build configurations and the site configuration that holds them (\<open>lib/config_lib.py\<close>):
  \<open>BuildConfig\<close> with \<open>deepcopy\<close>, \<open>apply\<close>, \<open>derive\<close> and the slaves of a master, and
  \<open>SiteConfig\<close> with the operations that add, update and search configurations.

  A setting is a fixed value or a callable that computes the value from the prior one; the
  callable of a template that meets no fixed value is kept, stacked on the one before. An
  exception ends the generation of the configurations, so the state it leaves behind is not
  kept. A configuration nested in another (\<open>child_configs\<close>) is a dictionary of fixed values.
\<close>

datatype setting = Fixed config_value | Callable "config_value \<Rightarrow> config_value res"

type_synonym config = "(string, setting) dict"

definition fixed_config :: "fields \<Rightarrow> config" where
  "fixed_config fs = map (map_prod id Fixed) fs"

definition fixed_fields :: "config \<Rightarrow> fields res" where
  "fixed_fields c =
     map_res (\<lambda>(k, u). case u of Fixed v \<Rightarrow> Inr (k, v) | Callable f \<Rightarrow> not_modelled) c"

section \<open>Copies\<close>

text \<open>The elements that a \<open>for\<close> loop over a value visits.\<close>

definition iter_value :: "config_value \<Rightarrow> config_value list res" where
  "iter_value v =
     (case v of
        VList vs \<Rightarrow> Inr vs
      | VStr s \<Rightarrow> Inr (map (\<lambda>c. VStr [c]) s)
      | VDict fs \<Rightarrow> Inr (map (\<lambda>p. VStr (fst p)) fs)
      | _ \<Rightarrow> Inl TypeError)"

definition copied_lists :: "string list" where
  "copied_lists = [''vm_tests'', ''vm_tests_override'', ''hw_tests'', ''hw_tests_override'', ''tast_vm_tests'']"

text \<open>The loop of \<open>deepcopy\<close> over the values, the children being copied by \<open>deepcopy\<close> themselves.\<close>

function (sequential) copy_value :: "string \<Rightarrow> config_value \<Rightarrow> config_value res"
and copy_children :: "config_value list \<Rightarrow> config_value list res"
and deepcopy_fields :: "fields \<Rightarrow> fields res" where
  "copy_value k VNone = Inr VNone"
| "copy_value k (VList vs) =
     (if k = ''child_configs'' then res_bind (copy_children vs) (\<lambda>ws. Inr (VList ws)) else Inr (VList vs))"
| "copy_value k v =
     (if k = ''child_configs''
      then res_bind (iter_value v) (\<lambda>vs. if vs = [] then Inr (VList []) else Inl AttributeError)
      else if k \<in> set copied_lists then res_bind (iter_value v) (\<lambda>vs. Inr (VList vs))
      else Inr v)"
| "copy_children [] = Inr []"
| "copy_children (VDict fs # vs) =
     res_bind (deepcopy_fields fs) (\<lambda>gs. res_bind (copy_children vs) (\<lambda>ws. Inr (VDict gs # ws)))"
| "copy_children (v # vs) = Inl AttributeError"
| "deepcopy_fields [] = Inr []"
| "deepcopy_fields ((k, v) # fs) =
     res_bind (copy_value k v) (\<lambda>w. res_bind (deepcopy_fields fs) (\<lambda>gs. Inr ((k, w) # gs)))"
  by pat_completeness auto
termination
  by (relation "measure (\<lambda>x. case x of
        Inl (k, v) \<Rightarrow> size v
      | Inr (Inl vs) \<Rightarrow> size_list size vs
      | Inr (Inr fs) \<Rightarrow> size_fields fs)") (auto simp flip: size_fields_def)

definition deepcopy :: "config \<Rightarrow> config res" where
  "deepcopy c =
     map_res (\<lambda>(k, u).
       case u of
         Fixed v \<Rightarrow> res_bind (copy_value k v) (\<lambda>w. Inr (k, Fixed w))
       | Callable f \<Rightarrow>
           if k = ''child_configs'' \<or> k \<in> set copied_lists then Inl TypeError else Inr (k, u)) c"

section \<open>Applying changes\<close>

definition stack :: "(config_value \<Rightarrow> config_value res) \<Rightarrow> (config_value \<Rightarrow> config_value res) \<Rightarrow> setting" where
  "stack new_callable old_callable = Callable (\<lambda>fixed. res_bind (old_callable fixed) new_callable)"

definition apply_item :: "string \<times> setting \<Rightarrow> config \<Rightarrow> config res" where
  "apply_item p self =
     (case snd p of
        Callable f \<Rightarrow>
          (case dict_get self (fst p) of
             None \<Rightarrow> Inr (dict_set self (fst p) (Callable f))
           | Some (Callable g) \<Rightarrow> Inr (dict_set self (fst p) (stack f g))
           | Some (Fixed v) \<Rightarrow> res_bind (f v) (\<lambda>w. Inr (dict_set self (fst p) (Fixed w))))
      | Fixed v \<Rightarrow>
          if fst p = ''_template'' then Inr self else Inr (dict_set self (fst p) (Fixed v)))"

definition apply_update :: "config \<Rightarrow> config \<Rightarrow> config res" where
  "apply_update update_config self = fold_res apply_item update_config self"

definition BuildConfig_apply :: "config \<Rightarrow> config list \<Rightarrow> config \<Rightarrow> config res" where
  "BuildConfig_apply self args kwargs = fold_res apply_update (args @ [kwargs]) self"

definition derive :: "config \<Rightarrow> config list \<Rightarrow> config \<Rightarrow> config res" where
  "derive self args kwargs = res_bind (deepcopy self) (\<lambda>c. BuildConfig_apply c args kwargs)"

section \<open>Reading a configuration\<close>

definition setting_truthy :: "setting \<Rightarrow> bool" where
  "setting_truthy u = (case u of Fixed v \<Rightarrow> truthy v | Callable f \<Rightarrow> True)"

text \<open>\<open>c.k\<close>, \<open>c['k']\<close> and \<open>c.get('k')\<close>.\<close>

definition config_attr :: "config \<Rightarrow> string \<Rightarrow> setting res" where
  "config_attr c k = (case dict_get c k of Some u \<Rightarrow> Inr u | None \<Rightarrow> Inl AttributeError)"

definition config_item :: "config \<Rightarrow> string \<Rightarrow> setting res" where
  "config_item c k = (case dict_get c k of Some u \<Rightarrow> Inr u | None \<Rightarrow> Inl KeyError)"

definition config_get :: "config \<Rightarrow> string \<Rightarrow> setting" where
  "config_get c k = (case dict_get c k of Some u \<Rightarrow> u | None \<Rightarrow> Fixed VNone)"

definition is_str :: "string \<Rightarrow> setting \<Rightarrow> bool" where
  "is_str s u = (case u of Fixed (VStr t) \<Rightarrow> t = s | _ \<Rightarrow> False)"

definition isTryjobConfig :: "config \<Rightarrow> bool res" where
  "isTryjobConfig c =
     res_bind (config_attr c ''luci_builder'') (\<lambda>u. Inr (is_str ''Rapid'' u \<or> is_str ''Try'' u))"

definition IsCanaryType :: "string \<Rightarrow> bool" where
  "IsCanaryType b_type \<longleftrightarrow> b_type = ''canary''"

definition IsCanaryMaster :: "config \<Rightarrow> string \<Rightarrow> bool res" where
  "IsCanaryMaster c manifest_branch =
     res_bind (config_attr c ''build_type'') (\<lambda>t.
       if \<not> is_str ''canary'' t then Inr False
       else res_bind (config_attr c ''master'') (\<lambda>m.
              Inr (setting_truthy m \<and> manifest_branch \<in> set [''main'', ''master''])))"

definition IsMasterAndroidPFQ :: "config \<Rightarrow> bool res" where
  "IsMasterAndroidPFQ c =
     res_bind (config_attr c ''build_type'') (\<lambda>t.
       if \<not> is_str ''android'' t then Inr False
       else res_bind (config_attr c ''master'') (\<lambda>m. Inr (setting_truthy m)))"

definition GetHWTestEnv :: "config \<Rightarrow> config_value option \<Rightarrow> config_value option \<Rightarrow> string res" where
  "GetHWTestEnv c model suite =
     (let enable = (\<lambda>t. case t of None \<Rightarrow> Inr (VBool True) | Some v \<Rightarrow> attr v ''enable_skylab'')
      in res_bind (enable suite) (\<lambda>enable_suite. res_bind (enable model) (\<lambda>enable_model.
           res_bind (config_attr c ''enable_skylab_hw_tests'') (\<lambda>u.
             Inr (if setting_truthy u \<and> truthy enable_suite \<and> truthy enable_model
                  then ''skylab'' else ''autotest'')))))"

section \<open>The slaves of a master\<close>

text \<open>A list of strings; lists that hold anything else are not in the model.\<close>

definition str_list :: "config_value list \<Rightarrow> string list res" where
  "str_list vs = map_res (\<lambda>v. case v of VStr s \<Rightarrow> Inr s | _ \<Rightarrow> not_modelled) vs"

definition slave_names :: "setting \<Rightarrow> string list res" where
  "slave_names u =
     (case u of Fixed VNone \<Rightarrow> Inr [] | Fixed (VList vs) \<Rightarrow> str_list vs | _ \<Rightarrow> not_modelled)"

definition config_name :: "config \<Rightarrow> string res" where
  "config_name c =
     res_bind (config_attr c ''name'') (\<lambda>u. case u of Fixed (VStr s) \<Rightarrow> Inr s | _ \<Rightarrow> not_modelled)"

definition AddSlaves :: "config \<Rightarrow> config list \<Rightarrow> config res" where
  "AddSlaves self slaves =
     res_bind (config_attr self ''master'') (\<lambda>m.
       if \<not> setting_truthy m then Inl AssertionError
       else res_bind (config_item self ''slave_configs'') (\<lambda>u.
         res_bind (slave_names u) (\<lambda>old. res_bind (map_res config_name slaves) (\<lambda>new.
           Inr (dict_set self ''slave_configs'' (Fixed (VList (map VStr (sort (old @ new))))))))))"

definition AddSlave :: "config \<Rightarrow> config \<Rightarrow> config res" where
  "AddSlave self slave =
     res_bind (config_attr self ''master'') (\<lambda>m.
       if \<not> setting_truthy m then Inl AssertionError
       else res_bind (config_item self ''slave_configs'') (\<lambda>u.
         res_bind (slave_names u) (\<lambda>old. res_bind (config_name slave) (\<lambda>new.
           Inr (dict_set self ''slave_configs'' (Fixed (VList (map VStr (sort (old @ [new]))))))))))"

section \<open>Use flags\<close>

definition shadowed_useflags :: "string list \<Rightarrow> string list" where
  "shadowed_useflags useflags =
     map (Cons CHR ''-'') (filter (\<lambda>f. \<not> startswith f ''-'') useflags)
       @ map tl (filter (\<lambda>f. startswith f ''-'') useflags)"

definition old_useflags :: "config_value \<Rightarrow> string list res" where
  "old_useflags v = (if truthy v then res_bind (iter_value v) str_list else Inr [])"

definition append_useflags :: "string list \<Rightarrow> config_value \<Rightarrow> config_value res" where
  "append_useflags useflags v =
     res_bind (old_useflags v) (\<lambda>old.
       Inr (VList (map VStr (sort (remdups
         (filter (\<lambda>f. f \<notin> set (shadowed_useflags useflags)) (old @ useflags)))))))"

section \<open>The site configuration\<close>

record site =
  site_defaults :: fields
  site_templates :: "(string, config) dict"
  site_configs :: "(string, config) dict"

text \<open>\<open>VMTestConfig(test_type, test_suite)\<close>: the other parameters have their defaults.\<close>

definition default_vm_test :: "config_value \<Rightarrow> config_value \<Rightarrow> config_value" where
  "default_vm_test test_type test_suite =
     VObj VMTestConfig
       [(''test_type'', test_type), (''test_suite'', test_suite), (''timeout'', VInt 5400),
        (''retry'', VBool False), (''max_retries'', VInt 5), (''warn_only'', VBool False),
        (''use_ctest'', VBool True)]"

text \<open>The keyword arguments of \<open>dict(...)\<close> in \<open>DefaultSettings\<close>, inserted one by one.\<close>

definition default_items :: fields where
  "default_items =
     [(''_template'', VNone), (''name'', VNone), (''boards'', VNone), (''models'', VList []),
      (''display_label'', VNone), (''luci_builder'', VStr ''LegacyRelease''),
      (''profile'', VNone), (''master'', VBool False), (''basic_builder'', VBool False),
      (''slave_configs'', VNone), (''important'', VBool True), (''debug'', VBool False),
      (''debug_cidb'', VBool False), (''build_timeout'', VInt 19800),
      (''notification_configs'', VList []), (''health_threshold'', VInt 0),
      (''health_alert_recipients'', VList []), (''internal'', VBool False),
      (''branch'', VBool False), (''manifest'', VStr ''default.xml''),
      (''useflags'', VList []), (''chromeos_official'', VBool False),
      (''usepkg_toolchain'', VBool True), (''usepkg_build_packages'', VBool True),
      (''sync_chrome'', VNone), (''latest_toolchain'', VBool False), (''gcc_githash'', VNone),
      (''board_replace'', VBool False), (''chroot_replace'', VBool True),
      (''chroot_use_image'', VBool True), (''uprev'', VBool True),
      (''overlays'', VStr ''public''), (''push_overlays'', VNone), (''android_rev'', VNone),
      (''android_import_branch'', VNone), (''android_package'', VNone),
      (''android_update_lkgb'', VBool False), (''chrome_rev'', VNone),
      (''compilecheck'', VBool False), (''debuginfo_test'', VBool False),
      (''signer_tests'', VBool False), (''unittests'', VBool True),
      (''unittest_blacklist'', VList []), (''afdo_generate'', VBool False),
      (''afdo_generate_async'', VBool False), (''kernel_afdo_verify'', VBool False),
      (''chrome_afdo_verify'', VBool False), (''orderfile_generate'', VBool False),
      (''orderfile_verify'', VBool False), (''afdo_generate_min'', VBool False),
      (''afdo_update_chrome_ebuild'', VBool False),
      (''afdo_update_kernel_ebuild'', VBool False), (''afdo_use'', VBool True),
      (''vm_tests'', VList [default_vm_test (VStr ''vm_suite'') (VStr ''smoke''), default_vm_test (VStr ''pfq_suite'') (VNone)]),
      (''vm_tests_override'', VNone), (''vm_test_report_to_dashboards'', VBool False),
      (''vm_test_runs'', VInt 1), (''enable_skylab_hw_tests'', VBool False),
      (''hw_tests_disabled_bug'', VStr []), (''enable_skylab_cts_hw_tests'', VBool False),
      (''hw_tests'', VList []), (''hw_tests_override'', VNone),
      (''upload_hw_test_artifacts'', VBool True), (''upload_standalone_images'', VBool True),
      (''gce_tests'', VList []), (''run_cpeexport'', VBool False),
      (''run_build_configs_export'', VBool False), (''tast_vm_tests'', VList []),
      (''moblab_vm_tests'', VList []),
      (''upload_stripped_packages'', VList [VStr ''chromeos-base/chromeos-chrome'', VStr ''sys-kernel/*kernel*'']),
      (''gs_path'', VStr ''default''), (''build_type'', VStr ''pfq''),
      (''suite_scheduling'', VBool False), (''builder_class_name'', VNone),
      (''images'', VList [VStr ''test'']), (''guest_vm_image'', VBool False),
      (''gce_image'', VBool False), (''base_is_recovery'', VBool False),
      (''payload_image'', VNone), (''factory_install_netboot'', VBool True),
      (''factory_toolkit'', VBool True), (''factory'', VBool True),
      (''build_packages'', VBool True), (''packages'', VList []),
      (''push_image'', VBool False), (''upload_symbols'', VBool False),
      (''hwqual'', VBool False), (''paygen'', VBool False),
      (''paygen_skip_testing'', VBool False), (''paygen_skip_delta_payloads'', VBool False),
      (''cpe_export'', VBool True), (''debug_symbols'', VBool True),
      (''separate_debug_symbols'', VBool True), (''archive_build_debug'', VBool False),
      (''archive'', VBool True), (''manifest_repo_url'', VNone),
      (''manifest_version'', VBool False), (''manifest_branch'', VNone),
      (''use_chrome_lkgm'', VBool False), (''prebuilts'', VBool False),
      (''use_sdk'', VBool True), (''description'', VNone), (''git_sync'', VBool False),
      (''child_configs'', VList []), (''grouped'', VBool False), (''disk_layout'', VNone),
      (''postsync_patch'', VBool True), (''postsync_reexec'', VBool True),
      (''binhost_test'', VBool False), (''sign_types'', VNone), (''binhost_bucket'', VNone),
      (''binhost_key'', VNone), (''binhost_base_url'', VNone),
      (''dev_installer_prebuilts'', VBool False), (''rootfs_verification'', VBool True),
      (''chrome_sdk'', VBool False), (''chrome_sdk_build_chrome'', VBool True),
      (''chrome_sdk_goma'', VBool True), (''image_test'', VBool False),
      (''workspace_branch'', VNone), (''doc'', VNone), (''goma_client_type'', VNone),
      (''build_all_with_goma'', VBool False), (''schedule'', VNone),
      (''triggered_gitiles'', VNone), (''nobuildretry'', VBool False),
      (''build_affinity'', VBool False)]"


definition DefaultSettings :: fields where
  "DefaultSettings = dict_update [] default_items"

definition SiteConfig_init :: "fields \<Rightarrow> (string, config) dict \<Rightarrow> site" where
  "SiteConfig_init defaults templates =
     \<lparr>site_defaults = dict_update DefaultSettings defaults, site_templates = templates, site_configs = []\<rparr>"

definition GetDefault :: "site \<Rightarrow> config" where
  "GetDefault s = fixed_config (site_defaults s)"

definition GetTemplates :: "site \<Rightarrow> (string, config) dict" where
  "GetTemplates s = site_templates s"

text \<open>The values a template contributes to the name of the template.\<close>

definition template_name :: "site \<Rightarrow> config \<Rightarrow> config_value res" where
  "template_name s template =
     (if template = [] then Inr VNone
      else case config_get template ''_template'' of
             Callable f \<Rightarrow> Inl AssertionError
           | Fixed v \<Rightarrow>
               if \<not> truthy v then Inr v
               else (case v of
                       VStr t \<Rightarrow> if t \<in> set (dict_keys (site_templates s)) then Inr v else Inl AssertionError
                     | VList _ \<Rightarrow> Inl TypeError | VDict _ \<Rightarrow> Inl TypeError | VObj _ _ \<Rightarrow> Inl TypeError
                     | _ \<Rightarrow> Inl AssertionError))"

text \<open>\<open>Add\<close>, which returns the configuration it has added; no template is the empty one.\<close>

definition Add :: "site \<Rightarrow> string \<Rightarrow> config \<Rightarrow> config list \<Rightarrow> config \<Rightarrow> (site \<times> config) res" where
  "Add s name template args kwargs =
     (if name \<in> set (dict_keys (site_configs s)) then Inl AssertionError
      else if ''_template'' \<in> set (dict_keys kwargs) then Inl ValueError
      else
        let inherits = (if template = [] then args else template # args)
        in res_bind (BuildConfig_apply (GetDefault s) inherits kwargs) (\<lambda>result.
             res_bind (template_name s template) (\<lambda>resolved_template.
               let result = dict_set (dict_set result ''name'' (Fixed (VStr name)))
                              ''_template'' (Fixed resolved_template)
               in Inr (s\<lparr>site_configs := dict_set (site_configs s) name result\<rparr>, result))))"

definition AddWithoutTemplate :: "site \<Rightarrow> string \<Rightarrow> config list \<Rightarrow> config \<Rightarrow> site res" where
  "AddWithoutTemplate s name args kwargs =
     res_bind (Add s name [] args kwargs) (\<lambda>(s', c). Inr s')"

text \<open>A keyword argument that is given twice, by the caller and by \<open>AddGroup\<close>, is a \<open>TypeError\<close>.\<close>

definition group_child :: "config \<Rightarrow> config_value res" where
  "group_child c =
     res_bind (deepcopy c) (\<lambda>d.
       res_bind (BuildConfig_apply d [] [(''grouped'', Fixed (VBool True))]) (\<lambda>e.
         res_bind (fixed_fields e) (\<lambda>fs. Inr (VDict fs))))"

definition AddGroup :: "site \<Rightarrow> string \<Rightarrow> config list \<Rightarrow> config \<Rightarrow> (site \<times> config) res" where
  "AddGroup s name args kwargs =
     res_bind (map_res group_child args) (\<lambda>child_configs.
       case args of
         [] \<Rightarrow> Inl IndexError
       | primary # _ \<Rightarrow>
           if ''child_configs'' \<in> set (dict_keys kwargs) \<or> ''template'' \<in> set (dict_keys kwargs)
           then Inl TypeError
           else Add s name primary [] ((''child_configs'', Fixed (VList child_configs)) # kwargs))"

text \<open>The loops over boards collect the configurations they add or update.\<close>

definition board_config :: "string \<Rightarrow> string \<Rightarrow> string" where
  "board_config board suffix = board @ ''-'' @ suffix"

fun AddForBoards :: "string \<Rightarrow> string list \<Rightarrow> (string, config) dict \<Rightarrow> config \<Rightarrow> config list \<Rightarrow> config \<Rightarrow>
    site \<Rightarrow> (site \<times> config list) res" where
  "AddForBoards suffix [] per_board template args kwargs s = Inr (s, [])"
| "AddForBoards suffix (board # boards) per_board template args kwargs s =
     (let mixins = args @ [[(''boards'', Fixed (VList [VStr board]))]]
            @ (case dict_get per_board board of None \<Rightarrow> [] | Some c \<Rightarrow> [c])
      in res_bind (Add s (board_config board suffix) template mixins kwargs) (\<lambda>(s', c).
           res_bind (AddForBoards suffix boards per_board template args kwargs s') (\<lambda>(s'', cs).
             Inr (s'', c # cs))))"

fun ApplyForBoards :: "string \<Rightarrow> string list \<Rightarrow> config list \<Rightarrow> config \<Rightarrow> site \<Rightarrow> (site \<times> config list) res" where
  "ApplyForBoards suffix [] args kwargs s = Inr (s, [])"
| "ApplyForBoards suffix (board # boards) args kwargs s =
     (case dict_get (site_configs s) (board_config board suffix) of
        None \<Rightarrow> Inl AssertionError
      | Some c \<Rightarrow>
          res_bind (BuildConfig_apply c args kwargs) (\<lambda>c'.
            res_bind (ApplyForBoards suffix boards args kwargs
                (s\<lparr>site_configs := dict_set (site_configs s) (board_config board suffix) c'\<rparr>)) (\<lambda>(s'', cs).
              Inr (s'', c' # cs))))"

definition AddTemplate :: "site \<Rightarrow> string \<Rightarrow> config list \<Rightarrow> config \<Rightarrow> (site \<times> config) res" where
  "AddTemplate s name args kwargs =
     (if name \<in> set (dict_keys (site_templates s)) then Inl AssertionError
      else res_bind (BuildConfig_apply [] args kwargs) (\<lambda>c.
        let template = dict_set c ''_template'' (Fixed (VStr name))
        in Inr (s\<lparr>site_templates := dict_set (site_templates s) name template\<rparr>, template)))"

section \<open>Searching the site configuration\<close>

definition hashable :: "config_value \<Rightarrow> bool" where
  "hashable v = (case v of VList _ \<Rightarrow> False | VDict _ \<Rightarrow> False | VObj _ _ \<Rightarrow> False | _ \<Rightarrow> True)"

definition config_boards :: "config \<Rightarrow> config_value list res" where
  "config_boards c =
     res_bind (config_attr c ''boards'') (\<lambda>u.
       if \<not> setting_truthy u then Inr []
       else case u of
              Callable f \<Rightarrow> Inl TypeError
            | Fixed v \<Rightarrow>
                res_bind (iter_value v) (\<lambda>vs. if list_all hashable vs then Inr vs else Inl TypeError))"

definition GetBoards :: "site \<Rightarrow> config_value list res" where
  "GetBoards s = res_bind (map_res (\<lambda>p. config_boards (snd p)) (site_configs s)) (\<lambda>bs. Inr (remdups (concat bs)))"

text \<open>\<open>v in u\<close> for a string \<open>v\<close>.\<close>

fun str_in_list :: "string \<Rightarrow> config_value list \<Rightarrow> bool res" where
  "str_in_list s [] = Inr False"
| "str_in_list s (v # vs) = res_bind (py_eq v (VStr s)) (\<lambda>b. if b then Inr True else str_in_list s vs)"

definition str_in :: "string \<Rightarrow> setting \<Rightarrow> bool res" where
  "str_in s u =
     (case u of
        Fixed (VList vs) \<Rightarrow> str_in_list s vs
      | Fixed (VStr t) \<Rightarrow> Inr (split_first s t \<noteq> None)
      | Fixed (VDict fs) \<Rightarrow> Inr (s \<in> set (dict_keys fs))
      | _ \<Rightarrow> Inl TypeError)"

definition board_matches :: "string option \<Rightarrow> string \<Rightarrow> setting \<Rightarrow> bool res" where
  "board_matches board name boards =
     (if \<not> setting_truthy boards then Inr False
      else case board of
             None \<Rightarrow> Inr True
           | Some b \<Rightarrow>
               res_bind (str_in b boards) (\<lambda>found.
                 Inr (found \<or> (b \<noteq> [] \<and> name \<in> set [b @ ''-release'', b @ ''-full'']))))"

definition full_config_step :: "string option \<Rightarrow> string \<times> config \<Rightarrow> config list \<times> config list \<Rightarrow>
    (config list \<times> config list) res" where
  "full_config_step board p r =
     (case (p, r) of ((name, c), (ext_cfgs, int_cfgs)) \<Rightarrow>
       res_bind (config_item c ''boards'') (\<lambda>boards.
         res_bind (board_matches board name boards) (\<lambda>m.
           if \<not> m then Inr (ext_cfgs, int_cfgs)
           else if \<not> endswith name ''-release'' \<and> \<not> endswith name ''-full'' then Inr (ext_cfgs, int_cfgs)
           else res_bind (config_item c ''internal'') (\<lambda>u.
             if endswith name ''-release'' \<and> setting_truthy u
             then res_bind (deepcopy c) (\<lambda>d. Inr (ext_cfgs, int_cfgs @ [d]))
             else if endswith name ''-full'' \<and> \<not> setting_truthy u
             then res_bind (deepcopy c) (\<lambda>d. Inr (ext_cfgs @ [d], int_cfgs))
             else Inr (ext_cfgs, int_cfgs)))))"

definition FindFullConfigsForBoard :: "site \<Rightarrow> string option \<Rightarrow> (config list \<times> config list) res" where
  "FindFullConfigsForBoard s board = fold_res (full_config_step board) (site_configs s) ([], [])"

definition FindCanonicalConfigForBoard :: "site \<Rightarrow> string \<Rightarrow> bool \<Rightarrow> config res" where
  "FindCanonicalConfigForBoard s board allow_internal =
     res_bind (FindFullConfigsForBoard s (Some board)) (\<lambda>(ext_cfgs, int_cfgs).
       case (if allow_internal then int_cfgs else []) @ ext_cfgs of
         [] \<Rightarrow> Inl ValueError
       | c # _ \<Rightarrow> Inr c)"

text \<open>The option is the command line's \<open>remote_trybot\<close>, when there is a command line.\<close>

definition slave_entry :: "site \<Rightarrow> config_value \<Rightarrow> (string \<times> config) res" where
  "slave_entry s n =
     res_bind (lookup_value (site_configs s) n) (\<lambda>c.
       case n of VStr k \<Rightarrow> Inr (k, c) | _ \<Rightarrow> Inl KeyError)"

definition GetSlaveConfigMapForMaster :: "site \<Rightarrow> config \<Rightarrow> bool option \<Rightarrow> bool \<Rightarrow> (string, config) dict res" where
  "GetSlaveConfigMapForMaster s master_config options important_only =
     res_bind (config_attr master_config ''master'') (\<lambda>m.
       if \<not> setting_truthy m then Inl AssertionError
       else res_bind (config_attr master_config ''slave_configs'') (\<lambda>u.
         case u of
           Callable f \<Rightarrow> if options = Some True then Inr [] else Inl TypeError
         | Fixed v \<Rightarrow>
             if v = VNone then Inl AssertionError
             else if options = Some True then Inr []
             else res_bind (iter_value v) (\<lambda>names.
               res_bind (map_res (slave_entry s) names) (\<lambda>slaves.
                 if \<not> important_only then Inr (dict_update [] slaves)
                 else res_bind (map_res (\<lambda>p. res_bind (config_attr (snd p) ''important'') (\<lambda>i. Inr (setting_truthy i, p)))
                        (dict_update [] slaves)) (\<lambda>ps. Inr (map snd (filter fst ps)))))))"

definition GetSlavesForMaster :: "site \<Rightarrow> config \<Rightarrow> bool option \<Rightarrow> bool \<Rightarrow> config list res" where
  "GetSlavesForMaster s master_config options important_only =
     res_bind (GetSlaveConfigMapForMaster s master_config options important_only) (\<lambda>d. Inr (map snd d))"

section \<open>What applying changes does to one setting\<close>

text \<open>The setting that a key holds after an update that gives \<open>u\<close> for it.\<close>

definition combine :: "string \<Rightarrow> setting \<Rightarrow> setting option \<Rightarrow> setting option res" where
  "combine k u old =
     (case u of
        Callable f \<Rightarrow>
          (case old of
             None \<Rightarrow> Inr (Some (Callable f))
           | Some (Callable g) \<Rightarrow> Inr (Some (stack f g))
           | Some (Fixed v) \<Rightarrow> res_bind (f v) (\<lambda>w. Inr (Some (Fixed w))))
      | Fixed v \<Rightarrow> Inr (if k = ''_template'' then old else Some (Fixed v)))"

text \<open>The same for an update that may not mention the key.\<close>

definition updated :: "string \<Rightarrow> setting option \<Rightarrow> setting option \<Rightarrow> setting option res" where
  "updated k u old = (case u of None \<Rightarrow> Inr old | Some u \<Rightarrow> combine k u old)"

lemma updated_simps [simp]: "updated k None old = Inr old" "updated k (Some u) old = combine k u old"
  by (simp_all add: updated_def)

lemma apply_item_get:
  assumes "apply_item (n, u) self = Inr r"
  shows "combine n u (dict_get self n) = Inr (dict_get r n)"
    and "k \<noteq> n \<Longrightarrow> dict_get r k = dict_get self k"
  using assms
  by (auto simp: apply_item_def combine_def dict_get_set res_bind_Inr
      split: setting.splits option.splits if_splits)

lemma apply_item_total:
  "combine n u (dict_get self n) = Inr x \<Longrightarrow> \<exists>r. apply_item (n, u) self = Inr r"
  by (auto simp: apply_item_def combine_def res_bind_Inr split: setting.splits option.splits if_splits)

lemma apply_update_get:
  "apply_update upd self = Inr r \<Longrightarrow> dict_ok upd \<Longrightarrow>
     updated k (dict_get upd k) (dict_get self k) = Inr (dict_get r k)"
proof (induction upd arbitrary: self)
  case (Cons p upd)
  obtain n u where p: "p = (n, u)" by force
  from Cons.prems obtain m where m: "apply_item (n, u) self = Inr m" "apply_update upd m = Inr r"
    by (auto simp: apply_update_def p split: sum.splits)
  have ok: "dict_ok upd" "n \<notin> set (dict_keys upd)" using Cons.prems by (auto simp: dict_ok_def dict_keys_def p)
  note IH = Cons.IH[OF m(2) ok(1)]
  show ?case
  proof (cases "k = n")
    case True
    then have "dict_get upd k = None" using ok(2) by (simp add: dict_get_None)
    then show ?thesis using True IH apply_item_get(1)[OF m(1)] by (simp add: p dict_get_Cons)
  next
    case False
    then show ?thesis using IH apply_item_get(2)[OF m(1) False] by (simp add: p dict_get_Cons)
  qed
qed (simp add: apply_update_def)

lemma apply_update_total:
  assumes "dict_ok upd" "\<forall>(k, u) \<in> set upd. \<exists>x. combine k u (dict_get self k) = Inr x"
  shows "\<exists>r. apply_update upd self = Inr r"
  using assms
proof (induction upd arbitrary: self)
  case (Cons p upd)
  obtain n u where p: "p = (n, u)" by force
  then obtain m where m: "apply_item (n, u) self = Inr m" using Cons.prems(2) apply_item_total by force
  have "dict_get m k = dict_get self k" if "(k, w) \<in> set upd" for k w
    using that Cons.prems(1) by (intro apply_item_get(2)[OF m]) (auto simp: dict_ok_def p rev_image_eqI)
  then have "\<forall>(k, u) \<in> set upd. \<exists>x. combine k u (dict_get m k) = Inr x" using Cons.prems(2) by fastforce
  moreover have "dict_ok upd" using Cons.prems(1) by (simp add: dict_ok_def)
  ultimately obtain r where "apply_update upd m = Inr r" using Cons.IH by blast
  then show ?case using m by (simp add: apply_update_def p)
qed (simp add: apply_update_def)

lemma apply_item_keys:
  assumes "apply_item p self = Inr r"
  shows "set (dict_keys self) \<subseteq> set (dict_keys r)" and "dict_ok self \<Longrightarrow> dict_ok r"
  using assms
  by (auto simp: apply_item_def dict_set_keys dict_ok_set res_bind_Inr split: setting.splits option.splits if_splits)

lemma apply_update_ok: "apply_update upd self = Inr r \<Longrightarrow> dict_ok self \<Longrightarrow> dict_ok r"
  unfolding apply_update_def
  by (erule fold_res_invariant[where P = dict_ok]) (auto intro: apply_item_keys)

lemma apply_update_keys: "apply_update upd self = Inr r \<Longrightarrow> set (dict_keys self) \<subseteq> set (dict_keys r)"
  unfolding apply_update_def
  by (erule fold_res_invariant[where P = "\<lambda>c. set (dict_keys self) \<subseteq> set (dict_keys c)"])
    (auto dest: apply_item_keys(1))

lemma BuildConfig_apply_ok: "BuildConfig_apply self args kwargs = Inr r \<Longrightarrow> dict_ok self \<Longrightarrow> dict_ok r"
  unfolding BuildConfig_apply_def by (erule fold_res_invariant[where P = dict_ok]) (auto intro: apply_update_ok)

lemma BuildConfig_apply_keys:
  "BuildConfig_apply self args kwargs = Inr r \<Longrightarrow> set (dict_keys self) \<subseteq> set (dict_keys r)"
  unfolding BuildConfig_apply_def
  by (erule fold_res_invariant[where P = "\<lambda>c. set (dict_keys self) \<subseteq> set (dict_keys c)"])
    (auto dest: apply_update_keys)

lemma apply_update_Nil [simp]: "apply_update [] c = Inr c"
  by (simp add: apply_update_def)

lemma res_bind_assoc: "res_bind (res_bind r f) g = res_bind r (\<lambda>x. res_bind (f x) g)"
  by (cases r) simp_all

lemma stack_assoc: "stack f (\<lambda>x. res_bind (h x) g) = stack (\<lambda>x. res_bind (g x) f) h"
  by (simp add: stack_def res_bind_assoc)

text \<open>One setting: applying two updates is applying the second to the first, and the result once.\<close>

lemma updated_compose:
  assumes "updated k u1 old = Inr m" "updated k u2 m = Inr r"
    and "k = ''_template'' \<Longrightarrow> \<forall>f. u2 \<noteq> Some (Callable f)"
  shows "\<exists>u. updated k u2 u1 = Inr u \<and> updated k u old = Inr r"
proof (cases u2)
  case None
  then show ?thesis using assms by simp
next
  case (Some u)
  show ?thesis
  proof (cases u)
    case (Fixed v)
    then show ?thesis using assms Some by (auto simp: combine_def split: if_splits)
  next
    case u: (Callable f)
    with assms(3) Some have k: "k \<noteq> ''_template''" by auto
    show ?thesis
    proof (cases u1)
      case None
      then show ?thesis using assms Some u by (auto simp: combine_def)
    next
      case u1: (Some s)
      show ?thesis
      proof (cases s)
        case (Fixed v)
        then show ?thesis using assms Some u u1 k by (auto simp: combine_def res_bind_Inr)
      next
        case s: (Callable g)
        show ?thesis
        proof (cases old)
          case None
          then show ?thesis using assms Some u u1 s by (auto simp: combine_def stack_def)
        next
          case (Some z)
          then show ?thesis using assms \<open>u2 = Some u\<close> u u1 s
            by (cases z) (auto simp: combine_def res_bind_Inr stack_def res_bind_assoc)
        qed
      qed
    qed
  qed
qed
section \<open>Templates compose\<close>

lemma BuildConfig_apply_one: "BuildConfig_apply c [] kwargs = apply_update kwargs c"
  by (simp add: BuildConfig_apply_def split: sum.split)

lemma BuildConfig_apply_two:
  "BuildConfig_apply c [t] kwargs = Inr r \<longleftrightarrow> (\<exists>m. apply_update t c = Inr m \<and> apply_update kwargs m = Inr r)"
  by (auto simp: BuildConfig_apply_def split: sum.splits)

text \<open>C14. Templates can be applied to each other: when a configuration takes a template and then
  further changes, applying the changes to the template and the outcome to the configuration
  succeeds too and gives every key the same setting, callables that are still to be resolved
  included.\<close>

theorem template_apply_composes:
  assumes "BuildConfig_apply base [template] changes = Inr r" "dict_ok template" "dict_ok changes"
    and "\<forall>f. dict_get changes ''_template'' \<noteq> Some (Callable f)"
  shows "\<exists>t r'. BuildConfig_apply template [] changes = Inr t \<and> BuildConfig_apply base [] t = Inr r'
    \<and> (\<forall>k. dict_get r' k = dict_get r k)"
proof -
  obtain m where m: "apply_update template base = Inr m" "apply_update changes m = Inr r"
    using assms(1) by (auto simp: BuildConfig_apply_two)
  note u1 = apply_update_get[OF m(1) assms(2)] and u2 = apply_update_get[OF m(2) assms(3)]
  have comp: "\<exists>u. updated k (dict_get changes k) (dict_get template k) = Inr u
      \<and> updated k u (dict_get base k) = Inr (dict_get r k)" for k
    by (rule updated_compose[OF u1 u2]) (use assms(4) in auto)
  have "\<forall>(k, u) \<in> set changes. \<exists>x. combine k u (dict_get template k) = Inr x"
  proof clarify
    fix k u assume "(k, u) \<in> set changes"
    then have "dict_get changes k = Some u" by (simp add: dict_get_set_iff[OF assms(3)])
    then show "\<exists>x. combine k u (dict_get template k) = Inr x" using comp[of k] by auto
  qed
  then obtain t where t: "apply_update changes template = Inr t" using apply_update_total[OF assms(3)] by blast
  have ok: "dict_ok t" by (rule apply_update_ok[OF t assms(2)])
  have step: "updated k (dict_get t k) (dict_get base k) = Inr (dict_get r k)" for k
    using comp[of k] apply_update_get[OF t assms(3), where k = k] by auto
  have "\<forall>(k, u) \<in> set t. \<exists>x. combine k u (dict_get base k) = Inr x"
  proof clarify
    fix k u assume "(k, u) \<in> set t"
    then have "dict_get t k = Some u" by (simp add: dict_get_set_iff[OF ok])
    then show "\<exists>x. combine k u (dict_get base k) = Inr x" using step[of k] by auto
  qed
  then obtain r' where r': "apply_update t base = Inr r'" using apply_update_total[OF ok] by blast
  have "dict_get r' k = dict_get r k" for k
    using apply_update_get[OF r' ok, where k = k] step[of k] by simp
  with t r' show ?thesis by (auto simp: BuildConfig_apply_one)
qed

section \<open>The settings of an added configuration\<close>

lemma dict_get_fixed: "dict_get (fixed_config d) k = map_option Fixed (dict_get d k)"
  by (simp add: fixed_config_def dict_get_map)

lemma fixed_config_ok: "dict_ok (fixed_config d) \<longleftrightarrow> dict_ok d"
  by (simp add: fixed_config_def)

lemma fixed_config_keys: "dict_keys (fixed_config d) = dict_keys d"
  by (simp add: fixed_config_def)

lemma fold_updates_other:
  assumes "fold_res apply_update us c = Inr r" "\<forall>u \<in> set us. dict_ok u \<and> dict_get u k = None"
  shows "dict_get r k = dict_get c k"
  using assms
proof (induction us arbitrary: c)
  case (Cons u us)
  from Cons.prems obtain m where m: "apply_update u c = Inr m" "fold_res apply_update us m = Inr r"
    by (auto split: sum.splits)
  then have "dict_get m k = dict_get c k" using apply_update_get[OF m(1), where k = k] Cons.prems(2) by simp
  then show ?case using Cons.IH[OF m(2)] Cons.prems(2) by simp
qed simp

lemma Add_run:
  assumes "Add s name template args kwargs = Inr (s', c)"
  obtains d v where "fold_res apply_update ((if template = [] then args else template # args) @ [kwargs]) (GetDefault s) = Inr d"
    and "template_name s template = Inr v" "name \<notin> set (dict_keys (site_configs s))"
    and "c = dict_set (dict_set d ''name'' (Fixed (VStr name))) ''_template'' (Fixed v)"
    and "s' = s\<lparr>site_configs := dict_set (site_configs s) name c\<rparr>"
  using assms
  by (auto simp: Add_def res_bind_Inr Let_def BuildConfig_apply_def split: if_splits)

text \<open>The functions that layers without a fixed value have for a key, in order.\<close>

definition later_changes :: "string \<Rightarrow> config list \<Rightarrow> (config_value \<Rightarrow> config_value res) list" where
  "later_changes k layers =
     List.map_filter (\<lambda>w. case dict_get w k of Some (Callable f) \<Rightarrow> Some f | _ \<Rightarrow> None) layers"

lemma later_changes_Cons:
  "later_changes k (w # ws) =
     (case dict_get w k of Some (Callable f) \<Rightarrow> f # later_changes k ws | _ \<Rightarrow> later_changes k ws)"
  by (simp add: later_changes_def List.map_filter_simps split: option.splits setting.splits)

lemma fold_updates_later:
  assumes "fold_res apply_update post c = Inr r" "\<forall>w \<in> set post. dict_ok w \<and> (\<forall>u. dict_get w k \<noteq> Some (Fixed u))"
    and "dict_get c k = Some (Fixed v)"
  shows "\<exists>w. fold_res (\<lambda>f x. f x) (later_changes k post) v = Inr w \<and> dict_get r k = Some (Fixed w)"
  using assms
proof (induction post arbitrary: c v)
  case Nil
  then show ?case by (simp add: later_changes_def List.map_filter_simps)
next
  case (Cons u us)
  from Cons.prems obtain m where m: "apply_update u c = Inr m" "fold_res apply_update us m = Inr r"
    by (auto split: sum.splits)
  have u: "updated k (dict_get u k) (Some (Fixed v)) = Inr (dict_get m k)" "\<forall>x. dict_get u k \<noteq> Some (Fixed x)"
    using apply_update_get[OF m(1), where k = k] Cons.prems(2,3) by simp_all
  show ?case
  proof (cases "dict_get u k")
    case None
    then have "dict_get m k = Some (Fixed v)" using u(1) by simp
    then show ?thesis using Cons.IH[OF m(2)] Cons.prems(2) None by (simp add: later_changes_Cons)
  next
    case (Some y)
    then obtain f where f: "dict_get u k = Some (Callable f)" using u(2) by (cases y) auto
    then obtain w where "f v = Inr w" "dict_get m k = Some (Fixed w)"
      using u(1) by (auto simp: combine_def res_bind_Inr)
    then show ?thesis using Cons.IH[OF m(2)] Cons.prems(2) f by (simp add: later_changes_Cons)
  qed
qed

lemma fold_updates_last:
  assumes "fold_res apply_update (pre @ u # post) c = Inr r" "dict_ok u"
    and "\<forall>w \<in> set post. dict_ok w \<and> (\<forall>x. dict_get w k \<noteq> Some (Fixed x))"
    and "dict_get u k = Some (Fixed v)" "k \<noteq> ''_template''"
  shows "\<exists>w. fold_res (\<lambda>f x. f x) (later_changes k post) v = Inr w \<and> dict_get r k = Some (Fixed w)"
  using assms(1)
proof (induction pre arbitrary: c)
  case Nil
  then obtain m where m: "apply_update u c = Inr m" "fold_res apply_update post m = Inr r"
    by (auto split: sum.splits)
  have "dict_get m k = Some (Fixed v)"
    using apply_update_get[OF m(1) assms(2), where k = k] assms(4,5) by (simp add: combine_def)
  then show ?case by (rule fold_updates_later[OF m(2) assms(3)])
next
  case (Cons p pre)
  then show ?case by (auto split: sum.splits)
qed

text \<open>C22. The settings of an added configuration, other than its name and its template, come from its layers:
  the defaults, the template, the mixins and the keyword arguments in this order. The value of a key is that of
  the last layer that has a fixed value for it, with the callables of the layers after that one applied to it
  in their order.\<close>

theorem Add_last_layer_wins:
  assumes "Add s name template args kwargs = Inr (s', c)"
    and "GetDefault s # template # args @ [kwargs] = pre @ layer # post"
    and "\<forall>w \<in> set (pre @ layer # post). dict_ok w"
    and "dict_get layer k = Some (Fixed v)" "\<forall>w \<in> set post. \<forall>u. dict_get w k \<noteq> Some (Fixed u)"
    and "k \<noteq> ''name''" "k \<noteq> ''_template''"
  shows "dict_get (site_configs s') name = Some c
    \<and> (\<exists>w. fold_res (\<lambda>f x. f x) (later_changes k post) v = Inr w \<and> dict_get c k = Some (Fixed w))"
proof -
  obtain d w where run: "fold_res apply_update ((if template = [] then args else template # args) @ [kwargs]) (GetDefault s) = Inr d"
    and c: "c = dict_set (dict_set d ''name'' (Fixed (VStr name))) ''_template'' (Fixed w)"
    and s': "s' = s\<lparr>site_configs := dict_set (site_configs s) name c\<rparr>"
    using assms(1) by (elim Add_run)
  have all: "fold_res apply_update (template # args @ [kwargs]) (GetDefault s) = Inr d"
    using run by (simp split: if_splits)
  have post: "\<forall>w \<in> set post. dict_ok w \<and> (\<forall>u. dict_get w k \<noteq> Some (Fixed u))" using assms(3,5) by simp
  have "\<exists>w. fold_res (\<lambda>f x. f x) (later_changes k post) v = Inr w \<and> dict_get d k = Some (Fixed w)"
  proof (cases pre)
    case Nil
    then have l: "layer = GetDefault s" "post = template # args @ [kwargs]" using assms(2) by simp_all
    show ?thesis by (rule fold_updates_later[OF all[folded l(2)] post]) (use assms(4) l(1) in simp)
  next
    case (Cons p pre')
    then have "template # args @ [kwargs] = pre' @ layer # post" using assms(2) by simp
    with all have run': "fold_res apply_update (pre' @ layer # post) (GetDefault s) = Inr d" by (simp only:)
    show ?thesis by (rule fold_updates_last[OF run' _ post assms(4,7)]) (use assms(3) in simp)
  qed
  then show ?thesis using assms(6,7) by (simp add: c s' dict_get_set)
qed

section \<open>Use flags\<close>

definition opposite_flag :: "string \<Rightarrow> string" where
  "opposite_flag f = (if startswith f ''-'' then tl f else CHR ''-'' # f)"

lemma set_shadowed: "set (shadowed_useflags fs) = opposite_flag ` set fs"
  by (auto simp: shadowed_useflags_def opposite_flag_def)

lemma old_useflags_list [simp]: "old_useflags (VList (map VStr fs)) = Inr fs"
proof -
  have "str_list (map VStr fs) = Inr fs" for fs
    unfolding str_list_def by (induction fs) simp_all
  then show ?thesis by (cases "fs = []") (simp_all add: old_useflags_def iter_value_def)
qed

text \<open>C31. Appending use flags that do not contradict each other: every appended flag is set, none
  of their opposites is, every other flag stays as it was, the flags come sorted without
  duplicates, and appending the same flags again changes nothing.\<close>

theorem append_useflags_wins:
  assumes "append_useflags flags v = Inr w" "old_useflags v = Inr old" "\<forall>f \<in> set flags. opposite_flag f \<notin> set flags"
  shows "\<exists>new. w = VList (map VStr new) \<and> sorted new \<and> distinct new \<and> set flags \<subseteq> set new
    \<and> (\<forall>f. f \<in> set new \<longleftrightarrow> f \<in> set flags \<or> (f \<in> set old \<and> f \<notin> opposite_flag ` set flags))
    \<and> append_useflags flags w = Inr w"
proof -
  let ?keep = "\<lambda>f. f \<notin> set (shadowed_useflags flags)"
  define new where "new = sort (remdups (filter ?keep (old @ flags)))"
  have w: "w = VList (map VStr new)"
    using assms(1,2) by (simp add: append_useflags_def new_def)
  have set: "set new = (set old \<union> set flags) - opposite_flag ` set flags"
    by (auto simp: new_def set_shadowed)
  have no: "set flags \<inter> opposite_flag ` set flags = {}" using assms(3) by auto
  have mem: "f \<in> set new \<longleftrightarrow> f \<in> set flags \<or> (f \<in> set old \<and> f \<notin> opposite_flag ` set flags)" for f
    using set no by auto
  have sorted: "sorted new" "distinct new" by (simp_all add: new_def)
  have "sort (remdups (filter ?keep (new @ flags))) = new"
  proof (rule sorted_distinct_set_unique)
    show "set (sort (remdups (filter ?keep (new @ flags)))) = set new"
      using set no by (auto simp: set_shadowed)
  qed (use sorted in simp_all)
  then have "append_useflags flags w = Inr w" by (simp add: append_useflags_def w)
  then show ?thesis using w sorted mem by blast
qed

section \<open>The invariant of the site configuration\<close>

definition template_known :: "site \<Rightarrow> config_value \<Rightarrow> bool" where
  "template_known s v \<longleftrightarrow> truthy v \<longrightarrow> (\<exists>t. v = VStr t \<and> t \<in> set (dict_keys (site_templates s)))"

definition complete_config :: "site \<Rightarrow> config \<Rightarrow> bool" where
  "complete_config s c \<longleftrightarrow> dict_ok c \<and> set (dict_keys (site_defaults s)) \<subseteq> set (dict_keys c)"

definition has_identity :: "site \<Rightarrow> string \<Rightarrow> config \<Rightarrow> bool" where
  "has_identity s name c \<longleftrightarrow>
     dict_get c ''name'' = Some (Fixed (VStr name))
     \<and> (\<exists>v. dict_get c ''_template'' = Some (Fixed v) \<and> template_known s v)"

text \<open>\<open>renamed\<close> are the names of the configurations that have been given another name or a computed template.\<close>

definition site_inv :: "string set \<Rightarrow> site \<Rightarrow> bool" where
  "site_inv renamed s \<longleftrightarrow>
     dict_ok (site_defaults s) \<and> dict_ok (site_configs s) \<and> dict_ok (site_templates s)
     \<and> (\<forall>name c. dict_get (site_configs s) name = Some c \<longrightarrow>
          complete_config s c \<and> (name \<notin> renamed \<longrightarrow> has_identity s name c))
     \<and> (\<forall>name t. dict_get (site_templates s) name = Some t \<longrightarrow>
          dict_ok t \<and> dict_get t ''_template'' = Some (Fixed (VStr name)))"

text \<open>The changes of a single configuration do not rename it or compute its template.\<close>

definition keeps_identity :: "config \<Rightarrow> bool" where
  "keeps_identity u \<longleftrightarrow>
     dict_ok u \<and> dict_get u ''name'' = None \<and> (\<forall>f. dict_get u ''_template'' \<noteq> Some (Callable f))"

definition board_configs :: "string \<Rightarrow> string list \<Rightarrow> string set" where
  "board_configs suffix boards = (\<lambda>board. board_config board suffix) ` set boards"

text \<open>
  What a program that describes its configurations does with the site configuration, whatever the arguments. Only
  \<open>ApplyForBoards\<close> can rename a configuration; one that is added carries its name.
\<close>

inductive reachable_site :: "fields \<Rightarrow> string set \<Rightarrow> site \<Rightarrow> bool" for defaults where
  start: "reachable_site defaults {} (SiteConfig_init defaults [])"
| add: "reachable_site defaults R s \<Longrightarrow> Add s name template args kwargs = Inr (s', c)
    \<Longrightarrow> reachable_site defaults (R - {name}) s'"
| add_group: "reachable_site defaults R s \<Longrightarrow> AddGroup s name args kwargs = Inr (s', c)
    \<Longrightarrow> reachable_site defaults (R - {name}) s'"
| add_for_boards: "reachable_site defaults R s \<Longrightarrow> AddForBoards suffix boards per_board template args kwargs s = Inr (s', cs)
    \<Longrightarrow> reachable_site defaults (R - board_configs suffix boards) s'"
| apply_for_boards: "reachable_site defaults R s \<Longrightarrow> ApplyForBoards suffix boards args kwargs s = Inr (s', cs)
    \<Longrightarrow> reachable_site defaults
          (if \<forall>u \<in> set (args @ [kwargs]). keeps_identity u then R else R \<union> board_configs suffix boards) s'"
| add_template: "reachable_site defaults R s \<Longrightarrow> AddTemplate s name args kwargs = Inr (s', c) \<Longrightarrow> reachable_site defaults R s'"

lemma template_name_known: "template_name s t = Inr v \<Longrightarrow> template_known s v"
  by (auto simp: template_name_def template_known_def split: if_splits setting.splits config_value.splits)

lemma site_inv_grow: "site_inv R s \<Longrightarrow> R \<subseteq> R' \<Longrightarrow> site_inv R' s"
  unfolding site_inv_def by blast

lemma same_site [simp]:
  "has_identity (s\<lparr>site_configs := cs\<rparr>) n c \<longleftrightarrow> has_identity s n c" "complete_config (s\<lparr>site_configs := cs\<rparr>) c \<longleftrightarrow> complete_config s c"
  by (simp_all add: has_identity_def template_known_def complete_config_def)

text \<open>Storing a complete configuration.\<close>

lemma store_inv:
  assumes "site_inv R s" "complete_config s c" "n \<notin> R' \<Longrightarrow> has_identity s n c" "R \<subseteq> insert n R'"
  shows "site_inv R' (s\<lparr>site_configs := dict_set (site_configs s) n c\<rparr>)"
proof -
  have "complete_config s e \<and> (m \<notin> R' \<longrightarrow> has_identity s m e)" if "dict_get (dict_set (site_configs s) n c) m = Some e" for m e
    using that assms by (cases "m = n") (auto simp: dict_get_set site_inv_def)
  then show ?thesis using assms(1) by (simp add: site_inv_def dict_ok_set)
qed

lemma Add_inv:
  assumes "Add s name template args kwargs = Inr (s', c)" "site_inv R s"
  shows "site_inv (R - {name}) s'"
proof -
  obtain d v where run: "fold_res apply_update ((if template = [] then args else template # args) @ [kwargs]) (GetDefault s) = Inr d"
    and v: "template_name s template = Inr v"
    and c: "c = dict_set (dict_set d ''name'' (Fixed (VStr name))) ''_template'' (Fixed v)"
    and s': "s' = s\<lparr>site_configs := dict_set (site_configs s) name c\<rparr>"
    using assms(1) by (elim Add_run)
  from run have b: "BuildConfig_apply (GetDefault s) (if template = [] then args else template # args) kwargs = Inr d"
    by (simp only: BuildConfig_apply_def)
  have ok: "dict_ok d" using BuildConfig_apply_ok[OF b] assms(2) by (simp add: GetDefault_def fixed_config_ok site_inv_def)
  have keys: "set (dict_keys (site_defaults s)) \<subseteq> set (dict_keys d)"
    using BuildConfig_apply_keys[OF b] by (simp add: GetDefault_def fixed_config_keys)
  have "complete_config s c" using ok keys by (auto simp: complete_config_def c dict_ok_set dict_set_keys)
  moreover have "has_identity s name c" using template_name_known[OF v] by (simp add: has_identity_def c dict_get_set)
  ultimately show ?thesis unfolding s' using assms(2) by (intro store_inv[of R]) auto
qed

lemma AddForBoards_inv:
  "AddForBoards suffix boards per_board template args kwargs s = Inr (s', cs) \<Longrightarrow> site_inv R s
    \<Longrightarrow> site_inv (R - board_configs suffix boards) s'"
proof (induction suffix boards per_board template args kwargs s arbitrary: cs R rule: AddForBoards.induct)
  case (1 suffix per_board template args kwargs s)
  then show ?case by (simp add: board_configs_def)
next
  case (2 suffix board boards per_board template args kwargs s)
  from 2(2) obtain s1 c1 cs1 where add:
    "Add s (board_config board suffix) template (args @ [[(''boards'', Fixed (VList [VStr board]))]]
            @ (case dict_get per_board board of None \<Rightarrow> [] | Some c \<Rightarrow> [c])) kwargs = Inr (s1, c1)"
    and rest: "AddForBoards suffix boards per_board template args kwargs s1 = Inr (s', cs1)"
    by (auto simp: Let_def res_bind_Inr)
  have "site_inv (R - {board_config board suffix} - board_configs suffix boards) s'"
    by (rule 2(1)[OF _ rest Add_inv[OF add 2(3)]]) simp
  moreover have "R - {board_config board suffix} - board_configs suffix boards = R - board_configs suffix (board # boards)"
    by (auto simp: board_configs_def)
  ultimately show ?case by simp
qed

lemma apply_keeps_identity:
  assumes "BuildConfig_apply c args kwargs = Inr d" "\<forall>u \<in> set (args @ [kwargs]). keeps_identity u" "has_identity s name c"
  shows "has_identity s name d"
proof -
  have t: "dict_get e ''_template'' = dict_get d ''_template''"
    if "fold_res apply_update us d = Inr e" "\<forall>u \<in> set us. keeps_identity u" "dict_get d ''_template'' = Some (Fixed v)" for us d e v
    using that
  proof (induction us arbitrary: d)
    case (Cons u us)
    from Cons.prems obtain m where m: "apply_update u d = Inr m" "fold_res apply_update us m = Inr e"
      by (auto split: sum.splits)
    have "keeps_identity u" using Cons.prems(2) by simp
    then have "dict_get m ''_template'' = dict_get d ''_template''"
      using apply_update_get[OF m(1), where k = "''_template''"]
      by (auto simp: keeps_identity_def updated_def combine_def split: option.splits setting.splits)
    then show ?case using Cons.IH[OF m(2)] Cons.prems by simp
  qed simp
  have run: "fold_res apply_update (args @ [kwargs]) c = Inr d" using assms(1) by (simp only: BuildConfig_apply_def)
  have "dict_get d ''name'' = dict_get c ''name''"
    by (rule fold_updates_other[OF run]) (use assms(2) in \<open>auto simp: keeps_identity_def\<close>)
  moreover have "dict_get d ''_template'' = dict_get c ''_template''"
    using t[OF run] assms(2,3) by (auto simp: has_identity_def)
  ultimately show ?thesis using assms(3) by (simp add: has_identity_def)
qed

lemma ApplyForBoards_inv:
  "ApplyForBoards suffix boards args kwargs s = Inr (s', cs) \<Longrightarrow>
     (\<forall>u \<in> set (args @ [kwargs]). keeps_identity u) \<or> board_configs suffix boards \<subseteq> R \<Longrightarrow> site_inv R s \<Longrightarrow> site_inv R s'"
proof (induction suffix boards args kwargs s arbitrary: cs rule: ApplyForBoards.induct)
  case (2 suffix board boards args kwargs s)
  let ?n = "board_config board suffix"
  from 2(2) obtain c d cs' where c: "dict_get (site_configs s) ?n = Some c" and d: "BuildConfig_apply c args kwargs = Inr d"
    and rest: "ApplyForBoards suffix boards args kwargs (s\<lparr>site_configs := dict_set (site_configs s) ?n d\<rparr>) = Inr (s', cs')"
    by (auto simp: res_bind_Inr split: option.splits)
  have old: "complete_config s c" "?n \<notin> R \<Longrightarrow> has_identity s ?n c" using 2(4) c by (simp_all add: site_inv_def)
  have "complete_config s d"
    using old(1) BuildConfig_apply_ok[OF d] BuildConfig_apply_keys[OF d] by (auto simp: complete_config_def)
  moreover have "has_identity s ?n d" if "?n \<notin> R"
    using 2(3) that by (intro apply_keeps_identity[OF d _ old(2)]) (auto simp: board_configs_def)
  ultimately have "site_inv R (s\<lparr>site_configs := dict_set (site_configs s) ?n d\<rparr>)"
    using 2(4) by (intro store_inv[of R]) auto
  moreover have "(\<forall>u \<in> set (args @ [kwargs]). keeps_identity u) \<or> board_configs suffix boards \<subseteq> R"
    using 2(3) by (auto simp: board_configs_def)
  ultimately show ?case by (intro 2(1)[OF c rest])
qed simp

lemma AddTemplate_inv:
  assumes "AddTemplate s name args kwargs = Inr (s', t)" "site_inv R s" shows "site_inv R s'"
proof -
  from assms(1) obtain c where c: "BuildConfig_apply [] args kwargs = Inr c"
      and s': "s' = s\<lparr>site_templates := dict_set (site_templates s) name (dict_set c ''_template'' (Fixed (VStr name)))\<rparr>"
    by (auto simp: AddTemplate_def res_bind_Inr Let_def split: if_splits)
  have "dict_ok c" by (rule BuildConfig_apply_ok[OF c]) simp
  moreover have "has_identity s' n e" if "has_identity s n e" for n e
    using that by (auto simp: has_identity_def template_known_def s' dict_set_keys)
  ultimately show ?thesis
    using assms(2) by (auto simp: site_inv_def s' dict_ok_set dict_get_set complete_config_def)
qed

lemma AddGroup_inv:
  assumes "AddGroup s name args kwargs = Inr (s', c)" "site_inv R s" shows "site_inv (R - {name}) s'"
proof (cases args)
  case (Cons primary rest)
  with assms(1) obtain cs where "Add s name primary [] ((''child_configs'', Fixed (VList cs)) # kwargs) = Inr (s', c)"
    by (auto simp: AddGroup_def res_bind_Inr split: if_splits)
  then show ?thesis using assms(2) by (rule Add_inv)
qed (use assms(1) in \<open>simp add: AddGroup_def\<close>)

lemma DefaultSettings_ok: "dict_ok DefaultSettings"
  unfolding DefaultSettings_def by (rule dict_ok_update) simp

text \<open>C11. Whatever is added, grouped and updated, with whatever arguments: every configuration of a site
  configuration has a value for every default setting, and every stored template carries its name. Every
  configuration carries the name it is stored under and names no template or one that is stored, except those
  that an \<open>ApplyForBoards\<close> with a name or a computed template has changed since they were added.\<close>

theorem reachable_site_inv: "reachable_site defaults renamed s \<Longrightarrow> site_inv renamed s"
proof (induction rule: reachable_site.induct)
  case start
  have "dict_ok (dict_update DefaultSettings defaults)" by (rule dict_ok_update[OF DefaultSettings_ok])
  then show ?case by (simp add: site_inv_def SiteConfig_init_def)
next
  case (apply_for_boards R s suffix boards args kwargs s' cs)
  have "site_inv (R \<union> board_configs suffix boards) s" by (rule site_inv_grow[OF apply_for_boards(3)]) simp
  then show ?case using ApplyForBoards_inv[OF apply_for_boards(2)] apply_for_boards(3) by simp
qed (blast intro: Add_inv AddGroup_inv AddForBoards_inv AddTemplate_inv)+

section \<open>Examples\<close>

lemma template_apply_composes_witness:
  "\<exists>t r. BuildConfig_apply [(''useflags'', Callable (append_useflags [''asan'']))] []
             [(''useflags'', Callable (append_useflags [''-asan'', ''goma'']))] = Inr t
     \<and> BuildConfig_apply [(''useflags'', Fixed (VList [VStr ''debug'']))] [] t = Inr r
     \<and> dict_get r ''useflags'' = Some (Fixed (VList [VStr ''-asan'', VStr ''debug'', VStr ''goma'']))"
proof -
  let ?base = "[(''useflags'', Fixed (VList [VStr ''debug'']))]"
  let ?template = "[(''useflags'', Callable (append_useflags [''asan'']))]"
  let ?changes = "[(''useflags'', Callable (append_useflags [''-asan'', ''goma'']))]"
  let ?r = "[(''useflags'', Fixed (VList [VStr ''-asan'', VStr ''debug'', VStr ''goma'']))]"
  have "append_useflags [''asan''] (VList [VStr ''debug'']) = Inr (VList [VStr ''asan'', VStr ''debug''])"
    "append_useflags [''-asan'', ''goma''] (VList [VStr ''asan'', VStr ''debug''])
      = Inr (VList [VStr ''-asan'', VStr ''debug'', VStr ''goma''])" by code_simp+
  then have "BuildConfig_apply ?base [?template] ?changes = Inr ?r"
    by (simp add: BuildConfig_apply_def apply_update_def apply_item_def dict_get_Cons)
  moreover have "dict_ok ?template" "dict_ok ?changes" "\<forall>f. dict_get ?changes ''_template'' \<noteq> Some (Callable f)"
    by (simp_all add: dict_ok_def dict_keys_def dict_get_Cons)
  ultimately have "\<exists>t r'. BuildConfig_apply ?template [] ?changes = Inr t \<and> BuildConfig_apply ?base [] t = Inr r'
      \<and> (\<forall>k. dict_get r' k = dict_get ?r k)"
    by (rule template_apply_composes)
  then obtain t r' where "BuildConfig_apply ?template [] ?changes = Inr t" "BuildConfig_apply ?base [] t = Inr r'"
      "\<forall>k. dict_get r' k = dict_get ?r k"
    by (elim exE conjE) (rule that)
  moreover from this(3) have "dict_get r' ''useflags'' = Some (Fixed (VList [VStr ''-asan'', VStr ''debug'', VStr ''goma'']))"
    by (simp add: dict_get_Cons)
  ultimately show ?thesis by blast
qed

lemma Add_last_layer_wins_witness:
  "\<exists>s c. Add (SiteConfig_init [] []) ''eve-full'' [] [[(''useflags'', Fixed (VList [VStr ''debug'']))]]
         [(''useflags'', Callable (append_useflags [''asan'']))] = Inr (s, c)
     \<and> dict_get (site_configs s) ''eve-full'' = Some c
     \<and> dict_get c ''useflags'' = Some (Fixed (VList [VStr ''asan'', VStr ''debug'']))"
proof -
  let ?s = "SiteConfig_init [] []"
  let ?mixin = "[(''useflags'', Fixed (VList [VStr ''debug'']))]"
  let ?kwargs = "[(''useflags'', Callable (append_useflags [''asan'']))]"
  have flags: "append_useflags [''asan''] (VList [VStr ''debug'']) = Inr (VList [VStr ''asan'', VStr ''debug''])" by code_simp
  obtain s c where add: "Add ?s ''eve-full'' [] [?mixin] ?kwargs = Inr (s, c)"
    by (simp add: Add_def SiteConfig_init_def BuildConfig_apply_def apply_update_def apply_item_def
        template_name_def GetDefault_def Let_def fixed_config_def dict_get_set flags)
  have "dict_ok (GetDefault ?s)"
    by (simp add: GetDefault_def SiteConfig_init_def fixed_config_ok dict_ok_update DefaultSettings_ok)
  then have "dict_get (site_configs s) ''eve-full'' = Some c
      \<and> (\<exists>w. fold_res (\<lambda>f x. f x) (later_changes ''useflags'' [?kwargs]) (VList [VStr ''debug'']) = Inr w
           \<and> dict_get c ''useflags'' = Some (Fixed w))"
    by (intro Add_last_layer_wins[OF add, of "[GetDefault ?s, []]" ?mixin "[?kwargs]"])
      (simp_all add: dict_ok_def dict_keys_def dict_get_Cons)
  then show ?thesis using add flags by (auto simp: later_changes_def List.map_filter_simps dict_get_Cons)
qed

lemma append_useflags_wins_witness:
  "append_useflags [''-asan'', ''goma''] (VList [VStr ''asan'', VStr ''debug''])
       = Inr (VList [VStr ''-asan'', VStr ''debug'', VStr ''goma''])
     \<and> append_useflags [''-asan'', ''goma''] (VList [VStr ''-asan'', VStr ''debug'', VStr ''goma''])
       = Inr (VList [VStr ''-asan'', VStr ''debug'', VStr ''goma''])"
proof -
  have run: "append_useflags [''-asan'', ''goma''] (VList [VStr ''asan'', VStr ''debug''])
       = Inr (VList [VStr ''-asan'', VStr ''debug'', VStr ''goma''])" by code_simp
  have old: "old_useflags (VList [VStr ''asan'', VStr ''debug'']) = Inr [''asan'', ''debug'']" by code_simp
  have "\<forall>f \<in> set [''-asan'', ''goma'']. opposite_flag f \<notin> set [''-asan'', ''goma'']" by code_simp
  from append_useflags_wins[OF run old this] show ?thesis using run by blast
qed

lemma reachable_site_inv_witness:
  "\<exists>s c s' cs. Add (SiteConfig_init [] []) ''eve-full'' [] [] [] = Inr (s, c)
     \<and> ApplyForBoards ''full'' [''eve''] [] [(''name'', Fixed (VStr ''x''))] s = Inr (s', cs)
     \<and> site_inv {} s \<and> site_inv {''eve-full''} s'"
proof -
  let ?s = "SiteConfig_init [] []"
  obtain s c where add: "Add ?s ''eve-full'' [] [] [] = Inr (s, c)"
    by (simp add: Add_def SiteConfig_init_def BuildConfig_apply_def template_name_def Let_def)
  then have "dict_get (site_configs s) ''eve-full'' = Some c" by (elim Add_run) (simp add: dict_get_set)
  moreover have name: "board_config ''eve'' ''full'' = ''eve-full''" by code_simp
  ultimately obtain s' cs where upd: "ApplyForBoards ''full'' [''eve''] [] [(''name'', Fixed (VStr ''x''))] s = Inr (s', cs)"
    by (simp add: BuildConfig_apply_def apply_update_def apply_item_def)
  have r: "reachable_site [] {} s" using reachable_site.add[OF reachable_site.start add] by simp
  have "\<not> keeps_identity [(''name'', Fixed (VStr ''x''))]" by (simp add: keeps_identity_def dict_get_Cons)
  then have "reachable_site [] {''eve-full''} s'"
    using reachable_site.apply_for_boards[OF r upd] by (simp add: board_configs_def name)
  then have "site_inv {''eve-full''} s'" by (rule reachable_site_inv)
  with add upd reachable_site_inv[OF r] show ?thesis by blast
qed

end
