(* ===== verification/ConfigJson.thy ===== *)
theory ConfigJson
  imports ConfigLib
begin

text \<open>
  Saving a site configuration as JSON and loading it again (\<open>lib/config_lib.py\<close>):
  \<open>SaveConfigToString\<close>, which writes only what differs from the defaults and the template, and
  \<open>LoadConfigFromString\<close>, which puts the parts together again and rebuilds the objects that
  are stored as strings.

  A callable that is left in a configuration is written as the string \<open>{}\<close>, the encoding of
  its empty \<open>__dict__\<close>; whether two callables are the same object is outside the model. The
  order of the used templates, a set in the source, does not matter because the keys are sorted.
\<close>

section \<open>Saving\<close>

text \<open>\<open>d != v\<close>.\<close>

definition differs :: "setting \<Rightarrow> setting \<Rightarrow> bool res" where
  "differs d u =
     (case (d, u) of
        (Fixed v, Fixed w) \<Rightarrow> res_bind (py_eq v w) (\<lambda>b. Inr (\<not> b))
      | (Callable f, Callable g) \<Rightarrow> not_modelled
      | _ \<Rightarrow> Inr True)"

definition saved_value :: "setting \<Rightarrow> config_value" where
  "saved_value u = (case u of Fixed v \<Rightarrow> v | Callable f \<Rightarrow> VStr ''{}'')"

definition get_template :: "site \<Rightarrow> setting \<Rightarrow> config res" where
  "get_template s u =
     (case u of Fixed v \<Rightarrow> lookup_value (site_templates s) v | Callable f \<Rightarrow> Inl KeyError)"

text \<open>The defaults that a configuration is compared with: those of the site with its template.\<close>

definition marshal_defaults :: "site \<Rightarrow> string \<Rightarrow> setting \<Rightarrow> config res" where
  "marshal_defaults s name template =
     (let defaults = dict_set (GetDefault s) ''name'' (Fixed (VStr name))
      in if setting_truthy template
         then res_bind (get_template s template) (\<lambda>t.
                res_bind (BuildConfig_apply defaults [t] []) (\<lambda>d.
                  Inr (dict_set d ''_template'' (Fixed VNone))))
         else Inr defaults)"

definition size_config :: "config \<Rightarrow> nat" where
  "size_config c = sum_list (map (\<lambda>p. Suc (Suc (case snd p of Fixed v \<Rightarrow> size v | Callable f \<Rightarrow> 0))) c)"

lemma size_config_simps [simp]:
  "size_config [] = 0"
  "size_config ((k, Fixed v) # c) = Suc (Suc (size v + size_config c))"
  "size_config ((k, Callable f) # c) = Suc (Suc (size_config c))"
  by (simp_all add: size_config_def)

lemma size_fixed_config [simp]: "size_config (fixed_config fs) = size_fields fs"
  by (induction fs) (auto simp: fixed_config_def)

text \<open>\<open>_MarshalBuildConfig\<close>, its loop over the settings, and the loop over the children.\<close>

function (sequential) MarshalBuildConfig :: "site \<Rightarrow> string \<Rightarrow> config \<Rightarrow> fields res"
and marshal_items :: "site \<Rightarrow> string \<Rightarrow> config \<Rightarrow> config \<Rightarrow> fields res"
and marshal_children :: "site \<Rightarrow> string \<Rightarrow> config_value list \<Rightarrow> config_value list res" where
  "MarshalBuildConfig s name c =
     res_bind (marshal_defaults s name (config_get c ''_template'')) (\<lambda>defaults.
       marshal_items s name defaults c)"
| "marshal_items s name defaults [] = Inr []"
| "marshal_items s name defaults ((k, Fixed (VList vs)) # c) =
     res_bind (differs (config_get defaults k) (Fixed (VList vs))) (\<lambda>b.
       if \<not> b then marshal_items s name defaults c
       else res_bind (if k = ''child_configs'' then marshal_children s name vs else Inr vs) (\<lambda>ws.
         res_bind (marshal_items s name defaults c) (\<lambda>r. Inr ((k, VList ws) # r))))"
| "marshal_items s name defaults ((k, u) # c) =
     res_bind (differs (config_get defaults k) u) (\<lambda>b.
       if \<not> b then marshal_items s name defaults c
       else res_bind
         (if k = ''child_configs''
          then (case u of
                  Callable f \<Rightarrow> Inl TypeError
                | Fixed v \<Rightarrow>
                    res_bind (iter_value v) (\<lambda>vs. if vs = [] then Inr (VList []) else Inl AttributeError))
          else Inr (saved_value u)) (\<lambda>w.
         res_bind (marshal_items s name defaults c) (\<lambda>r. Inr ((k, w) # r))))"
| "marshal_children s name [] = Inr []"
| "marshal_children s name (VDict fs # vs) =
     res_bind (MarshalBuildConfig s name (fixed_config fs)) (\<lambda>r.
       res_bind (marshal_children s name vs) (\<lambda>rs. Inr (VDict r # rs)))"
| "marshal_children s name (v # vs) = Inl AttributeError"
  by pat_completeness auto
termination
  by (relation "measure (\<lambda>x. case x of
        Inl (s, name, c) \<Rightarrow> 2 * size_config c + 1
      | Inr (Inl (s, name, d, c)) \<Rightarrow> 2 * size_config c
      | Inr (Inr (s, name, vs)) \<Rightarrow> 2 * size_list size vs)") (auto simp flip: size_fields_def)

text \<open>\<open>_MarshalTemplates\<close>: the templates that a configuration names, without the defaults.\<close>

definition template_key :: "setting \<Rightarrow> string option res" where
  "template_key u =
     (case u of
        Callable f \<Rightarrow> Inl KeyError
      | Fixed v \<Rightarrow>
          (case v of
             VNone \<Rightarrow> Inr None
           | VStr t \<Rightarrow> Inr (Some t)
           | _ \<Rightarrow> if hashable v then Inl KeyError else Inl TypeError))"

definition used_templates :: "site \<Rightarrow> string list res" where
  "used_templates s =
     res_bind (map_res (\<lambda>p. template_key (config_get (snd p) ''_template'')) (site_configs s)) (\<lambda>ts.
       Inr (remdups (List.map_filter id ts)))"

fun without_defaults :: "config \<Rightarrow> config \<Rightarrow> fields res" where
  "without_defaults defaults [] = Inr []"
| "without_defaults defaults ((k, u) # c) =
     res_bind (differs (config_get defaults k) u) (\<lambda>b.
       res_bind (without_defaults defaults c) (\<lambda>r.
         Inr (if b then (k, saved_value u) # r else r)))"

definition MarshalTemplate :: "site \<Rightarrow> string \<Rightarrow> fields res" where
  "MarshalTemplate s name =
     (let defaults = GetDefault s
      in res_bind (lookup_value (site_templates s) (VStr name)) (\<lambda>t.
           res_bind (derive defaults [t] []) (\<lambda>expanded.
             without_defaults defaults (dict_set expanded ''_template'' (Fixed (VStr name))))))"

definition MarshalTemplates :: "site \<Rightarrow> fields res" where
  "MarshalTemplates s =
     res_bind (used_templates s) (\<lambda>used.
       map_res (\<lambda>name. res_bind (MarshalTemplate s name) (\<lambda>save. Inr (name, VDict save))) used)"

definition SaveConfigToString :: "site \<Rightarrow> string res" where
  "SaveConfigToString s =
     res_bind (MarshalTemplates s) (\<lambda>templates.
       res_bind (map_res (\<lambda>(k, v). res_bind (MarshalBuildConfig s k v) (\<lambda>r. Inr (k, VDict r))) (site_configs s)) (\<lambda>builds.
         Inr (PrettyJsonDict (dict_update
           [(''_default'', VDict (site_defaults s)), (''_templates'', VDict templates)] builds))))"

definition DumpExpandedConfigToString :: "site \<Rightarrow> string" where
  "DumpExpandedConfigToString s =
     PrettyJsonDict (map (map_prod id (\<lambda>c. VDict (map (map_prod id saved_value) c))) (site_configs s))"

section \<open>Loading\<close>

text \<open>A method call on a value that should be a dictionary, and the argument of \<open>update\<close>.\<close>

definition as_object :: "config_value \<Rightarrow> fields res" where
  "as_object v =
     (case v of VDict fs \<Rightarrow> Inr fs | VList _ \<Rightarrow> Inl TypeError | _ \<Rightarrow> Inl AttributeError)"

definition update_arg :: "config_value \<Rightarrow> fields res" where
  "update_arg v =
     (case v of
        VDict fs \<Rightarrow> Inr fs
      | VList vs \<Rightarrow> if vs = [] then Inr [] else not_modelled
      | VStr s \<Rightarrow> if s = [] then Inr [] else Inl ValueError
      | _ \<Rightarrow> Inl TypeError)"

definition deserialize_one :: "config_class \<Rightarrow> config_value \<Rightarrow> config_value res" where
  "deserialize_one config_class config_string =
     (case config_string of
        VObj c fs \<Rightarrow> if c = config_class then Inr config_string else Inl TypeError
      | VStr s \<Rightarrow>
          res_bind (json_value s) (\<lambda>embedded_configs.
            case embedded_configs of VDict fs \<Rightarrow> make_config config_class fs | _ \<Rightarrow> Inl TypeError)
      | _ \<Rightarrow> Inl TypeError)"

definition DeserializeConfig :: "fields \<Rightarrow> string \<Rightarrow> config_class \<Rightarrow> bool \<Rightarrow> fields res" where
  "DeserializeConfig build_dict config_key config_class preserve_none =
     (let serialized_configs = get_or build_dict config_key VNone;
          rest = dict_del build_dict config_key
      in if serialized_configs = VNone
         then Inr (if preserve_none then dict_set rest config_key VNone else rest)
         else res_bind (iter_value serialized_configs) (\<lambda>cs.
           res_bind (map_res (deserialize_one config_class) cs) (\<lambda>ds.
             Inr (dict_set rest config_key (VList ds)))))"

definition serialized_keys :: "(string \<times> config_class \<times> bool) list" where
  "serialized_keys =
     [(''vm_tests'', VMTestConfig, False), (''vm_tests_override'', VMTestConfig, True),
      (''models'', ModelTestConfig, False), (''hw_tests'', HWTestConfig, False),
      (''hw_tests_override'', HWTestConfig, True), (''gce_tests'', GCETestConfig, False),
      (''tast_vm_tests'', TastVMTestConfig, False), (''moblab_vm_tests'', MoblabVMTestConfig, False),
      (''notification_configs'', NotificationConfig, False)]"

definition DeserializeConfigs :: "fields \<Rightarrow> fields res" where
  "DeserializeConfigs build_dict =
     fold_res (\<lambda>(k, c, p) d. DeserializeConfig d k c p) serialized_keys build_dict"

definition set_default :: "fields \<Rightarrow> string \<Rightarrow> config_value \<Rightarrow> fields" where
  "set_default d k v = (if k \<in> set (dict_keys d) then d else dict_set d k v)"

lemma dict_get_size: "dict_get d k = Some v \<Longrightarrow> size v < size_fields d"
  by (induction d) (auto simp: dict_get_def split: if_splits)

text \<open>The parts of a configuration that do not come from its children.\<close>

definition build_without_children :: "string \<Rightarrow> fields \<Rightarrow> fields \<Rightarrow> fields \<Rightarrow> fields res" where
  "build_without_children name base templates build_dict =
     (let template = get_or build_dict ''_template'' VNone;
          build_dict = set_default build_dict ''name'' (VStr name)
      in res_bind (deepcopy_fields base) (\<lambda>result.
           res_bind (if truthy template
                     then res_bind (lookup_value templates template) (\<lambda>t.
                            res_bind (update_arg t) (\<lambda>u. Inr (dict_update result u)))
                     else Inr result) (\<lambda>result.
             DeserializeConfigs (dict_update result build_dict))))"

function (sequential) CreateBuildConfig :: "string \<Rightarrow> fields \<Rightarrow> fields \<Rightarrow> fields \<Rightarrow> fields res"
and CreateChildren :: "string \<Rightarrow> fields \<Rightarrow> fields \<Rightarrow> config_value list \<Rightarrow> config_value list res" where
  "CreateBuildConfig name base templates build_dict =
     res_bind (build_without_children name base templates (dict_del build_dict ''child_configs'')) (\<lambda>result.
       case dict_get build_dict ''child_configs'' of
         None \<Rightarrow> Inr result
       | Some v \<Rightarrow>
           (case v of
              VNone \<Rightarrow> Inr result
            | VList vs \<Rightarrow>
                res_bind (CreateChildren name base templates vs) (\<lambda>cs.
                  Inr (dict_set result ''child_configs'' (VList cs)))
            | _ \<Rightarrow>
                res_bind (iter_value v) (\<lambda>vs.
                  if vs = [] then Inr (dict_set result ''child_configs'' (VList [])) else Inl AttributeError)))"
| "CreateChildren name base templates [] = Inr []"
| "CreateChildren name base templates (VDict child # vs) =
     res_bind (CreateBuildConfig name base templates child) (\<lambda>c.
       res_bind (CreateChildren name base templates vs) (\<lambda>cs. Inr (VDict c # cs)))"
| "CreateChildren name base templates (v # vs) = res_bind (as_object v) (\<lambda>_. Inr [])"
  by pat_completeness auto
termination
  by (relation "measure (\<lambda>x. case x of
        Inl (name, d, t, build) \<Rightarrow> size_fields build
      | Inr (name, d, t, vs) \<Rightarrow> size_list size vs)") (auto simp flip: size_fields_def dest: dict_get_size)

definition load_template :: "string \<times> config_value \<Rightarrow> (string \<times> config_value) res" where
  "load_template p =
     res_bind (as_object (snd p)) (\<lambda>t. res_bind (DeserializeConfigs t) (\<lambda>u. Inr (fst p, VDict u)))"

definition load_build :: "fields \<Rightarrow> fields \<Rightarrow> string \<times> config_value \<Rightarrow> (string \<times> fields) res" where
  "load_build defaults templates p =
     res_bind (as_object (snd p)) (\<lambda>v.
       res_bind (CreateBuildConfig (fst p) defaults templates v) (\<lambda>c. Inr (fst p, c)))"

definition template_settings :: "config_value \<Rightarrow> config" where
  "template_settings v = (case v of VDict fs \<Rightarrow> fixed_config fs | _ \<Rightarrow> [])"

definition LoadConfigFromString :: "string \<Rightarrow> site res" where
  "LoadConfigFromString json_string =
     res_bind (json_value json_string) (\<lambda>j. res_bind (as_object j) (\<lambda>config_dict.
       case dict_get config_dict ''_default'' of
         None \<Rightarrow> Inl KeyError
       | Some d \<Rightarrow>
           res_bind (update_arg d) (\<lambda>d.
             res_bind (DeserializeConfigs (dict_update DefaultSettings d)) (\<lambda>defaults.
               let config_dict = dict_del config_dict ''_default'';
                   templates = get_or config_dict ''_templates'' (VDict []);
                   config_dict = dict_del config_dict ''_templates''
               in case templates of
                    VDict ts \<Rightarrow>
                      res_bind (map_res load_template ts) (\<lambda>templates.
                        res_bind (map_res (load_build defaults templates) config_dict) (\<lambda>builds.
                          Inr ((SiteConfig_init defaults (map (map_prod id template_settings) templates))
                            \<lparr>site_configs := map (map_prod id fixed_config) builds\<rparr>)))
                  | _ \<Rightarrow> Inl AttributeError))))"

end
