(* ===== verification/ConfigRoundtrip.thy ===== *)
theory ConfigRoundtrip
  imports ConfigJson
begin

text \<open>
  Saving and loading a site configuration is a round trip. \<open>savable\<close> says which site
  configurations are meant: well-formed dictionaries whose values have the shape that the
  serialized keys ask for, defaults that leave the template, the children and the overrides
  unset, templates that the top level uses, and children nested to any depth. The proof follows
  \<open>LoadConfigFromString\<close>: what a key holds after each step of loading is described by
  \<open>loaded\<close> (restored) and \<open>encoded\<close> (still to be restored). It ends with an example of a
  savable site configuration.
\<close>

section \<open>What can be saved and loaded\<close>

text \<open>An instance that a constructor call with all of its fields makes again.\<close>

definition object_ok :: "config_class \<Rightarrow> config_value \<Rightarrow> bool" where
  "object_ok c v =
     (case v of
        VObj d fs \<Rightarrow>
          d = c \<and> fields_ok fs \<and> (\<forall>p \<in> set fs. plain (snd p))
          \<and> (case make_config c fs of
               Inr (VObj e gs) \<Rightarrow> list_all (\<lambda>k. k \<in> set (dict_keys fs)) (dict_keys gs)
             | _ \<Rightarrow> False)
      | _ \<Rightarrow> False)"

text \<open>The value of a setting: a list of instances under the keys that are serialized, where some
  allow \<open>None\<close>, and a value without instances elsewhere.\<close>

definition value_shape :: "string \<Rightarrow> config_value \<Rightarrow> bool" where
  "value_shape k v =
     (case map_of serialized_keys k of
        None \<Rightarrow> plain v
      | Some (c, p) \<Rightarrow>
          (case v of VNone \<Rightarrow> p | VList vs \<Rightarrow> list_all (object_ok c) vs | _ \<Rightarrow> False))"

text \<open>A value that loading has restored, and one that it still has to restore.\<close>

definition loaded :: "string \<Rightarrow> config_value \<Rightarrow> config_value \<Rightarrow> bool" where
  "loaded k v w \<longleftrightarrow>
     norm w = norm v \<and> value_ok w
     \<and> (case map_of serialized_keys k of
          None \<Rightarrow> True
        | Some (c, p) \<Rightarrow> (p \<and> w = VNone) \<or> (\<exists>ws. w = VList ws \<and> (\<forall>y \<in> set ws. \<exists>gs. y = VObj c gs)))"

definition encoded :: "string \<Rightarrow> config_value \<Rightarrow> config_value \<Rightarrow> bool" where
  "encoded k v w \<longleftrightarrow> w = reload v \<and> value_shape k v \<and> value_ok v"

section \<open>The constructors keep what they are given\<close>

lemma bind_args_keeps:
  assumes "bind_args ps kw = Inr gs" "distinct (map fst ps)" "dict_get kw k = Some v"
  shows "dict_get gs k = Some v"
proof -
  have "k \<in> set (dict_keys kw)" using assms(3) dict_get_None[of kw k] by auto
  then have "k \<in> set (map fst ps)" using assms(1) by (auto simp: bind_args_def list_all_iff split: if_splits)
  then obtain d where "(k, d) \<in> set ps" by auto
  from bind_args_Inr(2)[OF assms(1,2) this] show ?thesis using assms(3) by simp
qed

definition params_ok :: "params \<Rightarrow> bool" where
  "params_ok ps \<longleftrightarrow> (\<forall>p \<in> set ps. case snd p of None \<Rightarrow> True | Some d \<Rightarrow> value_ok d)"

lemma params_ok_simps:
  "params_ok VMTestConfig_params" "params_ok GCETestConfig_params" "params_ok TastVMTestConfig_params"
  "params_ok MoblabVMTestConfig_params" "params_ok ModelTestConfig_params" "params_ok NotificationConfig_params"
  "params_ok HWTestConfig_params"
  by (simp_all add: params_ok_def VMTestConfig_params_def GCETestConfig_params_def TastVMTestConfig_params_def
      MoblabVMTestConfig_params_def ModelTestConfig_params_def NotificationConfig_params_def HWTestConfig_params_def)

lemma fields_ok_get: "fields_ok d \<longleftrightarrow> dict_ok d \<and> (\<forall>k v. dict_get d k = Some v \<longrightarrow> value_ok v)"
  by (auto simp: fields_ok_def dict_get_set_iff)

lemma bind_args_ok:
  assumes "bind_args ps kw = Inr gs" "distinct (map fst ps)" "params_ok ps" "\<And>k v. dict_get kw k = Some v \<Longrightarrow> value_ok v"
  shows "fields_ok gs"
  unfolding fields_ok_get
proof (intro conjI allI impI)
  note keys = bind_args_Inr(1)[OF assms(1,2)]
  then show "dict_ok gs" using assms(2) by (simp add: dict_ok_def dict_keys_def)
  fix k v assume v: "dict_get gs k = Some v"
  then have "k \<in> set (map fst ps)" using keys dict_get_None[of gs k] by auto
  then obtain d where d: "(k, d) \<in> set ps" by auto
  from bind_args_Inr(2)[OF assms(1,2) d] v show "value_ok v"
    using assms(3,4) d by (auto simp: params_ok_def split: option.splits)
qed

lemma dict_get_dels:
  "dict_del d k = [] \<Longrightarrow> dict_get d j = Some v \<Longrightarrow> j = k"
  by (metis dict_get_Nil dict_get_del option.distinct(1))

lemma HWTestConfig_keeps:
  assumes "HWTestConfig_init fs = Inr (VObj c gs)"
  shows "dict_get fs k = Some v \<Longrightarrow> dict_get gs k = Some v"
    and "fields_ok fs \<Longrightarrow> fields_ok gs"
proof -
  let ?P = "\<lambda>k. k \<in> set (map fst HWTestConfig_params)"
  let ?named = "filter (\<lambda>p. ?P (fst p)) fs" and ?extra = "filter (\<lambda>p. \<not> ?P (fst p)) fs"
  let ?a = "get_or ?extra ''async'' (VBool False)"
  from assms obtain bs where bs: "bind_args HWTestConfig_params ?named = Inr bs"
      and no: "dict_del ?extra ''async'' = []" and gs: "gs = (''async'', ?a) # bs"
    by (auto simp: HWTestConfig_init_def Let_def res_bind_Inr split: if_splits)
  note keys = bind_args_Inr(1)[OF bs params_distinct(7)]
  show "dict_get gs k = Some v" if v: "dict_get fs k = Some v"
  proof (cases "?P k")
    case True
    then have "dict_get ?named k = dict_get fs k" unfolding dict_get_filter[of ?P] by (rule if_P)
    then have "dict_get ?named k = Some v" using v by (simp only:)
    then have "dict_get bs k = Some v" by (rule bind_args_keeps[OF bs params_distinct(7)])
    moreover have "k \<noteq> ''async''" using True async_no_param by blast
    ultimately show ?thesis by (simp add: gs dict_get_Cons)
  next
    case False
    then have x: "dict_get ?extra k = Some v" using v dict_get_filter[of "\<lambda>k. \<not> ?P k" fs k] by simp
    then have "k = ''async''" by (rule dict_get_dels[OF no])
    then show ?thesis using x by (simp add: gs dict_get_Cons get_or_def)
  qed
  show "fields_ok gs" if ok: "fields_ok fs"
  proof -
    have v: "dict_get fs k = Some v \<Longrightarrow> value_ok v" for k v using ok by (auto simp: fields_ok_get)
    have n: "value_ok w" if "dict_get ?named k = Some w" for k w
      using that v unfolding dict_get_filter[of ?P] by (metis option.distinct(1))
    have "fields_ok bs" by (rule bind_args_ok[OF bs params_distinct(7) params_ok_simps(7) n])
    moreover have "value_ok w" if "dict_get ?extra k = Some w" for k w
      using that v unfolding dict_get_filter[of "\<lambda>k. \<not> ?P k"] by (metis option.distinct(1))
    then have "value_ok ?a" by (simp add: get_or_def split: option.split)
    moreover have "''async'' \<notin> set (dict_keys bs)" using keys async_no_param by simp
    ultimately show ?thesis by (simp add: gs fields_ok_def dict_ok_def dict_keys_def)
  qed
qed

lemma make_config_keeps:
  assumes "make_config c fs = Inr (VObj d gs)"
  shows "dict_get fs k = Some v \<Longrightarrow> dict_get gs k = Some v" and "fields_ok fs \<Longrightarrow> fields_ok gs"
proof -
  consider ps where "bind_args ps fs = Inr gs" "distinct (map fst ps)" "params_ok ps"
    | "HWTestConfig_init fs = Inr (VObj d gs)"
    using assms params_distinct params_ok_simps
    by (cases c) (auto simp: make_config_def TastVMTestConfig_init_def res_bind_Inr split: if_splits)
  note cases = this
  from cases show "dict_get gs k = Some v" if "dict_get fs k = Some v"
    by cases (use that bind_args_keeps HWTestConfig_keeps(1) in blast)+
  from cases show "fields_ok gs" if "fields_ok fs"
  proof cases
    case 1
    then show ?thesis using that by (intro bind_args_ok) (auto simp: fields_ok_get)
  next
    case 2
    then show ?thesis using that HWTestConfig_keeps(2) by blast
  qed
qed

lemma same_fields_refl [simp]: "same_fields fs fs"
  by (simp add: same_fields_def)

lemma same_fields_sym: "same_fields fs gs \<Longrightarrow> same_fields gs fs"
  by (simp add: same_fields_def)

lemma same_fields_trans: "same_fields fs gs \<Longrightarrow> same_fields gs hs \<Longrightarrow> same_fields fs hs"
  by (simp add: same_fields_def)

lemma object_ok_fields:
  assumes "object_ok c v"
  obtains fs gs where "v = VObj c fs" "fields_ok fs" "\<forall>p \<in> set fs. plain (snd p)"
    "make_config c fs = Inr (VObj c gs)" "same_fields gs fs"
proof -
  obtain fs where v: "v = VObj c fs" and ok: "fields_ok fs" "\<forall>p \<in> set fs. plain (snd p)"
    using assms by (auto simp: object_ok_def split: config_value.splits)
  then obtain e gs where gs: "make_config c fs = Inr (VObj e gs)" "set (dict_keys gs) \<subseteq> set (dict_keys fs)"
    using assms by (auto simp: object_ok_def list_all_iff split: sum.splits config_value.splits)
  obtain hs where "make_config c fs = Inr (VObj c hs)" using make_config_cong[OF gs(1) same_fields_refl] by blast
  with gs(1) have e: "e = c" by simp
  have "dict_get gs k = dict_get fs k" for k
  proof (cases "dict_get fs k")
    case None
    then have "dict_get gs k = None" using gs(2) by (auto simp: dict_get_None)
    with None show ?thesis by simp
  next
    case (Some w)
    then show ?thesis using make_config_keeps(1)[OF gs(1)] by simp
  qed
  then have "same_fields gs fs" by (simp add: same_fields_def)
  with v ok gs(1) e show thesis by (intro that) simp_all
qed

lemma reload_fields_same:
  assumes "fields_ok fs" "\<forall>p \<in> set fs. plain (snd p)"
  shows "same_fields (sort_fields (map (map_prod id reload) fs)) fs"
  unfolding same_fields_def
proof
  fix k
  have "dict_get (sort_fields (map (map_prod id reload) fs)) k = map_option reload (dict_get fs k)"
    using assms(1) by (subst dict_get_sort_fields) (simp_all add: fields_ok_def dict_get_map)
  moreover have "norm (reload v) = norm v" if "dict_get fs k = Some v" for v
  proof (rule norm_reload)
    have "(k, v) \<in> set fs" using that assms(1) by (simp add: fields_ok_def dict_get_set_iff)
    then show "value_ok v" "plain v" using assms by (auto simp: fields_ok_def)
  qed
  ultimately show "map_option norm (dict_get (sort_fields (map (map_prod id reload) fs)) k) = map_option norm (dict_get fs k)"
    by (cases "dict_get fs k") simp_all
qed

text \<open>An instance is decoded to one that equals it.\<close>

lemma deserialize_encoded:
  assumes "object_ok c v"
  shows "\<exists>gs. deserialize_one c (reload v) = Inr (VObj c gs) \<and> value_ok (VObj c gs) \<and> norm (VObj c gs) = norm v"
proof -
  obtain fs gs where v: "v = VObj c fs" "fields_ok fs" "\<forall>p \<in> set fs. plain (snd p)"
    and gs: "make_config c fs = Inr (VObj c gs)" "same_fields gs fs"
    using assms by (rule object_ok_fields)
  let ?fs = "sort_fields (map (map_prod id reload) fs)"
  have same: "same_fields fs ?fs" by (rule same_fields_sym[OF reload_fields_same[OF v(2,3)]])
  obtain hs where hs: "make_config c ?fs = Inr (VObj c hs)" "same_fields gs hs" "dict_ok hs"
    using make_config_cong[OF gs(1) same] by blast
  have ok: "fields_ok ?fs" using reload_ok[of "VDict fs"] v(2) by simp
  have "json_value (encode_fields fs) = Inr (VDict ?fs)"
    using json_value_encode[OF v(2), of "[]"] by (simp add: skip_ws_def)
  then have "deserialize_one c (reload v) = Inr (VObj c hs)" using hs(1) v(1) by (simp add: deserialize_one_def)
  moreover have "fields_ok hs" by (rule make_config_keeps(2)[OF hs(1) ok])
  moreover have "same_fields hs fs" by (rule same_fields_trans[OF same_fields_sym[OF hs(2)] gs(2)])
  moreover have "dict_ok fs" using v(2) by (simp add: fields_ok_def)
  ultimately show ?thesis using v(1) hs(3) same_fields_norm[of hs fs] by auto
qed
section \<open>Deserializing\<close>

text \<open>What \<open>_DeserializeConfig\<close> stores under its key, given what it finds there.\<close>

definition restored :: "config_class \<Rightarrow> bool \<Rightarrow> config_value option \<Rightarrow> config_value option res" where
  "restored c p old =
     (let v = (case old of None \<Rightarrow> VNone | Some v \<Rightarrow> v)
      in if v = VNone then Inr (if p then Some VNone else None)
         else res_bind (iter_value v) (\<lambda>cs. res_bind (map_res (deserialize_one c) cs) (\<lambda>ds. Inr (Some (VList ds)))))"

lemma DeserializeConfig_get:
  assumes "restored c p (dict_get d k) = Inr x"
  shows "\<exists>e. DeserializeConfig d k c p = Inr e \<and> (dict_ok d \<longrightarrow> dict_ok e)
    \<and> (\<forall>j. dict_get e j = (if j = k then x else dict_get d j))"
proof -
  let ?v = "get_or d k VNone"
  have v: "(case dict_get d k of None \<Rightarrow> VNone | Some v \<Rightarrow> v) = ?v" by (simp add: get_or_def)
  show ?thesis
  proof (cases "?v = VNone")
    case True
    then have "x = (if p then Some VNone else None)" using assms v by (auto simp: restored_def Let_def)
    then show ?thesis
      using True by (auto simp: DeserializeConfig_def Let_def dict_get_set dict_get_del dict_ok_set dict_ok_del)
  next
    case False
    then obtain cs ds where "iter_value ?v = Inr cs" "map_res (deserialize_one c) cs = Inr ds" "x = Some (VList ds)"
      using assms v by (auto simp: restored_def Let_def res_bind_Inr)
    then show ?thesis
      using False by (auto simp: DeserializeConfig_def Let_def dict_get_set dict_get_del dict_ok_set dict_ok_del)
  qed
qed

lemma DeserializeConfigs_get:
  assumes "\<forall>(k, c, p) \<in> set serialized_keys. restored c p (dict_get d k) = Inr (X k)"
  shows "\<exists>e. DeserializeConfigs d = Inr e \<and> (dict_ok d \<longrightarrow> dict_ok e)
    \<and> (\<forall>j. dict_get e j = (if j \<in> fst ` set serialized_keys then X j else dict_get d j))"
proof -
  have fold: "\<exists>e. fold_res (\<lambda>(k, c, p) d. DeserializeConfig d k c p) ks d = Inr e \<and> (dict_ok d \<longrightarrow> dict_ok e)
    \<and> (\<forall>j. dict_get e j = (if j \<in> fst ` set ks then X j else dict_get d j))"
    if "distinct (map fst ks)" "\<forall>(k, c, p) \<in> set ks. restored c p (dict_get d k) = Inr (X k)" for ks d
    using that
  proof (induction ks arbitrary: d)
    case (Cons q ks)
    obtain k c p where q: "q = (k, c, p)" by (cases q) auto
    have "restored c p (dict_get d k) = Inr (X k)" using Cons.prems(2) q by simp
    from DeserializeConfig_get[OF this] obtain m where m: "DeserializeConfig d k c p = Inr m"
      "dict_ok d \<longrightarrow> dict_ok m" "\<forall>j. dict_get m j = (if j = k then X k else dict_get d j)"
      by (elim exE conjE) (rule that)
    have "dict_get m j = dict_get d j" if "(j, c', p') \<in> set ks" for j c' p'
      using m(3) Cons.prems(1) that q by (force simp: image_iff)
    then have "\<forall>(k, c, p) \<in> set ks. restored c p (dict_get m k) = Inr (X k)" using Cons.prems(2) by fastforce
    moreover have d: "distinct (map fst ks)" using Cons.prems(1) by simp
    ultimately have rest: "\<forall>(k, c, p) \<in> set ks. restored c p (dict_get m k) = Inr (X k)" by blast
    from Cons.IH[OF d rest] obtain e where e: "fold_res (\<lambda>(k, c, p) d. DeserializeConfig d k c p) ks m = Inr e"
      "dict_ok m \<longrightarrow> dict_ok e" "\<forall>j. dict_get e j = (if j \<in> fst ` set ks then X j else dict_get m j)"
      by (elim exE conjE) (rule that)
    show ?case
    proof (intro exI conjI allI)
      show "fold_res (\<lambda>(k, c, p) d. DeserializeConfig d k c p) (q # ks) d = Inr e" using m(1) e(1) by (simp add: q)
      show "dict_ok d \<longrightarrow> dict_ok e" using m(2) e(2) by blast
      show "dict_get e j = (if j \<in> fst ` set (q # ks) then X j else dict_get d j)" for j
        using m(3) e(3) by (auto simp: q)
    qed
  qed simp
  have "distinct (map fst serialized_keys)" by (simp add: serialized_keys_def)
  then show ?thesis unfolding DeserializeConfigs_def by (rule fold[OF _ assms])
qed

lemma serialized_lookup:
  "(k, c, p) \<in> set serialized_keys \<Longrightarrow> map_of serialized_keys k = Some (c, p)"
  "k \<notin> fst ` set serialized_keys \<Longrightarrow> map_of serialized_keys k = None"
  by (rule map_of_is_SomeI) (simp_all add: serialized_keys_def map_of_eq_None_iff)

lemma norm_simps_inv:
  "norm v = VNone \<longleftrightarrow> v = VNone" "norm v = VList ws \<longleftrightarrow> (\<exists>vs. v = VList vs \<and> ws = map norm vs)"
  by (cases v; auto)+

lemma value_shape_list:
  assumes "value_shape k v" "map_of serialized_keys k = Some (c, p)"
  shows "(p \<and> v = VNone) \<or> (\<exists>vs. v = VList vs \<and> (\<forall>x \<in> set vs. object_ok c x))"
  using assms by (auto simp: value_shape_def list_all_iff split: config_value.splits)

text \<open>Restoring keeps what is already restored, and decodes what is not.\<close>

lemma restored_loaded:
  assumes "loaded k v w" "map_of serialized_keys k = Some (c, p)"
  shows "restored c p (Some w) = Inr (Some w)"
proof -
  have "(p \<and> w = VNone) \<or> (\<exists>ws. w = VList ws \<and> (\<forall>y \<in> set ws. \<exists>gs. y = VObj c gs))"
    using assms by (simp add: loaded_def)
  then show ?thesis
  proof
    assume "\<exists>ws. w = VList ws \<and> (\<forall>y \<in> set ws. \<exists>gs. y = VObj c gs)"
    then obtain ws where ws: "w = VList ws" "\<forall>y \<in> set ws. \<exists>gs. y = VObj c gs" by blast
    then have "map_res (deserialize_one c) ws = Inr (map (\<lambda>y. y) ws)"
      by (intro map_res_all) (auto simp: deserialize_one_def)
    with ws show ?thesis by (simp add: restored_def iter_value_def)
  qed (simp add: restored_def)
qed

lemma restored_encoded:
  assumes "encoded k v w" "map_of serialized_keys k = Some (c, p)"
  shows "\<exists>x. restored c p (Some w) = Inr (Some x) \<and> loaded k v x"
proof -
  have w: "w = reload v" and "value_shape k v" using assms(1) by (simp_all add: encoded_def)
  from value_shape_list[OF this(2) assms(2)] show ?thesis
  proof
    assume "p \<and> v = VNone"
    then show ?thesis using w assms(2) by (simp add: restored_def loaded_def)
  next
    assume "\<exists>vs. v = VList vs \<and> (\<forall>x \<in> set vs. object_ok c x)"
    then obtain vs where vs: "v = VList vs" "\<forall>x \<in> set vs. object_ok c x" by blast
    then obtain h where h: "\<forall>x \<in> set vs. deserialize_one c (reload x) = Inr (VObj c (h x))
        \<and> value_ok (VObj c (h x)) \<and> norm (VObj c (h x)) = norm x"
      using deserialize_encoded by metis
    let ?x = "VList (map (\<lambda>x. VObj c (h x)) vs)"
    have "map_res (deserialize_one c) (map reload vs) = Inr (map (\<lambda>x. VObj c (h x)) vs)"
      using h by (induction vs) auto
    then have "restored c p (Some w) = Inr (Some ?x)" by (simp add: restored_def iter_value_def w vs(1))
    moreover have "norm ?x = norm v" using h vs(1) by (simp add: comp_def del: norm.simps(7))
    moreover have "value_ok ?x" using h by simp
    ultimately show ?thesis using assms(2) by (auto simp: loaded_def)
  qed
qed

text \<open>A dictionary that holds, under the keys of another, its values restored or to be restored,
  and is complete under the serialized keys.\<close>

definition represents :: "fields \<Rightarrow> fields \<Rightarrow> string \<Rightarrow> bool" where
  "represents V E k \<longleftrightarrow> rel_option (\<lambda>v w. loaded k v w \<or> encoded k v w) (dict_get V k) (dict_get E k)"

definition loads_to :: "fields \<Rightarrow> fields \<Rightarrow> string \<Rightarrow> bool" where
  "loads_to V E k \<longleftrightarrow> rel_option (loaded k) (dict_get V k) (dict_get E k)"

lemma loaded_encoded: "encoded k v w \<Longrightarrow> map_of serialized_keys k = None \<Longrightarrow> loaded k v w"
  by (simp add: encoded_def loaded_def value_shape_def norm_reload reload_ok)

lemma DeserializeConfigs_loads:
  assumes "\<forall>k. k \<notin> J \<longrightarrow> represents V E k" "fst ` set serialized_keys \<subseteq> set (dict_keys V) - J" "dict_ok E"
  shows "\<exists>E'. DeserializeConfigs E = Inr E' \<and> dict_ok E' \<and> (\<forall>k. k \<notin> J \<longrightarrow> loads_to V E' k)
    \<and> (\<forall>k. k \<in> J \<longrightarrow> dict_get E' k = dict_get E k)"
proof -
  have step: "\<exists>x v. restored c p (dict_get E k) = Inr (Some x) \<and> dict_get V k = Some v \<and> loaded k v x"
    if k: "(k, c, p) \<in> set serialized_keys" for k c p
  proof -
    have m: "map_of serialized_keys k = Some (c, p)" by (rule serialized_lookup(1)[OF k])
    have "k \<in> set (dict_keys V)" "k \<notin> J" using assms(2) k by force+
    then obtain v where v: "dict_get V k = Some v" by (metis dict_get_None not_None_eq)
    moreover have "represents V E k" using assms(1) \<open>k \<notin> J\<close> by blast
    ultimately obtain w where w: "dict_get E k = Some w" "loaded k v w \<or> encoded k v w"
      by (auto simp: represents_def option_rel_Some1)
    then show ?thesis using restored_loaded[OF _ m] restored_encoded[OF _ m] v by metis
  qed
  define X where "X k = (case map_of serialized_keys k of None \<Rightarrow> None
      | Some (c, p) \<Rightarrow> (case restored c p (dict_get E k) of Inl e \<Rightarrow> None | Inr x \<Rightarrow> x))" for k
  have X: "\<forall>(k, c, p) \<in> set serialized_keys. restored c p (dict_get E k) = Inr (X k)"
  proof clarify
    fix k c p assume k: "(k, c, p) \<in> set serialized_keys"
    then show "restored c p (dict_get E k) = Inr (X k)"
      using step[OF k] by (auto simp: X_def serialized_lookup(1)[OF k])
  qed
  from DeserializeConfigs_get[OF X] obtain E' where E': "DeserializeConfigs E = Inr E'" "dict_ok E \<longrightarrow> dict_ok E'"
      "\<forall>j. dict_get E' j = (if j \<in> fst ` set serialized_keys then X j else dict_get E j)"
    by (elim exE conjE) (rule that)
  have "loads_to V E' k" if "k \<notin> J" for k
  proof (cases "k \<in> fst ` set serialized_keys")
    case True
    then obtain c p where k: "(k, c, p) \<in> set serialized_keys" by auto
    from step[OF k] obtain x v where x: "restored c p (dict_get E k) = Inr (Some x)" "dict_get V k = Some v" "loaded k v x"
      by blast
    then have "X k = Some x" by (simp add: X_def serialized_lookup(1)[OF k])
    with True x E'(3) show ?thesis by (simp add: loads_to_def)
  next
    case False
    then have n: "map_of serialized_keys k = None" by (rule serialized_lookup(2))
    have "represents V E k" using assms(1) that by blast
    then have "loads_to V E k"
      unfolding represents_def loads_to_def
      by (rule option.rel_mono_strong) (use loaded_encoded[OF _ n] in auto)
    with False E'(3) show ?thesis by (simp add: loads_to_def)
  qed
  moreover have "dict_get E' k = dict_get E k" if "k \<in> J" for k
    using E'(3) assms(2) that by auto
  ultimately show ?thesis using E' assms(3) by blast
qed
section \<open>The site configurations that can be saved\<close>

definition default_shape :: "site \<Rightarrow> bool" where
  "default_shape s \<longleftrightarrow>
     fields_ok (site_defaults s) \<and> (\<forall>p \<in> set (site_defaults s). value_shape (fst p) (snd p))
     \<and> list_all (\<lambda>k. k \<in> set (dict_keys (site_defaults s))) (dict_keys default_items)
     \<and> dict_get (site_defaults s) ''_template'' = Some VNone
     \<and> dict_get (site_defaults s) ''child_configs'' = Some (VList [])
     \<and> dict_get (site_defaults s) ''vm_tests_override'' = Some VNone
     \<and> dict_get (site_defaults s) ''hw_tests_override'' = Some VNone"

text \<open>The fixed values that a template gives when it is applied to the defaults.\<close>

definition expansion :: "site \<Rightarrow> config \<Rightarrow> fields res" where
  "expansion s t = res_bind (derive (GetDefault s) [t] []) fixed_fields"

text \<open>A key that is no default holds a value other than \<open>None\<close>: only such values are saved.\<close>

definition kept_value :: "site \<Rightarrow> string \<times> config_value \<Rightarrow> bool" where
  "kept_value s p \<longleftrightarrow> snd p \<noteq> VNone \<or> fst p \<in> set (dict_keys (site_defaults s))"

definition template_shape :: "site \<Rightarrow> string \<Rightarrow> config \<Rightarrow> bool" where
  "template_shape s name t \<longleftrightarrow>
     dict_ok t \<and> dict_get t ''name'' = None \<and> dict_get t ''child_configs'' = None
     \<and> dict_get t ''_template'' = Some (Fixed (VStr name))
     \<and> (case expansion s t of
          Inl e \<Rightarrow> False
        | Inr es \<Rightarrow> fields_ok es \<and> (\<forall>p \<in> set es. value_shape (fst p) (snd p) \<and> kept_value s p))"

text \<open>A configuration without its children, and with them. The templates \<open>used\<close> are those that are
  saved, which the configurations of the top level name.\<close>

definition template_covered :: "site \<Rightarrow> string list \<Rightarrow> fields \<Rightarrow> bool" where
  "template_covered s used fs \<longleftrightarrow>
     (let v = get_or fs ''_template'' VNone
      in if truthy v
         then (case v of
                 VStr t \<Rightarrow> (case dict_get (site_templates s) t of
                     None \<Rightarrow> False
                   | Some tm \<Rightarrow> t \<in> set used \<and> list_all (\<lambda>k. k \<in> set (dict_keys fs)) (dict_keys tm))
               | _ \<Rightarrow> False)
         else True)"

definition config_shape :: "site \<Rightarrow> string list \<Rightarrow> fields \<Rightarrow> bool" where
  "config_shape s used fs \<longleftrightarrow>
     fields_ok fs \<and> (\<forall>p \<in> set fs. (fst p = ''child_configs'' \<or> value_shape (fst p) (snd p)) \<and> kept_value s p)
     \<and> list_all (\<lambda>k. k \<in> set (dict_keys fs)) (dict_keys (site_defaults s)) \<and> template_covered s used fs"

function storable :: "site \<Rightarrow> string list \<Rightarrow> fields \<Rightarrow> bool" where
  "storable s used fs \<longleftrightarrow>
     config_shape s used fs
     \<and> (case dict_get fs ''child_configs'' of
          Some (VList vs) \<Rightarrow> (\<forall>v \<in> set vs. case v of VDict gs \<Rightarrow> storable s used gs | _ \<Rightarrow> False)
        | _ \<Rightarrow> False)"
  by pat_completeness auto

lemma size_child:
  assumes "dict_get fs k = Some (VList vs)" "VDict gs \<in> set vs"
  shows "size_fields gs < size_fields fs"
proof -
  have "size (VDict gs) \<le> size_list size vs"
    by (rule size_list_estimation'[OF assms(2) order_refl])
  then show ?thesis using dict_get_size[OF assms(1)] by (simp flip: size_fields_def)
qed

termination storable
  by (relation "measure (\<lambda>(s, used, fs). size_fields fs)") (auto simp flip: size_fields_def dest: size_child)

declare storable.simps [simp del]

definition savable :: "site \<Rightarrow> bool" where
  "savable s \<longleftrightarrow>
     default_shape s \<and> dict_ok (site_templates s) \<and> dict_ok (site_configs s)
     \<and> (\<forall>p \<in> set (site_templates s). template_shape s (fst p) (snd p))
     \<and> (case used_templates s of
          Inl e \<Rightarrow> False
        | Inr used \<Rightarrow>
            list_all (\<lambda>t. t \<in> set (dict_keys (site_templates s))) used
            \<and> (\<forall>p \<in> set (site_configs s). fst p \<noteq> ''_default'' \<and> fst p \<noteq> ''_templates''
              \<and> (case fixed_fields (snd p) of Inl e \<Rightarrow> False | Inr fs \<Rightarrow> storable s used fs)))"

section \<open>Copies of what has been loaded\<close>

lemma deepcopy_fields_id: "(\<And>k v. (k, v) \<in> set fs \<Longrightarrow> copy_value k v = Inr v) \<Longrightarrow> deepcopy_fields fs = Inr fs"
proof (induction fs)
  case (Cons p fs)
  obtain k v where "p = (k, v)" by force
  with Cons show ?case by simp
qed simp

lemma copied_serialized: "k \<in> set copied_lists \<Longrightarrow> \<exists>cp. map_of serialized_keys k = Some cp"
proof -
  have "list_all (\<lambda>k. map_of serialized_keys k \<noteq> None) copied_lists"
    by code_simp
  then show "k \<in> set copied_lists \<Longrightarrow> \<exists>cp. map_of serialized_keys k = Some cp" by (auto simp: list_all_iff)
qed

lemma copy_value_id:
  assumes "k \<in> set copied_lists \<Longrightarrow> v = VNone \<or> (\<exists>vs. v = VList vs)" "k = ''child_configs'' \<Longrightarrow> v = VList []"
  shows "copy_value k v = Inr v"
  using assms by (cases v) auto

lemma value_shape_copied:
  assumes "value_shape k v" "k \<in> set copied_lists" shows "v = VNone \<or> (\<exists>vs. v = VList vs)"
proof -
  obtain c p where "map_of serialized_keys k = Some (c, p)" using copied_serialized[OF assms(2)] by auto
  from value_shape_list[OF assms(1) this] show ?thesis by auto
qed

lemma deepcopy_default:
  assumes "default_shape s" shows "deepcopy (GetDefault s) = Inr (GetDefault s)"
proof -
  let ?f = "\<lambda>(k, u). case u of Fixed v \<Rightarrow> res_bind (copy_value k v) (\<lambda>w. Inr (k, Fixed w))
      | Callable f \<Rightarrow> if k = ''child_configs'' \<or> k \<in> set copied_lists then Inl TypeError else Inr (k, u)"
  have "map_res ?f (GetDefault s) = Inr (map (\<lambda>p. p) (GetDefault s))"
  proof (rule map_res_all)
    fix p assume "p \<in> set (GetDefault s)"
    then obtain k v where p: "p = (k, Fixed v)" "(k, v) \<in> set (site_defaults s)"
      by (auto simp: GetDefault_def fixed_config_def)
    have "value_shape k v" using assms p(2) by (force simp: default_shape_def)
    moreover have "v = VList []" if "k = ''child_configs''"
      using assms p(2) that by (auto simp: default_shape_def fields_ok_def simp flip: dict_get_set_iff)
    ultimately have "copy_value k v = Inr v" by (intro copy_value_id value_shape_copied) auto
    then show "?f p = Inr p" by (simp add: p)
  qed
  then show ?thesis by (simp add: deepcopy_def)
qed

section \<open>The defaults a configuration is compared with\<close>

text \<open>The values behind a template name: the defaults, or those of the expanded template.\<close>

definition template_base :: "site \<Rightarrow> config_value \<Rightarrow> fields \<Rightarrow> bool" where
  "template_base s v es \<longleftrightarrow>
     (if truthy v
      then \<exists>t tm. v = VStr t \<and> dict_get (site_templates s) t = Some tm \<and> template_shape s t tm \<and> expansion s tm = Inr es
      else es = site_defaults s)"

lemma fixed_fields_get:
  assumes "fixed_fields c = Inr fs"
  shows "dict_get c k = map_option Fixed (dict_get fs k)" and "dict_ok c \<Longrightarrow> dict_ok fs" and "c = fixed_config fs"
proof -
  let ?f = "\<lambda>(k, u). case u of Fixed v \<Rightarrow> Inr (k, v) | Callable f \<Rightarrow> not_modelled"
  have "list_all2 (\<lambda>p q. ?f p = Inr q) c fs" using assms by (simp add: fixed_fields_def map_res_Inr)
  then show c: "c = fixed_config fs"
  proof (induction rule: list_all2_induct)
    case (Cons p c q fs)
    then show ?case by (cases p) (auto simp: fixed_config_def split: setting.splits)
  qed (simp add: fixed_config_def)
  then show "dict_get c k = map_option Fixed (dict_get fs k)" by (simp add: dict_get_fixed)
  from c show "dict_ok c \<Longrightarrow> dict_ok fs" by (simp add: fixed_config_ok)
qed

lemma BuildConfig_apply_template: "apply_update t c = Inr m \<Longrightarrow> BuildConfig_apply c [t] [] = Inr m"
  by (simp add: BuildConfig_apply_def)

lemma Fixed_option: "Some (Fixed v) = map_option Fixed x \<longleftrightarrow> x = Some v"
  by (cases x) auto

lemma expansion_get:
  assumes "default_shape s" "template_shape s name tm" "expansion s tm = Inr es"
  shows "updated k (dict_get tm k) (map_option Fixed (dict_get (site_defaults s) k)) = Inr (map_option Fixed (dict_get es k))"
    and "apply_update tm (GetDefault s) = Inr (fixed_config es)"
proof -
  have ok: "dict_ok tm" using assms(2) by (simp add: template_shape_def)
  from assms(3) obtain e where e: "apply_update tm (GetDefault s) = Inr e" "fixed_fields e = Inr es"
    by (auto simp: expansion_def derive_def deepcopy_default[OF assms(1)] res_bind_Inr BuildConfig_apply_two)
  then show "apply_update tm (GetDefault s) = Inr (fixed_config es)" using fixed_fields_get(3) by simp
  from apply_update_get[OF e(1) ok, where k = k] fixed_fields_get(1)[OF e(2), of k]
  show "updated k (dict_get tm k) (map_option Fixed (dict_get (site_defaults s) k)) = Inr (map_option Fixed (dict_get es k))"
    by (simp add: GetDefault_def dict_get_fixed)
qed

lemma expansion_facts:
  assumes "default_shape s" "template_shape s name tm" "expansion s tm = Inr es"
  shows "dict_get es ''_template'' = Some VNone" "dict_get es ''child_configs'' = Some (VList [])"
    and "set (dict_keys (site_defaults s)) \<subseteq> set (dict_keys es)"
    and "dict_get es k \<noteq> None \<Longrightarrow> dict_get (site_defaults s) k \<noteq> None \<or> dict_get tm k \<noteq> None"
    and "fields_ok es" "dict_get es k = Some v \<Longrightarrow> value_shape k v"
    and "dict_get es k = Some v \<Longrightarrow> v \<noteq> VNone \<or> dict_get (site_defaults s) k \<noteq> None"
proof -
  note get = expansion_get(1)[OF assms]
  note d = assms(1)[unfolded default_shape_def] and t = assms(2)[unfolded template_shape_def]
  show "dict_get es ''_template'' = Some VNone"
    using get[where k = "''_template''"] d t by (auto simp: combine_def Fixed_option)
  show "dict_get es ''child_configs'' = Some (VList [])"
    using get[where k = "''child_configs''"] d t by (auto simp: Fixed_option)
  show "set (dict_keys (site_defaults s)) \<subseteq> set (dict_keys es)"
    using apply_update_keys[OF expansion_get(2)[OF assms]] by (simp add: GetDefault_def fixed_config_keys)
  show "dict_get es k \<noteq> None \<Longrightarrow> dict_get (site_defaults s) k \<noteq> None \<or> dict_get tm k \<noteq> None"
    using get[where k = k] by auto
  show ok: "fields_ok es" using t assms(3) by simp
  show "dict_get es k = Some v \<Longrightarrow> value_shape k v"
    using t assms(3) ok by (auto simp: dict_get_set_iff fields_ok_def)
  show "dict_get es k = Some v \<Longrightarrow> v \<noteq> VNone \<or> dict_get (site_defaults s) k \<noteq> None"
    using t assms(3) ok by (fastforce simp: dict_get_set_iff fields_ok_def kept_value_def dict_get_None)
qed

lemma marshal_defaults_get:
  assumes "default_shape s" "template_base s v es"
  shows "\<exists>m. marshal_defaults s n (Fixed v) = Inr m
    \<and> (\<forall>k. config_get m k = Fixed (if k = ''name'' then VStr n else get_or es k VNone))"
proof (cases "truthy v")
  case False
  then have "es = site_defaults s" using assms(2) by (simp add: template_base_def)
  then show ?thesis
    using False by (auto simp: marshal_defaults_def Let_def setting_truthy_def config_get_def dict_get_set
        GetDefault_def dict_get_fixed get_or_def split: option.split)
next
  case True
  then obtain t tm where t: "v = VStr t" "dict_get (site_templates s) t = Some tm" and shape: "template_shape s t tm"
      and es: "expansion s tm = Inr es"
    using assms(2) by (auto simp: template_base_def)
  let ?d = "dict_set (GetDefault s) ''name'' (Fixed (VStr n))"
  have ok: "dict_ok tm" and noname: "dict_get tm ''name'' = None" using shape by (simp_all add: template_shape_def)
  note get = expansion_get(1)[OF assms(1) shape es]
  have "\<forall>(k, u) \<in> set tm. \<exists>x. combine k u (dict_get ?d k) = Inr x"
  proof clarify
    fix k u assume "(k, u) \<in> set tm"
    then have u: "dict_get tm k = Some u" by (simp add: dict_get_set_iff[OF ok])
    then have "k \<noteq> ''name''" using noname by auto
    then show "\<exists>x. combine k u (dict_get ?d k) = Inr x"
      using get[where k = k] u by (auto simp: dict_get_set GetDefault_def dict_get_fixed)
  qed
  then obtain d where d: "apply_update tm ?d = Inr d" using apply_update_total[OF ok] by blast
  have dk: "dict_get d k = (if k = ''name'' then Some (Fixed (VStr n)) else map_option Fixed (dict_get es k))" for k
    using apply_update_get[OF d ok, where k = k] get[where k = k] noname
    by (auto simp: dict_get_set GetDefault_def dict_get_fixed split: if_splits)
  have "marshal_defaults s n (Fixed v) = Inr (dict_set d ''_template'' (Fixed VNone))"
    using True t d by (simp add: marshal_defaults_def Let_def setting_truthy_def get_template_def lookup_value_def
        BuildConfig_apply_template)
  moreover have "config_get (dict_set d ''_template'' (Fixed VNone)) k = Fixed (if k = ''name'' then VStr n else get_or es k VNone)" for k
    using expansion_facts(1)[OF assms(1) shape es]
    by (auto simp: config_get_def dict_get_set dk get_or_def split: option.split)
  ultimately show ?thesis by blast
qed
section \<open>Saving one configuration\<close>

definition marshal_value :: "site \<Rightarrow> string \<Rightarrow> string \<Rightarrow> setting \<Rightarrow> config_value res" where
  "marshal_value s n k u =
     (if k = ''child_configs''
      then (case u of
              Callable f \<Rightarrow> Inl TypeError
            | Fixed v \<Rightarrow>
                (case v of
                   VList vs \<Rightarrow> res_bind (marshal_children s n vs) (\<lambda>ws. Inr (VList ws))
                 | _ \<Rightarrow> res_bind (iter_value v) (\<lambda>vs. if vs = [] then Inr (VList []) else Inl AttributeError)))
      else Inr (saved_value u))"

lemma marshal_items_Cons:
  "marshal_items s n d ((k, u) # c) =
     res_bind (differs (config_get d k) u) (\<lambda>b.
       if \<not> b then marshal_items s n d c
       else res_bind (marshal_value s n k u) (\<lambda>w.
         res_bind (marshal_items s n d c) (\<lambda>r. Inr ((k, w) # r))))"
proof (cases u)
  case (Fixed v)
  then show ?thesis by (cases v) (simp_all add: marshal_value_def saved_value_def res_bind_assoc cong: if_cong)
qed (simp add: marshal_value_def cong: if_cong)

lemma marshal_items_keys: "marshal_items s n d c = Inr r \<Longrightarrow> set (dict_keys r) \<subseteq> set (dict_keys c)"
proof (induction c arbitrary: r)
  case (Cons p c)
  obtain k u where p: "p = (k, u)" by force
  with Cons.prems have "marshal_items s n d ((k, u) # c) = Inr r" by simp
  then show ?case
    using Cons.IH unfolding marshal_items_Cons p by (fastforce simp: res_bind_Inr split: if_splits)
qed simp

text \<open>What one setting contributes to the saved configuration.\<close>

definition saved_setting :: "site \<Rightarrow> string \<Rightarrow> config \<Rightarrow> fields \<Rightarrow> string \<Rightarrow> config_value \<Rightarrow> bool" where
  "saved_setting s n d r k v \<longleftrightarrow>
     (\<exists>b. differs (config_get d k) (Fixed v) = Inr b
        \<and> (if b then \<exists>w. marshal_value s n k (Fixed v) = Inr w \<and> dict_get r k = Some w else dict_get r k = None))"

lemma saved_setting_Cons: "k \<noteq> j \<Longrightarrow> saved_setting s n d ((j, w) # r) k v = saved_setting s n d r k v"
  by (simp add: saved_setting_def dict_get_Cons)

lemma marshal_items_get:
  "marshal_items s n d (fixed_config fs) = Inr r \<Longrightarrow> dict_ok fs \<Longrightarrow>
     dict_ok r \<and> (\<forall>k v. dict_get fs k = Some v \<longrightarrow> saved_setting s n d r k v)"
proof (induction fs arbitrary: r)
  case (Cons p fs)
  obtain j u where p: "p = (j, u)" by force
  have ok: "dict_ok fs" "j \<notin> set (dict_keys fs)" using Cons.prems(2) by (auto simp: p dict_ok_def dict_keys_def)
  have "marshal_items s n d ((j, Fixed u) # fixed_config fs) = Inr r"
    using Cons.prems(1) by (simp add: p fixed_config_def)
  then obtain b where b: "differs (config_get d j) (Fixed u) = Inr b"
      "(if \<not> b then marshal_items s n d (fixed_config fs)
     else res_bind (marshal_value s n j (Fixed u)) (\<lambda>w.
       res_bind (marshal_items s n d (fixed_config fs)) (\<lambda>r. Inr ((j, w) # r)))) = Inr r"
    by (auto simp: marshal_items_Cons res_bind_Inr)
  have "\<exists>r'. marshal_items s n d (fixed_config fs) = Inr r' \<and> saved_setting s n d r j u \<and> (dict_ok r' \<longrightarrow> dict_ok r)
      \<and> (\<forall>k. k \<noteq> j \<longrightarrow> (\<forall>v. saved_setting s n d r' k v \<longrightarrow> saved_setting s n d r k v))"
  proof (cases b)
    case False
    then have run: "marshal_items s n d (fixed_config fs) = Inr r" using b(2) by simp
    have "dict_get r j = None"
      using marshal_items_keys[OF run] ok(2) by (auto simp: dict_get_None fixed_config_keys)
    then have "saved_setting s n d r j u"
      unfolding saved_setting_def using b(1) False by (intro exI[of _ b]) simp
    with run show ?thesis by blast
  next
    case True
    then obtain w r' where w: "marshal_value s n j (Fixed u) = Inr w"
      and run: "marshal_items s n d (fixed_config fs) = Inr r'" and r: "r = (j, w) # r'"
      using b(2) by (auto simp: res_bind_Inr)
    have "j \<notin> set (dict_keys r')" using marshal_items_keys[OF run] ok(2) by (auto simp: fixed_config_keys)
    then have "dict_ok r' \<longrightarrow> dict_ok r" by (simp add: r dict_ok_def dict_keys_def)
    moreover have "saved_setting s n d r j u"
      unfolding saved_setting_def using b(1) True w by (intro exI[of _ b]) (simp add: r dict_get_Cons)
    ultimately show ?thesis using run saved_setting_Cons r by blast
  qed
  then obtain r' where r': "marshal_items s n d (fixed_config fs) = Inr r'" "saved_setting s n d r j u"
      "dict_ok r' \<longrightarrow> dict_ok r" "\<forall>k. k \<noteq> j \<longrightarrow> (\<forall>v. saved_setting s n d r' k v \<longrightarrow> saved_setting s n d r k v)"
    by (elim exE conjE) (rule that)
  show ?case
  proof (intro conjI allI impI)
    show "dict_ok r" using Cons.IH[OF r'(1) ok(1)] r'(3) by blast
    fix k v assume v: "dict_get (p # fs) k = Some v"
    show "saved_setting s n d r k v"
    proof (cases "k = j")
      case True
      then show ?thesis using v r'(2) by (simp add: p dict_get_Cons)
    next
      case False
      then have "dict_get fs k = Some v" using v by (simp add: p dict_get_Cons)
      then show ?thesis using Cons.IH[OF r'(1) ok(1)] r'(4) False by blast
    qed
  qed
qed (simp add: fixed_config_def)

lemma differs_norm:
  "differs (Fixed v) (Fixed w) = Inr b \<Longrightarrow> value_ok v \<Longrightarrow> value_ok w \<Longrightarrow> b \<longleftrightarrow> norm v \<noteq> norm w"
  using py_eq_norm[of v w] by (auto simp: differs_def res_bind_Inr)

section \<open>Loading one configuration\<close>

lemma dict_get_update:
  assumes "dict_ok e"
  shows "dict_get (dict_update d e) k = (case dict_get e k of Some v \<Rightarrow> Some v | None \<Rightarrow> dict_get d k)"
proof -
  have "map_of (rev e) k = map_of e k"
  proof (cases "map_of e k")
    case None
    then have "map_of (rev e) k = None" unfolding map_of_eq_None_iff by simp
    with None show ?thesis by simp
  next
    case (Some v)
    then have "(k, v) \<in> set (rev e)" by (auto dest: map_of_SomeD)
    then show ?thesis using assms Some by (intro trans[OF map_of_is_SomeI]) (simp_all add: dict_ok_def rev_map[symmetric])
  qed
  then show ?thesis unfolding dict_update_puts dict.get_puts by (simp add: dict_get_def)
qed

definition template_loaded :: "site \<Rightarrow> fields \<Rightarrow> fields \<Rightarrow> bool" where
  "template_loaded s es tt \<longleftrightarrow>
     dict_ok tt
     \<and> (\<forall>k. k \<noteq> ''_template'' \<longrightarrow>
          (case dict_get tt k of
             Some w \<Rightarrow> \<exists>v. dict_get es k = Some v \<and> loaded k v w
           | None \<Rightarrow> norm (get_or (site_defaults s) k VNone) = norm (get_or es k VNone)))"

text \<open>What has been loaded before the configurations: the defaults and the templates.\<close>

definition loading_from :: "site \<Rightarrow> string list \<Rightarrow> fields \<Rightarrow> fields \<Rightarrow> bool" where
  "loading_from s used D T \<longleftrightarrow>
     default_shape s \<and> dict_ok D \<and> (\<forall>k. loads_to (site_defaults s) D k)
     \<and> (\<forall>t tm es. dict_get (site_templates s) t = Some tm \<and> t \<in> set used \<and> expansion s tm = Inr es \<longrightarrow>
          template_shape s t tm \<and> (\<exists>tt. dict_get T t = Some (VDict tt) \<and> template_loaded s es tt))"

lemma deepcopy_loaded:
  assumes "loading_from s used D T" shows "deepcopy_fields D = Inr D"
proof (rule deepcopy_fields_id)
  fix k w assume "(k, w) \<in> set D"
  then have "dict_get D k = Some w" using assms by (simp add: loading_from_def dict_get_set_iff)
  moreover have "loads_to (site_defaults s) D k" using assms by (simp add: loading_from_def)
  ultimately obtain v where v: "dict_get (site_defaults s) k = Some v" "loaded k v w"
    by (auto simp: loads_to_def option_rel_Some2)
  show "copy_value k w = Inr w"
  proof (rule copy_value_id)
    assume "k \<in> set copied_lists"
    then obtain c p where "map_of serialized_keys k = Some (c, p)" using copied_serialized by force
    then show "w = VNone \<or> (\<exists>vs. w = VList vs)" using v(2) by (auto simp: loaded_def)
  next
    assume "k = ''child_configs''"
    then have "norm w = VList []" using v assms by (simp add: loading_from_def default_shape_def loaded_def)
    then show "w = VList []" by (auto simp: norm_simps_inv)
  qed
qed

lemma keys_code:
  "list_all (\<lambda>k. k \<in> set (dict_keys default_items) \<and> k \<noteq> ''child_configs'' \<and> k \<noteq> ''name'' \<and> k \<noteq> ''_template'')
     (map fst serialized_keys)"
  "''name'' \<in> set (dict_keys default_items)"
  by code_simp+

lemma serialized_default:
  assumes "default_shape s"
  shows "fst ` set serialized_keys \<subseteq> set (dict_keys (site_defaults s)) - {''child_configs''}"
    and "''name'' \<in> set (dict_keys (site_defaults s))"
    and "map_of serialized_keys ''name'' = None" "map_of serialized_keys ''_template'' = None"
    "map_of serialized_keys ''child_configs'' = None"
proof -
  have sub: "set (dict_keys default_items) \<subseteq> set (dict_keys (site_defaults s))"
    using assms by (auto simp: default_shape_def list_all_iff)
  then show "fst ` set serialized_keys \<subseteq> set (dict_keys (site_defaults s)) - {''child_configs''}"
    using keys_code(1) by (auto simp: list_all_iff)
  show "''name'' \<in> set (dict_keys (site_defaults s))" using sub keys_code(2) by blast
  show "map_of serialized_keys ''name'' = None" "map_of serialized_keys ''_template'' = None"
    "map_of serialized_keys ''child_configs'' = None"
    using keys_code(1) by (auto simp: map_of_eq_None_iff list_all_iff)
qed
section \<open>One configuration, saved and loaded\<close>

lemma fields_ok_value: "fields_ok fs \<Longrightarrow> dict_get fs k = Some v \<Longrightarrow> value_ok v"
  by (simp add: fields_ok_get)

lemma get_or_Some [simp]: "dict_get fs k = Some v \<Longrightarrow> get_or fs k d = v"
  by (simp add: get_or_def)

lemma get_or_None [simp]: "dict_get fs k = None \<Longrightarrow> get_or fs k d = d"
  by (simp add: get_or_def)

text \<open>What is known of a configuration while it is compared with its base: its own values, the
  values of its template, and what is saved of it.\<close>

definition saving :: "site \<Rightarrow> string \<Rightarrow> fields \<Rightarrow> fields \<Rightarrow> fields \<Rightarrow> bool" where
  "saving s n es fs r \<longleftrightarrow>
     dict_ok r
     \<and> (\<forall>k. dict_get fs k = None \<longrightarrow> dict_get r k = None)
     \<and> (\<forall>k v. dict_get fs k = Some v \<longrightarrow>
          (if norm (if k = ''name'' then VStr n else get_or es k VNone) = norm v then dict_get r k = None
           else \<exists>w. marshal_value s n k (Fixed v) = Inr w \<and> dict_get r k = Some w))"

lemma template_base_ok:
  assumes "default_shape s" "template_base s v es" shows "fields_ok es"
proof (cases "truthy v")
  case True
  then obtain t tm where "template_shape s t tm" "expansion s tm = Inr es"
    using assms(2) by (auto simp: template_base_def)
  then show ?thesis by (rule expansion_facts(5)[OF assms(1)])
next
  case False
  then show ?thesis using assms by (simp add: template_base_def default_shape_def)
qed

lemma MarshalBuildConfig_saving:
  assumes "MarshalBuildConfig s n (fixed_config fs) = Inr r" "default_shape s"
    and "template_base s (get_or fs ''_template'' VNone) es" "fields_ok fs"
  shows "saving s n es fs r"
proof -
  have t: "config_get (fixed_config fs) ''_template'' = Fixed (get_or fs ''_template'' VNone)"
    by (simp add: config_get_def dict_get_fixed get_or_def split: option.split)
  from marshal_defaults_get[OF assms(2,3), where n = n] obtain m where
    m: "marshal_defaults s n (Fixed (get_or fs ''_template'' VNone)) = Inr m"
      "\<forall>k. config_get m k = Fixed (if k = ''name'' then VStr n else get_or es k VNone)"
    by (elim exE conjE) (rule that)
  have run: "marshal_items s n m (fixed_config fs) = Inr r" using assms(1) t m(1) by simp
  have ok: "dict_ok fs" using assms(4) by (simp add: fields_ok_def)
  have es: "fields_ok es" by (rule template_base_ok[OF assms(2,3)])
  note get = marshal_items_get[OF run ok]
  show ?thesis
    unfolding saving_def
  proof (intro conjI allI impI)
    show "dict_ok r" using get by blast
    fix k
    show "dict_get r k = None" if "dict_get fs k = None"
      using marshal_items_keys[OF run] that by (auto simp: dict_get_None fixed_config_keys)
    fix v assume v: "dict_get fs k = Some v"
    let ?b = "if k = ''name'' then VStr n else get_or es k VNone"
    have "saved_setting s n m r k v" using get v by blast
    from this[unfolded saved_setting_def] obtain b where b: "differs (config_get m k) (Fixed v) = Inr b"
        "if b then \<exists>w. marshal_value s n k (Fixed v) = Inr w \<and> dict_get r k = Some w else dict_get r k = None"
      by (elim exE conjE) (rule that)
    have "value_ok ?b" using fields_ok_value[OF es, of k] by (simp add: get_or_def split: option.split)
    then have "b \<longleftrightarrow> norm ?b \<noteq> norm v"
      using b(1) m(2) fields_ok_value[OF assms(4) v] by (intro differs_norm) simp_all
    with b(2) show "if norm ?b = norm v then dict_get r k = None
        else \<exists>w. marshal_value s n k (Fixed v) = Inr w \<and> dict_get r k = Some w" by auto
  qed
qed

lemma saving_other:
  assumes "saving s n es fs r" "dict_get fs k = Some v" "k \<noteq> ''child_configs''"
  shows "dict_get r k = (if norm (if k = ''name'' then VStr n else get_or es k VNone) = norm v then None else Some v)"
  using assms by (auto simp: saving_def marshal_value_def saved_value_def split: if_splits)

text \<open>The template that the saved configuration names.\<close>

lemma saved_template:
  assumes "saving s n es fs r" "default_shape s" "template_base s (get_or fs ''_template'' VNone) es" "config_shape s used fs"
  shows "truthy (get_or (map (map_prod id reload) r) ''_template'' VNone) = truthy (get_or fs ''_template'' VNone)"
    and "truthy (get_or fs ''_template'' VNone) \<Longrightarrow>
      get_or (map (map_prod id reload) r) ''_template'' VNone = get_or fs ''_template'' VNone"
proof -
  let ?t = "get_or fs ''_template'' VNone" and ?B = "map (map_prod id reload) r"
  have es: "get_or es ''_template'' VNone = VNone"
    using expansion_facts(1)[OF assms(2)] assms(2,3)
    by (auto simp: template_base_def default_shape_def split: if_splits)
  have B: "get_or ?B ''_template'' VNone = (case dict_get r ''_template'' of None \<Rightarrow> VNone | Some w \<Rightarrow> reload w)"
    by (simp add: get_or_def dict_get_map split: option.split)
  show "truthy (get_or ?B ''_template'' VNone) = truthy ?t"
  proof (cases "dict_get fs ''_template''")
    case None
    then show ?thesis using assms(1) by (simp add: B saving_def)
  next
    case (Some v)
    have "(''_template'', v) \<in> set fs" using Some assms(4) by (simp add: config_shape_def fields_ok_def dict_get_set_iff)
    then have "value_shape ''_template'' v" "value_ok v"
      using assms(4) by (auto simp: config_shape_def fields_ok_def)
    then have "norm (reload v) = norm v"
      using serialized_default(4)[OF assms(2)] by (intro norm_reload) (simp_all add: value_shape_def)
    moreover have "truthy v = False" if "VNone = norm v" using that by (metis norm_simps_inv(1) truthy.simps(1))
    ultimately show ?thesis
      using saving_other[OF assms(1) Some] es Some truthy_cong[of "reload v" v] by (auto simp: B)
  qed
  assume t: "truthy ?t"
  then obtain t where v: "dict_get fs ''_template'' = Some (VStr t)"
    using assms(3) by (auto simp: template_base_def get_or_def split: option.splits)
  then show "get_or ?B ''_template'' VNone = ?t"
    using saving_other[OF assms(1) v] es by (simp add: B)
qed

lemma serialized_default':
  assumes "default_shape s"
  shows "set (dict_keys (site_defaults s)) \<subseteq> set (dict_keys fs) \<Longrightarrow>
    fst ` set serialized_keys \<subseteq> set (dict_keys fs) - {''child_configs''}"
  using serialized_default(1)[OF assms] by blast

lemma config_shape_facts:
  assumes "config_shape s used fs"
  shows "fields_ok fs" "dict_ok fs" "set (dict_keys (site_defaults s)) \<subseteq> set (dict_keys fs)"
    and "dict_get fs k = Some v \<Longrightarrow> k \<noteq> ''child_configs'' \<Longrightarrow> value_shape k v"
    and "dict_get fs k = Some v \<Longrightarrow> v \<noteq> VNone \<or> dict_get (site_defaults s) k \<noteq> None"
proof -
  show ok: "fields_ok fs" and "dict_ok fs" using assms by (simp_all add: config_shape_def fields_ok_def)
  show "set (dict_keys (site_defaults s)) \<subseteq> set (dict_keys fs)"
    using assms by (auto simp: config_shape_def list_all_iff)
  show "dict_get fs k = Some v \<Longrightarrow> k \<noteq> ''child_configs'' \<Longrightarrow> value_shape k v"
    using assms \<open>dict_ok fs\<close> by (force simp: config_shape_def dict_get_set_iff)
  show "dict_get fs k = Some v \<Longrightarrow> v \<noteq> VNone \<or> dict_get (site_defaults s) k \<noteq> None"
    using assms \<open>dict_ok fs\<close> by (force simp: config_shape_def dict_get_set_iff kept_value_def dict_get_None)
qed
lemma loaded_norm: "loaded k v w \<Longrightarrow> norm v = norm v' \<Longrightarrow> loaded k v' w"
  by (simp add: loaded_def)

lemma template_covered_known:
  assumes "config_shape s used fs" "truthy (get_or fs ''_template'' VNone)"
  obtains t tm where "get_or fs ''_template'' VNone = VStr t" "dict_get (site_templates s) t = Some tm"
    "t \<in> set used" "set (dict_keys tm) \<subseteq> set (dict_keys fs)"
proof -
  have "template_covered s used fs" using assms(1) by (simp add: config_shape_def)
  with assms(2) show thesis
    using that by (auto simp: template_covered_def Let_def list_all_iff split: config_value.splits option.splits)
qed

text \<open>What the configuration starts from: the loaded defaults, updated by the loaded template.\<close>

definition starts_from :: "site \<Rightarrow> fields \<Rightarrow> config_value \<Rightarrow> fields \<Rightarrow> fields \<Rightarrow> bool" where
  "starts_from s D t es E \<longleftrightarrow>
     (if truthy t then \<exists>tt. template_loaded s es tt \<and> E = dict_update D tt else E = D \<and> es = site_defaults s)"

lemma starts_from_get:
  assumes "starts_from s D t es E" "loading_from s used D T" "k \<noteq> ''_template''"
  shows "(\<exists>v w. dict_get es k = Some v \<and> dict_get E k = Some w \<and> loaded k v w)
    \<or> (norm (get_or (site_defaults s) k VNone) = norm (get_or es k VNone) \<and> dict_get E k = dict_get D k)"
proof (cases "truthy t")
  case True
  then obtain tt where tt: "template_loaded s es tt" "E = dict_update D tt" using assms(1) by (auto simp: starts_from_def)
  have "dict_ok tt" using tt(1) by (simp add: template_loaded_def)
  then have "dict_get E k = (case dict_get tt k of Some v \<Rightarrow> Some v | None \<Rightarrow> dict_get D k)"
    by (simp add: tt(2) dict_get_update)
  moreover have "case dict_get tt k of Some w \<Rightarrow> \<exists>v. dict_get es k = Some v \<and> loaded k v w
      | None \<Rightarrow> norm (get_or (site_defaults s) k VNone) = norm (get_or es k VNone)"
    using tt(1) assms(3) by (simp add: template_loaded_def)
  ultimately show ?thesis by (auto split: option.splits)
next
  case False
  then show ?thesis using assms(1) by (simp add: starts_from_def)
qed

lemma starts_from_ok: "starts_from s D t es E \<Longrightarrow> dict_ok D \<Longrightarrow> dict_ok E"
  by (auto simp: starts_from_def dict_ok_update split: if_splits)

lemma template_base_name:
  assumes "default_shape s" "template_base s v es" shows "get_or es ''_template'' VNone = VNone"
  using expansion_facts(1)[OF assms(1)] assms
  by (auto simp: template_base_def default_shape_def split: if_splits)

text \<open>The merge of the parts, at one key.\<close>

lemma set_default_get:
  "dict_get (set_default d j v) k = (if k = j \<and> dict_get d j = None then Some v else dict_get d k)"
  by (auto simp: set_default_def dict_get_set dict_get_None)

lemma merged_get:
  assumes "\<And>k. dict_get B k = map_option reload (dict_get r k)" "dict_ok B" "k \<noteq> ''child_configs''"
  shows "dict_get (dict_update E (set_default (dict_del B ''child_configs'') ''name'' (VStr n))) k =
    (case dict_get r k of Some v \<Rightarrow> Some (reload v)
     | None \<Rightarrow> if k = ''name'' then Some (VStr n) else dict_get E k)"
proof -
  let ?b = "set_default (dict_del B ''child_configs'') ''name'' (VStr n)"
  have ok: "dict_ok ?b" using assms(2) by (simp add: set_default_def dict_ok_set dict_ok_del)
  have "dict_get ?b k = (case dict_get r k of Some v \<Rightarrow> Some (reload v) | None \<Rightarrow> if k = ''name'' then Some (VStr n) else None)"
    using assms(1,3) by (auto simp: set_default_get dict_get_del split: option.split)
  then show ?thesis by (simp add: dict_get_update[OF ok] split: option.split)
qed

lemma represents_merged:
  assumes save: "saving s n es fs r" and ld: "loading_from s used D T" and shape: "config_shape s used fs"
    and base: "template_base s (get_or fs ''_template'' VNone) es"
    and start: "starts_from s D (get_or fs ''_template'' VNone) es E"
    and B: "\<And>k. dict_get B k = map_option reload (dict_get r k)" "dict_ok B"
    and k: "k \<noteq> ''child_configs''"
  shows "represents fs (dict_update E (set_default (dict_del B ''child_configs'') ''name'' (VStr n))) k"
proof -
  note facts = config_shape_facts[OF shape]
  have d: "default_shape s" using ld by (simp add: loading_from_def)
  have D: "loads_to (site_defaults s) D k" using ld by (simp add: loading_from_def)
  have name: "''name'' \<in> set (dict_keys fs)" using serialized_default(2)[OF d] facts(3) by blast
  have tmpl: "''_template'' \<in> set (dict_keys fs)"
    using d facts(3) dict_get_None[of "site_defaults s" "''_template''"] by (auto simp: default_shape_def)
  show ?thesis
  proof (cases "dict_get fs k")
    case None
    have r: "dict_get r k = None" using save None by (simp add: saving_def)
    have "k \<noteq> ''name''" "k \<noteq> ''_template''" using None name tmpl by (auto simp: dict_get_None)
    moreover have dk: "dict_get (site_defaults s) k = None" using None facts(3) by (auto simp: dict_get_None)
    then have Dk: "dict_get D k = None" using D by (simp add: loads_to_def)
    have "dict_get es k = None"
    proof (cases "truthy (get_or fs ''_template'' VNone)")
      case True
      then obtain t tm where t: "get_or fs ''_template'' VNone = VStr t" "dict_get (site_templates s) t = Some tm"
        and sub: "set (dict_keys tm) \<subseteq> set (dict_keys fs)"
        by (rule template_covered_known[OF shape])
      have es: "template_shape s t tm" "expansion s tm = Inr es" using base True t by (auto simp: template_base_def)
      have "dict_get tm k = None" using None sub by (auto simp: dict_get_None)
      with dk show ?thesis using expansion_facts(4)[OF d es, of k] by blast
    next
      case False
      then show ?thesis using base dk by (simp add: template_base_def)
    qed
    then have "dict_get E k = None"
      using starts_from_get[OF start ld \<open>k \<noteq> ''_template''\<close>] Dk by auto
    ultimately show ?thesis
      using None r by (simp add: represents_def merged_get[OF B k])
  next
    case (Some v)
    have v: "value_shape k v" "value_ok v" using facts(4)[OF Some k] fields_ok_value[OF facts(1) Some] by simp_all
    let ?m = "if k = ''name'' then VStr n else get_or es k VNone"
    show ?thesis
    proof (cases "norm ?m = norm v")
      case False
      then have "dict_get r k = Some v" using saving_other[OF save Some k] by simp
      then show ?thesis using Some v by (simp add: represents_def merged_get[OF B k] encoded_def)
    next
      case True
      then have r: "dict_get r k = None" using saving_other[OF save Some k] by simp
      show ?thesis
      proof (cases "k = ''name''")
        case True
        then have "norm v = VStr n" using \<open>norm ?m = norm v\<close> by simp
        then have "v = VStr n" by (cases v) simp_all
        then have "loaded k v (VStr n)" using True serialized_default(3)[OF d] by (simp add: loaded_def)
        then show ?thesis unfolding represents_def merged_get[OF B k] using Some r True by simp
      next
        case False
        then have m: "norm (get_or es k VNone) = norm v" using True by simp
        have "\<exists>w. dict_get E k = Some w \<and> loaded k v w"
        proof (cases "dict_get E k = dict_get D k \<and> norm (get_or (site_defaults s) k VNone) = norm v")
          case True
          show ?thesis
          proof (cases "dict_get (site_defaults s) k")
            case None
            then have "v = VNone" using True by (metis get_or_None norm.simps(1) norm_simps_inv(1))
            then show ?thesis using facts(5)[OF Some] None by simp
          next
            case (Some v0)
            then obtain w where "dict_get D k = Some w" "loaded k v0 w" using D by (auto simp: loads_to_def option_rel_Some1)
            then show ?thesis using True Some loaded_norm by auto
          qed
        next
          case other: False
          have "k \<noteq> ''_template''"
          proof
            assume t: "k = ''_template''"
            then have "v = VNone" using m template_base_name[OF d base] by (metis norm.simps(1) norm_simps_inv(1))
            then have "E = D" "es = site_defaults s" using start Some t by (simp_all add: starts_from_def)
            then show False using other m by simp
          qed
          from starts_from_get[OF start ld this] m other show ?thesis using loaded_norm by fastforce
        qed
        then show ?thesis using Some r False by (auto simp: represents_def merged_get[OF B k])
      qed
    qed
  qed
qed

lemma represents_child:
  assumes ld: "loading_from s used D T" and start: "starts_from s D t es E" and base: "template_base s t es"
    and B: "\<And>k. dict_get B k = map_option reload (dict_get r k)" "dict_ok B"
  shows "dict_get (dict_update E (set_default (dict_del B ''child_configs'') ''name'' (VStr n))) ''child_configs'' = Some (VList [])"
proof -
  have d: "default_shape s" and D: "loads_to (site_defaults s) D ''child_configs''" using ld by (simp_all add: loading_from_def)
  have dc: "dict_get (site_defaults s) ''child_configs'' = Some (VList [])" using d by (simp add: default_shape_def)
  have w: "w = VList []" if "loaded k (VList []) w" for k w
    using that by (auto simp: loaded_def norm_simps_inv)
  have es: "dict_get es ''child_configs'' = Some (VList [])"
    using expansion_facts(2)[OF d] base dc by (auto simp: template_base_def split: if_splits)
  have "dict_get D ''child_configs'' = Some (VList [])"
    using D dc w by (auto simp: loads_to_def option_rel_Some1)
  then have E: "dict_get E ''child_configs'' = Some (VList [])"
    using starts_from_get[OF start ld, where k = "''child_configs''"] es w by auto
  let ?b = "set_default (dict_del B ''child_configs'') ''name'' (VStr n)"
  have "dict_ok ?b" using B(2) by (simp add: set_default_def dict_ok_set dict_ok_del)
  moreover have "dict_get ?b ''child_configs'' = None" by (simp add: set_default_get dict_get_del)
  ultimately show ?thesis using E by (simp add: dict_get_update)
qed

text \<open>All of a configuration but its children.\<close>

lemma build_without_children_loads:
  assumes save: "saving s n es fs r" and ld: "loading_from s used D T" and shape: "config_shape s used fs"
    and base: "template_base s (get_or fs ''_template'' VNone) es"
  defines "B \<equiv> sort_fields (map (map_prod id reload) r)"
  shows "\<exists>R. build_without_children n D T (dict_del B ''child_configs'') = Inr R \<and> dict_ok R
    \<and> (\<forall>k. k \<noteq> ''child_configs'' \<longrightarrow> loads_to fs R k) \<and> dict_get R ''child_configs'' = Some (VList [])"
proof -
  let ?t = "get_or fs ''_template'' VNone" and ?b = "set_default (dict_del B ''child_configs'') ''name'' (VStr n)"
  have d: "default_shape s" and D: "dict_ok D" using ld by (simp_all add: loading_from_def)
  have okr: "dict_ok r" using save by (simp add: saving_def)
  have B: "dict_get B k = map_option reload (dict_get r k)" "dict_ok B" for k
    using okr by (simp_all add: B_def dict_get_sort_fields dict_get_map)
  have tB: "get_or (dict_del B ''child_configs'') ''_template'' VNone = get_or (map (map_prod id reload) r) ''_template'' VNone"
    by (simp add: get_or_def dict_get_del B dict_get_map)
  note st = saved_template[OF save d base shape, folded tB]
  have "\<exists>E. (if truthy (get_or (dict_del B ''child_configs'') ''_template'' VNone)
        then res_bind (lookup_value T (get_or (dict_del B ''child_configs'') ''_template'' VNone)) (\<lambda>t.
                            res_bind (update_arg t) (\<lambda>u. Inr (dict_update D u)))
        else Inr D) = Inr E \<and> starts_from s D ?t es E"
  proof (cases "truthy ?t")
    case True
    then obtain t tm where t: "?t = VStr t" "dict_get (site_templates s) t = Some tm" "t \<in> set used"
      using template_covered_known[OF shape] by metis
    have "expansion s tm = Inr es" using base True t by (auto simp: template_base_def)
    then obtain tt where tt: "dict_get T t = Some (VDict tt)" "template_loaded s es tt"
      using ld t unfolding loading_from_def by blast
    have "starts_from s D ?t es (dict_update D tt)" using True tt(2) by (auto simp: starts_from_def)
    then show ?thesis using True st t(1) tt(1) by (auto simp: lookup_value_def update_arg_def)
  next
    case False
    then show ?thesis using st(1) base by (simp add: starts_from_def template_base_def)
  qed
  then obtain E where E: "(if truthy (get_or (dict_del B ''child_configs'') ''_template'' VNone)
        then res_bind (lookup_value T (get_or (dict_del B ''child_configs'') ''_template'' VNone)) (\<lambda>t.
                            res_bind (update_arg t) (\<lambda>u. Inr (dict_update D u)))
        else Inr D) = Inr E" and start: "starts_from s D ?t es E"
    by (elim exE conjE) (rule that)
  let ?R = "dict_update E ?b"
  have rep: "\<forall>k. k \<notin> {''child_configs''} \<longrightarrow> represents fs ?R k"
    using represents_merged[OF save ld shape base start B] by blast
  have ser: "fst ` set serialized_keys \<subseteq> set (dict_keys fs) - {''child_configs''}"
    by (rule serialized_default'[OF d config_shape_facts(3)[OF shape]])
  have ok: "dict_ok ?R" by (rule dict_ok_update[OF starts_from_ok[OF start D]])
  from DeserializeConfigs_loads[OF rep ser ok] obtain R where R: "DeserializeConfigs ?R = Inr R" "dict_ok R"
      "\<forall>k. k \<notin> {''child_configs''} \<longrightarrow> loads_to fs R k" "\<forall>k. k \<in> {''child_configs''} \<longrightarrow> dict_get R k = dict_get ?R k"
    by (elim exE conjE) (rule that)
  have "build_without_children n D T (dict_del B ''child_configs'') = Inr R"
    using E R(1) by (simp add: build_without_children_def Let_def deepcopy_loaded[OF ld])
  moreover have "dict_get R ''child_configs'' = Some (VList [])"
    using R(4) represents_child[OF ld start base B] by simp
  ultimately show ?thesis using R by blast
qed
section \<open>Configurations with their children\<close>

text \<open>What saving and loading gives for one configuration: the saved dictionary is one, and
  loading it builds a configuration that equals the original.\<close>

definition comes_back :: "site \<Rightarrow> string \<Rightarrow> fields \<Rightarrow> fields \<Rightarrow> fields \<Rightarrow> bool" where
  "comes_back s n D T fs \<longleftrightarrow>
     (\<forall>r. MarshalBuildConfig s n (fixed_config fs) = Inr r \<longrightarrow>
        fields_ok r
        \<and> (\<exists>R. CreateBuildConfig n D T (sort_fields (map (map_prod id reload) r)) = Inr R
             \<and> fields_ok R \<and> same_fields R fs))"

lemma children_come_back:
  assumes "\<forall>v \<in> set vs. \<exists>gs. v = VDict gs \<and> dict_ok gs \<and> comes_back s n D T gs" "marshal_children s n vs = Inr ws"
  shows "(\<forall>w \<in> set ws. value_ok w)
    \<and> (\<exists>cs. CreateChildren n D T (map reload ws) = Inr cs \<and> map norm cs = map norm vs \<and> (\<forall>c \<in> set cs. value_ok c))"
  using assms
proof (induction vs arbitrary: ws)
  case (Cons v vs)
  obtain gs where v: "v = VDict gs" "dict_ok gs" "comes_back s n D T gs" using Cons.prems(1) by auto
  from Cons.prems(2) obtain r rs where r: "MarshalBuildConfig s n (fixed_config gs) = Inr r"
    and rs: "marshal_children s n vs = Inr rs" and ws: "ws = VDict r # rs"
    by (auto simp: v(1) res_bind_Inr)
  obtain R where R: "fields_ok r" "CreateBuildConfig n D T (sort_fields (map (map_prod id reload) r)) = Inr R"
      "fields_ok R" "same_fields R gs"
    using v(3) r unfolding comes_back_def by blast
  have "\<forall>v \<in> set vs. \<exists>gs. v = VDict gs \<and> dict_ok gs \<and> comes_back s n D T gs" using Cons.prems(1) by simp
  note IH = Cons.IH[OF this rs]
  then obtain cs where cs: "CreateChildren n D T (map reload rs) = Inr cs" "map norm cs = map norm vs" "\<forall>c \<in> set cs. value_ok c"
    by blast
  have "norm (VDict R) = norm (VDict gs)"
    using R(3,4) v(2) by (intro same_fields_norm) (simp_all add: fields_ok_def)
  moreover have "CreateChildren n D T (map reload ws) = Inr (VDict R # cs)"
    using R(2) cs(1) by (simp add: ws)
  ultimately show ?case using IH R(1,3) cs by (simp add: ws v(1))
qed simp

lemma loads_to_same:
  assumes "loads_to fs R k" shows "map_option norm (dict_get R k) = map_option norm (dict_get fs k)"
  using assms by (auto simp: loads_to_def loaded_def elim: option.rel_cases)

lemma saving_value_ok:
  assumes "saving s n es fs r" "fields_ok fs" "dict_get r k = Some w" "k \<noteq> ''child_configs''"
  shows "value_ok w"
proof -
  obtain v where v: "dict_get fs k = Some v" using assms(1,3) by (cases "dict_get fs k") (auto simp: saving_def)
  then have "w = v" using saving_other[OF assms(1) v assms(4)] assms(3) by (auto split: if_splits)
  then show ?thesis using fields_ok_value[OF assms(2) v] by simp
qed

lemma template_base_exists:
  assumes "config_shape s used fs" "\<forall>p \<in> set (site_templates s). template_shape s (fst p) (snd p)" "dict_ok (site_templates s)"
  shows "\<exists>es. template_base s (get_or fs ''_template'' VNone) es"
proof (cases "truthy (get_or fs ''_template'' VNone)")
  case True
  then obtain t tm where t: "get_or fs ''_template'' VNone = VStr t" "dict_get (site_templates s) t = Some tm"
    by (rule template_covered_known[OF assms(1)])
  then have shape: "template_shape s t tm" using assms(2,3) by (force simp: dict_get_set_iff)
  then obtain es where "expansion s tm = Inr es" by (auto simp: template_shape_def split: sum.splits)
  with t shape True show ?thesis by (auto simp: template_base_def)
qed (simp add: template_base_def)

lemma config_comes_back:
  assumes ld: "loading_from s used D T" and shapes: "\<forall>p \<in> set (site_templates s). template_shape s (fst p) (snd p)"
    and okt: "dict_ok (site_templates s)" and st: "storable s used fs"
  shows "comes_back s n D T fs"
  using st
proof (induction "size_fields fs" arbitrary: fs rule: less_induct)
  case less
  have d: "default_shape s" using ld by (simp add: loading_from_def)
  have shape: "config_shape s used fs" using less.prems by (simp add: storable.simps)
  obtain vs where vs: "dict_get fs ''child_configs'' = Some (VList vs)"
    and kids: "\<forall>v \<in> set vs. case v of VDict gs \<Rightarrow> storable s used gs | _ \<Rightarrow> False"
    using less.prems by (auto simp: storable.simps[of s used fs] split: option.splits config_value.splits)
  have kids': "\<forall>v \<in> set vs. \<exists>gs. v = VDict gs \<and> dict_ok gs \<and> comes_back s n D T gs"
  proof
    fix v assume v: "v \<in> set vs"
    then have "case v of VDict gs \<Rightarrow> storable s used gs | _ \<Rightarrow> False" using kids by blast
    then obtain gs where gs: "v = VDict gs" "storable s used gs" by (cases v) auto
    then have "comes_back s n D T gs" using v vs by (intro less.hyps size_child) simp_all
    moreover have "config_shape s used gs" using gs(2) by (simp add: storable.simps[of s used gs])
    then have "dict_ok gs" by (rule config_shape_facts(2))
    ultimately show "\<exists>gs. v = VDict gs \<and> dict_ok gs \<and> comes_back s n D T gs" using gs(1) by blast
  qed
  show ?case
    unfolding comes_back_def
  proof (intro allI impI)
    fix r assume run: "MarshalBuildConfig s n (fixed_config fs) = Inr r"
    let ?B = "sort_fields (map (map_prod id reload) r)"
    obtain es where base: "template_base s (get_or fs ''_template'' VNone) es"
      using template_base_exists[OF shape shapes okt] by blast
    have fok: "fields_ok fs" by (rule config_shape_facts(1)[OF shape])
    have save: "saving s n es fs r" by (rule MarshalBuildConfig_saving[OF run d base fok])
    have okr: "dict_ok r" using save by (simp add: saving_def)
    have B: "dict_get ?B k = map_option reload (dict_get r k)" for k
      using okr by (simp add: dict_get_sort_fields dict_get_map)
    from build_without_children_loads[OF save ld shape base] obtain R where
      R: "build_without_children n D T (dict_del ?B ''child_configs'') = Inr R" "dict_ok R"
        "\<forall>k. k \<noteq> ''child_configs'' \<longrightarrow> loads_to fs R k" "dict_get R ''child_configs'' = Some (VList [])"
      by (elim exE conjE) (rule that)
    have ok: "value_ok w" if "dict_get R k = Some w" "k \<noteq> ''child_configs''" for k w
      using R(3) that by (auto simp: loads_to_def loaded_def option_rel_Some2)
    have es: "get_or es ''child_configs'' VNone = VList []"
      using expansion_facts(2)[OF d] base d by (auto simp: template_base_def default_shape_def split: if_splits)
    show "fields_ok r \<and> (\<exists>R. CreateBuildConfig n D T ?B = Inr R \<and> fields_ok R \<and> same_fields R fs)"
    proof (cases "vs = []")
      case True
      then have rc: "dict_get r ''child_configs'' = None" using save vs es by (simp add: saving_def)
      then have "CreateBuildConfig n D T ?B = Inr R" using R(1) by (simp add: B)
      moreover have "fields_ok R"
        unfolding fields_ok_get
      proof (intro conjI allI impI R(2))
        fix k w assume "dict_get R k = Some w"
        then show "value_ok w" using R(4) ok by (cases "k = ''child_configs''") auto
      qed
      moreover have "map_option norm (dict_get R k) = map_option norm (dict_get fs k)" for k
        using R(3,4) vs True loads_to_same by (cases "k = ''child_configs''") auto
      then have "same_fields R fs" by (simp add: same_fields_def)
      moreover have "fields_ok r"
        unfolding fields_ok_get
      proof (intro conjI allI impI okr)
        fix k w assume "dict_get r k = Some w"
        then show "value_ok w" using rc saving_value_ok[OF save fok] by (cases "k = ''child_configs''") auto
      qed
      ultimately show ?thesis by blast
    next
      case False
      then have "\<exists>w. marshal_value s n ''child_configs'' (Fixed (VList vs)) = Inr w \<and> dict_get r ''child_configs'' = Some w"
        using save vs es by (simp add: saving_def)
      then obtain ws where ws: "marshal_children s n vs = Inr ws" "dict_get r ''child_configs'' = Some (VList ws)"
        by (auto simp: marshal_value_def res_bind_Inr)
      from children_come_back[OF kids' ws(1)] obtain cs where okw: "\<forall>w \<in> set ws. value_ok w"
        and cs: "CreateChildren n D T (map reload ws) = Inr cs" "map norm cs = map norm vs" "\<forall>c \<in> set cs. value_ok c"
        by (elim exE conjE) (rule that)
      let ?R = "dict_set R ''child_configs'' (VList cs)"
      have "CreateBuildConfig n D T ?B = Inr ?R" using R(1) cs(1) ws(2) by (simp add: B)
      moreover have "fields_ok ?R" using R(2) ok cs(3) by (auto simp: fields_ok_get dict_ok_set dict_get_set split: if_splits)
      moreover have "map_option norm (dict_get ?R k) = map_option norm (dict_get fs k)" for k
        using R(3) vs cs(2) loads_to_same by (cases "k = ''child_configs''") (auto simp: dict_get_set)
      then have "same_fields ?R fs" by (simp add: same_fields_def)
      moreover have "fields_ok r"
        unfolding fields_ok_get
      proof (intro conjI allI impI okr)
        fix k w assume "dict_get r k = Some w"
        then show "value_ok w"
          using ws(2) okw saving_value_ok[OF save fok] by (cases "k = ''child_configs''") auto
      qed
      ultimately show ?thesis by blast
    qed
  qed
qed
section \<open>Saving and loading a template\<close>

lemma without_defaults_get:
  "without_defaults d (fixed_config fs) = Inr r \<Longrightarrow> dict_ok fs \<Longrightarrow>
     dict_ok r \<and> set (dict_keys r) \<subseteq> set (dict_keys fs)
     \<and> (\<forall>k v. dict_get fs k = Some v \<longrightarrow>
          (\<exists>b. differs (config_get d k) (Fixed v) = Inr b \<and> dict_get r k = (if b then Some v else None)))"
proof (induction fs arbitrary: r)
  case (Cons p fs)
  obtain j u where p: "p = (j, u)" by force
  have ok: "dict_ok fs" "j \<notin> set (dict_keys fs)" using Cons.prems(2) by (auto simp: p dict_ok_def dict_keys_def)
  from Cons.prems(1) obtain b r' where b: "differs (config_get d j) (Fixed u) = Inr b"
    and run: "without_defaults d (fixed_config fs) = Inr r'" and r: "r = (if b then (j, u) # r' else r')"
    by (auto simp: p fixed_config_def res_bind_Inr saved_value_def)
  note IH = Cons.IH[OF run ok(1)]
  have j: "j \<notin> set (dict_keys r')" "dict_get r' j = None" using IH ok(2) by (auto simp: dict_get_None)
  show ?case
  proof (intro conjI allI impI)
    show "dict_ok r" using IH j(1) by (simp add: r dict_ok_def dict_keys_def)
    show "set (dict_keys r) \<subseteq> set (dict_keys (p # fs))" using IH by (auto simp: r p)
    fix k v assume v: "dict_get (p # fs) k = Some v"
    show "\<exists>b. differs (config_get d k) (Fixed v) = Inr b \<and> dict_get r k = (if b then Some v else None)"
    proof (cases "k = j")
      case True
      then have "v = u" using v by (simp add: p dict_get_Cons)
      then show ?thesis using True b j(2) by (intro exI[of _ b]) (simp add: r dict_get_Cons)
    next
      case False
      then have "dict_get fs k = Some v" using v by (simp add: p dict_get_Cons)
      moreover have "dict_get r k = dict_get r' k" using False by (simp add: r dict_get_Cons)
      ultimately show ?thesis using IH by simp
    qed
  qed
qed (simp add: fixed_config_def)

lemma fixed_config_set: "dict_set (fixed_config fs) k (Fixed v) = fixed_config (dict_set fs k v)"
  by (induction fs k v rule: dict_set.induct) (auto simp: fixed_config_def)

lemma MarshalTemplate_get:
  assumes "MarshalTemplate s name = Inr r" "default_shape s" "dict_get (site_templates s) name = Some tm"
    "template_shape s name tm" "expansion s tm = Inr es"
  shows "dict_ok r" and "dict_get es k = None \<Longrightarrow> dict_get r k = None"
    and "k \<noteq> ''_template'' \<Longrightarrow> dict_get es k = Some v \<Longrightarrow>
      dict_get r k = (if norm (get_or (site_defaults s) k VNone) = norm v then None else Some v)"
    and "dict_get r ''_template'' = Some (VStr name) \<or> dict_get r ''_template'' = None"
proof -
  let ?es = "dict_set es ''_template'' (VStr name)"
  note facts = expansion_facts[OF assms(2,4,5)]
  have es: "fields_ok es" "dict_ok ?es" using facts(5) by (simp_all add: fields_ok_def dict_ok_set)
  have "derive (GetDefault s) [tm] [] = Inr (fixed_config es)"
    using expansion_get(2)[OF assms(2,4,5)]
    by (simp add: derive_def deepcopy_default[OF assms(2)] BuildConfig_apply_template)
  then have "without_defaults (GetDefault s) (fixed_config ?es) = Inr r"
    using assms(1,3) by (simp add: MarshalTemplate_def Let_def lookup_value_def fixed_config_set)
  note get = without_defaults_get[OF this es(2)]
  then show "dict_ok r" by blast
  show "dict_get r k = None" if "dict_get es k = None"
  proof -
    have "k \<noteq> ''_template''" using that facts(1) by auto
    then have "k \<notin> set (dict_keys ?es)" using that by (simp add: dict_set_keys dict_get_None)
    then show ?thesis using get by (auto simp: dict_get_None)
  qed
  have gd: "config_get (GetDefault s) k = Fixed (get_or (site_defaults s) k VNone)" for k
    by (simp add: config_get_def GetDefault_def dict_get_fixed get_or_def split: option.split)
  have dok: "value_ok (get_or (site_defaults s) k VNone)" for k
    using assms(2) fields_ok_value[of "site_defaults s" k] by (simp add: default_shape_def get_or_def split: option.split)
  show "dict_get r k = (if norm (get_or (site_defaults s) k VNone) = norm v then None else Some v)"
    if "k \<noteq> ''_template''" "dict_get es k = Some v"
  proof -
    have "dict_get ?es k = Some v" using that by (simp add: dict_get_set)
    then obtain b where b: "differs (Fixed (get_or (site_defaults s) k VNone)) (Fixed v) = Inr b"
        "dict_get r k = (if b then Some v else None)"
      using get gd by metis
    have "b \<longleftrightarrow> norm (get_or (site_defaults s) k VNone) \<noteq> norm v"
      by (rule differs_norm[OF b(1) dok fields_ok_value[OF es(1) that(2)]])
    with b(2) show ?thesis by simp
  qed
  have "dict_get ?es ''_template'' = Some (VStr name)" by (simp add: dict_get_set)
  then obtain b where "dict_get r ''_template'' = (if b then Some (VStr name) else None)" using get by metis
  then show "dict_get r ''_template'' = Some (VStr name) \<or> dict_get r ''_template'' = None" by simp
qed

lemma optional_keys: "(k, c, True) \<in> set serialized_keys \<Longrightarrow> k = ''vm_tests_override'' \<or> k = ''hw_tests_override''"
  by (auto simp: serialized_keys_def)

lemma template_loads:
  assumes "MarshalTemplate s name = Inr r" "default_shape s" "dict_get (site_templates s) name = Some tm"
    "template_shape s name tm" "expansion s tm = Inr es"
  shows "\<exists>tt. load_template (name, reload (VDict r)) = Inr (name, VDict tt) \<and> template_loaded s es tt"
proof -
  note get = MarshalTemplate_get[OF assms] and facts = expansion_facts[OF assms(2,4,5)]
  let ?E = "sort_fields (map (map_prod id reload) r)"
  have E: "dict_get ?E k = map_option reload (dict_get r k)" for k
    using get(1) by (simp add: dict_get_sort_fields dict_get_map)
  have saved: "\<exists>v. dict_get es k = Some v \<and> encoded k v (reload w) \<and> w = v" if "dict_get r k = Some w" "k \<noteq> ''_template''" for k w
  proof -
    from that(1) get(2)[of k] obtain v where v: "dict_get es k = Some v" by (metis not_None_eq option.distinct(1))
    then have "w = v" using get(3)[OF that(2) v] that(1) by (simp split: if_splits)
    then show ?thesis using v facts(6)[OF v] fields_ok_value[OF facts(5) v] by (simp add: encoded_def)
  qed
  have notserial: "map_of serialized_keys ''_template'' = None" by (rule serialized_default(4)[OF assms(2)])
  define X where "X k = (case map_of serialized_keys k of None \<Rightarrow> None
      | Some (c, p) \<Rightarrow> (case restored c p (dict_get ?E k) of Inl e \<Rightarrow> None | Inr x \<Rightarrow> x))" for k
  have step: "restored c p (dict_get ?E k) = Inr (X k)
      \<and> (case dict_get r k of None \<Rightarrow> X k = (if p then Some VNone else None)
         | Some w \<Rightarrow> \<exists>v x. dict_get es k = Some v \<and> X k = Some x \<and> loaded k v x)"
    if k: "(k, c, p) \<in> set serialized_keys" for k c p
  proof -
    have m: "map_of serialized_keys k = Some (c, p)" by (rule serialized_lookup(1)[OF k])
    show ?thesis
    proof (cases "dict_get r k")
      case None
      then have "restored c p (dict_get ?E k) = Inr (if p then Some VNone else None)" by (simp add: E restored_def)
      with None m show ?thesis by (simp add: X_def)
    next
      case (Some w)
      have "k \<noteq> ''_template''" using m notserial by auto
      from saved[OF Some this] obtain v where v: "dict_get es k = Some v" "encoded k v (reload w)" by blast
      from restored_encoded[OF v(2) m] obtain x where "restored c p (Some (reload w)) = Inr (Some x)" "loaded k v x" by blast
      with Some m v(1) show ?thesis by (simp add: X_def E)
    qed
  qed
  then have "\<forall>(k, c, p) \<in> set serialized_keys. restored c p (dict_get ?E k) = Inr (X k)" by blast
  from DeserializeConfigs_get[OF this] obtain tt where tt: "DeserializeConfigs ?E = Inr tt" "dict_ok ?E \<longrightarrow> dict_ok tt"
      "\<forall>j. dict_get tt j = (if j \<in> fst ` set serialized_keys then X j else dict_get ?E j)"
    by (elim exE conjE) (rule that)
  have unsaved: "norm (get_or (site_defaults s) k VNone) = norm (get_or es k VNone)"
    if "dict_get r k = None" "k \<noteq> ''_template''" for k
  proof (cases "dict_get es k")
    case None
    then have "dict_get (site_defaults s) k = None" using facts(3) by (auto simp: dict_get_None)
    with None show ?thesis by simp
  next
    case (Some v)
    then show ?thesis using get(3)[OF that(2) Some] that(1) by (simp split: if_splits)
  qed
  have "case dict_get tt k of Some w \<Rightarrow> \<exists>v. dict_get es k = Some v \<and> loaded k v w
        | None \<Rightarrow> norm (get_or (site_defaults s) k VNone) = norm (get_or es k VNone)" if t: "k \<noteq> ''_template''" for k
  proof (cases "k \<in> fst ` set serialized_keys")
    case True
    then obtain c p where k: "(k, c, p) \<in> set serialized_keys" by auto
    have tk: "dict_get tt k = X k" using tt(3) True by simp
    show ?thesis
    proof (cases "dict_get r k")
      case None
      then have x: "X k = (if p then Some VNone else None)" using step[OF k] by simp
      show ?thesis
      proof (cases p)
        case True
        then have d: "dict_get (site_defaults s) k = Some VNone"
          using optional_keys[of k c] k assms(2) by (auto simp: default_shape_def)
        then obtain v where v: "dict_get es k = Some v" using facts(3) by (metis dict_get_None not_None_eq subsetD)
        then have "norm v = VNone" using unsaved[OF None t] d by simp
        then have "loaded k v VNone" using True serialized_lookup(1)[OF k] by (simp add: loaded_def)
        then show ?thesis using v x True by (simp add: tk)
      qed (simp add: tk x unsaved[OF None t])
    next
      case (Some w)
      then show ?thesis using step[OF k] by (auto simp: tk)
    qed
  next
    case False
    then have tk: "dict_get tt k = map_option reload (dict_get r k)" using tt(3) E by simp
    show ?thesis
    proof (cases "dict_get r k")
      case (Some w)
      from saved[OF Some t] obtain v where "dict_get es k = Some v" "encoded k v (reload w)" by blast
      then show ?thesis using Some loaded_encoded[OF _ serialized_lookup(2)[OF False]] by (simp add: tk)
    qed (simp add: tk unsaved[OF _ t])
  qed
  then have "template_loaded s es tt" using tt(2) get(1) by (simp add: template_loaded_def)
  moreover have "load_template (name, reload (VDict r)) = Inr (name, VDict tt)"
    using tt(1) by (simp add: load_template_def as_object_def)
  ultimately show ?thesis by blast
qed

lemma template_save_ok:
  assumes "MarshalTemplate s name = Inr r" "default_shape s" "dict_get (site_templates s) name = Some tm"
    "template_shape s name tm" "expansion s tm = Inr es"
  shows "fields_ok r"
  unfolding fields_ok_get
proof (intro conjI allI impI)
  note get = MarshalTemplate_get[OF assms] and facts = expansion_facts[OF assms(2,4,5)]
  show "dict_ok r" by (rule get(1))
  fix k w assume w: "dict_get r k = Some w"
  show "value_ok w"
  proof (cases "k = ''_template''")
    case True
    then show ?thesis using get(4) w by auto
  next
    case False
    obtain v where v: "dict_get es k = Some v" using get(2)[of k] w by (metis not_None_eq option.distinct(1))
    then have "w = v" using get(3)[OF False v] w by (simp split: if_splits)
    then show ?thesis using fields_ok_value[OF facts(5) v] by simp
  qed
qed
section \<open>The whole site configuration\<close>

text \<open>A loop over the items of a dictionary that keeps the keys.\<close>

lemma map_res_dict:
  assumes "dict_ok xs" "\<forall>k v. dict_get xs k = Some v \<longrightarrow> (\<exists>w. f (k, v) = Inr (k, w))"
  shows "\<exists>ys. map_res f xs = Inr ys \<and> dict_ok ys \<and> dict_keys ys = dict_keys xs
    \<and> (\<forall>k v. dict_get xs k = Some v \<longrightarrow> (\<exists>w. f (k, v) = Inr (k, w) \<and> dict_get ys k = Some w))"
proof -
  obtain g where g: "\<forall>k v. dict_get xs k = Some v \<longrightarrow> f (k, v) = Inr (k, g k v)" using assms(2) by metis
  let ?ys = "map (\<lambda>p. (fst p, g (fst p) (snd p))) xs"
  have "map_res f xs = Inr ?ys"
  proof (rule map_res_all)
    fix p assume "p \<in> set xs"
    then have "dict_get xs (fst p) = Some (snd p)" using assms(1) by (simp add: dict_get_set_iff)
    then have "f (fst p, snd p) = Inr (fst p, g (fst p) (snd p))" using g by blast
    then show "f p = Inr (fst p, g (fst p) (snd p))" by simp
  qed
  moreover have keys: "dict_keys ?ys = dict_keys xs" by (simp add: dict_keys_def)
  moreover have ok: "dict_ok ?ys" using assms(1) by (simp add: dict_ok_def comp_def)
  moreover have "\<exists>w. f (k, v) = Inr (k, w) \<and> dict_get ?ys k = Some w" if kv: "dict_get xs k = Some v" for k v
  proof -
    have "(k, v) \<in> set xs" using kv assms(1) by (simp add: dict_get_set_iff)
    then have "(k, g k v) \<in> set ?ys" by force
    then have "dict_get ?ys k = Some (g k v)" using ok by (simp add: dict_get_set_iff)
    then show ?thesis using g kv by blast
  qed
  ultimately show ?thesis by blast
qed

lemma map_res_elem: "map_res f xs = Inr ys \<Longrightarrow> x \<in> set xs \<Longrightarrow> \<exists>y. f x = Inr y \<and> y \<in> set ys"
  by (induction xs arbitrary: ys) (auto split: sum.splits)

lemma map_res_elem': "map_res f xs = Inr ys \<Longrightarrow> y \<in> set ys \<Longrightarrow> \<exists>x \<in> set xs. f x = Inr y"
  by (induction xs arbitrary: ys) (auto split: sum.splits)

text \<open>The defaults.\<close>

lemma DefaultSettings_None:
  assumes "default_shape s" "dict_get (site_defaults s) k = None" shows "dict_get DefaultSettings k = None"
proof -
  have "k \<notin> set (dict_keys default_items)"
    using assms by (auto simp: default_shape_def list_all_iff dict_get_None)
  then have "map_of (rev default_items) k = None"
    unfolding map_of_eq_None_iff by (simp add: dict_keys_def)
  then show ?thesis by (simp add: DefaultSettings_def dict_update_puts dict.get_puts)
qed

lemma defaults_load:
  assumes "default_shape s"
  shows "\<exists>D. DeserializeConfigs (dict_update DefaultSettings (sort_fields (map (map_prod id reload) (site_defaults s)))) = Inr D
    \<and> dict_ok D \<and> (\<forall>k. loads_to (site_defaults s) D k)"
proof -
  let ?d = "sort_fields (map (map_prod id reload) (site_defaults s))"
  have ok: "fields_ok (site_defaults s)" "dict_ok (site_defaults s)" using assms by (simp_all add: default_shape_def fields_ok_def)
  have okd: "dict_ok ?d" using ok by simp
  have get: "dict_get (dict_update DefaultSettings ?d) k = map_option reload (dict_get (site_defaults s) k)" for k
    using ok DefaultSettings_None[OF assms, of k]
    by (cases "dict_get (site_defaults s) k") (simp_all add: dict_get_update[OF okd] dict_get_sort_fields dict_get_map)
  have "represents (site_defaults s) (dict_update DefaultSettings ?d) k" for k
  proof (cases "dict_get (site_defaults s) k")
    case (Some v)
    then have "(k, v) \<in> set (site_defaults s)" using ok by (simp add: dict_get_set_iff)
    then have "value_shape k v" using assms by (force simp: default_shape_def)
    then have "encoded k v (reload v)" using fields_ok_value[OF ok(1) Some] by (simp add: encoded_def)
    then show ?thesis using Some by (simp add: represents_def get)
  qed (simp add: represents_def get)
  then have rep: "\<forall>k. k \<notin> {} \<longrightarrow> represents (site_defaults s) (dict_update DefaultSettings ?d) k" by blast
  have ser: "fst ` set serialized_keys \<subseteq> set (dict_keys (site_defaults s)) - {}" using serialized_default(1)[OF assms] by blast
  from DeserializeConfigs_loads[OF rep ser dict_ok_update[OF DefaultSettings_ok]] show ?thesis by auto
qed

text \<open>The templates.\<close>

lemma lookup_template: "lookup_value (site_templates s) (VStr t) = Inr tm \<longleftrightarrow> dict_get (site_templates s) t = Some tm"
  by (simp add: lookup_value_def split: option.split)

lemma templates_load:
  assumes "MarshalTemplates s = Inr ts" "savable s" "used_templates s = Inr used"
  shows "fields_ok ts
    \<and> (\<exists>T. map_res load_template (sort_fields (map (map_prod id reload) ts)) = Inr T
         \<and> (\<forall>D. dict_ok D \<and> (\<forall>k. loads_to (site_defaults s) D k) \<longrightarrow> loading_from s used D T))"
proof -
  have d: "default_shape s" and okt: "dict_ok (site_templates s)"
    and shapes: "\<forall>p \<in> set (site_templates s). template_shape s (fst p) (snd p)"
    using assms(2) by (simp_all add: savable_def)
  let ?save = "\<lambda>name. res_bind (MarshalTemplate s name) (\<lambda>save. Inr (name, VDict save))"
  have ts: "map_res ?save used = Inr ts" using assms(1,3) by (simp add: MarshalTemplates_def)
  have elem: "\<exists>r tm es. MarshalTemplate s t = Inr r \<and> dict_get ts t = Some (VDict r) \<and> dict_get (site_templates s) t = Some tm
      \<and> template_shape s t tm \<and> expansion s tm = Inr es" if u: "t \<in> set used" and ok: "dict_ok ts" for t
  proof -
    obtain y where "?save t = Inr y" "y \<in> set ts" using map_res_elem[OF ts u] by blast
    then obtain r where r: "MarshalTemplate s t = Inr r" "(t, VDict r) \<in> set ts" by (auto simp: res_bind_Inr)
    then obtain tm where tm: "dict_get (site_templates s) t = Some tm"
      by (auto simp: MarshalTemplate_def Let_def res_bind_Inr lookup_template)
    then have shape: "template_shape s t tm" using shapes okt by (force simp: dict_get_set_iff)
    then obtain es where "expansion s tm = Inr es" by (auto simp: template_shape_def split: sum.splits)
    with r tm shape ok show ?thesis by (simp add: dict_get_set_iff)
  qed
  have keys: "dict_keys ts = used"
    using ts by (induction used arbitrary: ts) (auto simp: res_bind_Inr split: sum.splits)
  have "distinct used" using assms(3) by (auto simp: used_templates_def res_bind_Inr)
  then have ok: "dict_ok ts" using keys by (simp add: dict_ok_def dict_keys_def)
  let ?ts = "sort_fields (map (map_prod id reload) ts)"
  have okts: "dict_ok ?ts" using ok by simp
  have get: "dict_get ?ts k = map_option reload (dict_get ts k)" for k
    using ok by (simp add: dict_get_sort_fields dict_get_map)
  have load: "\<exists>r es tm tt. dict_get ts t = Some (VDict r) \<and> fields_ok r \<and> load_template (t, reload (VDict r)) = Inr (t, VDict tt)
      \<and> dict_get (site_templates s) t = Some tm \<and> template_shape s t tm \<and> expansion s tm = Inr es \<and> template_loaded s es tt"
    if u: "t \<in> set used" for t
  proof -
    from elem[OF u ok] obtain r tm es where r: "MarshalTemplate s t = Inr r" "dict_get ts t = Some (VDict r)"
      "dict_get (site_templates s) t = Some tm" "template_shape s t tm" "expansion s tm = Inr es"
      by (elim exE conjE) (rule that)
    from template_loads[OF r(1) d r(3-5)] template_save_ok[OF r(1) d r(3-5)] r show ?thesis by blast
  qed
  have "\<forall>k v. dict_get ?ts k = Some v \<longrightarrow> (\<exists>w. load_template (k, v) = Inr (k, w))"
  proof (intro allI impI)
    fix k v assume v: "dict_get ?ts k = Some v"
    then have "k \<in> set used" using keys dict_get_None[of ts k] by (auto simp: get)
    from load[OF this] obtain r tt where "dict_get ts k = Some (VDict r)" "load_template (k, reload (VDict r)) = Inr (k, VDict tt)"
      by (elim exE conjE) (rule that)
    then show "\<exists>w. load_template (k, v) = Inr (k, w)" using v by (auto simp: get simp del: reload_simps)
  qed
  from map_res_dict[OF okts this] obtain T where T: "map_res load_template ?ts = Inr T"
      "\<forall>k v. dict_get ?ts k = Some v \<longrightarrow> (\<exists>w. load_template (k, v) = Inr (k, w) \<and> dict_get T k = Some w)"
    by (elim exE conjE) (rule that)
  have "fields_ok ts"
    unfolding fields_ok_get
  proof (intro conjI allI impI ok)
    fix k v assume v: "dict_get ts k = Some v"
    then have "k \<in> set used" using keys dict_get_None[of ts k] by auto
    from load[OF this] v show "value_ok v" by auto
  qed
  moreover have "loading_from s used D T" if D: "dict_ok D" "\<forall>k. loads_to (site_defaults s) D k" for D
    unfolding loading_from_def
  proof (intro conjI allI impI d D(1))
    show "loads_to (site_defaults s) D k" for k using D(2) by blast
    fix t tm es assume a: "dict_get (site_templates s) t = Some tm \<and> t \<in> set used \<and> expansion s tm = Inr es"
    then have u: "t \<in> set used" by blast
    from load[OF u] obtain r es' tm' tt where l: "dict_get ts t = Some (VDict r)"
        "load_template (t, reload (VDict r)) = Inr (t, VDict tt)" "dict_get (site_templates s) t = Some tm'"
        "template_shape s t tm'" "expansion s tm' = Inr es'" "template_loaded s es' tt"
      by (elim exE conjE) (rule that)
    show "template_shape s t tm" using l a by simp
    have "dict_get ?ts t = Some (reload (VDict r))" by (simp add: get l(1) del: reload_simps)
    then have "dict_get T t = Some (VDict tt)" using T(2) l(2) by fastforce
    then show "\<exists>tt. dict_get T t = Some (VDict tt) \<and> template_loaded s es tt" using l a by auto
  qed
  ultimately show ?thesis using T(1) by blast
qed
lemma savable_config:
  assumes "savable s" "used_templates s = Inr used" "dict_get (site_configs s) name = Some c"
  obtains fs where "fixed_fields c = Inr fs" "c = fixed_config fs" "storable s used fs"
    "name \<noteq> ''_default''" "name \<noteq> ''_templates''"
proof -
  have mem: "(name, c) \<in> set (site_configs s)" using assms(1,3) by (simp add: savable_def dict_get_set_iff)
  have "\<forall>p \<in> set (site_configs s). fst p \<noteq> ''_default'' \<and> fst p \<noteq> ''_templates''
      \<and> (case fixed_fields (snd p) of Inl e \<Rightarrow> False | Inr fs \<Rightarrow> storable s used fs)"
    using assms(1,2) by (simp add: savable_def)
  from bspec[OF this mem] have c: "name \<noteq> ''_default''" "name \<noteq> ''_templates''"
      "case fixed_fields c of Inl e \<Rightarrow> False | Inr fs \<Rightarrow> storable s used fs"
    by simp_all
  then obtain fs where "fixed_fields c = Inr fs" "storable s used fs" by (cases "fixed_fields c") auto
  with c(1,2) fixed_fields_get(3) show thesis using that by blast
qed

lemma dict_keys_None: "k \<in> set (dict_keys d) \<longleftrightarrow> dict_get d k \<noteq> None"
  by (simp add: dict_get_None)

lemma storable_ok: "storable s used fs \<Longrightarrow> fields_ok fs"
  by (rule config_shape_facts(1)[of s used]) (simp add: storable.simps[of s used fs])

text \<open>The saved configurations.\<close>

lemma builds_saved:
  assumes "map_res (\<lambda>(k, v). res_bind (MarshalBuildConfig s k v) (\<lambda>r. Inr (k, VDict r))) cs = Inr bs" "dict_ok cs"
  shows "dict_keys bs = dict_keys cs" "dict_ok bs"
    and "\<forall>k c. dict_get cs k = Some c \<longrightarrow> (\<exists>r. MarshalBuildConfig s k c = Inr r \<and> dict_get bs k = Some (VDict r))"
proof -
  show keys: "dict_keys bs = dict_keys cs"
    using assms(1) by (induction cs arbitrary: bs) (auto simp: res_bind_Inr split: sum.splits)
  then show ok: "dict_ok bs" using assms(2) by (simp add: dict_ok_def dict_keys_def)
  show "\<forall>k c. dict_get cs k = Some c \<longrightarrow> (\<exists>r. MarshalBuildConfig s k c = Inr r \<and> dict_get bs k = Some (VDict r))"
  proof (intro allI impI)
  fix k c assume "dict_get cs k = Some c"
  then have "(k, c) \<in> set cs" using assms(2) by (simp add: dict_get_set_iff)
  from map_res_elem[OF assms(1) this] obtain r where "MarshalBuildConfig s k c = Inr r" "(k, VDict r) \<in> set bs"
    by (auto simp: res_bind_Inr)
  then show "\<exists>r. MarshalBuildConfig s k c = Inr r \<and> dict_get bs k = Some (VDict r)"
    using ok by (auto simp: dict_get_set_iff)
  qed
qed

text \<open>The configurations, given what has been loaded before them.\<close>

lemma builds_load:
  assumes ld: "loading_from s used D T" and s: "savable s" and used: "used_templates s = Inr used"
    and bs: "dict_ok bs" "dict_keys bs = dict_keys (site_configs s)"
      "\<forall>k c. dict_get (site_configs s) k = Some c \<longrightarrow> (\<exists>r. MarshalBuildConfig s k c = Inr r \<and> dict_get bs k = Some (VDict r))"
    and C: "dict_ok C" "\<forall>k. dict_get C k = map_option reload (dict_get bs k)"
  shows "fields_ok bs"
    and "\<exists>R. map_res (load_build D T) C = Inr R \<and> dict_ok R \<and> set (dict_keys R) = set (dict_keys (site_configs s))
      \<and> (\<forall>name c. dict_get (site_configs s) name = Some c \<longrightarrow>
           (\<exists>fs gs. fixed_fields c = Inr fs \<and> dict_get R name = Some gs \<and> py_eq (VDict gs) (VDict fs) = Inr True))"
proof -
  have shapes: "\<forall>p \<in> set (site_templates s). template_shape s (fst p) (snd p)" and okt: "dict_ok (site_templates s)"
    using s by (simp_all add: savable_def)
  have one: "\<exists>c fs r gs. dict_get (site_configs s) k = Some c \<and> fixed_fields c = Inr fs \<and> dict_get bs k = Some (VDict r)
      \<and> fields_ok r \<and> load_build D T (k, reload (VDict r)) = Inr (k, gs) \<and> py_eq (VDict gs) (VDict fs) = Inr True"
    if "k \<in> set (dict_keys bs)" for k
  proof -
    obtain c where c: "dict_get (site_configs s) k = Some c" using \<open>k \<in> set (dict_keys bs)\<close> bs(2) by (metis dict_get_None not_None_eq)
    then obtain fs where fs: "fixed_fields c = Inr fs" "c = fixed_config fs" "storable s used fs"
      by (rule savable_config[OF s used])
    obtain r where r: "MarshalBuildConfig s k c = Inr r" "dict_get bs k = Some (VDict r)" using bs(3) c by blast
    have "comes_back s k D T fs" by (rule config_comes_back[OF ld shapes okt fs(3)])
    then obtain gs where gs: "fields_ok r" "CreateBuildConfig k D T (sort_fields (map (map_prod id reload) r)) = Inr gs"
        "fields_ok gs" "same_fields gs fs"
      using r(1) fs(2) unfolding comes_back_def by blast
    have okf: "fields_ok fs" by (rule storable_ok[OF fs(3)])
    then have "norm (VDict gs) = norm (VDict fs)" using gs(3,4) by (intro same_fields_norm) (simp_all add: fields_ok_def)
    then have "py_eq (VDict gs) (VDict fs) = Inr True" using gs(3) okf by (intro py_eq_norm[THEN iffD2]) simp_all
    moreover have "load_build D T (k, reload (VDict r)) = Inr (k, gs)" using gs(2) by (simp add: load_build_def as_object_def)
    ultimately show ?thesis using c fs(1) r(2) gs(1) by blast
  qed
  show "fields_ok bs"
    unfolding fields_ok_get
  proof (intro conjI allI impI bs(1))
    fix k v assume v: "dict_get bs k = Some v"
    then have "k \<in> set (dict_keys bs)" using dict_get_None[of bs k] by auto
    from one[OF this] v show "value_ok v" by auto
  qed
  have keys: "set (dict_keys C) = set (dict_keys bs)" using C(2) by (auto simp: dict_keys_None)
  have "\<forall>k v. dict_get C k = Some v \<longrightarrow> (\<exists>w. load_build D T (k, v) = Inr (k, w))"
  proof (intro allI impI)
    fix k v assume v: "dict_get C k = Some v"
    then have "k \<in> set (dict_keys bs)" using keys dict_get_None[of C k] by auto
    from one[OF this] obtain r gs where "dict_get bs k = Some (VDict r)" "load_build D T (k, reload (VDict r)) = Inr (k, gs)"
      by (elim exE conjE) (rule that)
    then show "\<exists>w. load_build D T (k, v) = Inr (k, w)" using v C(2) by (auto simp del: reload_simps)
  qed
  from map_res_dict[OF C(1) this] obtain R where R: "map_res (load_build D T) C = Inr R" "dict_ok R" "dict_keys R = dict_keys C"
      "\<forall>k v. dict_get C k = Some v \<longrightarrow> (\<exists>w. load_build D T (k, v) = Inr (k, w) \<and> dict_get R k = Some w)"
    by (elim exE conjE) (rule that)
  have "\<exists>fs gs. fixed_fields c = Inr fs \<and> dict_get R name = Some gs \<and> py_eq (VDict gs) (VDict fs) = Inr True"
    if c: "dict_get (site_configs s) name = Some c" for name c
  proof -
    have "name \<in> set (dict_keys bs)" using c bs(2) dict_get_None[of "site_configs s" name] by auto
    from one[OF this] obtain c' fs r gs where o: "dict_get (site_configs s) name = Some c'" "fixed_fields c' = Inr fs"
        "dict_get bs name = Some (VDict r)" "load_build D T (name, reload (VDict r)) = Inr (name, gs)"
        "py_eq (VDict gs) (VDict fs) = Inr True"
      by (elim exE conjE) (rule that)
    have "dict_get C name = Some (reload (VDict r))" using C(2) o(3) by simp
    then have "dict_get R name = Some gs" using R(4) o(4) by fastforce
    then show ?thesis using o c by auto
  qed
  moreover have "set (dict_keys R) = set (dict_keys (site_configs s))" using R(3) keys bs(2) by simp
  ultimately show "\<exists>R. map_res (load_build D T) C = Inr R \<and> dict_ok R \<and> set (dict_keys R) = set (dict_keys (site_configs s))
      \<and> (\<forall>name c. dict_get (site_configs s) name = Some c \<longrightarrow>
           (\<exists>fs gs. fixed_fields c = Inr fs \<and> dict_get R name = Some gs \<and> py_eq (VDict gs) (VDict fs) = Inr True))"
    using R(1,2) by blast
qed

text \<open>What is saved is loaded, and equals the original.\<close>

lemma saved_is_loaded:
  assumes "savable s" "SaveConfigToString s = Inr dump"
  shows "\<exists>t. LoadConfigFromString dump = Inr t
    \<and> set (dict_keys (site_configs t)) = set (dict_keys (site_configs s))
    \<and> py_eq (VDict (site_defaults t)) (VDict (site_defaults s)) = Inr True
    \<and> (\<forall>name c. dict_get (site_configs s) name = Some c \<longrightarrow>
         (\<exists>fs gs. fixed_fields c = Inr fs \<and> dict_get (site_configs t) name = Some (fixed_config gs)
            \<and> py_eq (VDict gs) (VDict fs) = Inr True))"
proof -
  from assms(2) obtain ts bs where ts: "MarshalTemplates s = Inr ts"
    and bs: "map_res (\<lambda>(k, v). res_bind (MarshalBuildConfig s k v) (\<lambda>r. Inr (k, VDict r))) (site_configs s) = Inr bs"
    and dump: "dump = PrettyJsonDict (dict_update [(''_default'', VDict (site_defaults s)), (''_templates'', VDict ts)] bs)"
    by (auto simp: SaveConfigToString_def res_bind_Inr)
  from ts obtain used where used: "used_templates s = Inr used" by (auto simp: MarshalTemplates_def res_bind_Inr)
  have d: "default_shape s" and okc: "dict_ok (site_configs s)" using assms(1) by (simp_all add: savable_def)
  have okd: "fields_ok (site_defaults s)" using d by (simp add: default_shape_def)
  from defaults_load[OF d] obtain D where D: "DeserializeConfigs (dict_update DefaultSettings (sort_fields (map (map_prod id reload) (site_defaults s)))) = Inr D"
      "dict_ok D" "\<forall>k. loads_to (site_defaults s) D k"
    by (elim exE conjE) (rule that)
  from templates_load[OF ts assms(1) used] obtain T where okts: "fields_ok ts"
    and T: "map_res load_template (sort_fields (map (map_prod id reload) ts)) = Inr T"
    and "\<forall>D. dict_ok D \<and> (\<forall>k. loads_to (site_defaults s) D k) \<longrightarrow> loading_from s used D T"
    by (elim exE conjE) (rule that)
  then have ld: "loading_from s used D T" using D by blast
  note saved = builds_saved[OF bs okc]
  let ?c = "dict_update [(''_default'', VDict (site_defaults s)), (''_templates'', VDict ts)] bs"
  let ?C = "sort_fields (map (map_prod id reload) ?c)"
  have special: "dict_get bs ''_default'' = None" "dict_get bs ''_templates'' = None"
  proof -
    have "k \<notin> set (dict_keys bs)" if "k = ''_default'' \<or> k = ''_templates''" for k
    proof
      assume "k \<in> set (dict_keys bs)"
      then obtain c where "dict_get (site_configs s) k = Some c" using saved(1) by (metis dict_get_None not_None_eq)
      then show False by (rule savable_config[OF assms(1) used]) (use that in auto)
    qed
    then show "dict_get bs ''_default'' = None" "dict_get bs ''_templates'' = None" by (simp_all add: dict_get_None)
  qed
  have okcc: "dict_ok ?c" by (rule dict_ok_update) (simp add: dict_ok_def)
  have c: "dict_get ?c k = (case dict_get bs k of Some v \<Rightarrow> Some v
      | None \<Rightarrow> if k = ''_default'' then Some (VDict (site_defaults s))
          else if k = ''_templates'' then Some (VDict ts) else None)" for k
    by (simp add: dict_get_update[OF saved(2)] dict_get_Cons split: option.split)
  have C: "dict_get ?C k = map_option reload (dict_get ?c k)" for k
    using okcc by (simp add: dict_get_sort_fields dict_get_map)
  have okC: "dict_ok ?C" using okcc by simp
  let ?B = "dict_del (dict_del ?C ''_default'') ''_templates''"
  have B: "\<forall>k. dict_get ?B k = map_option reload (dict_get bs k)"
    using special by (auto simp: dict_get_del C c split: option.split)
  have okB: "dict_ok ?B" by (intro dict_ok_del okC)
  note load = builds_load[OF ld assms(1) used saved(2,1,3) okB B]
  from load(2) obtain R where R: "map_res (load_build D T) ?B = Inr R" "dict_ok R"
      "set (dict_keys R) = set (dict_keys (site_configs s))"
      "\<forall>name c. dict_get (site_configs s) name = Some c \<longrightarrow>
         (\<exists>fs gs. fixed_fields c = Inr fs \<and> dict_get R name = Some gs \<and> py_eq (VDict gs) (VDict fs) = Inr True)"
    by (elim exE conjE) (rule that)
  have "fields_ok ?c"
    unfolding fields_ok_get
  proof (intro conjI allI impI okcc)
    fix k v assume "dict_get ?c k = Some v"
    then show "value_ok v" using okd okts fields_ok_value[OF load(1)] by (auto simp: c split: option.splits if_splits)
  qed
  then have json: "json_value dump = Inr (VDict ?C)" by (simp add: dump json_value_pretty)
  have parts: "dict_get ?C ''_default'' = Some (VDict (sort_fields (map (map_prod id reload) (site_defaults s))))"
    "get_or (dict_del ?C ''_default'') ''_templates'' (VDict []) = VDict (sort_fields (map (map_prod id reload) ts))"
    using special by (simp_all add: C c get_or_def dict_get_del)
  let ?t = "(SiteConfig_init D (map (map_prod id template_settings) T)) \<lparr>site_configs := map (map_prod id fixed_config) R\<rparr>"
  have "LoadConfigFromString dump = Inr ?t"
    using D(1) T R(1) by (simp add: LoadConfigFromString_def json as_object_def parts update_arg_def)
  moreover have "set (dict_keys (site_configs ?t)) = set (dict_keys (site_configs s))"
    using R(3) by simp
  moreover have "py_eq (VDict (site_defaults ?t)) (VDict (site_defaults s)) = Inr True"
  proof -
    have get: "dict_get (dict_update DefaultSettings D) k = dict_get D k" for k
    proof (cases "dict_get (site_defaults s) k")
      case None
      then show ?thesis using DefaultSettings_None[OF d None] by (simp add: dict_get_update[OF D(2)] split: option.split)
    next
      case (Some v)
      have "loads_to (site_defaults s) D k" using D(3) by blast
      then obtain w where "dict_get D k = Some w" using Some by (auto simp: loads_to_def option_rel_Some1)
      then show ?thesis by (simp add: dict_get_update[OF D(2)])
    qed
    have "value_ok v" if "dict_get D k = Some v" for k v
      using D(3)[rule_format, of k] that by (auto simp: loads_to_def loaded_def option_rel_Some2)
    then have ok: "fields_ok (dict_update DefaultSettings D)"
      using dict_ok_update[OF DefaultSettings_ok] by (auto simp: fields_ok_get get)
    have "same_fields (dict_update DefaultSettings D) (site_defaults s)"
      unfolding same_fields_def get using D(3) loads_to_same by blast
    then have "norm (VDict (dict_update DefaultSettings D)) = norm (VDict (site_defaults s))"
      using ok okd by (intro same_fields_norm) (simp_all add: fields_ok_def)
    then have "py_eq (VDict (dict_update DefaultSettings D)) (VDict (site_defaults s)) = Inr True"
      using ok okd by (intro py_eq_norm[THEN iffD2]) simp_all
    then show ?thesis by (simp add: SiteConfig_init_def)
  qed
  moreover have "\<exists>fs gs. fixed_fields c = Inr fs \<and> dict_get (site_configs ?t) name = Some (fixed_config gs)
            \<and> py_eq (VDict gs) (VDict fs) = Inr True" if nc: "dict_get (site_configs s) name = Some c" for name c
  proof -
    obtain fs gs where "fixed_fields c = Inr fs" "dict_get R name = Some gs" "py_eq (VDict gs) (VDict fs) = Inr True"
      using R(4) nc by blast
    then show ?thesis by (intro exI[of _ fs] exI[of _ gs]) (simp add: dict_get_map)
  qed
  ultimately show ?thesis by blast
qed
section \<open>Saving succeeds\<close>

lemma list_eq_ok: "\<forall>v \<in> set vs. \<forall>w \<in> set ws. isOk (py_eq v w) \<Longrightarrow> isOk (list_eq vs ws)"
proof (induction vs arbitrary: ws)
  case (Cons v vs)
  then show ?case by (cases ws) (auto split: sum.splits)
qed simp

lemma fields_eq_ok:
  "\<forall>(k, v) \<in> set fs. \<forall>w. dict_get gs k = Some w \<longrightarrow> isOk (py_eq v w) \<Longrightarrow> isOk (fields_eq fs gs)"
proof (induction fs)
  case (Cons p fs)
  obtain k v where p: "p = (k, v)" by force
  then show ?case using Cons by (auto split: option.splits sum.splits)
qed simp

lemma dict_get_plain: "dict_get gs k = Some w \<Longrightarrow> \<forall>p \<in> set gs. plain (snd p) \<Longrightarrow> plain w"
  by (auto simp: dict_get_def dest!: map_of_SomeD)

lemma py_eq_plain: "plain v \<Longrightarrow> plain w \<Longrightarrow> isOk (py_eq v w)"
proof (induction v arbitrary: w)
  case (VList vs)
  then show ?case by (cases w) (auto intro!: list_eq_ok)
next
  case (VDict fs)
  show ?case
  proof (cases w)
    case (VDict gs)
    have "isOk (fields_eq fs gs)"
    proof (rule fields_eq_ok, clarify)
      fix k v w assume "(k, v) \<in> set fs" "dict_get gs k = Some w"
      moreover then have "plain v" "plain w" using VDict.prems VDict dict_get_plain[of gs k w] by (auto simp: case_prod_beta)
      ultimately show "isOk (py_eq v w)" by (intro VDict.IH) auto
    qed
    with VDict show ?thesis by simp
  qed (use VDict.prems in simp_all)
next
  case VNone
  then show ?case by (cases w) auto
next
  case (VBool b)
  then show ?case by (cases w) auto
next
  case (VInt i)
  then show ?case by (cases w) auto
next
  case (VStr t)
  then show ?case by (cases w) auto
qed simp

lemma py_eq_objects:
  assumes "object_ok c v" "object_ok d w" shows "isOk (py_eq v w)"
proof -
  obtain fs where v: "v = VObj c fs" "\<forall>p \<in> set fs. plain (snd p)" using assms(1) by (rule object_ok_fields)
  obtain gs where w: "w = VObj d gs" "\<forall>p \<in> set gs. plain (snd p)" using assms(2) by (rule object_ok_fields)
  have "isOk (fields_eq fs gs)"
  proof (rule fields_eq_ok, clarify)
    fix k x y assume "(k, x) \<in> set fs" "dict_get gs k = Some y"
    then show "isOk (py_eq x y)"
      using v(2) w(2) dict_get_plain[of gs k y] by (intro py_eq_plain) auto
  qed
  then show ?thesis by (simp add: v(1) w(1))
qed

text \<open>Values of the same setting can be compared, with a missing one as well.\<close>

lemma py_eq_shapes:
  assumes "value_shape k v \<or> v = VNone" "value_shape k w" shows "isOk (py_eq v w)"
proof (cases "map_of serialized_keys k")
  case None
  then show ?thesis using assms by (intro py_eq_plain) (auto simp: value_shape_def)
next
  case (Some cp)
  obtain c p where m: "map_of serialized_keys k = Some (c, p)" using Some by (cases cp) auto
  have w: "w = VNone \<or> (\<exists>ws. w = VList ws \<and> (\<forall>x \<in> set ws. object_ok c x))"
    using value_shape_list[OF assms(2) m] by blast
  have v: "v = VNone \<or> (\<exists>vs. v = VList vs \<and> (\<forall>x \<in> set vs. object_ok c x))"
    using assms(1) value_shape_list[OF _ m] by blast
  have list: "isOk (list_eq vs ws)" if "\<forall>x \<in> set vs. object_ok c x" "\<forall>x \<in> set ws. object_ok c x" for vs ws
    using that by (intro list_eq_ok ballI py_eq_objects[of c _ c]) simp_all
  from v w show ?thesis using list by (elim disjE exE conjE) simp_all
qed

lemma differs_ok: "isOk (py_eq v w) \<Longrightarrow> \<exists>b. differs (Fixed v) (Fixed w) = Inr b"
  by (auto simp: differs_def isOk_iff)

lemma marshal_items_ok:
  assumes "\<forall>(k, v) \<in> set fs. \<exists>b. differs (config_get m k) (Fixed v) = Inr b"
    and "\<forall>(k, v) \<in> set fs. \<exists>w. marshal_value s n k (Fixed v) = Inr w"
  shows "\<exists>r. marshal_items s n m (fixed_config fs) = Inr r"
  using assms
proof (induction fs)
  case (Cons p fs)
  obtain k v where p: "p = (k, v)" by force
  from Cons.prems obtain b w where b: "differs (config_get m k) (Fixed v) = Inr b" and w: "marshal_value s n k (Fixed v) = Inr w"
    by (auto simp: p)
  obtain r where "marshal_items s n m (fixed_config fs) = Inr r" using Cons by auto
  moreover have "fixed_config (p # fs) = (k, Fixed v) # fixed_config fs" by (simp add: p fixed_config_def)
  ultimately show ?case using b w by (simp only: marshal_items_Cons) simp
qed (simp add: fixed_config_def)

lemma base_shape:
  assumes "default_shape s" "template_base s t es" shows "value_shape k (get_or es k VNone) \<or> get_or es k VNone = VNone"
proof (cases "dict_get es k")
  case (Some v)
  have "value_shape k v"
  proof (cases "truthy t")
    case True
    then show ?thesis using expansion_facts(6)[OF assms(1) _ _ Some] assms(2) by (auto simp: template_base_def)
  next
    case False
    then have "(k, v) \<in> set (site_defaults s)"
      using assms Some by (simp add: template_base_def default_shape_def fields_ok_def dict_get_set_iff)
    then show ?thesis using assms(1) by (force simp: default_shape_def)
  qed
  then show ?thesis using Some by simp
qed simp

lemma MarshalBuildConfig_ok:
  assumes d: "default_shape s" and shapes: "\<forall>p \<in> set (site_templates s). template_shape s (fst p) (snd p)"
    and okt: "dict_ok (site_templates s)" and st: "storable s used fs"
  shows "\<exists>r. MarshalBuildConfig s n (fixed_config fs) = Inr r"
  using st
proof (induction "size_fields fs" arbitrary: fs rule: less_induct)
  case less
  have shape: "config_shape s used fs" using less.prems by (simp add: storable.simps[of s used fs])
  note facts = config_shape_facts[OF shape]
  obtain vs where vs: "dict_get fs ''child_configs'' = Some (VList vs)"
    and kids: "\<forall>v \<in> set vs. case v of VDict gs \<Rightarrow> storable s used gs | _ \<Rightarrow> False"
    using less.prems by (auto simp: storable.simps[of s used fs] split: option.splits config_value.splits)
  have "\<exists>ws. marshal_children s n us = Inr ws" if "set us \<subseteq> set vs" for us
    using that
  proof (induction us)
    case (Cons u us)
    then have "case u of VDict gs \<Rightarrow> storable s used gs | _ \<Rightarrow> False" using kids by auto
    then obtain gs where gs: "u = VDict gs" "storable s used gs" by (cases u) auto
    have "VDict gs \<in> set vs" using Cons.prems gs(1) by simp
    then obtain r where "MarshalBuildConfig s n (fixed_config gs) = Inr r"
      using less.hyps[OF size_child[OF vs] gs(2)] by blast
    then show ?case using Cons gs(1) by auto
  qed simp
  then obtain ws where ws: "marshal_children s n vs = Inr ws" by blast
  obtain es where base: "template_base s (get_or fs ''_template'' VNone) es"
    using template_base_exists[OF shape shapes okt] by blast
  from marshal_defaults_get[OF d base, where n = n] obtain m where
    m: "marshal_defaults s n (Fixed (get_or fs ''_template'' VNone)) = Inr m"
      "\<forall>k. config_get m k = Fixed (if k = ''name'' then VStr n else get_or es k VNone)"
    by (elim exE conjE) (rule that)
  have es: "get_or es ''child_configs'' VNone = VList []"
    using expansion_facts(2)[OF d] base d by (auto simp: template_base_def default_shape_def split: if_splits)
  have "\<exists>b. differs (config_get m k) (Fixed v) = Inr b" if "(k, v) \<in> set fs" for k v
  proof -
    have kv: "dict_get fs k = Some v" using that facts(2) by (simp add: dict_get_set_iff)
    have "isOk (py_eq (if k = ''name'' then VStr n else get_or es k VNone) v)"
    proof (cases "k = ''child_configs''")
      case True
      then have "v = VList vs" using kv vs by simp
      then show ?thesis using True es by (cases vs) simp_all
    next
      case False
      have v: "value_shape k v" by (rule facts(4)[OF kv False])
      show ?thesis
      proof (cases "k = ''name''")
        case True
        then have "plain v" using v serialized_default(3)[OF d] by (simp add: value_shape_def)
        then show ?thesis using True by (simp add: py_eq_plain)
      next
        case False
        then show ?thesis using py_eq_shapes[OF base_shape[OF d base] v] by simp
      qed
    qed
    then show ?thesis using m(2) differs_ok by simp
  qed
  moreover have "\<exists>w. marshal_value s n k (Fixed v) = Inr w" if "(k, v) \<in> set fs" for k v
  proof (cases "k = ''child_configs''")
    case True
    then have "v = VList vs" using that vs facts(2) by (simp add: dict_get_set_iff[symmetric])
    then show ?thesis using True ws by (simp add: marshal_value_def)
  qed (simp add: marshal_value_def)
  ultimately obtain r where "marshal_items s n m (fixed_config fs) = Inr r"
    using marshal_items_ok[of fs m s n] by blast
  moreover have "config_get (fixed_config fs) ''_template'' = Fixed (get_or fs ''_template'' VNone)"
    by (simp add: config_get_def dict_get_fixed get_or_def split: option.split)
  ultimately show ?case using m(1) by simp
qed

lemma without_defaults_ok:
  "\<forall>(k, v) \<in> set fs. \<exists>b. differs (config_get m k) (Fixed v) = Inr b \<Longrightarrow> \<exists>r. without_defaults m (fixed_config fs) = Inr r"
proof (induction fs)
  case (Cons p fs)
  obtain k v where p: "p = (k, v)" by force
  then show ?case using Cons by (auto simp: fixed_config_def)
qed (simp add: fixed_config_def)

lemma MarshalTemplate_ok:
  assumes d: "default_shape s" and t: "dict_get (site_templates s) name = Some tm" and shape: "template_shape s name tm"
  shows "\<exists>r. MarshalTemplate s name = Inr r"
proof -
  obtain es where es: "expansion s tm = Inr es" using shape by (auto simp: template_shape_def split: sum.splits)
  note facts = expansion_facts[OF d shape es]
  let ?es = "dict_set es ''_template'' (VStr name)"
  have ok: "dict_ok ?es" using facts(5) by (simp add: fields_ok_def dict_ok_set)
  have "\<forall>(k, v) \<in> set ?es. \<exists>b. differs (config_get (GetDefault s) k) (Fixed v) = Inr b"
  proof clarify
    fix k v assume "(k, v) \<in> set ?es"
    then have kv: "dict_get ?es k = Some v" using ok by (simp add: dict_get_set_iff)
    have "config_get (GetDefault s) k = Fixed (get_or (site_defaults s) k VNone)"
      by (simp add: config_get_def GetDefault_def dict_get_fixed get_or_def split: option.split)
    moreover have "isOk (py_eq (get_or (site_defaults s) k VNone) v)"
    proof (cases "k = ''_template''")
      case True
      then have "v = VStr name" "get_or (site_defaults s) k VNone = VNone"
        using kv d by (simp_all add: dict_get_set default_shape_def)
      then show ?thesis by simp
    next
      case False
      then have "value_shape k v" using kv facts(6)[of k v] by (simp add: dict_get_set)
      moreover have "template_base s VNone (site_defaults s)" by (simp add: template_base_def)
      ultimately show ?thesis using py_eq_shapes base_shape[OF d] by blast
    qed
    ultimately show "\<exists>b. differs (config_get (GetDefault s) k) (Fixed v) = Inr b" using differs_ok by simp
  qed
  from without_defaults_ok[OF this] obtain r where r: "without_defaults (GetDefault s) (fixed_config ?es) = Inr r" ..
  have "derive (GetDefault s) [tm] [] = Inr (fixed_config es)"
    using expansion_get(2)[OF d shape es] by (simp add: derive_def deepcopy_default[OF d] BuildConfig_apply_template)
  with t r show ?thesis by (simp add: MarshalTemplate_def Let_def lookup_value_def fixed_config_set)
qed

lemma map_res_ok: "\<forall>x \<in> set xs. \<exists>y. f x = Inr y \<Longrightarrow> \<exists>ys. map_res f xs = Inr ys"
  by (induction xs) auto

lemma savable_saves:
  assumes "savable s" shows "\<exists>dump. SaveConfigToString s = Inr dump"
proof -
  have d: "default_shape s" and okt: "dict_ok (site_templates s)" and okc: "dict_ok (site_configs s)"
    and shapes: "\<forall>p \<in> set (site_templates s). template_shape s (fst p) (snd p)"
    using assms by (simp_all add: savable_def)
  obtain used where used: "used_templates s = Inr used"
    using assms by (auto simp: savable_def split: sum.splits)
  have known: "\<forall>t \<in> set used. t \<in> set (dict_keys (site_templates s))"
    using assms used by (simp add: savable_def list_all_iff)
  let ?save = "\<lambda>name. res_bind (MarshalTemplate s name) (\<lambda>save. Inr (name, VDict save))"
  have "\<exists>y. ?save t = Inr y" if u: "t \<in> set used" for t
  proof -
    obtain tm where tm: "dict_get (site_templates s) t = Some tm" using known u by (auto simp: dict_keys_None)
    then have "(t, tm) \<in> set (site_templates s)" by (simp add: dict_get_set_iff[OF okt])
    then have "template_shape s t tm" using shapes by fastforce
    from MarshalTemplate_ok[OF d tm this] show ?thesis by auto
  qed
  then obtain ts where "map_res ?save used = Inr ts" using map_res_ok[of used ?save] by blast
  then have ts: "MarshalTemplates s = Inr ts" by (simp add: MarshalTemplates_def used)
  let ?build = "\<lambda>(k, v). res_bind (MarshalBuildConfig s k v) (\<lambda>r. Inr (k, VDict r))"
  have "\<forall>p \<in> set (site_configs s). \<exists>y. ?build p = Inr y"
  proof
    fix p assume mem: "p \<in> set (site_configs s)"
    obtain k c where p: "p = (k, c)" by force
    then have "dict_get (site_configs s) k = Some c" using mem okc by (simp add: dict_get_set_iff)
    then obtain fs where fs: "c = fixed_config fs" "storable s used fs" by (rule savable_config[OF assms used])
    obtain r where "MarshalBuildConfig s k c = Inr r"
      using MarshalBuildConfig_ok[OF d shapes okt fs(2)] fs(1) by blast
    then show "\<exists>y. ?build p = Inr y" by (simp add: p)
  qed
  from map_res_ok[OF this] obtain bs where "map_res ?build (site_configs s) = Inr bs" ..
  with ts show ?thesis by (simp add: SaveConfigToString_def)
qed

text \<open>C3. Saving and loading is a round trip: a site configuration of the usual shape is saved, what is
  written is loaded, the same configurations are there, and each of them and the defaults equal
  the original for Python's \<open>==\<close>: what was left out because the defaults or a template already say
  it is put back, the test configurations are rebuilt from their strings, and so are the children
  of a group.\<close>

theorem save_load_roundtrip:
  assumes "savable s"
  shows "\<exists>dump t. SaveConfigToString s = Inr dump \<and> LoadConfigFromString dump = Inr t
    \<and> set (dict_keys (site_configs t)) = set (dict_keys (site_configs s))
    \<and> py_eq (VDict (site_defaults t)) (VDict (site_defaults s)) = Inr True
    \<and> (\<forall>name c. dict_get (site_configs s) name = Some c \<longrightarrow>
         (\<exists>fs gs. fixed_fields c = Inr fs \<and> dict_get (site_configs t) name = Some (fixed_config gs)
            \<and> py_eq (VDict gs) (VDict fs) = Inr True))"
proof -
  obtain dump where dump: "SaveConfigToString s = Inr dump" using savable_saves[OF assms] by blast
  from saved_is_loaded[OF assms dump] dump show ?thesis by blast
qed

section \<open>An example\<close>

text \<open>One template and two configurations, one of them with a hardware test.\<close>

definition example_test :: config_value where
  "example_test =
     VObj HWTestConfig
       [(''async'', VBool False), (''suite'', VStr ''bvt-cq''), (''pool'', VStr ''quota''), (''timeout'', VInt 10800),
        (''warn_only'', VBool False), (''critical'', VBool False), (''blocking'', VBool True),
        (''file_bugs'', VBool False), (''priority'', VStr ''Build''), (''retry'', VBool True),
        (''max_retries'', VInt 5), (''minimum_duts'', VInt 0), (''suite_min_duts'', VInt 0), (''suite_args'', VNone),
        (''offload_failures_only'', VBool False), (''enable_skylab'', VBool True),
        (''quota_account'', VStr ''legacypool-bvt'')]"

definition example_fields :: fields where
  "example_fields =
     dict_set (dict_set (dict_set DefaultSettings ''important'' (VBool False)) ''name'' (VStr ''eve-full''))
       ''_template'' (VStr ''full'')"

definition example_fields2 :: fields where
  "example_fields2 =
     dict_set (dict_set DefaultSettings ''hw_tests'' (VList [example_test])) ''name'' (VStr ''kevin-release'')"

definition example_template :: config where
  "example_template = [(''important'', Fixed (VBool False)), (''_template'', Fixed (VStr ''full''))]"

definition example_site :: site where
  "example_site =
     \<lparr>site_defaults = DefaultSettings, site_templates = [(''full'', example_template)],
      site_configs = [(''eve-full'', fixed_config example_fields), (''kevin-release'', fixed_config example_fields2)]\<rparr>"

lemma dict_update_subset: "set (dict_update d e) \<subseteq> set d \<union> set e"
  unfolding dict_update_def
proof (induction e arbitrary: d)
  case (Cons p e)
  obtain k v where p: "p = (k, v)" by force
  have "set (fold (\<lambda>(k, v) d. dict_set d k v) e (dict_set d k v)) \<subseteq> set (dict_set d k v) \<union> set e" by (rule Cons.IH)
  then show ?case using dict_set_subset[of d k v] by (auto simp: p)
qed simp

lemma DefaultSettings_get: "dict_get DefaultSettings k = map_of (rev default_items) k"
  by (simp add: DefaultSettings_def dict_update_puts dict.get_puts split: option.split)

lemma DefaultSettings_keys: "set (dict_keys DefaultSettings) = set (dict_keys default_items)"
proof -
  have "dict_get DefaultSettings k = None \<longleftrightarrow> k \<notin> set (dict_keys default_items)" for k
    unfolding DefaultSettings_get map_of_eq_None_iff by (simp add: dict_keys_def)
  then show ?thesis by (auto simp: dict_get_None)
qed

lemma default_items_code:
  "list_all (\<lambda>p. value_ok (snd p) \<and> value_shape (fst p) (snd p)) default_items"
  "map_of (rev default_items) ''_template'' = Some VNone"
  "map_of (rev default_items) ''child_configs'' = Some (VList [])"
  "map_of (rev default_items) ''vm_tests_override'' = Some VNone"
  "map_of (rev default_items) ''hw_tests_override'' = Some VNone"
  "list_all (\<lambda>k. k \<in> set (dict_keys default_items)) [''important'', ''name'', ''_template'', ''hw_tests'']"
  by code_simp+

lemma DefaultSettings_shape: "p \<in> set DefaultSettings \<Longrightarrow> value_ok (snd p) \<and> value_shape (fst p) (snd p)"
  using default_items_code(1) dict_update_subset[of "[]" default_items] by (auto simp: DefaultSettings_def list_all_iff)

lemma example_default_shape: "default_shape example_site"
  using DefaultSettings_shape DefaultSettings_ok default_items_code
  by (auto simp: default_shape_def example_site_def fields_ok_def DefaultSettings_get DefaultSettings_keys list_all_iff)

lemma example_code:
  "value_shape ''important'' (VBool False)" "value_shape ''name'' (VStr s)" "value_shape ''_template'' (VStr s)"
  "value_shape ''hw_tests'' (VList [example_test])" "value_ok (VList [example_test])"
  by code_simp+

lemma fixed_fields_fixed [simp]: "fixed_fields (fixed_config fs) = Inr fs"
  by (induction fs) (auto simp: fixed_fields_def fixed_config_def)

lemma example_config_fixed: "config_get (fixed_config fs) k = Fixed (get_or fs k VNone)"
  by (induction fs) (auto simp: config_get_def fixed_config_def get_or_def dict_get_Cons)

lemma example_get:
  "dict_get DefaultSettings ''_template'' = Some VNone" "dict_get DefaultSettings ''child_configs'' = Some (VList [])"
  by (simp_all add: DefaultSettings_get default_items_code)

lemma example_used: "used_templates example_site = Inr [''full'']"
  by (simp add: used_templates_def example_site_def example_config_fixed example_fields_def example_fields2_def
      template_key_def dict_get_set get_or_def example_get List.map_filter_def)

lemma example_expansion:
  "expansion example_site example_template = Inr (dict_set DefaultSettings ''important'' (VBool False))"
proof -
  have "deepcopy (GetDefault example_site) = Inr (GetDefault example_site)"
    by (rule deepcopy_default) (rule example_default_shape)
  then show ?thesis
    by (simp add: expansion_def derive_def BuildConfig_apply_def apply_update_def apply_item_def
        example_template_def GetDefault_def fixed_config_set example_site_def)
qed

definition shaped :: "fields \<Rightarrow> bool" where
  "shaped fs \<longleftrightarrow> fields_ok fs \<and> (\<forall>p \<in> set fs. value_shape (fst p) (snd p))"

lemma shaped_set:
  assumes "shaped fs" "value_ok v" "value_shape k v" shows "shaped (dict_set fs k v)"
  using assms dict_set_subset[of fs k v] by (auto simp: shaped_def fields_ok_def dict_ok_set)

lemma shaped_default: "shaped DefaultSettings"
  using DefaultSettings_shape DefaultSettings_ok by (auto simp: shaped_def fields_ok_def)

lemma example_shaped:
  "shaped (dict_set DefaultSettings ''important'' (VBool False))" "shaped example_fields" "shaped example_fields2"
  unfolding example_fields_def example_fields2_def
  by (rule shaped_set | rule shaped_default | rule example_code | simp)+

lemma example_keys:
  "set (dict_keys (dict_set DefaultSettings ''important'' (VBool False))) = set (dict_keys DefaultSettings)"
  "set (dict_keys example_fields) = set (dict_keys DefaultSettings)"
  "set (dict_keys example_fields2) = set (dict_keys DefaultSettings)"
  using default_items_code(6)
  by (auto simp: example_fields_def example_fields2_def dict_set_keys DefaultSettings_keys)

lemma example_default_keys: "list_all (\<lambda>k. k \<in> set (dict_keys DefaultSettings)) [''important'', ''name'', ''_template'', ''hw_tests'']"
  using default_items_code(6) by (simp only: DefaultSettings_keys)

lemma shaped_kept:
  assumes "shaped fs" "set (dict_keys fs) = set (dict_keys (site_defaults s))" "p \<in> set fs"
  shows "value_shape (fst p) (snd p)" "kept_value s p"
  using assms by (auto simp: shaped_def kept_value_def dict_keys_def)

lemma example_template_shape: "template_shape example_site ''full'' example_template"
proof -
  have "dict_ok example_template" by (simp add: example_template_def dict_ok_def dict_keys_def)
  moreover have "\<forall>p \<in> set (dict_set DefaultSettings ''important'' (VBool False)).
      value_shape (fst p) (snd p) \<and> kept_value example_site p"
    using shaped_kept[OF example_shaped(1), of example_site] example_keys(1) by (simp add: example_site_def)
  ultimately show ?thesis
    using example_shaped(1) unfolding template_shape_def example_expansion
    by (simp add: shaped_def example_template_def dict_get_Cons)
qed

lemma example_config_shape:
  assumes "shaped fs" "set (dict_keys fs) = set (dict_keys DefaultSettings)"
    "dict_get fs ''child_configs'' = Some (VList [])" "template_covered example_site [''full''] fs"
  shows "storable example_site [''full''] fs"
proof -
  have "site_defaults example_site = DefaultSettings" by (simp add: example_site_def)
  then show ?thesis
    using assms shaped_kept[of fs example_site]
    by (simp add: storable.simps config_shape_def shaped_def list_all_iff)
qed

lemma example_fields_get:
  "dict_get example_fields ''child_configs'' = Some (VList [])"
  "dict_get example_fields ''_template'' = Some (VStr ''full'')"
  "dict_get example_fields2 ''child_configs'' = Some (VList [])"
  "dict_get example_fields2 ''_template'' = Some VNone"
  by (simp_all add: example_fields_def example_fields2_def dict_get_set example_get)

lemma example_covered:
  "template_covered example_site [''full''] example_fields" "template_covered example_site [''full''] example_fields2"
  using example_default_keys
  by (simp_all add: template_covered_def get_or_def example_fields_get example_site_def example_template_def
      dict_get_Cons example_keys)

lemmas example_storable =
  example_config_shape[OF example_shaped(2) example_keys(2) example_fields_get(1) example_covered(1)]
  example_config_shape[OF example_shaped(3) example_keys(3) example_fields_get(3) example_covered(2)]

lemma example_savable: "savable example_site"
proof -
  have "dict_ok (site_configs example_site)"
    by (simp add: example_site_def dict_ok_def dict_keys_def)
  moreover have "dict_ok (site_templates example_site)"
    by (simp add: example_site_def dict_ok_def dict_keys_def)
  moreover have "p \<in> set (site_configs example_site) \<Longrightarrow>
      p = (''eve-full'', fixed_config example_fields) \<or> p = (''kevin-release'', fixed_config example_fields2)" for p
    by (auto simp: example_site_def)
  moreover have "p \<in> set (site_templates example_site) \<Longrightarrow> p = (''full'', example_template)" for p
    by (simp add: example_site_def)
  moreover have "''full'' \<in> set (dict_keys (site_templates example_site))" by (simp add: example_site_def)
  ultimately show ?thesis
    using example_template_shape example_storable example_default_shape
    by (fastforce simp: savable_def example_used)
qed

lemma save_load_roundtrip_witness:
  "\<exists>dump t. SaveConfigToString example_site = Inr dump \<and> LoadConfigFromString dump = Inr t
    \<and> (\<exists>gs. dict_get (site_configs t) ''kevin-release'' = Some (fixed_config gs)
          \<and> py_eq (VDict gs) (VDict example_fields2) = Inr True)"
proof -
  have c: "dict_get (site_configs example_site) ''kevin-release'' = Some (fixed_config example_fields2)"
    by (simp add: example_site_def dict_get_Cons)
  from save_load_roundtrip[OF example_savable] obtain dump t where
    run: "SaveConfigToString example_site = Inr dump" "LoadConfigFromString dump = Inr t"
    and same: "\<forall>name c. dict_get (site_configs example_site) name = Some c \<longrightarrow>
         (\<exists>fs gs. fixed_fields c = Inr fs \<and> dict_get (site_configs t) name = Some (fixed_config gs)
            \<and> py_eq (VDict gs) (VDict fs) = Inr True)" by (elim exE conjE) (rule that)
  from same c obtain gs where "dict_get (site_configs t) ''kevin-release'' = Some (fixed_config gs)"
    "py_eq (VDict gs) (VDict example_fields2) = Inr True" by fastforce
  with run show ?thesis by blast
qed

end
