(* ===== verification/KernelCmdline.thy ===== *)
theory KernelCmdline
  imports Store
begin

text \<open>
  The kernel command line editor (\<open>lib/kernel_cmdline.py\<close>): \<open>KernelArg\<close>, the tokenizer and the
  list operations of \<open>KernelArgList\<close>, \<open>CommandLine\<close>, and the \<open>dm=\<close> argument as \<open>DmConfig\<close>,
  \<open>DmDevice\<close> and \<open>DmLine\<close>. Values are strings or \<open>None\<close>, as the annotations of the source have
  it. The round trips of the parser and the printer, and the laws of reading after writing
  (an interpretation of \<open>keyed_store\<close>), are proved here.
\<close>

section \<open>KernelArg\<close>

record kernel_arg =
  karg :: string
  kvalue :: "string option"

definition quote :: "string \<Rightarrow> string" where
  "quote s = CHR 0x22 # s @ [CHR 0x22]"

definition value_ok :: "string option \<Rightarrow> bool" where
  "value_ok v =
     (case v of None \<Rightarrow> True
      | Some s \<Rightarrow> s = [] \<or>
          \<not> (CHR 0x22 \<in> set (py_slice s (Some 1) (Some (- 1)))
             \<or> startswith s [CHR 0x22] \<noteq> endswith s [CHR 0x22]))"

definition KernelArg :: "string \<Rightarrow> string option \<Rightarrow> kernel_arg res" where
  "KernelArg a v = (if value_ok v then Inr \<lparr>karg = a, kvalue = v\<rparr> else Inl ValueError)"

text \<open>\<open>'"%s"' % value\<close> prints \<open>None\<close> as the four letters.\<close>

definition str_opt :: "string option \<Rightarrow> string" where
  "str_opt v = (case v of None \<Rightarrow> ''None'' | Some s \<Rightarrow> s)"

definition karg_eq :: "kernel_arg \<Rightarrow> kernel_arg \<Rightarrow> bool" where
  "karg_eq a b \<longleftrightarrow> karg a = karg b \<and>
     (kvalue a = kvalue b \<or> kvalue a = Some (quote (str_opt (kvalue b)))
      \<or> Some (quote (str_opt (kvalue a))) = kvalue b)"

definition quote_if_needed :: "string \<Rightarrow> string" where
  "quote_if_needed s = (if \<not> startswith s [CHR 0x22] \<and> list_ex is_space s then quote s else s)"

definition karg_format :: "kernel_arg \<Rightarrow> string" where
  "karg_format a =
     (case kvalue a of None \<Rightarrow> karg a | Some v \<Rightarrow> karg a @ ''='' @ quote_if_needed v)"

section \<open>KernelArgList\<close>

subsection \<open>The tokenizer\<close>

text \<open>The value after an equal sign: a quoted string if one is closed, else a run of characters.\<close>

definition match_value :: "string \<Rightarrow> string \<times> string" where
  "match_value s =
     (case s of
        c # r \<Rightarrow>
          (if c = CHR 0x22 \<and> CHR 0x22 \<in> set r
           then (quote (takeWhile (\<lambda>x. x \<noteq> CHR 0x22) r), tl (dropWhile (\<lambda>x. x \<noteq> CHR 0x22) r))
           else (takeWhile (\<lambda>x. \<not> is_space x \<and> x \<noteq> CHR 0x22) s,
                 dropWhile (\<lambda>x. \<not> is_space x \<and> x \<noteq> CHR 0x22) s))
      | [] \<Rightarrow> ([], []))"

definition match_rest :: "string \<Rightarrow> string option \<times> string" where
  "match_rest s =
     (if s \<noteq> [] \<and> hd s = CHR ''='' then map_prod Some id (match_value (tl s)) else (None, s))"

definition key_char :: "char \<Rightarrow> bool" where
  "key_char c \<longleftrightarrow> \<not> is_space c \<and> c \<noteq> CHR ''=''"

text \<open>
  \<open>_KEYVALUE_RE\<close> at the start of a string. The alternative \<open>--\<close> comes first, and all that follows
  the key is optional, so \<open>--\<close> is taken whenever the text starts with it.
\<close>

definition match_keyvalue :: "string \<Rightarrow> (kernel_arg \<times> string) option" where
  "match_keyvalue s =
     (let (k, r) = (if startswith s ''--'' then (''--'', drop 2 s)
                    else (takeWhile key_char s, dropWhile key_char s))
      in if k = [] then None
         else (case match_rest r of (v, r') \<Rightarrow> Some (\<lparr>karg = k, kvalue = v\<rparr>, r')))"

lemma length_match_value: "length (snd (match_value s)) \<le> length s"
proof -
  have "length (dropWhile p r) \<le> Suc (length r)" "length (dropWhile p r) - Suc 0 \<le> Suc (length r)"
    for p and r :: string
    using length_dropWhile_le[of p r] by simp_all
  then show ?thesis by (cases s) (simp_all add: match_value_def)
qed

lemma length_match_rest: "length (snd (match_rest s)) \<le> length s"
  using length_match_value[of "tl s"] by (cases s) (auto simp: match_rest_def)

lemma match_keyvalue_shorter: "match_keyvalue s = Some (a, r) \<Longrightarrow> length r < length s"
proof -
  assume a: "match_keyvalue s = Some (a, r)"
  show ?thesis
  proof (cases "startswith s ''--''")
    case True
    then obtain t where "s = ''--'' @ t" by (auto simp: startswith_iff)
    with a True length_match_rest[of t] show ?thesis
      by (auto simp: match_keyvalue_def split: prod.splits)
  next
    case False
    let ?r = "dropWhile key_char s"
    have "takeWhile key_char s \<noteq> []" and r: "r = snd (match_rest ?r)"
      using a False by (auto simp: match_keyvalue_def split: prod.splits if_splits)
    then have "length ?r < length s"
      by (metis append_self_conv2 le_neq_implies_less length_dropWhile_le length_greater_0_conv
          length_append less_add_same_cancel2 takeWhile_dropWhile_id)
    with r length_match_rest[of ?r] show ?thesis by simp
  qed
qed

text \<open>\<open>re.findall(_KEYVALUE_RE, data)\<close>: characters at which nothing matches are skipped.\<close>

function find_args :: "string \<Rightarrow> kernel_arg list" where
  "find_args s =
     (case match_keyvalue s of
        Some (a, r) \<Rightarrow> a # find_args r
      | None \<Rightarrow> (case s of [] \<Rightarrow> [] | _ # r \<Rightarrow> find_args r))"
  by pat_completeness auto
termination by (relation "measure length") (auto dest: match_keyvalue_shorter)

declare find_args.simps [simp del]

text \<open>
  \<open>re.match(_VALID_CMDLINE_RE, data)\<close>: tokens separated by white space, each matched whole.
\<close>

definition token_end :: "string \<Rightarrow> bool" where
  "token_end s \<longleftrightarrow> s = [] \<or> is_space (hd s)"

definition match_token :: "string \<Rightarrow> string option" where
  "match_token s =
     (if takeWhile key_char s = [] then None
      else (let r = snd (match_rest (dropWhile key_char s)) in if token_end r then Some r else None))"

lemma match_token_shorter: "match_token s = Some r \<Longrightarrow> length r < length s"
proof -
  assume a: "match_token s = Some r"
  then have t: "takeWhile key_char s \<noteq> []" and r: "r = snd (match_rest (dropWhile key_char s))"
    by (auto simp: match_token_def Let_def split: if_splits)
  then have "length (dropWhile key_char s) < length s"
    by (metis append_self_conv2 le_neq_implies_less length_dropWhile_le length_greater_0_conv
        length_append less_add_same_cancel2 takeWhile_dropWhile_id)
  with r length_match_rest[of "dropWhile key_char s"] show ?thesis by simp
qed

function valid_cmdline :: "string \<Rightarrow> bool" where
  "valid_cmdline s =
     (let t = dropWhile is_space s
      in t = [] \<or> (case match_token t of None \<Rightarrow> False | Some r \<Rightarrow> valid_cmdline r))"
  by pat_completeness auto
termination
proof (relation "measure length")
  fix s t r assume "t = dropWhile is_space s" "match_token t = Some r"
  then show "(r, s) \<in> measure length"
    using match_token_shorter[of t r] length_dropWhile_le[of is_space s] by simp
qed simp

declare valid_cmdline.simps [simp del]

text \<open>The constructor, for a string argument and for a sequence of \<open>KernelArg\<close>s or nothing.\<close>

datatype arg_data = DataStr string | DataArgs "kernel_arg list" | DataNone

fun KernelArgList :: "arg_data \<Rightarrow> kernel_arg list res" where
  "KernelArgList (DataStr s) =
     (if valid_cmdline s then map_res (\<lambda>a. KernelArg (karg a) (kvalue a)) (find_args s)
      else Inl ValueError)"
| "KernelArgList (DataArgs l) = Inr l"
| "KernelArgList DataNone = Inr []"

subsection \<open>The operations\<close>

datatype arg_key = KeyInt int | KeyStr string

datatype arg_item = ItemStr string | ItemArg kernel_arg

fun find_index_from :: "nat \<Rightarrow> string \<Rightarrow> kernel_arg list \<Rightarrow> nat option" where
  "find_index_from i k [] = None"
| "find_index_from i k (a # l) = (if karg a = k then Some i else find_index_from (Suc i) k l)"

fun args_index :: "kernel_arg list \<Rightarrow> arg_key \<Rightarrow> int option" where
  "args_index l (KeyInt i) = Some i"
| "args_index l (KeyStr k) = map_option int (find_index_from 0 k l)"

fun args_contains :: "kernel_arg list \<Rightarrow> arg_item \<Rightarrow> bool" where
  "args_contains l (ItemStr k) = list_ex (\<lambda>a. karg a = k) l"
| "args_contains l (ItemArg a) = list_ex (\<lambda>b. karg_eq b a) l"

definition list_index :: "'a list \<Rightarrow> int \<Rightarrow> nat res" where
  "list_index l i =
     (let j = (if i < 0 then i + int (length l) else i)
      in if 0 \<le> j \<and> j < int (length l) then Inr (nat j) else Inl IndexError)"

definition args_delitem :: "kernel_arg list \<Rightarrow> arg_key \<Rightarrow> kernel_arg list res" where
  "args_delitem l k =
     (case args_index l k of
        None \<Rightarrow> Inl KeyError
      | Some i \<Rightarrow> res_bind (list_index l i) (\<lambda>n. Inr (take n l @ drop (Suc n) l)))"

definition args_delslice :: "kernel_arg list \<Rightarrow> int option \<Rightarrow> int option \<Rightarrow> kernel_arg list" where
  "args_delslice l i j = py_splice l i j []"

definition args_getitem :: "kernel_arg list \<Rightarrow> arg_key \<Rightarrow> kernel_arg res" where
  "args_getitem l k = (case args_index l k of None \<Rightarrow> Inl KeyError | Some i \<Rightarrow> py_nth l i)"

definition args_getslice :: "kernel_arg list \<Rightarrow> int option \<Rightarrow> int option \<Rightarrow> kernel_arg list" where
  "args_getslice l i j = py_slice l i j"

definition args_setitem :: "kernel_arg list \<Rightarrow> arg_key \<Rightarrow> kernel_arg \<Rightarrow> kernel_arg list res" where
  "args_setitem l k v =
     (case k of
        KeyStr _ \<Rightarrow>
          (case args_index l k of
             None \<Rightarrow> Inr (l @ [v])
           | Some i \<Rightarrow> res_bind (list_index l i) (\<lambda>n. Inr (l[n := v])))
      | KeyInt i \<Rightarrow> res_bind (list_index l i) (\<lambda>n. Inr (l[n := v])))"

definition args_setslice :: "kernel_arg list \<Rightarrow> int option \<Rightarrow> int option \<Rightarrow> arg_data \<Rightarrow> kernel_arg list res" where
  "args_setslice l i j v = res_bind (KernelArgList v) (\<lambda>w. Inr (py_splice l i j w))"

text \<open>\<open>get\<close>: an integer that is out of range raises, a name that is missing gives the default.\<close>

definition args_get :: "kernel_arg list \<Rightarrow> arg_key \<Rightarrow> 'd \<Rightarrow> (kernel_arg + 'd) res" where
  "args_get l k dflt =
     (case args_index l k of
        None \<Rightarrow> Inr (Inr dflt)
      | Some i \<Rightarrow> res_bind (py_nth l i) (\<lambda>a. Inr (Inl a)))"

definition args_insert :: "kernel_arg list \<Rightarrow> arg_key \<Rightarrow> kernel_arg \<Rightarrow> kernel_arg list res" where
  "args_insert l k a =
     (case args_index l k of
        None \<Rightarrow> Inl KeyError
      | Some i \<Rightarrow> Inr (take (clip l i) l @ a # drop (clip l i) l))"

text \<open>
  \<open>update\<close> changes the list while it goes, so an invalid value leaves the assignments made
  before it: the result is the list and the exception that ended the loop, if any.
\<close>

datatype update_arg = UpdArgs "kernel_arg list" | UpdPairs "(string \<times> string option) list" | UpdNone

definition set_named :: "kernel_arg list \<Rightarrow> string \<Rightarrow> kernel_arg \<Rightarrow> kernel_arg list" where
  "set_named l k a = (case args_setitem l (KeyStr k) a of Inr l' \<Rightarrow> l' | Inl _ \<Rightarrow> l)"

fun set_args :: "kernel_arg list \<Rightarrow> kernel_arg list \<Rightarrow> kernel_arg list" where
  "set_args l [] = l"
| "set_args l (a # as) = set_args (set_named l (karg a) a) as"

fun set_pairs :: "kernel_arg list \<Rightarrow> (string \<times> string option) list \<Rightarrow> kernel_arg list \<times> py_error option" where
  "set_pairs l [] = (l, None)"
| "set_pairs l ((k, v) # kvs) =
     (case KernelArg k v of
        Inl e \<Rightarrow> (l, Some e)
      | Inr a \<Rightarrow> set_pairs (set_named l k a) kvs)"

definition args_update :: "kernel_arg list \<Rightarrow> update_arg \<Rightarrow> (string \<times> string option) list \<Rightarrow>
    kernel_arg list \<times> py_error option" where
  "args_update l other kwargs =
     (case (case other of UpdArgs as \<Rightarrow> (set_args l as, None) | UpdPairs kvs \<Rightarrow> set_pairs l kvs
              | UpdNone \<Rightarrow> (l, None)) of
        (l', Some e) \<Rightarrow> (l', Some e)
      | (l', None) \<Rightarrow> set_pairs l' kwargs)"

definition args_eq :: "kernel_arg list \<Rightarrow> kernel_arg list \<Rightarrow> bool" where
  "args_eq l m \<longleftrightarrow> list_all2 karg_eq l m"

definition args_format :: "string \<Rightarrow> kernel_arg list \<Rightarrow> string" where
  "args_format sep l = join sep (map karg_format l)"

abbreviation args_str :: "kernel_arg list \<Rightarrow> string" where
  "args_str \<equiv> args_format '' ''"

section \<open>CommandLine\<close>

record command_line =
  kern_args :: "kernel_arg list"
  init_args :: "kernel_arg list"

definition CommandLine :: "string \<Rightarrow> command_line res" where
  "CommandLine s =
     res_bind (KernelArgList (DataStr s)) (\<lambda>args.
       let idx = (case args_index args (KeyStr ''--'') of None \<Rightarrow> int (length args) | Some i \<Rightarrow> i)
       in Inr \<lparr>kern_args = args_getslice args None (Some idx),
               init_args = args_getslice args (Some (idx + 1)) None\<rparr>)"

definition cmdline_eq :: "command_line \<Rightarrow> command_line \<Rightarrow> bool" where
  "cmdline_eq c d \<longleftrightarrow> args_eq (kern_args c) (kern_args d) \<and> args_eq (init_args c) (init_args d)"

definition cmdline_format :: "command_line \<Rightarrow> string" where
  "cmdline_format c =
     join '' -- '' ([args_str (kern_args c)] @ (if init_args c \<noteq> [] then [args_str (init_args c)] else []))"

definition GetKernelParameter :: "command_line \<Rightarrow> arg_key \<Rightarrow> 'd \<Rightarrow> (kernel_arg + 'd) res" where
  "GetKernelParameter c what dflt = args_get (kern_args c) what dflt"

definition SetKernelParameter :: "command_line \<Rightarrow> string \<Rightarrow> string option \<Rightarrow> command_line \<times> py_error option" where
  "SetKernelParameter c key v =
     (case args_update (kern_args c) (UpdPairs [(key, v)]) [] of
        (l, e) \<Rightarrow> (c\<lparr>kern_args := l\<rparr>, e))"

section \<open>The dm= argument\<close>

record dm_line =
  start :: int
  num :: int
  target_type :: string
  line_args :: "kernel_arg list"

record dm_device =
  name :: string
  uuid :: string
  flags :: string
  num_rows :: int
  rows :: "dm_line list"

record dm_config =
  num_devices :: int
  devices :: "(string, dm_device) dict"

text \<open>Unpacking a sequence of the wrong length is a \<open>ValueError\<close>.\<close>

definition DmLine :: "string \<Rightarrow> dm_line res" where
  "DmLine line =
     (case split_max 3 CHR '' '' (strip is_space line) of
        [a, b, t, args] \<Rightarrow>
          res_bind (py_int a) (\<lambda>st. res_bind (py_int b) (\<lambda>n.
          res_bind (KernelArgList (DataStr args)) (\<lambda>l.
            Inr \<lparr>start = st, num = n, target_type = t, line_args = l\<rparr>)))
      | _ \<Rightarrow> Inl ValueError)"

definition DmDevice :: "string list \<Rightarrow> dm_device res" where
  "DmDevice config_lines =
     res_bind (py_nth config_lines 0) (\<lambda>l0.
       (case split_ws l0 of
          [nm, u, f, r] \<Rightarrow>
            res_bind (py_int r) (\<lambda>k.
            res_bind (map_res DmLine (py_slice config_lines (Some 1) (Some (k + 1)))) (\<lambda>rs.
              Inr \<lparr>name = nm, uuid = u, flags = f, num_rows = k, rows = rs\<rparr>))
        | _ \<Rightarrow> Inl ValueError))"

fun dm_devices :: "nat \<Rightarrow> string list \<Rightarrow> int \<Rightarrow> (string, dm_device) dict \<Rightarrow> (string, dm_device) dict res" where
  "dm_devices 0 lines idx devs = Inr devs"
| "dm_devices (Suc n) lines idx devs =
     res_bind (DmDevice (py_slice lines (Some idx) None)) (\<lambda>dev.
       dm_devices n lines (idx + num_rows dev + 1) (dict_set devs (name dev) dev))"

definition unquote :: "string \<Rightarrow> string" where
  "unquote s =
     (if startswith s [CHR 0x22] \<and> endswith s [CHR 0x22] then py_slice s (Some 1) (Some (- 1)) else s)"

definition DmConfig :: "string option \<Rightarrow> dm_config res" where
  "DmConfig boot_arg =
     (case boot_arg of
        None \<Rightarrow> Inl AttributeError
      | Some b \<Rightarrow>
          (case split_max 1 CHR '' '' (unquote b) of
             [n, devs] \<Rightarrow>
               res_bind (py_int n) (\<lambda>k.
               res_bind (dm_devices (nat k) (split_on CHR '','' devs) 0 []) (\<lambda>d.
                 Inr \<lparr>num_devices = k, devices = d\<rparr>))
           | _ \<Rightarrow> Inl ValueError))"

definition line_eq :: "dm_line \<Rightarrow> dm_line \<Rightarrow> bool" where
  "line_eq a b \<longleftrightarrow> start a = start b \<and> num a = num b \<and> target_type a = target_type b
     \<and> args_eq (line_args a) (line_args b)"

definition device_eq :: "dm_device \<Rightarrow> dm_device \<Rightarrow> bool" where
  "device_eq a b \<longleftrightarrow> name a = name b \<and> uuid a = uuid b \<and> flags a = flags b
     \<and> num_rows a = num_rows b \<and> list_all2 line_eq (rows a) (rows b)"

text \<open>Two \<open>OrderedDict\<close>s are equal when they have equal items in the same order.\<close>

definition config_eq :: "dm_config \<Rightarrow> dm_config \<Rightarrow> bool" where
  "config_eq a b \<longleftrightarrow> num_devices a = num_devices b
     \<and> list_all2 (\<lambda>p q. fst p = fst q \<and> device_eq (snd p) (snd q)) (devices a) (devices b)"

definition line_format :: "dm_line \<Rightarrow> string" where
  "line_format l =
     str_of_int (start l) @ '' '' @ str_of_int (num l) @ '' '' @ target_type l @ '' '' @ args_str (line_args l)"

definition device_format :: "dm_device \<Rightarrow> string" where
  "device_format d =
     join '','' ((name d @ '' '' @ uuid d @ '' '' @ flags d @ '' '' @ str_of_int (num_rows d))
                 # map line_format (rows d))"

definition config_format :: "dm_config \<Rightarrow> string" where
  "config_format c = str_of_int (num_devices c) @ '' '' @ join '', '' (map (device_format \<circ> snd) (devices c))"

fun first_verity :: "dm_line list \<Rightarrow> dm_line option" where
  "first_verity [] = None"
| "first_verity (r # rs) = (if target_type r = ''verity'' then Some r else first_verity rs)"

definition GetVerityArg :: "dm_device \<Rightarrow> arg_key \<Rightarrow> 'd \<Rightarrow> (kernel_arg + 'd) res" where
  "GetVerityArg d k dflt =
     (case first_verity (rows d) of None \<Rightarrow> Inr (Inr dflt) | Some r \<Rightarrow> args_get (line_args r) k dflt)"

text \<open>
  The two loops of \<open>UpdateVerityArg\<close>: the rows so far and the exception that ended the loop. The
  second loop does not ask whether the first one found the key.
\<close>

fun update_rows :: "(dm_line \<Rightarrow> bool) \<Rightarrow> string \<Rightarrow> string option \<Rightarrow> dm_line list \<Rightarrow> dm_line list \<times> py_error option" where
  "update_rows p k v [] = ([], None)"
| "update_rows p k v (r # rs) =
     (if p r
      then (case KernelArg k v of
              Inl e \<Rightarrow> (r # rs, Some e)
            | Inr a \<Rightarrow>
                (case update_rows p k v rs of
                   (rs', e) \<Rightarrow> (r\<lparr>line_args := set_named (line_args r) k a\<rparr> # rs', e)))
      else (case update_rows p k v rs of (rs', e) \<Rightarrow> (r # rs', e)))"

definition UpdateVerityArg :: "dm_device \<Rightarrow> string \<Rightarrow> string option \<Rightarrow> dm_device \<times> py_error option" where
  "UpdateVerityArg d k v =
     (case update_rows (\<lambda>r. target_type r = ''verity'' \<and> args_contains (line_args r) (ItemStr k)) k v (rows d) of
        (rs, Some e) \<Rightarrow> (d\<lparr>rows := rs\<rparr>, Some e)
      | (rs, None) \<Rightarrow>
          (case update_rows (\<lambda>r. target_type r = ''verity'') k v rs of
             (rs', e) \<Rightarrow> (d\<lparr>rows := rs'\<rparr>, e)))"

definition GetDmConfig :: "command_line \<Rightarrow> dm_config option res" where
  "GetDmConfig c =
     res_bind (GetKernelParameter c (KeyStr ''dm'') ()) (\<lambda>r.
       case r of Inr _ \<Rightarrow> Inr None | Inl a \<Rightarrow> res_bind (DmConfig (kvalue a)) (\<lambda>d. Inr (Some d)))"

definition SetDmConfig :: "command_line \<Rightarrow> dm_config option \<Rightarrow> command_line \<times> py_error option" where
  "SetDmConfig c cfg =
     (case cfg of
        None \<Rightarrow>
          (if args_contains (kern_args c) (ItemStr ''dm'')
           then (case args_delitem (kern_args c) (KeyStr ''dm'') of
                   Inl e \<Rightarrow> (c, Some e)
                 | Inr l \<Rightarrow> (c\<lparr>kern_args := l\<rparr>, None))
           else (c, None))
      | Some d \<Rightarrow> SetKernelParameter c ''dm'' (Some (config_format d)))"

section \<open>Printing and parsing argument lists\<close>

text \<open>What the printed form of an argument is made of, and the arguments the tokenizer yields.\<close>

definition value_form :: "string option \<Rightarrow> bool" where
  "value_form v =
     (case v of None \<Rightarrow> True
      | Some s \<Rightarrow> list_all (\<lambda>c. \<not> is_space c \<and> c \<noteq> CHR 0x22) s
                 \<or> (s = quote (butlast (tl s)) \<and> CHR 0x22 \<notin> set (butlast (tl s))))"

definition key_ok :: "string \<Rightarrow> bool" where
  "key_ok k \<longleftrightarrow> k \<noteq> [] \<and> list_all key_char k \<and> (startswith k ''--'' \<longrightarrow> k = ''--'')"

definition wf_arg :: "kernel_arg \<Rightarrow> bool" where
  "wf_arg a \<longleftrightarrow> key_ok (karg a) \<and> value_form (kvalue a)"

definition printable_arg :: "kernel_arg \<Rightarrow> bool" where
  "printable_arg a \<longleftrightarrow> key_ok (karg a) \<and> value_ok (kvalue a) \<and> kvalue a \<noteq> Some [CHR 0x22]"

definition canonical_arg :: "kernel_arg \<Rightarrow> kernel_arg" where
  "canonical_arg a = a\<lparr>kvalue := map_option quote_if_needed (kvalue a)\<rparr>"

lemma is_space_simps [simp]:
  "is_space CHR '' ''" "\<not> is_space CHR ''=''" "\<not> is_space CHR ''-''" "\<not> is_space CHR 0x22"
  "\<not> is_space CHR '',''"
  by (simp_all add: is_space_def py_ord_def)

lemma key_char_simps [simp]: "key_char CHR ''-''" "\<not> key_char CHR ''=''" "\<not> key_char CHR '' ''"
  by (simp_all add: key_char_def)

lemma py_slice_inner: "py_slice s (Some 1) (Some (- 1)) = butlast (tl s)"
  by (cases s) (auto simp: py_slice_def slice_bounds_def clip_def Let_def butlast_conv_take min_def max_def Suc_le_eq)

lemma quote_inner [simp]: "butlast (tl (quote s)) = s"
  by (simp add: quote_def)

lemma quote_startswith [simp]: "startswith (quote s) [CHR 0x22]"
  by (simp add: quote_def startswith_def)

lemma quote_endswith [simp]: "endswith (quote s) [CHR 0x22]"
  unfolding endswith_iff quote_def by (rule exI[of _ "CHR 0x22 # s"]) simp

lemma quote_if_needed_quote [simp]: "quote_if_needed (quote s) = quote s"
  by (simp add: quote_if_needed_def)

lemma startswith_hd: "startswith s [c] \<longleftrightarrow> s \<noteq> [] \<and> hd s = c"
  by (cases s) (auto simp: startswith_def)

lemma endswith_last: "endswith s [c] \<longleftrightarrow> s \<noteq> [] \<and> last s = c"
  by (cases s rule: rev_cases) (auto simp: endswith_def)

lemma value_form_None [simp]: "value_form None"
  by (simp add: value_form_def)

lemma value_form_cases:
  assumes "value_form (Some s)"
  obtains "list_all (\<lambda>c. \<not> is_space c \<and> c \<noteq> CHR 0x22) s" | b where "s = quote b" "CHR 0x22 \<notin> set b"
proof -
  from assms have "list_all (\<lambda>c. \<not> is_space c \<and> c \<noteq> CHR 0x22) s
      \<or> (\<exists>b. s = quote b \<and> CHR 0x22 \<notin> set b)"
    unfolding value_form_def by (simp, blast)
  then show thesis using that by blast
qed

lemma value_form_ok: "value_form v \<Longrightarrow> value_ok v"
proof (cases v)
  case (Some s)
  assume "value_form v"
  then consider "list_all (\<lambda>c. \<not> is_space c \<and> c \<noteq> CHR 0x22) s" | b where "s = quote b" "CHR 0x22 \<notin> set b"
    using Some unfolding value_form_def by auto
  then show ?thesis
  proof cases
    case 1
    then have "CHR 0x22 \<notin> set s" by (auto simp: list_all_iff)
    then have "CHR 0x22 \<notin> set (butlast (tl s))" "s \<noteq> [] \<Longrightarrow> hd s \<noteq> CHR 0x22" "s \<noteq> [] \<Longrightarrow> last s \<noteq> CHR 0x22"
      using last_in_set[of s] hd_in_set[of s] by (cases s; auto dest: in_set_butlastD)+
    then show ?thesis
      by (cases "s = []") (simp_all add: Some value_ok_def py_slice_inner startswith_hd endswith_last)
  next
    case 2
    then show ?thesis by (simp add: Some value_ok_def py_slice_inner)
  qed
qed (simp add: value_ok_def)

lemma value_form_format: "value_form (Some v) \<Longrightarrow> quote_if_needed v = v"
proof -
  assume "value_form (Some v)"
  then consider "list_all (\<lambda>c. \<not> is_space c \<and> c \<noteq> CHR 0x22) v" | "v = quote (butlast (tl v))"
    unfolding value_form_def by auto
  then show ?thesis
  proof cases
    case 1
    then show ?thesis by (auto simp: quote_if_needed_def list_all_iff list_ex_iff)
  qed (metis quote_if_needed_quote)
qed

lemma quoted_split:
  assumes "s \<noteq> []" "hd s = c" "last s = c" "s \<noteq> [c]"
  shows "s = c # butlast (tl s) @ [c]"
  using assms by (cases s) (auto split: if_splits)

lemma value_ok_canonical:
  assumes "value_ok (Some v)" "v \<noteq> [CHR 0x22]"
  shows "value_form (Some (quote_if_needed v))"
proof (cases "startswith v [CHR 0x22]")
  case True
  then have "hd v = CHR 0x22" "v \<noteq> []" by (auto simp: startswith_hd)
  moreover have "last v = CHR 0x22"
    using assms(1) True \<open>v \<noteq> []\<close> by (auto simp: value_ok_def endswith_last)
  ultimately have "v = quote (butlast (tl v))"
    using quoted_split[of v "CHR 0x22"] assms(2) by (simp add: quote_def)
  moreover have "CHR 0x22 \<notin> set (butlast (tl v))"
    using assms(1) True by (auto simp: value_ok_def py_slice_inner)
  ultimately show ?thesis using True by (simp add: quote_if_needed_def value_form_def)
next
  case False
  have "CHR 0x22 \<notin> set v"
  proof (cases v)
    case (Cons c r)
    then show ?thesis
    proof (cases r rule: rev_cases)
      case (snoc m d)
      then show ?thesis
        using assms(1) False Cons
        by (auto simp: value_ok_def py_slice_inner startswith_hd endswith_last)
    qed (use False Cons in \<open>auto simp: startswith_hd\<close>)
  qed simp
  then show ?thesis
    using False by (auto simp: quote_if_needed_def value_form_def list_all_iff list_ex_iff)
qed

lemma token_end_simps [simp]: "token_end []" "is_space c \<Longrightarrow> token_end (c # s)"
  by (simp_all add: token_end_def)

lemma token_end_hd: "token_end s \<Longrightarrow> s = [] \<or> is_space (hd s) \<and> hd s \<noteq> CHR ''=''"
  by (auto simp: token_end_def)

lemma match_value_format:
  assumes "value_form (Some v)" "token_end r"
  shows "match_value (v @ r) = (v, r)"
proof -
  from assms(1) consider "list_all (\<lambda>c. \<not> is_space c \<and> c \<noteq> CHR 0x22) v"
    | b where "v = quote b" "CHR 0x22 \<notin> set b"
    unfolding value_form_def by auto
  then show ?thesis
  proof cases
    case 1
    have "r = [] \<or> \<not> (\<not> is_space (hd r) \<and> hd r \<noteq> CHR 0x22)"
      using assms(2) by (auto simp: token_end_def)
    note span = span_append[OF 1 this]
    have h: "(v @ r) \<noteq> [] \<Longrightarrow> hd (v @ r) \<noteq> CHR 0x22"
      using 1 assms(2) by (cases v; cases r) (auto simp: token_end_def)
    show ?thesis using span h by (cases "v @ r") (auto simp: match_value_def)
  next
    case 2
    then have "takeWhile (\<lambda>x. x \<noteq> CHR 0x22) (b @ CHR 0x22 # r) = b"
        "dropWhile (\<lambda>x. x \<noteq> CHR 0x22) (b @ CHR 0x22 # r) = CHR 0x22 # r"
      by (auto simp: takeWhile_append dropWhile_append intro!: takeWhile_eq_all_conv[THEN iffD2])
    with 2 show ?thesis by (simp add: match_value_def quote_def)
  qed
qed

lemma match_rest_format:
  assumes "value_form v" "token_end r"
  shows "match_rest ((case v of None \<Rightarrow> [] | Some s \<Rightarrow> CHR ''='' # s) @ r) = (v, r)"
  using token_end_hd[OF assms(2)] assms match_value_format[of _ r]
  by (auto simp: match_rest_def split: option.splits)

lemma karg_format_wf:
  "wf_arg a \<Longrightarrow> karg_format a = karg a @ (case kvalue a of None \<Rightarrow> [] | Some s \<Rightarrow> CHR ''='' # s)"
  by (auto simp: karg_format_def wf_arg_def value_form_format split: option.splits)

lemma key_span:
  assumes "wf_arg a" "token_end r"
  shows "takeWhile key_char (karg_format a @ r) = karg a"
    and "dropWhile key_char (karg_format a @ r) = (case kvalue a of None \<Rightarrow> [] | Some s \<Rightarrow> CHR ''='' # s) @ r"
proof -
  let ?t = "(case kvalue a of None \<Rightarrow> [] | Some s \<Rightarrow> CHR ''='' # s) @ r"
  have "list_all key_char (karg a)" using assms(1) by (simp add: wf_arg_def key_ok_def)
  moreover have "?t = [] \<or> \<not> key_char (hd ?t)"
    using assms(2) by (cases "kvalue a") (auto simp: token_end_def key_char_def)
  ultimately show "takeWhile key_char (karg_format a @ r) = karg a" "dropWhile key_char (karg_format a @ r) = ?t"
    unfolding karg_format_wf[OF assms(1)] append_assoc by (rule span_append)+
qed

lemma match_keyvalue_format:
  assumes "wf_arg a" "token_end r"
  shows "match_keyvalue (karg_format a @ r) = Some (a, r)"
proof -
  let ?t = "(case kvalue a of None \<Rightarrow> [] | Some s \<Rightarrow> CHR ''='' # s) @ r"
  have k: "karg a \<noteq> []" "startswith (karg a) ''--'' \<Longrightarrow> karg a = ''--''" and v: "value_form (kvalue a)"
    using assms(1) by (auto simp: wf_arg_def key_ok_def)
  have f: "karg_format a @ r = karg a @ ?t" by (simp add: karg_format_wf[OF assms(1)])
  have "startswith (karg_format a @ r) ''--'' \<longleftrightarrow> startswith (karg a) ''--''"
  proof
    assume s: "startswith (karg_format a @ r) ''--''"
    have t: "?t = [] \<or> hd ?t \<noteq> CHR ''-''"
      using assms(2) by (cases "kvalue a") (auto simp: token_end_def)
    show "startswith (karg a) ''--''"
    proof (cases "karg a")
      case (Cons c q)
      with s f t show ?thesis by (cases q; cases ?t) (auto simp: startswith_def)
    qed (use k in simp)
  qed (auto simp: f startswith_iff)
  then show ?thesis
    using k match_rest_format[OF v assms(2)] key_span[OF assms]
    by (auto simp: match_keyvalue_def f startswith_iff)
qed

lemma match_token_format:
  assumes "wf_arg a" "token_end r"
  shows "match_token (karg_format a @ r) = Some r"
  using key_span[OF assms] match_rest_format[OF _ assms(2), of "kvalue a"] assms
  by (auto simp: match_token_def wf_arg_def key_ok_def)

lemma karg_format_not_Nil: "wf_arg a \<Longrightarrow> karg_format a \<noteq> []"
  by (auto simp: karg_format_wf wf_arg_def key_ok_def)

lemma karg_format_hd: "wf_arg a \<Longrightarrow> \<not> is_space (hd (karg_format a))"
  by (cases "karg a") (auto simp: karg_format_wf wf_arg_def key_ok_def key_char_def)

lemma find_args_space: "is_space c \<Longrightarrow> find_args (c # s) = find_args s"
  by (subst find_args.simps) (auto simp: match_keyvalue_def startswith_def key_char_def)

lemma find_args_Nil [simp]: "find_args [] = []"
  by (subst find_args.simps) (simp add: match_keyvalue_def startswith_def)

lemma find_args_format:
  "wf_arg a \<Longrightarrow> token_end r \<Longrightarrow> find_args (karg_format a @ r) = a # find_args r"
  by (subst find_args.simps) (simp add: match_keyvalue_format)

lemma args_str_Cons: "args_str (a # l) = karg_format a @ (if l = [] then [] else CHR '' '' # args_str l)"
  by (cases l) (simp_all add: args_format_def)

lemma args_str_Nil [simp]: "args_str [] = []"
  by (simp add: args_format_def)

lemma find_args_append:
  "list_all wf_arg l \<Longrightarrow> token_end r \<Longrightarrow> find_args (args_str l @ r) = l @ find_args r"
  by (induction l) (auto simp: args_str_Cons find_args_format find_args_space)

lemma find_args_str: "list_all wf_arg l \<Longrightarrow> find_args (args_str l) = l"
  using find_args_append[of l "[]"] by simp

lemma valid_format:
  "wf_arg a \<Longrightarrow> token_end r \<Longrightarrow> valid_cmdline (karg_format a @ r) = valid_cmdline r"
proof -
  assume a: "wf_arg a" "token_end r"
  have "dropWhile is_space (karg_format a @ r) = karg_format a @ r"
    using karg_format_hd[OF a(1)] karg_format_not_Nil[OF a(1)] by (cases "karg_format a") auto
  then show ?thesis
    using match_token_format[OF a] karg_format_not_Nil[OF a(1)]
    by (subst valid_cmdline.simps) (simp add: Let_def)
qed

lemma valid_space: "is_space c \<Longrightarrow> valid_cmdline (c # s) = valid_cmdline s"
  by (subst (1 2) valid_cmdline.simps) simp

lemma valid_Nil [simp]: "valid_cmdline []"
  by (subst valid_cmdline.simps) simp

lemma valid_append:
  "list_all wf_arg l \<Longrightarrow> token_end r \<Longrightarrow> valid_cmdline (args_str l @ r) = valid_cmdline r"
  by (induction l) (auto simp: args_str_Cons valid_format valid_space)

lemma valid_str: "list_all wf_arg l \<Longrightarrow> valid_cmdline (args_str l)"
  using valid_append[of l "[]"] by simp

lemma match_value_form: "value_form (Some (fst (match_value s)))"
proof (cases s)
  case (Cons c r)
  show ?thesis
  proof (cases "c = CHR 0x22 \<and> CHR 0x22 \<in> set r")
    case True
    then show ?thesis by (auto simp: Cons match_value_def value_form_def dest: set_takeWhileD)
  next
    case False
    have "list_all (\<lambda>x. \<not> is_space x \<and> x \<noteq> CHR 0x22) (takeWhile (\<lambda>x. \<not> is_space x \<and> x \<noteq> CHR 0x22) s)"
      unfolding list_all_iff by (blast dest: set_takeWhileD)
    moreover have "fst (match_value s) = takeWhile (\<lambda>x. \<not> is_space x \<and> x \<noteq> CHR 0x22) s"
      unfolding match_value_def Cons using False by simp
    ultimately show ?thesis by (simp add: value_form_def)
  qed
qed (simp add: match_value_def value_form_def)

lemma match_rest_form: "value_form (fst (match_rest s))"
  using match_value_form[of "tl s"] by (auto simp: match_rest_def value_form_def split: option.splits)

lemma match_keyvalue_wf: "match_keyvalue s = Some (a, r) \<Longrightarrow> wf_arg a"
proof -
  assume a: "match_keyvalue s = Some (a, r)"
  have t: "list_all key_char (takeWhile key_char s)"
    unfolding list_all_iff by (blast dest: set_takeWhileD)
  have s: "\<not> startswith s ''--'' \<Longrightarrow> \<not> startswith (takeWhile key_char s) ''--''"
    by (metis append_assoc startswith_iff takeWhile_dropWhile_id)
  have "key_ok (karg a)"
    using a t s
    by (cases "startswith s ''--''") (auto simp: match_keyvalue_def key_ok_def split: prod.splits if_splits)
  moreover obtain t where "kvalue a = fst (match_rest t)"
    using a by (auto simp: match_keyvalue_def split: prod.splits if_splits) (metis fst_conv)+
  ultimately show ?thesis using match_rest_form by (auto simp: wf_arg_def)
qed

lemma find_args_wf: "list_all wf_arg (find_args s)"
proof (induction s rule: find_args.induct)
  case (1 s)
  show ?case
  proof (cases "match_keyvalue s")
    case (Some p)
    obtain a r where "p = (a, r)" by force
    with Some 1(2)[OF _ refl] match_keyvalue_wf show ?thesis
      by (subst find_args.simps) (auto intro: 1)
  next
    case None
    with 1 show ?thesis by (subst find_args.simps) (auto split: list.splits)
  qed
qed

lemma KernelArg_wf: "wf_arg a \<Longrightarrow> KernelArg (karg a) (kvalue a) = Inr a"
  by (simp add: KernelArg_def wf_arg_def value_form_ok)

lemma KernelArgList_str:
  "KernelArgList (DataStr s) = (if valid_cmdline s then Inr (find_args s) else Inl ValueError)"
proof -
  have "map_res (\<lambda>a. KernelArg (karg a) (kvalue a)) (find_args s) = Inr (map (\<lambda>a. a) (find_args s))"
    using find_args_wf[of s] by (intro map_res_all) (auto simp: list_all_iff KernelArg_wf)
  then show ?thesis by simp
qed

lemma KernelArgList_format: "list_all wf_arg l \<Longrightarrow> KernelArgList (DataStr (args_str l)) = Inr l"
  by (simp only: KernelArgList_str valid_str find_args_str if_True)

declare KernelArgList.simps(1) [simp del]

lemma canonical_wf: "printable_arg a \<Longrightarrow> wf_arg (canonical_arg a)"
  unfolding printable_arg_def wf_arg_def canonical_arg_def
  by (cases "kvalue a") (simp_all add: value_ok_canonical)

lemma quote_if_needed_idem: "quote_if_needed (quote_if_needed v) = quote_if_needed v"
  by (simp add: quote_if_needed_def)

lemma canonical_format: "karg_format (canonical_arg a) = karg_format a"
  by (simp add: canonical_arg_def karg_format_def quote_if_needed_idem split: option.splits)

lemma canonical_eq: "karg_eq (canonical_arg a) a"
  by (auto simp: canonical_arg_def karg_eq_def quote_if_needed_def str_opt_def split: option.splits)

lemma args_str_canonical: "args_str (map canonical_arg l) = args_str l"
  by (simp add: args_format_def comp_def canonical_format)

section \<open>Reading after writing\<close>

definition args_value :: "kernel_arg list \<Rightarrow> string \<Rightarrow> string option option" where
  "args_value l k = map_option kvalue (find (\<lambda>a. karg a = k) l)"

lemma find_index_from_find:
  "find_index_from i k l =
     (if list_ex (\<lambda>a. karg a = k) l then Some (i + length (takeWhile (\<lambda>a. karg a \<noteq> k) l)) else None)"
  by (induction i k l rule: find_index_from.induct) auto

lemma find_takeWhile:
  "find P l = (if list_ex P l then Some (l ! length (takeWhile (\<lambda>x. \<not> P x) l)) else None)"
  by (induction l) auto

lemma takeWhile_short: "list_ex P l \<Longrightarrow> length (takeWhile (\<lambda>x. \<not> P x) l) < length l"
  by (induction l) auto

lemma args_get_named:
  "args_get l (KeyStr k) d = Inr (case find (\<lambda>a. karg a = k) l of None \<Rightarrow> Inr d | Some a \<Rightarrow> Inl a)"
  using takeWhile_short[of "\<lambda>a. karg a = k" l]
  by (simp add: args_get_def find_index_from_find find_takeWhile py_nth_nat)

lemma list_index_nat: "n < length l \<Longrightarrow> list_index l (int n) = Inr n"
  by (simp add: list_index_def)

lemma set_named_simps [simp]:
  "set_named [] k a = [a]"
  "set_named (b # l) k a = (if karg b = k then a # l else b # set_named l k a)"
proof -
  show "set_named (b # l) k a = (if karg b = k then a # l else b # set_named l k a)"
    using takeWhile_short[of "\<lambda>a. karg a = k" l]
    by (simp add: set_named_def args_setitem_def find_index_from_find list_index_def nat_add_distrib)
qed (simp add: set_named_def args_setitem_def)

lemma args_setitem_named: "args_setitem l (KeyStr k) a = Inr (set_named l k a)"
  using takeWhile_short[of "\<lambda>a. karg a = k" l]
  by (simp add: set_named_def args_setitem_def find_index_from_find list_index_nat)

lemma find_set_named:
  "karg a = k \<Longrightarrow> find (\<lambda>a. karg a = k') (set_named l k a) = (if k' = k then Some a else find (\<lambda>a. karg a = k') l)"
  by (induction l) auto

text \<open>An argument list is a store of values by name.\<close>

interpretation args: keyed_store args_value "\<lambda>l k v. set_named l k \<lparr>karg = k, kvalue = v\<rparr>"
  by unfold_locales (simp add: args_value_def find_set_named)

lemma set_pairs_ok:
  "\<forall>(k, v) \<in> set kvs. value_ok v \<Longrightarrow> set_pairs l kvs = (args.puts l kvs, None)"
  by (induction l kvs rule: set_pairs.induct) (auto simp: KernelArg_def)

lemma set_named_other: "\<forall>a \<in> set l. karg a \<noteq> k \<Longrightarrow> set_named l k a = l @ [a]"
  by (induction l) auto

section \<open>Command lines\<close>

definition split_arg :: kernel_arg where
  "split_arg = \<lparr>karg = ''--'', kvalue = None\<rparr>"

lemma wf_split_arg [simp]: "wf_arg split_arg" "karg_format split_arg = ''--''"
  by (simp_all add: split_arg_def wf_arg_def key_ok_def karg_format_def)

lemma CommandLine_parts:
  "CommandLine s =
     (if valid_cmdline s
      then Inr \<lparr>kern_args = takeWhile (\<lambda>a. karg a \<noteq> ''--'') (find_args s),
                init_args = tl (dropWhile (\<lambda>a. karg a \<noteq> ''--'') (find_args s))\<rparr>
      else Inl ValueError)"
proof -
  let ?l = "find_args s" and ?p = "\<lambda>a. karg a \<noteq> ''--''"
  have tail: "py_slice ?l (Some (int n + 1)) None = drop (Suc n) ?l" for n
    using py_slice_from[of ?l "Suc n"] by (simp add: add.commute)
  have "tl (dropWhile ?p ?l) = drop (Suc (length (takeWhile ?p ?l))) ?l"
    by (simp add: dropWhile_eq_drop drop_Suc tl_drop)
  then show ?thesis
    using tail[of "length ?l"] tail
    by (auto simp: CommandLine_def KernelArgList_str find_index_from_find args_getslice_def
        takeWhile_eq_take[symmetric] Let_def takeWhile_all list_ex_iff)
qed

lemma CommandLine_format:
  assumes "list_all wf_arg (kern_args c)" "list_all wf_arg (init_args c)"
    and "\<forall>a \<in> set (kern_args c). karg a \<noteq> ''--''"
  shows "CommandLine (cmdline_format c) = Inr c"
proof (cases "init_args c = []")
  case True
  then show ?thesis
    using assms
    by (simp add: CommandLine_parts cmdline_format_def valid_str find_args_str takeWhile_all dropWhile_all)
next
  case False
  have f: "cmdline_format c = args_str (kern_args c) @ CHR '' '' # karg_format split_arg @ CHR '' '' # args_str (init_args c)"
    using False by (simp add: cmdline_format_def)
  have "valid_cmdline (cmdline_format c)"
    unfolding f using assms by (simp add: valid_append valid_format valid_space valid_str del: wf_split_arg(2))
  moreover have "find_args (cmdline_format c) = kern_args c @ split_arg # init_args c"
    unfolding f using assms
    by (simp add: find_args_append find_args_format find_args_space find_args_str del: wf_split_arg(2))
  moreover have "karg split_arg = ''--''" by (simp add: split_arg_def)
  ultimately show ?thesis
    using assms(3) by (simp add: CommandLine_parts takeWhile_append2 dropWhile_append2)
qed

lemma CommandLine_wf:
  assumes "CommandLine s = Inr c"
  shows "list_all wf_arg (kern_args c)" "list_all wf_arg (init_args c)"
    "\<forall>a \<in> set (kern_args c). karg a \<noteq> ''--''"
proof -
  let ?p = "\<lambda>a. karg a \<noteq> ''--''"
  have c: "kern_args c = takeWhile ?p (find_args s)" "init_args c = tl (dropWhile ?p (find_args s))"
    using assms by (auto simp: CommandLine_parts split: if_splits)
  have "set (init_args c) \<subseteq> set (find_args s)"
    unfolding c by (metis dropWhile_eq_drop list.set_sel(2) set_drop_subset subset_eq tl_Nil)
  then show "list_all wf_arg (init_args c)"
    using find_args_wf[of s] by (auto simp: list_all_iff)
  show "list_all wf_arg (kern_args c)" "\<forall>a \<in> set (kern_args c). karg a \<noteq> ''--''"
    unfolding c using find_args_wf[of s] by (auto simp: list_all_iff dest: set_takeWhileD)
qed

section \<open>dm= configurations\<close>

definition word_ok :: "string \<Rightarrow> bool" where
  "word_ok s \<longleftrightarrow> s \<noteq> [] \<and> list_all (\<lambda>c. \<not> is_space c \<and> c \<noteq> CHR '','' \<and> c \<noteq> CHR 0x22) s"

definition plain_arg :: "kernel_arg \<Rightarrow> bool" where
  "plain_arg a \<longleftrightarrow> wf_arg a \<and> CHR '','' \<notin> set (karg_format a) \<and> CHR 0x22 \<notin> set (karg_format a)"

definition wf_line :: "dm_line \<Rightarrow> bool" where
  "wf_line l \<longleftrightarrow> word_ok (target_type l) \<and> line_args l \<noteq> [] \<and> list_all plain_arg (line_args l)"

definition wf_device :: "dm_device \<Rightarrow> bool" where
  "wf_device d \<longleftrightarrow> word_ok (name d) \<and> word_ok (uuid d) \<and> word_ok (flags d)
     \<and> num_rows d = int (length (rows d)) \<and> list_all wf_line (rows d)"

definition wf_config :: "dm_config \<Rightarrow> bool" where
  "wf_config c \<longleftrightarrow> num_devices c = int (length (devices c)) \<and> devices c \<noteq> [] \<and> dict_ok (devices c)
     \<and> list_all (\<lambda>(k, d). k = name d \<and> wf_device d) (devices c)"

lemma str_of_int_chars: "c \<in> set (str_of_int i) \<Longrightarrow> is_digit c \<or> c = CHR ''-''"
  using str_of_nat_digits[of "nat i"] str_of_nat_digits[of "nat (- i)"]
  by (auto simp: str_of_int_def list_all_iff split: if_splits)

lemma str_of_int_free:
  "c \<in> set (str_of_int i) \<Longrightarrow> \<not> is_space c \<and> c \<noteq> CHR '','' \<and> c \<noteq> CHR '' '' \<and> c \<noteq> CHR 0x22"
  using str_of_int_chars[of c i] is_digit_not_space[of c]
  by (auto simp: is_digit_def py_ord_def)

lemma str_of_int_not_Nil [simp]: "str_of_int i \<noteq> []"
  by (simp add: str_of_int_def)

lemma word_ok_free: "word_ok s \<Longrightarrow> c \<in> set s \<Longrightarrow> \<not> is_space c \<and> c \<noteq> CHR '','' \<and> c \<noteq> CHR '' '' \<and> c \<noteq> CHR 0x22"
  unfolding word_ok_def list_all_iff using is_space_simps(1) by blast

lemma last_quote: "last (quote s) = CHR 0x22"
  by (simp add: quote_def)

lemma karg_format_last: "wf_arg a \<Longrightarrow> \<not> is_space (last (karg_format a))"
proof (cases "kvalue a")
  case None
  assume "wf_arg a"
  then show ?thesis
    using None last_in_set[of "karg a"]
    by (auto simp: karg_format_wf wf_arg_def key_ok_def list_all_iff key_char_def)
next
  case (Some v)
  assume a: "wf_arg a"
  then have "value_form (Some v)" by (simp add: Some wf_arg_def)
  then have "v \<noteq> [] \<Longrightarrow> \<not> is_space (last v)"
    using last_in_set[of v] by (cases rule: value_form_cases) (auto simp: last_quote list_all_iff)
  then show ?thesis using a by (auto simp: karg_format_wf Some)
qed

lemma args_str_not_Nil: "list_all wf_arg l \<Longrightarrow> l \<noteq> [] \<Longrightarrow> args_str l \<noteq> []"
  by (cases l) (auto simp: args_str_Cons karg_format_not_Nil)

lemma args_str_last: "list_all wf_arg l \<Longrightarrow> l \<noteq> [] \<Longrightarrow> \<not> is_space (last (args_str l))"
  by (induction l) (auto simp: args_str_Cons karg_format_last args_str_not_Nil)

lemma plain_wf: "list_all plain_arg l \<Longrightarrow> list_all wf_arg l"
  by (auto simp: list_all_iff plain_arg_def)

lemma args_str_plain: "list_all plain_arg l \<Longrightarrow> CHR '','' \<notin> set (args_str l) \<and> CHR 0x22 \<notin> set (args_str l)"
  by (induction l) (auto simp: args_str_Cons plain_arg_def)

lemma is_space_free: "\<forall>c \<in> set x. \<not> is_space c \<Longrightarrow> CHR '' '' \<notin> set x"
  by auto

lemma DmLine_format: "wf_line l \<Longrightarrow> DmLine (line_format l) = Inr l"
proof -
  assume l: "wf_line l"
  let ?a = "args_str (line_args l)"
  have w: "list_all wf_arg (line_args l)" "line_args l \<noteq> []" using l by (auto simp: wf_line_def plain_wf)
  have "last (line_format l) = last ?a" "line_format l \<noteq> []"
    using args_str_not_Nil[OF w] by (auto simp: line_format_def)
  moreover have "\<not> is_space (hd (line_format l))"
    using str_of_int_free[OF hd_in_set, of "start l"] by (simp add: line_format_def)
  ultimately have strip: "strip is_space (line_format l) = line_format l"
    using args_str_last[OF w] by (intro strip_id) auto
  have "CHR '' '' \<notin> set (str_of_int (start l))" "CHR '' '' \<notin> set (str_of_int (num l))"
      "CHR '' '' \<notin> set (target_type l)"
    using str_of_int_free[of "CHR '' ''"] word_ok_free[of "target_type l" "CHR '' ''"] l
    by (auto simp: wf_line_def)
  then have "split_max 3 CHR '' '' (line_format l) = [str_of_int (start l), str_of_int (num l), target_type l, ?a]"
    by (simp add: line_format_def numeral_3_eq_3 split_max_append del: split_max.simps(2))
  then show ?thesis
    using strip KernelArgList_format[OF w(1)] by (simp add: DmLine_def)
qed

definition header :: "dm_device \<Rightarrow> string" where
  "header d = name d @ '' '' @ uuid d @ '' '' @ flags d @ '' '' @ str_of_int (num_rows d)"

lemma split_header:
  assumes "wf_device d"
  shows "split_ws (header d) = [name d, uuid d, flags d, str_of_int (num_rows d)]"
    and "split_ws (CHR '' '' # header d) = [name d, uuid d, flags d, str_of_int (num_rows d)]"
proof -
  show "split_ws (header d) = [name d, uuid d, flags d, str_of_int (num_rows d)]"
    using assms str_of_int_free
    by (simp add: header_def wf_device_def word_ok_def list_all_iff split_ws_run split_ws_last)
  then show "split_ws (CHR '' '' # header d) = [name d, uuid d, flags d, str_of_int (num_rows d)]"
    by (simp add: split_ws_skip)
qed

lemma DmDevice_format:
  assumes "wf_device d" and "h = header d \<or> h = CHR '' '' # header d"
  shows "DmDevice (h # map line_format (rows d) @ rest) = Inr d"
proof -
  have n: "num_rows d = int (length (rows d))" using assms(1) by (simp add: wf_device_def)
  have "py_slice (h # map line_format (rows d) @ rest) (Some 1) (Some (num_rows d + 1)) = map line_format (rows d)"
    using py_slice_range[of "h # map line_format (rows d) @ rest" 1 "Suc (length (rows d))"]
    by (simp add: n add.commute)
  moreover have "map_res DmLine (map line_format (rows d)) = Inr (rows d)"
    using assms(1) by (simp add: map_res_Inr wf_device_def list_all2_conv_all_nth list_all_length DmLine_format)
  moreover have "py_nth (h # map line_format (rows d) @ rest) 0 = Inr h"
    using py_nth_nat[of 0 "h # map line_format (rows d) @ rest"] by simp
  ultimately show ?thesis
    using split_header[OF assms(1)] assms(2) by (auto simp: DmDevice_def)
qed

definition device_lines :: "dm_device \<Rightarrow> string list" where
  "device_lines d = header d # map line_format (rows d)"

definition later_lines :: "dm_device list \<Rightarrow> string list" where
  "later_lines ds = concat (map (\<lambda>d. (CHR '' '' # header d) # map line_format (rows d)) ds)"

lemma later_lines_Cons:
  "later_lines (d # ds) = (CHR '' '' # header d) # map line_format (rows d) @ later_lines ds"
  by (simp add: later_lines_def)

lemma device_format_lines: "device_format d = join '','' (device_lines d)"
  by (simp add: device_format_def device_lines_def header_def)

lemma join_Cons_head: "join sep ((x @ y) # ys) = x @ join sep (y # ys)"
  by (cases ys) auto

lemma join_devices:
  "join '', '' (map device_format (d # ds)) = join '','' (device_lines d @ later_lines ds)"
proof (induction ds arbitrary: d)
  case Nil
  then show ?case by (simp add: device_format_lines later_lines_def)
next
  case (Cons e ds)
  have "join '','' (device_lines d @ later_lines (e # ds)) =
      device_format d @ '','' @ join '','' (later_lines (e # ds))"
    using join_append[of "device_lines d" "later_lines (e # ds)" "'',''"]
    by (simp add: device_format_lines device_lines_def later_lines_def)
  also have "later_lines (e # ds) = ('' '' @ header e) # map line_format (rows e) @ later_lines ds"
    by (simp add: later_lines_Cons)
  also have "join '','' \<dots> = '' '' @ join '','' (device_lines e @ later_lines ds)"
    unfolding join_Cons_head by (simp add: device_lines_def)
  finally show ?case using Cons[of e] by (simp add: later_lines_Cons)
qed

lemma dm_devices_format:
  assumes "list_all wf_device ds"
  shows "dm_devices (length ds) (pre @ later_lines ds) (int (length pre)) acc =
    Inr (fold (\<lambda>d acc. dict_set acc (name d) d) ds acc)"
  using assms
proof (induction ds arbitrary: pre acc)
  case (Cons d ds)
  let ?l = "(CHR '' '' # header d) # map line_format (rows d)"
  have n: "num_rows d = int (length (rows d))" using Cons.prems by (simp add: wf_device_def)
  have "dm_devices (length ds) ((pre @ ?l) @ later_lines ds) (int (length (pre @ ?l))) (dict_set acc (name d) d) =
      Inr (fold (\<lambda>d acc. dict_set acc (name d) d) ds (dict_set acc (name d) d))"
    by (rule Cons.IH) (use Cons.prems in simp)
  moreover have "int (length pre) + num_rows d + 1 = int (length (pre @ ?l))" by (simp add: n)
  ultimately show ?case
    using DmDevice_format[of d "CHR '' '' # header d" "later_lines ds"] Cons.prems
    by (simp add: later_lines_def del: of_nat_Suc)
qed simp

lemma line_format_free:
  assumes "wf_line l" "c \<in> {CHR '','', CHR 0x22}" shows "c \<notin> set (line_format l)"
  using assms str_of_int_free[of c] word_ok_free[of "target_type l" c] args_str_plain[of "line_args l"]
  by (auto simp: line_format_def wf_line_def)

lemma header_free:
  assumes "wf_device d" "c \<in> {CHR '','', CHR 0x22}" shows "c \<notin> set (header d)"
  using assms str_of_int_free[of c] word_ok_free[of _ c] by (auto simp: header_def wf_device_def)

lemma device_lines_free:
  assumes "wf_device d" "list_all wf_device ds" "c \<in> {CHR '','', CHR 0x22}"
    and "x \<in> set (device_lines d @ later_lines ds)"
  shows "c \<notin> set x"
  using assms header_free[OF _ assms(3)] line_format_free[OF _ assms(3)]
  by (fastforce simp: device_lines_def later_lines_def wf_device_def list_all_iff)

lemma dm_devices_all:
  assumes "wf_device d" "list_all wf_device ds"
  shows "dm_devices (Suc (length ds)) (device_lines d @ later_lines ds) 0 [] =
    Inr (fold (\<lambda>d acc. dict_set acc (name d) d) (d # ds) [])"
proof -
  have n: "num_rows d + 1 = int (length (device_lines d))"
    using assms(1) by (simp add: wf_device_def device_lines_def)
  have "DmDevice (py_slice (device_lines d @ later_lines ds) (Some 0) None) = Inr d"
    using DmDevice_format[OF assms(1), of "header d" "later_lines ds"]
      py_slice_from[of "device_lines d @ later_lines ds" 0]
    by (simp add: device_lines_def)
  then show ?thesis
    using dm_devices_format[OF assms(2), of "device_lines d" "[(name d, d)]"] n by simp
qed

lemma fold_dict_names:
  "list_all (\<lambda>(k, d). k = name d \<and> wf_device d) ds \<Longrightarrow>
    fold (\<lambda>d acc. dict_set acc (name d) d) (map snd ds) acc = dict_update acc ds"
  unfolding dict_update_def by (induction ds arbitrary: acc) auto

lemma wf_devices: "list_all (\<lambda>(k, d). k = name d \<and> wf_device d) ds \<Longrightarrow> list_all wf_device (map snd ds)"
  by (induction ds) auto

lemma config_text:
  assumes "wf_config c"
  obtains d ds where "map snd (devices c) = d # ds" "wf_device d" "list_all wf_device ds"
    "nat (num_devices c) = Suc (length ds)"
    "config_format c = str_of_int (num_devices c) @ CHR '' '' # join '','' (device_lines d @ later_lines ds)"
proof -
  obtain k d ds where devs: "devices c = (k, d) # ds" "k = name d"
    using assms(1) unfolding wf_config_def by (cases "devices c") auto
  have "list_all wf_device (map snd ds)" and "wf_device d" and "num_devices c = int (Suc (length ds))"
    using assms devs wf_devices[of ds] by (auto simp: wf_config_def)
  then show thesis
    using that[of d "map snd ds"] join_devices[of d "map snd ds"]
    by (simp add: devs config_format_def comp_def)
qed

lemma config_format_plain: "wf_config c \<Longrightarrow> CHR 0x22 \<notin> set (config_format c)"
proof (erule config_text)
  fix d ds
  assume wf: "wf_device d" "list_all wf_device ds"
    and f: "config_format c = str_of_int (num_devices c) @ CHR '' '' # join '','' (device_lines d @ later_lines ds)"
  have "CHR 0x22 \<notin> set (join '','' (device_lines d @ later_lines ds))"
    using set_join_subset[of "'',''" "device_lines d @ later_lines ds"] device_lines_free[OF wf, of "CHR 0x22"]
    by fastforce
  then show ?thesis using str_of_int_free[of "CHR 0x22"] unfolding f by auto
qed

lemma unquote_plain: "CHR 0x22 \<notin> set s \<Longrightarrow> unquote s = s" "unquote (quote s) = s"
  by (cases s) (auto simp: unquote_def startswith_hd py_slice_inner quote_def endswith_last)

lemma value_ok_plain: "CHR 0x22 \<notin> set s \<Longrightarrow> value_ok (Some s)"
proof -
  assume a: "CHR 0x22 \<notin> set s"
  then have "CHR 0x22 \<notin> set (butlast (tl s))" by (cases s) (auto dest: in_set_butlastD)
  moreover have "\<not> startswith s [CHR 0x22]" "\<not> endswith s [CHR 0x22]"
    using a by (auto simp: startswith_iff endswith_iff)
  ultimately show ?thesis by (simp add: value_ok_def py_slice_inner)
qed

lemma DmConfig_body:
  assumes "wf_config c" "unquote b = config_format c"
  shows "DmConfig (Some b) = Inr c"
proof -
  obtain d ds where devs: "map snd (devices c) = d # ds" and wf: "wf_device d" "list_all wf_device ds"
    and n: "nat (num_devices c) = Suc (length ds)"
    and f: "config_format c = str_of_int (num_devices c) @ CHR '' '' # join '','' (device_lines d @ later_lines ds)"
    using assms(1) by (rule config_text)
  have "CHR '' '' \<notin> set (str_of_int (num_devices c))" using str_of_int_free[of "CHR '' ''"] by auto
  then have "split_max (Suc 0) CHR '' '' (config_format c) =
      [str_of_int (num_devices c), join '','' (device_lines d @ later_lines ds)]"
    unfolding f by (simp add: split_max_append del: split_max.simps(2))
  moreover have "split_on CHR '','' (join '','' (device_lines d @ later_lines ds)) = device_lines d @ later_lines ds"
    by (rule split_on_join) (use device_lines_free[OF wf] in \<open>auto simp: device_lines_def\<close>)
  moreover have "fold (\<lambda>d acc. dict_set acc (name d) d) (d # ds) [] = devices c"
    using fold_dict_names[of "devices c" "[]"] dict_update_Nil_id[of "devices c"] assms(1) devs
    by (simp add: wf_config_def)
  ultimately show ?thesis
    using dm_devices_all[OF wf] n assms(2)
    by (simp add: DmConfig_def del: dm_devices.simps fold.simps split_max.simps)
qed

lemma GetKernelParameter_value:
  "GetKernelParameter c (KeyStr k) d = Inr (case find (\<lambda>a. karg a = k) (kern_args c) of None \<Rightarrow> Inr d | Some a \<Rightarrow> Inl a)"
  by (simp add: GetKernelParameter_def args_get_named)

lemma SetKernelParameter_ok:
  "value_ok v \<Longrightarrow> SetKernelParameter c k v =
     (c\<lparr>kern_args := set_named (kern_args c) k \<lparr>karg = k, kvalue = v\<rparr>\<rparr>, None)"
  by (simp add: SetKernelParameter_def args_update_def KernelArg_def)

lemma GetDmConfig_value:
  "GetDmConfig c = (case args_value (kern_args c) ''dm'' of None \<Rightarrow> Inr None
     | Some v \<Rightarrow> res_bind (DmConfig v) (\<lambda>d. Inr (Some d)))"
  by (auto simp: GetDmConfig_def GetKernelParameter_value args_value_def split: option.splits)

section \<open>Verity arguments\<close>

lemma update_rows_ok:
  "value_ok v \<Longrightarrow> update_rows p k v rs =
     (map (\<lambda>r. if p r then r\<lparr>line_args := set_named (line_args r) k \<lparr>karg = k, kvalue = v\<rparr>\<rparr> else r) rs, None)"
  by (induction p k v rs rule: update_rows.induct) (auto simp: KernelArg_def)

lemma set_named_idem [simp]:
  "karg a = k \<Longrightarrow> set_named (set_named l k a) k a = set_named l k a"
  by (induction l) auto

lemma UpdateVerityArg_ok:
  assumes "value_ok v"
  shows "UpdateVerityArg d k v =
    (d\<lparr>rows := map (\<lambda>r. if target_type r = ''verity''
        then r\<lparr>line_args := set_named (line_args r) k \<lparr>karg = k, kvalue = v\<rparr>\<rparr> else r) (rows d)\<rparr>, None)"
  using assms by (auto simp: UpdateVerityArg_def update_rows_ok)

lemma first_verity_find: "first_verity rs = find (\<lambda>r. target_type r = ''verity'') rs"
  by (induction rs) auto

lemma first_verity_map:
  "(\<And>r. target_type (f r) = target_type r) \<Longrightarrow> first_verity (map f rs) = map_option f (first_verity rs)"
  by (induction rs) auto

section \<open>Properties\<close>

text \<open>
  Printing an argument list and parsing the text gives the list back with its values in quoted
  form: for every list whose names and values can be printed at all, the parsed arguments are
  the given ones up to the optional quotes that \<open>__eq__\<close> ignores.
\<close>

theorem args_format_parse:
  assumes "list_all printable_arg l"
  shows "KernelArgList (DataStr (args_str l)) = Inr (map canonical_arg l) \<and> args_eq (map canonical_arg l) l"
proof
  have "list_all wf_arg (map canonical_arg l)" using assms by (auto simp: list_all_iff canonical_wf)
  from KernelArgList_format[OF this] show "KernelArgList (DataStr (args_str l)) = Inr (map canonical_arg l)"
    by (simp add: args_str_canonical)
  show "args_eq (map canonical_arg l) l"
    by (simp add: args_eq_def list_all2_conv_all_nth canonical_eq)
qed

theorem args_format_parse_witness:
  "KernelArgList (DataStr (args_str
      [\<lparr>karg = ''root'', kvalue = Some ''/dev/dm 0''\<rparr>, \<lparr>karg = ''quiet'', kvalue = None\<rparr>, \<lparr>karg = ''x'', kvalue = Some ''''\<rparr>])) =
    Inr [\<lparr>karg = ''root'', kvalue = Some (CHR 0x22 # ''/dev/dm 0'' @ [CHR 0x22])\<rparr>, \<lparr>karg = ''quiet'', kvalue = None\<rparr>,
         \<lparr>karg = ''x'', kvalue = Some ''''\<rparr>]"
proof -
  let ?l = "[\<lparr>karg = ''root'', kvalue = Some ''/dev/dm 0''\<rparr>, \<lparr>karg = ''quiet'', kvalue = None\<rparr>, \<lparr>karg = ''x'', kvalue = Some ''''\<rparr>]"
  have "list_all printable_arg ?l" by code_simp
  moreover have "map canonical_arg ?l = [\<lparr>karg = ''root'', kvalue = Some (CHR 0x22 # ''/dev/dm 0'' @ [CHR 0x22])\<rparr>,
      \<lparr>karg = ''quiet'', kvalue = None\<rparr>, \<lparr>karg = ''x'', kvalue = Some ''''\<rparr>]" by code_simp
  ultimately show ?thesis using args_format_parse[of ?l] by simp
qed

text \<open>
  C32. A command line that parses is printed in a form that parses to the same command line, and
  its kernel part has no argument named \<open>--\<close>: parsing is idempotent across the printer.
\<close>

theorem cmdline_roundtrip:
  assumes "CommandLine s = Inr c"
  shows "CommandLine (cmdline_format c) = Inr c \<and> (\<forall>a \<in> set (kern_args c). karg a \<noteq> ''--'')"
  using CommandLine_format[OF CommandLine_wf[OF assms]] CommandLine_wf(3)[OF assms] by simp

theorem cmdline_roundtrip_witness:
  "CommandLine (cmdline_format \<lparr>kern_args = [\<lparr>karg = ''a'', kvalue = Some ''1''\<rparr>, \<lparr>karg = ''b'', kvalue = None\<rparr>],
      init_args = [\<lparr>karg = ''c'', kvalue = None\<rparr>]\<rparr>) =
    Inr \<lparr>kern_args = [\<lparr>karg = ''a'', kvalue = Some ''1''\<rparr>, \<lparr>karg = ''b'', kvalue = None\<rparr>],
      init_args = [\<lparr>karg = ''c'', kvalue = None\<rparr>]\<rparr>"
proof -
  have "CommandLine ''  a=1 b  -- c'' = Inr \<lparr>kern_args = [\<lparr>karg = ''a'', kvalue = Some ''1''\<rparr>, \<lparr>karg = ''b'', kvalue = None\<rparr>],
      init_args = [\<lparr>karg = ''c'', kvalue = None\<rparr>]\<rparr>" by code_simp
  from cmdline_roundtrip[OF this] show ?thesis by simp
qed

text \<open>
  Setting the \<open>dm=\<close> argument to a configuration and reading it back gives the configuration,
  also after the command line is printed and parsed; every other kernel argument and the
  arguments of init keep their values.
\<close>

theorem dm_config_roundtrip:
  assumes "wf_config d" "SetDmConfig c (Some d) = (c', e)"
  shows "e = None \<and> GetDmConfig c' = Inr (Some d) \<and> DmConfig (Some (quote (config_format d))) = Inr d
    \<and> (\<forall>k. k \<noteq> ''dm'' \<longrightarrow> args_value (kern_args c') k = args_value (kern_args c) k)
    \<and> init_args c' = init_args c"
proof -
  note plain = config_format_plain[OF assms(1)]
  have c: "e = None" "c' = c\<lparr>kern_args := set_named (kern_args c) ''dm'' \<lparr>karg = ''dm'', kvalue = Some (config_format d)\<rparr>\<rparr>"
    using assms(2) SetKernelParameter_ok[OF value_ok_plain[OF plain], of c "''dm''"]
    by (auto simp: SetDmConfig_def)
  have "args_value (kern_args c') ''dm'' = Some (Some (config_format d))"
    by (simp add: c args.get_put)
  with DmConfig_body[OF assms(1)] c plain show ?thesis
    by (simp add: GetDmConfig_value unquote_plain args.get_put)
qed

theorem dm_config_roundtrip_witness:
  "GetDmConfig (fst (SetDmConfig \<lparr>kern_args = [\<lparr>karg = ''dm'', kvalue = Some ''old''\<rparr>], init_args = []\<rparr>
      (Some \<lparr>num_devices = 1, devices = [(''vroot'', \<lparr>name = ''vroot'', uuid = ''none'', flags = ''ro'', num_rows = 1,
        rows = [\<lparr>start = 0, num = 3891200, target_type = ''verity'',
                 line_args = [\<lparr>karg = ''payload'', kvalue = Some ''ROOT_DEV''\<rparr>]\<rparr>]\<rparr>)]\<rparr>))) =
   Inr (Some \<lparr>num_devices = 1, devices = [(''vroot'', \<lparr>name = ''vroot'', uuid = ''none'', flags = ''ro'', num_rows = 1,
        rows = [\<lparr>start = 0, num = 3891200, target_type = ''verity'',
                 line_args = [\<lparr>karg = ''payload'', kvalue = Some ''ROOT_DEV''\<rparr>]\<rparr>]\<rparr>)]\<rparr>)"
  (is "GetDmConfig (fst (SetDmConfig ?c (Some ?d))) = _")
proof -
  have wf: "wf_config ?d" by code_simp
  show ?thesis using dm_config_roundtrip[OF wf prod.collapse[symmetric]] by blast
qed

text \<open>
  \<open>UpdateVerityArg\<close> with a valid value sets the argument in every verity row, whether or
  not some row had it before, and changes nothing else; \<open>GetVerityArg\<close> then returns it.
\<close>

theorem verity_update:
  assumes "value_ok v" "UpdateVerityArg d k v = (d', e)"
  shows "e = None
    \<and> list_all2 (\<lambda>r r'. if target_type r = ''verity''
         then target_type r' = ''verity'' \<and> start r' = start r \<and> num r' = num r
            \<and> args_value (line_args r') = (args_value (line_args r))(k \<mapsto> v)
         else r' = r) (rows d) (rows d')
    \<and> GetVerityArg d' (KeyStr k) dflt =
        Inr (if list_ex (\<lambda>r. target_type r = ''verity'') (rows d) then Inl \<lparr>karg = k, kvalue = v\<rparr> else Inr dflt)"
proof -
  let ?a = "\<lparr>karg = k, kvalue = v\<rparr>"
  let ?f = "\<lambda>r. if target_type r = ''verity'' then r\<lparr>line_args := set_named (line_args r) k ?a\<rparr> else r"
  have d: "e = None" "d' = d\<lparr>rows := map ?f (rows d)\<rparr>"
    using assms(2) UpdateVerityArg_ok[OF assms(1), of d k] by auto
  have get: "args_value (set_named l k ?a) = (args_value l)(k \<mapsto> v)" for l
    by (rule ext) (simp add: args.get_put)
  have "list_all2 (\<lambda>r r'. if target_type r = ''verity''
         then target_type r' = ''verity'' \<and> start r' = start r \<and> num r' = num r
            \<and> args_value (line_args r') = (args_value (line_args r))(k \<mapsto> v)
         else r' = r) (rows d) (rows d')"
    by (auto simp: d list_all2_conv_all_nth get)
  moreover have "first_verity (map ?f (rows d)) = map_option ?f (first_verity (rows d))"
    by (rule first_verity_map) simp
  then have "GetVerityArg d' (KeyStr k) dflt =
      Inr (if list_ex (\<lambda>r. target_type r = ''verity'') (rows d) then Inl ?a else Inr dflt)"
    by (auto simp: d GetVerityArg_def first_verity_find args_get_named find_set_named list_ex_iff
        find_None_iff find_Some_iff split: option.splits)
  ultimately show ?thesis using d by blast
qed

theorem verity_update_witness:
  "GetVerityArg (fst (UpdateVerityArg \<lparr>name = ''vroot'', uuid = ''none'', flags = ''ro'', num_rows = 1,
      rows = [\<lparr>start = 0, num = 1, target_type = ''verity'', line_args = []\<rparr>]\<rparr> ''salt'' (Some ''ab'')))
      (KeyStr ''salt'') () = Inr (Inl \<lparr>karg = ''salt'', kvalue = Some ''ab''\<rparr>)"
  (is "GetVerityArg (fst (UpdateVerityArg ?d _ _)) _ _ = _")
proof -
  have v: "value_ok (Some ''ab'')" by code_simp
  show ?thesis using verity_update[OF v prod.collapse[symmetric], of ?d "''salt''" "()"] by simp
qed

end
