(* ===== verification/IterUtils.thy ===== *)
theory IterUtils
  imports Prelude
begin

text \<open>
  Iterator helpers (\<open>lib/iter_utils.py\<close>): the intersection of interval groups, shown to be the
  pointwise intersection, and the chunking of an iterator.
\<close>

section \<open>IntersectIntervals\<close>

type_synonym interval = "int \<times> int"

definition current_intervals :: "interval list list \<Rightarrow> nat list \<Rightarrow> interval list" where
  "current_intervals ivs idx = map2 (\<lambda>g j. g ! j) ivs idx"

definition earliest_end :: "interval list \<Rightarrow> int \<times> nat" where
  "earliest_end cur = Min (set (zip (map snd cur) [0..<length cur]))"

definition in_bounds :: "interval list list \<Rightarrow> nat list \<Rightarrow> bool" where
  "in_bounds ivs idx \<longleftrightarrow> list_all (\<lambda>(i, l). i < l) (zip idx (map length ivs))"

definition remaining :: "interval list list \<Rightarrow> nat list \<Rightarrow> nat" where
  "remaining ivs idx = sum_list (map2 (\<lambda>g i. length g - i) ivs idx)"

lemma earliest_end_in:
  assumes "cur \<noteq> []"
  shows "snd (earliest_end cur) < length cur" and "fst (earliest_end cur) = snd (cur ! snd (earliest_end cur))"
    and "\<And>c. c \<in> set cur \<Longrightarrow> fst (earliest_end cur) \<le> snd c"
proof -
  let ?S = "set (zip (map snd cur) [0..<length cur])"
  have ne: "?S \<noteq> {}" using assms by (cases cur) (auto simp: upt_rec)
  then have m: "earliest_end cur \<in> ?S" unfolding earliest_end_def by (intro Min_in) auto
  then show "snd (earliest_end cur) < length cur" "fst (earliest_end cur) = snd (cur ! snd (earliest_end cur))"
    by (auto simp: set_zip)
  fix c assume "c \<in> set cur"
  then obtain i where "i < length cur" "cur ! i = c" by (auto simp: in_set_conv_nth)
  then have "(snd c, i) \<in> ?S" by (auto simp: set_zip intro!: exI[of _ i])
  then have "earliest_end cur \<le> (snd c, i)" unfolding earliest_end_def by (intro Min_le) auto
  then show "fst (earliest_end cur) \<le> snd c" by (auto simp: less_eq_prod_def less_le)
qed

lemma in_bounds_iff:
  "length idx = length ivs \<Longrightarrow> in_bounds ivs idx \<longleftrightarrow> (\<forall>k < length ivs. idx ! k < length (ivs ! k))"
  by (auto simp: in_bounds_def list_all_length)

lemma length_current: "length idx = length ivs \<Longrightarrow> length (current_intervals ivs idx) = length ivs"
  by (simp add: current_intervals_def)

lemma current_nth:
  "length idx = length ivs \<Longrightarrow> k < length ivs \<Longrightarrow> current_intervals ivs idx ! k = ivs ! k ! (idx ! k)"
  by (simp add: current_intervals_def)

lemma remaining_step:
  assumes "length idx = length ivs" "k < length ivs" "idx ! k < length (ivs ! k)"
  shows "remaining ivs (idx[k := Suc (idx ! k)]) < remaining ivs idx"
proof -
  let ?r = "map2 (\<lambda>g i. length g - i) ivs"
  have "?r (idx[k := Suc (idx ! k)]) = (?r idx)[k := ?r idx ! k - 1]"
    using assms by (intro nth_equalityI) (auto simp: nth_list_update)
  moreover have "0 < ?r idx ! k" "k < length (?r idx)" using assms by auto
  ultimately show ?thesis
    using member_le_sum_list[OF nth_mem, of k "?r idx"]
    unfolding remaining_def by (simp add: sum_list_update)
qed

text \<open>
  One run of the loop with the given indices; \<open>indices\<close> starts with a zero per group. The
  indices have one entry per group throughout, which the first test makes explicit.
\<close>

function intersect_loop :: "interval list list \<Rightarrow> nat list \<Rightarrow> interval list" where
  "intersect_loop ivs idx =
     (if ivs \<noteq> [] \<and> length idx = length ivs \<and> in_bounds ivs idx
      then (let cur = current_intervals ivs idx;
                st = Max (set (map fst cur));
                (en, k) = earliest_end cur;
                rest = intersect_loop ivs (idx[k := Suc (idx ! k)])
            in if st < en then (st, en) # rest else rest)
      else [])"
  by pat_completeness auto
termination
proof (relation "measure (\<lambda>(ivs, idx). remaining ivs idx)")
  fix ivs idx cur st p en k
  assume a: "ivs \<noteq> [] \<and> length idx = length ivs \<and> in_bounds ivs idx"
    and "cur = current_intervals ivs idx" "p = earliest_end cur" "(en, k) = p"
  then have "k < length ivs"
    using earliest_end_in(1)[of cur] length_current[of idx ivs] by (metis length_0_conv snd_conv)
  with a show "((ivs, idx[k := Suc (idx ! k)]), ivs, idx) \<in> measure (\<lambda>(ivs, idx). remaining ivs idx)"
    using in_bounds_iff[of idx ivs] by (simp add: remaining_step)
qed simp

declare intersect_loop.simps [simp del]

definition IntersectIntervals :: "interval list list \<Rightarrow> interval list" where
  "IntersectIntervals ivs = (if ivs = [] then [] else intersect_loop ivs (map (\<lambda>_. 0) ivs))"

text \<open>The points of a group, and the groups the docstring asks for: ordered and non-overlapping.\<close>

definition covers :: "interval list \<Rightarrow> int \<Rightarrow> bool" where
  "covers g x \<longleftrightarrow> list_ex (\<lambda>(s, e). s \<le> x \<and> x < e) g"

fun group_ok :: "interval list \<Rightarrow> bool" where
  "group_ok [] = True"
| "group_ok [(s, e)] = (s \<le> e)"
| "group_ok ((s, e) # (s', e') # g) = (s \<le> e \<and> e \<le> s' \<and> group_ok ((s', e') # g))"

lemma covers_simps [simp]:
  "\<not> covers [] x" "covers ((s, e) # g) x \<longleftrightarrow> s \<le> x \<and> x < e \<or> covers g x"
  by (simp_all add: covers_def)

lemma group_ok_tail: "group_ok (p # g) \<Longrightarrow> group_ok g"
  by (cases "p # g" rule: group_ok.cases) auto

lemma group_ok_Cons:
  "group_ok ((s, e) # g) \<longleftrightarrow> s \<le> e \<and> group_ok g \<and> (\<forall>p \<in> set (take 1 g). e \<le> fst p)"
  by (cases g) auto

lemma group_ok_after: "group_ok ((s, e) # g) \<Longrightarrow> covers g x \<Longrightarrow> e \<le> x"
proof (induction g arbitrary: s e)
  case (Cons p g)
  obtain s' e' where p: "p = (s', e')" by force
  with Cons.prems(1) have "e \<le> s'" "s' \<le> e'" "group_ok ((s', e') # g)" by (auto simp: group_ok_Cons)
  with Cons.IH[of s' e'] Cons.prems(2) p show ?case by auto
qed simp

lemma group_ok_drop: "group_ok g \<Longrightarrow> group_ok (drop n g)"
  by (induction n arbitrary: g) (auto simp: drop_Suc, metis group_ok_tail list.collapse list.sel(2))

definition meet :: "interval list list \<Rightarrow> nat list \<Rightarrow> int \<Rightarrow> bool" where
  "meet ivs idx x \<longleftrightarrow> (\<forall>k < length ivs. covers (drop (idx ! k) (ivs ! k)) x)"

lemma meet_step:
  assumes ok: "list_all group_ok ivs" and len: "length idx = length ivs" "ivs \<noteq> []"
    and inb: "in_bounds ivs idx"
  defines "cur \<equiv> current_intervals ivs idx"
  defines "k \<equiv> snd (earliest_end cur)"
  shows "meet ivs idx x \<longleftrightarrow> (Max (set (map fst cur)) \<le> x \<and> x < fst (earliest_end cur))
      \<or> meet ivs (idx[k := Suc (idx ! k)]) x"
    and "meet ivs (idx[k := Suc (idx ! k)]) x \<Longrightarrow> fst (earliest_end cur) \<le> x"
proof -
  have curne: "cur \<noteq> []" using len length_current[of idx ivs] unfolding cur_def by auto
  note en = earliest_end_in[OF curne]
  have k: "k < length ivs" using en(1) length_current[of idx ivs] len unfolding cur_def k_def by simp
  have cnth: "cur ! j = ivs ! j ! (idx ! j)" if "j < length ivs" for j
    using that len unfolding cur_def by (simp add: current_nth)
  have bound: "idx ! j < length (ivs ! j)" if "j < length ivs" for j
    using inb that len by (simp add: in_bounds_iff)
  have split: "drop (idx ! j) (ivs ! j) = cur ! j # drop (Suc (idx ! j)) (ivs ! j)" if "j < length ivs" for j
    using bound[OF that] cnth[OF that] by (simp add: Cons_nth_drop_Suc)
  have okd: "group_ok (cur ! j # drop (Suc (idx ! j)) (ivs ! j))" if "j < length ivs" for j
    using ok that split[OF that] group_ok_drop[of "ivs ! j" "idx ! j"] by (auto simp: list_all_length)
  have cov: "covers (drop (idx ! j) (ivs ! j)) x \<longleftrightarrow>
      (fst (cur ! j) \<le> x \<and> x < snd (cur ! j)) \<or> covers (drop (Suc (idx ! j)) (ivs ! j)) x"
    if "j < length ivs" for j
    unfolding split[OF that] by (cases "cur ! j") auto
  have later: "snd (cur ! j) \<le> x" if "j < length ivs" "covers (drop (Suc (idx ! j)) (ivs ! j)) x" for j
    using group_ok_after[of "fst (cur ! j)" "snd (cur ! j)"] okd[OF that(1)] that(2) by simp
  have lenc: "length cur = length ivs" using len unfolding cur_def by (simp add: length_current)
  have cin: "cur ! j \<in> set cur" if "j < length ivs" for j using that lenc by simp
  show after: "fst (earliest_end cur) \<le> x" if "meet ivs (idx[k := Suc (idx ! k)]) x"
    using that later[OF k] k len en(2) unfolding meet_def k_def by force
  show "meet ivs idx x \<longleftrightarrow> (Max (set (map fst cur)) \<le> x \<and> x < fst (earliest_end cur))
      \<or> meet ivs (idx[k := Suc (idx ! k)]) x" (is "_ \<longleftrightarrow> ?here \<or> ?rest")
  proof
    assume m: "meet ivs idx x"
    show "?here \<or> ?rest"
    proof (cases "x < fst (earliest_end cur)")
      case True
      have "fst (cur ! j) \<le> x" if j: "j < length ivs" for j
      proof -
        have "x < snd (cur ! j)" using True en(3)[OF cin[OF j]] by simp
        with later[OF j] cov[OF j] m j show ?thesis unfolding meet_def by force
      qed
      then have "Max (set (map fst cur)) \<le> x"
        using curne lenc by (subst Max_le_iff) (fastforce simp: in_set_conv_nth)+
      with True show ?thesis by simp
    next
      case False
      have "meet ivs (idx[k := Suc (idx ! k)]) x"
        unfolding meet_def
      proof (intro allI impI)
        fix j assume j: "j < length ivs"
        show "covers (drop (idx[k := Suc (idx ! k)] ! j) (ivs ! j)) x"
          using m j cov[OF k] False en(2) len k unfolding meet_def k_def
          by (cases "j = k") (auto simp: nth_list_update k_def)
      qed
      then show ?thesis ..
    qed
  next
    assume "?here \<or> ?rest"
    then show "meet ivs idx x"
    proof
      assume h: ?here
      show ?thesis unfolding meet_def
      proof (intro allI impI)
        fix j assume j: "j < length ivs"
        have "fst (cur ! j) \<le> Max (set (map fst cur))" using cin[OF j] by (intro Max_ge) auto
        with h en(3)[OF cin[OF j]] cov[OF j] show "covers (drop (idx ! j) (ivs ! j)) x" by auto
      qed
    next
      assume r: ?rest
      show ?thesis unfolding meet_def
      proof (intro allI impI)
        fix j assume j: "j < length ivs"
        show "covers (drop (idx ! j) (ivs ! j)) x"
          using r j cov[OF j] len unfolding meet_def by (cases "j = k") (auto simp: nth_list_update)
      qed
    qed
  qed
qed

lemma meet_end: "length idx = length ivs \<Longrightarrow> \<not> in_bounds ivs idx \<Longrightarrow> \<not> meet ivs idx x"
  unfolding meet_def in_bounds_iff by (auto simp: not_less)

lemma covers_Cons: "covers (p # g) x \<longleftrightarrow> fst p \<le> x \<and> x < snd p \<or> covers g x"
  by (cases p) simp

lemma intersect_loop_meet:
  assumes "list_all group_ok ivs" "length idx = length ivs" "ivs \<noteq> []"
  shows "covers (intersect_loop ivs idx) x \<longleftrightarrow> meet ivs idx x"
    and "group_ok (intersect_loop ivs idx)" "list_all (\<lambda>(s, e). s < e) (intersect_loop ivs idx)"
proof -
  have "(\<forall>x. covers (intersect_loop ivs idx) x \<longleftrightarrow> meet ivs idx x) \<and> group_ok (intersect_loop ivs idx)
      \<and> list_all (\<lambda>(s, e). s < e) (intersect_loop ivs idx)"
    using assms
  proof (induction ivs idx rule: intersect_loop.induct)
    case (1 ivs idx)
    show ?case
    proof (cases "in_bounds ivs idx")
      case False
      then have "intersect_loop ivs idx = []" by (subst intersect_loop.simps) simp
      then show ?thesis using meet_end[OF "1.prems"(2) False] by simp
    next
      case True
      let ?cur = "current_intervals ivs idx"
      let ?st = "Max (set (map fst ?cur))" and ?en = "fst (earliest_end ?cur)" and ?k = "snd (earliest_end ?cur)"
      let ?rest = "intersect_loop ivs (idx[?k := Suc (idx ! ?k)])"
      have IH: "\<And>x. covers ?rest x \<longleftrightarrow> meet ivs (idx[?k := Suc (idx ! ?k)]) x" "group_ok ?rest"
          "list_all (\<lambda>(s, e). s < e) ?rest"
        using "1.IH"[OF _ refl refl refl, of ?en ?k] "1.prems" True by simp_all
      have eq: "intersect_loop ivs idx = (if ?st < ?en then (?st, ?en) # ?rest else ?rest)"
        using "1.prems" True by (subst intersect_loop.simps) (simp add: Let_def split_beta)
      note step = meet_step[OF "1.prems"(1,2,3) True]
      have "?en \<le> fst p" if "p \<in> set (take 1 ?rest)" for p
      proof -
        from that obtain g where r: "?rest = p # g" by (cases ?rest) auto
        then have "covers ?rest (fst p)" using IH(3) by (auto simp: covers_Cons split: prod.splits)
        then show ?thesis using step(2) IH(1) by blast
      qed
      then have "group_ok (intersect_loop ivs idx)" "list_all (\<lambda>(s, e). s < e) (intersect_loop ivs idx)"
        unfolding eq using IH(2,3) by (simp_all add: group_ok_Cons)
      moreover have "covers (intersect_loop ivs idx) x \<longleftrightarrow> meet ivs idx x" for x
        unfolding step(1) eq by (simp add: IH(1) covers_Cons) linarith
      ultimately show ?thesis by simp
    qed
  qed
  then show "covers (intersect_loop ivs idx) x \<longleftrightarrow> meet ivs idx x"
    "group_ok (intersect_loop ivs idx)" "list_all (\<lambda>(s, e). s < e) (intersect_loop ivs idx)" by auto
qed

section \<open>SplitToChunks\<close>

text \<open>The generator with its local list and count, driven to its end.\<close>

fun chunk_loop :: "int \<Rightarrow> 'a list \<Rightarrow> int \<Rightarrow> 'a list \<Rightarrow> 'a list list" where
  "chunk_loop n l count [] = (if l \<noteq> [] then [l] else [])"
| "chunk_loop n l count (x # xs) =
     (if count + 1 = n then (l @ [x]) # chunk_loop n [] 0 xs else chunk_loop n (l @ [x]) (count + 1) xs)"

definition SplitToChunks :: "'a list \<Rightarrow> int \<Rightarrow> 'a list list" where
  "SplitToChunks xs n = chunk_loop n [] 0 xs"

lemma chunk_loop_concat: "concat (chunk_loop n l count xs) = l @ xs"
  by (induction n l count xs rule: chunk_loop.induct) auto

lemma chunk_loop_lengths:
  assumes "0 < n" "count = int (length l)" "count < n"
  shows "chunk_loop n l count xs = [] \<and> l @ xs = [] \<or>
    (\<exists>cs c. chunk_loop n l count xs = cs @ [c] \<and> list_all (\<lambda>d. int (length d) = n) cs
      \<and> c \<noteq> [] \<and> int (length c) \<le> n)"
  using assms
proof (induction n l count xs rule: chunk_loop.induct)
  case (2 n l count x xs)
  show ?case
  proof (cases "count + 1 = n")
    case True
    with 2 consider "chunk_loop n [] 0 xs = []"
      | cs c where "chunk_loop n [] 0 xs = cs @ [c]" "list_all (\<lambda>d. int (length d) = n) cs" "c \<noteq> []" "int (length c) \<le> n"
      by auto
    then show ?thesis
    proof cases
      case 1
      then show ?thesis using True \<open>count = int (length l)\<close>
        by (intro disjI2 exI[of _ "[]"] exI[of _ "l @ [x]"]) auto
    next
      case (2 cs c)
      then show ?thesis using True \<open>count = int (length l)\<close>
        by (intro disjI2 exI[of _ "(l @ [x]) # cs"]) auto
    qed
  next
    case False
    with 2 show ?thesis by auto
  qed
qed auto

section \<open>Properties\<close>

text \<open>
  For ordered, non-overlapping interval groups the result is exactly their pointwise
  intersection, and is itself an ordered group of non-empty intervals.
\<close>

theorem intersect_intervals_correct:
  assumes "list_all group_ok ivs" "ivs \<noteq> []"
  shows "(\<forall>x. covers (IntersectIntervals ivs) x \<longleftrightarrow> (\<forall>g \<in> set ivs. covers g x))
    \<and> group_ok (IntersectIntervals ivs) \<and> list_all (\<lambda>(s, e). s < e) (IntersectIntervals ivs)"
proof -
  have "meet ivs (map (\<lambda>_. 0) ivs) x \<longleftrightarrow> (\<forall>g \<in> set ivs. covers g x)" for x
    unfolding meet_def all_set_conv_all_nth by simp
  then show ?thesis
    using intersect_loop_meet[OF assms(1), of "map (\<lambda>_. 0) ivs"] assms(2) by (simp add: IntersectIntervals_def)
qed

theorem intersect_intervals_correct_witness:
  "covers (IntersectIntervals [[(0, 5), (7, 9)], [(3, 8)]]) 7 \<and> \<not> covers (IntersectIntervals [[(0, 5), (7, 9)], [(3, 8)]]) 6"
  using intersect_intervals_correct[of "[[(0, 5), (7, 9)], [(3, 8)]]"] by simp

text \<open>
  Chunking loses and reorders nothing; with a positive size every chunk but the last has
  exactly that size, and the last is not empty and not larger.
\<close>

theorem split_to_chunks_correct:
  assumes "0 < n"
  shows "concat (SplitToChunks xs n) = xs \<and>
    (xs = [] \<and> SplitToChunks xs n = [] \<or>
     (\<exists>cs c. SplitToChunks xs n = cs @ [c] \<and> list_all (\<lambda>d. int (length d) = n) cs \<and> c \<noteq> [] \<and> int (length c) \<le> n))"
  using chunk_loop_lengths[of n 0 "[]" xs] assms by (auto simp: SplitToChunks_def chunk_loop_concat)

theorem split_to_chunks_correct_witness: "concat (SplitToChunks [1, 2, 3, 4, 5::nat] 3) = [1, 2, 3, 4, 5]"
  using split_to_chunks_correct[of 3 "[1, 2, 3, 4, 5::nat]"] by simp

end
