(* ===== verification/DependencyGraph.thy ===== *)
theory DependencyGraph
  imports PackageInfo Store Paths
begin

text \<open>
  The package dependency graph (\<open>lib/dependency_graph.py\<close>). \<open>PackageNode\<close> objects refer to each
  other and are changed in place, so they live in a heap: a reference is an index into it.
  \<open>DependencyGraph\<close> is a record of the dictionaries the constructor fills by depth-first
  insertion; its traversal, its lookups and its queries follow.
\<close>

section \<open>PackageNode\<close>

type_synonym ref = nat

record pkg_node =
  npkg :: package_info
  nroot :: string
  ndeps :: "ref list"
  nrevdeps :: "ref list"
  npaths :: "string list"

type_synonym heap = "pkg_node list"

definition new_node :: "package_info \<Rightarrow> string \<Rightarrow> string list \<Rightarrow> pkg_node" where
  "new_node p r paths = \<lparr>npkg = p, nroot = normpath r, ndeps = [], nrevdeps = [], npaths = paths\<rparr>"

definition node_atom :: "heap \<Rightarrow> ref \<Rightarrow> string" where
  "node_atom h v = info_atom (npkg (h ! v))"

definition node_name :: "heap \<Rightarrow> ref \<Rightarrow> string" where
  "node_name h v = info_cpvr (npkg (h ! v))"

text \<open>The pair \<open>__hash__\<close> hashes.\<close>

definition node_key :: "heap \<Rightarrow> ref \<Rightarrow> string \<times> string" where
  "node_key h v = (node_name h v, nroot (h ! v))"

text \<open>
  \<open>__eq__\<close> compares the dependency sets, hence the nodes in them, recursively: membership in a
  set is identity or equal hash and \<open>==\<close>. The fuel stands for Python's recursion limit.
\<close>

fun any_res :: "('a \<Rightarrow> bool res) \<Rightarrow> 'a list \<Rightarrow> bool res" where
  "any_res f [] = Inr False"
| "any_res f (x # xs) = (case f x of Inl e \<Rightarrow> Inl e | Inr b \<Rightarrow> if b then Inr True else any_res f xs)"

fun all_res :: "('a \<Rightarrow> bool res) \<Rightarrow> 'a list \<Rightarrow> bool res" where
  "all_res f [] = Inr True"
| "all_res f (x # xs) = (case f x of Inl e \<Rightarrow> Inl e | Inr b \<Rightarrow> if b then all_res f xs else Inr False)"

definition set_member :: "(ref \<Rightarrow> ref \<Rightarrow> bool res) \<Rightarrow> heap \<Rightarrow> ref \<Rightarrow> ref list \<Rightarrow> bool res" where
  "set_member eq h v s =
     (if v \<in> set s then Inr True
      else any_res (\<lambda>w. if node_key h w = node_key h v then eq v w else Inr False) s)"

definition set_equal :: "(ref \<Rightarrow> ref \<Rightarrow> bool res) \<Rightarrow> heap \<Rightarrow> ref list \<Rightarrow> ref list \<Rightarrow> bool res" where
  "set_equal eq h s t =
     (if length s \<noteq> length t then Inr False else all_res (\<lambda>v. set_member eq h v t) s)"

fun node_eq :: "nat \<Rightarrow> heap \<Rightarrow> ref \<Rightarrow> ref \<Rightarrow> bool res" where
  "node_eq 0 h v w = Inl RecursionError"
| "node_eq (Suc n) h v w =
     res_bind (info_eq_info (npkg (h ! v)) (npkg (h ! w))) (\<lambda>b.
     if \<not> b \<or> nroot (h ! v) \<noteq> nroot (h ! w) then Inr False
     else res_bind (set_equal (node_eq n h) h (ndeps (h ! v)) (ndeps (h ! w))) (\<lambda>b.
     if \<not> b then Inr False else set_equal (node_eq n h) h (nrevdeps (h ! v)) (nrevdeps (h ! w))))"

definition set_add :: "nat \<Rightarrow> heap \<Rightarrow> ref \<Rightarrow> ref list \<Rightarrow> ref list res" where
  "set_add n h v s = res_bind (set_member (node_eq n h) h v s) (\<lambda>b. Inr (if b then s else s @ [v]))"

definition add_reverse_dependency :: "nat \<Rightarrow> heap \<Rightarrow> ref \<Rightarrow> ref \<Rightarrow> heap res" where
  "add_reverse_dependency n h v w =
     res_bind (set_add n h w (nrevdeps (h ! v))) (\<lambda>s. Inr (h[v := (h ! v)\<lparr>nrevdeps := s\<rparr>]))"

definition add_dependency :: "nat \<Rightarrow> heap \<Rightarrow> ref \<Rightarrow> ref \<Rightarrow> heap res" where
  "add_dependency n h v w =
     res_bind (set_add n h w (ndeps (h ! v))) (\<lambda>s.
       add_reverse_dependency n (h[v := (h ! v)\<lparr>ndeps := s\<rparr>]) w v)"

definition node_is_relevant :: "heap \<Rightarrow> ref \<Rightarrow> string \<Rightarrow> bool res" where
  "node_is_relevant h v p =
     (if npaths (h ! v) = [] then Inl (Raised ''NoSourcePathsError'')
      else Inr (list_ex (\<lambda>q. is_relative_to p q) (npaths (h ! v))))"

definition node_any_relevant :: "heap \<Rightarrow> ref \<Rightarrow> string list \<Rightarrow> bool res" where
  "node_any_relevant h v ps = any_res (node_is_relevant h v) ps"

section \<open>DependencyGraph\<close>

datatype root_type = RootSysroot | RootSdk | RootAll

record dep_graph =
  pkg_dict :: "(string, (string, ref) dict) dict"
  atom_list :: "(string, ref list) dict"
  roots :: "string list"
  glen :: nat
  sdk_root :: "string option"
  sysroot_path :: "string option"
  root_nodes :: "ref list"

definition empty_graph :: dep_graph where
  "empty_graph = \<lparr>pkg_dict = [], atom_list = [], roots = [], glen = 0, sdk_root = None,
     sysroot_path = None, root_nodes = []\<rparr>"

definition lookup_node :: "dep_graph \<Rightarrow> string \<Rightarrow> string \<Rightarrow> ref option" where
  "lookup_node g n r = (case dict_get (pkg_dict g) n of None \<Rightarrow> None | Some d \<Rightarrow> dict_get d r)"

definition dict_or :: "('k, 'v) dict \<Rightarrow> 'k \<Rightarrow> 'v \<Rightarrow> 'v" where
  "dict_or d k v = (case dict_get d k of None \<Rightarrow> v | Some w \<Rightarrow> w)"

definition insert_node :: "heap \<Rightarrow> ref \<Rightarrow> dep_graph \<Rightarrow> dep_graph" where
  "insert_node h v g =
     (let n = node_name h v; r = nroot (h ! v); a = node_atom h v
      in g\<lparr>pkg_dict := dict_set (pkg_dict g) n (dict_set (dict_or (pkg_dict g) n []) r v),
           atom_list := dict_set (atom_list g) a (dict_or (atom_list g) a [] @ [v]),
           roots := List.insert r (roots g),
           glen := Suc (glen g)\<rparr>)"

fun add_node :: "nat \<Rightarrow> heap \<Rightarrow> ref \<Rightarrow> dep_graph \<Rightarrow> dep_graph res" where
  "add_node 0 h v g = Inl RecursionError"
| "add_node (Suc n) h v g =
     (case lookup_node g (node_name h v) (nroot (h ! v)) of
        Some w \<Rightarrow>
          res_bind (node_eq n h w v) (\<lambda>same.
            if same then Inr g else Inl (Raised ''NodeCollisionError''))
      | None \<Rightarrow> fold_res (add_node n h) (ndeps (h ! v)) (insert_node h v g))"

definition recursion_limit :: nat where
  "recursion_limit = 1000"

text \<open>
  \<open>__iter__\<close>, run to its end. A node outside the heap does not exist; the test on the length of the
  heap only makes the recursion visibly well-founded.
\<close>

function bfs :: "heap \<Rightarrow> ref list \<Rightarrow> ref list \<Rightarrow> ref list res" where
  "bfs h seen [] = Inr []"
| "bfs h seen (v # q) =
     (case set_member (node_eq recursion_limit h) h v seen of
        Inl e \<Rightarrow> Inl e
      | Inr b \<Rightarrow>
          if b \<or> length h \<le> v then bfs h seen q
          else res_bind (bfs h (v # seen) (q @ ndeps (h ! v))) (\<lambda>r. Inr (v # r)))"
  by pat_completeness auto
termination
proof (relation "measures [\<lambda>(h, seen, q). card ({..<length h} - set seen), \<lambda>(h, seen, q). length q]")
  fix h :: heap and seen q v b
  assume "set_member (node_eq recursion_limit h) h v seen = Inr b" "\<not> (b \<or> length h \<le> v)"
  then have "v \<notin> set seen" "v < length h" by (auto simp: set_member_def)
  then have "card ({..<length h} - set (v # seen)) < card ({..<length h} - set seen)"
    by (intro psubset_card_mono) auto
  then show "((h, v # seen, q @ ndeps (h ! v)), h, seen, v # q)
      \<in> measures [\<lambda>(h, seen, q). card ({..<length h} - set seen), \<lambda>(h, seen, q). length q]"
    by simp
qed auto

declare bfs.simps [simp del]

definition graph_iter :: "heap \<Rightarrow> dep_graph \<Rightarrow> ref list res" where
  "graph_iter h g = bfs h [] (root_nodes g)"

definition get_roots :: "dep_graph \<Rightarrow> root_type \<Rightarrow> string list" where
  "get_roots g t =
     (case t of RootSdk \<Rightarrow> filter (\<lambda>r. Some r = sdk_root g) (roots g)
      | RootSysroot \<Rightarrow> filter (\<lambda>r. Some r = sysroot_path g) (roots g)
      | RootAll \<Rightarrow> roots g)"

definition get_pkg_nodes :: "heap \<Rightarrow> dep_graph \<Rightarrow> package_info \<Rightarrow> root_type \<Rightarrow> ref list" where
  "get_pkg_nodes h g i t =
     (let rs = get_roots g t
      in case dict_get (pkg_dict g) (info_cpvr i) of
           Some d \<Rightarrow> List.map_filter (dict_get d) rs
         | None \<Rightarrow>
             (case dict_get (atom_list g) (info_atom i) of
                Some vs \<Rightarrow> filter (\<lambda>v. nroot (h ! v) \<in> set rs) vs
              | None \<Rightarrow> []))"

definition get_nodes :: "heap \<Rightarrow> dep_graph \<Rightarrow> pkg_arg list \<Rightarrow> root_type \<Rightarrow> ref list res" where
  "get_nodes h g pkgs t =
     (if pkgs = [] then res_bind (graph_iter h g) (\<lambda>vs. Inr (filter (\<lambda>v. nroot (h ! v) \<in> set (get_roots g t)) vs))
      else res_bind (map_res parse_pkg pkgs) (\<lambda>is. Inr (concat (map (\<lambda>i. get_pkg_nodes h g i t) is))))"

datatype graph_item = ItemNode ref | ItemInfo package_info | ItemName string

fun graph_contains :: "heap \<Rightarrow> dep_graph \<Rightarrow> graph_item \<Rightarrow> bool res" where
  "graph_contains h g (ItemNode v) =
     (case dict_get (atom_list g) (node_atom h v) of
        None \<Rightarrow> Inr False
      | Some vs \<Rightarrow> any_res (\<lambda>w. if w = v then Inr True else node_eq recursion_limit h w v) vs)"
| "graph_contains h g (ItemInfo i) =
     Inr (dict_get (pkg_dict g) (info_cpvr i) \<noteq> None \<or> dict_get (atom_list g) (info_atom i) \<noteq> None)"
| "graph_contains h g (ItemName s) = Inr (dict_get (pkg_dict g) s \<noteq> None \<or> dict_get (atom_list g) s \<noteq> None)"

text \<open>
  The constructor. \<open>get_default_sysroot_path()\<close> is the root directory; a sysroot of \<open>None\<close> makes
  \<open>os.path.normpath\<close> raise.
\<close>

definition set_roots :: "dep_graph \<Rightarrow> string \<Rightarrow> dep_graph res" where
  "set_roots g sysroot =
     (if length (roots g) > 2 then Inl AssertionError
      else (let given = normpath sysroot;
                g1 = g\<lparr>sdk_root := (if ''/'' \<in> set (roots g) \<and> given \<noteq> ''/'' then Some ''/'' else None),
                       sysroot_path := (if given \<in> set (roots g) then Some given else None)\<rparr>
            in if sysroot_path g1 = None \<and> filter (\<lambda>r. Some r \<noteq> sdk_root g1) (roots g) \<noteq> []
               then Inl (Raised ''SysrootValueError'') else Inr g1))"

definition DependencyGraph :: "heap \<Rightarrow> ref list \<Rightarrow> string option \<Rightarrow> pkg_arg list \<Rightarrow> dep_graph res" where
  "DependencyGraph h nodes sysroot root_packages =
     res_bind (fold_res (add_node recursion_limit h) nodes empty_graph) (\<lambda>g.
     case sysroot of
       None \<Rightarrow> if length (roots g) > 2 then Inl AssertionError else Inl TypeError
     | Some s \<Rightarrow>
         res_bind (set_roots g s) (\<lambda>g1.
         res_bind (map_res parse_pkg root_packages) (\<lambda>is.
         res_bind (map_res (\<lambda>i. get_nodes h g1 [PInfo i] RootSysroot) is) (\<lambda>vss.
           Inr (g1\<lparr>root_nodes := concat vss\<rparr>)))))"

definition is_dependency ::
    "heap \<Rightarrow> dep_graph \<Rightarrow> pkg_arg \<Rightarrow> pkg_arg \<Rightarrow> root_type \<Rightarrow> root_type \<Rightarrow> bool \<Rightarrow> bool res" where
  "is_dependency h g dep src dep_t src_t direct =
     res_bind (get_nodes h g [dep] dep_t) (\<lambda>ds.
     res_bind (get_nodes h g [src] src_t) (\<lambda>ss.
     if ds = [] \<or> ss = [] then Inr False
     else if direct
     then any_res (\<lambda>d. any_res (\<lambda>s.
            any_res (\<lambda>w. if w = d then Inr True else node_eq recursion_limit h w d) (ndeps (h ! s))) ss) ds
     else res_bind (DependencyGraph h ss (sysroot_path g) [src]) (\<lambda>sub.
            any_res (\<lambda>d. graph_contains h sub (ItemNode d)) ds)))"

definition get_dependencies :: "heap \<Rightarrow> dep_graph \<Rightarrow> pkg_arg \<Rightarrow> root_type \<Rightarrow> ref list res" where
  "get_dependencies h g p t =
     res_bind (get_nodes h g [p] t) (\<lambda>vs. Inr (concat (map (\<lambda>v. ndeps (h ! v)) vs)))"

definition get_reverse_dependencies :: "heap \<Rightarrow> dep_graph \<Rightarrow> pkg_arg \<Rightarrow> root_type \<Rightarrow> ref list res" where
  "get_reverse_dependencies h g p t =
     res_bind (get_nodes h g [p] t) (\<lambda>vs. Inr (concat (map (\<lambda>v. nrevdeps (h ! v)) vs)))"

definition graph_is_relevant :: "heap \<Rightarrow> dep_graph \<Rightarrow> string \<Rightarrow> bool res" where
  "graph_is_relevant h g p = res_bind (graph_iter h g) (any_res (\<lambda>v. node_is_relevant h v p))"

definition graph_any_relevant :: "heap \<Rightarrow> dep_graph \<Rightarrow> string list \<Rightarrow> bool res" where
  "graph_any_relevant h g ps = any_res (graph_is_relevant h g) ps"

fun filter_res :: "('a \<Rightarrow> bool res) \<Rightarrow> 'a list \<Rightarrow> 'a list res" where
  "filter_res f [] = Inr []"
| "filter_res f (x # xs) =
     res_bind (f x) (\<lambda>b. res_bind (filter_res f xs) (\<lambda>r. Inr (if b then x # r else r)))"

definition get_relevant_nodes :: "heap \<Rightarrow> dep_graph \<Rightarrow> string list \<Rightarrow> root_type \<Rightarrow> ref list res" where
  "get_relevant_nodes h g ps t =
     res_bind (get_nodes h g [] t) (filter_res (\<lambda>v. node_any_relevant h v ps))"

section \<open>Well-formed heaps\<close>

text \<open>
  The heaps the graph is built from: dependencies are nodes of the heap, one node per package and
  root, and package versions that are valid and equal only when they are the same.
\<close>

definition heap_ok :: "heap \<Rightarrow> bool" where
  "heap_ok h \<longleftrightarrow>
     list_all (\<lambda>v. list_all (\<lambda>w. w < length h) (ndeps v)) h
     \<and> distinct (map (node_key h) [0..<length h])
     \<and> list_all (\<lambda>v. list_all (\<lambda>w. info_eq_info (npkg v) (npkg w) = Inr (npkg v = npkg w)) h) h"

definition edges :: "heap \<Rightarrow> (ref \<times> ref) set" where
  "edges h = {(v, w). v < length h \<and> w \<in> set (ndeps (h ! v))}"

definition reach :: "heap \<Rightarrow> ref set \<Rightarrow> ref set" where
  "reach h S = (edges h)\<^sup>* `` S"

lemma heap_okD:
  assumes "heap_ok h" "v < length h"
  shows "w \<in> set (ndeps (h ! v)) \<Longrightarrow> w < length h"
    and "w < length h \<Longrightarrow> node_key h v = node_key h w \<longleftrightarrow> v = w"
    and "w < length h \<Longrightarrow> info_eq_info (npkg (h ! v)) (npkg (h ! w)) = Inr (npkg (h ! v) = npkg (h ! w))"
  using assms by (auto simp: heap_ok_def list_all_iff distinct_map inj_on_def)

lemma all_res_True: "(\<And>x. x \<in> set xs \<Longrightarrow> f x = Inr True) \<Longrightarrow> all_res f xs = Inr True"
  by (induction xs) auto

lemma any_res_Inr: "(\<And>x. x \<in> set xs \<Longrightarrow> f x = Inr (P x)) \<Longrightarrow> any_res f xs = Inr (\<exists>x \<in> set xs. P x)"
  by (induction xs) auto

lemma set_equal_self: "set_equal eq h s s = Inr True"
  by (simp add: set_equal_def set_member_def all_res_True)

lemma node_eq_ok:
  assumes "heap_ok h" "v < length h" "w < length h"
  shows "node_eq (Suc n) h v w = Inr (v = w)"
proof (cases "v = w")
  case True
  then show ?thesis using assms by (simp add: heap_okD(3) set_equal_self)
next
  case False
  then have "npkg (h ! v) \<noteq> npkg (h ! w) \<or> nroot (h ! v) \<noteq> nroot (h ! w)"
    using heap_okD(2)[OF assms] by (auto simp: node_key_def node_name_def)
  with False assms show ?thesis by (auto simp: heap_okD(3))
qed

lemma set_member_ok:
  assumes "heap_ok h" "v < length h" "set s \<subseteq> {..<length h}"
  shows "set_member eq h v s = Inr (v \<in> set s)"
proof -
  have "any_res (\<lambda>w. if node_key h w = node_key h v then eq v w else Inr False) s = Inr (\<exists>w \<in> set s. False)"
    if "v \<notin> set s"
    using assms that heap_okD(2)[OF assms(1), of _ v] by (intro any_res_Inr) fastforce
  then show ?thesis by (simp add: set_member_def)
qed

lemma reach_mono: "S \<subseteq> T \<Longrightarrow> reach h S \<subseteq> reach h T"
  unfolding reach_def by blast

lemma reach_self: "S \<subseteq> reach h S"
  unfolding reach_def by blast

lemma reach_step: "v \<in> reach h S \<Longrightarrow> v < length h \<Longrightarrow> w \<in> set (ndeps (h ! v)) \<Longrightarrow> w \<in> reach h S"
  unfolding reach_def edges_def by (blast intro: rtrancl_into_rtrancl)

lemma reach_least:
  assumes "S \<subseteq> C" "\<And>v w. v \<in> C \<Longrightarrow> v < length h \<Longrightarrow> w \<in> set (ndeps (h ! v)) \<Longrightarrow> w \<in> C"
  shows "reach h S \<subseteq> C"
proof
  fix w assume "w \<in> reach h S"
  then obtain v where "v \<in> S" "(v, w) \<in> (edges h)\<^sup>*" by (auto simp: reach_def)
  from this(2) have "w \<in> C"
    by (induction rule: rtrancl_induct) (use \<open>v \<in> S\<close> assms in \<open>auto simp: edges_def\<close>)
  then show "w \<in> C" .
qed

lemma reach_closed:
  "(\<And>v. v \<in> S \<Longrightarrow> v < length h \<Longrightarrow> set (ndeps (h ! v)) \<subseteq> S) \<Longrightarrow> reach h S = S"
  using reach_least[of S S h] reach_self[of S h] by blast

lemma reach_range: "heap_ok h \<Longrightarrow> S \<subseteq> {..<length h} \<Longrightarrow> reach h S \<subseteq> {..<length h}"
  by (rule reach_least) (auto dest: heap_okD(1))

section \<open>Traversal\<close>

text \<open>The nodes seen, with those reachable from the queue, are the nodes reachable from both.\<close>

lemma bfs_ok:
  assumes "heap_ok h" "set seen \<subseteq> {..<length h}" "set q \<subseteq> {..<length h}"
    and "\<And>v. v \<in> set seen \<Longrightarrow> set (ndeps (h ! v)) \<subseteq> set seen \<union> set q"
  shows "\<exists>r. bfs h seen q = Inr r \<and> distinct r \<and> set r \<inter> set seen = {}
    \<and> set seen \<union> set r = reach h (set seen \<union> set q)"
  using assms
proof (induction h seen q rule: bfs.induct)
  case (1 h seen)
  then have "reach h (set seen) = set seen" by (intro reach_closed) auto
  then show ?case by (simp add: bfs.simps)
next
  case (2 h seen v q)
  have v: "v < length h" and mem: "set_member (node_eq recursion_limit h) h v seen = Inr (v \<in> set seen)"
    using 2 by (auto intro: set_member_ok)
  show ?case
  proof (cases "v \<in> set seen")
    case True
    have "\<exists>r. bfs h seen q = Inr r \<and> distinct r \<and> set r \<inter> set seen = {}
        \<and> set seen \<union> set r = reach h (set seen \<union> set q)"
    proof (rule 2(1)[OF mem])
      show "set (ndeps (h ! u)) \<subseteq> set seen \<union> set q" if "u \<in> set seen" for u
        using "2.prems"(4)[OF that] True by auto
    qed (use "2.prems" True in auto)
    moreover have "bfs h seen (v # q) = bfs h seen q" using mem True by (simp add: bfs.simps(2))
    moreover have "set seen \<union> set (v # q) = set seen \<union> set q" using True by auto
    ultimately show ?thesis by simp
  next
    case False
    have "\<exists>r. bfs h (v # seen) (q @ ndeps (h ! v)) = Inr r \<and> distinct r \<and> set r \<inter> set (v # seen) = {}
        \<and> set (v # seen) \<union> set r = reach h (set (v # seen) \<union> set (q @ ndeps (h ! v)))"
    proof (rule 2(2)[OF mem])
      show "set (ndeps (h ! u)) \<subseteq> set (v # seen) \<union> set (q @ ndeps (h ! v))" if "u \<in> set (v # seen)" for u
        using "2.prems"(4)[of u] that by auto
    qed (use "2.prems" False v heap_okD(1)[OF "2.prems"(1) v] in auto)
    then obtain r where r: "bfs h (v # seen) (q @ ndeps (h ! v)) = Inr r" "distinct r"
        "set r \<inter> set (v # seen) = {}"
        "set (v # seen) \<union> set r = reach h (set (v # seen) \<union> set (q @ ndeps (h ! v)))"
      by blast
    have "reach h (set (v # seen) \<union> set (q @ ndeps (h ! v))) = reach h (set seen \<union> set (v # q))"
    proof
      have "set (v # seen) \<union> set (q @ ndeps (h ! v)) \<subseteq> reach h (set seen \<union> set (v # q))"
        using reach_self[of "set seen \<union> set (v # q)" h] reach_step[of v h "set seen \<union> set (v # q)"] v by auto
      then show "reach h (set (v # seen) \<union> set (q @ ndeps (h ! v))) \<subseteq> reach h (set seen \<union> set (v # q))"
        by (rule reach_least) (rule reach_step)
    qed (rule reach_mono, auto)
    with r mem False v show ?thesis by (auto simp: bfs.simps(2))
  qed
qed

section \<open>Insertion\<close>

text \<open>What the fields of the graph hold once the nodes of \<open>S\<close> are in it.\<close>

definition graph_ok :: "heap \<Rightarrow> dep_graph \<Rightarrow> ref set \<Rightarrow> bool" where
  "graph_ok h g S \<longleftrightarrow> S \<subseteq> {..<length h} \<and>
     (\<forall>n r w. lookup_node g n r = Some w \<longleftrightarrow> w \<in> S \<and> node_key h w = (n, r)) \<and>
     (\<forall>n. dict_get (pkg_dict g) n \<noteq> None \<longleftrightarrow> (\<exists>w \<in> S. node_name h w = n)) \<and>
     (\<forall>a. set (dict_or (atom_list g) a []) = {w \<in> S. node_atom h w = a}) \<and>
     set (roots g) = (\<lambda>w. nroot (h ! w)) ` S \<and> distinct (roots g) \<and> glen g = card S"

lemma empty_graph_ok: "graph_ok h empty_graph {}"
  by (simp add: graph_ok_def empty_graph_def lookup_node_def dict_or_def)

lemma dict_or_set: "dict_or (dict_set d k v) k' w = (if k' = k then v else dict_or d k' w)"
  by (simp add: dict_or_def dict_get_set)

lemma insert_node_ok:
  assumes h: "heap_ok h" and g: "graph_ok h g S" and v: "v < length h" "v \<notin> S"
  shows "graph_ok h (insert_node h v g) (insert v S)"
proof -
  let ?g = "insert_node h v g"
  have key: "node_key h w = node_key h v \<longleftrightarrow> w = v" if "w \<in> insert v S" for w
    using heap_okD(2)[OF h _ v(1), of w] that g v by (auto simp: graph_ok_def)
  have look: "lookup_node ?g n r = (if (n, r) = node_key h v then Some v else lookup_node g n r)" for n r
    by (auto simp: lookup_node_def insert_node_def Let_def dict_get_set dict_or_def node_key_def split: option.splits)
  have "lookup_node ?g n r = Some w \<longleftrightarrow> w \<in> insert v S \<and> node_key h w = (n, r)" for n r w
    unfolding look using g key[of w] v by (auto simp: graph_ok_def)
  moreover have "dict_get (pkg_dict ?g) n \<noteq> None \<longleftrightarrow> (\<exists>w \<in> insert v S. node_name h w = n)" for n
    using g by (auto simp: graph_ok_def insert_node_def Let_def dict_get_set)
  moreover have "set (dict_or (atom_list ?g) a []) = {w \<in> insert v S. node_atom h w = a}" for a
    using g by (auto simp: graph_ok_def insert_node_def Let_def dict_or_set)
  moreover have "finite S" using g finite_subset by (auto simp: graph_ok_def)
  ultimately show ?thesis
    unfolding graph_ok_def using g v
    by (auto simp: graph_ok_def insert_node_def Let_def)
qed

lemma graph_okD:
  assumes "graph_ok h g S"
  shows "S \<subseteq> {..<length h}" "lookup_node g n r = Some w \<longleftrightarrow> w \<in> S \<and> node_key h w = (n, r)"
    "dict_get (pkg_dict g) n \<noteq> None \<longleftrightarrow> (\<exists>w \<in> S. node_name h w = n)"
    "set (dict_or (atom_list g) a []) = {w \<in> S. node_atom h w = a}"
    "set (roots g) = (\<lambda>w. nroot (h ! w)) ` S" "distinct (roots g)" "glen g = card S"
  using assms by (simp_all only: graph_ok_def)

lemma lookup_ok:
  assumes "heap_ok h" "graph_ok h g S" "v < length h"
  shows "lookup_node g (node_name h v) (nroot (h ! v)) = (if v \<in> S then Some v else None)"
proof (cases "lookup_node g (node_name h v) (nroot (h ! v))")
  case None
  then show ?thesis
    using graph_okD(2)[OF assms(2), of "node_name h v" "nroot (h ! v)" v] by (simp add: node_key_def)
next
  case (Some w)
  then have w: "w \<in> S" "node_key h w = node_key h v"
    using graph_okD(2)[OF assms(2)] by (simp_all add: node_key_def[of h v])
  then have "w < length h" using graph_okD(1)[OF assms(2)] by blast
  with w have "w = v" using heap_okD(2)[OF assms(1), of w v] assms(3) by simp
  with Some w show ?thesis by simp
qed

text \<open>
  The new nodes of \<open>S'\<close> over \<open>S\<close> have all their dependencies in \<open>S'\<close> and come from the nodes given.
\<close>

definition extends :: "heap \<Rightarrow> ref set \<Rightarrow> ref set \<Rightarrow> ref set \<Rightarrow> bool" where
  "extends h S V S' \<longleftrightarrow> S \<union> V \<subseteq> S' \<and> S' \<subseteq> S \<union> reach h V \<and> (\<forall>w \<in> S' - S. set (ndeps (h ! w)) \<subseteq> S')"

lemma extends_refl: "extends h S {} S"
  by (simp add: extends_def)

lemma extends_trans:
  assumes "extends h S V S1" "extends h S1 W S2"
  shows "extends h S (V \<union> W) S2"
proof -
  have "reach h V \<union> reach h W = reach h (V \<union> W)" by (auto simp: reach_def)
  with assms show ?thesis unfolding extends_def by blast
qed

lemma extends_insert:
  assumes "extends h (insert v S) (set (ndeps (h ! v))) S'" "v < length h"
  shows "extends h S {v} S'"
proof -
  have "reach h (set (ndeps (h ! v))) \<subseteq> reach h {v}"
    by (rule reach_least) (use assms(2) reach_self[of "{v}" h] in \<open>auto intro: reach_step\<close>)
  with assms(1) reach_self[of "{v}" h] show ?thesis unfolding extends_def by auto
qed

lemma add_node_ok:
  assumes "heap_ok h" "graph_ok h g S" "v < length h" "Suc (card ({..<length h} - S)) < n"
  shows "\<exists>g' S'. add_node n h v g = Inr g' \<and> graph_ok h g' S' \<and> extends h S {v} S'
    \<and> sdk_root g' = sdk_root g \<and> sysroot_path g' = sysroot_path g \<and> root_nodes g' = root_nodes g"
  using assms
proof (induction n arbitrary: v g S)
  case (Suc n)
  have fold: "\<exists>g' S'. fold_res (add_node n h) vs g = Inr g' \<and> graph_ok h g' S' \<and> extends h S (set vs) S'
      \<and> sdk_root g' = sdk_root g \<and> sysroot_path g' = sysroot_path g \<and> root_nodes g' = root_nodes g"
    if "graph_ok h g S" "set vs \<subseteq> {..<length h}" "Suc (card ({..<length h} - S)) < n" for g S vs
    using that
  proof (induction vs arbitrary: g S)
    case Nil
    then show ?case using extends_refl by fastforce
  next
    case (Cons v vs)
    then obtain g1 S1 where 1: "add_node n h v g = Inr g1" "graph_ok h g1 S1" "extends h S {v} S1"
        "sdk_root g1 = sdk_root g" "sysroot_path g1 = sysroot_path g" "root_nodes g1 = root_nodes g"
      using Suc.IH[OF Suc.prems(1), of g S v] by auto
    have "card ({..<length h} - S1) \<le> card ({..<length h} - S)"
      using 1(3) by (intro card_mono) (auto simp: extends_def)
    with Cons.prems obtain g2 S2 where 2: "fold_res (add_node n h) vs g1 = Inr g2" "graph_ok h g2 S2"
        "extends h S1 (set vs) S2"
        "sdk_root g2 = sdk_root g1" "sysroot_path g2 = sysroot_path g1" "root_nodes g2 = root_nodes g1"
      using Cons.IH[OF 1(2)] by auto
    with 1 extends_trans[OF 1(3) 2(3)] show ?case by auto
  qed
  note look = lookup_ok[OF Suc.prems(1-3)]
  show ?case
  proof (cases "v \<in> S")
    case True
    moreover obtain m where "n = Suc m" using Suc.prems(4) by (cases n) auto
    ultimately show ?thesis
      using look Suc.prems node_eq_ok[of h v v m] by (auto simp: extends_def)
  next
    case False
    have "card ({..<length h} - insert v S) < card ({..<length h} - S)"
      by (rule psubset_card_mono) (use False Suc.prems(3) in auto)
    then obtain g' S' where "fold_res (add_node n h) (ndeps (h ! v)) (insert_node h v g) = Inr g'"
        "graph_ok h g' S'" "extends h (insert v S) (set (ndeps (h ! v))) S'"
        "sdk_root g' = sdk_root g" "sysroot_path g' = sysroot_path g" "root_nodes g' = root_nodes g"
      using fold[OF insert_node_ok[OF Suc.prems(1-3) False], of "ndeps (h ! v)"] Suc.prems
        heap_okD(1)[OF Suc.prems(1,3)]
      by (auto simp: insert_node_def Let_def)
    with extends_insert Suc.prems(3) look False show ?thesis by auto
  qed
qed simp

lemma add_nodes_ok:
  assumes "heap_ok h" "graph_ok h g S" "set vs \<subseteq> {..<length h}" "Suc (length h) < n"
  shows "\<exists>g' S'. fold_res (add_node n h) vs g = Inr g' \<and> graph_ok h g' S' \<and> extends h S (set vs) S'
    \<and> sdk_root g' = sdk_root g \<and> sysroot_path g' = sysroot_path g \<and> root_nodes g' = root_nodes g"
  using assms(2,3)
proof (induction vs arbitrary: g S)
  case Nil
  then show ?case using extends_refl by fastforce
next
  case (Cons v vs)
  have "card ({..<length h} - S) \<le> length h" using card_mono[of "{..<length h}" "{..<length h} - S"] by auto
  with Cons.prems assms obtain g1 S1 where 1: "add_node n h v g = Inr g1" "graph_ok h g1 S1" "extends h S {v} S1"
      "sdk_root g1 = sdk_root g" "sysroot_path g1 = sysroot_path g" "root_nodes g1 = root_nodes g"
    using add_node_ok[OF assms(1), of g S v n] by auto
  with Cons.prems obtain g2 S2 where 2: "fold_res (add_node n h) vs g1 = Inr g2" "graph_ok h g2 S2"
      "extends h S1 (set vs) S2"
      "sdk_root g2 = sdk_root g1" "sysroot_path g2 = sysroot_path g1" "root_nodes g2 = root_nodes g1"
    using Cons.IH[OF 1(2)] by auto
  with 1 extends_trans[OF 1(3) 2(3)] show ?case by auto
qed

lemma build_ok:
  assumes "heap_ok h" "set vs \<subseteq> {..<length h}" "Suc (length h) < recursion_limit"
  shows "\<exists>g. fold_res (add_node recursion_limit h) vs empty_graph = Inr g \<and> graph_ok h g (reach h (set vs))"
proof -
  obtain g S where g: "fold_res (add_node recursion_limit h) vs empty_graph = Inr g" "graph_ok h g S"
      "extends h {} (set vs) S"
    using add_nodes_ok[OF assms(1) empty_graph_ok assms(2,3)] by blast
  then have "reach h (set vs) \<subseteq> S" by (intro reach_least) (auto simp: extends_def)
  with g(3) have "S = reach h (set vs)" by (auto simp: extends_def)
  with g show ?thesis by blast
qed

lemma graph_ok_fields [simp]:
  "graph_ok h (g\<lparr>sdk_root := a, sysroot_path := b\<rparr>) S = graph_ok h g S"
  "graph_ok h (g\<lparr>root_nodes := vs\<rparr>) S = graph_ok h g S"
  by (simp_all add: graph_ok_def lookup_node_def)

lemma get_roots_subset: "set (get_roots g t) \<subseteq> set (roots g)"
  by (auto simp: get_roots_def split: root_type.splits)

lemma get_pkg_nodes_in:
  assumes "graph_ok h g S" shows "set (get_pkg_nodes h g i t) \<subseteq> S"
proof (cases "dict_get (pkg_dict g) (info_cpvr i)")
  case None
  then show ?thesis
    using graph_okD(4)[OF assms, of "info_atom i"]
    by (auto simp: get_pkg_nodes_def dict_or_def Let_def split: option.splits)
next
  case (Some d)
  have "w \<in> S" if "dict_get d r = Some w" for r w
    using that Some graph_okD(2)[OF assms, of "info_cpvr i" r w] by (simp add: lookup_node_def)
  with Some show ?thesis by (auto simp: get_pkg_nodes_def Let_def map_filter_def)
qed

lemma get_nodes_named:
  "pkgs \<noteq> [] \<Longrightarrow> get_nodes h g pkgs t =
     res_bind (map_res parse_pkg pkgs) (\<lambda>is. Inr (concat (map (\<lambda>i. get_pkg_nodes h g i t) is)))"
  by (simp add: get_nodes_def)

lemma get_nodes_in:
  assumes "graph_ok h g S" "pkgs \<noteq> []" "get_nodes h g pkgs t = Inr vs"
  shows "set vs \<subseteq> S"
proof -
  from assms(3) obtain infos where "vs = concat (map (\<lambda>i. get_pkg_nodes h g i t) infos)"
    by (auto simp: get_nodes_named[OF assms(2)] res_bind_Inr)
  then show ?thesis using get_pkg_nodes_in[OF assms(1)] by fastforce
qed

lemma set_roots_facts:
  assumes "set_roots g s = Inr g1"
  shows "g1 = g\<lparr>sdk_root := sdk_root g1, sysroot_path := sysroot_path g1\<rparr>"
    and "sysroot_path g1 \<in> {None, Some (normpath s)}" and "length (roots g1) \<le> 2"
  using assms by (auto simp: set_roots_def Let_def split: if_splits)

lemma set_roots_ok:
  assumes "distinct (roots g)" "set (roots g) \<subseteq> {normpath s, ''/''}"
  shows "set_roots g s = Inr (g\<lparr>
    sdk_root := (if ''/'' \<in> set (roots g) \<and> normpath s \<noteq> ''/'' then Some ''/'' else None),
    sysroot_path := (if normpath s \<in> set (roots g) then Some (normpath s) else None)\<rparr>)"
proof -
  have "length (roots g) \<le> card {normpath s, ''/''}"
    using assms by (metis card_mono distinct_card finite.emptyI finite.insertI)
  also have "\<dots> \<le> 2" by (simp add: card_insert_if)
  finally have "length (roots g) \<le> 2" .
  moreover have "filter (\<lambda>r. Some r \<noteq> (if ''/'' \<in> set (roots g) \<and> normpath s \<noteq> ''/'' then Some ''/'' else None)) (roots g) = []"
    if "normpath s \<notin> set (roots g)"
    using assms(2) that by (cases "roots g") (auto simp: filter_empty_conv)
  ultimately show ?thesis by (simp add: set_roots_def Let_def)
qed

lemma DependencyGraph_facts:
  assumes h: "heap_ok h" "Suc (length h) < recursion_limit" "set nodes \<subseteq> {..<length h}"
    and g: "DependencyGraph h nodes (Some s) rp = Inr g"
  shows "graph_ok h g (reach h (set nodes))" and "set (root_nodes g) \<subseteq> reach h (set nodes)"
    and "sysroot_path g \<in> {None, Some (normpath s)}" and "length (roots g) \<le> 2"
proof -
  obtain g0 where g0: "fold_res (add_node recursion_limit h) nodes empty_graph = Inr g0"
      "graph_ok h g0 (reach h (set nodes))"
    using build_ok[OF h(1,3,2)] by blast
  with g obtain g1 ps vss where g1: "set_roots g0 s = Inr g1" and vss:
      "map_res (\<lambda>i. get_nodes h g1 [PInfo i] RootSysroot) ps = Inr vss" and g: "g = g1\<lparr>root_nodes := concat vss\<rparr>"
    by (auto simp: DependencyGraph_def res_bind_Inr)
  have ok1: "graph_ok h g1 (reach h (set nodes))"
    using g0(2) set_roots_facts(1)[OF g1] graph_ok_fields(1) by metis
  then show "graph_ok h g (reach h (set nodes))" by (simp add: g)
  have "set vs \<subseteq> reach h (set nodes)" if "vs \<in> set vss" for vs
  proof -
    obtain k where "k < length vss" "vss ! k = vs" using \<open>vs \<in> set vss\<close> by (auto simp: in_set_conv_nth)
    then have "get_nodes h g1 [PInfo (ps ! k)] RootSysroot = Inr vs"
      using vss by (auto simp: map_res_Inr list_all2_conv_all_nth)
    then show ?thesis by (rule get_nodes_in[OF ok1 list.distinct(2)])
  qed
  then show "set (root_nodes g) \<subseteq> reach h (set nodes)" by (auto simp: g)
  show "sysroot_path g \<in> {None, Some (normpath s)}" using set_roots_facts(2)[OF g1] by (simp add: g)
  show "length (roots g) \<le> 2" using set_roots_facts(3)[OF g1] by (simp add: g)
qed

lemma DependencyGraph_returns:
  assumes h: "heap_ok h" "Suc (length h) < recursion_limit" "set nodes \<subseteq> {..<length h}"
    and r: "\<forall>v \<in> reach h (set nodes). nroot (h ! v) \<in> {normpath s, ''/''}"
    and p: "\<forall>p \<in> set rp. isOk (parse_pkg p)"
  shows "\<exists>g. DependencyGraph h nodes (Some s) rp = Inr g
    \<and> sysroot_path g = (if \<exists>v \<in> reach h (set nodes). nroot (h ! v) = normpath s then Some (normpath s) else None)"
proof -
  obtain g0 where g0: "fold_res (add_node recursion_limit h) nodes empty_graph = Inr g0"
      "graph_ok h g0 (reach h (set nodes))"
    using build_ok[OF h(1,3,2)] by blast
  note roots = graph_okD(5,6)[OF g0(2)]
  have "set (roots g0) \<subseteq> {normpath s, ''/''}" using roots(1) r by auto
  then obtain g1 where g1: "set_roots g0 s = Inr g1"
    "sysroot_path g1 = (if normpath s \<in> set (roots g0) then Some (normpath s) else None)"
    using set_roots_ok[OF roots(2)] by auto
  have "map_res parse_pkg rp = Inr (map (\<lambda>p. projr (parse_pkg p)) rp)"
    using p by (intro map_res_all) (auto simp: isOk_iff)
  moreover have "map_res (\<lambda>i. get_nodes h g1 [PInfo i] RootSysroot) ps =
      Inr (map (\<lambda>i. get_pkg_nodes h g1 i RootSysroot) ps)" for ps
    by (intro map_res_all) (simp add: get_nodes_def)
  moreover have "normpath s \<in> set (roots g0) \<longleftrightarrow> (\<exists>v \<in> reach h (set nodes). nroot (h ! v) = normpath s)"
    unfolding roots(1) image_iff by metis
  ultimately show ?thesis
    using g0(1) g1 by (simp add: DependencyGraph_def)
qed

section \<open>Queries\<close>

lemma graph_contains_node:
  assumes "heap_ok h" "graph_ok h g S" "v < length h"
  shows "graph_contains h g (ItemNode v) = Inr (v \<in> S)"
proof -
  have n: "recursion_limit = Suc 999" by (simp add: recursion_limit_def)
  have ne: "node_eq recursion_limit h w v = Inr (w = v)" if "w < length h" for w
    unfolding n by (rule node_eq_ok[OF assms(1) that assms(3)])
  have eq: "any_res (\<lambda>w. if w = v then Inr True else node_eq recursion_limit h w v) vs = Inr (\<exists>w \<in> set vs. w = v)"
    if "set vs \<subseteq> S" for vs
    using that graph_okD(1)[OF assms(2)] by (intro any_res_Inr) (auto simp: ne subset_iff)
  show ?thesis
    using graph_okD(4)[OF assms(2), of "node_atom h v"] eq
    by (cases "dict_get (atom_list g) (node_atom h v)") (auto simp: dict_or_def)
qed

lemma get_nodes_src_ok: "p \<noteq> [] \<Longrightarrow> get_nodes h g p t = Inr vs \<Longrightarrow> \<forall>q \<in> set p. isOk (parse_pkg q)"
  by (auto simp: get_nodes_named res_bind_Inr map_res_Inr list_all2_conv_all_nth in_set_conv_nth isOk_iff)

lemma sub_reach: "set ss \<subseteq> reach h S \<Longrightarrow> reach h (set ss) \<subseteq> reach h S"
  by (erule reach_least) (rule reach_step)

lemma few_roots:
  assumes "graph_ok h g S" "graph_ok h g' T" "T \<subseteq> S" "length (roots g) \<le> 2"
  shows "length (roots g') \<le> 2"
proof -
  have "set (roots g') \<subseteq> set (roots g)" using graph_okD(5)[OF assms(1)] graph_okD(5)[OF assms(2)] assms(3) by blast
  then have "card (set (roots g')) \<le> card (set (roots g))" by (intro card_mono) auto
  then show ?thesis
    using distinct_card[OF graph_okD(6)[OF assms(1)]] distinct_card[OF graph_okD(6)[OF assms(2)]] assms(4) by simp
qed

section \<open>Properties\<close>

text \<open>Two packages that depend on each other, one in the sysroot and one in the SDK.\<close>

definition example_heap :: heap where
  "example_heap =
    [\<lparr>npkg = \<lparr>category = Some ''a'', package = Some ''b'', pversion = Some ''1'', prevision = 0\<rparr>,
      nroot = ''/build/x'', ndeps = [1], nrevdeps = [1], npaths = []\<rparr>,
     \<lparr>npkg = \<lparr>category = Some ''c'', package = Some ''d'', pversion = Some ''2.1'', prevision = 3\<rparr>,
      nroot = ''/'', ndeps = [0], nrevdeps = [0], npaths = []\<rparr>]"

lemma example_heap_ok: "heap_ok example_heap"
  by code_simp

lemma example_length [simp]: "length example_heap = 2"
  by code_simp

lemma example_limit [simp]: "Suc (length example_heap) < recursion_limit"
  by (simp add: recursion_limit_def)

lemma example_deps: "ndeps (example_heap ! 0) = [1]" "ndeps (example_heap ! 1) = [0]"
  by code_simp+

lemma example_reach: "v < 2 \<Longrightarrow> reach example_heap {v} = {0, 1}"
proof
  assume v: "v < 2"
  then show "reach example_heap {v} \<subseteq> {0, 1}"
    using reach_range[OF example_heap_ok, of "{v}"] by auto
  have "v \<in> reach example_heap {v}" using reach_self by blast
  moreover have "v = 0 \<or> v = 1" using v by auto
  ultimately show "{0, 1} \<subseteq> reach example_heap {v}"
    using reach_step[of _ example_heap "{v}"] example_deps by fastforce
qed

lemma example_roots:
  "\<forall>v \<in> {0, 1}. nroot (example_heap ! v) \<in> {''/build/x'', ''/''}" "normpath ''/build/x'' = ''/build/x''"
  "nroot (example_heap ! 0) = ''/build/x''"
  by code_simp+

lemma example_graph:
  obtains g where "DependencyGraph example_heap [0] (Some ''/build/x'') [] = Inr g" "sysroot_path g = Some ''/build/x''"
  using DependencyGraph_returns[OF example_heap_ok example_limit, of "[0]" "''/build/x''" "[]"]
    example_roots example_reach[of 0] by auto

text \<open>
  Constructing the graph from nodes installed to the sysroot or to the SDK root always
  returns, and puts exactly the nodes reachable from the given ones in it: each is found under
  its package and root and in the list of its atom, and the length counts them.
\<close>

theorem graph_construction:
  assumes "heap_ok h" "Suc (length h) < recursion_limit" "set nodes \<subseteq> {..<length h}"
    and "\<forall>v \<in> reach h (set nodes). nroot (h ! v) \<in> {normpath s, ''/''}" "\<forall>p \<in> set rp. isOk (parse_pkg p)"
  shows "\<exists>g. DependencyGraph h nodes (Some s) rp = Inr g
    \<and> (\<forall>v < length h. lookup_node g (node_name h v) (nroot (h ! v)) = (if v \<in> reach h (set nodes) then Some v else None))
    \<and> (\<forall>a. set (dict_or (atom_list g) a []) = {v \<in> reach h (set nodes). node_atom h v = a})
    \<and> glen g = card (reach h (set nodes))"
proof -
  obtain g where g: "DependencyGraph h nodes (Some s) rp = Inr g" using DependencyGraph_returns[OF assms] by blast
  note ok = DependencyGraph_facts(1)[OF assms(1-3) g]
  show ?thesis using g lookup_ok[OF assms(1) ok] graph_okD(4,7)[OF ok] by blast
qed

theorem graph_construction_witness:
  "\<exists>g. DependencyGraph example_heap [0] (Some ''/build/x'') [] = Inr g \<and> glen g = 2"
proof -
  have "\<exists>g. DependencyGraph example_heap [0] (Some ''/build/x'') [] = Inr g
      \<and> glen g = card (reach example_heap (set [0]))"
    using graph_construction[OF example_heap_ok example_limit, of "[0]" "''/build/x''" "[]"]
      example_roots example_reach[of 0] by auto
  then show ?thesis using example_reach[of 0] by (simp add: numeral_2_eq_2)
qed

text \<open>
  C35. Iterating over a graph yields every node reachable from its root packages exactly once, and
  no other node, whatever cycles the dependencies have.
\<close>

theorem graph_iteration:
  assumes "heap_ok h" "Suc (length h) < recursion_limit" "set nodes \<subseteq> {..<length h}"
    and "DependencyGraph h nodes (Some s) rp = Inr g"
  shows "\<exists>vs. graph_iter h g = Inr vs \<and> distinct vs \<and> set vs = reach h (set (root_nodes g))"
proof -
  have "set (root_nodes g) \<subseteq> {..<length h}"
    using DependencyGraph_facts(1,2)[OF assms] graph_okD(1) by blast
  from bfs_ok[OF assms(1) _ this, of "[]"] show ?thesis by (auto simp: graph_iter_def)
qed

theorem graph_iteration_witness:
  "\<exists>g vs. DependencyGraph example_heap [0] (Some ''/build/x'') [] = Inr g \<and> graph_iter example_heap g = Inr vs \<and> distinct vs"
proof -
  obtain g where g: "DependencyGraph example_heap [0] (Some ''/build/x'') [] = Inr g" by (rule example_graph)
  from graph_iteration[OF example_heap_ok example_limit _ this] g show ?thesis by auto
qed

text \<open>The test for direct dependencies, on nodes of the heap.\<close>

definition direct_dependency :: "heap \<Rightarrow> ref list \<Rightarrow> ref list \<Rightarrow> bool res" where
  "direct_dependency h ds ss =
     any_res (\<lambda>d. any_res (\<lambda>v. any_res (\<lambda>w. if w = d then Inr True else node_eq recursion_limit h w d) (ndeps (h ! v))) ss) ds"

lemma direct_dependency_ok:
  assumes "heap_ok h" "set ds \<subseteq> {..<length h}" "set ss \<subseteq> {..<length h}"
  shows "direct_dependency h ds ss = Inr (\<exists>d \<in> set ds. \<exists>v \<in> set ss. d \<in> set (ndeps (h ! v)))"
proof -
  have n: "recursion_limit = Suc 999" by (simp add: recursion_limit_def)
  have one: "any_res (\<lambda>w. if w = d then Inr True else node_eq recursion_limit h w d) (ndeps (h ! v)) = Inr (d \<in> set (ndeps (h ! v)))"
    if "d < length h" "v < length h" for d v
  proof -
    have "any_res (\<lambda>w. if w = d then Inr True else node_eq recursion_limit h w d) (ndeps (h ! v)) = Inr (\<exists>w \<in> set (ndeps (h ! v)). w = d)"
      using that heap_okD(1)[OF assms(1) that(2)] by (intro any_res_Inr) (simp only: n node_eq_ok[OF assms(1)], simp)
    then show ?thesis by simp
  qed
  have "any_res (\<lambda>v. any_res (\<lambda>w. if w = d then Inr True else node_eq recursion_limit h w d) (ndeps (h ! v))) ss
      = Inr (\<exists>v \<in> set ss. d \<in> set (ndeps (h ! v)))" if "d < length h" for d
    using assms(3) one[OF that] by - (rule any_res_Inr, blast)
  then show ?thesis unfolding direct_dependency_def using assms(2) by - (rule any_res_Inr, blast)
qed

text \<open>
  In a graph that has packages in the SDK root only, \<open>is_dependency\<close> without \<open>direct\<close> raises
  \<open>TypeError\<close> for any two packages of the graph: the subgraph is built with a sysroot of \<open>None\<close>.
\<close>

theorem is_dependency_sdk_only_raises:
  assumes h: "heap_ok h" "Suc (length h) < recursion_limit" "set nodes \<subseteq> {..<length h}"
    and g: "DependencyGraph h nodes (Some s) rp = Inr g" "sysroot_path g = None"
    and q: "get_nodes h g [dep] dt = Inr ds" "get_nodes h g [src] st = Inr ss" "ds \<noteq> []" "ss \<noteq> []"
  shows "is_dependency h g dep src dt st False = Inl TypeError"
proof -
  note facts = DependencyGraph_facts[OF h g(1)]
  have ss: "set ss \<subseteq> reach h (set nodes)"
    using get_nodes_in[OF facts(1) list.distinct(2) q(2)] .
  then have "set ss \<subseteq> {..<length h}" using graph_okD(1)[OF facts(1)] by blast
  then obtain g0 where g0: "fold_res (add_node recursion_limit h) ss empty_graph = Inr g0"
      "graph_ok h g0 (reach h (set ss))"
    using build_ok[OF h(1) _ h(2)] by blast
  have "length (roots g0) \<le> 2" by (rule few_roots[OF facts(1) g0(2) sub_reach[OF ss] facts(4)])
  with q g(2) g0(1) show ?thesis by (simp add: is_dependency_def DependencyGraph_def)
qed

definition sdk_heap :: heap where
  "sdk_heap = [\<lparr>npkg = \<lparr>category = Some ''c'', package = Some ''d'', pversion = Some ''2'', prevision = 0\<rparr>,
      nroot = ''/'', ndeps = [], nrevdeps = [], npaths = []\<rparr>]"

theorem is_dependency_sdk_only_raises_witness:
  "\<exists>g. DependencyGraph sdk_heap [0] (Some ''/build/x'') [] = Inr g \<and>
     is_dependency sdk_heap g (PStr ''c/d'') (PStr ''c/d-2'') RootAll RootSdk False = Inl TypeError"
proof -
  have "case DependencyGraph sdk_heap [0] (Some ''/build/x'') [] of Inl _ \<Rightarrow> False
     | Inr g \<Rightarrow> sysroot_path g = None \<and> get_nodes sdk_heap g [PStr ''c/d''] RootAll = Inr [0]
         \<and> get_nodes sdk_heap g [PStr ''c/d-2''] RootSdk = Inr [0]"
    by code_simp
  then obtain g where g: "DependencyGraph sdk_heap [0] (Some ''/build/x'') [] = Inr g" "sysroot_path g = None"
      "get_nodes sdk_heap g [PStr ''c/d''] RootAll = Inr [0]" "get_nodes sdk_heap g [PStr ''c/d-2''] RootSdk = Inr [0]"
    by (auto split: sum.splits)
  have "heap_ok sdk_heap" "length sdk_heap = 1" by code_simp+
  then have "is_dependency sdk_heap g (PStr ''c/d'') (PStr ''c/d-2'') RootAll RootSdk False = Inl TypeError"
    by (intro is_dependency_sdk_only_raises[OF _ _ _ g]) (simp_all add: recursion_limit_def)
  with g(1) show ?thesis by blast
qed

text \<open>
  C16. \<open>is_dependency\<close> in a graph of fewer nodes than the recursion limit, one for a package and root, that was built with
  a normalised sysroot \<open>s\<close> and whose packages are installed to \<open>s\<close> or to the SDK root, for two arguments that parse, whose nodes under the two root filters are \<open>ds\<close> and \<open>ss\<close>.
  It is false when one of the two has no node. With \<open>direct\<close> it answers whether a node of the dependency is among
  the dependencies of a node of the source, without whether one can be reached from a node of the source by any
  number of steps - but when no package of the graph is installed to the sysroot it raises \<open>TypeError\<close>, because
  the subgraph is built with a sysroot of \<open>None\<close>.
\<close>

theorem is_dependency_reach:
  assumes h: "heap_ok h" "Suc (length h) < recursion_limit" "set nodes \<subseteq> {..<length h}"
    and r: "\<forall>v \<in> reach h (set nodes). nroot (h ! v) \<in> {s, ''/''}" "normpath s = s"
    and g: "DependencyGraph h nodes (Some s) rp = Inr g"
    and q: "get_nodes h g [dep] dt = Inr ds" "get_nodes h g [src] st = Inr ss"
  shows "is_dependency h g dep src dt st direct =
    (if ds = [] \<or> ss = [] then Inr False
     else if direct then Inr (\<exists>d \<in> set ds. \<exists>v \<in> set ss. d \<in> set (ndeps (h ! v)))
     else if sysroot_path g = None then Inl TypeError
     else Inr (\<exists>d \<in> set ds. d \<in> reach h (set ss)))"
proof -
  note facts = DependencyGraph_facts[OF h g]
  note range = graph_okD(1)[OF facts(1)]
  have ds: "set ds \<subseteq> reach h (set nodes)" and ss: "set ss \<subseteq> reach h (set nodes)"
    using get_nodes_in[OF facts(1) list.distinct(2)] q by blast+
  consider "ds = [] \<or> ss = []" | "ds \<noteq> []" "ss \<noteq> []" "direct" | "ds \<noteq> []" "ss \<noteq> []" "\<not> direct" "sysroot_path g = None"
    | "ds \<noteq> []" "ss \<noteq> []" "\<not> direct" "sysroot_path g \<noteq> None" by blast
  then show ?thesis
  proof cases
    case 1
    then show ?thesis using q by (simp add: is_dependency_def)
  next
    case 2
    have "direct_dependency h ds ss = Inr (\<exists>d \<in> set ds. \<exists>v \<in> set ss. d \<in> set (ndeps (h ! v)))"
      using ds ss range by (intro direct_dependency_ok[OF h(1)]) blast+
    with 2 q show ?thesis by (simp add: is_dependency_def direct_dependency_def)
  next
    case 3
    then show ?thesis using is_dependency_sdk_only_raises[OF h g _ q] by simp
  next
    case 4
    have p: "sysroot_path g = Some s" using facts(3) 4(4) r(2) by auto
    have sr: "\<forall>v \<in> reach h (set ss). nroot (h ! v) \<in> {normpath s, ''/''}" using sub_reach[OF ss] r by auto
    have rs: "set ss \<subseteq> {..<length h}" using ss range by blast
    obtain g' where g': "DependencyGraph h ss (Some s) [src] = Inr g'"
      using DependencyGraph_returns[OF h(1,2) rs sr get_nodes_src_ok[OF _ q(2)]] by auto
    have "any_res (\<lambda>d. graph_contains h g' (ItemNode d)) ds = Inr (\<exists>d \<in> set ds. d \<in> reach h (set ss))"
      using ds range graph_contains_node[OF h(1) DependencyGraph_facts(1)[OF h(1,2) rs g']]
      by (intro any_res_Inr) (auto simp: subset_iff)
    with q p g' 4 show ?thesis by (simp add: is_dependency_def)
  qed
qed

theorem is_dependency_reach_witness:
  "\<exists>g. DependencyGraph example_heap [0] (Some ''/build/x'') [] = Inr g \<and>
     is_dependency example_heap g (PStr ''c/d'') (PStr ''a/b'') RootAll RootAll False = Inr True"
proof -
  have "case DependencyGraph example_heap [0] (Some ''/build/x'') [] of Inl _ \<Rightarrow> False
     | Inr g \<Rightarrow> sysroot_path g = Some ''/build/x'' \<and> get_nodes example_heap g [PStr ''c/d''] RootAll = Inr [1]
         \<and> get_nodes example_heap g [PStr ''a/b''] RootAll = Inr [0]"
    by code_simp
  then obtain g where g: "DependencyGraph example_heap [0] (Some ''/build/x'') [] = Inr g"
      "get_nodes example_heap g [PStr ''c/d''] RootAll = Inr [1]" "get_nodes example_heap g [PStr ''a/b''] RootAll = Inr [0]"
      "sysroot_path g \<noteq> None"
    by (auto split: sum.splits)
  have "is_dependency example_heap g (PStr ''c/d'') (PStr ''a/b'') RootAll RootAll False =
      Inr (\<exists>d \<in> set [1]. d \<in> reach example_heap (set [0]))"
    using is_dependency_reach[OF example_heap_ok example_limit _ _ example_roots(2) g(1-3), where direct = False]
      example_reach[of 0] example_roots g(4) by simp
  with g(1) example_reach[of 0] show ?thesis by simp
qed

end
