(* ===== verification/UserDB.thy ===== *)
theory UserDB
  imports Store "HOL-Library.Multiset"
begin

text \<open>
  The user and group databases (\<open>lib/user_db.py\<close>). The two files and the two caches of a \<open>UserDB\<close>
  are the state. Both files are sequences of colon-separated lines, so what reading a written
  file gives is proved once, in a locale of line codecs, and interpreted for users and groups.
\<close>

section \<open>Files of entries, one per line\<close>

text \<open>
  The loop over a file's lines, for any format: lines that do not decode are ignored, and the first
  entry of a name wins.
\<close>

definition add_line :: "(string \<Rightarrow> 'r option) \<Rightarrow> ('r \<Rightarrow> string) \<Rightarrow> string \<Rightarrow> (string, 'r) dict \<Rightarrow> (string, 'r) dict" where
  "add_line dec key l d =
     (case dec l of None \<Rightarrow> d
      | Some r \<Rightarrow> if dict_get d (key r) = None then dict_set d (key r) r else d)"

definition read_entries :: "(string \<Rightarrow> 'r option) \<Rightarrow> ('r \<Rightarrow> string) \<Rightarrow> string \<Rightarrow> (string, 'r) dict" where
  "read_entries dec key s = fold (add_line dec key) (splitlines s) []"

definition write_entries :: "('r \<Rightarrow> string) \<Rightarrow> 'r list \<Rightarrow> string" where
  "write_entries enc rs = join [CHR 0x0A] (map enc rs)"

text \<open>
  The contract of an entry format: encoding an entry that is \<open>ok\<close> gives a line that decodes to
  it, and everything that decodes is \<open>ok\<close>.
\<close>

locale record_codec =
  fixes enc :: "'r \<Rightarrow> string" and dec :: "string \<Rightarrow> 'r option" and key :: "'r \<Rightarrow> string"
    and ok :: "'r \<Rightarrow> bool"
  assumes dec_enc: "ok r \<Longrightarrow> dec (enc r) = Some r"
    and enc_line: "ok r \<Longrightarrow> line_free (enc r) \<and> enc r \<noteq> []"
    and dec_ok: "line_free l \<Longrightarrow> dec l = Some r \<Longrightarrow> ok r"
begin

definition entries_ok :: "(string, 'r) dict \<Rightarrow> bool" where
  "entries_ok d \<longleftrightarrow> dict_ok d \<and> (\<forall>(k, r) \<in> set d. k = key r \<and> ok r)"

lemma entries_ok_set: "entries_ok d \<Longrightarrow> ok r \<Longrightarrow> entries_ok (dict_set d (key r) r)"
proof -
  have "set (dict_set d k v) \<subseteq> insert (k, v) (set d)" for k v
    by (induction d k v rule: dict_set.induct) auto
  then show "entries_ok d \<Longrightarrow> ok r \<Longrightarrow> entries_ok (dict_set d (key r) r)"
    unfolding entries_ok_def using dict_ok_set by fast
qed

lemma read_file_ok: "entries_ok (read_entries dec key s)"
proof -
  have "entries_ok (fold (add_line dec key) ls d)" if "\<forall>l \<in> set ls. line_free l" "entries_ok d" for ls d
    using that
    by (induction ls arbitrary: d)
      (auto simp: add_line_def dec_ok entries_ok_set split: option.splits)
  moreover have "\<forall>l \<in> set (splitlines s). line_free l" using splitlines_free by blast
  moreover have "entries_ok []" by (simp add: entries_ok_def dict_ok_def)
  ultimately show ?thesis unfolding read_entries_def by blast
qed

lemma fold_add_line:
  assumes "\<forall>r \<in> set rs. ok r" "distinct (map key rs)" "\<forall>r \<in> set rs. key r \<notin> set (dict_keys d)"
  shows "fold (add_line dec key) (map enc rs) d = d @ map (\<lambda>r. (key r, r)) rs"
  using assms
proof (induction rs arbitrary: d)
  case (Cons r rs)
  have none: "dict_get d (key r) = None" using Cons.prems by (simp add: dict_get_None)
  have "fold (add_line dec key) (map enc rs) (d @ [(key r, r)]) = (d @ [(key r, r)]) @ map (\<lambda>r. (key r, r)) rs"
  proof (rule Cons.IH)
    have "key r \<notin> key ` set rs" using Cons.prems(2) by simp
    then show "\<forall>r' \<in> set rs. key r' \<notin> set (dict_keys (d @ [(key r, r)]))"
      using Cons.prems(3) by (auto simp: dict_keys_def image_iff)
  qed (use Cons.prems in simp_all)
  moreover have "add_line dec key (enc r) d = d @ [(key r, r)]"
    using Cons.prems none by (simp add: add_line_def dec_enc dict_set_new dict_get_None)
  ultimately show ?case by simp
qed simp

text \<open>Reading a file of distinct entries gives them back, in order.\<close>

lemma read_write:
  assumes "\<forall>r \<in> set rs. ok r" "distinct (map key rs)"
  shows "read_entries dec key (write_entries enc rs) = map (\<lambda>r. (key r, r)) rs"
proof -
  have "splitlines (write_entries enc rs) = map enc rs"
    unfolding write_entries_def by (rule splitlines_join) (use assms(1) enc_line in auto)
  then show ?thesis using fold_add_line[OF assms, of "[]"] by (simp add: read_entries_def dict_keys_def)
qed

lemma entries_values:
  assumes "entries_ok d"
  shows "map key (map snd d) = map fst d" and "\<forall>r \<in> set (map snd d). ok r" "distinct (map key (map snd d))"
proof -
  show keys: "map key (map snd d) = map fst d" using assms by (induction d) (auto simp: entries_ok_def dict_ok_def)
  then show "distinct (map key (map snd d))" using assms by (simp only: entries_ok_def dict_ok_def)
  show "\<forall>r \<in> set (map snd d). ok r" using assms by (auto simp: entries_ok_def)
qed

lemma read_sorted:
  assumes "entries_ok d"
  shows "read_entries dec key (write_entries enc (sort_key f (map snd d))) =
    map (\<lambda>r. (key r, r)) (sort_key f (map snd d))" (is "_ = map _ ?rs")
    and "distinct (map key (sort_key f (map snd d)))"
proof -
  have "image_mset key (mset ?rs) = image_mset key (mset (map snd d))" by simp
  then show dist: "distinct (map key ?rs)"
    using entries_values(3)[OF assms] by (metis mset_eq_imp_distinct_iff mset_map)
  have "\<forall>r \<in> set ?rs. ok r" using entries_values(2)[OF assms] by simp
  from read_write[OF this dist] show "read_entries dec key (write_entries enc ?rs) = map (\<lambda>r. (key r, r)) ?rs" .
qed

lemma write_values_get:
  assumes "entries_ok d"
  shows "dict_get (read_entries dec key (write_entries enc (sort_key f (map snd d)))) k = dict_get d k"
proof -
  let ?rs = "sort_key f (map snd d)"
  have "set (map (\<lambda>r. (key r, r)) ?rs) = set d"
    using assms by (force simp: entries_ok_def)
  moreover have "distinct (map fst (map (\<lambda>r. (key r, r)) ?rs))"
    using read_sorted(2)[OF assms, of f] by (simp add: comp_def)
  moreover have "distinct (map fst d)" using assms by (simp add: entries_ok_def dict_ok_def)
  ultimately have "map_of (map (\<lambda>r. (key r, r)) ?rs) = map_of d" by (metis map_of_inject_set)
  then show ?thesis by (simp add: read_sorted(1)[OF assms] dict_get_def)
qed

end

section \<open>Users and groups\<close>

record user_rec =
  uname :: string
  upassword :: string
  uid :: int
  ugid :: int
  gecos :: string
  home :: string
  shell :: string

record group_rec =
  gname :: string
  gpassword :: string
  ggid :: int
  members :: "string list"

definition UserToEntry :: "user_rec \<Rightarrow> string" where
  "UserToEntry u =
     join '':'' [uname u, upassword u, str_of_int (uid u), str_of_int (ugid u), gecos u, home u, shell u]"

definition GroupToEntry :: "group_rec \<Rightarrow> string" where
  "GroupToEntry g = join '':'' [gname g, gpassword g, str_of_int (ggid g), join '','' (members g)]"

text \<open>One line of each file: the loop bodies of \<open>_users\<close> and \<open>_groups\<close>, before the test for a duplicate.\<close>

definition user_of_line :: "string \<Rightarrow> user_rec option" where
  "user_of_line l =
     (case split_on CHR '':'' l of
        [n, p, u, g, ge, h, sh] \<Rightarrow>
          (case (py_int u, py_int g) of
             (Inr ui, Inr gi) \<Rightarrow>
               Some \<lparr>uname = n, upassword = p, uid = ui, ugid = gi, gecos = ge, home = h, shell = sh\<rparr>
           | _ \<Rightarrow> None)
      | _ \<Rightarrow> None)"

definition group_of_line :: "string \<Rightarrow> group_rec option" where
  "group_of_line l =
     (case split_on CHR '':'' l of
        [n, p, g, us] \<Rightarrow>
          (case py_int g of
             Inr gi \<Rightarrow> Some \<lparr>gname = n, gpassword = p, ggid = gi, members = split_on CHR '','' us\<rparr>
           | _ \<Rightarrow> None)
      | _ \<Rightarrow> None)"

definition field_ok :: "string \<Rightarrow> bool" where
  "field_ok s \<longleftrightarrow> list_all (\<lambda>c. \<not> is_line_end c \<and> c \<noteq> CHR '':'') s"

definition user_ok :: "user_rec \<Rightarrow> bool" where
  "user_ok u \<longleftrightarrow> list_all field_ok [uname u, upassword u, gecos u, home u, shell u]"

definition group_ok :: "group_rec \<Rightarrow> bool" where
  "group_ok g \<longleftrightarrow> list_all field_ok [gname g, gpassword g] \<and> members g \<noteq> []
     \<and> list_all (\<lambda>m. field_ok m \<and> CHR '','' \<notin> set m) (members g)"

lemma field_ok_no_colon: "field_ok s \<Longrightarrow> CHR '':'' \<notin> set s"
  by (auto simp: field_ok_def list_all_iff)

lemma is_line_end_simps [simp]: "\<not> is_line_end CHR '':''" "\<not> is_line_end CHR '',''" "\<not> is_line_end CHR ''-''"
  by (simp_all add: is_line_end_def py_ord_def)

lemma field_ok_line: "field_ok s \<Longrightarrow> line_free s"
  by (auto simp: field_ok_def line_free_def list_all_iff)

lemma digit_not_line_end: "is_digit c \<Longrightarrow> \<not> is_line_end c"
  by (auto simp: is_digit_def is_line_end_def)

lemma field_ok_int [simp]: "field_ok (str_of_int i)"
  using str_of_nat_digits[of "nat i"] str_of_nat_digits[of "nat (- i)"]
  by (auto simp: field_ok_def str_of_int_def list_all_iff digit_not_line_end split: if_splits)

lemma field_ok_join:
  "list_all (\<lambda>m. field_ok m \<and> CHR '','' \<notin> set m) ms \<Longrightarrow> field_ok (join '','' ms)"
  by (induction "'',''" ms rule: join.induct) (auto simp: field_ok_def)

lemma split_fields:
  "list_all field_ok xs \<Longrightarrow> xs \<noteq> [] \<Longrightarrow> split_on CHR '':'' (join '':'' xs) = xs"
  by (rule split_on_join) (auto simp: list_all_iff field_ok_no_colon)

lemma line_fields: "list_all field_ok xs \<Longrightarrow> line_free (join '':'' xs)"
  by (induction "'':''" xs rule: join.induct) (auto simp: field_ok_line)

lemma fields_of_line: "line_free l \<Longrightarrow> split_on CHR '':'' l = xs \<Longrightarrow> list_all field_ok xs"
  using split_on_sep_free[of _ "CHR '':''" l] split_on_subset[of _ "CHR '':''" l]
  by (fastforce simp: list_all_iff field_ok_def line_free_def)

interpretation users: record_codec UserToEntry user_of_line uname user_ok
proof
  fix u assume "user_ok u"
  then have ok: "list_all field_ok [uname u, upassword u, str_of_int (uid u), str_of_int (ugid u), gecos u, home u, shell u]"
    by (simp add: user_ok_def)
  show "user_of_line (UserToEntry u) = Some u"
    using split_fields[OF ok] by (simp add: user_of_line_def UserToEntry_def)
  show "line_free (UserToEntry u) \<and> UserToEntry u \<noteq> []"
    using line_fields[OF ok] by (simp add: UserToEntry_def)
next
  fix l u assume "line_free l" "user_of_line l = Some u"
  then show "user_ok u"
    using fields_of_line[of l] by (auto simp: user_of_line_def user_ok_def split: list.splits sum.splits)
qed

interpretation groups: record_codec GroupToEntry group_of_line gname group_ok
proof
  fix g assume g: "group_ok g"
  then have ok: "list_all field_ok [gname g, gpassword g, str_of_int (ggid g), join '','' (members g)]"
    by (simp add: group_ok_def field_ok_join)
  have "split_on CHR '','' (join '','' (members g)) = members g"
    using g by (intro split_on_join) (auto simp: group_ok_def list_all_iff)
  then show "group_of_line (GroupToEntry g) = Some g"
    using split_fields[OF ok] by (simp add: group_of_line_def GroupToEntry_def)
  show "line_free (GroupToEntry g) \<and> GroupToEntry g \<noteq> []"
    using line_fields[OF ok] by (simp add: GroupToEntry_def)
next
  fix l g assume l: "line_free l" "group_of_line l = Some g"
  then obtain us where us: "members g = split_on CHR '','' us" "field_ok us" "list_all field_ok [gname g, gpassword g]"
    using fields_of_line[of l] by (auto simp: group_of_line_def split: list.splits sum.splits)
  have "field_ok m \<and> CHR '','' \<notin> set m" if "m \<in> set (members g)" for m
    using that us split_on_sep_free[of m "CHR '',''" us] split_on_subset[of m "CHR '',''" us]
    by (auto simp: field_ok_def list_all_iff)
  with us show "group_ok g" by (simp add: group_ok_def list_all_iff)
qed

section \<open>UserDB\<close>

record user_db =
  user_cache :: "(string, user_rec) dict option"
  group_cache :: "(string, group_rec) dict option"

text \<open>The contents of \<open>etc/passwd\<close> and \<open>etc/group\<close> in the sysroot.\<close>

record db_files =
  passwd_file :: string
  group_file :: string

definition new_user_db :: user_db where
  "new_user_db = \<lparr>user_cache = None, group_cache = None\<rparr>"

definition read_users :: "string \<Rightarrow> (string, user_rec) dict" where
  "read_users s = read_entries user_of_line uname s"

definition read_groups :: "string \<Rightarrow> (string, group_rec) dict" where
  "read_groups s = read_entries group_of_line gname s"

definition get_users :: "user_db \<Rightarrow> db_files \<Rightarrow> (string, user_rec) dict \<times> user_db" where
  "get_users db fs =
     (case user_cache db of
        Some d \<Rightarrow> (d, db)
      | None \<Rightarrow> (let d = read_users (passwd_file fs) in (d, db\<lparr>user_cache := Some d\<rparr>)))"

definition get_groups :: "user_db \<Rightarrow> db_files \<Rightarrow> (string, group_rec) dict \<times> user_db" where
  "get_groups db fs =
     (case group_cache db of
        Some d \<Rightarrow> (d, db)
      | None \<Rightarrow> (let d = read_groups (group_file fs) in (d, db\<lparr>group_cache := Some d\<rparr>)))"

definition GetUserEntry :: "user_db \<Rightarrow> db_files \<Rightarrow> string \<Rightarrow> bool \<Rightarrow> string res \<times> user_db" where
  "GetUserEntry db fs n skip_lock =
     (let (d, db') = get_users (if skip_lock then db else db\<lparr>user_cache := None\<rparr>) fs
      in (case dict_get d n of None \<Rightarrow> Inl KeyError | Some u \<Rightarrow> Inr (UserToEntry u), db'))"

definition GetGroupEntry :: "user_db \<Rightarrow> db_files \<Rightarrow> string \<Rightarrow> bool \<Rightarrow> string res \<times> user_db" where
  "GetGroupEntry db fs n skip_lock =
     (let (d, db') = get_groups (if skip_lock then db else db\<lparr>group_cache := None\<rparr>) fs
      in (case dict_get d n of None \<Rightarrow> Inl KeyError | Some g \<Rightarrow> Inr (GroupToEntry g), db'))"

definition UserExists :: "user_db \<Rightarrow> db_files \<Rightarrow> string \<Rightarrow> bool \<times> user_db" where
  "UserExists db fs n = (let (d, db') = get_users db fs in (dict_get d n \<noteq> None, db'))"

definition GroupExists :: "user_db \<Rightarrow> db_files \<Rightarrow> string \<Rightarrow> bool \<times> user_db" where
  "GroupExists db fs n = (let (d, db') = get_groups db fs in (dict_get d n \<noteq> None, db'))"

definition ResolveUsername :: "user_db \<Rightarrow> db_files \<Rightarrow> string \<Rightarrow> int res \<times> user_db" where
  "ResolveUsername db fs n =
     (let (d, db') = get_users db fs
      in (case dict_get d n of None \<Rightarrow> Inl ValueError | Some u \<Rightarrow> Inr (uid u), db'))"

definition ResolveGroupname :: "user_db \<Rightarrow> db_files \<Rightarrow> string \<Rightarrow> int res \<times> user_db" where
  "ResolveGroupname db fs n =
     (let (d, db') = get_groups db fs
      in (case dict_get d n of None \<Rightarrow> Inl ValueError | Some g \<Rightarrow> Inr (ggid g), db'))"

text \<open>
  \<open>AddUser\<close> and \<open>AddGroup\<close>: the first argument of type \<^typ>\<open>db_files\<close> is what is read before the lock is taken,
  the second what is there once it is held, another process having run in between or not. The
  result is the new state and the contents written, if any.
\<close>

definition AddUser :: "user_db \<Rightarrow> db_files \<Rightarrow> db_files \<Rightarrow> user_rec \<Rightarrow> user_db \<times> string option" where
  "AddUser db before locked u =
     (let (present, db1) = UserExists db before (uname u)
      in if present then (db1, None)
         else (let (present, db2) = UserExists (db1\<lparr>user_cache := None\<rparr>) locked (uname u)
               in if present then (db2, None)
                  else (let (d, db3) = get_users db2 locked;
                            d' = dict_set d (uname u) u
                        in (db3\<lparr>user_cache := Some d'\<rparr>,
                            Some (write_entries UserToEntry (sort_key uid (map snd d')))))))"

definition AddGroup :: "user_db \<Rightarrow> db_files \<Rightarrow> db_files \<Rightarrow> group_rec \<Rightarrow> user_db \<times> string option" where
  "AddGroup db before locked g =
     (let (present, db1) = GroupExists db before (gname g)
      in if present then (db1, None)
         else (let (present, db2) = GroupExists (db1\<lparr>group_cache := None\<rparr>) locked (gname g)
               in if present then (db2, None)
                  else (let (d, db3) = get_groups db2 locked;
                            d' = dict_set d (gname g) g
                        in (db3\<lparr>group_cache := Some d'\<rparr>,
                            Some (write_entries GroupToEntry (sort_key ggid (map snd d')))))))"

definition file_after :: "string \<Rightarrow> string option \<Rightarrow> string" where
  "file_after old w = (case w of None \<Rightarrow> old | Some s \<Rightarrow> s)"

section \<open>Properties\<close>

text \<open>
  C17. Adding a user, whatever the file holds once it is locked: a user of that name that is there
  is kept and nothing is written; otherwise the file written is sorted by uid and, read again,
  has the new user and every entry the old file had. The cache agrees with the file.
\<close>

theorem add_user_correct:
  assumes "user_ok u" "\<not> fst (UserExists db before (uname u))" "AddUser db before locked u = (db', w)"
  shows "(w = None \<longleftrightarrow> dict_get (read_users (passwd_file locked)) (uname u) \<noteq> None)
    \<and> (\<forall>n. dict_get (read_users (file_after (passwd_file locked) w)) n =
          (if n = uname u \<and> w \<noteq> None then Some u else dict_get (read_users (passwd_file locked)) n))
    \<and> (w \<noteq> None \<longrightarrow> sorted (map uid (map snd (read_users (file_after (passwd_file locked) w)))))
    \<and> (\<exists>d. user_cache db' = Some d \<and> dict_get d = dict_get (read_users (file_after (passwd_file locked) w)))"
proof -
  let ?d = "read_users (passwd_file locked)"
  have ok: "users.entries_ok ?d" by (simp add: read_users_def users.read_file_ok)
  show ?thesis
  proof (cases "dict_get ?d (uname u)")
    case (Some r)
    then show ?thesis
      using assms by (auto simp: AddUser_def UserExists_def get_users_def Let_def file_after_def split: prod.splits option.splits)
  next
    case None
    let ?d' = "dict_set ?d (uname u) u"
    let ?rs = "sort_key uid (map snd ?d')"
    have ok': "users.entries_ok ?d'" by (rule users.entries_ok_set[OF ok assms(1)])
    have w: "w = Some (write_entries UserToEntry ?rs)" "user_cache db' = Some ?d'"
      using assms None by (auto simp: AddUser_def UserExists_def get_users_def Let_def split: prod.splits option.splits)
    have get: "dict_get (read_users (write_entries UserToEntry ?rs)) n = dict_get ?d' n" for n
      using users.write_values_get[OF ok', of uid n] by (simp only: read_users_def)
    have "map snd (read_users (write_entries UserToEntry ?rs)) = ?rs"
      using users.read_sorted[OF ok', of uid] by (simp add: read_users_def comp_def)
    then have "sorted (map uid (map snd (read_users (write_entries UserToEntry ?rs))))"
      by (simp only: sorted_sort_key)
    then show ?thesis
      using w get None by (auto simp: file_after_def dict_get_set)
  qed
qed

theorem add_user_correct_witness:
  "dict_get (read_users (file_after [] (snd (AddUser new_user_db
      \<lparr>passwd_file = [], group_file = []\<rparr> \<lparr>passwd_file = [], group_file = []\<rparr>
      \<lparr>uname = ''chronos'', upassword = ''x'', uid = 1000, ugid = 1000, gecos = ''system user'', home = ''/home/chronos'', shell = ''/bin/bash''\<rparr>)))) ''chronos''
   = Some \<lparr>uname = ''chronos'', upassword = ''x'', uid = 1000, ugid = 1000, gecos = ''system user'', home = ''/home/chronos'', shell = ''/bin/bash''\<rparr>"
  (is "dict_get (read_users (file_after [] (snd (AddUser ?db ?f ?f ?u)))) _ = _")
proof -
  have "user_ok ?u" "\<not> fst (UserExists ?db ?f (uname ?u))" by code_simp+
  moreover have "dict_get (read_users []) ''chronos'' = None" by code_simp
  ultimately show ?thesis using add_user_correct[OF _ _ prod.collapse[symmetric], of ?u ?db ?f ?f] by simp
qed

text \<open>
  Once \<open>AddGroup\<close> has returned, a fresh \<open>UserDB\<close> resolves the group from the file: to the gid that
  was added, or to the gid the locked file already had for the name. No other group's entry
  changes.
\<close>

theorem add_group_resolves:
  assumes "group_ok g" "\<not> fst (GroupExists db before (gname g))" "AddGroup db before locked g = (db', w)"
    and "after = locked\<lparr>group_file := file_after (group_file locked) w\<rparr>"
  shows "fst (ResolveGroupname new_user_db after (gname g)) =
      (case dict_get (read_groups (group_file locked)) (gname g) of None \<Rightarrow> Inr (ggid g) | Some h \<Rightarrow> Inr (ggid h))
    \<and> (\<forall>n. n \<noteq> gname g \<longrightarrow> fst (GetGroupEntry new_user_db after n b) = fst (GetGroupEntry new_user_db locked n b))"
proof -
  let ?d = "read_groups (group_file locked)"
  have ok: "groups.entries_ok ?d" by (simp add: read_groups_def groups.read_file_ok)
  have "dict_get (read_groups (group_file after)) n =
      (if n = gname g \<and> dict_get ?d n = None then Some g else dict_get ?d n)" for n
  proof (cases "dict_get ?d (gname g)")
    case (Some r)
    then show ?thesis
      using assms by (auto simp: AddGroup_def GroupExists_def get_groups_def Let_def file_after_def split: prod.splits option.splits)
  next
    case None
    let ?d' = "dict_set ?d (gname g) g"
    have w: "w = Some (write_entries GroupToEntry (sort_key ggid (map snd ?d')))"
      using assms None by (auto simp: AddGroup_def GroupExists_def get_groups_def Let_def split: prod.splits option.splits)
    have "dict_get (read_groups (write_entries GroupToEntry (sort_key ggid (map snd ?d')))) n = dict_get ?d' n"
      using groups.write_values_get[OF groups.entries_ok_set[OF ok assms(1)], of ggid n] by (simp only: read_groups_def)
    then show ?thesis using w None assms(4) by (simp add: file_after_def dict_get_set)
  qed
  then show ?thesis
    by (auto simp: ResolveGroupname_def GetGroupEntry_def get_groups_def new_user_db_def Let_def split: option.splits)
qed

theorem add_group_resolves_witness:
  "fst (ResolveGroupname new_user_db \<lparr>passwd_file = [], group_file =
       file_after ''video:x:27:'' (snd (AddGroup new_user_db \<lparr>passwd_file = [], group_file = ''video:x:27:''\<rparr>
         \<lparr>passwd_file = [], group_file = ''video:x:27:''\<rparr> \<lparr>gname = ''cras'', gpassword = ''x'', ggid = 220, members = [''a'', ''b'']\<rparr>))\<rparr> ''cras'')
   = Inr 220"
  (is "fst (ResolveGroupname _ ?after _) = _")
proof -
  let ?g = "\<lparr>gname = ''cras'', gpassword = ''x'', ggid = 220, members = [''a'', ''b'']\<rparr>"
  let ?f = "\<lparr>passwd_file = [], group_file = ''video:x:27:''\<rparr>"
  have ok: "group_ok ?g" "\<not> fst (GroupExists new_user_db ?f (gname ?g))"
    and "dict_get (read_groups ''video:x:27:'') ''cras'' = None" by code_simp+
  then show ?thesis
    using add_group_resolves[OF ok prod.collapse[symmetric], of ?after ?f] by simp
qed

end
