(* ===== verification/Table.thy ===== *)
theory Table
  imports Store "HOL-Library.Multiset"
begin

text \<open>
  Spreadsheet-like tables (\<open>lib/table.py\<close>) and the table of package upgrades
  (\<open>lib/upgrade_table.py\<close>): rows as dictionaries, insertion of rows and columns, merging of tables
  by identifying columns, and the CSV form. Rows are values here: that a row appended by
  \<open>MergeTable\<close> is the very dict of the other table is not modelled, nor is the table an exception
  leaves half changed.
\<close>

type_synonym row = "(string, string) dict"

record table =
  columns :: "string list"
  column_set :: "string list"
  tname :: "string option"
  trows :: "row list"

definition EMPTY_CELL :: string where
  "EMPTY_CELL = []"

definition new_table :: "string list \<Rightarrow> string option \<Rightarrow> table" where
  "new_table cols n = \<lparr>columns = cols, column_set = remdups cols, tname = n, trows = []\<rparr>"

section \<open>Reading\<close>

definition table_eq :: "table \<Rightarrow> table \<Rightarrow> bool" where
  "table_eq t u \<longleftrightarrow> columns t = columns u \<and>
     list_all2 (\<lambda>r s. set (dict_keys r) = set (dict_keys s) \<and> list_all (\<lambda>k. dict_get r k = dict_get s k) (dict_keys r))
       (trows t) (trows u)"

definition GetNumRows :: "table \<Rightarrow> int" where
  "GetNumRows t = int (length (trows t))"

definition GetNumColumns :: "table \<Rightarrow> int" where
  "GetNumColumns t = int (length (columns t))"

definition GetRowByIndex :: "table \<Rightarrow> int \<Rightarrow> row res" where
  "GetRowByIndex t i = py_nth (trows t) i"

definition row_matches :: "(string \<times> string) list \<Rightarrow> row \<Rightarrow> bool" where
  "row_matches ids r \<longleftrightarrow> list_all (\<lambda>(k, v). dict_get r k = Some v) ids"

definition GetRowsByValue :: "table \<Rightarrow> (string \<times> string) list \<Rightarrow> row list" where
  "GetRowsByValue t ids = filter (row_matches ids) (trows t)"

definition GetRowIndicesByValue :: "table \<Rightarrow> (string \<times> string) list \<Rightarrow> nat list" where
  "GetRowIndicesByValue t ids = filter (\<lambda>i. row_matches ids (trows t ! i)) [0..<length (trows t)]"

definition HasColumn :: "table \<Rightarrow> string \<Rightarrow> bool" where
  "HasColumn t n \<longleftrightarrow> n \<in> set (column_set t)"

fun column_index :: "int \<Rightarrow> string \<Rightarrow> string list \<Rightarrow> int" where
  "column_index i n [] = -1"
| "column_index i n (c # cs) = (if n = c then i else column_index (i + 1) n cs)"

definition GetColumnIndex :: "table \<Rightarrow> string \<Rightarrow> int" where
  "GetColumnIndex t n = column_index 0 n (columns t)"

definition GetColumnByIndex :: "table \<Rightarrow> int \<Rightarrow> string res" where
  "GetColumnByIndex t i = py_nth (columns t) i"

section \<open>Writing\<close>

datatype row_values = RowDict row | RowList "string list"

fun fill_columns :: "string list \<Rightarrow> row \<Rightarrow> row" where
  "fill_columns [] r = r"
| "fill_columns (c # cs) r = fill_columns cs (if dict_get r c = None then dict_set r c EMPTY_CELL else r)"

fun PrepareValuesForAdd :: "table \<Rightarrow> row_values \<Rightarrow> row res" where
  "PrepareValuesForAdd t (RowDict r) =
     (if list_all (HasColumn t) (dict_keys r) then Inr (fill_columns (columns t) r) else Inl LookupError)"
| "PrepareValuesForAdd t (RowList vs) =
     (if length vs > length (columns t) then Inl LookupError
      else Inr (dict_update [] (zip (columns t) (vs @ replicate (length (columns t) - length vs) EMPTY_CELL))))"

definition AppendRow :: "table \<Rightarrow> row_values \<Rightarrow> table res" where
  "AppendRow t v = res_bind (PrepareValuesForAdd t v) (\<lambda>r. Inr (t\<lparr>trows := trows t @ [r]\<rparr>))"

definition row_index :: "table \<Rightarrow> int \<Rightarrow> nat res" where
  "row_index t i =
     (let j = (if i < 0 then i + int (length (trows t)) else i)
      in if 0 \<le> j \<and> j < int (length (trows t)) then Inr (nat j) else Inl IndexError)"

definition SetRowByIndex :: "table \<Rightarrow> int \<Rightarrow> row_values \<Rightarrow> table res" where
  "SetRowByIndex t i v =
     res_bind (PrepareValuesForAdd t v) (\<lambda>r. res_bind (row_index t i) (\<lambda>k. Inr (t\<lparr>trows := (trows t)[k := r]\<rparr>)))"

definition RemoveRowByIndex :: "table \<Rightarrow> int \<Rightarrow> table res" where
  "RemoveRowByIndex t i =
     res_bind (row_index t i) (\<lambda>k. Inr (t\<lparr>trows := take k (trows t) @ drop (Suc k) (trows t)\<rparr>))"

definition Clear :: "table \<Rightarrow> table" where
  "Clear t = t\<lparr>trows := []\<rparr>"

text \<open>\<open>list.insert\<close> clips its index.\<close>

definition InsertColumn :: "table \<Rightarrow> int \<Rightarrow> string \<Rightarrow> string option \<Rightarrow> table res" where
  "InsertColumn t i n v =
     (if HasColumn t n then Inl LookupError
      else (let k = clip (columns t) i
            in Inr (t\<lparr>columns := take k (columns t) @ n # drop k (columns t), column_set := n # column_set t,
                      trows := map (\<lambda>r. dict_set r n (case v of None \<Rightarrow> EMPTY_CELL | Some w \<Rightarrow> w)) (trows t)\<rparr>)))"

definition AppendColumn :: "table \<Rightarrow> string \<Rightarrow> string option \<Rightarrow> table res" where
  "AppendColumn t n v = InsertColumn t (GetNumColumns t) n v"

text \<open>\<open>list.sort\<close> is stable, also with \<open>reverse=True\<close>, which keeps the order of equal keys.\<close>

definition Sort :: "table \<Rightarrow> (row \<Rightarrow> 'k::linorder) \<Rightarrow> bool \<Rightarrow> table" where
  "Sort t key rv =
     t\<lparr>trows := (if rv then rev (sort_key key (rev (trows t))) else sort_key key (trows t))\<rparr>"

section \<open>Merging\<close>

datatype merge_rule = RuleText string | RuleFun "string \<Rightarrow> string \<Rightarrow> string \<Rightarrow> string res"

type_synonym merge_rules = "(string, merge_rule) dict"

definition rule_set :: "merge_rule option \<Rightarrow> merge_rule option" where
  "rule_set r = (case r of Some (RuleText []) \<Rightarrow> None | _ \<Rightarrow> r)"

text \<open>\<open>re.match(r'join_with:(.+)$', rule)\<close>; the \<open>$\<close> also matches before a final newline.\<close>

definition join_text :: "string \<Rightarrow> string option" where
  "join_text s =
     (if startswith s ''join_with:''
      then (let t = drop 10 s;
                u = (if endswith t [CHR 0x0A] then butlast t else t)
            in if u \<noteq> [] \<and> CHR 0x0A \<notin> set u then Some u else None)
      else None)"

definition MergeColValue :: "string \<Rightarrow> string \<Rightarrow> string \<Rightarrow> merge_rule option \<Rightarrow> string res" where
  "MergeColValue col val other rule =
     (if val = other then Inr val
      else (case rule_set rule of
              None \<Rightarrow> Inl ValueError
            | Some (RuleFun f) \<Rightarrow> f col val other
            | Some (RuleText s) \<Rightarrow>
                if s = ''accept_this_val'' then Inr val
                else if s = ''accept_other_val'' then Inr other
                else (case join_text s of
                        None \<Rightarrow> Inl ValueError
                      | Some j \<Rightarrow> Inr (join j (filter (\<lambda>v. v \<noteq> []) [val, other])))))"

definition find_rule :: "merge_rules \<Rightarrow> string \<Rightarrow> merge_rule option" where
  "find_rule rules col =
     (case rule_set (dict_get rules col) of None \<Rightarrow> dict_get rules ''__DEFAULT__'' | Some r \<Rightarrow> Some r)"

fun merge_cols :: "merge_rules \<Rightarrow> (string \<times> string) list \<Rightarrow> row \<Rightarrow> row res" where
  "merge_cols rules [] r = Inr r"
| "merge_cols rules ((c, other) # cs) r =
     (case dict_get r c of
        None \<Rightarrow> Inl LookupError
      | Some v \<Rightarrow>
          (case MergeColValue c v other (find_rule rules c) of
             Inl e \<Rightarrow> Inl e
           | Inr w \<Rightarrow> merge_cols rules cs (if w \<noteq> v then dict_set r c w else r)))"

definition GetIdValuesForRow :: "row \<Rightarrow> string list \<Rightarrow> (string \<times> string) list res" where
  "GetIdValuesForRow r cols =
     map_res (\<lambda>c. case dict_get r c of None \<Rightarrow> Inl KeyError | Some v \<Rightarrow> Inr (c, v)) cols"

definition MergeRow :: "table \<Rightarrow> row \<Rightarrow> string list \<Rightarrow> merge_rules \<Rightarrow> table res" where
  "MergeRow t other ids rules =
     res_bind (GetIdValuesForRow other ids) (\<lambda>iv.
       case GetRowIndicesByValue t iv of
         [] \<Rightarrow> AppendRow t (RowDict other)
       | i # _ \<Rightarrow>
           res_bind (merge_cols rules other (trows t ! i)) (\<lambda>r. SetRowByIndex t (int i) (RowDict r)))"

fun new_columns :: "string option \<Rightarrow> string list \<Rightarrow> table \<times> merge_rules \<Rightarrow> (table \<times> merge_rules) res" where
  "new_columns prev [] s = Inr s"
| "new_columns prev (c # cs) (t, rules) =
     (if HasColumn t c then new_columns (Some c) cs (t, rules)
      else (case InsertColumn t (case prev of None \<Rightarrow> 0 | Some p \<Rightarrow> GetColumnIndex t p + 1) c None of
              Inl e \<Rightarrow> Inl e
            | Inr t' \<Rightarrow> new_columns (Some c) cs (t', dict_set rules c (RuleText ''accept_other_val''))))"

definition merged_name :: "string option \<Rightarrow> string option \<Rightarrow> string option \<Rightarrow> string option" where
  "merged_name mine other new =
     (case new of Some (c # n) \<Rightarrow> Some (c # n)
      | _ \<Rightarrow> (case (mine, other) of
                (Some (c # m), Some (d # o')) \<Rightarrow> Some ((c # m) @ '' + '' @ d # o') | _ \<Rightarrow> mine))"

definition MergeTable ::
    "table \<Rightarrow> table \<Rightarrow> string list \<Rightarrow> merge_rules \<Rightarrow> bool \<Rightarrow> ((row \<Rightarrow> string) \<times> bool) option \<Rightarrow> string option \<Rightarrow> table res" where
  "MergeTable t other ids rules allow_new key new_name =
     res_bind (if allow_new then new_columns None (columns other) (t, rules) else Inr (t, rules)) (\<lambda>(t1, rules1).
     res_bind (fold_res (\<lambda>r u. MergeRow u r ids rules1) (trows other) t1) (\<lambda>t2.
       let t3 = (case key of None \<Rightarrow> t2 | Some (k, rv) \<Rightarrow> Sort t2 k rv)
       in Inr (t3\<lparr>tname := merged_name (tname t3) (tname other) new_name\<rparr>)))"

definition dict_or_empty :: "row \<Rightarrow> string \<Rightarrow> string" where
  "dict_or_empty r c = (case dict_get r c of None \<Rightarrow> EMPTY_CELL | Some v \<Rightarrow> v)"

section \<open>CSV\<close>

definition CSV_BQ :: string where
  "CSV_BQ = ''__BEGINQUOTE__''"

definition CSV_EQ :: string where
  "CSV_EQ = ''__ENDQUOTE__''"

text \<open>\<open>re.split(r'(?<!\\),', line)\<close>: the commas that no backslash precedes.\<close>

fun split_unescaped :: "char option \<Rightarrow> string \<Rightarrow> string list" where
  "split_unescaped prev [] = [[]]"
| "split_unescaped prev (c # s) =
     (if c = CHR '','' \<and> prev \<noteq> Some (CHR 0x5C) then [] # split_unescaped (Some c) s
      else (case split_unescaped (Some c) s of [] \<Rightarrow> [[c]] | v # vs \<Rightarrow> (c # v) # vs))"

definition mark_quotes :: "string \<Rightarrow> string" where
  "mark_quotes val =
     (let v = (if hd val = CHR 0x22 then CSV_BQ @ tl val else val)
      in if last v = CHR 0x22
            \<and> (v ! (length v - 2) \<noteq> CHR 0x22 \<or> v ! (length v - 3) = CHR 0x22)
         then butlast v @ CSV_EQ else v)"

definition unescape :: "string \<Rightarrow> string" where
  "unescape v = replace_all [CHR 0x22, CHR 0x22] [CHR 0x22] (replace_all [CHR 0x5C, CHR '',''] '','' v)"

definition strip_quotes :: "string \<Rightarrow> string" where
  "strip_quotes v = py_slice v (Some (int (length CSV_BQ))) (Some (- int (length CSV_EQ)))"

text \<open>One iteration of the loop over the values of a line.\<close>

definition csv_step :: "string list \<Rightarrow> string \<Rightarrow> string list" where
  "csv_step vals val =
     (if val = [] then vals @ [val]
      else (let v = unescape (mark_quotes val)
            in if vals \<noteq> [] \<and> last vals \<noteq> [] \<and> startswith (last vals) CSV_BQ
               then (let w = last vals @ '','' @ v
                     in butlast vals @ [if endswith w CSV_EQ then strip_quotes w else w])
               else if endswith v CSV_EQ then vals @ [strip_quotes v] else vals @ [v]))"

definition SplitCSVLine :: "string \<Rightarrow> string list" where
  "SplitCSVLine line =
     map (replace_all CSV_BQ [CHR 0x22]) (foldl csv_step [] (split_unescaped None line))"

fun load_rows :: "string list \<Rightarrow> table \<Rightarrow> table res" where
  "load_rows [] t = Inr t"
| "load_rows (l # ls) t = res_bind (AppendRow t (RowList (SplitCSVLine l))) (load_rows ls)"

definition LoadFromCSV :: "string \<Rightarrow> string option \<Rightarrow> table option res" where
  "LoadFromCSV contents n =
     (case file_lines contents of
        [] \<Rightarrow> Inr None
      | h # ls \<Rightarrow> res_bind (load_rows ls (new_table (SplitCSVLine h) n)) (\<lambda>t. Inr (Some t)))"

definition WriteCSV :: "table \<Rightarrow> string list \<Rightarrow> string" where
  "WriteCSV t hidden =
     (let cols = filter (\<lambda>c. c \<notin> set hidden) (columns t)
      in join '','' cols @ [CHR 0x0A]
         @ concat (map (\<lambda>r. join '','' (map (\<lambda>c. dict_or_empty r c) cols) @ [CHR 0x0A]) (trows t)))"

section \<open>The invariant\<close>

definition row_ok :: "string list \<Rightarrow> row \<Rightarrow> bool" where
  "row_ok cols r \<longleftrightarrow> dict_ok r \<and> set (dict_keys r) = set cols"

definition table_ok :: "table \<Rightarrow> bool" where
  "table_ok t \<longleftrightarrow> distinct (columns t) \<and> set (column_set t) = set (columns t) \<and> list_all (row_ok (columns t)) (trows t)"

lemma fill_columns_ok:
  "dict_ok r \<Longrightarrow> dict_ok (fill_columns cs r) \<and> set (dict_keys (fill_columns cs r)) = set (dict_keys r) \<union> set cs"
  by (induction cs r rule: fill_columns.induct) (auto simp: dict_ok_set dict_set_keys dict_get_None)

lemma fill_columns_get:
  "dict_get (fill_columns cs r) c = (case dict_get r c of Some v \<Rightarrow> Some v | None \<Rightarrow> if c \<in> set cs then Some EMPTY_CELL else None)"
  by (induction cs r rule: fill_columns.induct) (auto simp: dict_get_set split: option.splits)

definition values_ok :: "row_values \<Rightarrow> bool" where
  "values_ok v = (case v of RowDict r \<Rightarrow> dict_ok r | RowList _ \<Rightarrow> True)"

lemma dict_update_keys: "set (dict_keys (dict_update d e)) = set (dict_keys d) \<union> set (dict_keys e)"
  unfolding dict_update_def
  by (induction e arbitrary: d) (auto simp: dict_set_keys)

lemma zip_keys [simp]: "length cs = length vs \<Longrightarrow> dict_keys (zip cs vs) = cs"
  by (simp add: dict_keys_def)

lemma PrepareValuesForAdd_ok:
  assumes "table_ok t" "values_ok v" "PrepareValuesForAdd t v = Inr r"
  shows "row_ok (columns t) r"
proof (cases v)
  case (RowDict d)
  then show ?thesis
    using assms fill_columns_ok[of d "columns t"]
    by (auto simp: row_ok_def values_ok_def table_ok_def HasColumn_def list_all_iff split: if_splits)
next
  case (RowList vs)
  then show ?thesis
    using assms dict_ok_update[of "[]"]
    by (auto simp: row_ok_def dict_update_keys split: if_splits)
qed

lemma AppendRow_ok: "table_ok t \<Longrightarrow> values_ok v \<Longrightarrow> AppendRow t v = Inr u \<Longrightarrow> table_ok u"
  using PrepareValuesForAdd_ok[of t v] by (auto simp: AppendRow_def res_bind_Inr table_ok_def)

lemma SetRowByIndex_ok: "table_ok t \<Longrightarrow> values_ok v \<Longrightarrow> SetRowByIndex t i v = Inr u \<Longrightarrow> table_ok u"
  using PrepareValuesForAdd_ok[of t v]
  by (auto simp: SetRowByIndex_def res_bind_Inr table_ok_def list_all_iff dest!: set_update_subset_insert[THEN subsetD])

lemma RemoveRowByIndex_ok: "table_ok t \<Longrightarrow> RemoveRowByIndex t i = Inr u \<Longrightarrow> table_ok u"
  using set_take_subset set_drop_subset
  by (fastforce simp: RemoveRowByIndex_def res_bind_Inr table_ok_def list_all_iff)

lemma InsertColumn_ok: "table_ok t \<Longrightarrow> InsertColumn t i n v = Inr u \<Longrightarrow> table_ok u"
proof -
  assume t: "table_ok t" and u: "InsertColumn t i n v = Inr u"
  then have n: "n \<notin> set (columns t)" and u: "u = t\<lparr>columns := take (clip (columns t) i) (columns t) @ n # drop (clip (columns t) i) (columns t),
      column_set := n # column_set t,
      trows := map (\<lambda>r. dict_set r n (case v of None \<Rightarrow> EMPTY_CELL | Some w \<Rightarrow> w)) (trows t)\<rparr>"
    by (auto simp: InsertColumn_def HasColumn_def table_ok_def Let_def split: if_splits)
  have c: "set (take k xs @ n # drop k xs) = insert n (set xs)" for k and xs :: "string list"
    by (metis append_take_drop_id list.simps(15) set_append Un_insert_right)
  have d: "distinct (take k xs @ n # drop k xs) = (distinct xs \<and> n \<notin> set xs)" for k and xs :: "string list"
    by (metis append_take_drop_id distinct.simps(2) distinct_append list.simps(15) set_append
        Un_iff disjoint_insert(1))
  show ?thesis
    using t n unfolding u table_ok_def row_ok_def
    by (simp add: c d list_all_iff dict_ok_set dict_set_keys del: set_append distinct_append)
qed

lemma Sort_ok: "table_ok t \<Longrightarrow> table_ok (Sort t key rv)"
  by (auto simp: Sort_def table_ok_def list_all_iff)

lemma merge_cols_keys: "dict_ok r \<Longrightarrow> merge_cols rules cs r = Inr s \<Longrightarrow> dict_ok s \<and> set (dict_keys s) = set (dict_keys r)"
proof (induction rules cs r rule: merge_cols.induct)
  case (2 rules c other cs r)
  then obtain v w where v: "dict_get r c = Some v" "MergeColValue c v other (find_rule rules c) = Inr w"
      "merge_cols rules cs (if w \<noteq> v then dict_set r c w else r) = Inr s"
    by (auto split: option.splits sum.splits)
  have "c \<in> set (dict_keys r)" using v(1) dict_get_None[of r c] by auto
  with 2(1)[OF v(1,2) _ v(3)] 2(2) show ?case by (auto simp: dict_ok_set dict_set_keys split: if_splits)
qed simp

lemma MergeRow_ok:
  assumes "table_ok t" "dict_ok r" "MergeRow t r ids rules = Inr u"
  shows "table_ok u \<and> columns u = columns t"
proof -
  from assms(3) obtain iv where iv: "(case GetRowIndicesByValue t iv of
      [] \<Rightarrow> AppendRow t (RowDict r)
    | i # _ \<Rightarrow> res_bind (merge_cols rules r (trows t ! i)) (\<lambda>r. SetRowByIndex t (int i) (RowDict r))) = Inr u"
    by (auto simp: MergeRow_def res_bind_Inr)
  show ?thesis
  proof (cases "GetRowIndicesByValue t iv")
    case Nil
    with iv assms AppendRow_ok[of t "RowDict r" u] show ?thesis
      by (auto simp: values_ok_def AppendRow_def res_bind_Inr)
  next
    case (Cons i js)
    then have "i \<in> set (GetRowIndicesByValue t iv)" by simp
    then have i: "i < length (trows t)" by (auto simp: GetRowIndicesByValue_def)
    from iv Cons obtain s where s: "merge_cols rules r (trows t ! i) = Inr s" "SetRowByIndex t (int i) (RowDict s) = Inr u"
      by (auto simp: res_bind_Inr)
    have "dict_ok (trows t ! i)" using assms(1) i by (auto simp: table_ok_def row_ok_def list_all_length)
    with merge_cols_keys[OF _ s(1)] SetRowByIndex_ok[OF assms(1) _ s(2)] s(2) show ?thesis
      by (auto simp: values_ok_def SetRowByIndex_def res_bind_Inr)
  qed
qed

lemma new_columns_ok: "table_ok t \<Longrightarrow> new_columns p cs (t, rules) = Inr (u, rules') \<Longrightarrow> table_ok u"
  by (induction p cs "(t, rules)" arbitrary: t rules rule: new_columns.induct)
    (auto split: if_splits sum.splits dest: InsertColumn_ok)

lemma new_columns_length: "new_columns p cs (t, rules) = Inr (u, rules') \<Longrightarrow> length (trows u) = length (trows t)"
  by (induction p cs "(t, rules)" arbitrary: t rules rule: new_columns.induct)
    (auto simp: InsertColumn_def Let_def split: if_splits sum.splits)

section \<open>What merging does\<close>

lemma merge_cols_same:
  "merge_cols rules cs r = Inr s \<Longrightarrow> (\<And>v. (c, v) \<in> set cs \<Longrightarrow> dict_get r c = Some v) \<Longrightarrow>
    dict_get s c = dict_get r c"
proof (induction rules cs r rule: merge_cols.induct)
  case (2 rules d other cs r)
  then obtain v w where v: "dict_get r d = Some v" "MergeColValue d v other (find_rule rules d) = Inr w"
      "merge_cols rules cs (if w \<noteq> v then dict_set r d w else r) = Inr s"
    by (auto split: option.splits sum.splits)
  have "dict_get (if w \<noteq> v then dict_set r d w else r) c = dict_get r c"
    using 2(3)[of other] v(1,2) by (auto simp: dict_get_set MergeColValue_def)
  with 2(1)[OF v(1,2,3)] 2(3) show ?case by simp
qed simp

lemma merge_cols_get:
  "merge_cols rules cs r = Inr s \<Longrightarrow> distinct (dict_keys cs) \<Longrightarrow> (c, other) \<in> set cs \<Longrightarrow>
    \<exists>v w. dict_get r c = Some v \<and> dict_get s c = Some w \<and> MergeColValue c v other (find_rule rules c) = Inr w"
proof (induction rules cs r rule: merge_cols.induct)
  case (2 rules d o2 cs r)
  then obtain v w where v: "dict_get r d = Some v" "MergeColValue d v o2 (find_rule rules d) = Inr w"
      "merge_cols rules cs (if w \<noteq> v then dict_set r d w else r) = Inr s"
    by (auto split: option.splits sum.splits)
  show ?case
  proof (cases "(c, other) \<in> set cs")
    case True
    then have "c \<noteq> d" using 2(3) by (force simp: dict_keys_def)
    with 2(1)[OF v(1,2,3)] 2(3) True show ?thesis by (auto simp: dict_get_set split: if_splits)
  next
    case False
    with 2(4) have c: "c = d" "other = o2" by auto
    have "dict_get s d = dict_get (if w \<noteq> v then dict_set r d w else r) d"
      using 2(3) by (intro merge_cols_same[OF v(3)]) (force simp: dict_keys_def)
    with v c show ?thesis by (auto simp: dict_get_set split: if_splits)
  qed
qed simp

lemma merge_cols_other:
  "merge_cols rules cs r = Inr s \<Longrightarrow> c \<notin> set (dict_keys cs) \<Longrightarrow> dict_get s c = dict_get r c"
  by (rule merge_cols_same) (force simp: dict_keys_def)+

lemma PrepareValues_full:
  assumes "table_ok t" "row_ok (columns t) r"
  shows "PrepareValuesForAdd t (RowDict r) = Inr r"
proof -
  have "fill_columns cs r = r" if "set cs \<subseteq> set (dict_keys r)" for cs
    using that dict_get_None[of r] by (induction cs) auto
  then show ?thesis using assms by (simp add: row_ok_def table_ok_def HasColumn_def list_all_iff)
qed

text \<open>The identifying values of a row, and the rows that have them.\<close>

lemma GetIdValues_iff:
  "GetIdValuesForRow r cols = Inr iv \<longleftrightarrow> list_all (\<lambda>c. dict_get r c \<noteq> None) cols \<and> iv = map (\<lambda>c. (c, the (dict_get r c))) cols"
  unfolding GetIdValuesForRow_def
  unfolding map_res_Inr
  by (induction cols arbitrary: iv) (auto simp: list_all2_Cons1 split: option.splits)

definition same_ids :: "string list \<Rightarrow> row \<Rightarrow> row \<Rightarrow> bool" where
  "same_ids ids r s \<longleftrightarrow> list_all (\<lambda>c. dict_get r c \<noteq> None \<and> dict_get s c = dict_get r c) ids"

lemma row_matches_ids:
  "GetIdValuesForRow r ids = Inr iv \<Longrightarrow> row_matches iv s \<longleftrightarrow> same_ids ids r s"
  by (auto simp: GetIdValues_iff row_matches_def same_ids_def list_all_iff)

lemma filter_first:
  assumes "filter P [0..<n] = i # js" shows "i < n" "P i" "\<forall>j < i. \<not> P j"
proof -
  have "i \<in> set (filter P [0..<n])" using assms by simp
  then show i: "i < n" "P i" by auto
  have "sorted (filter P [0..<n])" by (simp add: sorted_filter[of id, simplified])
  then have "\<forall>k \<in> set (filter P [0..<n]). i \<le> k" using assms by auto
  then have "i \<le> j" if "P j" "j < n" for j using that by simp
  with i show "\<forall>j < i. \<not> P j" by (meson leD less_trans)
qed

lemma MergeRow_cases:
  assumes "table_ok t" "MergeRow t r ids rules = Inr u" "dict_ok r"
  obtains (new) "\<forall>x \<in> set (trows t). \<not> same_ids ids r x" "list_all (\<lambda>c. dict_get r c \<noteq> None) ids"
      "u = t\<lparr>trows := trows t @ [fill_columns (columns t) r]\<rparr>"
  | (old) i s where "i < length (trows t)" "same_ids ids r (trows t ! i)" "\<forall>j < i. \<not> same_ids ids r (trows t ! j)"
      "merge_cols rules r (trows t ! i) = Inr s" "u = t\<lparr>trows := (trows t)[i := s]\<rparr>"
proof -
  obtain iv where iv: "GetIdValuesForRow r ids = Inr iv" and u: "(case GetRowIndicesByValue t iv of
      [] \<Rightarrow> AppendRow t (RowDict r)
    | i # _ \<Rightarrow> res_bind (merge_cols rules r (trows t ! i)) (\<lambda>r. SetRowByIndex t (int i) (RowDict r))) = Inr u"
    using assms(2) unfolding MergeRow_def res_bind_Inr by blast
  note ids = row_matches_ids[OF iv]
  show thesis
  proof (cases "GetRowIndicesByValue t iv")
    case Nil
    then have "\<forall>i < length (trows t). \<not> same_ids ids r (trows t ! i)"
      by (auto simp: GetRowIndicesByValue_def filter_empty_conv ids)
    then have "\<forall>x \<in> set (trows t). \<not> same_ids ids r x" by (metis in_set_conv_nth)
    moreover have "list_all (\<lambda>c. dict_get r c \<noteq> None) ids" using iv by (simp add: GetIdValues_iff)
    moreover have "u = t\<lparr>trows := trows t @ [fill_columns (columns t) r]\<rparr>"
      using u Nil by (simp add: AppendRow_def split: if_splits)
    ultimately show thesis by (rule new)
  next
    case (Cons i js)
    then have "filter (\<lambda>i. same_ids ids r (trows t ! i)) [0..<length (trows t)] = i # js"
      by (simp add: GetRowIndicesByValue_def ids)
    note i = filter_first[OF this]
    obtain s where s: "merge_cols rules r (trows t ! i) = Inr s" "SetRowByIndex t (int i) (RowDict s) = Inr u"
      using u unfolding Cons list.case res_bind_Inr by blast
    have "row_ok (columns t) (trows t ! i)" using assms(1) i(1) by (simp add: table_ok_def list_all_length)
    with merge_cols_keys[OF _ s(1)] have "row_ok (columns t) s" by (simp add: row_ok_def)
    then have "u = t\<lparr>trows := (trows t)[i := s]\<rparr>"
      using s(2) PrepareValues_full[OF assms(1)] i(1) by (simp add: SetRowByIndex_def row_index_def)
    with i s(1) show thesis by (intro old)
  qed
qed

lemma same_ids_refl: "list_all (\<lambda>c. dict_get r c \<noteq> None) ids \<Longrightarrow> same_ids ids r r"
  by (simp add: same_ids_def list_all_iff)

lemma MergeRow_keeps:
  assumes "table_ok t" "dict_ok r" "MergeRow t r ids rules = Inr u"
  shows "length (trows t) \<le> length (trows u) \<and> length (trows u) \<le> Suc (length (trows t))
    \<and> (\<forall>i < length (trows t). \<forall>c \<in> set ids. dict_get (trows u ! i) c = dict_get (trows t ! i) c)
    \<and> (\<exists>x \<in> set (trows u). same_ids ids r x)"
  using assms(1,3,2)
proof (cases rule: MergeRow_cases)
  case new
  have "same_ids ids r (fill_columns (columns t) r)"
    using new(2) by (auto simp: same_ids_def list_all_iff fill_columns_get split: option.splits)
  with new show ?thesis by (simp add: nth_append)
next
  case (old k s)
  have same: "dict_get s c = dict_get (trows t ! k) c" if c: "c \<in> set ids" for c
  proof (rule merge_cols_same[OF old(4)])
    fix v assume "(c, v) \<in> set r"
    then have "dict_get r c = Some v" using assms(2) by (simp add: dict_get_def dict_ok_def)
    with old(2) c show "dict_get (trows t ! k) c = Some v" by (auto simp: same_ids_def list_all_iff)
  qed
  then have "same_ids ids r s" using old(2) by (simp add: same_ids_def list_all_iff)
  with old(1,5) have "\<exists>x \<in> set (trows u). same_ids ids r x" by (auto intro: set_update_memI)
  moreover have "dict_get ((trows t)[k := s] ! i) c = dict_get (trows t ! i) c"
    if "i < length (trows t)" "c \<in> set ids" for i c
    using same that by (cases "i = k") simp_all
  ultimately show ?thesis using old(5) by simp
qed

text \<open>The loop over the rows of the other table.\<close>

lemma merge_rows_keep:
  assumes "table_ok t" "\<forall>r \<in> set rs. dict_ok r" "fold_res (\<lambda>r u. MergeRow u r ids rules) rs t = Inr u"
  shows "table_ok u \<and> columns u = columns t \<and> length (trows t) \<le> length (trows u)
    \<and> length (trows u) \<le> length (trows t) + length rs
    \<and> (\<forall>i < length (trows t). \<forall>c \<in> set ids. dict_get (trows u ! i) c = dict_get (trows t ! i) c)
    \<and> (\<forall>r \<in> set rs. \<exists>x \<in> set (trows u). same_ids ids r x)"
  using assms
proof (induction rs arbitrary: t)
  case (Cons r rs)
  then obtain v where v: "MergeRow t r ids rules = Inr v" "fold_res (\<lambda>r u. MergeRow u r ids rules) rs v = Inr u"
    by (auto split: sum.splits)
  have r: "dict_ok r" using Cons.prems by simp
  note keep = MergeRow_keeps[OF Cons.prems(1) r v(1)]
  note ok = MergeRow_ok[OF Cons.prems(1) r v(1)]
  have IH: "table_ok u \<and> columns u = columns v \<and> length (trows v) \<le> length (trows u)
    \<and> length (trows u) \<le> length (trows v) + length rs
    \<and> (\<forall>i < length (trows v). \<forall>c \<in> set ids. dict_get (trows u ! i) c = dict_get (trows v ! i) c)
    \<and> (\<forall>r \<in> set rs. \<exists>x \<in> set (trows u). same_ids ids r x)"
    by (rule Cons.IH) (use ok Cons.prems v in auto)
  from keep obtain k where "k < length (trows v)" "same_ids ids r (trows v ! k)"
    by (auto simp: in_set_conv_nth)
  then have "k < length (trows u)" "same_ids ids r (trows u ! k)"
    using IH by (auto simp: same_ids_def list_all_iff)
  then have "\<exists>x \<in> set (trows u). same_ids ids r x" by force
  moreover have "dict_get (trows u ! i) c = dict_get (trows t ! i) c" if "i < length (trows t)" "c \<in> set ids" for i c
    using IH keep that by simp
  ultimately show ?case using IH ok keep by simp
qed auto

lemma MergeTable_parts:
  assumes "MergeTable t other ids rules allow key n = Inr u"
  obtains t1 rules1 t2 where "(if allow then new_columns None (columns other) (t, rules) else Inr (t, rules)) = Inr (t1, rules1)"
    "fold_res (\<lambda>r u. MergeRow u r ids rules1) (trows other) t1 = Inr t2"
    "columns u = columns t2" "column_set u = column_set t2" "mset (trows u) = mset (trows t2)"
proof -
  obtain t1 rules1 t2 where s: "(if allow then new_columns None (columns other) (t, rules) else Inr (t, rules)) = Inr (t1, rules1)"
    "fold_res (\<lambda>r u. MergeRow u r ids rules1) (trows other) t1 = Inr t2"
    "u = (let t3 = (case key of None \<Rightarrow> t2 | Some (k, rv) \<Rightarrow> Sort t2 k rv)
       in t3\<lparr>tname := merged_name (tname t3) (tname other) n\<rparr>)"
    using assms by (auto simp: MergeTable_def res_bind_Inr Let_def)
  have "columns u = columns t2" "column_set u = column_set t2" "mset (trows u) = mset (trows t2)"
    by (cases key; auto simp: s(3) Sort_def Let_def)+
  with s(1,2) that show thesis by blast
qed

section \<open>Reading a written table\<close>

text \<open>The cells that need no quoting.\<close>

definition csv_cell :: "string \<Rightarrow> bool" where
  "csv_cell c \<longleftrightarrow> list_all (\<lambda>x. x \<noteq> CHR '','' \<and> x \<noteq> CHR 0x22 \<and> x \<noteq> CHR 0x5C \<and> x \<noteq> CHR 0x0A) c
     \<and> \<not> startswith c CSV_BQ \<and> \<not> endswith c CSV_EQ \<and> replace_all CSV_BQ [CHR 0x22] c = c"

lemma csv_cell_free: "csv_cell c \<Longrightarrow> CHR '','' \<notin> set c \<and> CHR 0x22 \<notin> set c \<and> CHR 0x5C \<notin> set c \<and> CHR 0x0A \<notin> set c"
  by (auto simp: csv_cell_def list_all_iff)

lemma split_unescaped_run:
  "CHR '','' \<notin> set x \<Longrightarrow> split_unescaped p (x @ s) =
     (case split_unescaped (if x = [] then p else Some (last x)) s of v # vs \<Rightarrow> (x @ v) # vs | [] \<Rightarrow> [])"
proof (induction x arbitrary: p)
  case Nil
  then show ?case by (cases "split_unescaped p s") simp_all
next
  case (Cons c x)
  have "split_unescaped p s \<noteq> []" for p by (induction p s rule: split_unescaped.induct) (auto split: list.splits)
  with Cons show ?case by (auto split: list.splits)
qed

lemma split_unescaped_join:
  assumes "xs \<noteq> []" "\<forall>x \<in> set xs. csv_cell x" "p \<noteq> Some (CHR 0x5C)"
  shows "split_unescaped p (join '','' xs) = xs"
  using assms
proof (induction "'',''" xs arbitrary: p rule: join.induct)
  case (2 x)
  then show ?case using split_unescaped_run[of x p "[]"] csv_cell_free[of x] by simp
next
  case (3 x y ys)
  then have x: "CHR '','' \<notin> set x" "CHR 0x5C \<notin> set x" using csv_cell_free[of x] by auto
  have "last x \<noteq> CHR 0x5C" if "x \<noteq> []" using last_in_set[OF that] x(2) by metis
  then have "(if x = [] then p else Some (last x)) \<noteq> Some (CHR 0x5C)"
    using 3(4) by simp
  with 3 x show ?case
    using split_unescaped_run[OF x(1), of p "CHR '','' # join '','' (y # ys)"] by simp
qed simp

lemma mark_quotes_cell: "CHR 0x22 \<notin> set c \<Longrightarrow> c \<noteq> [] \<Longrightarrow> mark_quotes c = c"
proof -
  assume a: "CHR 0x22 \<notin> set c" "c \<noteq> []"
  then have "hd c \<noteq> CHR 0x22" "last c \<noteq> CHR 0x22"
    using hd_in_set[OF a(2)] last_in_set[OF a(2)] by metis+
  then show ?thesis by (simp add: mark_quotes_def)
qed

lemma csv_step_cell:
  assumes "csv_cell c" "vals = [] \<or> csv_cell (last vals)"
  shows "csv_step vals c = vals @ [c]"
proof (cases "c = []")
  case False
  have "unescape (mark_quotes c) = c"
    using csv_cell_free[OF assms(1)] False by (simp add: mark_quotes_cell unescape_def replace_all_id)
  then show ?thesis using assms False by (auto simp: csv_step_def csv_cell_def)
qed (simp add: csv_step_def)

lemma SplitCSVLine_join:
  assumes "xs \<noteq> []" "\<forall>x \<in> set xs. csv_cell x"
  shows "SplitCSVLine (join '','' xs) = xs"
proof -
  have "foldl csv_step vals ys = vals @ ys" if "\<forall>y \<in> set ys. csv_cell y" "\<forall>y \<in> set vals. csv_cell y" for vals ys
    using that
  proof (induction ys arbitrary: vals)
    case (Cons y ys)
    have "csv_step vals y = vals @ [y]"
      using Cons.prems by (intro csv_step_cell) (cases vals rule: rev_cases; simp)+
    then show ?case using Cons by simp
  qed simp
  from this[of xs "[]"] show ?thesis
    using assms split_unescaped_join[of xs None]
    by (simp add: SplitCSVLine_def) (auto intro!: map_idI simp: csv_cell_def)
qed

definition csv_table :: "table \<Rightarrow> bool" where
  "csv_table t \<longleftrightarrow> table_ok t \<and> columns t \<noteq> [] \<and> list_all csv_cell (columns t)
     \<and> list_all (\<lambda>r. list_all (\<lambda>c. csv_cell (dict_or_empty r c)) (columns t)) (trows t)"

definition cells :: "string list \<Rightarrow> row \<Rightarrow> string list" where
  "cells cols r = map (dict_or_empty r) cols"

lemma length_cells [simp]: "length (cells cols r) = length cols"
  by (simp add: cells_def)

lemma load_rows_cells:
  assumes "columns t = cols" "distinct cols" "cols \<noteq> []" "\<forall>r \<in> set rs. \<forall>c \<in> set cols. csv_cell (dict_or_empty r c)"
  shows "load_rows (map (\<lambda>r. join '','' (cells cols r)) rs) t = Inr (t\<lparr>trows := trows t @ map (\<lambda>r. zip cols (cells cols r)) rs\<rparr>)"
  using assms
proof (induction rs arbitrary: t)
  case (Cons r rs)
  have "SplitCSVLine (join '','' (cells cols r)) = cells cols r"
    using Cons.prems by (intro SplitCSVLine_join) (auto simp: cells_def)
  moreover have "dict_ok (zip cols (cells cols r))" using Cons.prems by (simp add: dict_ok_def)
  ultimately have "AppendRow t (RowList (SplitCSVLine (join '','' (cells cols r)))) =
      Inr (t\<lparr>trows := trows t @ [zip cols (cells cols r)]\<rparr>)"
    using Cons.prems by (simp add: AppendRow_def dict_update_Nil_id)
  then show ?case using Cons.IH[of "t\<lparr>trows := trows t @ [zip cols (cells cols r)]\<rparr>"] Cons.prems by simp
qed simp

lemma dict_get_zip_cells: "c \<in> set cols \<Longrightarrow> distinct cols \<Longrightarrow> dict_get (zip cols (cells cols r)) c = Some (dict_or_empty r c)"
  unfolding dict_get_def cells_def by (simp add: map_of_zip_map)

section \<open>Properties\<close>

text \<open>
  Merging keeps the invariant of tables (distinct columns, each row with exactly these
  columns), loses no row, and leaves a row with the identifying values of each row of the other
  table, whatever the merge rules.
\<close>

theorem merge_table_rows:
  assumes "table_ok t" "\<forall>r \<in> set (trows other). dict_ok r"
    and "MergeTable t other ids rules allow_new key new_name = Inr u"
  shows "table_ok u \<and> length (trows t) \<le> length (trows u) \<and> length (trows u) \<le> length (trows t) + length (trows other)
    \<and> (\<forall>r \<in> set (trows other). \<exists>x \<in> set (trows u). same_ids ids r x)"
proof -
  obtain t1 rules1 t2 where s: "(if allow_new then new_columns None (columns other) (t, rules) else Inr (t, rules)) = Inr (t1, rules1)"
    "fold_res (\<lambda>r u. MergeRow u r ids rules1) (trows other) t1 = Inr t2"
    "columns u = columns t2" "column_set u = column_set t2" "mset (trows u) = mset (trows t2)"
    using assms(3) by (rule MergeTable_parts)
  have t1: "table_ok t1" "length (trows t1) = length (trows t)"
    using s(1) assms(1) new_columns_ok[OF assms(1)] new_columns_length by (auto split: if_splits)
  have "set (trows u) = set (trows t2)" "length (trows u) = length (trows t2)"
    using s(5) by (metis set_mset_mset) (metis s(5) size_mset)
  then show ?thesis
    using merge_rows_keep[OF t1(1) assms(2) s(2)] s(3,4) t1(2) unfolding table_ok_def list_all_iff by auto
qed

theorem merge_table_rows_witness:
  "\<exists>u. MergeTable \<lparr>columns = [''k'', ''v''], column_set = [''k'', ''v''], tname = None, trows = [[(''k'', ''1''), (''v'', ''a'')]]\<rparr>
      \<lparr>columns = [''k'', ''v''], column_set = [''k'', ''v''], tname = None,
        trows = [[(''k'', ''1''), (''v'', ''b'')], [(''k'', ''2''), (''v'', ''c'')]]\<rparr>
      [''k''] [(''v'', RuleText ''join_with:+'')] False None None = Inr u \<and> table_ok u"
  (is "\<exists>u. ?m = Inr u \<and> _")
proof -
  have "isOk ?m" by code_simp
  then obtain u where u: "?m = Inr u" by (auto simp: isOk_iff)
  moreover have "table_ok \<lparr>columns = [''k'', ''v''], column_set = [''k'', ''v''], tname = None, trows = [[(''k'', ''1''), (''v'', ''a'')]]\<rparr>"
    by code_simp
  moreover have "\<forall>r \<in> set [[(''k'', ''1''), (''v'', ''b'')], [(''k'', ''2''), (''v'', ''c'')]]. dict_ok (r :: row)" by code_simp
  ultimately show ?thesis using merge_table_rows[OF _ _ u] by simp
qed

text \<open>
  C21. Merging one row: if no row has its identifying values it is appended with the missing columns
  empty; otherwise only the first such row changes, each column of the merged row getting the
  value the merge rule gives and every other column keeping its own.
\<close>

theorem merge_row_result:
  assumes "table_ok t" "dict_ok r" "MergeRow t r ids rules = Inr u"
  shows "(\<forall>x \<in> set (trows t). \<not> same_ids ids r x) \<and>
      (\<exists>s. trows u = trows t @ [s] \<and> (\<forall>c \<in> set (columns t). dict_get s c = Some (dict_or_empty r c)))
    \<or> (\<exists>i s. i < length (trows t) \<and> same_ids ids r (trows t ! i) \<and> (\<forall>j < i. \<not> same_ids ids r (trows t ! j))
        \<and> trows u = (trows t)[i := s]
        \<and> (\<forall>(c, other) \<in> set r. \<exists>v w. dict_get (trows t ! i) c = Some v \<and> dict_get s c = Some w
              \<and> MergeColValue c v other (find_rule rules c) = Inr w)
        \<and> (\<forall>c. c \<notin> set (dict_keys r) \<longrightarrow> dict_get s c = dict_get (trows t ! i) c))"
  using assms(1,3,2)
proof (cases rule: MergeRow_cases)
  case new
  then have "trows u = trows t @ [fill_columns (columns t) r]" by simp
  moreover have "\<forall>c \<in> set (columns t). dict_get (fill_columns (columns t) r) c = Some (dict_or_empty r c)"
    by (simp add: fill_columns_get dict_or_empty_def split: option.splits)
  ultimately show ?thesis using new(1) by blast
next
  case (old i s)
  have "distinct (dict_keys r)" using assms(2) by (simp add: dict_ok_def dict_keys_def)
  note get = merge_cols_get[OF old(4) this]
  have "\<forall>(c, other) \<in> set r. \<exists>v w. dict_get (trows t ! i) c = Some v \<and> dict_get s c = Some w
      \<and> MergeColValue c v other (find_rule rules c) = Inr w"
    using get by blast
  moreover have "trows u = (trows t)[i := s]" using old(5) by simp
  ultimately show ?thesis
    using old(1-3) merge_cols_other[OF old(4)] by (intro disjI2 exI[of _ i] exI[of _ s]) blast
qed

theorem merge_row_result_witness:
  "\<exists>u s. MergeRow \<lparr>columns = [''k'', ''v''], column_set = [''k'', ''v''], tname = None, trows = []\<rparr>
     [(''k'', ''1'')] [''k''] [] = Inr u \<and> trows u = [s] \<and> dict_get s ''v'' = Some ''''"
  (is "\<exists>u s. ?m = Inr u \<and> _")
proof -
  let ?t = "\<lparr>columns = [''k'', ''v''], column_set = [''k'', ''v''], tname = None, trows = []\<rparr>"
  have "isOk ?m" by code_simp
  then obtain u where u: "?m = Inr u" by (auto simp: isOk_iff)
  have "table_ok ?t" "dict_ok [(''k'', ''1'')]" "dict_or_empty [(''k'', ''1'')] ''v'' = ''''" by code_simp+
  then show ?thesis using merge_row_result[OF _ _ u] u by auto
qed

text \<open>
  A table whose headers and cells contain no comma, quote, backslash or newline, written as
  CSV and loaded again, is equal to the table it was.
\<close>

theorem csv_roundtrip:
  assumes "csv_table t"
  shows "\<exists>u. LoadFromCSV (WriteCSV t []) n = Inr (Some u) \<and> table_eq u t \<and> table_ok u"
proof -
  let ?cols = "columns t"
  let ?u = "(new_table ?cols n)\<lparr>trows := map (\<lambda>r. zip ?cols (cells ?cols r)) (trows t)\<rparr>"
  have ok: "table_ok t" "?cols \<noteq> []" "\<forall>c \<in> set ?cols. csv_cell c"
    "\<forall>r \<in> set (trows t). \<forall>c \<in> set ?cols. csv_cell (dict_or_empty r c)"
    using assms by (auto simp: csv_table_def list_all_iff)
  have dist: "distinct ?cols" and rows: "\<forall>r \<in> set (trows t). row_ok ?cols r"
    using ok(1) by (auto simp: table_ok_def list_all_iff)
  let ?ls = "join '','' ?cols # map (\<lambda>r. join '','' (cells ?cols r)) (trows t)"
  have newline: "CHR 0x0A \<notin> set (join '','' xs)" if "\<forall>x \<in> set xs. csv_cell x" for xs
    using that set_join_subset[of "'',''" xs] csv_cell_free by fastforce
  have "WriteCSV t [] = concat (map (\<lambda>l. l @ [CHR 0x0A]) ?ls)"
    by (simp add: WriteCSV_def cells_def comp_def Let_def)
  moreover have "\<forall>l \<in> set ?ls. CHR 0x0A \<notin> set l" using newline ok by (auto simp: cells_def)
  ultimately have "file_lines (WriteCSV t []) = ?ls" using file_lines_written[of ?ls] by simp
  then have "LoadFromCSV (WriteCSV t []) n = Inr (Some ?u)"
    using SplitCSVLine_join[OF ok(2,3)] load_rows_cells[of "new_table ?cols n" ?cols "trows t"] dist ok(2,4)
    by (simp add: LoadFromCSV_def new_table_def)
  moreover have "table_ok ?u"
    using dist by (simp add: table_ok_def new_table_def row_ok_def dict_ok_def cells_def list_all_iff)
  moreover have "dict_get r c = Some (dict_or_empty r c)" if "r \<in> set (trows t)" "c \<in> set ?cols" for r c
    using rows that dict_get_None[of r c] by (auto simp: row_ok_def dict_or_empty_def)
  then have "table_eq ?u t"
    using rows dist
    by (auto simp: table_eq_def new_table_def list_all2_conv_all_nth list_all_iff row_ok_def dict_get_zip_cells)
  ultimately show ?thesis by blast
qed

theorem csv_roundtrip_witness:
  "\<exists>u. LoadFromCSV (WriteCSV \<lparr>columns = [''Package'', ''Slot''], column_set = [''Slot'', ''Package''], tname = None,
      trows = [[(''Slot'', ''0''), (''Package'', ''a/b'')]]\<rparr> []) None = Inr (Some u)"
  (is "\<exists>u. LoadFromCSV (WriteCSV ?t []) None = Inr (Some u)")
proof -
  have "csv_table ?t" by code_simp
  from csv_roundtrip[OF this] show ?thesis by blast
qed

end
