(* ===== verification/Patch.thy ===== *)
theory Patch
  imports Store Paths
begin

text \<open>
  Patches (\<open>lib/patch.py\<close>): the parsers of change numbers, SHA-1s and Change-Ids, \<open>PatchQuery\<close> with its
  identifiers and aliases, \<open>ParsePatchDep\<close>, \<open>PatchCache\<close>, the exceptions that blame a patch, and the
  commit-message footers of \<open>GitRepoPatch\<close>.
\<close>

section \<open>Identifiers\<close>

definition is_hex :: "char \<Rightarrow> bool" where
  "is_hex c \<longleftrightarrow> is_digit c \<or> (65 \<le> py_ord c \<and> py_ord c \<le> 70) \<or> (97 \<le> py_ord c \<and> py_ord c \<le> 102)"

text \<open>\<open>git.IsSHA1\<close>.\<close>

definition IsSHA1 :: "string \<Rightarrow> bool \<Rightarrow> bool" where
  "IsSHA1 v full \<longleftrightarrow> list_all is_hex v \<and>
     (if full then length v = 40 else 6 \<le> length v \<and> length v \<le> 40)"

text \<open>The parsers return the text or \<open>None\<close>, or raise \<open>ValueError\<close> unless \<open>error_ok\<close>.\<close>

definition checked :: "bool \<Rightarrow> bool \<Rightarrow> 'a \<Rightarrow> 'a option res" where
  "checked valid error_ok x = (if valid then Inr (Some x) else if error_ok then Inr None else Inl ValueError)"

definition ParseSHA1 :: "string \<Rightarrow> bool \<Rightarrow> string option res" where
  "ParseSHA1 text error_ok = checked (IsSHA1 text True) error_ok text"

text \<open>\<open>str.isdigit\<close> is also true of the superscript digits.\<close>

definition isdigit_char :: "char \<Rightarrow> bool" where
  "isdigit_char c \<longleftrightarrow> is_digit c \<or> py_ord c \<in> set [178, 179, 185]"

definition number_valid :: "string \<Rightarrow> bool" where
  "number_valid s \<longleftrightarrow> s \<noteq> [] \<and> list_all isdigit_char s \<and> length s \<le> 7"

definition ParseGerritNumber :: "string \<Rightarrow> bool \<Rightarrow> string option res" where
  "ParseGerritNumber text error_ok = checked (number_valid text) error_ok text"

text \<open>Lower-casing changes no character's being a hexadecimal digit.\<close>

definition change_id_valid :: "string \<Rightarrow> bool" where
  "change_id_valid s \<longleftrightarrow> startswith s ''I'' \<and> length s = 41 \<and> IsSHA1 (drop 1 s) True"

definition ParseChangeID :: "string \<Rightarrow> bool \<Rightarrow> string option res" where
  "ParseChangeID text error_ok = checked (change_id_valid text) error_ok text"

definition name_char :: "char \<Rightarrow> bool" where
  "name_char c \<longleftrightarrow> is_digit c \<or> is_lower c \<or> is_upper c \<or> c = CHR ''_'' \<or> c = CHR ''-''"

text \<open>The \<open>$\<close> of both patterns also matches before a final newline.\<close>

definition drop_newline :: "string \<Rightarrow> string" where
  "drop_newline s = (if endswith s [CHR 0x0A] then butlast s else s)"

definition repo_name_ok :: "string \<Rightarrow> bool" where
  "repo_name_ok s =
     (case split_on CHR ''/'' (drop_newline s) of
        [] \<Rightarrow> False
      | c # cs \<Rightarrow> c \<noteq> [] \<and> list_all name_char c \<and> \<not> is_digit (hd c) \<and> hd c \<noteq> CHR ''-''
          \<and> list_all (\<lambda>d. d \<noteq> [] \<and> list_all name_char d) cs)"

definition branch_name_ok :: "string \<Rightarrow> bool" where
  "branch_name_ok s =
     (let t = drop_newline s; u = (if startswith t ''refs/heads/'' then drop 11 t else t)
      in u \<noteq> [] \<and> list_all name_char u \<and> hd u \<noteq> CHR ''-'')"

definition ParseFullChangeID :: "string \<Rightarrow> bool \<Rightarrow> (string \<times> string \<times> string) option res" where
  "ParseFullChangeID text error_ok =
     (case split_on CHR ''~'' text of
        [p, b, c] \<Rightarrow> checked (repo_name_ok p \<and> branch_name_ok b \<and> change_id_valid c) error_ok (p, b, c)
      | _ \<Rightarrow> if error_ok then Inr None else Inl ValueError)"

section \<open>PatchQuery\<close>

definition EXTERNAL_REMOTE :: string where
  "EXTERNAL_REMOTE = ''cros''"

definition INTERNAL_REMOTE :: string where
  "INTERNAL_REMOTE = ''cros-internal''"

definition INTERNAL_CHANGE_PREFIX :: string where
  "INTERNAL_CHANGE_PREFIX = ''chrome-internal:''"

definition EXTERNAL_CHANGE_PREFIX :: string where
  "EXTERNAL_CHANGE_PREFIX = ''chromium:''"

definition CHANGE_PREFIX :: "string \<Rightarrow> string res" where
  "CHANGE_PREFIX r =
     (if r = INTERNAL_REMOTE then Inr INTERNAL_CHANGE_PREFIX
      else if r = EXTERNAL_REMOTE then Inr EXTERNAL_CHANGE_PREFIX else Inl KeyError)"

record patch_query =
  pq_remote :: string
  pq_project :: "string option"
  pq_branch :: "string option"
  pq_change_id :: "string option"
  pq_sha1 :: "string option"
  pq_number :: "string option"
  pq_full_id :: "string option"
  pq_id :: "string option"

definition StripPrefix :: "string \<Rightarrow> string \<times> string" where
  "StripPrefix text =
     (if startswith text INTERNAL_CHANGE_PREFIX
      then (INTERNAL_REMOTE, drop (length INTERNAL_CHANGE_PREFIX) text)
      else if startswith text EXTERNAL_CHANGE_PREFIX
      then (EXTERNAL_REMOTE, drop (length EXTERNAL_CHANGE_PREFIX) text)
      else if startswith text ''*'' then (INTERNAL_REMOTE, drop 1 text)
      else (EXTERNAL_REMOTE, text))"

definition AddPrefix :: "string \<Rightarrow> string \<Rightarrow> string res" where
  "AddPrefix remote text = res_bind (CHANGE_PREFIX remote) (\<lambda>p. Inr (p @ text))"

definition opt_parse :: "(string \<Rightarrow> bool) \<Rightarrow> string option \<Rightarrow> string option" where
  "opt_parse valid v = (case v of None \<Rightarrow> None | Some s \<Rightarrow> if valid s then Some s else None)"

definition set_id :: "patch_query \<Rightarrow> patch_query res" where
  "set_id q =
     (case pq_full_id q of
        Some f \<Rightarrow> res_bind (AddPrefix (pq_remote q) f) (\<lambda>i. Inr (q\<lparr>pq_id := Some i\<rparr>))
      | None \<Rightarrow>
          (case pq_sha1 q of
             Some s \<Rightarrow> res_bind (AddPrefix (pq_remote q) s) (\<lambda>i. Inr (q\<lparr>pq_id := Some i\<rparr>))
           | None \<Rightarrow> Inr q))"

definition PatchQuery ::
    "string \<Rightarrow> string option \<Rightarrow> string option \<Rightarrow> string option \<Rightarrow> string option \<Rightarrow> string option \<Rightarrow> patch_query res" where
  "PatchQuery remote project tracking_branch change_id sha1 gerrit_number =
     (let b = (case tracking_branch of None \<Rightarrow> None | Some t \<Rightarrow> if t = [] then None else Some (basename t));
          c = opt_parse change_id_valid change_id;
          f = (case (project, b, c) of (Some p, Some t, Some i) \<Rightarrow> Some (p @ ''~'' @ t @ ''~'' @ i) | _ \<Rightarrow> None)
      in set_id \<lparr>pq_remote = remote, pq_project = project, pq_branch = b, pq_change_id = c,
                 pq_sha1 = opt_parse (\<lambda>s. IsSHA1 s True) sha1, pq_number = opt_parse number_valid gerrit_number,
                 pq_full_id = f, pq_id = None\<rparr>)"

definition LookupAliases :: "patch_query \<Rightarrow> string list res" where
  "LookupAliases q = map_res (AddPrefix (pq_remote q)) (List.map_filter id [pq_number q, pq_full_id q, pq_sha1 q])"

definition ToGerritQueryText :: "patch_query \<Rightarrow> string res" where
  "ToGerritQueryText q =
     (case pq_number q of Some t \<Rightarrow> Inr t | None \<Rightarrow>
      (case pq_full_id q of Some t \<Rightarrow> Inr t | None \<Rightarrow>
       (case pq_sha1 q of Some t \<Rightarrow> Inr t | None \<Rightarrow>
        (case pq_change_id q of Some t \<Rightarrow> Inr t | None \<Rightarrow> Inl ValueError))))"

definition pq_key :: "patch_query \<Rightarrow>
    string \<times> string option \<times> string option \<times> string option \<times> string option \<times> string option" where
  "pq_key q = (pq_remote q, pq_project q, pq_branch q, pq_number q, pq_change_id q, pq_sha1 q)"

definition pq_eq :: "patch_query \<Rightarrow> patch_query \<Rightarrow> bool" where
  "pq_eq q r \<longleftrightarrow> (if pq_id q \<noteq> None then pq_id q = pq_id r else pq_key q = pq_key r)"

definition starts_cl :: "string \<Rightarrow> bool" where
  "starts_cl s = (case s of a # b # c # _ \<Rightarrow> a \<in> set ''cC'' \<and> b \<in> set ''lL'' \<and> c = CHR '':'' | _ \<Rightarrow> False)"

definition ParsePatchDep :: "string \<Rightarrow> bool \<Rightarrow> bool \<Rightarrow> bool \<Rightarrow> bool \<Rightarrow> patch_query res" where
  "ParsePatchDep text no_change_id no_sha1 no_full_change_id no_gerrit_number =
     (if text = [] \<or> (starts_cl text \<and> \<not> startswith text ''CL:'') then Inl ValueError
      else (let (remote, t) = StripPrefix (if starts_cl text then drop 3 text else text)
            in res_bind (ParseFullChangeID t True) (\<lambda>full.
               case full of
                 Some (p, b, c) \<Rightarrow>
                   if no_full_change_id then Inl ValueError else PatchQuery remote (Some p) (Some b) (Some c) None None
               | None \<Rightarrow>
                   if change_id_valid t
                   then (if no_change_id then Inl ValueError else PatchQuery remote None None (Some t) None None)
                   else if number_valid t
                   then (if no_gerrit_number then Inl ValueError else PatchQuery remote None None None None (Some t))
                   else if IsSHA1 t True
                   then (if no_sha1 then Inl ValueError else PatchQuery remote None None None (Some t) None)
                   else Inl ValueError)))"

text \<open>
  \<open>GetPaladinDeps\<close>: the lines that the case-insensitive pattern finds, with their prefix and what follows
  it; any spelling of the prefix but two is an error.
\<close>

definition icase_prefix :: "string \<Rightarrow> string \<Rightarrow> bool" where
  "icase_prefix w s \<longleftrightarrow> length w \<le> length s \<and> map lower_char (take (length w) s) = w"

definition paladin_line :: "string \<Rightarrow> (string \<times> string) option" where
  "paladin_line l =
     (let ws = takeWhile (\<lambda>c. c \<in> set [CHR '' '', CHR 0x09]) l;
          r = dropWhile (\<lambda>c. c \<in> set [CHR '' '', CHR 0x09]) l;
          n = (if icase_prefix ''cq'' r \<and> icase_prefix ''depend'' (drop 3 r) \<and> 10 \<le> length r then 10
               else if icase_prefix ''cqdepend'' r \<and> 9 \<le> length r then 9 else 0)
      in if n = 0 then None else Some (ws @ take n r, drop n r))"

definition dep_chunks :: "string \<Rightarrow> string list" where
  "dep_chunks s = filter (\<lambda>w. w \<noteq> []) (concat (map (split_on CHR '' '') (split_on CHR '','' s)))"

definition add_new_dep :: "string \<Rightarrow> patch_query list \<Rightarrow> patch_query list res" where
  "add_new_dep chunk deps =
     res_bind (ParsePatchDep chunk False True False False) (\<lambda>q.
       Inr (if \<exists>x \<in> set deps. pq_eq x q then deps else deps @ [q]))"

definition GetPaladinDeps :: "string \<Rightarrow> patch_query list res" where
  "GetPaladinDeps msg =
     fold_res (\<lambda>(prefix, m) deps.
         if prefix \<in> {''Cq-Depend:'', ''CQ-DEPEND=''} then fold_res add_new_dep (dep_chunks m) deps
         else Inl ValueError)
       (List.map_filter paladin_line (split_on CHR 0x0A msg)) []"

section \<open>Patch dependencies round trip\<close>

lemma is_hex_simps [simp]: "\<not> is_hex CHR ''~''" "\<not> is_hex CHR ''I''"
  by (simp_all add: is_hex_def is_digit_def py_ord_def)

lemma isdigit_char_simps [simp]: "\<not> isdigit_char CHR ''~''"
  by (simp add: isdigit_char_def is_digit_def py_ord_def)

lemma name_char_simps [simp]: "\<not> name_char CHR ''~''" "\<not> name_char CHR ''/''" "\<not> name_char CHR 0x0A"
  by (simp_all add: name_char_def is_digit_def is_lower_def is_upper_def py_ord_def)

lemma remote_simps [simp]: "EXTERNAL_REMOTE \<noteq> INTERNAL_REMOTE" "INTERNAL_REMOTE \<noteq> EXTERNAL_REMOTE"
  by (simp_all add: EXTERNAL_REMOTE_def INTERNAL_REMOTE_def)

lemma drop_newline_cases: "drop_newline s = s \<or> s = drop_newline s @ [CHR 0x0A]"
  by (auto simp: drop_newline_def endswith_iff)

lemma change_id_no_tilde: "change_id_valid s \<Longrightarrow> CHR ''~'' \<notin> set s"
proof -
  assume a: "change_id_valid s"
  then obtain r where s: "s = CHR ''I'' # r" by (auto simp: change_id_valid_def startswith_iff)
  with a have "list_all is_hex r" by (simp add: change_id_valid_def IsSHA1_def)
  then show ?thesis by (auto simp: s list_all_iff)
qed

lemma number_no_tilde: "number_valid s \<Longrightarrow> CHR ''~'' \<notin> set s"
  by (auto simp: number_valid_def list_all_iff)

lemma sha1_no_tilde: "IsSHA1 s b \<Longrightarrow> CHR ''~'' \<notin> set s"
  by (auto simp: IsSHA1_def list_all_iff)

lemma ParseFullChangeID_None: "CHR ''~'' \<notin> set s \<Longrightarrow> ParseFullChangeID s True = Inr None"
  by (simp add: ParseFullChangeID_def split_on_free)

text \<open>A branch name loses its \<open>refs/heads/\<close> and is then its own base name.\<close>

lemma branch_basename:
  assumes "branch_name_ok b"
  shows "branch_name_ok (basename b) \<and> basename (basename b) = basename b \<and> basename b \<noteq> []
    \<and> CHR ''~'' \<notin> set (basename b)"
proof -
  define u where "u = (if startswith (drop_newline b) ''refs/heads/'' then drop 11 (drop_newline b) else drop_newline b)"
  have u: "u \<noteq> []" "list_all name_char u" "hd u \<noteq> CHR ''-''"
    using assms by (simp_all add: branch_name_ok_def u_def Let_def)
  have free: "CHR ''/'' \<notin> set u" "CHR ''~'' \<notin> set u" "CHR 0x0A \<notin> set u"
    using u(2) name_char_simps unfolding list_all_iff by blast+
  obtain n where n: "b = drop_newline b @ n" "n = [] \<or> n = [CHR 0x0A]"
    using drop_newline_cases[of b] by (metis append_Nil2)
  have "drop_newline b = u \<or> drop_newline b = ''refs/heads/'' @ u"
    unfolding u_def startswith_iff by auto
  then have "drop_newline b @ n = u @ n \<or> drop_newline b @ n = ''refs/heads/'' @ u @ n" by auto
  then have b: "b = u @ n \<or> b = ''refs/heads/'' @ u @ n" using n(1) by simp
  have nfree: "CHR ''/'' \<notin> set (u @ n)" using free n(2) by auto
  then have split: "split_on CHR ''/'' (u @ n) = [u @ n]" by (rule split_on_free)
  have "split_on CHR ''/'' (''refs/heads/'' @ u @ n) = [''refs'', ''heads'', u @ n]"
    by (simp add: split[simplified])
  with b split have base: "basename b = u @ n" by (metis basename_def last_ConsL last_ConsR list.distinct(1))
  have nl: "drop_newline (u @ n) = u"
  proof (cases "n = []")
    case True
    have "\<not> endswith u [CHR 0x0A]" using free(3) by (auto simp: endswith_iff)
    with True show ?thesis by (simp add: drop_newline_def)
  qed (use n(2) in \<open>simp add: drop_newline_def\<close>)
  have "\<not> startswith u ''refs/heads/''" using free(1) by (auto simp: startswith_iff)
  with u nl have "branch_name_ok (u @ n)" by (simp add: branch_name_ok_def)
  moreover have "basename (u @ n) = u @ n" by (simp add: basename_def split)
  ultimately show ?thesis using u(1) free(2) n(2) by (auto simp: base)
qed

lemma repo_no_tilde: "split_on CHR ''~'' s = [p, b, c] \<Longrightarrow> CHR ''~'' \<notin> set p"
  using split_on_sep_free[of p "CHR ''~''" s] by simp

lemma ParseFullChangeID_join:
  assumes "CHR ''~'' \<notin> set p" "repo_name_ok p" "branch_name_ok b" "CHR ''~'' \<notin> set b" "change_id_valid c"
  shows "ParseFullChangeID (p @ ''~'' @ b @ ''~'' @ c) True = Inr (Some (p, b, c))"
  using assms change_id_no_tilde[OF assms(5)]
  by (simp add: ParseFullChangeID_def split_on_append split_on_free checked_def)

lemma prefix_parse:
  assumes "r \<in> {EXTERNAL_REMOTE, INTERNAL_REMOTE}" "AddPrefix r t = Inr s"
  shows "s \<noteq> [] \<and> \<not> starts_cl s \<and> StripPrefix s = (r, t)"
proof -
  have "s = INTERNAL_CHANGE_PREFIX @ t \<and> r = INTERNAL_REMOTE \<or> s = EXTERNAL_CHANGE_PREFIX @ t \<and> r = EXTERNAL_REMOTE"
    using assms by (auto simp: AddPrefix_def CHANGE_PREFIX_def split: if_splits)
  then show ?thesis
    by (auto simp: StripPrefix_def starts_cl_def INTERNAL_CHANGE_PREFIX_def EXTERNAL_CHANGE_PREFIX_def startswith_def)
qed

lemma StripPrefix_remote: "fst (StripPrefix t) \<in> {EXTERNAL_REMOTE, INTERNAL_REMOTE}"
  by (simp add: StripPrefix_def)

lemma AddPrefix_ok: "r \<in> {EXTERNAL_REMOTE, INTERNAL_REMOTE} \<Longrightarrow> \<exists>s. AddPrefix r t = Inr s"
  by (auto simp: AddPrefix_def CHANGE_PREFIX_def)

text \<open>The part of \<open>ParsePatchDep\<close> after the prefixes.\<close>

definition parse_body :: "string \<Rightarrow> string \<Rightarrow> bool \<Rightarrow> bool \<Rightarrow> bool \<Rightarrow> bool \<Rightarrow> patch_query res" where
  "parse_body remote t nc ns nf ng =
     res_bind (ParseFullChangeID t True) (\<lambda>full.
       case full of
         Some (p, b, c) \<Rightarrow> if nf then Inl ValueError else PatchQuery remote (Some p) (Some b) (Some c) None None
       | None \<Rightarrow>
           if change_id_valid t
           then (if nc then Inl ValueError else PatchQuery remote None None (Some t) None None)
           else if number_valid t
           then (if ng then Inl ValueError else PatchQuery remote None None None None (Some t))
           else if IsSHA1 t True
           then (if ns then Inl ValueError else PatchQuery remote None None None (Some t) None)
           else Inl ValueError)"

lemma ParsePatchDep_prefixed:
  assumes "r \<in> {EXTERNAL_REMOTE, INTERNAL_REMOTE}" "AddPrefix r t = Inr s"
  shows "ParsePatchDep s nc ns nf ng = parse_body r t nc ns nf ng"
  using prefix_parse[OF assms] by (simp add: ParsePatchDep_def parse_body_def)

lemma PatchQuery_remote: "PatchQuery r p b c s g = Inr q \<Longrightarrow> pq_remote q = r"
  by (auto simp: PatchQuery_def set_id_def Let_def res_bind_Inr split: option.splits)

lemma parse_body_query:
  assumes "r \<in> {EXTERNAL_REMOTE, INTERNAL_REMOTE}" "parse_body r t nc ns nf ng = Inr q"
  shows "\<exists>u. ToGerritQueryText q = Inr u \<and> parse_body r u nc ns nf ng = Inr q \<and> pq_remote q = r"
proof -
  from assms(2) obtain full where full: "ParseFullChangeID t True = Inr full" by (auto simp: parse_body_def res_bind_Inr)
  show ?thesis
  proof (cases full)
    case None
    note body = assms(2)[unfolded parse_body_def full None, simplified]
    have "q = \<lparr>pq_remote = r, pq_project = None, pq_branch = None, pq_change_id = Some t, pq_sha1 = None,
          pq_number = None, pq_full_id = None, pq_id = None\<rparr>
      \<or> q = \<lparr>pq_remote = r, pq_project = None, pq_branch = None, pq_change_id = None, pq_sha1 = None,
          pq_number = Some t, pq_full_id = None, pq_id = None\<rparr>
      \<or> (\<exists>i. q = \<lparr>pq_remote = r, pq_project = None, pq_branch = None, pq_change_id = None, pq_sha1 = Some t,
          pq_number = None, pq_full_id = None, pq_id = i\<rparr>)"
      using body by (auto simp: PatchQuery_def set_id_def opt_parse_def res_bind_Inr split: if_splits)
    then have "ToGerritQueryText q = Inr t \<and> pq_remote q = r" by (auto simp: ToGerritQueryText_def)
    with assms(2) show ?thesis by blast
  next
    case (Some x)
    obtain p b c where x: "x = (p, b, c)" by (metis prod_cases3)
    have q: "PatchQuery r (Some p) (Some b) (Some c) None None = Inr q" and nf: "\<not> nf"
      using assms(2) full Some x by (auto simp: parse_body_def split: if_splits)
    have ok: "CHR ''~'' \<notin> set p" "repo_name_ok p" "branch_name_ok b" "change_id_valid c"
      using full repo_no_tilde[of t p b c]
      by (auto simp: Some x ParseFullChangeID_def checked_def split: list.splits if_splits)
    note bb = branch_basename[OF ok(3)]
    have "b \<noteq> []" using bb by (auto simp: basename_def)
    then have same: "PatchQuery r (Some p) (Some (basename b)) (Some c) None None = PatchQuery r (Some p) (Some b) (Some c) None None"
      using bb by (simp add: PatchQuery_def)
    have "pq_full_id q = Some (p @ ''~'' @ basename b @ ''~'' @ c)" "pq_number q = None"
      using q \<open>b \<noteq> []\<close> ok(4) by (auto simp: PatchQuery_def set_id_def opt_parse_def Let_def res_bind_Inr)
    then have "ToGerritQueryText q = Inr (p @ ''~'' @ basename b @ ''~'' @ c)" by (simp add: ToGerritQueryText_def)
    moreover have "parse_body r (p @ ''~'' @ basename b @ ''~'' @ c) nc ns nf ng = Inr q"
      using ParseFullChangeID_join[of p "basename b" c] ok bb nf q by (simp add: parse_body_def same)
    ultimately show ?thesis using PatchQuery_remote[OF q] by blast
  qed
qed

section \<open>PatchCache\<close>

type_synonym patch_cache = "(string, patch_query) dict"

text \<open>What a cache may be asked for: anything with aliases, or a string, which is its own alias.\<close>

datatype cache_key = KeyPatch patch_query | KeyText string

fun GetAliases :: "cache_key \<Rightarrow> string list res" where
  "GetAliases (KeyPatch q) = LookupAliases q"
| "GetAliases (KeyText s) = Inr [s]"

definition InjectCustomKeys :: "string list \<Rightarrow> patch_query \<Rightarrow> patch_cache \<Rightarrow> patch_cache" where
  "InjectCustomKeys keys change c = fold (\<lambda>k d. dict_set d k change) keys c"

definition Inject :: "patch_query list \<Rightarrow> patch_cache \<Rightarrow> patch_cache res" where
  "Inject changes c =
     fold_res (\<lambda>q d. res_bind (LookupAliases q) (\<lambda>ks. Inr (InjectCustomKeys ks q d))) changes c"

definition PatchCache :: "patch_query list \<Rightarrow> patch_cache res" where
  "PatchCache initial = Inject initial []"

definition cache_remove :: "cache_key list \<Rightarrow> patch_cache \<Rightarrow> patch_cache res" where
  "cache_remove vs c = fold_res (\<lambda>v d. res_bind (GetAliases v) (\<lambda>ks. Inr (fold (\<lambda>k d. dict_del d k) ks d))) vs c"

fun first_alias :: "patch_cache \<Rightarrow> string list \<Rightarrow> patch_query option" where
  "first_alias c [] = None"
| "first_alias c (a # as) = (case dict_get c a of Some q \<Rightarrow> Some q | None \<Rightarrow> first_alias c as)"

definition cache_getitem :: "patch_cache \<Rightarrow> cache_key \<Rightarrow> patch_query option res" where
  "cache_getitem c k = res_bind (GetAliases k) (\<lambda>as. Inr (first_alias c as))"

definition cache_contains :: "patch_cache \<Rightarrow> cache_key \<Rightarrow> bool res" where
  "cache_contains c k = res_bind (cache_getitem c k) (\<lambda>v. Inr (v \<noteq> None))"

text \<open>\<open>set(self._dict.values())\<close>: the distinct values by \<open>==\<close>.\<close>

fun distinct_by :: "('a \<Rightarrow> 'a \<Rightarrow> bool) \<Rightarrow> 'a list \<Rightarrow> 'a list" where
  "distinct_by eq [] = []"
| "distinct_by eq (x # xs) = x # filter (\<lambda>y. \<not> eq x y) (distinct_by eq xs)"

definition cache_values :: "patch_cache \<Rightarrow> patch_query list" where
  "cache_values c = distinct_by pq_eq (map snd c)"

definition cache_copy :: "patch_cache \<Rightarrow> patch_cache res" where
  "cache_copy c = PatchCache (cache_values c)"

lemma InjectCustomKeys_get:
  "dict_get (InjectCustomKeys keys q c) k = (if k \<in> set keys then Some q else dict_get c k)"
  unfolding InjectCustomKeys_def by (induction keys arbitrary: c) (auto simp: dict_get_set)

lemma first_alias_hit: "\<forall>a \<in> set as. dict_get c a = Some q \<Longrightarrow> as \<noteq> [] \<Longrightarrow> first_alias c as = Some q"
  by (cases as) auto

lemma first_alias_cong: "(\<And>a. a \<in> set as \<Longrightarrow> dict_get c a = dict_get d a) \<Longrightarrow> first_alias c as = first_alias d as"
  by (induction as) (auto split: option.splits)

section \<open>Exceptions\<close>

text \<open>
  A patch exception names the patch it blames and whether the failure was in flight; the kind is
  its class. \<open>DependencyError\<close> blames a patch for the failure of another.
\<close>

datatype patch_error =
    PatchFailure patch_query string bool
  | DependencyError patch_query patch_error

fun error_patch :: "patch_error \<Rightarrow> patch_query" where
  "error_patch (PatchFailure q k i) = q"
| "error_patch (DependencyError q e) = q"

fun error_inflight :: "patch_error \<Rightarrow> bool" where
  "error_inflight (PatchFailure q k i) = i"
| "error_inflight (DependencyError q e) = error_inflight e"

text \<open>The loop of \<open>GetRootError\<close>: the current depth, and how many steps the limit leaves.\<close>

fun root_error_loop :: "nat \<Rightarrow> nat \<Rightarrow> patch_error \<Rightarrow> patch_error option" where
  "root_error_loop depth limit (PatchFailure q k i) = Some (PatchFailure q k i)"
| "root_error_loop depth limit (DependencyError q e) =
     (if depth < limit
      then (if Suc depth = limit then None else root_error_loop (Suc depth) limit e)
      else Some (DependencyError q e))"

definition GetRootError :: "patch_error \<Rightarrow> nat \<Rightarrow> patch_error option" where
  "GetRootError err limit = root_error_loop 1 limit err"

section \<open>Commit message footers\<close>

definition NL :: char where
  "NL = CHR 0x0A"

lemma length_dropWhile_less [termination_simp]: "length (dropWhile P s) < Suc (Suc (length s))"
  using length_dropWhile_le[of P s] by simp

text \<open>The text after the last run of two or more newlines.\<close>

fun last_paragraph :: "string \<Rightarrow> string \<Rightarrow> string" where
  "last_paragraph cur [] = cur"
| "last_paragraph cur [c] = cur @ [c]"
| "last_paragraph cur (c # d # s) =
     (if c = NL \<and> d = NL then last_paragraph [] (dropWhile (\<lambda>x. x = NL) s) else last_paragraph (cur @ [c]) (d # s))"

definition footer_key_char :: "char \<Rightarrow> bool" where
  "footer_key_char c \<longleftrightarrow> is_digit c \<or> is_lower c \<or> is_upper c \<or> c = CHR ''-''"

definition footer_of_line :: "string \<Rightarrow> (string \<times> string) option" where
  "footer_of_line l =
     (let k = takeWhile footer_key_char l; r = dropWhile footer_key_char l
      in if k \<noteq> [] \<and> r \<noteq> [] \<and> hd r = CHR '':''
         then Some (k, dropWhile (\<lambda>c. c = CHR '' '') (tl r)) else None)"

definition GetFooters :: "string \<Rightarrow> (string \<times> string) list" where
  "GetFooters msg =
     List.map_filter footer_of_line (splitlines (last_paragraph [] (rstrip (\<lambda>c. c = NL) msg)))"

definition AddFooters :: "string option \<Rightarrow> string \<Rightarrow> string" where
  "AddFooters change_id msg =
     (let m1 = (if msg = [] then ''<no commit message provided>'' else msg);
          m2 = (if last m1 \<noteq> NL then m1 @ [NL] else m1);
          old = GetFooters m2;
          m3 = (if old = [] then m2 @ [NL] else m2)
      in case change_id of
           Some i \<Rightarrow> if (''Change-Id'', i) \<notin> set old \<and> i \<noteq> [] then m3 @ ''Change-Id: '' @ i @ [NL] else m3
         | None \<Rightarrow> m3)"

lemma last_paragraph_line: "NL \<notin> set l \<Longrightarrow> last_paragraph c l = c @ l"
  by (induction c l rule: last_paragraph.induct) auto

lemma last_paragraph_snoc:
  assumes "NL \<notin> set l" "l \<noteq> []"
  shows "\<exists>p. last_paragraph cur (s @ NL # l) = p @ l \<and> (p = [] \<or> last p = NL)"
proof (induction cur s rule: last_paragraph.induct)
  case (1 cur)
  show ?case using assms last_paragraph_line[OF assms(1)] by (cases l) auto
next
  case (2 cur c)
  have "dropWhile (\<lambda>x. x = NL) l = l" using assms by (cases l) auto
  with assms last_paragraph_line[OF assms(1)] show ?case by (cases l) auto
next
  case (3 cur c d s)
  show ?case
  proof (cases "c = NL \<and> d = NL")
    case True
    show ?thesis
    proof (cases "\<forall>x \<in> set s. x = NL")
      case True
      have "dropWhile (\<lambda>x. x = NL) (s @ NL # l) = l"
        using True assms by (cases l) (auto simp: dropWhile_append)
      then show ?thesis using \<open>c = NL \<and> d = NL\<close> last_paragraph_line[OF assms(1)] by auto
    next
      case False
      then have "dropWhile (\<lambda>x. x = NL) (s @ NL # l) = dropWhile (\<lambda>x. x = NL) s @ NL # l"
        by (auto simp: dropWhile_append1)
      with 3(1)[OF True] True show ?thesis by simp
    qed
  next
    case False
    with 3(2)[OF False] show ?thesis by (simp only: append_Cons last_paragraph.simps if_False)
  qed
qed

lemma splitlines_aux_tail:
  assumes "line_free l" "l \<noteq> []"
  shows "l \<in> set (splitlines_aux acc (p @ NL # l))"
proof (induction acc p rule: splitlines_aux.induct)
  case (1 acc)
  have "splitlines_aux [] l = [l]" using splitlines_last[OF assms] by (simp add: splitlines_def)
  then show ?case by (simp add: NL_def)
next
  case (2 acc x xs)
  have tl: "tl (xs @ NL # l) = tl xs @ NL # l" if "xs \<noteq> []" using that by simp
  show ?case
  proof (cases "xs = []")
    case True
    have l: "splitlines_aux [] l = [l]" using splitlines_last[OF assms] by (simp add: splitlines_def)
    have "splitlines_aux a (NL # l) = rev a # [l]" for a by (simp add: NL_def l)
    with True l show ?thesis by (simp add: NL_def)
  next
    case False
    then have "hd (xs @ NL # l) = hd xs" by simp
    with 2 tl[OF False] False show ?thesis by (auto simp del: splitlines_aux.simps(2) simp: splitlines_aux.simps(2)[of acc x])
  qed
qed

lemma splitlines_tail:
  assumes "line_free l" "l \<noteq> []" "p = [] \<or> last p = NL"
  shows "l \<in> set (splitlines (p @ l))"
proof (cases p rule: rev_cases)
  case Nil
  then show ?thesis using splitlines_last[OF assms(1,2)] by simp
next
  case (snoc q c)
  then show ?thesis using splitlines_aux_tail[OF assms(1,2), of "[]" q] assms(3) by (simp add: splitlines_def)
qed

text \<open>A last line of the form of a footer is among the footers.\<close>

lemma GetFooters_last_line:
  assumes "line_free l" "l \<noteq> []" "footer_of_line l = Some f"
  shows "f \<in> set (GetFooters (s @ NL # l @ [NL]))"
proof -
  have nl: "NL \<notin> set l" using assms(1) by (auto simp: line_free_def list_all_iff NL_def)
  then have "last l \<noteq> NL" using last_in_set[OF assms(2)] by metis
  then have "rstrip (\<lambda>c. c = NL) (s @ NL # l) = s @ NL # l" using assms(2) by (intro rstrip_id) simp
  then have r: "rstrip (\<lambda>c. c = NL) (s @ NL # l @ [NL]) = s @ NL # l"
    using rstrip_snoc[of "\<lambda>c. c = NL" "s @ NL # l" NL] by simp
  obtain p where "last_paragraph [] (s @ NL # l) = p @ l" "p = [] \<or> last p = NL"
    using last_paragraph_snoc[OF nl assms(2), of "[]" s] by blast
  with splitlines_tail[OF assms(1,2), of p] have "l \<in> set (splitlines (last_paragraph [] (s @ NL # l)))" by simp
  then show ?thesis
    using assms(3) unfolding GetFooters_def r by (force simp: map_filter_def)
qed

definition footer_value_ok :: "string \<Rightarrow> bool" where
  "footer_value_ok i \<longleftrightarrow> i \<noteq> [] \<and> line_free i \<and> hd i \<noteq> CHR '' ''"

lemma change_id_line:
  assumes "footer_value_ok i"
  shows "footer_of_line (''Change-Id: '' @ i) = Some (''Change-Id'', i)" and "line_free (''Change-Id: '' @ i)"
proof -
  have k: "list_all footer_key_char ''Change-Id''" "\<not> footer_key_char CHR '':''" by code_simp+
  have "takeWhile footer_key_char (''Change-Id'' @ CHR '':'' # CHR '' '' # i) = ''Change-Id''"
    "dropWhile footer_key_char (''Change-Id'' @ CHR '':'' # CHR '' '' # i) = CHR '':'' # CHR '' '' # i"
    using span_append[OF k(1), of "CHR '':'' # CHR '' '' # i"] k(2) by auto
  moreover have "dropWhile (\<lambda>c. c = CHR '' '') i = i" using assms by (cases i) (auto simp: footer_value_ok_def)
  ultimately show "footer_of_line (''Change-Id: '' @ i) = Some (''Change-Id'', i)"
    by (simp add: footer_of_line_def Let_def)
  have "line_free ''Change-Id: ''" by code_simp
  then show "line_free (''Change-Id: '' @ i)" using assms by (simp add: line_free_def footer_value_ok_def)
qed

lemma AddFooters_has_id:
  assumes "footer_value_ok i"
  shows "(''Change-Id'', i) \<in> set (GetFooters (AddFooters (Some i) msg)) \<and> last (AddFooters (Some i) msg) = NL
    \<and> AddFooters (Some i) msg \<noteq> []"
proof -
  define m2 where "m2 = (let m1 = (if msg = [] then ''<no commit message provided>'' else msg)
    in if last m1 \<noteq> NL then m1 @ [NL] else m1)"
  have m2: "m2 \<noteq> []" "last m2 = NL" by (auto simp: m2_def Let_def)
  have add: "AddFooters (Some i) msg =
      (let m3 = (if GetFooters m2 = [] then m2 @ [NL] else m2)
       in if (''Change-Id'', i) \<notin> set (GetFooters m2) \<and> i \<noteq> [] then m3 @ ''Change-Id: '' @ i @ [NL] else m3)"
    by (simp add: AddFooters_def m2_def Let_def)
  show ?thesis
  proof (cases "(''Change-Id'', i) \<in> set (GetFooters m2)")
    case True
    then have "AddFooters (Some i) msg = m2" by (auto simp: add Let_def)
    with True m2 show ?thesis by simp
  next
    case False
    obtain s where s: "(if GetFooters m2 = [] then m2 @ [NL] else m2) = s @ [NL]"
      using m2 by (metis append_butlast_last_id)
    have i: "i \<noteq> []" using assms by (simp add: footer_value_ok_def)
    have "AddFooters (Some i) msg = s @ NL # (''Change-Id: '' @ i) @ [NL]"
      unfolding add Let_def s using False i by simp
    with GetFooters_last_line[OF change_id_line(2)[OF assms] _ change_id_line(1)[OF assms], of s] show ?thesis
      by simp
  qed
qed

section \<open>Properties\<close>

text \<open>
  Whatever dependency text parses, prefixing the query text of the parsed patch with the prefix of
  its remote gives a text that parses to the same patch: full Change-Ids, Change-Ids, change
  numbers and SHA-1s are never taken for one another.
\<close>

theorem parse_dep_roundtrip:
  assumes "ParsePatchDep text nc ns nf ng = Inr q"
  shows "\<exists>t s. ToGerritQueryText q = Inr t \<and> AddPrefix (pq_remote q) t = Inr s \<and> ParsePatchDep s nc ns nf ng = Inr q"
proof -
  define v where "v = StripPrefix (if starts_cl text then drop 3 text else text)"
  have ok: "\<not> (text = [] \<or> (starts_cl text \<and> \<not> startswith text ''CL:''))"
    using assms unfolding ParsePatchDep_def by (metis Inl_Inr_False)
  define r t where "r = fst v" "t = snd v"
  have "ParsePatchDep text nc ns nf ng = parse_body r t nc ns nf ng"
    unfolding ParsePatchDep_def parse_body_def if_not_P[OF ok] r_t_def v_def[symmetric] by (simp add: case_prod_unfold)
  moreover have "r \<in> {EXTERNAL_REMOTE, INTERNAL_REMOTE}" unfolding r_t_def v_def by (rule StripPrefix_remote)
  ultimately have rt: "parse_body r t nc ns nf ng = Inr q" "r \<in> {EXTERNAL_REMOTE, INTERNAL_REMOTE}"
    using assms by simp_all
  obtain u where u: "ToGerritQueryText q = Inr u" "parse_body r u nc ns nf ng = Inr q" "pq_remote q = r"
    using parse_body_query[OF rt(2,1)] by blast
  obtain s where "AddPrefix r u = Inr s" using AddPrefix_ok[OF rt(2)] by blast
  with ParsePatchDep_prefixed[OF rt(2) this] u show ?thesis by auto
qed

theorem parse_dep_roundtrip_witness:
  "\<exists>q. ParsePatchDep ''CL:*123456'' False True False False = Inr q \<and> ToGerritQueryText q = Inr ''123456''"
proof -
  let ?q = "\<lparr>pq_remote = INTERNAL_REMOTE, pq_project = None, pq_branch = None, pq_change_id = None, pq_sha1 = None,
    pq_number = Some ''123456'', pq_full_id = None, pq_id = None\<rparr>"
  have q: "ParsePatchDep ''CL:*123456'' False True False False = Inr ?q" by code_simp
  from parse_dep_roundtrip[OF q] obtain t where "ToGerritQueryText ?q = Inr t" by blast
  moreover have "ToGerritQueryText ?q = Inr ''123456''" by code_simp
  ultimately show ?thesis using q by blast
qed

text \<open>
  \<open>_AddFooters\<close> ends the message with a newline and leaves the patch's Change-Id among the footers
  that \<open>_GetFooters\<close> reads back; adding the footers again changes nothing.
\<close>

theorem add_footers_idempotent:
  assumes "footer_value_ok i"
  shows "(''Change-Id'', i) \<in> set (GetFooters (AddFooters (Some i) msg))
    \<and> AddFooters (Some i) (AddFooters (Some i) msg) = AddFooters (Some i) msg"
proof -
  note has = AddFooters_has_id[OF assms, of msg]
  then have "AddFooters (Some i) (AddFooters (Some i) msg) = AddFooters (Some i) msg"
    by (auto simp: AddFooters_def[of "Some i" "AddFooters (Some i) msg"] Let_def)
  with has show ?thesis by blast
qed

theorem add_footers_idempotent_witness:
  "(''Change-Id'', ''Iabc'') \<in> set (GetFooters (AddFooters (Some ''Iabc'') ''Fix the build.''))"
proof -
  have "footer_value_ok ''Iabc''" by code_simp
  from add_footers_idempotent[OF this] show ?thesis by blast
qed

end
