(* ===== verification/PatchSeries.thy ===== *)
theory PatchSeries
  imports Patch Actions
begin

text \<open>
  Patch series (\<open>cbuildbot/patch_series.py\<close>): resolving a change and its dependencies into a
  transaction, and applying transactions to the checkouts with roll back. Gerrit, the manifest and git
  are the functions of a \<open>series_env\<close>; the caches of a \<open>PatchSeries\<close>, and the commits its checkouts are
  at, are the state that each operation passes on, also when it raises.
\<close>

section \<open>State and errors\<close>

text \<open>
  What an operation raises: a \<open>PatchException\<close>, a \<open>GerritException\<close> (its class), or another exception.
\<close>

datatype series_error = PatchExc patch_error | GerritExc string | OtherExc py_error

type_synonym heads = "string \<Rightarrow> string"

text \<open>
  The services: the pool of helpers, what Gerrit answers (\<open>QuerySingleRecord\<close> by remote, text and
  \<open>must_match\<close>; the data of a change), the filter of the caller, the checkouts of a change in the manifest
  with what a fetch adds to a change, and \<open>ApplyAgainstManifest\<close> on the commits of the checkouts.
\<close>

record series_env =
  pool :: "(string, bool) dict"
  query_single :: "string \<Rightarrow> string \<Rightarrow> bool \<Rightarrow> string + patch_query option"
  gerrit_deps :: "patch_query \<Rightarrow> series_error + patch_query list"
  already_merged :: "patch_query \<Rightarrow> bool"
  merge_exception :: "patch_query \<Rightarrow> patch_error option"
  deps_filter_fn :: "patch_query \<Rightarrow> bool"
  checkouts :: "patch_query \<Rightarrow> string list"
  fetched :: "string \<Rightarrow> patch_query \<Rightarrow> patch_query"
  apply_change :: "patch_query \<Rightarrow> heads \<Rightarrow> heads \<times> patch_error option"

record series =
  committed :: patch_cache
  lookup :: patch_cache
  change_deps :: "(patch_query \<times> patch_query list) list"
  failed_tot :: "(string option, patch_error) dict"
  is_submitting :: bool
  heads :: heads

type_synonym 'a act = "(series, series_error, 'a) action"

definition lift_res :: "'a res \<Rightarrow> 'a act" where
  "lift_res r s = (case r of Inl e \<Rightarrow> (Inl (OtherExc e), s) | Inr a \<Rightarrow> (Inr a, s))"

text \<open>\<open>_PatchWrapException\<close>: whatever fails, the blame is the parent's.\<close>

definition PatchWrapException :: "patch_query \<Rightarrow> 'a act \<Rightarrow> 'a act" where
  "PatchWrapException parent m s =
     (case m s of
        (Inl (GerritExc k), t) \<Rightarrow> (Inl (PatchExc (PatchFailure parent ''PatchException'' False)), t)
      | (Inl (PatchExc e), t) \<Rightarrow>
          (if pq_id (error_patch e) = pq_id parent then (Inl (PatchExc e), t)
           else (Inl (PatchExc (DependencyError parent e)), t))
      | r \<Rightarrow> r)"

section \<open>Helpers and lookups\<close>

definition HelperPool :: "bool \<Rightarrow> bool \<Rightarrow> (string, bool) dict" where
  "HelperPool cros_internal cros = [(EXTERNAL_REMOTE, cros), (INTERNAL_REMOTE, cros_internal)]"

definition GetHelper :: "(string, bool) dict \<Rightarrow> string \<Rightarrow> series_error + string" where
  "GetHelper p remote =
     (if dict_get p remote = Some True then Inr remote else Inl (GerritExc ''GerritHelperNotAvailable''))"

definition in_cache :: "patch_query \<Rightarrow> patch_cache \<Rightarrow> bool act" where
  "in_cache q c = lift_res (cache_contains c (KeyPatch q))"

definition InjectCommittedPatches :: "patch_query list \<Rightarrow> unit act" where
  "InjectCommittedPatches changes s =
     act_bind (lift_res (Inject changes (committed s))) (\<lambda>c s. (Inr (), s\<lparr>committed := c\<rparr>)) s"

definition InjectLookupCache :: "patch_query list \<Rightarrow> unit act" where
  "InjectLookupCache changes s =
     act_bind (lift_res (Inject changes (lookup s))) (\<lambda>c s. (Inr (), s\<lparr>lookup := c\<rparr>)) s"

definition GetGerritPatch :: "series_env \<Rightarrow> patch_query \<Rightarrow> patch_query option act" where
  "GetGerritPatch env q s =
     (case GetHelper (pool env) (pq_remote q) of Inl e \<Rightarrow> (Inl e, s)
      | Inr h \<Rightarrow> act_bind (lift_res (ToGerritQueryText q)) (\<lambda>text s.
          case query_single env h text (\<not> IsSHA1 text True) of
            Inl k \<Rightarrow> (Inl (GerritExc k), s)
          | Inr None \<Rightarrow> (Inr None, s)
          | Inr (Some change) \<Rightarrow>
              act_bind (lift_res (cache_getitem (lookup s) (KeyPatch change))) (\<lambda>existing s.
                if number_valid text \<and> existing \<noteq> None
                then act_bind (lift_res (LookupAliases change)) (\<lambda>keys s.
                       (Inr existing, s\<lparr>lookup := InjectCustomKeys keys (the existing) (lookup s)\<rparr>)) s
                else act_bind (InjectLookupCache [change]) (\<lambda>_.
                       act_bind (if already_merged env change then InjectCommittedPatches [change] else act_return ())
                         (\<lambda>_. act_return (Some change))) s) s) s)"

text \<open>One turn of the loop over the dependencies, on the list of unsatisfied ones.\<close>

definition lookup_dep ::
    "series_env \<Rightarrow> patch_cache option \<Rightarrow> patch_query \<Rightarrow> patch_query list \<Rightarrow> patch_query list act" where
  "lookup_dep env limit_to dep unsatisfied s =
     act_bind (in_cache dep (committed s)) (\<lambda>known s.
       if known then (Inr unsatisfied, s)
       else (case GetHelper (pool env) (pq_remote dep) of
          Inl e \<Rightarrow> (Inr unsatisfied, s)
        | Inr h \<Rightarrow> act_bind (lift_res (cache_getitem (lookup s) (KeyPatch dep))) (\<lambda>hit.
            act_bind (if hit = None then GetGerritPatch env dep else act_return hit) (\<lambda>r s.
              case r of None \<Rightarrow> (Inr unsatisfied, s)
              | Some d \<Rightarrow>
                  if already_merged env d then (Inr unsatisfied, s)
                  else act_bind (case limit_to of None \<Rightarrow> act_return True | Some l \<Rightarrow> in_cache d l) (\<lambda>ok s.
                         if ok then (Inr (unsatisfied @ [d]), s)
                         else if is_submitting s then (Inl (PatchExc (PatchFailure d ''PatchRejected'' False)), s)
                         else (Inl (PatchExc (case merge_exception env d of Some e \<Rightarrow> e
                                 | None \<Rightarrow> PatchFailure d ''PatchNotEligible'' False)), s)) s)) s)) s"

definition LookupUncommittedChanges ::
    "series_env \<Rightarrow> patch_cache option \<Rightarrow> patch_query list \<Rightarrow> patch_query list act" where
  "LookupUncommittedChanges env limit_to deps =
     act_bind (fold_act (lookup_dep env limit_to) deps [])
       (\<lambda>unsatisfied. act_return (filter (deps_filter_fn env) unsatisfied))"

definition GetDepsForChange :: "series_env \<Rightarrow> patch_query \<Rightarrow> patch_query list act" where
  "GetDepsForChange env change = PatchWrapException change (\<lambda>s.
     case find (\<lambda>p. pq_eq (fst p) change) (change_deps s) of
       Some p \<Rightarrow> (Inr (snd p), s)
     | None \<Rightarrow> (case gerrit_deps env change of Inl e \<Rightarrow> (Inl e, s)
         | Inr v \<Rightarrow> (Inr v, s\<lparr>change_deps := change_deps s @ [(change, v)]\<rparr>)))"

section \<open>Transactions\<close>

definition MAX_PLAN_RECURSION :: nat where
  "MAX_PLAN_RECURSION = 150"

definition in_list :: "patch_query \<Rightarrow> patch_query list \<Rightarrow> bool" where
  "in_list q qs \<longleftrightarrow> (\<exists>x \<in> set qs. pq_eq x q)"

text \<open>The plan and the seen changes are passed along; the second argument is \<open>remaining_depth\<close>.\<close>

definition add_self :: "patch_query \<Rightarrow> patch_query list \<times> patch_cache \<Rightarrow> (patch_query list \<times> patch_cache) act" where
  "add_self change ps = act_return (if in_list change (fst ps) then ps else (fst ps @ [change], snd ps))"

fun AddChangeToPlanWithDeps ::
    "series_env \<Rightarrow> patch_cache option \<Rightarrow> nat \<Rightarrow> patch_query \<Rightarrow> patch_query list \<times> patch_cache
      \<Rightarrow> (patch_query list \<times> patch_cache) act" where
  "AddChangeToPlanWithDeps env limit_to 0 change ps = PatchWrapException change (\<lambda>s.
     act_bind (in_cache change (committed s)) (\<lambda>known.
       if known then act_return ps
       else act_raise (PatchExc (PatchFailure change ''PatchReachedRecursionLimit'' False))) s)"
| "AddChangeToPlanWithDeps env limit_to (Suc n) change ps = PatchWrapException change (\<lambda>s.
     act_bind (in_cache change (committed s)) (\<lambda>known.
       if known then act_return ps
       else act_bind (GetDepsForChange env change) (\<lambda>deps.
         act_bind (in_cache change (snd ps)) (\<lambda>seen.
           if seen then add_self change ps
           else act_bind (LookupUncommittedChanges env limit_to deps) (\<lambda>uncommitted.
             act_bind (lift_res (Inject [change] (snd ps))) (\<lambda>seen'.
               act_bind (fold_act (AddChangeToPlanWithDeps env limit_to n) uncommitted (fst ps, seen'))
                 (add_self change)))))) s)"

definition CreateTransaction :: "series_env \<Rightarrow> patch_cache option \<Rightarrow> patch_query \<Rightarrow> patch_query list act" where
  "CreateTransaction env limit_to change =
     act_bind (AddChangeToPlanWithDeps env limit_to MAX_PLAN_RECURSION change ([], []))
       (\<lambda>ps. act_return (fst ps))"

definition CreateTransactions :: "series_env \<Rightarrow> patch_cache option \<Rightarrow> patch_query list \<Rightarrow>
    (patch_query \<times> patch_query list \<times> patch_error option) list act" where
  "CreateTransactions env limit_to changes =
     fold_act (\<lambda>change out s.
       case CreateTransaction env limit_to change s of
         (Inl (PatchExc e), t) \<Rightarrow> (Inr (out @ [(change, [], Some e)]), t)
       | (Inl e, t) \<Rightarrow> (Inl e, t)
       | (Inr plan, t) \<Rightarrow> (Inr (out @ [(change, plan, None)]), t)) changes []"

section \<open>Fetching and applying\<close>

definition GetGitReposForChange :: "series_env \<Rightarrow> patch_query \<Rightarrow> series_error + string list" where
  "GetGitReposForChange env change =
     (if checkouts env change = [] then Inl (PatchExc (PatchFailure change ''ChangeNotInManifest'' False))
      else Inr (checkouts env change))"

text \<open>
  The changes by repository, those to fetch and those not in the manifest. The repositories are
  fetched in the order of \<open>by_repo\<close>; the pool of processes may take another one.
\<close>

definition sort_out ::
    "series_env \<Rightarrow> patch_query \<Rightarrow> (string, patch_query list) dict \<times> patch_query list \<times> patch_error list
      \<Rightarrow> (string, patch_query list) dict \<times> patch_query list \<times> patch_error list" where
  "sort_out env change acc =
     (case acc of (by_repo, to_fetch, missing) \<Rightarrow>
        case GetHelper (pool env) (pq_remote change) of
          Inl e \<Rightarrow> acc
        | Inr h \<Rightarrow>
            if checkouts env change = []
            then (by_repo, to_fetch, missing @ [PatchFailure change ''ChangeNotInManifest'' False])
            else (fold (\<lambda>r d. dict_set d r ((case dict_get d r of None \<Rightarrow> [] | Some l \<Rightarrow> l) @ [change]))
                    (checkouts env change) by_repo, to_fetch @ [change], missing))"

definition FetchChangesForRepo :: "series_env \<Rightarrow> string \<times> patch_query list \<Rightarrow>
    (string option, patch_query) dict \<Rightarrow> (string option, patch_query) dict" where
  "FetchChangesForRepo env rc d = fold (\<lambda>c d. let u = fetched env (fst rc) c in dict_set d (pq_id u) u) (snd rc) d"

definition FetchChanges :: "series_env \<Rightarrow> patch_query list \<Rightarrow> (patch_query list \<times> patch_error list) res" where
  "FetchChanges env changes =
     (case fold (sort_out env) changes ([], [], []) of (by_repo, to_fetch, missing) \<Rightarrow>
        let fetched_changes = fold (FetchChangesForRepo env) by_repo [] in
        res_bind (map_res (\<lambda>c. case dict_get fetched_changes (pq_id c) of None \<Rightarrow> Inl KeyError | Some u \<Rightarrow> Inr u) to_fetch)
          (\<lambda>us. Inr (us, missing)))"

fun all_repos :: "series_env \<Rightarrow> patch_query list \<Rightarrow> series_error + string list" where
  "all_repos env [] = Inr []"
| "all_repos env (c # cs) = res_bind (GetGitReposForChange env c) (\<lambda>rs. res_bind (all_repos env cs) (\<lambda>ss. Inr (rs @ ss)))"

definition reset_heads :: "(string \<times> string) list \<Rightarrow> heads \<Rightarrow> heads" where
  "reset_heads resets h = fold (\<lambda>(r, sha) h. h(r := sha)) resets h"

definition Transaction :: "series_env \<Rightarrow> patch_query list \<Rightarrow> 'a act \<Rightarrow> 'a act" where
  "Transaction env commits body s =
     (case all_repos env commits of Inl e \<Rightarrow> (Inl e, s)
      | Inr repos \<Rightarrow>
          let resets = map (\<lambda>r. (r, heads s r)) (remdups repos) in
          if \<exists>p \<in> set resets. snd p = [] then (Inl (OtherExc AssertionError), s)
          else act_bind (lift_res (cache_copy (committed s))) (\<lambda>saved s.
                 case body s of
                   (Inl e, t) \<Rightarrow> (Inl e, t\<lparr>heads := reset_heads resets (heads t), committed := saved\<rparr>)
                 | (Inr a, t) \<Rightarrow> (Inr a, t)) s)"

definition apply_one :: "series_env \<Rightarrow> patch_query \<Rightarrow> unit \<Rightarrow> unit act" where
  "apply_one env change u s =
     act_bind (in_cache change (committed s)) (\<lambda>known s.
       if known then (Inr (), s)
       else (case apply_change env change (heads s) of
          (h, None) \<Rightarrow> (Inr (), s\<lparr>heads := h\<rparr>)
        | (h, Some e) \<Rightarrow>
            (Inl (PatchExc e),
             s\<lparr>heads := h,
               failed_tot := (if error_inflight e then failed_tot s else dict_set (failed_tot s) (pq_id change) e)\<rparr>))) s"

definition ApplyChanges :: "series_env \<Rightarrow> patch_query \<Rightarrow> patch_query list \<Rightarrow> unit act" where
  "ApplyChanges env inducing_change changes = PatchWrapException inducing_change (\<lambda>s.
     case List.map_filter (\<lambda>c. dict_get (failed_tot s) (pq_id c)) changes of
       failure # _ \<Rightarrow> (Inl (PatchExc failure), s)
     | [] \<Rightarrow> fold_act (apply_one env) changes () s)"

text \<open>One turn of the loop over the transactions, on the applied changes and the failures.\<close>

definition try_transaction :: "series_env \<Rightarrow> patch_query \<times> patch_query list \<Rightarrow>
    patch_query list \<times> patch_error list \<Rightarrow> (patch_query list \<times> patch_error list) act" where
  "try_transaction env t acc s =
     (case Transaction env (snd t) (ApplyChanges env (fst t) (snd t)) s of
        (Inl (PatchExc e), s') \<Rightarrow> (Inr (fst acc, snd acc @ [e]), s')
      | (Inl e, s') \<Rightarrow> (Inl e, s')
      | (Inr u, s') \<Rightarrow> act_bind (InjectCommittedPatches (snd t)) (\<lambda>_. act_return (fst acc @ snd t, snd acc)) s')"

fun last_position :: "patch_query list \<Rightarrow> patch_query \<Rightarrow> nat \<Rightarrow> nat \<Rightarrow> nat" where
  "last_position [] c i p = p"
| "last_position (x # xs) c i p = last_position xs c (Suc i) (if pq_eq x c then i else p)"

definition order_transactions ::
    "patch_query list \<Rightarrow> (patch_query \<times> patch_query list) list \<Rightarrow> (patch_query \<times> patch_query list) list" where
  "order_transactions changes =
     sort_key (\<lambda>t. (- int (length (snd t)), last_position changes (fst t) 0 0))"

text \<open>The second half of \<open>Apply\<close>: the attempts, and the report of what was applied and what failed.\<close>

definition report :: "patch_query list \<Rightarrow> patch_error list \<Rightarrow> patch_query list \<times> patch_error list \<times> patch_error list" where
  "report applied failed =
     (let ap = distinct_by pq_eq applied;
          left = filter (\<lambda>e. \<not> in_list (error_patch e) ap) failed
      in (ap, filter (\<lambda>e. \<not> error_inflight e) left, filter error_inflight left))"

definition apply_resolved :: "series_env \<Rightarrow> bool \<Rightarrow> patch_query list \<Rightarrow> patch_error list \<Rightarrow>
    (patch_query \<times> patch_query list) list \<Rightarrow> (patch_query list \<times> patch_error list \<times> patch_error list) act" where
  "apply_resolved env honor_ordering cs failed resolved s =
     (if resolved = [] then (Inr ([], failed, []), s)
      else (case fold_act (try_transaction env)
                   (if honor_ordering then resolved else order_transactions cs resolved) ([], failed) s of
              (Inl e, t) \<Rightarrow> (Inl e, t)
            | (Inr (applied, failed'), t) \<Rightarrow> (Inr (report applied failed'), t\<lparr>is_submitting := True\<rparr>)))"

definition Apply :: "series_env \<Rightarrow> patch_query list \<Rightarrow> bool \<Rightarrow> bool \<Rightarrow> (patch_query list \<Rightarrow> patch_query list) option \<Rightarrow>
    (patch_query list \<times> patch_error list \<times> patch_error list) act" where
  "Apply env changes frozen honor_ordering changes_filter =
     act_bind (lift_res (FetchChanges env changes)) (\<lambda>fm.
       let cs = (case changes_filter of None \<Rightarrow> fst fm | Some f \<Rightarrow> f (fst fm)) in
       act_bind (InjectLookupCache cs) (\<lambda>_.
       act_bind (if frozen then act_bind (lift_res (PatchCache cs)) (\<lambda>l. act_return (Some l)) else act_return None) (\<lambda>limit_to.
       act_bind (CreateTransactions env limit_to cs) (\<lambda>ts.
         apply_resolved env honor_ordering cs (snd fm @ List.map_filter (\<lambda>t. snd (snd t)) ts)
           (map (\<lambda>t. (fst t, fst (snd t))) (filter (\<lambda>t. snd (snd t) = None) ts))))))"

section \<open>The sequencing of actions\<close>

lemma lift_res_simps [simp]: "lift_res (Inr a) s = (Inr a, s)" "lift_res (Inl x) s = (Inl (OtherExc x), s)"
  by (simp_all add: lift_res_def)

lemma lift_res_Inr: "lift_res r s = (Inr a, t) \<longleftrightarrow> r = Inr a \<and> t = s"
  by (cases r) auto

lemma lift_res_Inl: "lift_res r s = (Inl e, t) \<longleftrightarrow> t = s \<and> (\<exists>x. r = Inl x \<and> e = OtherExc x)"
  by (cases r) auto

lemmas act_simps = act_bind_Inr act_bind_Inl lift_res_Inr lift_res_Inl

lemma if_apply: "(if b then f else g) s = (if b then f s else g s)"
  by simp

section \<open>Blame, and plans without repetition\<close>

definition blames :: "patch_query \<Rightarrow> series_error \<Rightarrow> bool" where
  "blames change e = (case e of PatchExc p \<Rightarrow> pq_id (error_patch p) = pq_id change | GerritExc k \<Rightarrow> False | OtherExc x \<Rightarrow> True)"

lemma wrap_Inr: "PatchWrapException c m s = (Inr a, t) \<longleftrightarrow> m s = (Inr a, t)"
  by (auto simp: PatchWrapException_def split: prod.splits sum.splits series_error.splits if_splits)

lemma wrap_blames: "PatchWrapException c m s = (Inl e, t) \<Longrightarrow> blames c e"
  by (auto simp: PatchWrapException_def blames_def split: prod.splits sum.splits series_error.splits if_splits)

lemma add_blames: "AddChangeToPlanWithDeps env l n c ps s = (Inl e, t) \<Longrightarrow> blames c e"
  by (cases n) (auto dest: wrap_blames)

lemma CreateTransaction_blames: "CreateTransaction env l c s = (Inl e, t) \<Longrightarrow> blames c e"
  by (auto simp: CreateTransaction_def act_simps dest: add_blames)

abbreviation no_repeats :: "patch_query list \<Rightarrow> bool" where
  "no_repeats \<equiv> sorted_wrt (\<lambda>x y. \<not> pq_eq x y)"

lemma add_self_no_repeats: "add_self c ps s = (Inr ps', t) \<Longrightarrow> no_repeats (fst ps) \<Longrightarrow> no_repeats (fst ps') \<and> t = s"
  by (auto simp: add_self_def sorted_wrt_append in_list_def split: if_splits)

lemma in_cache_Inr: "in_cache q c s = (Inr b, t) \<longleftrightarrow> cache_contains c (KeyPatch q) = Inr b \<and> t = s"
  by (simp add: in_cache_def lift_res_Inr)

lemma add_0_Inr:
  "AddChangeToPlanWithDeps env l 0 c ps s = (Inr ps', t) \<longleftrightarrow>
     cache_contains (committed s) (KeyPatch c) = Inr True \<and> ps' = ps \<and> t = s"
  by (auto simp: wrap_Inr act_bind_Inr in_cache_Inr if_apply split: if_splits)

text \<open>How a change is added: it is committed, or has been seen, or its dependencies come first.\<close>

lemma add_Suc_Inr:
  assumes "AddChangeToPlanWithDeps env l (Suc n) c ps s = (Inr ps', t)"
  shows "ps' = ps \<or> (\<exists>u. add_self c ps u = (Inr ps', t))
    \<or> (\<exists>unc seen v qs w. fold_act (AddChangeToPlanWithDeps env l n) unc (fst ps, seen) v = (Inr qs, w)
         \<and> add_self c qs w = (Inr ps', t))"
proof -
  obtain known where k: "(if known then act_return ps else act_bind (GetDepsForChange env c) (\<lambda>deps.
         act_bind (in_cache c (snd ps)) (\<lambda>seen.
           if seen then add_self c ps
           else act_bind (LookupUncommittedChanges env l deps) (\<lambda>uncommitted.
             act_bind (lift_res (Inject [c] (snd ps))) (\<lambda>seen'.
               act_bind (fold_act (AddChangeToPlanWithDeps env l n) uncommitted (fst ps, seen'))
                 (add_self c)))))) s = (Inr ps', t)"
    using assms by (auto simp: wrap_Inr act_bind_Inr in_cache_Inr)
  show ?thesis
  proof (cases known)
    case False
    with k obtain u seen deps where "(if seen then add_self c ps
           else act_bind (LookupUncommittedChanges env l deps) (\<lambda>uncommitted.
             act_bind (lift_res (Inject [c] (snd ps))) (\<lambda>seen'.
               act_bind (fold_act (AddChangeToPlanWithDeps env l n) uncommitted (fst ps, seen'))
                 (add_self c)))) u = (Inr ps', t)"
      by (auto simp: act_bind_Inr in_cache_Inr)
    then show ?thesis by (cases seen) (simp_all add: act_bind_Inr lift_res_Inr, blast+)
  qed (use k in simp)
qed

lemma add_no_repeats:
  "AddChangeToPlanWithDeps env l n c ps s = (Inr ps', t) \<Longrightarrow> no_repeats (fst ps) \<Longrightarrow> no_repeats (fst ps')"
proof (induction n arbitrary: c ps s ps' t)
  case 0
  then show ?case by (simp add: add_0_Inr del: AddChangeToPlanWithDeps.simps)
next
  case (Suc n)
  have fold: "no_repeats (fst qs)"
    if f: "fold_act (AddChangeToPlanWithDeps env l n) ds (fst ps, x) u = (Inr qs, v)" for ds x u qs v
    by (rule fold_act_invariant[OF f, of "\<lambda>b s. no_repeats (fst b)"]) (use Suc in auto)
  from add_Suc_Inr[OF Suc.prems(1)] show ?case
    using Suc.prems(2) fold add_self_no_repeats by blast
qed

lemma CreateTransaction_no_repeats: "CreateTransaction env l c s = (Inr plan, t) \<Longrightarrow> no_repeats plan"
  by (auto simp: CreateTransaction_def act_bind_Inr dest!: add_no_repeats)

lemma CreateTransactions_step:
  assumes "fold_act (\<lambda>change out s.
       case CreateTransaction env l change s of
         (Inl (PatchExc e), t) \<Rightarrow> (Inr (out @ [(change, [], Some e)]), t)
       | (Inl e, t) \<Rightarrow> (Inl e, t)
       | (Inr plan, t) \<Rightarrow> (Inr (out @ [(change, plan, None)]), t)) cs out s = (Inr ts, t)"
  shows "\<exists>us. ts = out @ us \<and> map fst us = cs \<and> (\<forall>(c, plan, e) \<in> set us. no_repeats plan
    \<and> (e \<noteq> None \<longrightarrow> plan = [] \<and> pq_id (error_patch (the e)) = pq_id c))"
  using assms
proof (induction cs arbitrary: out s)
  case (Cons c cs)
  obtain r u where r: "CreateTransaction env l c s = (r, u)" by force
  have "(\<exists>plan. r = Inr plan) \<or> (\<exists>x. r = Inl (PatchExc x))"
    using Cons.prems r by (auto split: sum.splits series_error.splits)
  then obtain plan e where pe: "r = Inr plan \<and> e = None \<or> r = Inl (PatchExc (the e)) \<and> e \<noteq> None \<and> plan = []"
    by (metis option.sel option.distinct(1))
  then have step: "fold_act (\<lambda>change out s.
       case CreateTransaction env l change s of
         (Inl (PatchExc e), t) \<Rightarrow> (Inr (out @ [(change, [], Some e)]), t)
       | (Inl e, t) \<Rightarrow> (Inl e, t)
       | (Inr plan, t) \<Rightarrow> (Inr (out @ [(change, plan, None)]), t)) cs (out @ [(c, plan, e)]) u = (Inr ts, t)"
    using Cons.prems r by auto
  have "no_repeats plan" using pe r CreateTransaction_no_repeats by auto
  moreover have "e \<noteq> None \<longrightarrow> plan = [] \<and> pq_id (error_patch (the e)) = pq_id c"
    using pe r CreateTransaction_blames[of env l c s "PatchExc (the e)" u] by (auto simp: blames_def)
  ultimately show ?case using Cons.IH[OF step] by auto
qed simp

section \<open>Changes that are told apart\<close>

definition aliases :: "patch_query \<Rightarrow> string list" where
  "aliases q = (case LookupAliases q of Inr as \<Rightarrow> as | Inl e \<Rightarrow> [])"

text \<open>Changes with an id and aliases of their own: what Gerrit's changes are.\<close>

definition identified :: "patch_query list \<Rightarrow> bool" where
  "identified U \<longleftrightarrow> (\<forall>c \<in> set U. pq_id c \<noteq> None \<and> isOk (LookupAliases c) \<and> aliases c \<noteq> []
     \<and> (\<forall>d \<in> set U. c = d \<or> (pq_id c \<noteq> pq_id d \<and> set (aliases c) \<inter> set (aliases d) = {})))"

text \<open>A cache that holds exactly a set of changes, each under all its aliases.\<close>

definition holds :: "patch_cache \<Rightarrow> patch_query set \<Rightarrow> bool" where
  "holds c S \<longleftrightarrow> dict_ok c \<and> (\<forall>k q. dict_get c k = Some q \<longleftrightarrow> q \<in> S \<and> k \<in> set (aliases q))"

lemma holds_Nil [simp]: "holds [] {}"
  by (simp add: holds_def)

lemma identified_aliases: "identified U \<Longrightarrow> c \<in> set U \<Longrightarrow> LookupAliases c = Inr (aliases c) \<and> aliases c \<noteq> []"
  by (auto simp: identified_def aliases_def isOk_iff)

lemma identified_disjoint:
  "identified U \<Longrightarrow> c \<in> set U \<Longrightarrow> d \<in> set U \<Longrightarrow> k \<in> set (aliases c) \<Longrightarrow> k \<in> set (aliases d) \<Longrightarrow> c = d"
  unfolding identified_def by blast

lemma identified_eq: "identified U \<Longrightarrow> c \<in> set U \<Longrightarrow> d \<in> set U \<Longrightarrow> pq_eq c d \<longleftrightarrow> c = d"
  unfolding identified_def pq_eq_def by metis

lemma identified_id: "identified U \<Longrightarrow> c \<in> set U \<Longrightarrow> d \<in> set U \<Longrightarrow> pq_id c = pq_id d \<longleftrightarrow> c = d"
  unfolding identified_def by metis

lemma InjectCustomKeys_ok: "dict_ok c \<Longrightarrow> dict_ok (InjectCustomKeys ks q c)"
  unfolding InjectCustomKeys_def by (induction ks arbitrary: c) (auto simp: dict_ok_set)

lemma holds_inject_one:
  assumes "identified U" "q \<in> set U" "S \<subseteq> set U" "holds c S"
  shows "holds (InjectCustomKeys (aliases q) q c) (insert q S)"
  unfolding holds_def InjectCustomKeys_get
proof (intro conjI allI)
  show "dict_ok (InjectCustomKeys (aliases q) q c)" using assms(4) by (simp add: holds_def InjectCustomKeys_ok)
next
  fix k r
  show "(if k \<in> set (aliases q) then Some q else dict_get c k) = Some r \<longleftrightarrow> r \<in> insert q S \<and> k \<in> set (aliases r)"
    using assms identified_disjoint[OF assms(1,2), of r k] unfolding holds_def by auto
qed

lemma holds_Inject:
  assumes "identified U" "set qs \<subseteq> set U" "S \<subseteq> set U" "holds c S"
  shows "\<exists>d. Inject qs c = Inr d \<and> holds d (S \<union> set qs)"
  using assms(2-4)
proof (induction qs arbitrary: c S)
  case (Cons q qs)
  have q: "LookupAliases q = Inr (aliases q)" using identified_aliases[OF assms(1)] Cons.prems(1) by auto
  have "holds (InjectCustomKeys (aliases q) q c) (insert q S)"
    using holds_inject_one[OF assms(1) _ Cons.prems(2,3)] Cons.prems(1) by auto
  from Cons.IH[OF _ _ this] Cons.prems obtain d where
    "Inject qs (InjectCustomKeys (aliases q) q c) = Inr d" "holds d (insert q S \<union> set qs)" by auto
  then show ?case by (auto simp: Inject_def q)
qed (simp add: Inject_def)

lemma holds_getitem:
  assumes "identified U" "q \<in> set U" "S \<subseteq> set U" "holds c S"
  shows "cache_getitem c (KeyPatch q) = Inr (if q \<in> S then Some q else None)"
proof -
  have a: "LookupAliases q = Inr (aliases q)" "aliases q \<noteq> []" using identified_aliases[OF assms(1,2)] by auto
  have get: "dict_get c k = (if q \<in> S then Some q else None)" if k: "k \<in> set (aliases q)" for k
  proof (cases "dict_get c k")
    case None
    then show ?thesis using assms(4) k unfolding holds_def by (metis option.distinct(1))
  next
    case (Some r)
    then have "r \<in> S" "k \<in> set (aliases r)" using assms(4) unfolding holds_def by blast+
    then have "r = q" using identified_disjoint[OF assms(1) _ assms(2) _ k] assms(3) by blast
    with Some \<open>r \<in> S\<close> show ?thesis by simp
  qed
  have "first_alias c as = (if q \<in> S then Some q else None)" if "set as \<subseteq> set (aliases q)" "as \<noteq> []" for as
    using that
  proof (induction as)
    case (Cons x as)
    then show ?case using get[of x] by (cases "as = []") auto
  qed simp
  then show ?thesis by (simp add: cache_getitem_def a)
qed

lemma holds_contains:
  "identified U \<Longrightarrow> q \<in> set U \<Longrightarrow> S \<subseteq> set U \<Longrightarrow> holds c S \<Longrightarrow> cache_contains c (KeyPatch q) = Inr (q \<in> S)"
  by (simp add: cache_contains_def holds_getitem)

section \<open>Plans in dependency order\<close>

text \<open>
  What the dependencies of a change resolve to when every one of them is committed, ignored or in
  the lookup cache and allowed, so that Gerrit is asked nothing.
\<close>

definition resolve_dep :: "series_env \<Rightarrow> patch_cache option \<Rightarrow> series \<Rightarrow> patch_query \<Rightarrow> patch_query list option" where
  "resolve_dep env l s dep =
     (case cache_contains (committed s) (KeyPatch dep) of Inl e \<Rightarrow> None
      | Inr known \<Rightarrow> if known \<or> dict_get (pool env) (pq_remote dep) \<noteq> Some True then Some []
          else (case cache_getitem (lookup s) (KeyPatch dep) of
             Inr (Some d) \<Rightarrow>
               if already_merged env d then Some []
               else if (case l of None \<Rightarrow> True | Some lc \<Rightarrow> cache_contains lc (KeyPatch d) = Inr True) then Some [d] else None
           | _ \<Rightarrow> None))"

definition known_deps :: "series_env \<Rightarrow> patch_cache option \<Rightarrow> series \<Rightarrow> patch_query \<Rightarrow> patch_query list option" where
  "known_deps env l s change =
     (case gerrit_deps env change of Inl e \<Rightarrow> None
      | Inr qs \<Rightarrow> map_option (\<lambda>dss. filter (deps_filter_fn env) (concat dss)) (those (map (resolve_dep env l s) qs)))"

lemma lookup_dep_known:
  assumes "resolve_dep env l s dep = Some ds"
  shows "lookup_dep env l dep out s = (Inr (out @ ds), s)"
proof -
  from assms obtain known where k: "cache_contains (committed s) (KeyPatch dep) = Inr known"
    by (auto simp: resolve_dep_def split: sum.splits)
  then have ik: "in_cache dep (committed s) s = (Inr known, s)" by (simp add: in_cache_def)
  show ?thesis
  proof (cases "known \<or> dict_get (pool env) (pq_remote dep) \<noteq> Some True")
    case True
    then have "ds = []" using assms k by (auto simp: resolve_dep_def)
    with True ik show ?thesis by (auto simp: lookup_dep_def GetHelper_def)
  next
    case False
    then obtain d where d: "cache_getitem (lookup s) (KeyPatch dep) = Inr (Some d)"
      using assms k by (auto simp: resolve_dep_def split: sum.splits option.splits)
    show ?thesis using assms False k ik d
      by (auto simp: resolve_dep_def lookup_dep_def GetHelper_def in_cache_def split: option.splits if_splits)
  qed
qed

lemma lookup_known:
  assumes "those (map (resolve_dep env l s) qs) = Some dss"
  shows "fold_act (lookup_dep env l) qs out s = (Inr (out @ concat dss), s)"
  using assms
proof (induction qs arbitrary: dss out)
  case (Cons q qs)
  then obtain ds es where "resolve_dep env l s q = Some ds" "those (map (resolve_dep env l s) qs) = Some es" "dss = ds # es"
    by (auto split: option.splits)
  with Cons.IH[of es "out @ ds"] show ?case by (simp add: lookup_dep_known)
qed simp

lemma LookupUncommittedChanges_known:
  assumes "known_deps env l s c = Some ds" "gerrit_deps env c = Inr qs"
  shows "LookupUncommittedChanges env l qs s = (Inr ds, s)"
proof -
  obtain dss where "those (map (resolve_dep env l s) qs) = Some dss" "ds = filter (deps_filter_fn env) (concat dss)"
    using assms by (auto simp: known_deps_def)
  with lookup_known[OF this(1), of "[]"] show ?thesis by (simp add: LookupUncommittedChanges_def)
qed

lemma known_deps_frame: "known_deps env l (s\<lparr>change_deps := x\<rparr>) c = known_deps env l s c"
proof -
  have "resolve_dep env l (s\<lparr>change_deps := x\<rparr>) = resolve_dep env l s" by (simp add: fun_eq_iff resolve_dep_def cong: if_cong sum.case_cong)
  then show ?thesis by (simp add: known_deps_def cong: sum.case_cong)
qed

definition is_committed :: "series \<Rightarrow> patch_query \<Rightarrow> bool" where
  "is_committed s c \<longleftrightarrow> cache_contains (committed s) (KeyPatch c) = Inr True"

text \<open>
  A set of changes on which planning needs no query: told apart, closed under dependencies, none
  of them (through any number of others) a dependency of itself: \<open>rank\<close> decreases along them.
\<close>

definition deps_cached :: "series_env \<Rightarrow> patch_query list \<Rightarrow> series \<Rightarrow> bool" where
  "deps_cached env U s \<longleftrightarrow> (\<forall>p \<in> set (change_deps s). fst p \<in> set U \<and> gerrit_deps env (fst p) = Inr (snd p))"

definition planning_world ::
    "series_env \<Rightarrow> patch_cache option \<Rightarrow> patch_query list \<Rightarrow> series \<Rightarrow> (patch_query \<Rightarrow> patch_query list)
      \<Rightarrow> (patch_query \<Rightarrow> nat) \<Rightarrow> bool" where
  "planning_world env l U s dps rank \<longleftrightarrow> identified U \<and> (\<exists>C \<subseteq> set U. holds (committed s) C) \<and> deps_cached env U s
     \<and> (\<forall>c \<in> set U. known_deps env l s c = Some (dps c) \<and> set (dps c) \<subseteq> set U \<and> (\<forall>d \<in> set (dps c). rank d < rank c))"

definition dep_rel :: "series \<Rightarrow> (patch_query \<Rightarrow> patch_query list) \<Rightarrow> (patch_query \<times> patch_query) set" where
  "dep_rel s dps = {(c, d). d \<in> set (dps c) \<and> \<not> is_committed s d}"

definition ordered :: "series \<Rightarrow> (patch_query \<Rightarrow> patch_query list) \<Rightarrow> patch_query list \<Rightarrow> bool" where
  "ordered s dps p \<longleftrightarrow> (\<forall>i < length p. \<forall>d \<in> set (dps (p ! i)). is_committed s d \<or> d \<in> set (take i p))"

lemma ordered_snoc: "ordered s dps (p @ [c]) \<longleftrightarrow> ordered s dps p \<and> (\<forall>d \<in> set (dps c). is_committed s d \<or> d \<in> set p)"
  unfolding ordered_def by (auto simp: nth_append less_Suc_eq)

lemma ordered_closed:
  assumes "(c, d) \<in> (dep_rel s dps)\<^sup>*" "ordered s dps p" "c \<in> set p"
  shows "d \<in> set p"
  using assms(1)
proof (induction rule: rtrancl_induct)
  case (step d e)
  then obtain i where i: "i < length p" "p ! i = d" by (metis in_set_conv_nth)
  with step(2) assms(2) show ?case unfolding ordered_def dep_rel_def by (auto dest: in_set_takeD)
qed (rule assms)

lemma GetDepsForChange_known:
  assumes "identified U" "c \<in> set U" "deps_cached env U s" "gerrit_deps env c = Inr qs"
  shows "\<exists>x. GetDepsForChange env c s = (Inr qs, s\<lparr>change_deps := x\<rparr>) \<and> deps_cached env U (s\<lparr>change_deps := x\<rparr>)"
proof (cases "find (\<lambda>p. pq_eq (fst p) c) (change_deps s)")
  case None
  with assms show ?thesis
    by (intro exI[of _ "change_deps s @ [(c, qs)]"]) (auto simp: GetDepsForChange_def wrap_Inr deps_cached_def)
next
  case (Some p)
  then have "p \<in> set (change_deps s)" "pq_eq (fst p) c" by (auto simp: find_Some_iff)
  then have "snd p = qs" using assms identified_eq[OF assms(1), of "fst p" c] by (auto simp: deps_cached_def)
  with Some assms(3) show ?thesis by (intro exI[of _ "change_deps s"]) (simp add: GetDepsForChange_def wrap_Inr)
qed

text \<open>A plan under construction: \<open>A\<close> are the changes whose dependencies are being added.\<close>

definition plan_state :: "series_env \<Rightarrow> patch_query list \<Rightarrow> series \<Rightarrow> (patch_query \<Rightarrow> patch_query list) \<Rightarrow> patch_query set
    \<Rightarrow> patch_query list \<times> patch_cache \<Rightarrow> series \<Rightarrow> bool" where
  "plan_state env U s dps A ps t \<longleftrightarrow> (\<exists>x. t = s\<lparr>change_deps := x\<rparr>) \<and> deps_cached env U t \<and> distinct (fst ps)
     \<and> set (fst ps) \<subseteq> set U \<and> ordered s dps (fst ps) \<and> holds (snd ps) (set (fst ps) \<union> A)
     \<and> (\<forall>x \<in> set (fst ps). \<not> is_committed s x)"

definition grows :: "series \<Rightarrow> (patch_query \<Rightarrow> patch_query list) \<Rightarrow> patch_query set \<Rightarrow> patch_query list \<Rightarrow> patch_query list \<Rightarrow> bool" where
  "grows s dps cs p p' \<longleftrightarrow> (\<exists>q. p' = p @ q \<and> (\<forall>x \<in> set q. \<exists>c \<in> cs. (c, x) \<in> (dep_rel s dps)\<^sup>*))
     \<and> (\<forall>c \<in> cs. c \<in> set p')"

lemma grows_Nil [simp]: "grows s dps {} p p"
  by (simp add: grows_def)

lemma grows_trans: "grows s dps cs p q \<Longrightarrow> grows s dps ds q r \<Longrightarrow> grows s dps (cs \<union> ds) p r"
  unfolding grows_def by (elim conjE exE) (simp add: Ball_def, blast)

lemma world_dep:
  "planning_world env l U s dps rank \<Longrightarrow> c \<in> set U \<Longrightarrow> d \<in> set (dps c) \<Longrightarrow> d \<in> set U \<and> rank d < rank c"
  unfolding planning_world_def by blast

lemma rank_reach:
  assumes "(c, d) \<in> (dep_rel s dps)\<^sup>*" "planning_world env l U s dps rank" "c \<in> set U"
  shows "d \<in> set U \<and> rank d \<le> rank c"
  using assms(1)
proof (induction rule: rtrancl_induct)
  case (step d e)
  then have "e \<in> set (dps d)" by (simp add: dep_rel_def)
  then have "e \<in> set U" "rank e < rank d" using step(3) world_dep[OF assms(2)] by blast+
  with step(3) show ?case by simp
qed (use assms in simp)

lemma fold_plan:
  assumes add: "\<And>c ps t. c \<in> set cs \<Longrightarrow> plan_state env U s dps A ps t \<Longrightarrow>
      \<exists>ps' t'. add c ps t = (Inr ps', t') \<and> plan_state env U s dps A ps' t'
        \<and> grows s dps (if is_committed s c then {} else {c}) (fst ps) (fst ps')"
    and "plan_state env U s dps A ps t"
  shows "\<exists>ps' t'. fold_act add cs ps t = (Inr ps', t') \<and> plan_state env U s dps A ps' t'
    \<and> grows s dps {c \<in> set cs. \<not> is_committed s c} (fst ps) (fst ps')"
  using assms
proof (induction cs arbitrary: ps t)
  case (Cons c cs)
  obtain ps1 t1 where 1: "add c ps t = (Inr ps1, t1)" "plan_state env U s dps A ps1 t1"
    "grows s dps (if is_committed s c then {} else {c}) (fst ps) (fst ps1)"
    using Cons.prems(1)[of c ps t] Cons.prems(2) by auto
  have "\<exists>ps' t'. fold_act add cs ps1 t1 = (Inr ps', t') \<and> plan_state env U s dps A ps' t'
    \<and> grows s dps {c \<in> set cs. \<not> is_committed s c} (fst ps1) (fst ps')"
    by (rule Cons.IH[OF _ 1(2)]) (rule Cons.prems(1), simp_all)
  then obtain ps2 t2 where 2: "fold_act add cs ps1 t1 = (Inr ps2, t2)" "plan_state env U s dps A ps2 t2"
    "grows s dps {c \<in> set cs. \<not> is_committed s c} (fst ps1) (fst ps2)" by blast
  have "{d \<in> set (c # cs). \<not> is_committed s d} = (if is_committed s c then {} else {c}) \<union> {c \<in> set cs. \<not> is_committed s c}"
    by auto
  with grows_trans[OF 1(3) 2(3)] 1(1) 2(1,2) show ?case by simp
qed simp

lemma in_list_iff: "identified U \<Longrightarrow> c \<in> set U \<Longrightarrow> set p \<subseteq> set U \<Longrightarrow> in_list c p \<longleftrightarrow> c \<in> set p"
  unfolding in_list_def using identified_eq by blast

lemma plan_state_push:
  assumes w: "planning_world env l U s dps rank" and c: "c \<in> set U" and A: "A \<subseteq> set U"
    and st: "plan_state env U s dps A ps t"
  shows "\<exists>seen. Inject [c] (snd ps) = Inr seen \<and> plan_state env U s dps (insert c A) (fst ps, seen) t"
proof -
  have U: "identified U" using w by (simp add: planning_world_def)
  have h: "set (fst ps) \<union> A \<subseteq> set U" "holds (snd ps) (set (fst ps) \<union> A)"
    using st A by (auto simp: plan_state_def)
  have "set [c] \<subseteq> set U" using c by simp
  then obtain d where "Inject [c] (snd ps) = Inr d" "holds d ((set (fst ps) \<union> A) \<union> set [c])"
    using holds_Inject[OF U _ h] by blast
  moreover from this have "holds d (set (fst ps) \<union> insert c A)" by (simp add: Un_commute)
  ultimately show ?thesis using st by (simp add: plan_state_def)
qed

lemma plan_state_snoc:
  assumes "plan_state env U s dps (insert c A) ps t" "c \<in> set U" "c \<notin> set (fst ps)" "\<not> is_committed s c"
    "\<forall>d \<in> set (dps c). is_committed s d \<or> d \<in> set (fst ps)"
  shows "plan_state env U s dps A (fst ps @ [c], snd ps) t"
  using assms by (auto simp: plan_state_def ordered_snoc)

text \<open>The step of the induction: the dependencies of \<open>c\<close> are added before it.\<close>

lemma add_plan_step:
  assumes w: "planning_world env l U s dps rank" and c: "c \<in> set U" and A: "A \<subseteq> set U" "\<forall>a \<in> A. rank c < rank a"
    and st: "plan_state env U s dps A ps t" and nc: "\<not> is_committed s c"
    and rec: "\<And>d ps t. d \<in> set (dps c) \<Longrightarrow> plan_state env U s dps (insert c A) ps t \<Longrightarrow>
      \<exists>ps' t'. AddChangeToPlanWithDeps env l n d ps t = (Inr ps', t') \<and> plan_state env U s dps (insert c A) ps' t'
        \<and> grows s dps (if is_committed s d then {} else {d}) (fst ps) (fst ps')"
  shows "\<exists>ps' t'. AddChangeToPlanWithDeps env l (Suc n) c ps t = (Inr ps', t') \<and> plan_state env U s dps A ps' t'
    \<and> grows s dps {c} (fst ps) (fst ps')"
proof -
  have U: "identified U" and deps: "known_deps env l s c = Some (dps c)" using w c by (auto simp: planning_world_def)
  obtain C where C: "C \<subseteq> set U" "holds (committed s) C" using w by (auto simp: planning_world_def)
  have t: "\<exists>x. t = s\<lparr>change_deps := x\<rparr>" and cached: "deps_cached env U t" and p: "set (fst ps) \<subseteq> set U"
    using st by (auto simp: plan_state_def)
  have "cache_contains (committed t) (KeyPatch c) = Inr (c \<in> C)"
    using holds_contains[OF U c C] t by auto
  then have known: "in_cache c (committed t) t = (Inr False, t)"
    using nc holds_contains[OF U c C] by (simp add: in_cache_def is_committed_def)
  obtain qs where qs: "gerrit_deps env c = Inr qs" using deps by (auto simp: known_deps_def split: sum.splits)
  obtain t1 where t1: "GetDepsForChange env c t = (Inr qs, t1)" "deps_cached env U t1" "\<exists>x. t1 = s\<lparr>change_deps := x\<rparr>"
    using GetDepsForChange_known[OF U c cached qs] t by force
  have st1: "plan_state env U s dps A ps t1" using st t1 by (simp add: plan_state_def)
  have "cache_contains (snd ps) (KeyPatch c) = Inr (c \<in> set (fst ps) \<union> A)"
    by (rule holds_contains[OF U c]) (use p A(1) st in \<open>auto simp: plan_state_def\<close>)
  moreover have "c \<notin> A" using A(2) by auto
  ultimately have seen: "in_cache c (snd ps) u = (Inr (c \<in> set (fst ps)), u)" for u by (simp add: in_cache_def)
  have il: "in_list c (fst ps) \<longleftrightarrow> c \<in> set (fst ps)" by (rule in_list_iff[OF U c p])
  show ?thesis
  proof (cases "c \<in> set (fst ps)")
    case True
    then have "AddChangeToPlanWithDeps env l (Suc n) c ps t = (Inr ps, t1)"
      by (simp add: wrap_Inr act_bind_def known t1(1) seen add_self_def il)
    with st1 True show ?thesis by (simp add: grows_def)
  next
    case False
    have lk: "LookupUncommittedChanges env l qs t1 = (Inr (dps c), t1)"
      by (rule LookupUncommittedChanges_known[OF _ qs]) (use t1(3) deps in \<open>auto simp: known_deps_frame\<close>)
    obtain d where d: "Inject [c] (snd ps) = Inr d" "plan_state env U s dps (insert c A) (fst ps, d) t1"
      using plan_state_push[OF w c A(1) st1] by blast
    obtain ps2 t2 where f: "fold_act (AddChangeToPlanWithDeps env l n) (dps c) (fst ps, d) t1 = (Inr ps2, t2)"
      "plan_state env U s dps (insert c A) ps2 t2" "grows s dps {x \<in> set (dps c). \<not> is_committed s x} (fst ps) (fst ps2)"
      using fold_plan[of "dps c" env U s dps "insert c A" "AddChangeToPlanWithDeps env l n", OF rec d(2)] by auto
    obtain q where q: "fst ps2 = fst ps @ q" "\<forall>x \<in> set q. \<exists>e. e \<in> set (dps c) \<and> \<not> is_committed s e \<and> (e, x) \<in> (dep_rel s dps)\<^sup>*"
      using f(3) by (auto simp: grows_def)
    have before: "\<forall>e \<in> set (dps c). is_committed s e \<or> e \<in> set (fst ps2)" using f(3) unfolding grows_def by blast
    have "rank x < rank c" if x: "x \<in> set q" for x
    proof -
      obtain e where e: "e \<in> set (dps c)" "(e, x) \<in> (dep_rel s dps)\<^sup>*" using q(2) x by blast
      then have "e \<in> set U" "rank e < rank c" using w c by (auto simp: planning_world_def)
      with rank_reach[OF e(2) w] show ?thesis by auto
    qed
    then have new: "c \<notin> set (fst ps2)" using False q(1) by auto
    have p2: "set (fst ps2) \<subseteq> set U" using f(2) by (simp add: plan_state_def)
    have "AddChangeToPlanWithDeps env l (Suc n) c ps t = (Inr (fst ps2 @ [c], snd ps2), t2)"
      using new False by (simp add: wrap_Inr act_bind_def known t1(1) seen lk d(1) f(1) add_self_def in_list_iff[OF U c p2])
    moreover have "plan_state env U s dps A (fst ps2 @ [c], snd ps2) t2"
      by (rule plan_state_snoc[OF f(2) c new nc before])
    moreover have "grows s dps {c} (fst ps) (fst ps2 @ [c])"
      using q(1,2) by (auto simp: grows_def dep_rel_def intro: converse_rtrancl_into_rtrancl)
    ultimately show ?thesis by auto
  qed
qed

lemma add_plan:
  assumes w: "planning_world env l U s dps rank"
  shows "c \<in> set U \<Longrightarrow> rank c < n \<Longrightarrow> A \<subseteq> set U \<Longrightarrow> \<forall>a \<in> A. rank c < rank a \<Longrightarrow> plan_state env U s dps A ps t \<Longrightarrow>
    \<exists>ps' t'. AddChangeToPlanWithDeps env l n c ps t = (Inr ps', t') \<and> plan_state env U s dps A ps' t'
      \<and> grows s dps (if is_committed s c then {} else {c}) (fst ps) (fst ps')"
proof (induction n arbitrary: c A ps t)
  case (Suc n)
  show ?case
  proof (cases "is_committed s c")
    case True
    have "committed t = committed s" using Suc.prems(5) by (auto simp: plan_state_def)
    then have "in_cache c (committed t) t = (Inr True, t)" using True by (simp add: in_cache_def is_committed_def)
    then have "AddChangeToPlanWithDeps env l (Suc n) c ps t = (Inr ps, t)" by (simp add: wrap_Inr act_bind_def)
    with Suc.prems(5) True show ?thesis by simp
  next
    case False
    have "\<exists>ps' t'. AddChangeToPlanWithDeps env l n d ps t = (Inr ps', t') \<and> plan_state env U s dps (insert c A) ps' t'
        \<and> grows s dps (if is_committed s d then {} else {d}) (fst ps) (fst ps')"
      if d: "d \<in> set (dps c)" and st: "plan_state env U s dps (insert c A) ps t" for d ps t
    proof (rule Suc.IH[OF _ _ _ _ st])
      note dep = world_dep[OF w Suc.prems(1) d]
      then show "d \<in> set U" "rank d < n" using Suc.prems(2) by simp_all
      show "insert c A \<subseteq> set U" using Suc.prems(1,3) by simp
      show "\<forall>a \<in> insert c A. rank d < rank a" using dep Suc.prems(4) by auto
    qed
    from add_plan_step[OF w Suc.prems(1,3,4,5) False this] False show ?thesis by simp
  qed
qed simp

section \<open>Properties of the plans\<close>

text \<open>
  \<open>CreateTransactions\<close> answers for every change in turn: a plan in which no change is repeated, or no
  plan and an exception that blames this change, whichever dependency failed.
\<close>

theorem create_transactions_blame:
  assumes "CreateTransactions env limit_to changes s = (Inr ts, t)"
  shows "map fst ts = changes \<and> (\<forall>(c, plan, e) \<in> set ts. sorted_wrt (\<lambda>x y. \<not> pq_eq x y) plan
    \<and> (e \<noteq> None \<longrightarrow> plan = [] \<and> pq_id (error_patch (the e)) = pq_id c))"
  using CreateTransactions_step[OF assms[unfolded CreateTransactions_def]] by auto

definition numbered :: "string \<Rightarrow> patch_query" where
  "numbered n = \<lparr>pq_remote = EXTERNAL_REMOTE, pq_project = Some ''p'', pq_branch = Some ''main'', pq_change_id = None,
     pq_sha1 = None, pq_number = Some n, pq_full_id = None, pq_id = Some n\<rparr>"

text \<open>Three changes: 1 depends on 2 and 3, and 2 on 3. What 2 applies conflicts.\<close>

definition chain_env :: series_env where
  "chain_env = \<lparr>pool = HelperPool False True, query_single = (\<lambda>r n m. Inl ''QueryHasNoResults''),
     gerrit_deps = (\<lambda>c. Inr (if pq_number c = Some ''1'' then [numbered ''2'', numbered ''3'']
       else if pq_number c = Some ''2'' then [numbered ''3''] else [])),
     already_merged = (\<lambda>c. False), merge_exception = (\<lambda>c. None), deps_filter_fn = (\<lambda>c. True),
     checkouts = (\<lambda>c. [''r'']), fetched = (\<lambda>r c. c),
     apply_change = (\<lambda>c h. if pq_number c = Some ''2'' then (h(''r'' := ''conflict''), Some (PatchFailure c ''ApplyPatchException'' True))
       else (h(''r'' := h ''r'' @ the (pq_number c)), None))\<rparr>"

definition chain_series :: series where
  "chain_series = \<lparr>committed = [],
     lookup = (case PatchCache (map numbered [''1'', ''2'', ''3'']) of Inr c \<Rightarrow> c | Inl e \<Rightarrow> []),
     change_deps = [], failed_tot = [], is_submitting = False, heads = (\<lambda>r. ''h'')\<rparr>"

theorem create_transactions_blame_witness:
  "\<exists>ts t. CreateTransactions chain_env (Some []) [numbered ''2''] chain_series = (Inr ts, t)
    \<and> pq_id (error_patch (the (snd (snd (hd ts))))) = Some ''2''"
proof -
  let ?r = "CreateTransactions chain_env (Some []) [numbered ''2''] chain_series"
  have "(case fst ?r of Inr ts \<Rightarrow> ts \<noteq> [] \<and> fst (hd ts) = numbered ''2'' \<and> snd (snd (hd ts)) \<noteq> None | Inl e \<Rightarrow> False)"
    by code_simp
  then obtain ts t where ts: "?r = (Inr ts, t)" "ts \<noteq> []" "fst (hd ts) = numbered ''2''" "snd (snd (hd ts)) \<noteq> None"
    by (cases ?r) (auto split: sum.splits)
  have "hd ts \<in> set ts" using ts(2) by simp
  then have "pq_id (error_patch (the (snd (snd (hd ts))))) = pq_id (fst (hd ts))"
    using create_transactions_blame[OF ts(1)] ts(4) by (auto simp: case_prod_unfold)
  moreover have "pq_id (numbered ''2'') = Some ''2''" by (simp add: numbered_def)
  ultimately show ?thesis using ts by simp
qed

text \<open>
  C1. On changes whose dependencies are known without cycles and less than \<open>MAX_PLAN_RECURSION\<close> deep,
  \<open>CreateTransaction\<close> returns, changes nothing but the cache of dependencies, and its plan is the change
  with its uncommitted dependencies, direct and indirect: each of them once, none but them, and
  every one after the dependencies it needs.
\<close>

theorem create_transaction_plan:
  assumes "planning_world env limit_to U s dps rank" "c \<in> set U" "rank c < MAX_PLAN_RECURSION"
  shows "\<exists>plan deps_cache. CreateTransaction env limit_to c s = (Inr plan, s\<lparr>change_deps := deps_cache\<rparr>)
    \<and> distinct plan \<and> set plan = (if is_committed s c then {} else {d. (c, d) \<in> (dep_rel s dps)\<^sup>*})
    \<and> (\<forall>i < length plan. \<forall>d \<in> set (dps (plan ! i)). is_committed s d \<or> d \<in> set (take i plan))"
proof -
  have "\<exists>x. s = s\<lparr>change_deps := x\<rparr>" by (rule exI[of _ "change_deps s"]) simp
  then have "plan_state env U s dps {} ([], []) s"
    using assms(1) by (simp add: plan_state_def planning_world_def ordered_def)
  from add_plan[OF assms _ _ this] obtain ps t where ps: "AddChangeToPlanWithDeps env limit_to MAX_PLAN_RECURSION c ([], []) s = (Inr ps, t)"
    "plan_state env U s dps {} ps t" "grows s dps (if is_committed s c then {} else {c}) [] (fst ps)" by auto
  have tr: "CreateTransaction env limit_to c s = (Inr (fst ps), t)"
    unfolding CreateTransaction_def act_bind_def ps(1) by simp
  have ord: "ordered s dps (fst ps)" using ps(2) by (simp add: plan_state_def)
  have "set (fst ps) = (if is_committed s c then {} else {d. (c, d) \<in> (dep_rel s dps)\<^sup>*})"
    using ps(3) ordered_closed[OF _ ord, of c] by (auto simp: grows_def)
  moreover have "distinct (fst ps)" "\<exists>x. t = s\<lparr>change_deps := x\<rparr>" using ps(2) by (auto simp: plan_state_def)
  ultimately show ?thesis using tr ord by (auto simp: ordered_def)
qed

theorem create_transaction_plan_witness:
  "\<exists>plan x. CreateTransaction chain_env None (numbered ''1'') chain_series = (Inr plan, chain_series\<lparr>change_deps := x\<rparr>)
    \<and> distinct plan"
proof -
  let ?U = "map numbered [''1'', ''2'', ''3'']"
  let ?dps = "\<lambda>c. if c = numbered ''1'' then [numbered ''2'', numbered ''3''] else if c = numbered ''2'' then [numbered ''3''] else []"
  let ?rank = "\<lambda>c. if c = numbered ''1'' then 2 else if c = numbered ''2'' then 1 else 0 :: nat"
  have "identified ?U" by code_simp
  moreover have "holds (committed chain_series) {}" "deps_cached chain_env ?U chain_series"
    by (simp_all add: chain_series_def deps_cached_def)
  moreover have "\<forall>c \<in> set ?U. known_deps chain_env None chain_series c = Some (?dps c) \<and> set (?dps c) \<subseteq> set ?U
      \<and> (\<forall>d \<in> set (?dps c). ?rank d < ?rank c)" by code_simp
  ultimately have w: "planning_world chain_env None ?U chain_series ?dps ?rank" unfolding planning_world_def by blast
  have "?rank (numbered ''1'') < MAX_PLAN_RECURSION" by code_simp
  from create_transaction_plan[OF w _ this] show ?thesis by auto
qed

section \<open>Applying transactions\<close>

lemma distinct_by_set: "set (distinct_by eq xs) \<subseteq> set xs"
  by (induction xs) auto

lemma distinct_by_append:
  "distinct_by eq (xs @ ys) = distinct_by eq xs @ filter (\<lambda>y. \<forall>x \<in> set xs. \<not> eq x y) (distinct_by eq ys)"
  by (induction xs) (auto simp: conj_commute)

lemma distinct_by_id: "sorted_wrt (\<lambda>x y. \<not> eq x y) xs \<Longrightarrow> distinct_by eq xs = xs"
  by (induction xs) (auto simp: filter_id_conv)

lemma distinct_by_identified:
  assumes "identified U" "set xs \<subseteq> set U"
  shows "set (distinct_by pq_eq xs) = set xs"
  using assms(2)
proof (induction xs)
  case (Cons x xs)
  then have "pq_eq x y \<longleftrightarrow> x = y" if "y \<in> set xs" for y using identified_eq[OF assms(1)] that by auto
  with Cons show ?case by auto
qed simp

text \<open>The copy of a cache that holds a set of changes holds the same set.\<close>

lemma holds_copy:
  assumes "identified U" "S \<subseteq> set U" "holds c S"
  shows "\<exists>d. cache_copy c = Inr d \<and> holds d S"
proof -
  have mem: "(k, q) \<in> set c \<longleftrightarrow> q \<in> S \<and> k \<in> set (aliases q)" for k q
    using assms(3) unfolding holds_def dict_ok_def dict_get_def by (metis map_of_eq_Some_iff)
  have "q \<in> snd ` set c" if q: "q \<in> S" for q
  proof -
    obtain k where "k \<in> set (aliases q)"
      using identified_aliases[OF assms(1)] q assms(2) by (metis list.set_sel(1) subsetD)
    with mem q show ?thesis by force
  qed
  then have "snd ` set c = S" using mem by force
  then have v: "set (cache_values c) = S"
    using distinct_by_identified[OF assms(1), of "map snd c"] assms(2) by (simp add: cache_values_def)
  show ?thesis
    using holds_Inject[OF assms(1) _ empty_subsetI holds_Nil, of "cache_values c"] assms(2)
    by (simp add: cache_copy_def PatchCache_def v)
qed

fun apply_all :: "series_env \<Rightarrow> patch_query list \<Rightarrow> heads \<Rightarrow> heads option" where
  "apply_all env [] h = Some h"
| "apply_all env (c # cs) h = (case apply_change env c h of (h', None) \<Rightarrow> apply_all env cs h' | (h', Some e) \<Rightarrow> None)"

lemma apply_all_append:
  "apply_all env (xs @ ys) h = (case apply_all env xs h of None \<Rightarrow> None | Some h' \<Rightarrow> apply_all env ys h')"
  by (induction xs arbitrary: h) (auto split: prod.splits option.splits)

text \<open>
  What is relied on of git: applying a change, whether it succeeds or not, moves no checkout but
  those of the change, and every checkout stays at some commit.
\<close>

definition confined :: "series_env \<Rightarrow> patch_query list \<Rightarrow> bool" where
  "confined env U \<longleftrightarrow> (\<forall>c \<in> set U. \<forall>h. (\<forall>r. h r \<noteq> []) \<longrightarrow>
     (\<forall>r. fst (apply_change env c h) r \<noteq> [] \<and> (r \<notin> set (checkouts env c) \<longrightarrow> fst (apply_change env c h) r = h r)))"

definition touched :: "series_env \<Rightarrow> patch_query list \<Rightarrow> string set" where
  "touched env cs = (\<Union>c \<in> set cs. set (checkouts env c))"

lemma apply_one_known:
  assumes "identified U" "holds (committed s) C" "C \<subseteq> set U" "c \<in> set U"
  shows "apply_one env c u s = (if c \<in> C then (Inr (), s)
    else (case apply_change env c (heads s) of
          (h, None) \<Rightarrow> (Inr (), s\<lparr>heads := h\<rparr>)
        | (h, Some e) \<Rightarrow>
            (Inl (PatchExc e),
             s\<lparr>heads := h,
               failed_tot := (if error_inflight e then failed_tot s else dict_set (failed_tot s) (pq_id c) e)\<rparr>)))"
  using holds_contains[OF assms(1,4,3,2)] by (simp add: apply_one_def act_bind_def in_cache_def)

lemma fold_apply:
  assumes U: "identified U" "C \<subseteq> set U" and git: "confined env U"
    and "holds (committed s) C" "set cs \<subseteq> set U" "\<forall>r. heads s r \<noteq> []"
  shows "\<exists>r t. fold_act (apply_one env) cs () s = (r, t) \<and> committed t = committed s \<and> (\<forall>r. heads t r \<noteq> [])
    \<and> (\<forall>r. r \<notin> touched env cs \<longrightarrow> heads t r = heads s r)
    \<and> (r = Inr () \<and> apply_all env (filter (\<lambda>c. c \<notin> C) cs) (heads s) = Some (heads t) \<or> (\<exists>e. r = Inl (PatchExc e)))"
  using assms(4-6)
proof (induction cs arbitrary: s)
  case (Cons c cs)
  have c: "c \<in> set U" using Cons.prems by simp
  note one = apply_one_known[OF U(1) Cons.prems(1) U(2) c]
  show ?case
  proof (cases "c \<in> C")
    case True
    with one have "fold_act (apply_one env) (c # cs) () s = fold_act (apply_one env) cs () s" by simp
    with Cons.IH[OF Cons.prems(1) _ Cons.prems(3)] Cons.prems(2) True show ?thesis by (auto simp: touched_def)
  next
    case False
    obtain h r where h: "apply_change env c (heads s) = (h, r)" by force
    then have ok: "\<forall>x. h x \<noteq> []" "\<forall>x. x \<notin> set (checkouts env c) \<longrightarrow> h x = heads s x"
      using git c Cons.prems(3) by (auto simp: confined_def) (metis fst_conv)+
    show ?thesis
    proof (cases r)
      case None
      have step: "fold_act (apply_one env) (c # cs) () s = fold_act (apply_one env) cs () (s\<lparr>heads := h\<rparr>)"
        using one False h None by simp
      have "\<exists>r t. fold_act (apply_one env) cs () (s\<lparr>heads := h\<rparr>) = (r, t) \<and> committed t = committed (s\<lparr>heads := h\<rparr>)
        \<and> (\<forall>r. heads t r \<noteq> []) \<and> (\<forall>r. r \<notin> touched env cs \<longrightarrow> heads t r = heads (s\<lparr>heads := h\<rparr>) r)
        \<and> (r = Inr () \<and> apply_all env (filter (\<lambda>c. c \<notin> C) cs) (heads (s\<lparr>heads := h\<rparr>)) = Some (heads t) \<or> (\<exists>e. r = Inl (PatchExc e)))"
        by (rule Cons.IH) (use Cons.prems ok in auto)
      then show ?thesis unfolding step using ok(2) False h None by (auto simp: touched_def)
    next
      case (Some e)
      then show ?thesis using one False h ok by (auto simp: touched_def)
    qed
  qed
qed simp

lemma reset_heads_get:
  "distinct rs \<Longrightarrow> reset_heads (map (\<lambda>r. (r, h r)) rs) h' r = (if r \<in> set rs then h r else h' r)"
  unfolding reset_heads_def by (induction rs arbitrary: h') auto

lemma all_repos_touched: "all_repos env cs = Inr rs \<Longrightarrow> set rs = touched env cs"
  by (induction cs arbitrary: rs) (auto simp: touched_def GetGitReposForChange_def res_bind_Inr split: if_splits)

lemma all_repos_error:
  "all_repos env cs = Inl e \<Longrightarrow> \<exists>c \<in> set cs. e = PatchExc (PatchFailure c ''ChangeNotInManifest'' False)"
  by (induction cs) (auto simp: GetGitReposForChange_def res_bind_Inl split: if_splits)

lemma wrap_patch_error:
  assumes "m s = (Inl (PatchExc e), t)"
  shows "\<exists>e'. PatchWrapException c m s = (Inl (PatchExc e'), t) \<and> pq_id (error_patch e') = pq_id c"
  using assms by (auto simp: PatchWrapException_def)

text \<open>A transaction is applied as a whole, or fails and leaves the checkouts and the committed changes as they were.\<close>

definition all_or_nothing :: "series_env \<Rightarrow> patch_query set \<Rightarrow> patch_query list \<Rightarrow> patch_query list \<Rightarrow> series
    \<Rightarrow> (series_error + unit) \<times> series \<Rightarrow> bool" where
  "all_or_nothing env C blamed plan s result \<longleftrightarrow> holds (committed (snd result)) C
     \<and> ((fst result = Inr () \<and> apply_all env (filter (\<lambda>c. c \<notin> C) plan) (heads s) = Some (heads (snd result))
           \<and> (\<forall>r. heads (snd result) r \<noteq> []))
      \<or> (heads (snd result) = heads s
           \<and> (\<exists>e. fst result = Inl (PatchExc e) \<and> pq_id (error_patch e) \<in> pq_id ` set blamed)))"

lemma ApplyChanges_cases:
  assumes U: "identified U" "C \<subseteq> set U" and git: "confined env U"
    and s: "holds (committed s) C" "set plan \<subseteq> set U" "\<forall>r. heads s r \<noteq> []"
  shows "\<exists>r t. ApplyChanges env c plan s = (r, t) \<and> committed t = committed s \<and> (\<forall>r. heads t r \<noteq> [])
    \<and> (\<forall>r. r \<notin> touched env plan \<longrightarrow> heads t r = heads s r)
    \<and> (r = Inr () \<and> apply_all env (filter (\<lambda>c. c \<notin> C) plan) (heads s) = Some (heads t)
       \<or> (\<exists>e. r = Inl (PatchExc e) \<and> pq_id (error_patch e) = pq_id c))"
proof -
  let ?m = "\<lambda>s. case List.map_filter (\<lambda>c. dict_get (failed_tot s) (pq_id c)) plan of
       failure # _ \<Rightarrow> (Inl (PatchExc failure), s) | [] \<Rightarrow> fold_act (apply_one env) plan () s"
  have "\<exists>r t. ?m s = (r, t) \<and> committed t = committed s \<and> (\<forall>r. heads t r \<noteq> [])
    \<and> (\<forall>r. r \<notin> touched env plan \<longrightarrow> heads t r = heads s r)
    \<and> (r = Inr () \<and> apply_all env (filter (\<lambda>c. c \<notin> C) plan) (heads s) = Some (heads t) \<or> (\<exists>e. r = Inl (PatchExc e)))"
    using fold_apply[OF U git s] s(3) by (auto split: list.splits)
  then obtain r t where m: "?m s = (r, t)" "committed t = committed s" "\<forall>r. heads t r \<noteq> []"
    "\<forall>r. r \<notin> touched env plan \<longrightarrow> heads t r = heads s r"
    "r = Inr () \<and> apply_all env (filter (\<lambda>c. c \<notin> C) plan) (heads s) = Some (heads t) \<or> (\<exists>e. r = Inl (PatchExc e))"
    by blast
  from m(5) show ?thesis
  proof
    assume r: "r = Inr () \<and> apply_all env (filter (\<lambda>c. c \<notin> C) plan) (heads s) = Some (heads t)"
    then have "ApplyChanges env c plan s = (Inr (), t)" using m(1) unfolding ApplyChanges_def wrap_Inr by simp
    with m(2-4) r show ?thesis by blast
  next
    assume "\<exists>e. r = Inl (PatchExc e)"
    then obtain e where "?m s = (Inl (PatchExc e), t)" using m(1) by blast
    from wrap_patch_error[of ?m s e t c, OF this] m(2-4) show ?thesis unfolding ApplyChanges_def by blast
  qed
qed

lemma Transaction_run:
  assumes "all_repos env cs = Inr repos" "\<forall>r. heads s r \<noteq> []" "cache_copy (committed s) = Inr saved" "body s = (r, t)"
  shows "Transaction env cs body s = (case r of
      Inl e \<Rightarrow> (Inl e, t\<lparr>heads := reset_heads (map (\<lambda>r. (r, heads s r)) (remdups repos)) (heads t), committed := saved\<rparr>)
    | Inr a \<Rightarrow> (Inr a, t))"
proof -
  have "\<not> (\<exists>p \<in> set (map (\<lambda>r. (r, heads s r)) (remdups repos)). snd p = [])" using assms(2) by auto
  then show ?thesis using assms by (simp add: Transaction_def act_bind_def)
qed

lemma Transaction_cases:
  assumes U: "identified U" "C \<subseteq> set U" and git: "confined env U"
    and s: "holds (committed s) C" "set plan \<subseteq> set U" "\<forall>r. heads s r \<noteq> []"
  shows "all_or_nothing env C (c # plan) plan s (Transaction env plan (ApplyChanges env c plan) s)"
proof (cases "all_repos env plan")
  case (Inl e)
  then have "Transaction env plan (ApplyChanges env c plan) s = (Inl e, s)" by (simp add: Transaction_def)
  moreover obtain d where d: "d \<in> set plan" "e = PatchExc (PatchFailure d ''ChangeNotInManifest'' False)"
    using all_repos_error[OF Inl] by blast
  ultimately show ?thesis unfolding all_or_nothing_def using s(1) d(1) by simp
next
  case (Inr repos)
  note rs = all_repos_touched[OF Inr]
  obtain saved where saved: "cache_copy (committed s) = Inr saved" "holds saved C"
    using holds_copy[OF U(1,2) s(1)] by blast
  obtain r t where r: "ApplyChanges env c plan s = (r, t)" "committed t = committed s" "\<forall>r. heads t r \<noteq> []"
    "\<forall>r. r \<notin> touched env plan \<longrightarrow> heads t r = heads s r"
    "r = Inr () \<and> apply_all env (filter (\<lambda>c. c \<notin> C) plan) (heads s) = Some (heads t)
       \<or> (\<exists>e. r = Inl (PatchExc e) \<and> pq_id (error_patch e) = pq_id c)"
    using ApplyChanges_cases[OF U git s, of c] by (elim exE conjE) (rule that)
  have tr: "Transaction env plan (ApplyChanges env c plan) s = (case r of
      Inl e \<Rightarrow> (Inl e, t\<lparr>heads := reset_heads (map (\<lambda>r. (r, heads s r)) (remdups repos)) (heads t), committed := saved\<rparr>)
    | Inr a \<Rightarrow> (Inr a, t))"
    by (rule Transaction_run) (fact Inr s(3) saved(1) r(1))+
  have restored: "reset_heads (map (\<lambda>r. (r, heads s r)) (remdups repos)) (heads t) = heads s"
    using r(4) rs by (auto simp: fun_eq_iff reset_heads_get)
  from r(5) show ?thesis
  proof
    assume "r = Inr () \<and> apply_all env (filter (\<lambda>c. c \<notin> C) plan) (heads s) = Some (heads t)"
    with r(2,3) s(1) show ?thesis unfolding tr all_or_nothing_def by simp
  next
    assume "\<exists>e. r = Inl (PatchExc e) \<and> pq_id (error_patch e) = pq_id c"
    then obtain e where e: "r = Inl (PatchExc e)" "pq_id (error_patch e) = pq_id c" by blast
    show ?thesis unfolding tr all_or_nothing_def e(1) using saved(2) restored e(2) by simp
  qed
qed

lemma try_transaction_cases:
  assumes U: "identified U" "C \<subseteq> set U" and git: "confined env U"
    and s: "holds (committed s) C" "set plan \<subseteq> set U" "\<forall>r. heads s r \<noteq> []"
  shows "\<exists>a f t. try_transaction env (c, plan) (applied, failed) s = (Inr (a, f), t) \<and> (\<forall>r. heads t r \<noteq> [])
    \<and> ((a = applied @ plan \<and> f = failed \<and> apply_all env (filter (\<lambda>c. c \<notin> C) plan) (heads s) = Some (heads t)
          \<and> holds (committed t) (C \<union> set plan))
     \<or> (\<exists>e. a = applied \<and> f = failed @ [e] \<and> heads t = heads s \<and> holds (committed t) C
          \<and> pq_id (error_patch e) \<in> pq_id ` set (c # plan)))"
proof -
  obtain r t where rt: "Transaction env plan (ApplyChanges env c plan) s = (r, t)" by force
  have "all_or_nothing env C (c # plan) plan s (r, t)" using Transaction_cases[OF U git s, of c] unfolding rt .
  then consider "r = Inr ()" "apply_all env (filter (\<lambda>c. c \<notin> C) plan) (heads s) = Some (heads t)" "\<forall>r. heads t r \<noteq> []"
      "holds (committed t) C"
    | e where "r = Inl (PatchExc e)" "heads t = heads s" "holds (committed t) C" "pq_id (error_patch e) \<in> pq_id ` set (c # plan)"
    by (auto simp: all_or_nothing_def)
  then show ?thesis
  proof cases
    case 1
    obtain d where "Inject plan (committed t) = Inr d" "holds d (C \<union> set plan)"
      using holds_Inject[OF U(1) s(2) U(2) 1(4)] by blast
    with 1 show ?thesis by (auto simp: try_transaction_def rt InjectCommittedPatches_def act_bind_def)
  next
    case 2
    with s(3) show ?thesis by (auto simp: try_transaction_def rt)
  qed
qed

definition plans_in :: "patch_query list \<Rightarrow> (patch_query \<times> patch_query list) list \<Rightarrow> bool" where
  "plans_in U ts \<longleftrightarrow> (\<forall>t \<in> set ts. set (snd t) \<subseteq> set U \<and> sorted_wrt (\<lambda>x y. \<not> pq_eq x y) (snd t))"

lemma apply_all_extend:
  assumes U: "identified U" "set applied \<subseteq> set U" "set plan \<subseteq> set U" and plan: "no_repeats plan"
    and h: "apply_all env (filter (\<lambda>c. c \<notin> C) (distinct_by pq_eq applied)) h0 = Some h"
      "apply_all env (filter (\<lambda>c. c \<notin> C \<union> set applied) plan) h = Some h'"
  shows "apply_all env (filter (\<lambda>c. c \<notin> C) (distinct_by pq_eq (applied @ plan))) h0 = Some h'"
proof -
  have "(\<forall>x \<in> set applied. \<not> pq_eq x y) \<longleftrightarrow> y \<notin> set applied" if "y \<in> set plan" for y
    using identified_eq[OF U(1)] U(2,3) that by blast
  then have "filter (\<lambda>y. \<forall>x \<in> set applied. \<not> pq_eq x y) plan = filter (\<lambda>y. y \<notin> set applied) plan"
    by (rule filter_cong[OF refl])
  then have "filter (\<lambda>c. c \<notin> C) (distinct_by pq_eq (applied @ plan))
      = filter (\<lambda>c. c \<notin> C) (distinct_by pq_eq applied) @ filter (\<lambda>c. c \<notin> C \<union> set applied) plan"
    by (simp add: distinct_by_append distinct_by_id[OF plan] conj_commute)
  with h show ?thesis by (simp add: apply_all_append)
qed

text \<open>The loop over the transactions, from any point of it.\<close>

lemma transactions_loop:
  assumes U: "identified U" "C \<subseteq> set U" and git: "confined env U"
    and "plans_in U ts" "set applied \<subseteq> set U" "holds (committed s) (C \<union> set applied)" "\<forall>r. heads s r \<noteq> []"
      "apply_all env (filter (\<lambda>c. c \<notin> C) (distinct_by pq_eq applied)) h0 = Some (heads s)"
  shows "\<exists>a f t. fold_act (try_transaction env) ts (applied, failed) s = (Inr (a, f), t)
    \<and> set a \<subseteq> set U \<and> holds (committed t) (C \<union> set a) \<and> set applied \<subseteq> set a \<and> set failed \<subseteq> set f
    \<and> apply_all env (filter (\<lambda>c. c \<notin> C) (distinct_by pq_eq a)) h0 = Some (heads t)
    \<and> (\<forall>(c, plan) \<in> set ts. set plan \<subseteq> set a \<or> (\<exists>e \<in> set f. pq_id (error_patch e) \<in> pq_id ` set (c # plan)))"
  using assms(4-)
proof (induction ts arbitrary: applied failed s)
  case Nil
  then show ?case by auto
next
  case (Cons tr ts)
  obtain c plan where tr: "tr = (c, plan)" by force
  have plan: "set plan \<subseteq> set U" "no_repeats plan" and ts: "plans_in U ts" using Cons.prems(1) by (auto simp: plans_in_def tr)
  have CA: "C \<union> set applied \<subseteq> set U" using U(2) Cons.prems(2) by simp
  obtain a f t where st: "try_transaction env (c, plan) (applied, failed) s = (Inr (a, f), t)" "\<forall>r. heads t r \<noteq> []"
    and r: "(a = applied @ plan \<and> f = failed \<and> apply_all env (filter (\<lambda>c. c \<notin> C \<union> set applied) plan) (heads s) = Some (heads t)
          \<and> holds (committed t) (C \<union> set applied \<union> set plan))
     \<or> (\<exists>e. a = applied \<and> f = failed @ [e] \<and> heads t = heads s \<and> holds (committed t) (C \<union> set applied)
          \<and> pq_id (error_patch e) \<in> pq_id ` set (c # plan))"
    using try_transaction_cases[OF U(1) CA git Cons.prems(3) plan(1) Cons.prems(4), of c applied failed]
    by (elim exE conjE) (rule that)
  have step: "set a \<subseteq> set U \<and> holds (committed t) (C \<union> set a) \<and> set applied \<subseteq> set a \<and> set failed \<subseteq> set f
      \<and> apply_all env (filter (\<lambda>c. c \<notin> C) (distinct_by pq_eq a)) h0 = Some (heads t)
      \<and> (set plan \<subseteq> set a \<or> (\<exists>e \<in> set f. pq_id (error_patch e) \<in> pq_id ` set (c # plan)))"
    using r
  proof (elim disjE exE conjE)
    assume "a = applied @ plan" "f = failed" "holds (committed t) (C \<union> set applied \<union> set plan)"
      and h: "apply_all env (filter (\<lambda>c. c \<notin> C \<union> set applied) plan) (heads s) = Some (heads t)"
    then show ?thesis
      using apply_all_extend[OF U(1) Cons.prems(2) plan(1,2) Cons.prems(5) h] Cons.prems(2) plan(1) by (simp add: Un_assoc)
  next
    fix e
    assume "a = applied" "f = failed @ [e]" "heads t = heads s" "holds (committed t) (C \<union> set applied)"
      "pq_id (error_patch e) \<in> pq_id ` set (c # plan)"
    then show ?thesis using Cons.prems(2,5) by (simp add: subset_insertI)
  qed
  note st1 = step[THEN conjunct1] and st2 = step[THEN conjunct2, THEN conjunct1]
    and st3 = step[THEN conjunct2, THEN conjunct2, THEN conjunct2, THEN conjunct2, THEN conjunct1]
  from Cons.IH[OF ts st1 st2 st(2) st3, of f] obtain a' f' t' where
    run: "fold_act (try_transaction env) ts (a, f) t = (Inr (a', f'), t')"
    and sub: "set a \<subseteq> set a'" "set f \<subseteq> set f'"
    and rest: "set a' \<subseteq> set U" "holds (committed t') (C \<union> set a')" "apply_all env (filter (\<lambda>c. c \<notin> C) (distinct_by pq_eq a')) h0 = Some (heads t')"
      "\<forall>(c, plan) \<in> set ts. set plan \<subseteq> set a' \<or> (\<exists>e \<in> set f'. pq_id (error_patch e) \<in> pq_id ` set (c # plan))"
    by (elim exE conjE) (rule that)
  have "fold_act (try_transaction env) (tr # ts) (applied, failed) s = (Inr (a', f'), t')" by (simp add: tr st(1) run)
  moreover have "set applied \<subseteq> set a'" "set failed \<subseteq> set f'"
    "set plan \<subseteq> set a' \<or> (\<exists>e \<in> set f'. pq_id (error_patch e) \<in> pq_id ` set (c # plan))"
    using step sub by blast+
  ultimately show ?case using rest by (intro exI conjI) (assumption | simp add: tr)+
qed

lemma no_repeats_distinct_by: "no_repeats (distinct_by pq_eq xs)"
  by (induction xs) (auto intro: sorted_wrt_filter)

section \<open>Properties of applying\<close>

text \<open>
  C5. A transaction is all or nothing: either each of its changes that is not yet committed is applied,
  in order, or the checkouts and the committed changes are as before and the exception blames the
  inducing change or one of the transaction's.
\<close>

theorem transaction_all_or_nothing:
  assumes "identified U" "C \<subseteq> set U" "confined env U" "holds (committed s) C" "set plan \<subseteq> set U" "\<forall>r. heads s r \<noteq> []"
    "Transaction env plan (ApplyChanges env c plan) s = (r, t)"
  shows "holds (committed t) C \<and>
    (r = Inr () \<and> apply_all env (filter (\<lambda>x. x \<notin> C) plan) (heads s) = Some (heads t)
     \<or> heads t = heads s \<and> (\<exists>e. r = Inl (PatchExc e) \<and> pq_id (error_patch e) \<in> pq_id ` set (c # plan)))"
  using Transaction_cases[OF assms(1-6), of c] unfolding assms(7) all_or_nothing_def fst_conv snd_conv by blast

lemma chain_confined: "confined chain_env U"
  by (auto simp: confined_def chain_env_def)

theorem transaction_all_or_nothing_witness:
  "\<exists>e t. Transaction chain_env [numbered ''3'', numbered ''2''] (ApplyChanges chain_env (numbered ''2'')
      [numbered ''3'', numbered ''2'']) chain_series = (Inl (PatchExc e), t) \<and> heads t = heads chain_series"
proof -
  let ?p = "[numbered ''3'', numbered ''2'']"
  obtain r t where run: "Transaction chain_env ?p (ApplyChanges chain_env (numbered ''2'') ?p) chain_series = (r, t)" by force
  have "\<not> isOk (fst (Transaction chain_env ?p (ApplyChanges chain_env (numbered ''2'') ?p) chain_series))" by code_simp
  then have "r \<noteq> Inr ()" by (auto simp: run)
  moreover have "identified ?p" by code_simp
  moreover have "holds (committed chain_series) {}" "\<forall>r. heads chain_series r \<noteq> []" by (simp_all add: chain_series_def)
  ultimately show ?thesis using transaction_all_or_nothing[OF _ _ chain_confined _ _ _ run, of ?p "{}"] run by auto
qed

text \<open>
  C2. The loop of \<open>Apply\<close> over the transactions ends, and the checkouts are then where applying
  exactly the reported changes, each once and in the reported order, leads from the start: failed
  transactions leave no trace. Every transaction is reported as applied or has an exception.
\<close>

theorem apply_loop_refines:
  assumes "identified U" "C \<subseteq> set U" "confined env U" "plans_in U ts" "holds (committed s) C" "\<forall>r. heads s r \<noteq> []"
  shows "\<exists>applied failed' t. fold_act (try_transaction env) ts ([], failed) s = (Inr (applied, failed'), t)
    \<and> apply_all env (filter (\<lambda>c. c \<notin> C) (distinct_by pq_eq applied)) (heads s) = Some (heads t)
    \<and> holds (committed t) (C \<union> set applied) \<and> set failed \<subseteq> set failed'
    \<and> (\<forall>(c, plan) \<in> set ts. set plan \<subseteq> set applied
        \<or> (\<exists>e \<in> set failed'. pq_id (error_patch e) \<in> pq_id ` set (c # plan)))"
proof -
  have "holds (committed s) (C \<union> set [])" "apply_all env (filter (\<lambda>c. c \<notin> C) (distinct_by pq_eq [])) (heads s) = Some (heads s)"
    using assms(5) by simp_all
  from transactions_loop[OF assms(1-4) _ this(1) assms(6) this(2), of failed] show ?thesis by auto
qed

theorem apply_loop_refines_witness:
  "\<exists>applied failed t. fold_act (try_transaction chain_env)
      [(numbered ''2'', [numbered ''3'', numbered ''2'']), (numbered ''3'', [numbered ''3''])] ([], []) chain_series
        = (Inr (applied, failed), t)
    \<and> apply_all chain_env (distinct_by pq_eq applied) (heads chain_series) = Some (heads t)"
proof -
  let ?U = "[numbered ''3'', numbered ''2'']" and ?ts = "[(numbered ''2'', [numbered ''3'', numbered ''2'']), (numbered ''3'', [numbered ''3''])]"
  have 1: "identified ?U" by code_simp
  have 2: "plans_in ?U ?ts" by code_simp
  have 3: "holds (committed chain_series) {}" "\<forall>r. heads chain_series r \<noteq> []" by (simp_all add: chain_series_def)
  obtain a f t where run: "fold_act (try_transaction chain_env) ?ts ([], []) chain_series = (Inr (a, f), t)"
    and "apply_all chain_env (filter (\<lambda>c. c \<notin> {}) (distinct_by pq_eq a)) (heads chain_series) = Some (heads t)"
    using apply_loop_refines[OF 1 empty_subsetI chain_confined 2 3, of "[]"] by (elim exE conjE) (rule that)
  then have "apply_all chain_env (distinct_by pq_eq a) (heads chain_series) = Some (heads t)" by simp
  with run show ?thesis by blast
qed

text \<open>
  What \<open>Apply\<close> reports is consistent: no applied change is listed twice, none is blamed by a reported
  failure, and the failures reported as in flight are those in flight.
\<close>

theorem apply_report:
  assumes "Apply env changes frozen honor_ordering changes_filter s = (Inr (applied, failed_tot', failed_inflight), t)"
  shows "sorted_wrt (\<lambda>x y. \<not> pq_eq x y) applied
    \<and> (\<forall>e \<in> set (failed_tot' @ failed_inflight). \<forall>c \<in> set applied. \<not> pq_eq c (error_patch e))
    \<and> (\<forall>e \<in> set failed_inflight. error_inflight e)
    \<and> (applied = [] \<or> is_submitting t \<and> (\<forall>e \<in> set failed_tot'. \<not> error_inflight e))"
proof -
  obtain cs failed resolved s' where
    run: "apply_resolved env honor_ordering cs failed resolved s' = (Inr (applied, failed_tot', failed_inflight), t)"
    using assms unfolding Apply_def Let_def act_bind_Inr by blast
  then consider "applied = []" "failed_inflight = []"
    | a f where "report a f = (applied, failed_tot', failed_inflight)" "is_submitting t"
    by (auto simp: apply_resolved_def split: if_splits prod.splits sum.splits)
  then show ?thesis
  proof cases
    case 2
    then show ?thesis using no_repeats_distinct_by[of a] by (auto simp: report_def Let_def in_list_def)
  qed simp
qed

theorem apply_report_witness:
  "\<exists>applied ft fi t. Apply chain_env [numbered ''2'', numbered ''3''] True False None chain_series = (Inr (applied, ft, fi), t)
    \<and> length applied = 1 \<and> length fi = 1 \<and> (\<forall>e \<in> set fi. error_inflight e)"
proof -
  let ?r = "Apply chain_env [numbered ''2'', numbered ''3''] True False None chain_series"
  have "(case fst ?r of Inr x \<Rightarrow> length (fst x) = 1 \<and> length (snd (snd x)) = 1 | Inl e \<Rightarrow> False)" by code_simp
  then obtain applied ft fi t where r: "?r = (Inr (applied, ft, fi), t)" "length applied = 1" "length fi = 1"
    by (cases ?r) (auto split: sum.splits)
  from apply_report[OF r(1)] r show ?thesis by blast
qed

end
