(* ===== verification/BinPkg.thy ===== *)
theory BinPkg
  imports Store Paths
begin

text \<open>
  Binary package indexes (\<open>lib/binpkg.py\<close>): reading and writing a \<open>Packages\<close> file, finding packages that
  have been uploaded before, and fetching indexes and packages. Files and remote objects are
  the texts they hold, after the translation of line ends; the time is a parameter.
\<close>

section \<open>The index\<close>

type_synonym entry = "(string, string) dict"

record pkg_index =
  header :: entry
  packages :: "entry list"
  modified :: bool

definition PackageIndex :: pkg_index where
  "PackageIndex = \<lparr>header = [], packages = [], modified = False\<rparr>"

definition NL :: char where
  "NL = CHR 0x0A"

definition py_item :: "entry \<Rightarrow> string \<Rightarrow> string res" where
  "py_item d k = (case dict_get d k of Some v \<Rightarrow> Inr v | None \<Rightarrow> Inl KeyError)"

text \<open>\<open>gs.CanonicalizeURL\<close>, not strict.\<close>

definition gs_prefixes :: "string list" where
  "gs_prefixes = [''https://storage.googleapis.com/'', ''https://storage.cloud.google.com/'',
     ''https://stainless.corp.google.com/browse/'', ''https://pantheon.corp.google.com/storage/browser/'',
     ''https://commondatastorage.googleapis.com/'']"

definition CanonicalizeURL :: "string \<Rightarrow> string" where
  "CanonicalizeURL url =
     (case find (startswith url) gs_prefixes of Some p \<Rightarrow> ''gs://'' @ drop (length p) url | None \<Rightarrow> url)"

section \<open>Reading and writing\<close>

text \<open>An entry is read up to a blank line, or the end; what follows it is left for the next.\<close>

fun ReadPkgIndex :: "entry \<Rightarrow> string list \<Rightarrow> (entry \<times> string list) res" where
  "ReadPkgIndex d [] = Inr (d, [])"
| "ReadPkgIndex d (l # ls) =
     (if l = [] then (if d = [] then Inl AssertionError else Inr (d, ls))
      else (case split_first '': '' l of
              Some (k, v) \<Rightarrow> ReadPkgIndex (dict_set d k v) ls
            | None \<Rightarrow> ReadPkgIndex d ls))"

lemma ReadPkgIndex_shorter: "ReadPkgIndex d ls = Inr (d', ls') \<Longrightarrow> length ls' \<le> length ls"
  by (induction d ls rule: ReadPkgIndex.induct) (auto split: if_splits option.splits intro: le_SucI)

lemma dict_set_not_Nil [simp]: "dict_set d k v \<noteq> []"
  by (cases "(d, k, v)" rule: dict_set.cases) auto

lemma ReadPkgIndex_consumes [termination_simp]:
  "Inr (d, ls') = ReadPkgIndex [] ls \<Longrightarrow> d \<noteq> [] \<Longrightarrow> length ls' < length ls"
  by (cases ls) (auto split: if_splits option.splits dest: sym dest!: ReadPkgIndex_shorter)

function read_entries :: "string list \<Rightarrow> entry list res" where
  "read_entries ls =
     (case ReadPkgIndex [] ls of
        Inl e \<Rightarrow> Inl e
      | Inr (d, ls') \<Rightarrow>
          if d = [] then Inr []
          else (case read_entries ls' of Inl e \<Rightarrow> Inl e
                | Inr ds \<Rightarrow> Inr (if dict_get d ''CPV'' \<noteq> None then d # ds else ds)))"
  by pat_completeness auto
termination by (relation "measure length") (auto simp: ReadPkgIndex_consumes)

declare read_entries.simps [simp del]

definition ReadHeader :: "pkg_index \<Rightarrow> string list \<Rightarrow> (pkg_index \<times> string list) res" where
  "ReadHeader idx ls =
     (if header idx \<noteq> [] then Inl AssertionError
      else res_bind (ReadPkgIndex [] ls) (\<lambda>(d, ls'). Inr (idx\<lparr>header := d\<rparr>, ls')))"

definition ReadBody :: "pkg_index \<Rightarrow> string list \<Rightarrow> pkg_index res" where
  "ReadBody idx ls =
     (if header idx = [] \<or> packages idx \<noteq> [] then Inl AssertionError
      else res_bind (read_entries ls) (\<lambda>ds. Inr (idx\<lparr>packages := ds\<rparr>)))"

definition Read :: "pkg_index \<Rightarrow> string \<Rightarrow> pkg_index res" where
  "Read idx contents = res_bind (ReadHeader idx (file_lines contents)) (\<lambda>(idx', ls). ReadBody idx' ls)"

definition FormatPkgIndex :: "entry \<Rightarrow> string list" where
  "FormatPkgIndex e =
     (let ls = map (\<lambda>(k, v). k @ '': '' @ v) (filter (\<lambda>(k, v). v \<noteq> []) (sort e))
      in if ls = [] then [] else ls @ [[]])"

definition WritePkgIndex :: "entry \<Rightarrow> string" where
  "WritePkgIndex e = join [NL] (FormatPkgIndex e) @ [NL]"

text \<open>The header of a modified index gets the time, in whole seconds, and the number of packages.\<close>

definition ModifiedHeaderUpdate :: "nat \<Rightarrow> pkg_index \<Rightarrow> pkg_index" where
  "ModifiedHeaderUpdate now idx =
     (if modified idx
      then idx\<lparr>header := dict_set (dict_set (header idx) ''TIMESTAMP'' (str_of_nat now)) ''PACKAGES'' (str_of_nat (length (packages idx))),
               modified := False\<rparr>
      else idx)"

definition cpv :: "entry \<Rightarrow> string" where
  "cpv p = (case dict_get p ''CPV'' of Some v \<Rightarrow> v | None \<Rightarrow> [])"

definition sorted_packages :: "entry list \<Rightarrow> entry list res" where
  "sorted_packages ps = (if list_all (\<lambda>p. dict_get p ''CPV'' \<noteq> None) ps then Inr (sort_key cpv ps) else Inl KeyError)"

definition Write :: "nat \<Rightarrow> pkg_index \<Rightarrow> (string \<times> pkg_index) res" where
  "Write now idx =
     (let idx' = ModifiedHeaderUpdate now idx in
      res_bind (sorted_packages (packages idx')) (\<lambda>ps.
        Inr (WritePkgIndex (header idx') @ concat (map WritePkgIndex ps), idx')))"

definition WriteFile :: "nat \<Rightarrow> pkg_index \<Rightarrow> (string \<times> pkg_index) res" where
  "WriteFile now idx =
     (let idx' = ModifiedHeaderUpdate now idx in
      res_bind (sorted_packages (packages idx')) (\<lambda>ps.
        Inr (join [NL] (FormatPkgIndex (header idx') @ concat (map FormatPkgIndex ps)) @ [NL], idx')))"

section \<open>Changing an index\<close>

definition RemoveFilteredPackages :: "(entry \<Rightarrow> bool) \<Rightarrow> pkg_index \<Rightarrow> pkg_index" where
  "RemoveFilteredPackages f idx =
     (let filtered = filter (\<lambda>p. \<not> f p) (packages idx)
      in if filtered \<noteq> packages idx then idx\<lparr>modified := True, packages := filtered\<rparr> else idx)"

definition slash_end :: "string \<Rightarrow> string" where
  "slash_end s = rstrip (\<lambda>c. c = CHR ''/'') s"

definition SetUploadLocation :: "string \<Rightarrow> string \<Rightarrow> pkg_index \<Rightarrow> pkg_index res" where
  "SetUploadLocation base_uri path_prefix idx =
     res_bind (map_res (\<lambda>p. res_bind (py_item p ''CPV'') (\<lambda>c.
         Inr (dict_set p ''PATH'' (slash_end path_prefix @ ''/'' @ c @ ''.tbz2'')))) (packages idx))
       (\<lambda>ps. Inr (idx\<lparr>header := dict_set (header idx) ''URI'' (slash_end base_uri), packages := ps\<rparr>))"

section \<open>Packages that have been uploaded\<close>

definition TWO_WEEKS :: int where
  "TWO_WEEKS = 60 * 60 * 24 * 7 * 2"

record uploaded =
  mtime :: int
  uri :: string
  debug_symbols :: bool

text \<open>A value of an optional field that Python takes as false is absent or empty.\<close>

definition truthy :: "string option \<Rightarrow> bool" where
  "truthy v \<longleftrightarrow> v \<noteq> None \<and> v \<noteq> Some []"

definition duplicate_step :: "string \<Rightarrow> int \<Rightarrow> entry \<Rightarrow> (string, uploaded) dict \<Rightarrow> (string, uploaded) dict res" where
  "duplicate_step canonical expires pkg db =
     res_bind (py_item pkg ''CPV'') (\<lambda>c.
       let sha1 = dict_get pkg ''SHA1''; mt = dict_get pkg ''MTIME'';
           old = (case sha1 of None \<Rightarrow> 0 | Some s \<Rightarrow> (case dict_get db s of None \<Rightarrow> 0 | Some p \<Rightarrow> mtime p))
       in if truthy sha1 \<and> truthy mt
          then res_bind (py_int (the mt)) (\<lambda>m.
            if max expires old < m
            then (let path = (case dict_get pkg ''PATH'' of Some p \<Rightarrow> p | None \<Rightarrow> c @ ''.tbz2'') in
                  Inr (dict_set db (the sha1)
                    \<lparr>mtime = m, uri = slash_end canonical @ ''/'' @ path,
                     debug_symbols = (dict_get pkg ''DEBUG_SYMBOLS'' = Some ''yes'')\<rparr>))
            else Inr db)
          else Inr db)"

definition PopulateDuplicateDB :: "pkg_index \<Rightarrow> int \<Rightarrow> (string, uploaded) dict \<Rightarrow> (string, uploaded) dict res" where
  "PopulateDuplicateDB idx expires db =
     res_bind (py_item (header idx) ''URI'') (\<lambda>u.
       fold_res (duplicate_step (CanonicalizeURL u) expires) (packages idx) db)"

definition duplicate_db :: "string \<Rightarrow> int \<Rightarrow> pkg_index list \<Rightarrow> (string, uploaded) dict res" where
  "duplicate_db base expires idxs =
     fold_res (\<lambda>i db. res_bind (py_item (header i) ''URI'') (\<lambda>u.
       if CanonicalizeURL u = base then PopulateDuplicateDB i expires db else Inr db)) idxs []"

definition resolve_package :: "string \<Rightarrow> int \<Rightarrow> (string, uploaded) dict \<Rightarrow> entry \<Rightarrow> entry \<times> bool" where
  "resolve_package base_uri now db pkg =
     (let sha1 = dict_get pkg ''SHA1''; dup = (case sha1 of None \<Rightarrow> None | Some s \<Rightarrow> dict_get db s) in
      if truthy sha1 \<and> dup \<noteq> None \<and> startswith (uri (the dup)) base_uri
         \<and> (dict_get pkg ''DEBUG_SYMBOLS'' \<noteq> Some ''yes'' \<or> debug_symbols (the dup))
      then (let p = dict_set (dict_set pkg ''PATH'' (lstrip (\<lambda>c. c = CHR ''/'') (drop (length base_uri) (uri (the dup)))))
                      ''MTIME'' (str_of_int (mtime (the dup)))
            in (if debug_symbols (the dup) then dict_set p ''DEBUG_SYMBOLS'' ''yes'' else p, False))
      else (dict_set pkg ''MTIME'' (str_of_int now), True))"

text \<open>The index with its packages changed, and the packages that are to be uploaded.\<close>

definition ResolveDuplicateUploads :: "int \<Rightarrow> pkg_index \<Rightarrow> pkg_index list \<Rightarrow> (pkg_index \<times> entry list) res" where
  "ResolveDuplicateUploads now idx pkgindexes =
     res_bind (py_item (header idx) ''URI'') (\<lambda>base.
       res_bind (duplicate_db (CanonicalizeURL base) (now - TWO_WEEKS) pkgindexes) (\<lambda>db.
         let rs = map (resolve_package base now db) (packages idx)
         in Inr (idx\<lparr>packages := map fst rs\<rparr>, map fst (filter snd rs))))"

section \<open>What is written is read\<close>

text \<open>An entry as it is read back: sorted by key, without the empty values.\<close>

definition norm :: "entry \<Rightarrow> entry" where
  "norm e = filter (\<lambda>(k, v). v \<noteq> []) (sort e)"

definition entry_ok :: "entry \<Rightarrow> bool" where
  "entry_ok e \<longleftrightarrow> dict_ok e \<and> list_ex (\<lambda>(k, v). v \<noteq> []) e
     \<and> list_all (\<lambda>(k, v). CHR '':'' \<notin> set k \<and> NL \<notin> set k \<and> NL \<notin> set v) e"

definition entry_line :: "string \<times> string \<Rightarrow> string" where
  "entry_line p = fst p @ '': '' @ snd p"

lemma Format_norm: "entry_ok e \<Longrightarrow> FormatPkgIndex e = map entry_line (norm e) @ [[]] \<and> norm e \<noteq> []"
proof -
  assume "entry_ok e"
  then have ne: "norm e \<noteq> []" by (auto simp: entry_ok_def norm_def filter_empty_conv list_ex_iff)
  have "map (\<lambda>(k, v). k @ '': '' @ v) (norm e) = map entry_line (norm e)"
    by (simp add: entry_line_def case_prod_unfold)
  with ne show ?thesis by (simp add: FormatPkgIndex_def Let_def norm_def)
qed

lemma set_norm: "set (norm e) = {(k, v). (k, v) \<in> set e \<and> v \<noteq> []}"
  by (auto simp: norm_def)

lemma dict_ok_norm: "dict_ok e \<Longrightarrow> dict_ok (norm e)"
  unfolding dict_ok_def norm_def by (rule distinct_map_filter) (simp add: distinct_map)

lemma dict_get_norm:
  assumes "dict_ok e"
  shows "dict_get (norm e) k = (if truthy (dict_get e k) then dict_get e k else None)"
proof -
  have some: "dict_get (norm e) k = Some v \<longleftrightarrow> dict_get e k = Some v \<and> v \<noteq> []" for v
    using assms dict_ok_norm[OF assms] by (simp add: dict_get_def dict_ok_def set_norm)
  show ?thesis
  proof (cases "truthy (dict_get e k)")
    case True
    then obtain v where v: "dict_get e k = Some v" "v \<noteq> []" by (auto simp: truthy_def)
    then have "dict_get (norm e) k = Some v" by (simp only: some simp_thms)
    with v True show ?thesis by simp
  next
    case False
    then have "dict_get (norm e) k \<noteq> Some v" for v unfolding some by (auto simp: truthy_def)
    then have "dict_get (norm e) k = None" by (metis not_None_eq)
    with False show ?thesis by simp
  qed
qed

lemma split_first_key: "CHR '':'' \<notin> set k \<Longrightarrow> split_first '': '' (k @ '': '' @ v) = Some (k, v)"
  by (induction k) (auto simp: startswith_def)

lemma ReadPkgIndex_lines:
  assumes "\<forall>p \<in> set kvs. CHR '':'' \<notin> set (fst p)" "d \<noteq> [] \<or> kvs \<noteq> []"
  shows "ReadPkgIndex d (map entry_line kvs @ [] # rest) = Inr (dict_update d kvs, rest)"
  using assms
proof (induction kvs arbitrary: d)
  case (Cons p kvs)
  have "split_first '': '' (entry_line p) = Some (fst p, snd p)" "entry_line p \<noteq> []"
    using Cons.prems(1) split_first_key[of "fst p" "snd p"] by (simp_all add: entry_line_def)
  moreover have "ReadPkgIndex (dict_set d (fst p) (snd p)) (map entry_line kvs @ [] # rest)
      = Inr (dict_update (dict_set d (fst p) (snd p)) kvs, rest)"
    by (rule Cons.IH) (use Cons.prems in simp_all)
  ultimately show ?case by (simp add: dict_update_def case_prod_unfold)
qed (simp add: dict_update_def)

lemma ReadPkgIndex_entry:
  assumes "entry_ok e"
  shows "ReadPkgIndex [] (FormatPkgIndex e @ rest) = Inr (norm e, rest)"
proof -
  have "\<forall>p \<in> set (norm e). CHR '':'' \<notin> set (fst p)" using assms by (auto simp: set_norm entry_ok_def list_all_iff)
  from ReadPkgIndex_lines[OF this, of "[]" rest] show ?thesis
    using Format_norm[OF assms] dict_update_Nil_id[OF dict_ok_norm] assms by (simp add: entry_ok_def)
qed

definition package_ok :: "entry \<Rightarrow> bool" where
  "package_ok p \<longleftrightarrow> entry_ok p \<and> truthy (dict_get p ''CPV'')"

lemma read_entries_written:
  assumes "list_all package_ok ps"
  shows "read_entries (concat (map FormatPkgIndex ps)) = Inr (map norm ps)"
  using assms
proof (induction ps)
  case (Cons p ps)
  then have p: "entry_ok p" "dict_get (norm p) ''CPV'' \<noteq> None"
    using dict_get_norm[of p "''CPV''"] by (auto simp: package_ok_def entry_ok_def truthy_def)
  have ne: "norm p \<noteq> []" using Format_norm[OF p(1)] by simp
  show ?case
    using Cons ne p(2)
    by (subst read_entries.simps) (simp add: ReadPkgIndex_entry[OF p(1)])
qed (simp add: read_entries.simps)

lemma join_lines: "ls \<noteq> [] \<Longrightarrow> join [NL] ls @ [NL] = concat (map (\<lambda>l. l @ [NL]) ls)"
  by (induction "[NL]" ls rule: join.induct) auto

lemma Format_free:
  assumes "entry_ok e" "l \<in> set (FormatPkgIndex e)"
  shows "CHR 0x0A \<notin> set l"
proof -
  from assms consider "l = []" | k v where "(k, v) \<in> set e" "l = k @ '': '' @ v"
    by (auto simp: Format_norm set_norm entry_line_def)
  then show ?thesis using assms(1) by cases (auto simp: entry_ok_def list_all_iff NL_def)
qed

lemma WritePkgIndex_lines:
  "entry_ok e \<Longrightarrow> WritePkgIndex e = concat (map (\<lambda>l. l @ [NL]) (FormatPkgIndex e))"
  using Format_norm[of e] by (simp add: WritePkgIndex_def join_lines)

lemma written_contents:
  assumes "entry_ok h" "list_all package_ok ps"
  shows "WritePkgIndex h @ concat (map WritePkgIndex ps)
      = concat (map (\<lambda>l. l @ [NL]) (FormatPkgIndex h @ concat (map FormatPkgIndex ps)))"
proof -
  have "concat (map WritePkgIndex ps) = concat (map (\<lambda>l. l @ [NL]) (concat (map FormatPkgIndex ps)))"
    using assms(2) by (induction ps) (simp_all add: package_ok_def WritePkgIndex_lines)
  with WritePkgIndex_lines[OF assms(1)] show ?thesis by simp
qed

lemma Read_written:
  assumes "entry_ok h" "list_all package_ok ps"
  shows "Read PackageIndex (WritePkgIndex h @ concat (map WritePkgIndex ps))
    = Inr \<lparr>header = norm h, packages = map norm ps, modified = False\<rparr>"
proof -
  have "\<forall>l \<in> set (FormatPkgIndex h @ concat (map FormatPkgIndex ps)). CHR 0x0A \<notin> set l"
    using assms Format_free by (auto simp: package_ok_def list_all_iff)
  then have "file_lines (WritePkgIndex h @ concat (map WritePkgIndex ps)) = FormatPkgIndex h @ concat (map FormatPkgIndex ps)"
    unfolding written_contents[OF assms] NL_def by (rule file_lines_written)
  moreover have "norm h \<noteq> []" using Format_norm[OF assms(1)] by simp
  ultimately show ?thesis
    by (simp add: Read_def ReadHeader_def ReadBody_def PackageIndex_def ReadPkgIndex_entry[OF assms(1)] read_entries_written[OF assms(2)])
qed

lemma dict_set_member: "(k, v) \<in> set (dict_set d k v)"
  by (induction d k v rule: dict_set.induct) auto

lemma entry_ok_set:
  assumes "entry_ok e" "CHR '':'' \<notin> set k" "NL \<notin> set k" "NL \<notin> set v" "v \<noteq> []"
  shows "entry_ok (dict_set e k v)"
  using assms dict_set_subset[of e k v] dict_set_member[of k v e]
  by (auto simp: entry_ok_def dict_ok_set list_ex_iff list_all_iff)

lemma entry_ok_update: "entry_ok (header idx) \<Longrightarrow> entry_ok (header (ModifiedHeaderUpdate now idx))"
proof -
  have "NL \<notin> set (str_of_nat n)" for n using digits_no_char[OF str_of_nat_digits] by (simp add: NL_def)
  then show "entry_ok (header idx) \<Longrightarrow> ?thesis"
    by (simp add: ModifiedHeaderUpdate_def entry_ok_set NL_def)
qed

section \<open>The newest upload\<close>

text \<open>What a package of an index offers for re-use: its SHA-1, and the upload it describes.\<close>

definition offers_of :: "string \<Rightarrow> entry \<Rightarrow> (string \<times> uploaded) list" where
  "offers_of canonical q =
     (if truthy (dict_get q ''SHA1'') \<and> truthy (dict_get q ''MTIME'') \<and> isOk (py_int (the (dict_get q ''MTIME'')))
      then [(the (dict_get q ''SHA1''),
             \<lparr>mtime = projr (py_int (the (dict_get q ''MTIME''))),
              uri = slash_end canonical @ ''/'' @ (case dict_get q ''PATH'' of Some p \<Rightarrow> p | None \<Rightarrow> cpv q @ ''.tbz2''),
              debug_symbols = (dict_get q ''DEBUG_SYMBOLS'' = Some ''yes'')\<rparr>)]
      else [])"

definition offers :: "string \<Rightarrow> pkg_index list \<Rightarrow> (string \<times> uploaded) list" where
  "offers base idxs =
     concat (map (\<lambda>i. concat (map (offers_of base) (packages i)))
       (filter (\<lambda>i. map_option CanonicalizeURL (dict_get (header i) ''URI'') = Some base) idxs))"

definition newest :: "(string \<times> uploaded) list \<Rightarrow> int \<Rightarrow> (string, uploaded) dict \<Rightarrow> bool" where
  "newest os expires db \<longleftrightarrow> (\<forall>sha. case dict_get db sha of
       None \<Rightarrow> \<forall>u. (sha, u) \<in> set os \<longrightarrow> mtime u \<le> max expires 0
     | Some p \<Rightarrow> (sha, p) \<in> set os \<and> max expires 0 < mtime p \<and> (\<forall>u. (sha, u) \<in> set os \<longrightarrow> mtime u \<le> mtime p))"

lemma newest_snoc:
  assumes "newest os expires db"
  shows "newest (os @ [(s, u)]) expires
    (if max expires (case dict_get db s of None \<Rightarrow> 0 | Some p \<Rightarrow> mtime p) < mtime u then dict_set db s u else db)"
  unfolding newest_def
proof
  fix sha
  have old: "case dict_get db sha of
       None \<Rightarrow> \<forall>u. (sha, u) \<in> set os \<longrightarrow> mtime u \<le> max expires 0
     | Some p \<Rightarrow> (sha, p) \<in> set os \<and> max expires 0 < mtime p \<and> (\<forall>u. (sha, u) \<in> set os \<longrightarrow> mtime u \<le> mtime p)"
    using assms by (simp add: newest_def)
  show "case dict_get (if max expires (case dict_get db s of None \<Rightarrow> 0 | Some p \<Rightarrow> mtime p) < mtime u then dict_set db s u else db) sha of
       None \<Rightarrow> \<forall>v. (sha, v) \<in> set (os @ [(s, u)]) \<longrightarrow> mtime v \<le> max expires 0
     | Some p \<Rightarrow> (sha, p) \<in> set (os @ [(s, u)]) \<and> max expires 0 < mtime p
         \<and> (\<forall>v. (sha, v) \<in> set (os @ [(s, u)]) \<longrightarrow> mtime v \<le> mtime p)"
  proof (cases "sha = s")
    case False
    then show ?thesis using old by (auto simp: dict_get_set split: option.splits)
  next
    case True
    show ?thesis
    proof (cases "dict_get db s")
      case None
      with old True have "\<forall>v. (s, v) \<in> set os \<longrightarrow> mtime v \<le> max expires 0" by simp
      with None True show ?thesis by (auto simp: dict_get_set)
    next
      case (Some p)
      with old True have "(s, p) \<in> set os" "max expires 0 < mtime p" "\<forall>v. (s, v) \<in> set os \<longrightarrow> mtime v \<le> mtime p" by simp_all
      with Some True show ?thesis by (auto simp: dict_get_set)
    qed
  qed
qed

lemma duplicate_step_newest:
  assumes "newest os expires db" "duplicate_step canonical expires q db = Inr db'"
  shows "newest (os @ offers_of canonical q) expires db'"
proof (cases "truthy (dict_get q ''SHA1'') \<and> truthy (dict_get q ''MTIME'')")
  case True
  then obtain s t where st: "dict_get q ''SHA1'' = Some s" "dict_get q ''MTIME'' = Some t" by (auto simp: truthy_def)
  obtain c where c: "dict_get q ''CPV'' = Some c" using assms(2) by (auto simp: duplicate_step_def py_item_def split: option.splits)
  obtain m where m: "py_int t = Inr m"
    using assms(2) True by (cases "py_int t") (auto simp: duplicate_step_def py_item_def c st)
  define u where "u = \<lparr>mtime = m, uri = slash_end canonical @ ''/'' @ (case dict_get q ''PATH'' of Some p \<Rightarrow> p | None \<Rightarrow> c @ ''.tbz2''),
    debug_symbols = (dict_get q ''DEBUG_SYMBOLS'' = Some ''yes'')\<rparr>"
  have "offers_of canonical q = [(s, u)]"
    using True by (simp add: offers_of_def st m u_def cpv_def c cong: option.case_cong)
  moreover have "db' = (if max expires (case dict_get db s of None \<Rightarrow> 0 | Some p \<Rightarrow> mtime p) < mtime u then dict_set db s u else db)"
    using assms(2) True by (auto simp: duplicate_step_def py_item_def c st m u_def Let_def split: if_splits)
  ultimately show ?thesis using newest_snoc[OF assms(1), of s u] by simp
next
  case False
  then have "offers_of canonical q = []" by (auto simp: offers_of_def)
  moreover have "db' = db" using assms(2) False by (auto simp: duplicate_step_def py_item_def Let_def split: option.splits)
  ultimately show ?thesis using assms(1) by simp
qed

lemma fold_duplicates_newest:
  assumes "fold_res (duplicate_step canonical expires) ps db = Inr db'" "newest os expires db"
  shows "newest (os @ concat (map (offers_of canonical) ps)) expires db'"
  using assms
proof (induction ps arbitrary: db os)
  case (Cons q ps)
  then obtain d where d: "duplicate_step canonical expires q db = Inr d" "fold_res (duplicate_step canonical expires) ps d = Inr db'"
    by (auto split: sum.splits)
  from Cons.IH[OF d(2) duplicate_step_newest[OF Cons.prems(2) d(1)]] show ?case by simp
qed simp

lemma duplicate_db_newest:
  assumes "duplicate_db base expires idxs = Inr db"
  shows "newest (offers base idxs) expires db"
proof -
  have "newest (os @ offers base idxs) expires db'"
    if "fold_res (\<lambda>i db. res_bind (py_item (header i) ''URI'') (\<lambda>u.
       if CanonicalizeURL u = base then PopulateDuplicateDB i expires db else Inr db)) idxs db = Inr db'" "newest os expires db" for os db db'
    using that
  proof (induction idxs arbitrary: db os)
    case (Cons i idxs)
    then obtain u d where u: "dict_get (header i) ''URI'' = Some u"
      and d: "(if CanonicalizeURL u = base then PopulateDuplicateDB i expires db else Inr db) = Inr d"
      and rest: "fold_res (\<lambda>i db. res_bind (py_item (header i) ''URI'') (\<lambda>u.
       if CanonicalizeURL u = base then PopulateDuplicateDB i expires db else Inr db)) idxs d = Inr db'"
      by (auto simp: py_item_def split: sum.splits option.splits)
    show ?case
    proof (cases "CanonicalizeURL u = base")
      case True
      then have "fold_res (duplicate_step base expires) (packages i) db = Inr d"
        using d u by (simp add: PopulateDuplicateDB_def py_item_def)
      from Cons.IH[OF rest fold_duplicates_newest[OF this Cons.prems(2)]] u True show ?thesis by (simp add: offers_def)
    next
      case False
      with d have "d = db" by simp
      with Cons.IH[OF rest, of os] Cons.prems(2) u False show ?thesis by (simp add: offers_def)
    qed
  qed (simp add: offers_def)
  from this[of "[]" db "[]"] assms show ?thesis by (simp add: duplicate_db_def newest_def)
qed

section \<open>Fetching\<close>

datatype fetch_error = HTTPError int | URLError | PyError py_error

text \<open>
  \<open>_RetryUrlOpen\<close>: what the attempts to open the URL answer, and how often it has slept. After the last
  attempt the error is raised; there is no answer at all if no attempt was asked for.
\<close>

fun retry_url_loop :: "(nat \<Rightarrow> fetch_error + 'a) \<Rightarrow> nat \<Rightarrow> nat \<Rightarrow> nat \<Rightarrow> (fetch_error + 'a option) \<times> nat" where
  "retry_url_loop urlopen tries i 0 = (Inr None, i)"
| "retry_url_loop urlopen tries i (Suc n) =
     (case urlopen i of
        Inr a \<Rightarrow> (Inr (Some a), i)
      | Inl (HTTPError code) \<Rightarrow>
          if tries \<le> i + 1 \<or> code < 500 then (Inl (HTTPError code), i) else retry_url_loop urlopen tries (Suc i) n
      | Inl URLError \<Rightarrow> if tries \<le> i + 1 then (Inl URLError, i) else retry_url_loop urlopen tries (Suc i) n
      | Inl e \<Rightarrow> (Inl e, i))"

definition RetryUrlOpen :: "(nat \<Rightarrow> fetch_error + 'a) \<Rightarrow> nat \<Rightarrow> (fetch_error + 'a option) \<times> nat" where
  "RetryUrlOpen urlopen tries = retry_url_loop urlopen tries 0 tries"

text \<open>
  A response yields lines of \<open>bytes\<close>, and stripping a \<open>str\<close> from one raises: only an empty response
  gets as far as the missing header.
\<close>

definition read_response :: "string \<Rightarrow> pkg_index res" where
  "read_response body = (if body = [] then Inl AssertionError else Inl TypeError)"

definition HTTP_FORBIDDEN_CODES :: "int list" where
  "HTTP_FORBIDDEN_CODES = [401, 403]"

definition HTTP_NOT_FOUND_CODES :: "int list" where
  "HTTP_NOT_FOUND_CODES = [404, 410]"

definition lift_py :: "'a res \<Rightarrow> fetch_error + 'a" where
  "lift_py r = (case r of Inl e \<Rightarrow> Inl (PyError e) | Inr a \<Rightarrow> Inr a)"

definition with_uri :: "string \<Rightarrow> pkg_index \<Rightarrow> pkg_index" where
  "with_uri url idx = (if dict_get (header idx) ''URI'' = None then idx\<lparr>header := dict_set (header idx) ''URI'' url\<rparr> else idx)"

text \<open>
  \<open>GrabRemotePackageIndex\<close>, by what the web server answers each attempt and what \<open>gsutil cat\<close> prints,
  which is nothing if it failed.
\<close>

definition GrabRemotePackageIndex ::
    "(nat \<Rightarrow> fetch_error + string) \<Rightarrow> string option \<Rightarrow> string \<Rightarrow> fetch_error + pkg_index option" where
  "GrabRemotePackageIndex urlopen gs_cat binhost_url =
     (if startswith binhost_url ''http''
      then (case fst (RetryUrlOpen urlopen 3) of
              Inl (HTTPError c) \<Rightarrow> if c \<in> set HTTP_FORBIDDEN_CODES \<or> c \<in> set HTTP_NOT_FOUND_CODES then Inr None else Inl (HTTPError c)
            | Inl e \<Rightarrow> Inl e
            | Inr None \<Rightarrow> Inl (PyError TypeError)
            | Inr (Some body) \<Rightarrow> lift_py (res_bind (read_response body) (\<lambda>i. Inr (Some (with_uri binhost_url i)))))
      else if startswith binhost_url ''gs://''
      then (case gs_cat of
              None \<Rightarrow> Inr None
            | Some contents \<Rightarrow> lift_py (res_bind (Read PackageIndex contents) (\<lambda>i. Inr (Some (with_uri binhost_url i)))))
      else Inr None)"

text \<open>
  \<open>GrabLocalPackageIndex\<close>, by the contents of the \<open>Packages\<close> file and the paths below the directory.
\<close>

definition debug_suffix :: string where
  "debug_suffix = ''.debug.tbz2''"

definition GrabLocalPackageIndex :: "string \<Rightarrow> string list \<Rightarrow> pkg_index res" where
  "GrabLocalPackageIndex contents files =
     res_bind (Read PackageIndex contents) (\<lambda>idx.
       let symbols = map (\<lambda>f. take (length f - length debug_suffix) f) (filter (\<lambda>f. endswith (basename f) debug_suffix) files)
       in Inr (idx\<lparr>packages := map (\<lambda>p.
            let q = dict_del p ''DEBUG_SYMBOLS'' in if cpv q \<in> set symbols then dict_set q ''DEBUG_SYMBOLS'' ''yes'' else q) (packages idx)\<rparr>))"

text \<open>
  \<open>FetchTarballs\<close>, by the index of each URL (\<open>None\<close> if there is none): the downloads it queues, each with
  its URLs and the directory they go to.
\<close>

definition add_fetch :: "string \<Rightarrow> entry \<Rightarrow> (string, (string, string) dict) dict \<Rightarrow> (string, (string, string) dict) dict res" where
  "add_fetch base_uri pkg cats =
     res_bind (py_item pkg ''CPV'') (\<lambda>c.
       let path = (case dict_get pkg ''PATH'' of Some p \<Rightarrow> p | None \<Rightarrow> c @ ''.tbz2'');
           cat = takeWhile (\<lambda>x. x \<noteq> CHR ''/'') c;
           fetches = (case dict_get cats cat of Some f \<Rightarrow> f | None \<Rightarrow> [])
       in Inr (dict_set cats cat (dict_set fetches c (join ''/'' [base_uri, path]))))"

definition FetchTarballs ::
    "(string \<Rightarrow> fetch_error + pkg_index option) \<Rightarrow> string list \<Rightarrow> string \<Rightarrow> fetch_error + (string list \<times> string) list" where
  "FetchTarballs grab binhost_urls pkgdir =
     res_bind (fold_res (\<lambda>u cats. res_bind (grab u) (\<lambda>r.
         case r of None \<Rightarrow> Inl (PyError AttributeError)
         | Some idx \<Rightarrow> lift_py (res_bind (py_item (header idx) ''URI'') (\<lambda>base.
             fold_res (add_fetch base) (packages idx) cats)))) binhost_urls [])
       (\<lambda>cats. Inr (map (\<lambda>(cat, urls). (map snd urls, path_join pkgdir [cat])) cats))"

lemma http_index_unreadable:
  "startswith url ''http'' \<Longrightarrow> body \<noteq> [] \<Longrightarrow> urlopen 0 = Inr body \<Longrightarrow>
    GrabRemotePackageIndex urlopen gs_cat url = Inl (PyError TypeError)"
  by (simp add: GrabRemotePackageIndex_def RetryUrlOpen_def eval_nat_numeral read_response_def lift_py_def)

section \<open>Properties\<close>

text \<open>
  C36. \<open>Write\<close> and \<open>WriteFile\<close> produce the same text for a well-formed index, and a new index that reads
  it has the header and the packages of the written one, these sorted by \<open>CPV\<close>, each with all its
  fields that are not empty.
\<close>

theorem index_roundtrip:
  assumes "entry_ok (header idx)" "list_all package_ok (packages idx)"
  shows "\<exists>contents idx' read. Write now idx = Inr (contents, idx') \<and> WriteFile now idx = Inr (contents, idx')
    \<and> packages idx' = packages idx \<and> \<not> modified idx'
    \<and> Read PackageIndex contents = Inr read
    \<and> (\<forall>k. dict_get (header read) k = (if truthy (dict_get (header idx') k) then dict_get (header idx') k else None))
    \<and> packages read = map norm (sort_key cpv (packages idx))
    \<and> (modified idx \<longrightarrow> dict_get (header read) ''PACKAGES'' = Some (str_of_nat (length (packages read))))"
proof -
  define idx' where "idx' = ModifiedHeaderUpdate now idx"
  define ps where "ps = sort_key cpv (packages idx)"
  have ps: "packages idx' = packages idx" by (simp add: idx'_def ModifiedHeaderUpdate_def)
  have h: "entry_ok (header idx')" using entry_ok_update[OF assms(1)] by (simp add: idx'_def)
  have ok: "list_all package_ok ps" using assms(2) by (simp add: ps_def list_all_iff)
  have "list_all (\<lambda>p. dict_get p ''CPV'' \<noteq> None) (packages idx)"
    using assms(2) by (auto simp: list_all_iff package_ok_def truthy_def)
  then have sorted: "sorted_packages (packages idx') = Inr ps" by (simp add: sorted_packages_def ps ps_def)
  define contents where "contents = WritePkgIndex (header idx') @ concat (map WritePkgIndex ps)"
  have w: "Write now idx = Inr (contents, idx')"
    using sorted by (simp add: Write_def Let_def idx'_def[symmetric] contents_def)
  have ne: "FormatPkgIndex (header idx') @ concat (map FormatPkgIndex ps) \<noteq> []" using Format_norm[OF h] by simp
  have "join [NL] (FormatPkgIndex (header idx') @ concat (map FormatPkgIndex ps)) @ [NL] = contents"
    unfolding contents_def written_contents[OF h ok] by (rule join_lines[OF ne])
  then have wf: "WriteFile now idx = Inr (contents, idx')"
    using sorted by (simp add: WriteFile_def Let_def idx'_def[symmetric])
  have r: "Read PackageIndex contents = Inr \<lparr>header = norm (header idx'), packages = map norm ps, modified = False\<rparr>"
    unfolding contents_def by (rule Read_written[OF h ok])
  have get: "dict_get (norm (header idx')) k = (if truthy (dict_get (header idx') k) then dict_get (header idx') k else None)" for k
    using dict_get_norm h by (simp add: entry_ok_def)
  have "dict_get (norm (header idx')) ''PACKAGES'' = Some (str_of_nat (length ps))" if "modified idx"
    unfolding get using that by (simp add: idx'_def ModifiedHeaderUpdate_def dict_get_set truthy_def ps_def)
  with w wf r get ps show ?thesis
    by (intro exI[of _ contents] exI[of _ idx'] exI[of _ "\<lparr>header = norm (header idx'), packages = map norm ps, modified = False\<rparr>"])
      (simp add: ps_def idx'_def ModifiedHeaderUpdate_def)
qed

theorem index_roundtrip_witness:
  "\<exists>contents idx' r. Write 7 \<lparr>header = [(''URI'', ''gs://b'')], packages = [[(''CPV'', ''c/p-1'')], [(''SHA1'', ''ab''), (''CPV'', ''a/q-2'')]],
      modified = True\<rparr> = Inr (contents, idx') \<and> Read PackageIndex contents = Inr r
    \<and> packages r = [[(''CPV'', ''a/q-2''), (''SHA1'', ''ab'')], [(''CPV'', ''c/p-1'')]]"
proof -
  let ?i = "\<lparr>header = [(''URI'', ''gs://b'')], packages = [[(''CPV'', ''c/p-1'')], [(''SHA1'', ''ab''), (''CPV'', ''a/q-2'')]], modified = True\<rparr>"
  have 1: "entry_ok (header ?i)" by code_simp
  have 2: "list_all package_ok (packages ?i)" by code_simp
  have 3: "map norm (sort_key cpv (packages ?i)) = [[(''CPV'', ''a/q-2''), (''SHA1'', ''ab'')], [(''CPV'', ''c/p-1'')]]" by code_simp
  from index_roundtrip[OF 1 2, of 7] 3 show ?thesis by metis
qed

definition usable :: "string \<Rightarrow> entry \<Rightarrow> uploaded \<Rightarrow> bool" where
  "usable base p u \<longleftrightarrow> startswith (uri u) base \<and> (dict_get p ''DEBUG_SYMBOLS'' = Some ''yes'' \<longrightarrow> debug_symbols u)"

definition newest_offer :: "(string \<times> uploaded) list \<Rightarrow> int \<Rightarrow> string \<Rightarrow> uploaded \<Rightarrow> bool" where
  "newest_offer os expires sha u \<longleftrightarrow> (sha, u) \<in> set os \<and> max expires 0 < mtime u \<and> (\<forall>v. (sha, v) \<in> set os \<longrightarrow> mtime v \<le> mtime u)"

definition points_at :: "string \<Rightarrow> entry \<Rightarrow> uploaded \<Rightarrow> bool" where
  "points_at base p u \<longleftrightarrow> (\<exists>rest. uri u = base @ rest \<and> dict_get p ''PATH'' = Some (lstrip (\<lambda>c. c = CHR ''/'') rest))
     \<and> dict_get p ''MTIME'' = Some (str_of_int (mtime u)) \<and> (dict_get p ''DEBUG_SYMBOLS'' = Some ''yes'' \<longleftrightarrow> debug_symbols u)"

lemma newest_lookup:
  assumes "newest os expires db"
  shows "dict_get db sha = Some u \<Longrightarrow> newest_offer os expires sha u"
    and "dict_get db sha = None \<Longrightarrow> \<not> newest_offer os expires sha u"
proof -
  have "case dict_get db sha of
       None \<Rightarrow> \<forall>u. (sha, u) \<in> set os \<longrightarrow> mtime u \<le> max expires 0
     | Some p \<Rightarrow> (sha, p) \<in> set os \<and> max expires 0 < mtime p \<and> (\<forall>u. (sha, u) \<in> set os \<longrightarrow> mtime u \<le> mtime p)"
    using assms by (simp add: newest_def)
  then show "dict_get db sha = Some u \<Longrightarrow> newest_offer os expires sha u"
    and "dict_get db sha = None \<Longrightarrow> \<not> newest_offer os expires sha u"
    by (auto simp: newest_offer_def)
qed

definition resolved_right :: "string \<Rightarrow> int \<Rightarrow> (string \<times> uploaded) list \<Rightarrow> entry \<Rightarrow> entry \<times> bool \<Rightarrow> bool" where
  "resolved_right base now os p r \<longleftrightarrow>
     (\<forall>k. k \<notin> {''PATH'', ''MTIME'', ''DEBUG_SYMBOLS''} \<longrightarrow> dict_get (fst r) k = dict_get p k)
     \<and> (if snd r
        then fst r = dict_set p ''MTIME'' (str_of_int now)
          \<and> (\<forall>sha. dict_get p ''SHA1'' = Some sha \<and> sha \<noteq> [] \<longrightarrow>
              (\<forall>u. \<not> newest_offer os (now - TWO_WEEKS) sha u) \<or> (\<exists>u. newest_offer os (now - TWO_WEEKS) sha u \<and> \<not> usable base p u))
        else (\<exists>sha u. dict_get p ''SHA1'' = Some sha \<and> sha \<noteq> [] \<and> newest_offer os (now - TWO_WEEKS) sha u
          \<and> usable base p u \<and> points_at base (fst r) u))"

lemma resolve_package_right:
  assumes db: "newest os (now - TWO_WEEKS) db"
  shows "resolved_right base now os p (resolve_package base now db p)"
proof (cases "truthy (dict_get p ''SHA1'') \<and> (\<exists>u. dict_get db (the (dict_get p ''SHA1'')) = Some u \<and> usable base p u)")
  case True
  then obtain sha u where s: "dict_get p ''SHA1'' = Some sha" "sha \<noteq> []" "dict_get db sha = Some u" "usable base p u"
    by (auto simp: truthy_def)
  define q where "q = dict_set (dict_set p ''PATH'' (lstrip (\<lambda>c. c = CHR ''/'') (drop (length base) (uri u))))
                      ''MTIME'' (str_of_int (mtime u))"
  have r: "resolve_package base now db p = (if debug_symbols u then dict_set q ''DEBUG_SYMBOLS'' ''yes'' else q, False)"
    using s unfolding resolve_package_def by (auto simp: truthy_def usable_def Let_def q_def)
  obtain rest where rest: "uri u = base @ rest" using s(4) by (auto simp: usable_def startswith_iff)
  have "points_at base (if debug_symbols u then dict_set q ''DEBUG_SYMBOLS'' ''yes'' else q) u"
    using s(4) by (auto simp: points_at_def q_def dict_get_set rest usable_def)
  with s newest_lookup(1)[OF db s(3)] show ?thesis
    by (auto simp: resolved_right_def r q_def dict_get_set)
next
  case False
  then have r: "resolve_package base now db p = (dict_set p ''MTIME'' (str_of_int now), True)"
    unfolding resolve_package_def by (auto simp: truthy_def usable_def Let_def split: option.splits)
  have "(\<forall>u. \<not> newest_offer os (now - TWO_WEEKS) sha u) \<or> (\<exists>u. newest_offer os (now - TWO_WEEKS) sha u \<and> \<not> usable base p u)"
    if "dict_get p ''SHA1'' = Some sha" "sha \<noteq> []" for sha
    using False that newest_lookup[OF db] by (cases "dict_get db sha") (auto simp: truthy_def)
  then show ?thesis by (auto simp: resolved_right_def r dict_get_set)
qed

text \<open>
  C15. \<open>ResolveDuplicateUploads\<close> points a package at the newest upload of the same SHA-1 among the indexes
  of the same base, if that is less than two weeks old, lies below the base and has the debug
  symbols the package needs. Any other package gets the current time and is returned for upload.
\<close>

theorem resolve_duplicate_uploads:
  assumes "ResolveDuplicateUploads now idx idxs = Inr (idx', uploads)"
  shows "\<exists>base flags. dict_get (header idx) ''URI'' = Some base \<and> header idx' = header idx
    \<and> length (packages idx') = length (packages idx) \<and> length flags = length (packages idx)
    \<and> uploads = map fst (filter snd (zip (packages idx') flags))
    \<and> (\<forall>n < length (packages idx).
        resolved_right base now (offers (CanonicalizeURL base) idxs) (packages idx ! n) (packages idx' ! n, flags ! n))"
proof -
  obtain base db where b: "dict_get (header idx) ''URI'' = Some base"
    and db: "duplicate_db (CanonicalizeURL base) (now - TWO_WEEKS) idxs = Inr db"
    using assms by (auto simp: ResolveDuplicateUploads_def py_item_def res_bind_Inr split: option.splits)
  define rs where "rs = map (resolve_package base now db) (packages idx)"
  have i: "idx' = idx\<lparr>packages := map fst rs\<rparr>" "uploads = map fst (filter snd rs)"
    using assms b db by (auto simp: ResolveDuplicateUploads_def py_item_def rs_def Let_def)
  have "resolved_right base now (offers (CanonicalizeURL base) idxs) (packages idx ! n) (rs ! n)"
    if "n < length (packages idx)" for n
    using resolve_package_right[OF duplicate_db_newest[OF db], of base "packages idx ! n"] that by (simp add: rs_def)
  then show ?thesis
    by (intro exI[of _ base] exI[of _ "map snd rs"]) (simp add: b i zip_map_fst_snd, simp add: rs_def)
qed

theorem resolve_duplicate_uploads_witness:
  "\<exists>idx' uploads. ResolveDuplicateUploads 60
      \<lparr>header = [(''URI'', ''gs://b'')], packages = [[(''CPV'', ''c/p-1''), (''SHA1'', ''aa'')], [(''CPV'', ''c/q-1''), (''SHA1'', ''bb'')]], modified = False\<rparr>
      [\<lparr>header = [(''URI'', ''https://storage.googleapis.com/b'')], packages = [[(''CPV'', ''c/p-1''), (''SHA1'', ''aa''), (''MTIME'', ''50'')]], modified = False\<rparr>]
      = Inr (idx', uploads) \<and> length (packages idx') = 2"
proof -
  let ?r = "ResolveDuplicateUploads 60
      \<lparr>header = [(''URI'', ''gs://b'')], packages = [[(''CPV'', ''c/p-1''), (''SHA1'', ''aa'')], [(''CPV'', ''c/q-1''), (''SHA1'', ''bb'')]], modified = False\<rparr>
      [\<lparr>header = [(''URI'', ''https://storage.googleapis.com/b'')], packages = [[(''CPV'', ''c/p-1''), (''SHA1'', ''aa''), (''MTIME'', ''50'')]], modified = False\<rparr>]"
  have "isOk ?r" by code_simp
  then obtain r where r: "?r = Inr r" unfolding isOk_iff by blast
  obtain idx' uploads where iu: "r = (idx', uploads)" by (rule prod.exhaust)
  have "length (packages idx') = length [[(''CPV'', ''c/p-1''), (''SHA1'', ''aa'')], [(''CPV'', ''c/q-1''), (''SHA1'', ''bb'')]]"
    using resolve_duplicate_uploads[OF r[unfolded iu]] by (elim exE conjE) (simp only: pkg_index.select_convs)
  with r iu show ?thesis by (intro exI[of _ idx'] exI[of _ uploads]) simp
qed

end
