(* ===== verification/VersionInfo.thy ===== *)
theory VersionInfo
  imports Comparison Paths
begin

text \<open>
  Version numbers of builds (\<open>VersionInfo\<close> of \<open>cbuildbot/manifest_version.py\<close>): parsing a version
  string, reading the version file, incrementing, the comparison operators, and the rewritten
  version file.
\<close>

section \<open>The state\<close>

text \<open>
  The numbers are kept as the strings that the patterns match. \<open>chrome_branch\<close> is \<^const>\<open>None\<close> when the file
  has not set the attribute, and when no value was passed along with a version string; \<open>incr_type\<close> is
  empty if it was given as \<open>None\<close>.
\<close>

record version_info =
  build_number :: string
  branch_build_number :: string
  patch_number :: string
  chrome_branch :: "string option"
  version_file :: "string option"
  incr_type :: string

definition VersionUpdateException :: py_error where
  "VersionUpdateException = Raised ''VersionUpdateException''"

definition VALID_INCR_TYPES :: "string list" where
  "VALID_INCR_TYPES = [''chrome_branch'', ''build'', ''branch'', ''patch'']"

section \<open>Patterns\<close>

text \<open>
  \<open>\d+\<close> at the start of a string: the matches with what they leave, the longest first, as
  backtracking tries them.
\<close>

definition digit_runs :: "string \<Rightarrow> (string \<times> string) list" where
  "digit_runs s = map (\<lambda>n. (take n s, drop n s)) (rev [1..<length (takeWhile is_digit s) + 1])"

text \<open>A dot of the pattern is not escaped: it takes any character but a newline.\<close>

definition any_char :: "string \<Rightarrow> string list" where
  "any_char s = (case s of [] \<Rightarrow> [] | c # r \<Rightarrow> if c = CHR 0x0A then [] else [r])"

text \<open>
  The groups of \<open>VER_PATTERN\<close> at the start of a string, in the order of backtracking; the suffix \<open>-R\<close>
  may be absent and has no part in them.
\<close>

definition ver_matches :: "string \<Rightarrow> (string \<times> string \<times> string) list" where
  "ver_matches s =
     concat (map (\<lambda>(b, r1). concat (map (\<lambda>r2. concat (map (\<lambda>(br, r3). concat (map (\<lambda>r4.
       map (\<lambda>(p, r5). (b, br, p)) (digit_runs r4)) (any_char r3))) (digit_runs r2))) (any_char r1))) (digit_runs s))"

fun search_version :: "string \<Rightarrow> (string \<times> string \<times> string) option" where
  "search_version [] = None"
| "search_version (c # s) = (case ver_matches (c # s) of m # _ \<Rightarrow> Some m | [] \<Rightarrow> search_version s)"

text \<open>
  \<open>KEY_VALUE_PATTERN\<close> for a key: the value at the start of a string, where what follows the digits can
  only be white space, and the first place of a line that has one, with the text before it.
\<close>

definition value_at :: "string \<Rightarrow> string \<Rightarrow> string option" where
  "value_at key s =
     (if startswith s (key @ ''='')
      then (let r = drop (length key + 1) s; d = takeWhile is_digit r
            in if d \<noteq> [] \<and> list_all is_space (dropWhile is_digit r) then Some d else None)
      else None)"

fun search_value :: "string \<Rightarrow> string \<Rightarrow> (string \<times> string) option" where
  "search_value key [] = None"
| "search_value key (c # s) =
     (case value_at key (c # s) of Some v \<Rightarrow> Some ([], v)
      | None \<Rightarrow> map_option (\<lambda>(p, v). (c # p, v)) (search_value key s))"

definition FindValue :: "string \<Rightarrow> string \<Rightarrow> string option" where
  "FindValue key line = map_option snd (search_value key line)"

section \<open>Construction\<close>

definition VersionInfo_from_string :: "string \<Rightarrow> string option \<Rightarrow> string \<Rightarrow> version_info res" where
  "VersionInfo_from_string s cb incr =
     (case search_version s of None \<Rightarrow> Inl AttributeError
      | Some (b, br, p) \<Rightarrow> Inr \<lparr>build_number = b, branch_build_number = br, patch_number = p,
          chrome_branch = cb, version_file = None, incr_type = incr\<rparr>)"

text \<open>The attributes while the file is read: those the lines so far have set.\<close>

record version_attrs =
  found_chrome :: "string option"
  found_build :: "string option"
  found_branch :: "string option"
  found_patch :: "string option"

definition load_line :: "string \<Rightarrow> version_attrs \<Rightarrow> version_attrs" where
  "load_line line a =
     (if strip is_space line = [] then a
      else (case FindValue ''CHROME_BRANCH'' line of Some v \<Rightarrow> a\<lparr>found_chrome := Some v\<rparr>
      | None \<Rightarrow> (case FindValue ''CHROMEOS_BUILD'' line of Some v \<Rightarrow> a\<lparr>found_build := Some v\<rparr>
      | None \<Rightarrow> (case FindValue ''CHROMEOS_BRANCH'' line of Some v \<Rightarrow> a\<lparr>found_branch := Some v\<rparr>
      | None \<Rightarrow> (case FindValue ''CHROMEOS_PATCH'' line of Some v \<Rightarrow> a\<lparr>found_patch := Some v\<rparr>
      | None \<Rightarrow> a)))))"

definition load_lines :: "string \<Rightarrow> version_attrs" where
  "load_lines text =
     fold load_line (lines_kept text) \<lparr>found_chrome = None, found_build = None, found_branch = None, found_patch = None\<rparr>"

text \<open>The version string that is logged in the end needs three of the attributes.\<close>

definition LoadFromFile :: "string \<Rightarrow> string \<Rightarrow> string \<Rightarrow> version_info res" where
  "LoadFromFile path text incr =
     (let a = load_lines text in
      case (found_build a, found_branch a, found_patch a) of
        (Some b, Some br, Some p) \<Rightarrow> Inr \<lparr>build_number = b, branch_build_number = br, patch_number = p,
           chrome_branch = found_chrome a, version_file = Some path, incr_type = incr\<rparr>
      | _ \<Rightarrow> Inl AttributeError)"

section \<open>Operations\<close>

definition VersionString :: "version_info \<Rightarrow> string" where
  "VersionString v = build_number v @ ''.'' @ branch_build_number v @ ''.'' @ patch_number v"

definition VersionComponents :: "version_info \<Rightarrow> int list res" where
  "VersionComponents v = map_res py_int [build_number v, branch_build_number v, patch_number v]"

text \<open>\<open>str(int(s) + 1)\<close>\<close>

definition incremented :: "string \<Rightarrow> string res" where
  "incremented s = res_bind (py_int s) (\<lambda>n. Inr (str_of_int (n + 1)))"

text \<open>The attribute, which is not set or is \<open>None\<close> according to how the object was made.\<close>

definition int_chrome_branch :: "version_info \<Rightarrow> string res" where
  "int_chrome_branch v =
     (case chrome_branch v of Some cb \<Rightarrow> incremented cb
      | None \<Rightarrow> Inl (if version_file v = None then TypeError else AttributeError))"

definition increment_chrome :: "version_info \<Rightarrow> version_info res" where
  "increment_chrome v =
     (if incr_type v = ''chrome_branch''
      then res_bind (int_chrome_branch v) (\<lambda>cb. Inr (v\<lparr>chrome_branch := Some cb\<rparr>)) else Inr v)"

definition increment_numbers :: "version_info \<Rightarrow> version_info res" where
  "increment_numbers v =
     (if incr_type v = ''build'' \<or> incr_type v = ''chrome_branch''
      then res_bind (incremented (build_number v)) (\<lambda>n.
        Inr (v\<lparr>build_number := n, branch_build_number := ''0'', patch_number := ''0''\<rparr>))
      else if incr_type v = ''branch'' \<and> patch_number v = ''0''
      then res_bind (incremented (branch_build_number v)) (\<lambda>n. Inr (v\<lparr>branch_build_number := n\<rparr>))
      else res_bind (incremented (patch_number v)) (\<lambda>n. Inr (v\<lparr>patch_number := n\<rparr>)))"

definition IncrementVersion :: "version_info \<Rightarrow> (version_info \<times> string) res" where
  "IncrementVersion v =
     (if incr_type v = [] \<or> incr_type v \<notin> set VALID_INCR_TYPES then Inl VersionUpdateException
      else res_bind (increment_chrome v) (\<lambda>v. res_bind (increment_numbers v) (\<lambda>v. Inr (v, VersionString v))))"

text \<open>The comparison operators compare the lists of components.\<close>

definition compare_components :: "(int list \<Rightarrow> int list \<Rightarrow> bool) \<Rightarrow> version_info \<Rightarrow> version_info \<Rightarrow> bool res" where
  "compare_components r v w = res_bind (VersionComponents v) (\<lambda>a. res_bind (VersionComponents w) (\<lambda>b. Inr (r a b)))"

definition version_lt :: "version_info \<Rightarrow> version_info \<Rightarrow> bool res" where
  "version_lt = compare_components (<)"

definition version_le :: "version_info \<Rightarrow> version_info \<Rightarrow> bool res" where
  "version_le = compare_components (\<le>)"

definition version_eq :: "version_info \<Rightarrow> version_info \<Rightarrow> bool res" where
  "version_eq = compare_components (=)"

definition version_ne :: "version_info \<Rightarrow> version_info \<Rightarrow> bool res" where
  "version_ne = compare_components (\<noteq>)"

definition version_gt :: "version_info \<Rightarrow> version_info \<Rightarrow> bool res" where
  "version_gt = compare_components (>)"

definition version_ge :: "version_info \<Rightarrow> version_info \<Rightarrow> bool res" where
  "version_ge = compare_components (\<ge>)"

definition VersionCompare :: "string \<Rightarrow> int list res" where
  "VersionCompare s = res_bind (VersionInfo_from_string s None ''build'') VersionComponents"

definition BuildPrefix :: "version_info \<Rightarrow> string" where
  "BuildPrefix v =
     (if incr_type v = ''branch''
      then (if patch_number v = ''0'' then build_number v @ ''.''
            else build_number v @ ''.'' @ branch_build_number v @ ''.'')
      else [])"

text \<open>A missing attribute raises, but a \<open>None\<close> is formatted.\<close>

definition str_chrome_branch :: "version_info \<Rightarrow> string res" where
  "str_chrome_branch v =
     (case chrome_branch v of Some cb \<Rightarrow> Inr cb
      | None \<Rightarrow> if version_file v = None then Inr ''None'' else Inl AttributeError)"

definition OfficialBuildSpecPath :: "version_info \<Rightarrow> string res" where
  "OfficialBuildSpecPath v =
     res_bind (str_chrome_branch v) (\<lambda>cb. Inr (path_join ''buildspecs'' [cb, VersionString v @ ''.xml'']))"

section \<open>The version file\<close>

text \<open>\<open>re.sub\<close> of one component: a match reaches to the end of the line, so there is at most one.\<close>

definition sub_value :: "string \<times> string \<Rightarrow> string \<Rightarrow> string" where
  "sub_value kv line =
     (case search_value (fst kv) line of None \<Rightarrow> line
      | Some (pre, old) \<Rightarrow> pre @ fst kv @ ''='' @ snd kv @ [CHR 0x0A])"

definition version_keys :: "version_info \<Rightarrow> (string \<times> string) list res" where
  "version_keys v =
     (case chrome_branch v of None \<Rightarrow> Inl AttributeError
      | Some cb \<Rightarrow> Inr [(''CHROMEOS_BUILD'', build_number v), (''CHROMEOS_BRANCH'', branch_build_number v),
          (''CHROMEOS_PATCH'', patch_number v), (''CHROME_BRANCH'', cb)])"

definition rewritten_text :: "(string \<times> string) list \<Rightarrow> string \<Rightarrow> string" where
  "rewritten_text kvs contents = concat (map (fold sub_value kvs) (lines_kept contents))"

text \<open>The new contents of the file; nothing is written when there is no file.\<close>

definition new_version_text :: "version_info \<Rightarrow> string \<Rightarrow> string res" where
  "new_version_text v text =
     (if version_file v = None \<or> version_file v = Some [] then Inl VersionUpdateException
      else res_bind (version_keys v) (\<lambda>kvs. Inr (rewritten_text kvs text)))"

section \<open>Well-formed objects\<close>

definition numeric :: "string \<Rightarrow> bool" where
  "numeric s \<longleftrightarrow> s \<noteq> [] \<and> list_all is_digit s"

lemma numeric_py_int: "numeric s \<Longrightarrow> py_int s = Inr (int (nat_of_digits s))"
  by (simp add: numeric_def py_int_digits)

lemma numeric_str_of_nat [simp]: "numeric (str_of_nat n)"
  by (simp add: numeric_def str_of_nat_digits)

lemma numeric_incremented: "numeric s \<Longrightarrow> incremented s = Inr (str_of_nat (Suc (nat_of_digits s)))"
  by (simp add: incremented_def numeric_py_int str_of_int_def nat_add_distrib)

lemma numeric_0 [simp]: "numeric ''0''"
  by code_simp

lemma nat_of_digits_0 [simp]: "nat_of_digits ''0'' = 0"
  by code_simp

lemma digit_runs_numeric:
  assumes "(d, r) \<in> set (digit_runs s)" shows "numeric d"
proof -
  let ?t = "takeWhile is_digit s"
  from assms obtain n where "n \<in> set [1..<length ?t + 1]" and d: "d = take n s"
    unfolding digit_runs_def set_map set_rev by blast
  then have n: "0 < n" "n \<le> length ?t" by auto
  have "s = ?t @ dropWhile is_digit s" by simp
  then have "take n s = take n ?t" using n by (metis append_take_drop_id takeWhile_append1 take_append diff_is_0_eq take0 append_Nil2)
  moreover have "?t \<noteq> []" using n by auto
  moreover have "set (take n ?t) \<subseteq> Collect is_digit" using set_take_subset[of n ?t] set_takeWhileD[of _ is_digit s] by blast
  ultimately show ?thesis using n d by (auto simp: numeric_def list_all_iff)
qed

lemma ver_matches_numeric: "(b, br, p) \<in> set (ver_matches s) \<Longrightarrow> numeric b \<and> numeric br \<and> numeric p"
  unfolding ver_matches_def by (auto dest: digit_runs_numeric)

lemma search_version_numeric: "search_version s = Some (b, br, p) \<Longrightarrow> numeric b \<and> numeric br \<and> numeric p"
proof (induction s)
  case (Cons c s)
  show ?case
  proof (cases "ver_matches (c # s)")
    case Nil
    with Cons show ?thesis by simp
  next
    case (Cons m ms)
    then have "(b, br, p) \<in> set (ver_matches (c # s))" using \<open>search_version (c # s) = _\<close> by simp
    then show ?thesis by (rule ver_matches_numeric)
  qed
qed simp

text \<open>
  A match of \<open>KEY_VALUE_PATTERN\<close> ends the line, so its value follows the last equals sign: a line
  has at most one value, of at most one key.
\<close>

definition value_line :: "string \<Rightarrow> string \<Rightarrow> string \<Rightarrow> string \<Rightarrow> bool" where
  "value_line key p d line \<longleftrightarrow> (\<exists>w. line = p @ key @ CHR ''='' # d @ w \<and> numeric d \<and> list_all is_space w)"

lemma equals_no_digit [simp]: "\<not> is_digit CHR ''=''" "\<not> is_space CHR ''=''"
  by code_simp+

lemma space_not_digit: "is_space c \<Longrightarrow> \<not> is_digit c"
  using is_digit_not_space by blast

lemma digits_then_space:
  assumes "list_all is_digit d" "list_all is_space w"
  shows "takeWhile is_digit (d @ w) = d \<and> dropWhile is_digit (d @ w) = w"
  using assms span_append[of is_digit d w] by (cases w) (auto simp: space_not_digit)

lemma value_at_iff: "value_at key s = Some d \<longleftrightarrow> value_line key [] d s"
proof
  assume "value_at key s = Some d"
  then obtain r where r: "s = key @ CHR ''='' # r" "d = takeWhile is_digit r" "d \<noteq> []" "list_all is_space (dropWhile is_digit r)"
    by (auto simp: value_at_def Let_def startswith_iff split: if_splits)
  then have "numeric d" by (auto simp: numeric_def list_all_iff dest: set_takeWhileD)
  with r show "value_line key [] d s" unfolding value_line_def
    by (intro exI[of _ "dropWhile is_digit r"]) simp
next
  assume "value_line key [] d s"
  then obtain w where "s = key @ CHR ''='' # d @ w" "d \<noteq> []" "list_all is_digit d" "list_all is_space w"
    by (auto simp: value_line_def numeric_def)
  then show "value_at key s = Some d"
    using digits_then_space[of d w] by (simp add: value_at_def startswith_iff)
qed

lemma value_line_unique:
  assumes "value_line key p d l" "value_line key' p' d' l"
  shows "p @ key = p' @ key' \<and> d = d'"
proof -
  from assms(1) obtain w where l: "l = (p @ key) @ CHR ''='' # (d @ w)" and n: "list_all is_digit d" "list_all is_space w"
    by (auto simp: value_line_def numeric_def)
  from assms(2) obtain w' where l': "l = (p' @ key') @ CHR ''='' # (d' @ w')" and n': "list_all is_digit d'" "list_all is_space w'"
    by (auto simp: value_line_def numeric_def)
  have "CHR ''='' \<notin> set (d @ w)" "CHR ''='' \<notin> set (d' @ w')" using n n' by (auto simp: list_all_iff)
  then have "p @ key = p' @ key' \<and> d @ w = d' @ w'"
    by (rule append_last_sep) (rule trans[OF l[symmetric] l'])
  then have eq: "p @ key = p' @ key'" "d @ w = d' @ w'" by blast+
  have "d = takeWhile is_digit (d @ w)" using digits_then_space[OF n] by simp
  also have "\<dots> = d'" unfolding eq(2) using digits_then_space[OF n'] by simp
  finally show ?thesis using eq(1) by blast
qed

lemma value_line_Cons: "value_line key (c # p) d (c # s) \<longleftrightarrow> value_line key p d s"
  by (simp add: value_line_def)

lemma search_value_iff: "search_value key l = Some (p, d) \<longleftrightarrow> value_line key p d l"
proof (induction l arbitrary: p)
  case Nil
  show ?case by (simp add: value_line_def)
next
  case (Cons c s)
  show ?case
  proof (cases "value_at key (c # s)")
    case None
    then have no: "\<not> value_line key [] d (c # s)" using value_at_iff[of key "c # s" d] by simp
    show ?thesis
    proof (cases p)
      case Nil
      with no None show ?thesis by auto
    next
      case p: (Cons c' p')
      have "value_line key p d (c # s) \<longleftrightarrow> c' = c \<and> value_line key p' d s"
        unfolding p value_line_def by auto
      moreover have "search_value key (c # s) = Some (p, d) \<longleftrightarrow> c' = c \<and> search_value key s = Some (p', d)"
        using None p by auto
      ultimately show ?thesis using Cons.IH by simp
    qed
  next
    case (Some v)
    then have v: "value_line key [] v (c # s)" by (simp add: value_at_iff)
    have "value_line key p d (c # s) \<longleftrightarrow> p = [] \<and> d = v"
      using v value_line_unique[OF v, of key p d] by auto
    with Some show ?thesis by auto
  qed
qed

lemma FindValue_iff: "FindValue key l = Some d \<longleftrightarrow> (\<exists>p. value_line key p d l)"
  unfolding FindValue_def by (auto simp: search_value_iff[symmetric])

lemma FindValue_numeric: "FindValue key l = Some d \<Longrightarrow> numeric d"
  by (auto simp: FindValue_iff value_line_def)

text \<open>What a version file leaves in an attribute: the last value of its key.\<close>

definition keep_last :: "string option \<Rightarrow> string option \<Rightarrow> string option" where
  "keep_last v old = (case v of None \<Rightarrow> old | Some d \<Rightarrow> Some d)"

definition last_value :: "string \<Rightarrow> string list \<Rightarrow> string option" where
  "last_value key ls = fold (\<lambda>l. keep_last (FindValue key l)) ls None"

definition KEYS :: "string list" where
  "KEYS = [''CHROME_BRANCH'', ''CHROMEOS_BUILD'', ''CHROMEOS_BRANCH'', ''CHROMEOS_PATCH'']"

lemma KEYS_apart: "k \<in> set KEYS \<Longrightarrow> k' \<in> set KEYS \<Longrightarrow> p @ k = p' @ k' \<Longrightarrow> k = k'"
proof -
  have all: "list_all (\<lambda>k. list_all (\<lambda>k'. k = k' \<or> \<not> endswith k k' \<and> \<not> endswith k' k) KEYS) KEYS" by code_simp
  assume k: "k \<in> set KEYS" "k' \<in> set KEYS" and eq: "p @ k = p' @ k'"
  from eq obtain us where "us @ k = k' \<or> k = us @ k'" by (auto simp: append_eq_append_conv2)
  then have "endswith k' k \<or> endswith k k'" by auto
  with all k show "k = k'" by (auto simp: list_all_iff)
qed

lemma KEYS_no_newline: "k \<in> set KEYS \<Longrightarrow> CHR 0x0A \<notin> set k"
  unfolding KEYS_def by auto

lemma FindValue_one_key:
  "k \<in> set KEYS \<Longrightarrow> k' \<in> set KEYS \<Longrightarrow> k \<noteq> k' \<Longrightarrow> FindValue k l = Some d \<Longrightarrow> FindValue k' l = None"
  by (metis FindValue_iff KEYS_apart not_Some_eq value_line_unique)

lemma strip_Nil: "strip P s = [] \<Longrightarrow> x \<in> set s \<Longrightarrow> P x"
proof -
  assume "strip P s = []" "x \<in> set s"
  then have "\<forall>y \<in> set (dropWhile P s). P y" by (simp add: strip_def rstrip_def lstrip_def)
  then have "dropWhile P s = []" by (metis hd_dropWhile hd_in_set)
  with \<open>x \<in> set s\<close> show "P x" by simp
qed

lemma FindValue_blank: "strip is_space l = [] \<Longrightarrow> FindValue key l = None"
proof (rule ccontr)
  assume blank: "strip is_space l = []" and "FindValue key l \<noteq> None"
  then obtain p d where "value_line key p d l" by (auto simp: FindValue_iff)
  then have "CHR ''='' \<in> set l" by (auto simp: value_line_def)
  from strip_Nil[OF blank this] show False by simp
qed

lemma load_line_values:
  "load_line l a =
     \<lparr>found_chrome = keep_last (FindValue ''CHROME_BRANCH'' l) (found_chrome a),
      found_build = keep_last (FindValue ''CHROMEOS_BUILD'' l) (found_build a),
      found_branch = keep_last (FindValue ''CHROMEOS_BRANCH'' l) (found_branch a),
      found_patch = keep_last (FindValue ''CHROMEOS_PATCH'' l) (found_patch a)\<rparr>"
proof (cases "strip is_space l = []")
  case True
  then show ?thesis by (simp add: load_line_def keep_last_def FindValue_blank)
next
  case False
  have one: "k \<in> set KEYS \<Longrightarrow> FindValue k l = Some d \<Longrightarrow> list_all (\<lambda>k'. k' = k \<or> FindValue k' l = None) KEYS" for k d
    unfolding list_all_iff by (metis FindValue_one_key)
  have one1: "FindValue ''CHROME_BRANCH'' l = Some d \<Longrightarrow> FindValue ''CHROMEOS_BUILD'' l = None \<and>
      FindValue ''CHROMEOS_BRANCH'' l = None \<and> FindValue ''CHROMEOS_PATCH'' l = None" for d
    using one[of "''CHROME_BRANCH''" d] by (simp add: KEYS_def)
  have one2: "FindValue ''CHROMEOS_BUILD'' l = Some d \<Longrightarrow> FindValue ''CHROMEOS_BRANCH'' l = None \<and> FindValue ''CHROMEOS_PATCH'' l = None" for d
    using one[of "''CHROMEOS_BUILD''" d] by (simp add: KEYS_def)
  have one3: "FindValue ''CHROMEOS_BRANCH'' l = Some d \<Longrightarrow> FindValue ''CHROMEOS_PATCH'' l = None" for d
    using one[of "''CHROMEOS_BRANCH''" d] by (simp add: KEYS_def)
  note one' = one1 one2 one3
  show ?thesis
  proof (cases "FindValue ''CHROME_BRANCH'' l")
    case None
    show ?thesis
    proof (cases "FindValue ''CHROMEOS_BUILD'' l")
      case none: None
      show ?thesis
        by (cases "FindValue ''CHROMEOS_BRANCH'' l"; cases "FindValue ''CHROMEOS_PATCH'' l")
          (use False None none one' in \<open>simp_all add: load_line_def keep_last_def\<close>)
    qed (use False None one' in \<open>simp add: load_line_def keep_last_def\<close>)
  qed (use False one' in \<open>simp add: load_line_def keep_last_def\<close>)
qed

lemma load_lines_values:
  "load_lines text =
     (let ls = lines_kept text
      in \<lparr>found_chrome = last_value ''CHROME_BRANCH'' ls, found_build = last_value ''CHROMEOS_BUILD'' ls,
          found_branch = last_value ''CHROMEOS_BRANCH'' ls, found_patch = last_value ''CHROMEOS_PATCH'' ls\<rparr>)"
proof -
  have "fold load_line ls a =
     \<lparr>found_chrome = fold (\<lambda>l. keep_last (FindValue ''CHROME_BRANCH'' l)) ls (found_chrome a),
      found_build = fold (\<lambda>l. keep_last (FindValue ''CHROMEOS_BUILD'' l)) ls (found_build a),
      found_branch = fold (\<lambda>l. keep_last (FindValue ''CHROMEOS_BRANCH'' l)) ls (found_branch a),
      found_patch = fold (\<lambda>l. keep_last (FindValue ''CHROMEOS_PATCH'' l)) ls (found_patch a)\<rparr>" for ls a
    by (induction ls arbitrary: a) (simp_all add: load_line_values)
  then show ?thesis by (simp add: load_lines_def last_value_def Let_def)
qed

lemma last_value_numeric: "last_value key ls = Some d \<Longrightarrow> numeric d"
proof -
  have "fold (\<lambda>l. keep_last (FindValue key l)) ls old = Some d \<Longrightarrow> (\<And>e. old = Some e \<Longrightarrow> numeric e) \<Longrightarrow> numeric d" for old
  proof (induction ls arbitrary: old)
    case (Cons l ls)
    show ?case
      by (rule Cons.IH[of "keep_last (FindValue key l) old"])
        (use Cons.prems in \<open>auto simp: keep_last_def FindValue_numeric split: option.splits\<close>)
  qed simp
  from this[of None] show "last_value key ls = Some d \<Longrightarrow> numeric d" by (simp add: last_value_def)
qed

lemma last_value_map:
  assumes "\<And>l. FindValue key (f l) = map_option (\<lambda>_. v) (FindValue key l)"
  shows "last_value key (map f ls) = map_option (\<lambda>_. v) (last_value key ls)"
proof -
  have "fold (\<lambda>l. keep_last (FindValue key l)) (map f ls) (map_option (\<lambda>_. v) old)
      = map_option (\<lambda>_. v) (fold (\<lambda>l. keep_last (FindValue key l)) ls old)" for old
  proof (induction ls arbitrary: old)
    case (Cons l ls)
    have "keep_last (FindValue key (f l)) (map_option (\<lambda>_. v) old) = map_option (\<lambda>_. v) (keep_last (FindValue key l) old)"
      by (simp add: assms keep_last_def split: option.split)
    with Cons.IH[of "keep_last (FindValue key l) old"] show ?case by simp
  qed simp
  from this[of None] show ?thesis by (simp add: last_value_def)
qed

lemma LoadFromFile_values:
  "LoadFromFile path text incr = Inr v \<longleftrightarrow>
     (let ls = lines_kept text
      in last_value ''CHROMEOS_BUILD'' ls = Some (build_number v) \<and> last_value ''CHROMEOS_BRANCH'' ls = Some (branch_build_number v)
         \<and> last_value ''CHROMEOS_PATCH'' ls = Some (patch_number v) \<and> chrome_branch v = last_value ''CHROME_BRANCH'' ls
         \<and> version_file v = Some path \<and> incr_type v = incr)"
  by (cases v) (auto simp: LoadFromFile_def load_lines_values Let_def split: option.splits)

section \<open>The lines of the rewritten file\<close>

lemma sub_value_find:
  assumes "k \<in> set KEYS" "key \<in> set KEYS" "numeric v"
  shows "FindValue k (sub_value (key, v) l) = (if k = key then map_option (\<lambda>_. v) (FindValue k l) else FindValue k l)"
proof (cases "search_value key l")
  case None
  then have "FindValue key l = None" by (simp add: FindValue_def)
  with None show ?thesis by (simp add: sub_value_def)
next
  case (Some m)
  obtain pre old where m: "m = (pre, old)" by force
  have old: "FindValue key l = Some old" using Some m by (simp add: FindValue_def)
  have "value_line key pre v (sub_value (key, v) l)"
    using Some m assms(3) by (auto simp: sub_value_def value_line_def is_space_def py_ord_def intro!: exI[of _ "[CHR 0x0A]"])
  then have new: "FindValue key (sub_value (key, v) l) = Some v" by (auto simp: FindValue_iff)
  show ?thesis
  proof (cases "k = key")
    case True
    with new old show ?thesis by simp
  next
    case False
    with FindValue_one_key[OF assms(2,1)] new old show ?thesis by auto
  qed
qed

lemma fold_sub_value_find:
  assumes "k \<in> set KEYS" "\<forall>(key, v) \<in> set kvs. key \<in> set KEYS \<and> numeric v" "distinct (map fst kvs)"
  shows "FindValue k (fold sub_value kvs l) =
    (case map_of kvs k of None \<Rightarrow> FindValue k l | Some v \<Rightarrow> map_option (\<lambda>_. v) (FindValue k l))"
  using assms(2,3)
proof (induction kvs arbitrary: l)
  case (Cons kv kvs)
  obtain key v where kv: "kv = (key, v)" by force
  have keys: "key \<in> set KEYS" "numeric v" using Cons.prems(1) kv by auto
  have IH: "FindValue k (fold sub_value kvs l') =
      (case map_of kvs k of None \<Rightarrow> FindValue k l' | Some v \<Rightarrow> map_option (\<lambda>_. v) (FindValue k l'))" for l'
    using Cons by auto
  have "k = key \<Longrightarrow> map_of kvs k = None" using Cons.prems(2) kv by (simp add: map_of_eq_None_iff)
  then show ?case
    unfolding kv fold_simps IH sub_value_find[OF assms(1) keys] by (auto split: option.split)
qed simp

lemma sub_value_kept:
  assumes "CHR 0x0A \<notin> set (fst kv @ snd kv)"
  shows "kept_line l \<Longrightarrow> kept_line (sub_value kv l)" "kept_last l \<Longrightarrow> kept_last (sub_value kv l)"
proof -
  have match: "kept_line (sub_value kv l)" if l: "kept_last l" and s: "search_value (fst kv) l = Some (p, d)" for p d
  proof -
    obtain r where r: "l = p @ r" "r \<noteq> []" using s by (auto simp: search_value_iff value_line_def)
    have "CHR 0x0A \<notin> set p"
    proof (cases "kept_line l")
      case True
      then obtain x where "CHR 0x0A \<notin> set x" "p @ r = x @ [CHR 0x0A]" using r by (auto simp: kept_line_def)
      moreover have "p @ butlast r = x" using calculation(2) r(2) by (metis butlast_append butlast_snoc)
      ultimately show ?thesis by auto
    next
      case False
      with l r show ?thesis by (auto simp: kept_last_def)
    qed
    with s assms show ?thesis by (auto simp: sub_value_def kept_line_def)
  qed
  show "kept_line l \<Longrightarrow> kept_line (sub_value kv l)"
    using match by (cases "search_value (fst kv) l") (auto simp: kept_last_def sub_value_def)
  show "kept_last l \<Longrightarrow> kept_last (sub_value kv l)"
    using match by (cases "search_value (fst kv) l") (auto simp: kept_last_def sub_value_def)
qed

lemma fold_sub_value_kept:
  assumes "\<forall>kv \<in> set kvs. CHR 0x0A \<notin> set (fst kv @ snd kv)"
  shows "kept_line l \<Longrightarrow> kept_line (fold sub_value kvs l)" "kept_last l \<Longrightarrow> kept_last (fold sub_value kvs l)"
  using assms by (induction kvs arbitrary: l) (simp_all add: sub_value_kept)

lemma fold_sub_value_other:
  "(\<forall>kv \<in> set kvs. FindValue (fst kv) l = None) \<Longrightarrow> fold sub_value kvs l = l"
  by (induction kvs) (auto simp: sub_value_def FindValue_def)

lemma numeric_no_newline: "numeric s \<Longrightarrow> CHR 0x0A \<notin> set s"
  by (auto simp: numeric_def list_all_iff)

section \<open>The objects the code makes\<close>

inductive version_object :: "version_info \<Rightarrow> bool" where
  parsed: "VersionInfo_from_string s cb incr = Inr v \<Longrightarrow> version_object v"
| loaded: "LoadFromFile path text incr = Inr v \<Longrightarrow> version_object v"
| incremented: "version_object v \<Longrightarrow> IncrementVersion v = Inr (w, s) \<Longrightarrow> version_object w"

definition version_ok :: "version_info \<Rightarrow> bool" where
  "version_ok v \<longleftrightarrow> numeric (build_number v) \<and> numeric (branch_build_number v) \<and> numeric (patch_number v)
     \<and> (version_file v \<noteq> None \<longrightarrow> pred_option numeric (chrome_branch v))"

definition components :: "version_info \<Rightarrow> int list" where
  "components v = map (int \<circ> nat_of_digits) [build_number v, branch_build_number v, patch_number v]"

lemma VersionComponents_ok: "version_ok v \<Longrightarrow> VersionComponents v = Inr (components v)"
  by (simp add: VersionComponents_def version_ok_def components_def numeric_py_int)

lemma compare_ok: "version_ok v \<Longrightarrow> version_ok w \<Longrightarrow> compare_components r v w = Inr (r (components v) (components w))"
  by (simp add: compare_components_def VersionComponents_ok)

lemma LoadFromFile_ok: "LoadFromFile path text incr = Inr v \<Longrightarrow> version_ok v"
  by (auto simp: LoadFromFile_values Let_def version_ok_def option.pred_set dest: last_value_numeric intro: last_value_numeric)

definition next_components :: "version_info \<Rightarrow> int list" where
  "next_components v =
     (let b = int (nat_of_digits (build_number v)); br = int (nat_of_digits (branch_build_number v));
          p = int (nat_of_digits (patch_number v))
      in if incr_type v = ''build'' \<or> incr_type v = ''chrome_branch'' then [b + 1, 0, 0]
         else if incr_type v = ''branch'' \<and> patch_number v = ''0'' then [b, br + 1, p]
         else [b, br, p + 1])"

lemma next_components_greater: "components v < next_components v"
  by (simp add: components_def next_components_def Let_def)

lemma increment_numbers_ok:
  assumes "version_ok v"
  shows "\<exists>w. increment_numbers v = Inr w \<and> version_ok w \<and> components w = next_components v \<and> chrome_branch w = chrome_branch v
    \<and> version_file w = version_file v \<and> incr_type w = incr_type v"
  using assms by (simp add: increment_numbers_def version_ok_def numeric_incremented components_def next_components_def Let_def)

lemma increment_chrome_Inr:
  assumes "increment_chrome v = Inr u"
  shows "\<exists>cb. u = v\<lparr>chrome_branch := cb\<rparr>
    \<and> (if incr_type v = ''chrome_branch'' then \<exists>old n. chrome_branch v = Some old \<and> py_int old = Inr n \<and> cb = Some (str_of_int (n + 1))
       else cb = chrome_branch v)"
proof (cases "incr_type v = ''chrome_branch''")
  case True
  with assms show ?thesis
    by (auto simp: increment_chrome_def int_chrome_branch_def incremented_def pyres split: option.splits)
next
  case False
  with assms show ?thesis by (auto simp: increment_chrome_def)
qed

lemma increment_chrome_ok:
  assumes "version_ok v" "increment_chrome v = Inr u"
  shows "version_ok u \<and> components u = components v \<and> next_components u = next_components v
    \<and> version_file u = version_file v \<and> incr_type u = incr_type v \<and> (chrome_branch v \<noteq> None \<longrightarrow> chrome_branch u \<noteq> None)"
proof -
  obtain cb where u: "u = v\<lparr>chrome_branch := cb\<rparr>"
    and cb: "if incr_type v = ''chrome_branch'' then \<exists>old n. chrome_branch v = Some old \<and> py_int old = Inr n \<and> cb = Some (str_of_int (n + 1))
       else cb = chrome_branch v"
    using increment_chrome_Inr[OF assms(2)] by blast
  have "version_file v \<noteq> None \<Longrightarrow> pred_option numeric cb"
    using cb assms(1) by (auto simp: version_ok_def numeric_py_int str_of_int_def split: if_splits)
  with u cb assms(1) show ?thesis
    by (auto simp: version_ok_def components_def next_components_def Let_def cong: if_cong split: if_splits)
qed

lemma IncrementVersion_Inr:
  assumes "IncrementVersion v = Inr (w, s)"
  obtains u where "incr_type v \<in> set VALID_INCR_TYPES" "increment_chrome v = Inr u" "increment_numbers u = Inr w" "s = VersionString w"
  using assms unfolding IncrementVersion_def by (auto simp: pyres split: if_splits)

lemma IncrementVersion_ok:
  assumes v: "version_ok v" and i: "IncrementVersion v = Inr (w, s)"
  shows "version_ok w \<and> s = VersionString w \<and> components w = next_components v
    \<and> version_file w = version_file v \<and> incr_type w = incr_type v \<and> (chrome_branch v \<noteq> None \<longrightarrow> chrome_branch w \<noteq> None)"
proof -
  obtain u where u: "increment_chrome v = Inr u" "increment_numbers u = Inr w" "s = VersionString w"
    using i by (rule IncrementVersion_Inr)
  note c = increment_chrome_ok[OF v u(1)]
  from increment_numbers_ok[of u] c u(2) show ?thesis unfolding u(3) by simp
qed

lemma version_object_ok: "version_object v \<Longrightarrow> version_ok v"
proof (induction rule: version_object.induct)
  case (parsed s cb incr v)
  then show ?case
    by (auto simp: VersionInfo_from_string_def version_ok_def dest: search_version_numeric split: option.splits)
next
  case (loaded path contents incr v)
  then show ?case by (rule LoadFromFile_ok)
next
  case (incremented v w s)
  then show ?case using IncrementVersion_ok by blast
qed

section \<open>Properties\<close>

text \<open>
  Every object the code can make, by parsing, by loading a file or by incrementing, has three
  components that are natural numbers, so that no comparison operator raises; and the six operators
  are those of the lexicographic order of the components.
\<close>
theorem version_objects_typed:
  assumes "version_object v" and "version_object w"
  shows "\<exists>a b. VersionComponents v = Inr a \<and> VersionComponents w = Inr b
    \<and> length a = 3 \<and> length b = 3 \<and> list_all (\<lambda>n. 0 \<le> n) (a @ b)
    \<and> version_lt v w = Inr (a < b) \<and> version_le v w = Inr (a \<le> b) \<and> version_eq v w = Inr (a = b)
    \<and> version_ne v w = Inr (a \<noteq> b) \<and> version_gt v w = Inr (b < a) \<and> version_ge v w = Inr (b \<le> a)"
proof -
  note ok = version_object_ok[OF assms(1)] version_object_ok[OF assms(2)]
  show ?thesis
    by (rule exI[of _ "components v"], rule exI[of _ "components w"])
      (simp add: ok VersionComponents_ok compare_ok version_lt_def version_le_def version_eq_def version_ne_def
        version_gt_def version_ge_def components_def[of v] components_def[of w])
qed

definition example_version :: version_info where
  "example_version = \<lparr>build_number = ''12'', branch_build_number = ''3'', patch_number = ''0'',
     chrome_branch = Some ''9'', version_file = None, incr_type = ''branch''\<rparr>"

lemma example_version_parsed: "VersionInfo_from_string ''12.3.0'' (Some ''9'') ''branch'' = Inr example_version"
  by code_simp

lemma example_version_object: "version_object example_version"
  using version_object.parsed[OF example_version_parsed] .

theorem version_objects_typed_witness:
  "\<exists>a b. VersionComponents example_version = Inr a \<and> VersionComponents example_version = Inr b
    \<and> length a = 3 \<and> length b = 3 \<and> list_all (\<lambda>n. 0 \<le> n) (a @ b)
    \<and> version_lt example_version example_version = Inr (a < b) \<and> version_le example_version example_version = Inr (a \<le> b)
    \<and> version_eq example_version example_version = Inr (a = b) \<and> version_ne example_version example_version = Inr (a \<noteq> b)
    \<and> version_gt example_version example_version = Inr (b < a) \<and> version_ge example_version example_version = Inr (b \<le> a)"
  by (rule version_objects_typed[OF example_version_object example_version_object])

text \<open>
  \<open>IncrementVersion\<close> of an object with components \<open>b.br.p\<close>: it raises exactly for an unknown kind of
  increment, and where the Chrome branch is to be incremented and is no number; otherwise it returns
  the version string of an object with the components that the kind asks for, which is
  strictly greater in the order of the operators. Only the kind \<open>chrome_branch\<close> changes the Chrome branch.
\<close>
theorem increment_version_next:
  assumes "version_object v" and "VersionComponents v = Inr [b, br, p]"
  shows "case IncrementVersion v of
      Inl e \<Rightarrow> incr_type v \<notin> set VALID_INCR_TYPES \<and> e = VersionUpdateException
        \<or> incr_type v = ''chrome_branch'' \<and> int_chrome_branch v = Inl e
    | Inr (w, s) \<Rightarrow> incr_type v \<in> set VALID_INCR_TYPES \<and> s = VersionString w \<and> version_lt v w = Inr True
        \<and> VersionComponents w = Inr
           (if incr_type v \<in> {''build'', ''chrome_branch''} then [b + 1, 0, 0]
            else if incr_type v = ''branch'' \<and> patch_number v = ''0'' then [b, br + 1, p] else [b, br, p + 1])
        \<and> (if incr_type v = ''chrome_branch'' then Inr (the (chrome_branch w)) = int_chrome_branch v
           else chrome_branch w = chrome_branch v)"
proof -
  have ok: "version_ok v" using assms(1) by (rule version_object_ok)
  have comps: "components v = [b, br, p]" using assms(2) VersionComponents_ok[OF ok] by simp
  show ?thesis
  proof (cases "IncrementVersion v")
    case (Inl e)
    show ?thesis
    proof (cases "increment_chrome v")
      case chrome: (Inl e')
      with Inl show ?thesis
        by (auto simp: IncrementVersion_def increment_chrome_def VALID_INCR_TYPES_def pyres split: if_splits)
    next
      case (Inr u)
      from increment_numbers_ok[of u] increment_chrome_ok[OF ok Inr] obtain w where "increment_numbers u = Inr w" by auto
      with Inl Inr show ?thesis by (auto simp: IncrementVersion_def VALID_INCR_TYPES_def split: if_splits)
    qed
  next
    case (Inr r)
    obtain w s where r: "r = (w, s)" by force
    note i = Inr[unfolded r]
    obtain u where u: "incr_type v \<in> set VALID_INCR_TYPES" "increment_chrome v = Inr u" "increment_numbers u = Inr w"
      using i by (rule IncrementVersion_Inr)
    from increment_numbers_ok[of u] increment_chrome_ok[OF ok u(2)] u(3) have cb: "chrome_branch w = chrome_branch u" by auto
    have chrome: "if incr_type v = ''chrome_branch'' then Inr (the (chrome_branch w)) = int_chrome_branch v
        else chrome_branch w = chrome_branch v"
      using u(2) unfolding cb increment_chrome_def by (auto simp: pyres)
    note w = IncrementVersion_ok[OF ok i]
    have "next_components v = (if incr_type v \<in> {''build'', ''chrome_branch''} then [b + 1, 0, 0]
            else if incr_type v = ''branch'' \<and> patch_number v = ''0'' then [b, br + 1, p] else [b, br, p + 1])"
      using comps by (auto simp: components_def next_components_def Let_def)
    moreover have "VersionComponents w = Inr (next_components v)" using w VersionComponents_ok[of w] by simp
    moreover have "version_lt v w = Inr True"
      unfolding version_lt_def using compare_ok[OF ok, of w] w next_components_greater[of v] by simp
    ultimately show ?thesis unfolding i using u(1) w chrome by simp
  qed
qed

theorem increment_version_next_witness:
  "case IncrementVersion example_version of
      Inl e \<Rightarrow> incr_type example_version \<notin> set VALID_INCR_TYPES \<and> e = VersionUpdateException
        \<or> incr_type example_version = ''chrome_branch'' \<and> int_chrome_branch example_version = Inl e
    | Inr (w, s) \<Rightarrow> incr_type example_version \<in> set VALID_INCR_TYPES \<and> s = VersionString w \<and> version_lt example_version w = Inr True
        \<and> VersionComponents w = Inr
           (if incr_type example_version \<in> {''build'', ''chrome_branch''} then [12 + 1, 0, 0]
            else if incr_type example_version = ''branch'' \<and> patch_number example_version = ''0'' then [12, 3 + 1, 0] else [12, 3, 0 + 1])
        \<and> (if incr_type example_version = ''chrome_branch'' then Inr (the (chrome_branch w)) = int_chrome_branch example_version
           else chrome_branch w = chrome_branch example_version)"
proof -
  have c: "VersionComponents example_version = Inr [12, 3, 0]" by code_simp
  show ?thesis by (rule increment_version_next[OF example_version_object c])
qed

text \<open>
  C26. Whatever text the version file holds, with its line ends translated as reading does, if it loads and has a Chrome branch, then after an increment the
  rewritten file loads as exactly the incremented object; it has the same lines but for those that
  carry one of the four keys.
\<close>
theorem version_update_roundtrip:
  assumes "LoadFromFile path contents incr = Inr v" and "path \<noteq> []" and "chrome_branch v \<noteq> None"
    and "IncrementVersion v = Inr (w, s)"
  shows "\<exists>new. new_version_text w contents = Inr new \<and> LoadFromFile path new incr = Inr w
    \<and> list_all2 (\<lambda>l l'. (\<forall>k \<in> set KEYS. FindValue k l = None) \<longrightarrow> l' = l) (lines_kept contents) (lines_kept new)"
proof -
  have ok: "version_ok v" using assms(1) by (rule LoadFromFile_ok)
  note w = IncrementVersion_ok[OF ok assms(4)]
  note load = assms(1)[unfolded LoadFromFile_values Let_def]
  obtain cb where cb: "chrome_branch w = Some cb" using w assms(3) by auto
  have num: "numeric (build_number w)" "numeric (branch_build_number w)" "numeric (patch_number w)" "numeric cb"
    using w cb load by (auto simp: version_ok_def)
  let ?kvs = "[(''CHROMEOS_BUILD'', build_number w), (''CHROMEOS_BRANCH'', branch_build_number w),
      (''CHROMEOS_PATCH'', patch_number w), (''CHROME_BRANCH'', cb)]"
  let ?f = "fold sub_value ?kvs" and ?ls = "lines_kept contents"
  have kvs: "\<forall>(key, x) \<in> set ?kvs. key \<in> set KEYS \<and> numeric x" "distinct (map fst ?kvs)"
    using num by (simp_all add: KEYS_def)
  then have nl: "\<forall>kv \<in> set ?kvs. CHR 0x0A \<notin> set (fst kv @ snd kv)"
    by (auto dest: KEYS_no_newline numeric_no_newline)
  have new: "new_version_text w contents = Inr (concat (map ?f ?ls))"
    using w load assms(2) cb by (simp add: new_version_text_def version_keys_def rewritten_text_def)
  have lines: "lines_kept (concat (map ?f ?ls)) = map ?f ?ls"
    by (rule lines_kept_concat)
      (use lines_kept_kept[of contents] fold_sub_value_kept[OF nl] in \<open>auto simp: map_butlast[symmetric] last_map\<close>)
  have val: "last_value k (map ?f ?ls) = map_option (\<lambda>_. x) (last_value k ?ls)" if "(k, x) \<in> set ?kvs" for k x
  proof (rule last_value_map)
    fix l
    have "k \<in> set KEYS" using that kvs by auto
    moreover have "map_of ?kvs k = Some x" using that kvs(2) by (rule map_of_is_SomeI[rotated])
    ultimately show "FindValue k (?f l) = map_option (\<lambda>_. x) (FindValue k l)"
      using fold_sub_value_find[OF _ kvs] by simp
  qed
  have "LoadFromFile path (concat (map ?f ?ls)) incr = Inr w"
    unfolding LoadFromFile_values Let_def lines
    using load w cb val[of "''CHROMEOS_BUILD''"] val[of "''CHROMEOS_BRANCH''"] val[of "''CHROMEOS_PATCH''"] val[of "''CHROME_BRANCH''"] assms(3)
    by auto
  moreover have "list_all2 (\<lambda>l l'. (\<forall>k \<in> set KEYS. FindValue k l = None) \<longrightarrow> l' = l) ?ls (map ?f ?ls)"
  proof -
    have "?f l = l" if "\<forall>k \<in> set KEYS. FindValue k l = None" for l
      by (rule fold_sub_value_other) (use that kvs(1) in auto)
    then show ?thesis unfolding list_all2_conv_all_nth length_map by simp
  qed
  ultimately show ?thesis using new lines by auto
qed

definition example_file :: string where
  "example_file = join [CHR 0x0A] [''# v'', ''CHROME_BRANCH=9'', ''CHROMEOS_BUILD=12'', ''CHROMEOS_BRANCH=3'', ''CHROMEOS_PATCH=0'']"

definition loaded_version :: version_info where
  "loaded_version = example_version\<lparr>version_file := Some ''f''\<rparr>"

theorem version_update_roundtrip_witness:
  "\<exists>new. new_version_text (loaded_version\<lparr>branch_build_number := ''4''\<rparr>) example_file = Inr new
    \<and> LoadFromFile ''f'' new ''branch'' = Inr (loaded_version\<lparr>branch_build_number := ''4''\<rparr>)
    \<and> list_all2 (\<lambda>l l'. (\<forall>k \<in> set KEYS. FindValue k l = None) \<longrightarrow> l' = l) (lines_kept example_file) (lines_kept new)"
proof -
  have l: "LoadFromFile ''f'' example_file ''branch'' = Inr loaded_version" by code_simp
  have c: "chrome_branch loaded_version \<noteq> None" by code_simp
  have i: "IncrementVersion loaded_version = Inr (loaded_version\<lparr>branch_build_number := ''4''\<rparr>, ''12.4.0'')" by code_simp
  show ?thesis by (rule version_update_roundtrip[OF l _ c i]) simp
qed

end
