(* ===== verification/GitRepo.thy ===== *)
theory GitRepo
  imports VersionInfo Services
begin

text \<open>
  The git operations on checkouts (\<open>lib/git.py\<close>) that the build specifications are published with,
  and those of \<open>cbuildbot/manifest_version.py\<close> on top of them: refreshing a checkout, committing and
  pushing, and the update of the version file. The git program, the tracking branch of a checkout and
  the file system are the functions of a \<open>git_env\<close> over the state of the world.
\<close>

section \<open>The services\<close>

record remote_ref =
  remote_name :: string
  ref_name :: string
  ref_project :: "string option"

text \<open>
  \<open>git_cmd\<close> runs a git command in a directory and answers the exit code and the output; if the exit code is
  checked it raises \<open>RunCommandError\<close> for any but 0. The flags of \<open>tracking_branch\<close> are
  \<open>for_checkout\<close> and \<open>for_push\<close>.
\<close>

record 'w git_env =
  git_cmd :: "string \<Rightarrow> string list \<Rightarrow> bool \<Rightarrow> ('w, exn, int \<times> string) action"
  tracking_branch :: "string \<Rightarrow> string option \<Rightarrow> bool \<Rightarrow> bool \<Rightarrow> ('w, exn, remote_ref) action"
  path_exists :: "string \<Rightarrow> 'w \<Rightarrow> bool"
  make_dirs :: "string \<Rightarrow> ('w, exn, unit) action"
  remove_dir :: "string \<Rightarrow> ('w, exn, unit) action"
  read_file :: "string \<Rightarrow> ('w, exn, string) action"
  write_file :: "string \<Rightarrow> string \<Rightarrow> ('w, exn, unit) action"

section \<open>Git commands\<close>

definition RunGit :: "('w, 'z) git_env_scheme \<Rightarrow> string \<Rightarrow> string list \<Rightarrow> ('w, exn, unit) action" where
  "RunGit env repo cmd = act_bind (git_cmd env repo cmd True) (\<lambda>_. act_return ())"

definition RunGit_unchecked :: "('w, 'z) git_env_scheme \<Rightarrow> string \<Rightarrow> string list \<Rightarrow> ('w, exn, unit) action" where
  "RunGit_unchecked env repo cmd = act_bind (git_cmd env repo cmd False) (\<lambda>_. act_return ())"

definition Clone :: "('w, 'z) git_env_scheme \<Rightarrow> string \<Rightarrow> string \<Rightarrow> ('w, exn, unit) action" where
  "Clone env dest url = act_seq [make_dirs env dest, RunGit env dest [''clone'', url, dest]]"

definition CreateBranch :: "('w, 'z) git_env_scheme \<Rightarrow> string \<Rightarrow> string \<Rightarrow> ('w, exn, unit) action" where
  "CreateBranch env repo b = RunGit env repo [''checkout'', ''-B'', b, ''HEAD'']"

definition GitPush :: "('w, 'z) git_env_scheme \<Rightarrow> string \<Rightarrow> string \<Rightarrow> remote_ref \<Rightarrow> bool \<Rightarrow> ('w, exn, unit) action" where
  "GitPush env repo refspec push_to skip =
     (if skip then act_return ()
      else RunGit env repo [''push'', remote_name push_to, refspec @ '':'' @ ref_name push_to])"

text \<open>Without the update of the remote, as it is called here.\<close>

definition CreatePushBranch :: "('w, 'z) git_env_scheme \<Rightarrow> string \<Rightarrow> string \<Rightarrow> ('w, exn, unit) action" where
  "CreatePushBranch env b repo =
     act_bind (tracking_branch env repo None True True) (\<lambda>r.
       RunGit env repo [''checkout'', ''-B'', b, ''-t'', ref_name r])"

definition SyncPushBranch :: "('w, 'z) git_env_scheme \<Rightarrow> string \<Rightarrow> string \<Rightarrow> string \<Rightarrow> ('w, exn, unit) action" where
  "SyncPushBranch env repo remote target =
     (if \<not> startswith target ''refs/remotes/'' then act_raise (OtherExn ''Exception'')
      else act_bind (RunGit env repo [''remote'', ''update'', remote]) (\<lambda>_.
        act_catch (RunGit env repo [''rebase'', target]) (\<lambda>e.
          if is_command_error e
          then act_bind (RunGit_unchecked env repo [''rebase'', ''--abort'']) (\<lambda>_. act_raise e) else act_raise e)))"

definition PushBranch :: "('w, 'z) git_env_scheme \<Rightarrow> string \<Rightarrow> string \<Rightarrow> bool \<Rightarrow> ('w, exn, unit) action" where
  "PushBranch env b repo dryrun =
     act_bind (tracking_branch env repo (Some b) False True) (\<lambda>remote_ref.
     act_bind (tracking_branch env repo (Some b) True True) (\<lambda>local_ref.
       if \<not> startswith (ref_name remote_ref) ''refs/heads/'' then act_raise (OtherExn ''Exception'')
       else act_seq [SyncPushBranch env repo (remote_name remote_ref) (ref_name local_ref),
                     GitPush env repo b remote_ref dryrun]))"

definition CleanAndDetachHead :: "('w, 'z) git_env_scheme \<Rightarrow> string \<Rightarrow> ('w, exn, unit) action" where
  "CleanAndDetachHead env repo =
     act_seq [RunGit_unchecked env repo [''am'', ''--abort''], RunGit_unchecked env repo [''rebase'', ''--abort''],
       RunGit env repo [''clean'', ''-dfx''], RunGit env repo [''checkout'', ''--detach'', ''-f'', ''HEAD'']]"

definition CleanAndCheckoutUpstream :: "('w, 'z) git_env_scheme \<Rightarrow> string \<Rightarrow> ('w, exn, unit) action" where
  "CleanAndCheckoutUpstream env repo =
     act_bind (tracking_branch env repo None True True) (\<lambda>r.
       act_seq [CleanAndDetachHead env repo, RunGit env repo [''remote'', ''update'', remote_name r],
         RunGit env repo [''checkout'', ref_name r]])"

section \<open>Checkouts of manifests and the version file\<close>

definition PUSH_BRANCH :: string where
  "PUSH_BRANCH = ''temp_auto_checkin_branch''"

text \<open>Whether the checkout has to be cloned afresh.\<close>

definition refresh_existing :: "('w, 'z) git_env_scheme \<Rightarrow> string \<Rightarrow> string \<Rightarrow> ('w, exn, bool) action" where
  "refresh_existing env dir repo =
     act_bind (git_cmd env dir [''config'', ''remote.origin.url''] False) (\<lambda>(rc, out).
       if rc = 0 \<and> rstrip is_space out = repo
       then act_catch
         (act_bind (act_seq [RunGit env dir [''gc'', ''--auto''], CleanAndCheckoutUpstream env dir]) (\<lambda>_. act_return False))
         (\<lambda>e. if is_command_error e then act_return True else act_raise e)
       else act_return True)"

definition RefreshManifestCheckout :: "('w, 'z) git_env_scheme \<Rightarrow> string \<Rightarrow> string \<Rightarrow> ('w, exn, unit) action" where
  "RefreshManifestCheckout env dir repo =
     act_bind (\<lambda>w. if path_exists env dir w then refresh_existing env dir repo w else act_return True w) (\<lambda>reinitialize.
       if reinitialize then act_seq [remove_dir env dir, Clone env dir repo] else act_return ())"

definition PushGitChanges ::
    "('w, 'z) git_env_scheme \<Rightarrow> string \<Rightarrow> string \<Rightarrow> bool \<Rightarrow> remote_ref option \<Rightarrow> ('w, exn, unit) action" where
  "PushGitChanges env repo message dry_run push_to =
     act_bind (case push_to of None \<Rightarrow> tracking_branch env repo None False True | Some r \<Rightarrow> act_return r) (\<lambda>r.
     act_bind (RunGit env repo [''add'', ''-A'']) (\<lambda>_.
     act_bind (act_catch (act_bind (RunGit env repo [''commit'', ''-m'', message]) (\<lambda>_. act_return True))
                (\<lambda>e. if is_command_error e \<and> dry_run then act_return False else act_raise e)) (\<lambda>committed.
       if committed then GitPush env repo PUSH_BRANCH r dry_run else act_return ())))"

definition UpdateVersionFile ::
    "('w, 'z) git_env_scheme \<Rightarrow> version_info \<Rightarrow> string \<Rightarrow> bool \<Rightarrow> remote_ref option \<Rightarrow> ('w, exn, unit) action" where
  "UpdateVersionFile env v message dry_run push_to =
     (case version_file v of
        None \<Rightarrow> act_raise (PyExc VersionUpdateException)
      | Some path \<Rightarrow>
          if path = [] then act_raise (PyExc VersionUpdateException)
          else act_bind (lift_py (version_keys v)) (\<lambda>kvs.
            act_bind (read_file env path) (\<lambda>contents.
              act_finally
                (act_seq [CreateBranch env (dirname path) PUSH_BRANCH, write_file env path (rewritten_text kvs contents),
                   PushGitChanges env (dirname path) message dry_run push_to])
                (CleanAndCheckoutUpstream env (dirname path)))))"

section \<open>Operations that push nothing\<close>

text \<open>
  A property of the world that only a push to a remote can change: every other command, and every other
  service, keeps it.
\<close>

definition local_git :: "('w \<Rightarrow> bool) \<Rightarrow> ('w, 'z) git_env_scheme \<Rightarrow> bool" where
  "local_git P env \<longleftrightarrow>
     (\<forall>repo c cmd chk. c \<noteq> ''push'' \<longrightarrow> keeps P (git_cmd env repo (c # cmd) chk))
     \<and> (\<forall>repo b co pu. keeps P (tracking_branch env repo b co pu))
     \<and> (\<forall>p. keeps P (make_dirs env p) \<and> keeps P (remove_dir env p) \<and> keeps P (read_file env p))
     \<and> (\<forall>p c. keeps P (write_file env p c))"

lemma local_git_rules:
  assumes "local_git P env"
  shows "c \<noteq> ''push'' \<Longrightarrow> keeps P (git_cmd env repo (c # cmd) chk)" "keeps P (tracking_branch env repo b co pu)"
    "keeps P (make_dirs env p)" "keeps P (remove_dir env p)" "keeps P (read_file env p)" "keeps P (write_file env p contents)"
  using assms by (simp_all add: local_git_def)

lemma keeps_RunGit:
  assumes "local_git P env" "c \<noteq> ''push''"
  shows "keeps P (RunGit env repo (c # cmd))" "keeps P (RunGit_unchecked env repo (c # cmd))"
  unfolding RunGit_def RunGit_unchecked_def using local_git_rules[OF assms(1)] assms(2) by (auto intro!: keeps_rules)

lemma keeps_git:
  assumes "local_git P env"
  shows "keeps P (Clone env dest url)" "keeps P (CreateBranch env repo b)" "keeps P (GitPush env repo refspec r True)"
    "keeps P (CreatePushBranch env b repo)" "keeps P (SyncPushBranch env repo remote target)"
    "keeps P (CleanAndDetachHead env repo)" "keeps P (CleanAndCheckoutUpstream env repo)"
proof -
  note rules = keeps_rules local_git_rules[OF assms] keeps_RunGit[OF assms]
  show "keeps P (Clone env dest url)" unfolding Clone_def by (rule keeps_rules) (auto intro!: rules)
  show "keeps P (CreateBranch env repo b)" unfolding CreateBranch_def by (rule rules) simp
  show "keeps P (GitPush env repo refspec r True)" unfolding GitPush_def by (simp add: keeps_return)
  show "keeps P (CreatePushBranch env b repo)" unfolding CreatePushBranch_def by (intro rules) simp
  show "keeps P (SyncPushBranch env repo remote target)" unfolding SyncPushBranch_def by (intro rules) simp_all
  show detach: "keeps P (CleanAndDetachHead env repo)" for repo
    unfolding CleanAndDetachHead_def by (rule keeps_rules) (auto intro!: rules)
  show "keeps P (CleanAndCheckoutUpstream env repo)"
    unfolding CleanAndCheckoutUpstream_def by (intro keeps_bind keeps_seq local_git_rules[OF assms]) (auto intro!: rules detach)
qed

lemma keeps_dry_run:
  assumes "local_git P env"
  shows "keeps P (PushBranch env b repo True)" "keeps P (RefreshManifestCheckout env dir url)"
    "keeps P (PushGitChanges env repo message True push_to)" "keeps P (UpdateVersionFile env v message True push_to)"
proof -
  note rules = keeps_rules local_git_rules[OF assms] keeps_RunGit[OF assms] keeps_git[OF assms]
  show "keeps P (PushBranch env b repo True)"
    unfolding PushBranch_def by (intro keeps_bind keeps_if keeps_seq keeps_raise local_git_rules[OF assms]) (auto intro: rules)
  show "keeps P (RefreshManifestCheckout env dir url)"
    unfolding RefreshManifestCheckout_def refresh_existing_def
    by (intro keeps_bind keeps_if keeps_if_state keeps_prod keeps_catch keeps_seq keeps_return keeps_raise local_git_rules[OF assms])
      (auto intro: rules)
  show push: "keeps P (PushGitChanges env repo message True push_to)" for repo message push_to
    unfolding PushGitChanges_def
    by (intro keeps_bind keeps_option keeps_if keeps_catch keeps_return keeps_raise local_git_rules[OF assms]) (auto intro: rules)
  show "keeps P (UpdateVersionFile env v message True push_to)"
    unfolding UpdateVersionFile_def
    by (intro keeps_bind keeps_option keeps_if keeps_finally keeps_seq keeps_raise keeps_lift_py local_git_rules[OF assms])
      (auto intro: rules push)
qed

end
