(* ===== verification/ManifestFilter.thy ===== *)
theory ManifestFilter
  imports Store
begin

text \<open>
  Filtering of manifests (\<open>FilterManifest\<close> of \<open>cbuildbot/manifest_version.py\<close>): the projects and remotes
  that are not on a list of allowed ones are taken out, with the pending commits of those projects.
  A document is the tree that \<open>minidom\<close> parses; a node in it is identified by its path.
\<close>

section \<open>Documents\<close>

datatype xml = Element string "(string, string) dict" "xml list" | OtherNode string

fun has_tag :: "string \<Rightarrow> xml \<Rightarrow> bool" where
  "has_tag tag (Element t a cs) = (t = tag)"
| "has_tag tag (OtherNode s) = False"

text \<open>\<open>getAttribute\<close> answers an empty string for an attribute that is not there.\<close>

fun getAttribute :: "string \<Rightarrow> xml \<Rightarrow> string" where
  "getAttribute name (Element t a cs) = (case dict_get a name of Some v \<Rightarrow> v | None \<Rightarrow> [])"
| "getAttribute name (OtherNode s) = []"

text \<open>The elements of a tree in document order, with the positions that lead to them.\<close>

fun all_elements :: "nat list \<Rightarrow> xml \<Rightarrow> (nat list \<times> xml) list"
and child_elements :: "nat list \<Rightarrow> nat \<Rightarrow> xml list \<Rightarrow> (nat list \<times> xml) list" where
  "all_elements p (OtherNode s) = []"
| "all_elements p (Element t a cs) = (p, Element t a cs) # child_elements p 0 cs"
| "child_elements p i [] = []"
| "child_elements p i (c # cs) = all_elements (p @ [i]) c @ child_elements p (Suc i) cs"

definition getElementsByTagName :: "string \<Rightarrow> xml \<Rightarrow> (nat list \<times> xml) list" where
  "getElementsByTagName tag doc = filter (\<lambda>(p, e). has_tag tag e) (all_elements [] doc)"

text \<open>The children that are to be removed, by position; the path must be that of a child of the node.\<close>

definition removeChild :: "nat list \<Rightarrow> nat list \<Rightarrow> nat list \<Rightarrow> nat list res" where
  "removeChild node p removed =
     (if p \<noteq> [] \<and> butlast p = node then Inr (removed @ [last p]) else Inl (Raised ''NotFoundErr''))"

fun without_children :: "nat list \<Rightarrow> nat list \<Rightarrow> xml \<Rightarrow> xml" where
  "without_children p removed (OtherNode s) = OtherNode s"
| "without_children [] removed (Element t a cs) =
     Element t a (map snd (filter (\<lambda>(i, c). i \<notin> set removed) (enumerate 0 cs)))"
| "without_children (j # p) removed (Element t a cs) =
     Element t a (if j < length cs then cs[j := without_children p removed (cs ! j)] else cs)"

section \<open>The filter\<close>

definition FilterManifestException :: py_error where
  "FilterManifestException = Raised ''FilterManifestException''"

definition GetDefaultRemote :: "xml \<Rightarrow> string option res" where
  "GetDefaultRemote doc =
     (case getElementsByTagName ''default'' doc of
        [] \<Rightarrow> Inr None | [(p, e)] \<Rightarrow> Inr (Some (getAttribute ''remote'' e)) | _ \<Rightarrow> Inl FilterManifestException)"

definition GetGroups :: "xml \<Rightarrow> string list" where
  "GetGroups e =
     (let g = getAttribute ''groups'' e in if g = [] then [] else map (strip is_space) (split_on CHR '','' g))"

text \<open>A whitelist that is absent or empty allows everything.\<close>

definition listed :: "string list option \<Rightarrow> string list" where
  "listed w = (case w of None \<Rightarrow> [] | Some xs \<Rightarrow> xs)"

definition filter_remote :: "string list option \<Rightarrow> nat list \<Rightarrow> nat list \<times> xml \<Rightarrow> nat list \<Rightarrow> nat list res" where
  "filter_remote wr node pe removed =
     (if listed wr \<noteq> [] \<and> getAttribute ''name'' (snd pe) \<notin> set (listed wr)
      then removeChild node (fst pe) removed else Inr removed)"

definition project_remote :: "string option \<Rightarrow> xml \<Rightarrow> string res" where
  "project_remote dflt e =
     (if getAttribute ''remote'' e \<noteq> [] then Inr (getAttribute ''remote'' e)
      else (case dflt of Some r \<Rightarrow> if r = [] then Inl FilterManifestException else Inr r
            | None \<Rightarrow> Inl FilterManifestException))"

definition is_filtered :: "string list option \<Rightarrow> string list option \<Rightarrow> string \<Rightarrow> xml \<Rightarrow> bool" where
  "is_filtered wr wg remote e \<longleftrightarrow>
     (listed wr \<noteq> [] \<and> remote \<notin> set (listed wr))
     \<or> (listed wg \<noteq> [] \<and> \<not> list_ex (\<lambda>g. g \<in> set (GetGroups e)) (listed wg))"

definition filter_project ::
    "string list option \<Rightarrow> string list option \<Rightarrow> string option \<Rightarrow> nat list \<Rightarrow> nat list \<times> xml
      \<Rightarrow> nat list \<times> string list \<Rightarrow> (nat list \<times> string list) res" where
  "filter_project wr wg dflt node pe st =
     res_bind (project_remote dflt (snd pe)) (\<lambda>remote.
       if is_filtered wr wg remote (snd pe)
       then res_bind (removeChild node (fst pe) (fst st)) (\<lambda>removed.
         Inr (removed, getAttribute ''name'' (snd pe) # snd st))
       else Inr st)"

definition filter_commit :: "string list \<Rightarrow> nat list \<Rightarrow> nat list \<times> xml \<Rightarrow> nat list \<Rightarrow> nat list res" where
  "filter_commit projects node pe removed =
     (if getAttribute ''project'' (snd pe) \<in> set projects then removeChild node (fst pe) removed else Inr removed)"

definition filter_manifest :: "string list option \<Rightarrow> string list option \<Rightarrow> xml \<Rightarrow> xml res" where
  "filter_manifest wr wg doc =
     (case getElementsByTagName ''manifest'' doc of
        [] \<Rightarrow> Inl IndexError
      | (node, _) # _ \<Rightarrow>
          res_bind (GetDefaultRemote doc) (\<lambda>dflt.
          res_bind (fold_res (filter_remote wr node) (getElementsByTagName ''remote'' doc) []) (\<lambda>removed.
          res_bind (fold_res (filter_project wr wg dflt node) (getElementsByTagName ''project'' doc) (removed, [])) (\<lambda>st.
          res_bind (fold_res (filter_commit (snd st) node) (getElementsByTagName ''pending_commit'' doc) (fst st)) (\<lambda>removed.
            Inr (without_children node removed doc))))))"

text \<open>The text that is written: the lines of the document without outer white space and empty lines.\<close>

definition FilterManifest ::
    "(string \<Rightarrow> xml res) \<Rightarrow> (xml \<Rightarrow> string) \<Rightarrow> string \<Rightarrow> string list option \<Rightarrow> string list option \<Rightarrow> string res" where
  "FilterManifest parse toxml manifest wr wg =
     res_bind (parse manifest) (\<lambda>doc. res_bind (filter_manifest wr wg doc) (\<lambda>doc.
       Inr (join [CHR 0x0A] (filter (\<lambda>l. l \<noteq> []) (map (strip is_space) (splitlines (toxml doc)))))))"

section \<open>Flat manifests\<close>

text \<open>
  A manifest as \<open>repo\<close> has it: the document element is the manifest, and the elements that the filter
  looks at are its children.
\<close>

definition relevant :: "string list" where
  "relevant = [''manifest'', ''default'', ''remote'', ''project'', ''pending_commit'']"

fun tag_of :: "xml \<Rightarrow> string" where
  "tag_of (Element t a cs) = t"
| "tag_of (OtherNode s) = []"

definition inner :: "xml \<Rightarrow> xml list" where
  "inner e = map snd (tl (all_elements [] e))"

definition flat_manifest :: "xml list \<Rightarrow> bool" where
  "flat_manifest cs \<longleftrightarrow> list_all (\<lambda>c. \<not> has_tag ''manifest'' c \<and> list_all (\<lambda>e. tag_of e \<notin> set relevant) (inner c)) cs"

lemma all_elements_path:
  "map snd (all_elements p e) = map snd (all_elements q e)" "map snd (child_elements p i cs) = map snd (child_elements q i cs)"
  by (induction p e and p i cs arbitrary: q and q rule: all_elements_child_elements.induct) (simp_all, metis)

lemma has_tag_tag_of: "tag \<noteq> [] \<Longrightarrow> has_tag tag e \<longleftrightarrow> tag_of e = tag"
  by (cases e) auto

lemma all_elements_flat:
  assumes "list_all (\<lambda>e. tag_of e \<notin> set relevant) (inner c)" "tag \<in> set relevant"
  shows "filter (\<lambda>(p, e). has_tag tag e) (all_elements p c) = (if has_tag tag c then [(p, c)] else [])"
proof (cases c)
  case (Element t a cs)
  have "map snd (child_elements p 0 cs) = inner c"
    using all_elements_path(2)[of p 0 cs "[]"] by (simp add: inner_def Element)
  then have "\<forall>pe \<in> set (child_elements p 0 cs). tag_of (snd pe) \<noteq> tag"
    using assms by (metis (no_types, lifting) image_eqI list.set_map list_all_iff)
  moreover have "tag \<noteq> []" using assms(2) by (auto simp: relevant_def)
  ultimately have "filter (\<lambda>(p, e). has_tag tag e) (child_elements p 0 cs) = []"
    by (auto simp: filter_empty_conv has_tag_tag_of)
  then show ?thesis using Element by simp
qed simp

lemma child_elements_flat:
  assumes "flat_manifest cs" "tag \<in> set relevant"
  shows "filter (\<lambda>(p, e). has_tag tag e) (child_elements [] i cs)
    = map (\<lambda>(i, c). ([i], c)) (filter (\<lambda>(i, c). has_tag tag c) (enumerate i cs))"
  using assms(1)
proof (induction cs arbitrary: i)
  case (Cons c cs)
  then have "list_all (\<lambda>e. tag_of e \<notin> set relevant) (inner c)" "flat_manifest cs" by (simp_all add: flat_manifest_def)
  then show ?case
    using Cons.IH[of "Suc i"] all_elements_flat[OF _ assms(2), of c "[i]"]
    by simp
qed simp

lemma getElements_flat:
  assumes "flat_manifest cs" "tag \<in> set relevant" "tag \<noteq> ''manifest''"
  shows "getElementsByTagName tag (Element ''manifest'' a cs)
    = map (\<lambda>(i, c). ([i], c)) (filter (\<lambda>(i, c). has_tag tag c) (enumerate 0 cs))"
  using child_elements_flat[OF assms(1,2), of 0] assms(3) by (simp add: getElementsByTagName_def)

text \<open>What the filter keeps of a flat manifest: one test for each child.\<close>

definition kept_remote :: "string list option \<Rightarrow> xml \<Rightarrow> bool" where
  "kept_remote wr e \<longleftrightarrow> listed wr = [] \<or> getAttribute ''name'' e \<in> set (listed wr)"

definition kept_project :: "string list option \<Rightarrow> string list option \<Rightarrow> string option \<Rightarrow> xml \<Rightarrow> bool" where
  "kept_project wr wg dflt e \<longleftrightarrow> (\<exists>r. project_remote dflt e = Inr r \<and> \<not> is_filtered wr wg r e)"

definition filtered_projects ::
    "string list option \<Rightarrow> string list option \<Rightarrow> string option \<Rightarrow> xml list \<Rightarrow> string set" where
  "filtered_projects wr wg dflt cs =
     {getAttribute ''name'' c | c. c \<in> set cs \<and> has_tag ''project'' c \<and> \<not> kept_project wr wg dflt c}"

definition kept_child ::
    "string list option \<Rightarrow> string list option \<Rightarrow> string option \<Rightarrow> xml list \<Rightarrow> xml \<Rightarrow> bool" where
  "kept_child wr wg dflt cs c \<longleftrightarrow>
     (has_tag ''remote'' c \<longrightarrow> kept_remote wr c) \<and> (has_tag ''project'' c \<longrightarrow> kept_project wr wg dflt c)
     \<and> (has_tag ''pending_commit'' c \<longrightarrow> getAttribute ''project'' c \<notin> filtered_projects wr wg dflt cs)"

text \<open>The three loops over children, whose removal never fails.\<close>

lemma removal_loop:
  assumes "\<And>i c r. (i, c) \<in> set ics \<Longrightarrow> f ([i], c) r = (if bad c then removeChild [] [i] r else Inr r)"
  shows "fold_res f (map (\<lambda>(i, c). ([i], c)) ics) removed = Inr (removed @ map fst (filter (\<lambda>(i, c). bad c) ics))"
  using assms
proof (induction ics arbitrary: removed)
  case (Cons ic ics)
  obtain i c where ic: "ic = (i, c)" by force
  have f: "f ([i], c) removed = (if bad c then removeChild [] [i] removed else Inr removed)" using Cons.prems ic by simp
  show ?case
    using Cons.IH[OF Cons.prems] by (simp add: ic f removeChild_def)
qed simp

lemma project_loop:
  "fold_res (filter_project wr wg dflt []) (map (\<lambda>(i, c). ([i], c)) ics) (removed, names) =
     (if list_all (\<lambda>(i, c). isOk (project_remote dflt c)) ics
      then Inr (removed @ map fst (filter (\<lambda>(i, c). \<not> kept_project wr wg dflt c) ics),
        rev (map (getAttribute ''name'' \<circ> snd) (filter (\<lambda>(i, c). \<not> kept_project wr wg dflt c) ics)) @ names)
      else Inl FilterManifestException)"
proof (induction ics arbitrary: removed names)
  case (Cons ic ics)
  obtain i c where ic: "ic = (i, c)" by force
  show ?case
  proof (cases "project_remote dflt c")
    case (Inl e)
    then have "e = FilterManifestException" by (auto simp: project_remote_def split: if_splits option.splits)
    with Inl show ?thesis by (simp add: ic filter_project_def)
  next
    case (Inr r)
    then have k: "kept_project wr wg dflt c \<longleftrightarrow> \<not> is_filtered wr wg r c" by (simp add: kept_project_def)
    show ?thesis
      using Cons.IH by (simp add: ic filter_project_def Inr k removeChild_def)
  qed
qed simp

lemma filter_enumerate: "map snd (filter (\<lambda>(i, c). Q c) (enumerate n cs)) = filter Q cs"
  by (induction cs arbitrary: n) auto

lemma filter2_enumerate:
  "map snd (filter (\<lambda>(i, c). Q c) (filter (\<lambda>(i, c). R c) (enumerate n cs))) = filter Q (filter R cs)"
  by (induction cs arbitrary: n) auto

lemma enumerate_index: "(i, c) \<in> set (enumerate 0 cs) \<Longrightarrow> (i, d) \<in> set (enumerate 0 cs) \<Longrightarrow> c = d"
  by (auto simp: in_set_enumerate_eq)

lemma removed_index:
  assumes ic: "(i, c) \<in> set (enumerate 0 cs)"
  shows "i \<in> set (map fst (filter (\<lambda>(i, c). B c) (filter (\<lambda>(i, c). A c) (enumerate 0 cs)))) \<longleftrightarrow> A c \<and> B c"
proof
  assume "i \<in> set (map fst (filter (\<lambda>(i, c). B c) (filter (\<lambda>(i, c). A c) (enumerate 0 cs))))"
  then obtain d where "(i, d) \<in> set (enumerate 0 cs)" "A d" "B d" by auto
  with enumerate_index[OF ic] show "A c \<and> B c" by simp
next
  assume "A c \<and> B c"
  then have "(i, c) \<in> set (filter (\<lambda>(i, c). B c) (filter (\<lambda>(i, c). A c) (enumerate 0 cs)))" using ic by simp
  then show "i \<in> set (map fst (filter (\<lambda>(i, c). B c) (filter (\<lambda>(i, c). A c) (enumerate 0 cs))))"
    unfolding set_map by (rule image_eqI[rotated]) simp
qed

lemma without_children_kept:
  assumes "\<And>i c. (i, c) \<in> set (enumerate 0 cs) \<Longrightarrow> i \<in> set removed \<longleftrightarrow> \<not> Q c"
  shows "without_children [] removed (Element t a cs) = Element t a (filter Q cs)"
proof -
  have "filter (\<lambda>(i, c). i \<notin> set removed) (enumerate 0 cs) = filter (\<lambda>(i, c). Q c) (enumerate 0 cs)"
    by (rule filter_cong) (use assms in auto)
  then show ?thesis by (simp add: filter_enumerate)
qed

section \<open>Properties\<close>

text \<open>
  C29. Filtering a flat manifest raises when there is more than one default, or a project names no
  remote and there is no default; otherwise the result has exactly the children that are
  allowed, in their order: the listed remotes, the projects of a listed remote and a listed group, and the
  pending commits of projects that have not been taken out.
\<close>
theorem filter_manifest_flat:
  assumes "flat_manifest cs"
  shows "filter_manifest wr wg (Element ''manifest'' a cs) =
    (case GetDefaultRemote (Element ''manifest'' a cs) of
       Inl e \<Rightarrow> Inl e
     | Inr dflt \<Rightarrow>
         if list_ex (\<lambda>c. has_tag ''project'' c \<and> \<not> isOk (project_remote dflt c)) cs then Inl FilterManifestException
         else Inr (Element ''manifest'' a (filter (kept_child wr wg dflt cs) cs)))"
proof (cases "GetDefaultRemote (Element ''manifest'' a cs)")
  case (Inl e)
  then show ?thesis by (simp add: filter_manifest_def getElementsByTagName_def)
next
  case (Inr dflt)
  let ?root = "Element ''manifest'' a cs"
  define R where "R = filter (\<lambda>(i, c). has_tag ''remote'' c) (enumerate 0 cs)"
  define P where "P = filter (\<lambda>(i, c). has_tag ''project'' c) (enumerate 0 cs)"
  define C where "C = filter (\<lambda>(i, c). has_tag ''pending_commit'' c) (enumerate 0 cs)"
  have els: "getElementsByTagName ''remote'' ?root = map (\<lambda>(i, c). ([i], c)) R"
    "getElementsByTagName ''project'' ?root = map (\<lambda>(i, c). ([i], c)) P"
    "getElementsByTagName ''pending_commit'' ?root = map (\<lambda>(i, c). ([i], c)) C"
    unfolding R_def P_def C_def by (rule getElements_flat[OF assms], simp_all add: relevant_def)+
  have root: "\<exists>es. getElementsByTagName ''manifest'' ?root = ([], ?root) # es" by (simp add: getElementsByTagName_def)
  have remotes: "fold_res (filter_remote wr []) (map (\<lambda>(i, c). ([i], c)) R) []
      = Inr (map fst (filter (\<lambda>(i, c). \<not> kept_remote wr c) R))"
    using removal_loop[of R "filter_remote wr []" "\<lambda>c. \<not> kept_remote wr c" "[]"]
    by (simp add: filter_remote_def kept_remote_def)
  have commits: "fold_res (filter_commit names []) (map (\<lambda>(i, c). ([i], c)) C) removed
      = Inr (removed @ map fst (filter (\<lambda>(i, c). getAttribute ''project'' c \<in> set names) C))" for names removed
    using removal_loop[of C "filter_commit names []" "\<lambda>c. getAttribute ''project'' c \<in> set names" removed]
    by (simp add: filter_commit_def)
  have ok: "list_all (\<lambda>(i, c). isOk (project_remote dflt c)) P
      \<longleftrightarrow> \<not> list_ex (\<lambda>c. has_tag ''project'' c \<and> \<not> isOk (project_remote dflt c)) cs"
  proof -
    have "list_all (\<lambda>(i, c). isOk (project_remote dflt c)) P = list_all (\<lambda>c. isOk (project_remote dflt c)) (map snd P)"
      by (simp add: list_all_iff case_prod_beta)
    also have "map snd P = filter (has_tag ''project'') cs" by (simp add: P_def filter_enumerate)
    finally show ?thesis by (auto simp: list_all_iff list_ex_iff)
  qed
  define names where "names = rev (map (getAttribute ''name'' \<circ> snd) (filter (\<lambda>(i, c). \<not> kept_project wr wg dflt c) P))"
  have names: "set names = filtered_projects wr wg dflt cs"
  proof -
    have "map snd (filter (\<lambda>(i, c). \<not> kept_project wr wg dflt c) P)
        = filter (\<lambda>c. \<not> kept_project wr wg dflt c) (filter (has_tag ''project'') cs)"
      unfolding P_def by (rule filter2_enumerate)
    then have "names = rev (map (getAttribute ''name'') (filter (\<lambda>c. \<not> kept_project wr wg dflt c) (filter (has_tag ''project'') cs)))"
      unfolding names_def by (metis map_map)
    then show ?thesis by (auto simp: filtered_projects_def)
  qed
  define removed where "removed = map fst (filter (\<lambda>(i, c). \<not> kept_remote wr c) R)
      @ map fst (filter (\<lambda>(i, c). \<not> kept_project wr wg dflt c) P)
      @ map fst (filter (\<lambda>(i, c). getAttribute ''project'' c \<in> set names) C)"
  have bad: "i \<in> set removed \<longleftrightarrow> \<not> kept_child wr wg dflt cs c" if ic: "(i, c) \<in> set (enumerate 0 cs)" for i c
    unfolding removed_def R_def P_def C_def set_append Un_iff removed_index[OF ic] kept_child_def names[symmetric] by blast
  have result: "without_children [] removed ?root = Element ''manifest'' a (filter (kept_child wr wg dflt cs) cs)"
    by (rule without_children_kept) (rule bad)
  from root obtain es where es: "getElementsByTagName ''manifest'' ?root = ([], ?root) # es" ..
  show ?thesis
    unfolding filter_manifest_def es Inr els
    using result by (simp add: remotes project_loop ok commits removed_def names_def)
qed

definition example_manifest :: "xml list" where
  "example_manifest =
     [Element ''remote'' [(''name'', ''cros'')] [], OtherNode '' '', Element ''remote'' [(''name'', ''cros-internal'')] [],
      Element ''default'' [(''remote'', ''cros'')] [],
      Element ''project'' [(''name'', ''a'')] [Element ''copyfile'' [] []],
      Element ''project'' [(''name'', ''b''), (''remote'', ''cros-internal'')] [],
      Element ''pending_commit'' [(''project'', ''b'')] []]"

theorem filter_manifest_flat_witness:
  "flat_manifest example_manifest \<and> filter_manifest (Some [''cros'']) None (Element ''manifest'' [] example_manifest) =
    (case GetDefaultRemote (Element ''manifest'' [] example_manifest) of
       Inl e \<Rightarrow> Inl e
     | Inr dflt \<Rightarrow>
         if list_ex (\<lambda>c. has_tag ''project'' c \<and> \<not> isOk (project_remote dflt c)) example_manifest then Inl FilterManifestException
         else Inr (Element ''manifest'' [] (filter (kept_child (Some [''cros'']) None dflt example_manifest) example_manifest)))"
proof
  show f: "flat_manifest example_manifest" by code_simp
  show "filter_manifest (Some [''cros'']) None (Element ''manifest'' [] example_manifest) =
    (case GetDefaultRemote (Element ''manifest'' [] example_manifest) of
       Inl e \<Rightarrow> Inl e
     | Inr dflt \<Rightarrow>
         if list_ex (\<lambda>c. has_tag ''project'' c \<and> \<not> isOk (project_remote dflt c)) example_manifest then Inl FilterManifestException
         else Inr (Element ''manifest'' [] (filter (kept_child (Some [''cros'']) None dflt example_manifest) example_manifest)))"
    by (rule filter_manifest_flat[OF f])
qed

end
