(* ===== verification/BuildSpecs.thy ===== *)
theory BuildSpecs
  imports GitRepo ManifestFilter
begin

text \<open>
  Build specifications (\<open>BuildSpecsManager\<close> and the publishing functions of
  \<open>cbuildbot/manifest_version.py\<close>): choosing the version that is built next, publishing its manifest, and
  recording the outcome. The manager is the state; it holds the state of the world that the git
  operations and the other services change.
\<close>

section \<open>Services and state\<close>

text \<open>
  Beyond git: directory listings, the specifications of a version in any Chrome branch (a \<open>glob\<close>), the statuses of
  the last builds of a specification in the build store, which may not be ready, the source checkout,
  symbolic links and the XML parser and printer.
\<close>

record 'w spec_env = "'w git_env" +
  list_dir :: "string \<Rightarrow> 'w \<Rightarrow> string list"
  glob_specs :: "string \<Rightarrow> string \<Rightarrow> 'w \<Rightarrow> string list"
  clients_ready :: "'w \<Rightarrow> bool"
  build_history :: "string \<Rightarrow> string \<Rightarrow> ('w, exn, string list) action"
  sync_source :: "('w, exn, unit) action"
  manifest_different :: "string \<Rightarrow> ('w, exn, bool) action"
  export_manifest :: "('w, exn, string) action"
  unlink_file :: "string \<Rightarrow> ('w, exn, unit) action"
  make_symlink :: "string \<Rightarrow> string \<Rightarrow> ('w, exn, unit) action"
  parse_manifest :: "string \<Rightarrow> xml res"
  print_manifest :: "xml \<Rightarrow> string"

record spec_config =
  buildroot :: string
  manifest_dir :: string
  manifest_repo :: string
  build_names :: "string list"
  cfg_incr_type :: string
  force :: bool
  branch :: string
  dry_run :: bool
  master :: bool
  compare_versions_fn :: "string \<Rightarrow> int list res"
  rel_working_dir :: string

text \<open>\<open>latest_build\<close> is the status of the build that the attribute holds.\<close>

record 'w specs =
  world :: 'w
  buildspecs_dir :: "string option"
  all_specs_dir :: "string option"
  pass_dirs :: "string list option"
  fail_dirs :: "string list option"
  latest :: "string option"
  latest_build :: "string option"
  latest_unprocessed :: "string option"
  current_version :: "string option"

definition on_world :: "('w, exn, 'a) action \<Rightarrow> ('w specs, exn, 'a) action" where
  "on_world m s = (case m (world s) of (r, w) \<Rightarrow> (r, s\<lparr>world := w\<rparr>))"

definition update :: "('w specs \<Rightarrow> 'w specs) \<Rightarrow> ('w specs, exn, unit) action" where
  "update f s = (Inr (), f s)"

definition first_name :: "string list \<Rightarrow> ('s, exn, string) action" where
  "first_name names = lift_py (py_nth names 0)"

definition BUILDER_STATUS_PASSED :: string where
  "BUILDER_STATUS_PASSED = ''pass''"

definition BUILDER_STATUS_FAILED :: string where
  "BUILDER_STATUS_FAILED = ''fail''"

definition GetCompletedStatus :: "bool \<Rightarrow> string" where
  "GetCompletedStatus success = (if success then BUILDER_STATUS_PASSED else BUILDER_STATUS_FAILED)"

definition VERSION_FILE :: string where
  "VERSION_FILE = ''src/third_party/chromiumos-overlay/chromeos/config/chromeos_version.sh''"

definition gob_url :: "string \<Rightarrow> string" where
  "gob_url inst = ''https://'' @ inst @ ''.googlesource.com''"

definition MANIFEST_VERSIONS_GOB_URL :: string where
  "MANIFEST_VERSIONS_GOB_URL = gob_url ''chromium'' @ ''/chromiumos/manifest-versions''"

definition MANIFEST_VERSIONS_INT_GOB_URL :: string where
  "MANIFEST_VERSIONS_INT_GOB_URL = gob_url ''chrome-internal'' @ ''/chromeos/manifest-versions''"

definition EXTERNAL_REMOTES :: "string list" where
  "EXTERNAL_REMOTES = [''cros'', ''chromium'', ''aosp'', ''weave'']"

text \<open>The constructor: the configuration, and the attributes before the specifications are loaded.\<close>

definition BuildSpecsManager ::
    "string \<Rightarrow> string \<Rightarrow> string list \<Rightarrow> string \<Rightarrow> bool \<Rightarrow> string \<Rightarrow> bool \<Rightarrow> bool option \<Rightarrow> 'w \<Rightarrow> spec_config \<times> 'w specs" where
  "BuildSpecsManager dir repo names incr frc br dry config_master w =
     (\<lparr>buildroot = dir,
       manifest_dir = path_join dir
         [if startswith repo (gob_url ''chrome-internal'') then ''manifest-versions-internal'' else ''manifest-versions''],
       manifest_repo = repo, build_names = names, cfg_incr_type = incr, force = frc, branch = br, dry_run = dry,
       master = (case config_master of None \<Rightarrow> False | Some m \<Rightarrow> m), compare_versions_fn = VersionCompare, rel_working_dir = []\<rparr>,
      \<lparr>world = w, buildspecs_dir = None, all_specs_dir = None, pass_dirs = None, fail_dirs = None, latest = None,
       latest_build = None, latest_unprocessed = None, current_version = None\<rparr>)"

section \<open>The latest specification\<close>

text \<open>\<open>max\<close> with a key: the first of the elements whose key no other exceeds.\<close>

fun max_by_key :: "('k::linorder \<times> 'a) list \<Rightarrow> 'a option" where
  "max_by_key [] = None"
| "max_by_key (x # xs) = Some (snd (foldl (\<lambda>b e. if fst b < fst e then e else b) x xs))"

definition LatestSpecFromList :: "spec_config \<Rightarrow> string list \<Rightarrow> string option res" where
  "LatestSpecFromList cfg specs =
     res_bind (map_res (\<lambda>s. res_bind (compare_versions_fn cfg s) (\<lambda>k. Inr (k, s))) specs) (\<lambda>ks. Inr (max_by_key ks))"

text \<open>The file names that match the prefix, which is of digits and dots, and \<open>*.xml\<close>.\<close>

definition spec_name :: "string \<Rightarrow> string \<Rightarrow> bool" where
  "spec_name prefix n \<longleftrightarrow> startswith n prefix \<and> endswith (drop (length prefix) n) ''.xml''"

definition LatestSpecFromDir :: "'w spec_env \<Rightarrow> spec_config \<Rightarrow> version_info \<Rightarrow> string \<Rightarrow> ('w, exn, string option) action" where
  "LatestSpecFromDir env cfg v dir w =
     (if path_exists env dir w
      then lift_py (LatestSpecFromList cfg (map splitext_root (filter (spec_name (BuildPrefix v)) (list_dir env dir w)))) w
      else (Inr None, w))"

section \<open>Loading the specifications\<close>

text \<open>The attribute of a version, as a part of a path: a missing attribute and \<open>None\<close> both raise.\<close>

definition chrome_dir :: "version_info \<Rightarrow> string res" where
  "chrome_dir v =
     (case chrome_branch v of Some cb \<Rightarrow> Inr cb
      | None \<Rightarrow> Inl (if version_file v = None then TypeError else AttributeError))"

definition builder_dir :: "string \<Rightarrow> string \<Rightarrow> string \<Rightarrow> string \<Rightarrow> string" where
  "builder_dir working_dir status dir_pfx build_name =
     path_join (path_join working_dir [''build-name''] @ ''/'' @ build_name) [status, dir_pfx]"

text \<open>Which Chrome branch the specifications are of, or \<^const>\<open>None\<close> if the version is not found.\<close>

definition find_branch ::
    "'w spec_env \<Rightarrow> string \<Rightarrow> version_info option \<Rightarrow> string option \<Rightarrow> ('w specs, exn, (string \<times> version_info) option) action" where
  "find_branch env specs_dir vi version =
     (case version of
        Some v \<Rightarrow> act_bind (gets (\<lambda>s. glob_specs env specs_dir v (world s))) (\<lambda>dirs.
          if dirs = [] then act_return None
          else if 1 < length dirs then act_raise (PyExc AssertionError)
          else (let dir_pfx = basename (dirname (dirs ! 0)) in
            act_bind (lift_py (VersionInfo_from_string v (Some dir_pfx) ''build'')) (\<lambda>w. act_return (Some (dir_pfx, w)))))
      | None \<Rightarrow> (case vi of
          None \<Rightarrow> act_raise (PyExc AssertionError)
        | Some w \<Rightarrow> act_bind (lift_py (chrome_dir w)) (\<lambda>dir_pfx. act_return (Some (dir_pfx, w)))))"

text \<open>The status of the latest specification: not processed, or the build it had.\<close>

definition load_latest :: "'w spec_env \<Rightarrow> spec_config \<Rightarrow> version_info \<Rightarrow> string \<Rightarrow> ('w specs, exn, unit) action" where
  "load_latest env cfg v all_specs =
     act_bind (on_world (LatestSpecFromDir env cfg v all_specs)) (\<lambda>l.
     act_bind (update (\<lambda>s. s\<lparr>latest := l\<rparr>)) (\<lambda>_.
       case l of None \<Rightarrow> act_return ()
       | Some spec \<Rightarrow>
           act_bind (gets (\<lambda>s. clients_ready env (world s))) (\<lambda>ready.
           act_bind (if ready then act_bind (first_name (build_names cfg)) (\<lambda>name. on_world (build_history env name spec))
                     else act_return []) (\<lambda>builds.
             case builds of b # bs \<Rightarrow> update (\<lambda>s. s\<lparr>latest_build := Some b\<rparr>)
             | [] \<Rightarrow> update (\<lambda>s. s\<lparr>latest_unprocessed := Some spec\<rparr>)))))"

definition InitializeManifestVariables ::
    "'w spec_env \<Rightarrow> spec_config \<Rightarrow> version_info option \<Rightarrow> string option \<Rightarrow> ('w specs, exn, bool) action" where
  "InitializeManifestVariables env cfg vi version =
     (let working_dir = path_join (manifest_dir cfg) [rel_working_dir cfg]; specs_dir = path_join working_dir [''buildspecs''] in
      if vi = None \<and> (version = None \<or> version = Some []) then act_raise (PyExc AssertionError)
      else act_bind (update (\<lambda>s. s\<lparr>buildspecs_dir := Some specs_dir\<rparr>)) (\<lambda>_.
        act_bind (find_branch env specs_dir vi version) (\<lambda>found.
          case found of None \<Rightarrow> act_return False
          | Some (dir_pfx, v) \<Rightarrow>
              (let all_specs = path_join specs_dir [dir_pfx] in
               act_bind (update (\<lambda>s. s\<lparr>all_specs_dir := Some all_specs,
                   pass_dirs := Some (map (builder_dir working_dir BUILDER_STATUS_PASSED dir_pfx) (build_names cfg)),
                   fail_dirs := Some (map (builder_dir working_dir BUILDER_STATUS_FAILED dir_pfx) (build_names cfg))\<rparr>)) (\<lambda>_.
                 act_bind (if version = None then load_latest env cfg v all_specs else act_return ()) (\<lambda>_.
                   act_return True))))))"

definition GetCurrentVersionInfo :: "'w spec_env \<Rightarrow> spec_config \<Rightarrow> ('w specs, exn, version_info) action" where
  "GetCurrentVersionInfo env cfg =
     (let path = path_join (buildroot cfg) [VERSION_FILE] in
      act_bind (on_world (read_file env path)) (\<lambda>contents. lift_py (LoadFromFile path contents (cfg_incr_type cfg))))"

text \<open>A path of a specification: both parts must have been set.\<close>

definition spec_path :: "string option \<Rightarrow> string option \<Rightarrow> string res" where
  "spec_path dir version =
     (case (dir, version) of (Some d, Some v) \<Rightarrow> Inr (path_join d [v] @ ''.xml'') | _ \<Rightarrow> Inl TypeError)"

definition HasCheckoutBeenBuilt :: "'w spec_env \<Rightarrow> ('w specs, exn, bool) action" where
  "HasCheckoutBeenBuilt env =
     act_bind (gets latest_build) (\<lambda>b.
       if b = Some BUILDER_STATUS_PASSED
       then act_bind (gets all_specs_dir) (\<lambda>dir. act_bind (gets latest) (\<lambda>l.
         act_bind (lift_py (spec_path dir l)) (\<lambda>file.
         act_bind (on_world (manifest_different env file)) (\<lambda>d. act_return (\<not> d)))))
       else act_return False)"

definition DidLastBuildFail :: "'w specs \<Rightarrow> bool" where
  "DidLastBuildFail s \<longleftrightarrow> latest_build s = Some BUILDER_STATUS_FAILED"

definition GetLatestPassingSpec :: "'w spec_env \<Rightarrow> spec_config \<Rightarrow> ('w specs, exn, string option) action" where
  "GetLatestPassingSpec env cfg =
     act_bind (GetCurrentVersionInfo env cfg) (\<lambda>v.
     act_bind (gets pass_dirs) (\<lambda>dirs.
     act_bind (lift_py (case dirs of None \<Rightarrow> Inl TypeError | Some ds \<Rightarrow> py_nth ds 0)) (\<lambda>d.
       on_world (LatestSpecFromDir env cfg v d))))"

text \<open>The path of a version, or of the current one; an empty or missing version counts as not given.\<close>

definition GetLocalManifest :: "string option \<Rightarrow> ('w specs, exn, string option) action" where
  "GetLocalManifest version =
     act_bind (gets all_specs_dir) (\<lambda>dir. act_bind (gets current_version) (\<lambda>current.
       case dir of None \<Rightarrow> act_raise (PyExc (Raised ''BuildSpecsValueError''))
       | Some d \<Rightarrow>
           if d = [] then act_raise (PyExc (Raised ''BuildSpecsValueError''))
           else (case version of
             Some (c # v) \<Rightarrow> act_return (Some (path_join d [(c # v) @ ''.xml'']))
           | _ \<Rightarrow> (case current of
               Some (c # v) \<Rightarrow> act_return (Some (path_join d [(c # v) @ ''.xml''])) | _ \<Rightarrow> act_return None))))"

definition BootstrapFromVersion :: "'w spec_env \<Rightarrow> spec_config \<Rightarrow> string \<Rightarrow> ('w specs, exn, string option) action" where
  "BootstrapFromVersion env cfg version =
     act_bind (InitializeManifestVariables env cfg None (Some version)) (\<lambda>found.
     act_bind
       (if found then act_return ()
        else act_bind (on_world (RefreshManifestCheckout env (manifest_dir cfg) (manifest_repo cfg))) (\<lambda>_.
          act_bind (InitializeManifestVariables env cfg None (Some version)) (\<lambda>found.
            check_that found (Raised ''BuildSpecsValueError'')))) (\<lambda>_.
     act_bind (update (\<lambda>s. s\<lparr>current_version := Some version\<rparr>)) (\<lambda>_.
       GetLocalManifest (Some version))))"

section \<open>The next specification\<close>

definition GetNextVersion :: "'w spec_env \<Rightarrow> spec_config \<Rightarrow> version_info \<Rightarrow> ('w specs, exn, string) action" where
  "GetNextVersion env cfg v =
     act_bind (gets latest) (\<lambda>l.
       if l = Some (VersionString v)
       then act_bind (first_name (build_names cfg)) (\<lambda>name.
         let message = ''Automatic: '' @ name @ '' - Updating to a new version number from '' @ VersionString v in
         act_bind
           (if dry_run cfg then act_return (v, VersionString v)
            else act_bind (lift_py (IncrementVersion v)) (\<lambda>ws.
              act_bind (check_that (Some (snd ws) \<noteq> l) AssertionError) (\<lambda>_. act_return ws))) (\<lambda>ws.
         act_bind (on_world (UpdateVersionFile env (fst ws) message (dry_run cfg) None)) (\<lambda>_.
           act_return (snd ws))))
       else act_return (VersionString v))"

definition PushSpecChanges :: "'w spec_env \<Rightarrow> spec_config \<Rightarrow> string \<Rightarrow> ('w specs, exn, unit) action" where
  "PushSpecChanges env cfg message =
     on_world (act_bind (tracking_branch env (manifest_dir cfg) None False False) (\<lambda>r.
       PushGitChanges env (manifest_dir cfg) message (dry_run cfg)
         (Some \<lparr>remote_name = remote_name r, ref_name = ''refs/for/'' @ ref_name r @ ''%submit'', ref_project = ref_project r\<rparr>)))"

text \<open>The manifest is a temporary file; here it is its contents.\<close>

definition CreateManifest :: "'w spec_env \<Rightarrow> ('w specs, exn, string) action" where
  "CreateManifest env = on_world (export_manifest env)"

definition commit_message :: "string \<Rightarrow> string \<Rightarrow> string \<Rightarrow> int option \<Rightarrow> string" where
  "commit_message name br version build_id =
     ''Automatic: Start '' @ name @ '' '' @ br @ '' '' @ version
     @ (case build_id of Some n \<Rightarrow> if 0 \<le> n then CHR 0x0A # ''CrOS-Build-Id: '' @ str_of_int n else [] | None \<Rightarrow> [])"

definition PublishManifest ::
    "'w spec_env \<Rightarrow> spec_config \<Rightarrow> string \<Rightarrow> string \<Rightarrow> int option \<Rightarrow> ('w specs, exn, unit) action" where
  "PublishManifest env cfg manifest version build_id =
     act_bind (first_name (build_names cfg)) (\<lambda>name.
     act_bind (gets all_specs_dir) (\<lambda>dir.
     act_bind (lift_py (spec_path dir (Some version))) (\<lambda>file.
       act_seq [on_world (make_dirs env (dirname file)), on_world (write_file env file manifest),
         PushSpecChanges env cfg (commit_message name (branch cfg) version build_id)])))"

definition CheckoutSourceCode :: "'w spec_env \<Rightarrow> ('w specs, exn, unit) action" where
  "CheckoutSourceCode env = on_world (sync_source env)"

text \<open>The body of the loop of \<open>GetNextBuildSpec\<close>: the version that is built, made and published if need be.\<close>

definition choose_version ::
    "'w spec_env \<Rightarrow> spec_config \<Rightarrow> version_info \<Rightarrow> int option \<Rightarrow> ('w specs, exn, string) action" where
  "choose_version env cfg v build_id =
     act_bind (gets latest_unprocessed) (\<lambda>u.
       if master cfg \<or> u = None \<or> u = Some []
       then act_bind (on_world (CreatePushBranch env PUSH_BRANCH (manifest_dir cfg))) (\<lambda>_.
         act_bind (GetNextVersion env cfg v) (\<lambda>version.
         act_bind (CreateManifest env) (\<lambda>manifest.
         act_bind (PublishManifest env cfg manifest version build_id) (\<lambda>_. act_return version))))
       else act_return (the u))"

definition next_spec_attempt :: "'w spec_env \<Rightarrow> spec_config \<Rightarrow> int option \<Rightarrow> ('w specs, exn, string option) action" where
  "next_spec_attempt env cfg build_id =
     act_bind (CheckoutSourceCode env) (\<lambda>_.
     act_bind (GetCurrentVersionInfo env cfg) (\<lambda>v.
     act_bind (on_world (RefreshManifestCheckout env (manifest_dir cfg) (manifest_repo cfg))) (\<lambda>_.
     act_bind (InitializeManifestVariables env cfg (Some v) None) (\<lambda>_.
     act_bind (if force cfg then act_return False else HasCheckoutBeenBuilt env) (\<lambda>built.
       if built then act_return None
       else act_bind (choose_version env cfg v build_id) (\<lambda>version.
         act_bind (update (\<lambda>s. s\<lparr>current_version := Some version\<rparr>)) (\<lambda>_. GetLocalManifest (Some version))))))))"

definition give_up :: "'w spec_env \<Rightarrow> spec_config \<Rightarrow> string \<Rightarrow> ('w specs, exn, 'a) action" where
  "give_up env cfg e =
     act_bind (on_world (RefreshManifestCheckout env (manifest_dir cfg) (manifest_repo cfg))) (\<lambda>_. act_raise (PyExc (Raised e)))"

definition GetNextBuildSpec ::
    "'w spec_env \<Rightarrow> spec_config \<Rightarrow> int \<Rightarrow> int option \<Rightarrow> ('w specs, exn, string option) action" where
  "GetNextBuildSpec env cfg retries build_id =
     try_attempts is_command_error (next_spec_attempt env cfg build_id) (give_up env cfg ''GenerateBuildSpecException'')
       (nat (retries + 1))"

section \<open>The outcome of a build\<close>

definition CreateSymlink :: "'w spec_env \<Rightarrow> string \<Rightarrow> string \<Rightarrow> ('w, exn, unit) action" where
  "CreateSymlink env src_file dest_file =
     act_seq [unlink_file env dest_file, make_dirs env (dirname dest_file),
       make_symlink env (relpath src_file (dirname dest_file)) dest_file]"

definition set_pass_symlink ::
    "'w spec_env \<Rightarrow> (string, bool) dict \<Rightarrow> nat \<times> string \<Rightarrow> ('w specs, exn, unit) action" where
  "set_pass_symlink env success_map ib =
     act_bind (gets all_specs_dir) (\<lambda>dir. act_bind (gets current_version) (\<lambda>current.
     act_bind (lift_py (spec_path dir current)) (\<lambda>src.
     act_bind (lift_py (case dict_get success_map (snd ib) of None \<Rightarrow> Inl KeyError | Some b \<Rightarrow> Inr b)) (\<lambda>success.
     act_bind (gets (if success then pass_dirs else fail_dirs)) (\<lambda>dirs.
     act_bind (lift_py (case dirs of None \<Rightarrow> Inl TypeError | Some ds \<Rightarrow> py_nth ds (int (fst ib)))) (\<lambda>sym_dir.
     act_bind (lift_py (spec_path (Some sym_dir) current)) (\<lambda>dest.
       on_world (CreateSymlink env src dest))))))))"

definition SetPassSymlinks :: "'w spec_env \<Rightarrow> spec_config \<Rightarrow> (string, bool) dict \<Rightarrow> ('w specs, exn, unit) action" where
  "SetPassSymlinks env cfg success_map =
     act_bind (gets all_specs_dir) (\<lambda>dir. act_bind (gets current_version) (\<lambda>current.
     act_bind (lift_py (spec_path dir current)) (\<lambda>src.
       act_seq (map (set_pass_symlink env success_map) (enumerate 0 (build_names cfg))))))"

definition status_attempt :: "'w spec_env \<Rightarrow> spec_config \<Rightarrow> (string, bool) dict \<Rightarrow> ('w specs, exn, unit) action" where
  "status_attempt env cfg success_map =
     act_bind (on_world (RefreshManifestCheckout env (manifest_dir cfg) (manifest_repo cfg))) (\<lambda>_.
     act_bind (on_world (CreatePushBranch env PUSH_BRANCH (manifest_dir cfg))) (\<lambda>_.
     act_bind (gets current_version) (\<lambda>current.
     act_bind (first_name (build_names cfg)) (\<lambda>name.
     act_bind (SetPassSymlinks env cfg success_map) (\<lambda>_.
       PushSpecChanges env cfg
         (''Automatic checkin: status='' @ GetCompletedStatus (list_all snd success_map) @ '' build_version ''
          @ (case current of None \<Rightarrow> ''None'' | Some v \<Rightarrow> v) @ '' for '' @ name))))))"

definition UpdateStatus ::
    "'w spec_env \<Rightarrow> spec_config \<Rightarrow> (string, bool) dict \<Rightarrow> int \<Rightarrow> ('w specs, exn, unit) action" where
  "UpdateStatus env cfg success_map retries =
     try_attempts is_command_error (status_attempt env cfg success_map) (give_up env cfg ''StatusUpdateException'')
       (nat (retries + 1))"

section \<open>Official specifications\<close>

definition commit_and_push ::
    "'w spec_env \<Rightarrow> string \<Rightarrow> string \<Rightarrow> string \<Rightarrow> string \<Rightarrow> bool \<Rightarrow> ('w, exn, string) action" where
  "commit_and_push env repo url buildspec contents dryrun =
     (let file = path_join repo [buildspec] in
      act_bind (RefreshManifestCheckout env repo url) (\<lambda>_.
      act_bind (gets (path_exists env file)) (\<lambda>present. act_bind (check_that (\<not> present) AssertionError) (\<lambda>_.
      act_bind (CreatePushBranch env PUSH_BRANCH repo) (\<lambda>_.
      act_bind (act_seq [make_dirs env (dirname file), write_file env file contents]) (\<lambda>_.
      act_bind (act_seq [RunGit env repo [''add'', ''-A''], RunGit env repo [''commit'', ''-m'', ''Creating buildspec: '' @ buildspec],
        PushBranch env PUSH_BRANCH repo dryrun]) (\<lambda>_.
        act_return file)))))))"

text \<open>The decorator: 20 retries of any exception, without delay.\<close>

definition CommitAndPush ::
    "'w spec_env \<Rightarrow> string \<Rightarrow> string \<Rightarrow> string \<Rightarrow> string \<Rightarrow> bool \<Rightarrow> ('w, exn, string) action" where
  "CommitAndPush env repo url buildspec contents dryrun w =
     (case run_retry (WithRetry 20 None None 0 1 0 True None None) (\<lambda>_. 0)
             (commit_and_push env repo url buildspec contents dryrun) w of
        (r, w', slept) \<Rightarrow> (r, w'))"

definition PopulateAndPublishBuildSpec ::
    "'w spec_env \<Rightarrow> string \<Rightarrow> string \<Rightarrow> string \<Rightarrow> string option \<Rightarrow> bool \<Rightarrow> ('w, exn, unit) action" where
  "PopulateAndPublishBuildSpec env rel_build_spec manifest int_dir ext_dir dryrun =
     act_bind (CommitAndPush env int_dir MANIFEST_VERSIONS_INT_GOB_URL rel_build_spec manifest dryrun) (\<lambda>build_spec.
       case ext_dir of
         Some (c # ext) \<Rightarrow>
           act_bind (read_file env build_spec) (\<lambda>contents.
           act_bind (lift_py (FilterManifest (parse_manifest env) (print_manifest env) contents (Some EXTERNAL_REMOTES) None))
             (\<lambda>manifest_ext.
             act_bind (CommitAndPush env (c # ext) MANIFEST_VERSIONS_GOB_URL rel_build_spec manifest_ext dryrun) (\<lambda>_.
               act_return ())))
       | _ \<Rightarrow> act_return ())"

text \<open>\<open>repo\<close> is the directory of the source checkout, whose manifest is exported.\<close>

definition GenerateAndPublishOfficialBuildSpec ::
    "'w spec_env \<Rightarrow> string \<Rightarrow> string \<Rightarrow> string \<Rightarrow> string option \<Rightarrow> bool \<Rightarrow> ('w, exn, string) action" where
  "GenerateAndPublishOfficialBuildSpec env repo incr int_dir ext_dir dryrun =
     (let path = path_join repo [VERSION_FILE] in
      act_bind (read_file env path) (\<lambda>contents.
      act_bind (lift_py (LoadFromFile path contents incr)) (\<lambda>v.
      act_bind (lift_py (IncrementVersion v)) (\<lambda>ws.
      act_bind (UpdateVersionFile env (fst ws) (''Incremented to version: '' @ VersionString (fst ws)) dryrun None) (\<lambda>_.
      act_bind (lift_py (OfficialBuildSpecPath (fst ws))) (\<lambda>spec.
      act_bind (export_manifest env) (\<lambda>manifest.
      act_bind (PopulateAndPublishBuildSpec env spec manifest int_dir ext_dir dryrun) (\<lambda>_.
        act_return spec))))))))"

text \<open>Looking up a published specification.\<close>

definition ResolveBuildspec :: "'w spec_env \<Rightarrow> string \<Rightarrow> string \<Rightarrow> 'w \<Rightarrow> string res" where
  "ResolveBuildspec env dir buildspec w =
     (let c = path_join dir [buildspec]; candidate = (if endswith c ''.xml'' then c else c @ ''.xml'')
      in if path_exists env candidate w then Inr candidate else Inl (Raised ''BuildSpecsValueError''))"

definition ResolveBuildspecVersion :: "'w spec_env \<Rightarrow> string \<Rightarrow> string \<Rightarrow> 'w \<Rightarrow> string res" where
  "ResolveBuildspecVersion env dir version w =
     (case find (\<lambda>p. path_exists env p w)
        (map (\<lambda>cb. path_join dir [''buildspecs'', cb, version @ ''.xml'']) (list_dir env (path_join dir [''buildspecs'']) w)) of
        Some p \<Rightarrow> Inr p | None \<Rightarrow> Inl (Raised ''BuildSpecsValueError''))"

section \<open>Dry runs\<close>

text \<open>The other services change the world only locally, too.\<close>

definition local_services :: "('w \<Rightarrow> bool) \<Rightarrow> 'w spec_env \<Rightarrow> bool" where
  "local_services P env \<longleftrightarrow>
     local_git P env \<and> (\<forall>n v. keeps P (build_history env n v)) \<and> keeps P (sync_source env)
     \<and> (\<forall>f. keeps P (manifest_different env f)) \<and> keeps P (export_manifest env)
     \<and> (\<forall>f. keeps P (unlink_file env f)) \<and> (\<forall>a b. keeps P (make_symlink env a b))"

lemma local_services_rules:
  assumes "local_services P env"
  shows "local_git P env" "keeps P (build_history env n v)" "keeps P (sync_source env)" "keeps P (manifest_different env f)"
    "keeps P (export_manifest env)" "keeps P (unlink_file env f)" "keeps P (make_symlink env a b)"
  using assms by (simp_all add: local_services_def)

lemma keeps_on_world: "keeps P m \<Longrightarrow> keeps (\<lambda>s. P (world s)) (on_world m)"
  by (rule keepsI) (auto simp: on_world_def split: prod.splits dest: keepsD)

lemma keeps_update: "(\<And>s. world (f s) = world s) \<Longrightarrow> keeps (\<lambda>s. P (world s)) (update f)"
  by (simp add: keeps_def update_def)

lemma keeps_first_name: "keeps P (first_name names)"
  by (simp add: first_name_def keeps_lift_py)

lemma keeps_LatestSpecFromDir: "keeps P (LatestSpecFromDir env cfg v dir)"
  by (rule keepsI) (auto simp: LatestSpecFromDir_def lift_py_def split: if_splits sum.splits)

lemma keeps_GetLocalManifest: "keeps P (GetLocalManifest v)"
  unfolding GetLocalManifest_def by (intro keeps_rules keeps_gets)

lemma keeps_find_branch: "keeps (\<lambda>s. P (world s)) (find_branch env dir vi version)"
  unfolding find_branch_def Let_def by (intro keeps_rules keeps_gets)

lemma keeps_InitializeManifestVariables:
  assumes "local_services P env"
  shows "keeps (\<lambda>s. P (world s)) (InitializeManifestVariables env cfg vi version)"
  unfolding InitializeManifestVariables_def load_latest_def Let_def
  by (intro keeps_if keeps_bind keeps_option keeps_list keeps_prod keeps_return keeps_raise keeps_find_branch keeps_on_world
      keeps_LatestSpecFromDir keeps_gets keeps_first_name local_services_rules[OF assms] keeps_update) simp_all

lemma keeps_GetCurrentVersionInfo:
  assumes "local_services P env" shows "keeps (\<lambda>s. P (world s)) (GetCurrentVersionInfo env cfg)"
  unfolding GetCurrentVersionInfo_def Let_def
  by (intro keeps_bind keeps_on_world keeps_lift_py local_git_rules[OF local_services_rules(1)[OF assms]])

lemma keeps_HasCheckoutBeenBuilt:
  assumes "local_services P env" shows "keeps (\<lambda>s. P (world s)) (HasCheckoutBeenBuilt env)"
  unfolding HasCheckoutBeenBuilt_def
  by (intro keeps_bind keeps_if keeps_gets keeps_lift_py keeps_on_world keeps_return local_services_rules[OF assms])

lemma keeps_GetNextVersion:
  assumes "local_services P env" "dry_run cfg" shows "keeps (\<lambda>s. P (world s)) (GetNextVersion env cfg v)"
  unfolding GetNextVersion_def Let_def eqTrueI[OF assms(2)]
  by (intro keeps_bind keeps_if keeps_gets keeps_lift_py keeps_on_world keeps_return keeps_first_name keeps_check_that
      keeps_dry_run[OF local_services_rules(1)[OF assms(1)]])

lemma keeps_PushSpecChanges:
  assumes "local_services P env" "dry_run cfg" shows "keeps (\<lambda>s. P (world s)) (PushSpecChanges env cfg message)"
  unfolding PushSpecChanges_def eqTrueI[OF assms(2)]
  by (intro keeps_on_world keeps_bind local_git_rules[OF local_services_rules(1)[OF assms(1)]]
      keeps_dry_run[OF local_services_rules(1)[OF assms(1)]])

lemma keeps_PublishManifest:
  assumes "local_services P env" "dry_run cfg" shows "keeps (\<lambda>s. P (world s)) (PublishManifest env cfg manifest version build_id)"
  unfolding PublishManifest_def
  by (intro keeps_bind keeps_first_name keeps_gets keeps_lift_py keeps_seq)
    (auto intro!: keeps_on_world keeps_PushSpecChanges[OF assms] local_git_rules[OF local_services_rules(1)[OF assms(1)]])

lemma keeps_choose_version:
  assumes "local_services P env" "dry_run cfg" shows "keeps (\<lambda>s. P (world s)) (choose_version env cfg v build_id)"
  unfolding choose_version_def CreateManifest_def
  by (intro keeps_bind keeps_gets keeps_if keeps_return keeps_on_world keeps_git[OF local_services_rules(1)[OF assms(1)]]
      keeps_GetNextVersion[OF assms] keeps_PublishManifest[OF assms] local_services_rules[OF assms(1)])

lemma keeps_next_spec_attempt:
  assumes "local_services P env" "dry_run cfg" shows "keeps (\<lambda>s. P (world s)) (next_spec_attempt env cfg build_id)"
  unfolding next_spec_attempt_def CheckoutSourceCode_def
  by (intro keeps_bind keeps_if keeps_return keeps_on_world keeps_GetCurrentVersionInfo[OF assms(1)]
      keeps_InitializeManifestVariables[OF assms(1)] keeps_HasCheckoutBeenBuilt[OF assms(1)] keeps_choose_version[OF assms]
      keeps_dry_run[OF local_services_rules(1)[OF assms(1)]] local_services_rules[OF assms(1)] keeps_update keeps_GetLocalManifest)
    simp

lemma keeps_give_up: "local_services P env \<Longrightarrow> keeps (\<lambda>s. P (world s)) (give_up env cfg e)"
  unfolding give_up_def
  by (intro keeps_bind keeps_raise keeps_on_world keeps_dry_run local_services_rules(1))

lemma keeps_SetPassSymlinks:
  assumes "local_services P env" shows "keeps (\<lambda>s. P (world s)) (SetPassSymlinks env cfg success_map)"
proof -
  have link: "keeps P (CreateSymlink env a b)" for a b
    unfolding CreateSymlink_def
    by (rule keeps_seq) (auto intro!: local_services_rules[OF assms] local_git_rules[OF local_services_rules(1)[OF assms]])
  have "keeps (\<lambda>s. P (world s)) (set_pass_symlink env success_map ib)" for ib
    unfolding set_pass_symlink_def by (intro keeps_bind keeps_gets keeps_lift_py keeps_on_world link)
  then show ?thesis
    unfolding SetPassSymlinks_def by (intro keeps_bind keeps_gets keeps_lift_py keeps_seq) auto
qed

lemma keeps_status_attempt:
  assumes "local_services P env" "dry_run cfg" shows "keeps (\<lambda>s. P (world s)) (status_attempt env cfg success_map)"
  unfolding status_attempt_def
  by (intro keeps_bind keeps_on_world keeps_gets keeps_first_name keeps_SetPassSymlinks[OF assms(1)] keeps_PushSpecChanges[OF assms]
      keeps_dry_run[OF local_services_rules(1)[OF assms(1)]] keeps_git[OF local_services_rules(1)[OF assms(1)]])

lemma keeps_retry_loop:
  assumes "keeps P f" "\<And>a b s. snd (status_callback r a b s) = s" "P (fst st)"
  shows "P (fst (snd (retry_loop r rnd f n attempt exc st)))"
  using assms(3)
proof (induction n arbitrary: attempt exc st)
  case (Suc n)
  obtain s slept where st: "st = (s, slept)" by force
  have s: "P s" using Suc.prems st by simp
  have f: "f s = (q, t) \<Longrightarrow> P t" for q t using keepsD[OF assms(1) s] .
  have cb: "status_callback r a b s = (q, t) \<Longrightarrow> t = s" for a b s q t using assms(2)[of a b s] by simp
  show ?case
    unfolding st by (auto simp: Let_def s split: sum.splits prod.splits option.splits dest!: cb dest: f intro!: Suc.IH)
qed simp

lemma keeps_CommitAndPush:
  assumes "local_services P env" shows "keeps P (CommitAndPush env repo url spec contents True)"
proof (rule keepsI)
  fix w r t assume w: "P w" and run: "CommitAndPush env repo url spec contents True w = (r, t)"
  note git = local_services_rules(1)[OF assms]
  have f: "keeps P (commit_and_push env repo url spec contents True)"
    unfolding commit_and_push_def Let_def
    by (intro keeps_bind keeps_gets keeps_check_that keeps_seq keeps_return keeps_git[OF git] keeps_dry_run[OF git])
      (auto intro!: local_git_rules[OF git] keeps_RunGit[OF git] keeps_dry_run[OF git] keeps_rules)
  let ?rt = "\<lparr>max_retry = 20, handler = \<lambda>e. Inr True, sleep_secs = 0, backoff_factor = 1, jitter = 0, raise_first = True,
      exception_to_raise = None, status_callback = no_callback\<rparr>"
  obtain slept where loop: "retry_loop ?rt (\<lambda>_. 0) (commit_and_push env repo url spec contents True) 21 0 None (w, []) = (r, t, slept)"
    using run by (auto simp: CommitAndPush_def run_retry_def WithRetry_def RetryDelayStrategy_def Wrapper_def split: prod.splits)
  have "P (fst (snd (retry_loop ?rt (\<lambda>_. 0) (commit_and_push env repo url spec contents True) 21 0 None (w, []))))"
    by (rule keeps_retry_loop[OF f]) (simp_all add: no_callback_def w)
  then show "P t" by (simp add: loop)
qed

lemma keeps_PopulateAndPublishBuildSpec:
  assumes "local_services P env" shows "keeps P (PopulateAndPublishBuildSpec env spec manifest int_dir ext_dir True)"
  unfolding PopulateAndPublishBuildSpec_def
  by (intro keeps_bind keeps_option keeps_list keeps_return keeps_lift_py keeps_CommitAndPush[OF assms]
      local_git_rules[OF local_services_rules(1)[OF assms]])

section \<open>Versions and specifications\<close>

lemma VersionString_parts:
  assumes "version_ok v"
  shows "split_on CHR ''.'' (VersionString v) = [build_number v, branch_build_number v, patch_number v]"
proof -
  have "CHR ''.'' \<notin> set (build_number v)" "CHR ''.'' \<notin> set (branch_build_number v)" "CHR ''.'' \<notin> set (patch_number v)"
    using assms by (auto simp: version_ok_def numeric_def list_all_iff)
  then show ?thesis by (simp add: VersionString_def split_on_append split_on_free)
qed

lemma VersionString_components:
  assumes "version_ok v" "version_ok w" "VersionString v = VersionString w"
  shows "components v = components w"
  using VersionString_parts[OF assms(1)] VersionString_parts[OF assms(2)] assms(3) by (simp add: components_def)

lemma VersionString_not_Nil [simp]: "VersionString v \<noteq> []"
  by (simp add: VersionString_def)

lemma incremented_string:
  assumes "version_ok v" "IncrementVersion v = Inr (w, s)"
  shows "s \<noteq> VersionString v \<and> version_lt v w = Inr True \<and> s \<noteq> []"
proof -
  note w = IncrementVersion_ok[OF assms]
  have lt: "components v < components w" using w next_components_greater[of v] by simp
  have "VersionString w \<noteq> VersionString v" using VersionString_components[of w v] w assms(1) lt by auto
  moreover have "version_lt v w = Inr True" unfolding version_lt_def using compare_ok[OF assms(1), of w] w lt by simp
  ultimately show ?thesis using w by simp
qed

lemma on_world_state: "on_world m s = (r, t) \<Longrightarrow> \<exists>w. m (world s) = (r, w) \<and> t = s\<lparr>world := w\<rparr>"
  by (auto simp: on_world_def split: prod.splits)

lemma first_name_Inr: "first_name names s = (Inr a, t) \<Longrightarrow> t = s"
  by (simp add: first_name_def lift_py_Inr)

text \<open>The version of a real run: the one of the file, or its increment if that has been the latest.\<close>

definition next_version :: "'w spec_env \<Rightarrow> spec_config \<Rightarrow> version_info \<Rightarrow> 'w specs \<Rightarrow> string \<Rightarrow> 'w specs \<Rightarrow> bool" where
  "next_version env cfg v s version t \<longleftrightarrow>
     version = VersionString v \<and> latest s \<noteq> Some version \<and> t = s
     \<or> latest s = Some (VersionString v) \<and> (\<exists>w message world'. IncrementVersion v = Inr (w, version) \<and> version_lt v w = Inr True
         \<and> UpdateVersionFile env w message False None (world s) = (Inr (), world') \<and> t = s\<lparr>world := world'\<rparr>)"

lemma GetNextVersion_Inr:
  assumes v: "version_ok v" and dry: "\<not> dry_run cfg" and run: "GetNextVersion env cfg v s = (Inr version, t)"
  shows "next_version env cfg v s version t"
proof (cases "latest s = Some (VersionString v)")
  case False
  with run show ?thesis by (simp add: GetNextVersion_def next_version_def)
next
  case True
  from run obtain w message where i: "IncrementVersion v = Inr (w, version)"
    and u: "on_world (UpdateVersionFile env w message False None) s = (Inr (), t)"
    unfolding GetNextVersion_def using True dry
    by (auto simp: act_bind_Inr lift_py_Inr check_that_Inr Let_def dest!: first_name_Inr)
  from on_world_state[OF u] incremented_string[OF v i] i True show ?thesis
    unfolding next_version_def by blast
qed

lemma next_version_new:
  assumes "version_ok v" "next_version env cfg v s version t"
  shows "latest s \<noteq> Some version \<and> version \<noteq> []"
proof (cases "latest s = Some (VersionString v)")
  case True
  with assms(2) obtain w where "IncrementVersion v = Inr (w, version)" unfolding next_version_def by blast
  from incremented_string[OF assms(1) this] True show ?thesis by auto
next
  case False
  with assms(2) show ?thesis by (auto simp: next_version_def)
qed

section \<open>The first maximum\<close>

lemma foldl_max:
  fixes x :: "'k::linorder \<times> 'a"
  shows "foldl (\<lambda>b e. if fst b < fst e then e else b) x xs \<in> set (x # xs)
    \<and> (\<forall>y \<in> set (x # xs). fst y \<le> fst (foldl (\<lambda>b e. if fst b < fst e then e else b) x xs))"
proof (induction xs arbitrary: x)
  case (Cons y ys)
  show ?case
    using Cons.IH[of "if fst x < fst y then y else x"] by (auto split: if_splits)
qed simp

lemma max_by_key_Some: "max_by_key xs = Some a \<Longrightarrow> \<exists>k. (k, a) \<in> set xs \<and> (\<forall>(l, b) \<in> set xs. l \<le> k)"
proof (cases xs)
  case (Cons x ys)
  assume "max_by_key xs = Some a"
  then have "a = snd (foldl (\<lambda>b e. if fst b < fst e then e else b) x ys)" using Cons by simp
  with foldl_max[of x ys] Cons show ?thesis by (metis (no_types, lifting) case_prodI2 fst_conv prod.collapse)
qed simp

lemma keyed_spec:
  assumes "list_all2 (\<lambda>s (k, s'). s' = s \<and> f s = Inr k) specs ks"
  shows "s \<in> set specs \<Longrightarrow> \<exists>k. (k, s) \<in> set ks \<and> f s = Inr k" "(k, s) \<in> set ks \<Longrightarrow> s \<in> set specs \<and> f s = Inr k"
  using assms by (induction rule: list_all2_induct) auto

lemma max_by_key_None: "max_by_key xs = None \<longleftrightarrow> xs = []"
  by (cases xs) auto

section \<open>Successful attempts\<close>

lemma choose_version_Inr:
  assumes v: "version_ok v" and run: "choose_version env cfg v build_id s = (Inr version, t)"
  shows "version \<noteq> []"
proof (cases "master cfg \<or> latest_unprocessed s = None \<or> latest_unprocessed s = Some []")
  case True
  then obtain s1 s2 where g: "GetNextVersion env cfg v s1 = (Inr version, s2)"
    using run unfolding choose_version_def by (auto simp: act_bind_Inr)
  show ?thesis
  proof (cases "latest s1 = Some (VersionString v) \<and> \<not> dry_run cfg")
    case True
    with GetNextVersion_Inr[OF v _ g] next_version_new[OF v, of env cfg s1 version s2] show ?thesis by simp
  next
    case False
    with g have "version = VersionString v"
      by (auto simp: GetNextVersion_def act_bind_Inr lift_py_Inr Let_def split: if_splits)
    then show ?thesis by simp
  qed
next
  case False
  with run show ?thesis by (auto simp: choose_version_def)
qed

lemma GetLocalManifest_Some:
  "v \<noteq> [] \<Longrightarrow> GetLocalManifest (Some v) s = (Inr r, t) \<Longrightarrow> t = s \<and> (\<exists>d. all_specs_dir s = Some d \<and> r = Some (path_join d [v @ ''.xml'']))"
  by (cases v) (auto simp: GetLocalManifest_def split: option.splits if_splits)

lemma HasCheckoutBeenBuilt_True:
  assumes "HasCheckoutBeenBuilt env s = (Inr True, t)"
  shows "latest_build t = Some BUILDER_STATUS_PASSED"
proof -
  from assms have p: "latest_build s = Some BUILDER_STATUS_PASSED"
    by (auto simp: HasCheckoutBeenBuilt_def split: if_splits)
  with assms obtain f d where "on_world (manifest_different env f) s = (Inr d, t)"
    by (auto simp: HasCheckoutBeenBuilt_def act_bind_Inr lift_py_Inr)
  from on_world_state[OF this] p show ?thesis by auto
qed

lemma next_spec_attempt_Inr:
  assumes "next_spec_attempt env cfg build_id s = (Inr out, t)"
  shows "case out of
      None \<Rightarrow> \<not> force cfg \<and> latest_build t = Some BUILDER_STATUS_PASSED
    | Some path \<Rightarrow> \<exists>v d. current_version t = Some v \<and> all_specs_dir t = Some d \<and> path = path_join d [v @ ''.xml'']"
proof -
  from assms obtain v built a b c d where v: "GetCurrentVersionInfo env cfg a = (Inr v, b)"
    and built: "(if force cfg then act_return False else HasCheckoutBeenBuilt env) c = (Inr built, d)"
    and rest: "(if built then act_return None
       else act_bind (choose_version env cfg v build_id) (\<lambda>version.
         act_bind (update (\<lambda>s. s\<lparr>current_version := Some version\<rparr>)) (\<lambda>_. GetLocalManifest (Some version)))) d = (Inr out, t)"
    unfolding next_spec_attempt_def act_bind_Inr by (elim exE conjE) (rule that)
  show ?thesis
  proof (cases built)
    case True
    with rest have "out = None" "t = d" by simp_all
    with built True show ?thesis by (auto dest: HasCheckoutBeenBuilt_True split: if_splits)
  next
    case False
    with rest obtain version s1 where c: "choose_version env cfg v build_id d = (Inr version, s1)"
      and l: "GetLocalManifest (Some version) (s1\<lparr>current_version := Some version\<rparr>) = (Inr out, t)"
      by (auto simp: act_bind_Inr update_def)
    have "version_ok v" using v by (auto simp: GetCurrentVersionInfo_def Let_def act_bind_Inr lift_py_Inr dest: LoadFromFile_ok)
    with c have "version \<noteq> []" by (rule choose_version_Inr[rotated])
    from GetLocalManifest_Some[OF this l] show ?thesis by auto
  qed
qed

section \<open>Properties\<close>

text \<open>
  C30. \<open>GetNextBuildSpec\<close> makes at most \<open>retries + 1\<close> attempts and always comes to an end. Let the first \<open>k\<close> attempts fail
  with a \<open>RunCommandError\<close>, each starting in the state that the one before has left. If another attempt is allowed and
  it does not fail so, its result and state are those of the whole: a specification or none, or an exception of
  another kind, which is raised as it is, without another attempt or a refresh. There is no specification only if the
  build is not forced and the last build has passed; otherwise the path is that of the version that is recorded as
  the current one. If all attempts fail so, the manifest checkout is refreshed after the last one: the world that is left
  is the one the refresh has left, and what is raised is the exception of the refresh if it raises one, and
  \<open>GenerateBuildSpecException\<close> if not.
\<close>
theorem next_build_spec_outcome:
  fixes retries :: nat
  assumes "\<And>j. j < k \<Longrightarrow> caught_at is_command_error (next_spec_attempt env cfg b) (before_attempt (next_spec_attempt env cfg b) j s)"
    and "k \<le> retries \<and> next_spec_attempt env cfg b (before_attempt (next_spec_attempt env cfg b) k s) = (r, t)
        \<and> (\<forall>e. r = Inl e \<longrightarrow> \<not> is_command_error e)
      \<or> k = retries + 1 \<and> u = before_attempt (next_spec_attempt env cfg b) k s"
  shows "if k \<le> retries
    then GetNextBuildSpec env cfg (int retries) b s = (r, t)
      \<and> (case r of Inl e \<Rightarrow> \<not> is_command_error e
         | Inr None \<Rightarrow> \<not> force cfg \<and> latest_build t = Some BUILDER_STATUS_PASSED
         | Inr (Some path) \<Rightarrow> \<exists>v d. current_version t = Some v \<and> all_specs_dir t = Some d \<and> path = path_join d [v @ ''.xml''])
    else GetNextBuildSpec env cfg (int retries) b s =
      (case RefreshManifestCheckout env (manifest_dir cfg) (manifest_repo cfg) (world u) of
         (Inl e, w) \<Rightarrow> (Inl e, u\<lparr>world := w\<rparr>)
       | (Inr _, w) \<Rightarrow> (Inl (PyExc (Raised ''GenerateBuildSpecException'')), u\<lparr>world := w\<rparr>))"
proof (cases "k \<le> retries")
  case True
  let ?m = "next_spec_attempt env cfg b"
  have run: "?m (before_attempt ?m k s) = (r, t)" and r: "r = Inl e \<Longrightarrow> \<not> is_command_error e" for e
    using True assms(2) by auto
  then have "\<not> caught_at is_command_error ?m (before_attempt ?m k s)" by (auto simp: caught_at_def split: sum.splits)
  with True assms(1) have "GetNextBuildSpec env cfg (int retries) b s = ?m (before_attempt ?m k s)"
    unfolding GetNextBuildSpec_def by (intro try_attempts_first) auto
  with run have "GetNextBuildSpec env cfg (int retries) b s = (r, t)" by simp
  moreover have "case r of Inl e \<Rightarrow> \<not> is_command_error e
         | Inr None \<Rightarrow> \<not> force cfg \<and> latest_build t = Some BUILDER_STATUS_PASSED
         | Inr (Some path) \<Rightarrow> \<exists>v d. current_version t = Some v \<and> all_specs_dir t = Some d \<and> path = path_join d [v @ ''.xml'']"
  proof (cases r)
    case (Inr out)
    show ?thesis unfolding Inr sum.case by (rule next_spec_attempt_Inr[OF run[unfolded Inr]])
  qed (use r in simp)
  ultimately show ?thesis using True by simp
next
  case False
  let ?m = "next_spec_attempt env cfg b"
  have k: "k = retries + 1" and u: "u = before_attempt ?m (retries + 1) s" using False assms(2) by auto
  have n: "nat (int retries + 1) = retries + 1" by simp
  have "GetNextBuildSpec env cfg (int retries) b s = give_up env cfg ''GenerateBuildSpecException'' u"
    unfolding GetNextBuildSpec_def n u by (rule try_attempts_none) (rule assms(1), simp add: k)
  then show ?thesis using False
    by (cases "RefreshManifestCheckout env (manifest_dir cfg) (manifest_repo cfg) (world u)")
      (simp add: give_up_def act_bind_def on_world_def split: sum.split)
qed

text \<open>
  An environment for examples: the world counts the pushes, and its only file is the version file.
\<close>

definition example_env :: "nat spec_env" where
  "example_env =
     \<lparr>git_cmd = (\<lambda>repo cmd chk n. (Inr (0, []), if take 1 cmd = [''push''] then n + 1 else n)),
      tracking_branch = (\<lambda>repo b co pu n. (Inr \<lparr>remote_name = ''cros'', ref_name = ''refs/heads/m'', ref_project = None\<rparr>, n)),
      path_exists = (\<lambda>p n. False), make_dirs = (\<lambda>p n. (Inr (), n)), remove_dir = (\<lambda>p n. (Inr (), n)),
      read_file = (\<lambda>p n. (Inr example_file, n)), write_file = (\<lambda>p c n. (Inr (), n)),
      list_dir = (\<lambda>p n. []), glob_specs = (\<lambda>d v n. []), clients_ready = (\<lambda>n. False),
      build_history = (\<lambda>b v n. (Inr [], n)), sync_source = (\<lambda>n. (Inr (), n)), manifest_different = (\<lambda>f n. (Inr True, n)),
      export_manifest = (\<lambda>n. (Inr ''<manifest/>'', n)), unlink_file = (\<lambda>f n. (Inr (), n)),
      make_symlink = (\<lambda>a b n. (Inr (), n)), parse_manifest = (\<lambda>s. Inr (Element ''manifest'' [] [])),
      print_manifest = (\<lambda>d. ''<manifest/>'')\<rparr>"

definition example_config :: "bool \<Rightarrow> spec_config" where
  "example_config dry = fst (BuildSpecsManager ''/r'' ''https://m'' [''b''] ''build'' False ''br'' dry None (0::nat))"

definition example_specs :: "nat specs" where
  "example_specs = snd (BuildSpecsManager ''/r'' ''https://m'' [''b''] ''build'' False ''br'' True None 0)"

lemma example_local: "local_services (\<lambda>n. n = 0) example_env"
  by (auto simp: local_services_def local_git_def example_env_def keeps_def)

text \<open>An environment in which checking out the source fails, and clearing a checkout counts.\<close>

definition failing_env :: "nat spec_env" where
  "failing_env = example_env\<lparr>sync_source := (\<lambda>n. (Inl (RunCommandError (Some 1) ''repo sync''), n)), remove_dir := (\<lambda>p n. (Inr (), n + 1))\<rparr>"

theorem next_build_spec_outcome_witness:
  "(\<exists>path. fst (GetNextBuildSpec example_env (example_config True) (int 1) None example_specs) = Inr (Some path)
      \<and> (\<exists>v d. current_version (snd (GetNextBuildSpec example_env (example_config True) (int 1) None example_specs)) = Some v
           \<and> all_specs_dir (snd (GetNextBuildSpec example_env (example_config True) (int 1) None example_specs)) = Some d
           \<and> path = path_join d [v @ ''.xml'']))
    \<and> GetNextBuildSpec failing_env (example_config True) (int 1) None example_specs
       = (Inl (PyExc (Raised ''GenerateBuildSpecException'')), example_specs\<lparr>world := 1\<rparr>)"
proof (rule conjI)
  let ?a = "next_spec_attempt example_env (example_config True) None"
  have "case fst (?a example_specs) of Inr (Some p) \<Rightarrow> True | _ \<Rightarrow> False" by code_simp
  then obtain path t where run: "?a example_specs = (Inr (Some path), t)"
    by (cases "?a example_specs") (auto split: sum.splits option.splits)
  have now: "(0::nat) \<le> 1 \<and> ?a (before_attempt ?a 0 example_specs) = (Inr (Some path), t)
        \<and> (\<forall>e. (Inr (Some path) :: exn + string option) = Inl e \<longrightarrow> \<not> is_command_error e)
      \<or> (0::nat) = 1 + 1 \<and> t = before_attempt ?a 0 example_specs" using run by simp
  from next_build_spec_outcome[OF _ now]
  show "\<exists>path. fst (GetNextBuildSpec example_env (example_config True) (int 1) None example_specs) = Inr (Some path)
      \<and> (\<exists>v d. current_version (snd (GetNextBuildSpec example_env (example_config True) (int 1) None example_specs)) = Some v
           \<and> all_specs_dir (snd (GetNextBuildSpec example_env (example_config True) (int 1) None example_specs)) = Some d
           \<and> path = path_join d [v @ ''.xml''])"
    by simp
next
  let ?a = "next_spec_attempt failing_env (example_config True) None"
  have fails: "?a s = (Inl (RunCommandError (Some 1) ''repo sync''), s)" for s
    by (simp add: next_spec_attempt_def CheckoutSourceCode_def failing_env_def example_env_def act_bind_def on_world_def)
  have "before_attempt ?a j s = s" for j s by (induction j) (simp_all add: fails)
  moreover have "caught_at is_command_error ?a s" for s by (simp add: caught_at_def fails is_command_error_def command_failure_def)
  moreover have "RefreshManifestCheckout failing_env (manifest_dir (example_config True)) (manifest_repo (example_config True)) (world example_specs)
      = (Inr (), 1)" by code_simp
  ultimately show "GetNextBuildSpec failing_env (example_config True) (int 1) None example_specs
       = (Inl (PyExc (Raised ''GenerateBuildSpecException'')), example_specs\<lparr>world := 1\<rparr>)"
    using next_build_spec_outcome[of 2 failing_env "example_config True" None example_specs 1 undefined undefined example_specs] by simp
qed

text \<open>
  C25. A dry run pushes nothing: whatever property of the world no git command but \<open>push\<close> and no other service
  affects, such as the state of the remotes, is the same after choosing and publishing the next
  specification, recording a status, and publishing an official specification, also if these raise.
\<close>
theorem dry_run_pushes_nothing:
  assumes "local_services P env" and "dry_run cfg" and "P (world s)"
  shows "P (world (snd (GetNextBuildSpec env cfg retries build_id s)))
    \<and> P (world (snd (UpdateStatus env cfg success_map retries s)))
    \<and> P (snd (GenerateAndPublishOfficialBuildSpec env repo incr int_dir ext_dir True (world s)))"
proof -
  have "keeps (\<lambda>s. P (world s)) (GetNextBuildSpec env cfg retries build_id)"
    unfolding GetNextBuildSpec_def by (intro keeps_try_attempts keeps_next_spec_attempt keeps_give_up assms(1,2))
  moreover have "keeps (\<lambda>s. P (world s)) (UpdateStatus env cfg success_map retries)"
    unfolding UpdateStatus_def by (intro keeps_try_attempts keeps_status_attempt keeps_give_up assms(1,2))
  moreover have "keeps P (GenerateAndPublishOfficialBuildSpec env repo incr int_dir ext_dir True)"
    unfolding GenerateAndPublishOfficialBuildSpec_def Let_def
    by (intro keeps_bind keeps_lift_py keeps_return keeps_dry_run keeps_PopulateAndPublishBuildSpec[OF assms(1)]
        local_git_rules local_services_rules[OF assms(1)])
  ultimately show ?thesis using assms(3) by (simp add: keeps_def)
qed

theorem dry_run_pushes_nothing_witness:
  "world (snd (GetNextBuildSpec example_env (example_config True) 3 None example_specs)) = 0
    \<and> world (snd (UpdateStatus example_env (example_config True) [(''b'', True)] 3 example_specs)) = 0
    \<and> snd (GenerateAndPublishOfficialBuildSpec example_env ''/r'' ''build'' ''/i'' (Some ''/e'') True (world example_specs)) = 0"
proof -
  have dry: "dry_run (example_config True)" by code_simp
  have w: "world example_specs = 0" by code_simp
  show ?thesis by (rule dry_run_pushes_nothing[where P = "\<lambda>n. n = 0", OF example_local dry w])
qed

text \<open>
  C27. In a real run the version that is built next is never the latest specification again: it is the version of the
  file if that is new; otherwise the incremented version, strictly greater, which has been written to
  the version file and pushed before it is returned.
\<close>
theorem next_version_fresh:
  assumes "version_object v" and "\<not> dry_run cfg" and "GetNextVersion env cfg v s = (Inr version, t)"
  shows "latest s \<noteq> Some version \<and>
    (version = VersionString v \<and> t = s
     \<or> latest s = Some (VersionString v)
       \<and> (\<exists>w message world'. IncrementVersion v = Inr (w, version) \<and> version_lt v w = Inr True
           \<and> UpdateVersionFile env w message False None (world s) = (Inr (), world') \<and> t = s\<lparr>world := world'\<rparr>))"
proof -
  note ok = version_object_ok[OF assms(1)]
  have n: "next_version env cfg v s version t" by (rule GetNextVersion_Inr[OF ok assms(2,3)])
  show ?thesis using next_version_new[OF ok n] n unfolding next_version_def by blast
qed

theorem next_version_fresh_witness:
  "let s = example_specs\<lparr>latest := Some ''12.3.0''\<rparr>; v = loaded_version; r = GetNextVersion example_env (example_config False) v s in
    fst r = Inr ''12.4.0'' \<and> latest s \<noteq> Some ''12.4.0'' \<and>
    (''12.4.0'' = VersionString v \<and> snd r = s
     \<or> latest s = Some (VersionString v)
       \<and> (\<exists>w message world'. IncrementVersion v = Inr (w, ''12.4.0'') \<and> version_lt v w = Inr True
           \<and> UpdateVersionFile example_env w message False None (world s) = (Inr (), world') \<and> snd r = s\<lparr>world := world'\<rparr>))"
proof -
  let ?s = "example_specs\<lparr>latest := Some ''12.3.0''\<rparr>"
  have l: "LoadFromFile ''f'' example_file ''branch'' = Inr loaded_version" by code_simp
  have dry: "\<not> dry_run (example_config False)" by code_simp
  have f: "fst (GetNextVersion example_env (example_config False) loaded_version ?s) = Inr ''12.4.0''" by code_simp
  then have g: "GetNextVersion example_env (example_config False) loaded_version ?s
      = (Inr ''12.4.0'', snd (GetNextVersion example_env (example_config False) loaded_version ?s))" by (metis prod.collapse)
  show ?thesis using next_version_fresh[OF version_object.loaded[OF l] dry g] f by (simp add: Let_def)
qed

text \<open>
  The latest specification of a directory is one of the files there that match the prefix of the version
  and \<open>*.xml\<close>, and no other such file has a greater version, as the manager compares them; there is none only if the directory or such files
  are missing. Looking it up changes nothing.
\<close>
theorem latest_spec_newest:
  assumes "LatestSpecFromDir env cfg v dir w = (Inr r, w')"
  shows "w' = w \<and> (let specs = map splitext_root (filter (spec_name (BuildPrefix v)) (list_dir env dir w)) in
    case r of
      None \<Rightarrow> \<not> path_exists env dir w \<or> specs = []
    | Some x \<Rightarrow> path_exists env dir w \<and> x \<in> set specs
        \<and> (\<exists>k. compare_versions_fn cfg x = Inr k \<and> (\<forall>y \<in> set specs. \<exists>l. compare_versions_fn cfg y = Inr l \<and> l \<le> k)))"
proof (cases "path_exists env dir w")
  case False
  with assms show ?thesis by (auto simp: LatestSpecFromDir_def)
next
  case True
  let ?specs = "map splitext_root (filter (spec_name (BuildPrefix v)) (list_dir env dir w))"
  let ?key = "\<lambda>s. res_bind (compare_versions_fn cfg s) (\<lambda>k. Inr (k, s))"
  from assms True obtain ks where w: "w' = w" and ks: "map_res ?key ?specs = Inr ks" and r: "max_by_key ks = r"
    by (auto simp: LatestSpecFromDir_def LatestSpecFromList_def lift_py_Inr pyres simp del: map_map)
  from ks have all: "list_all2 (\<lambda>s (k, s'). s' = s \<and> compare_versions_fn cfg s = Inr k) ?specs ks"
    unfolding map_res_Inr by (rule list_all2_mono) (auto simp: pyres)
  have key: "\<exists>k. (k, y) \<in> set ks \<and> compare_versions_fn cfg y = Inr k" if "y \<in> set ?specs" for y
    using keyed_spec(1)[OF all that] .
  have spec: "y \<in> set ?specs \<and> compare_versions_fn cfg y = Inr k" if "(k, y) \<in> set ks" for k y
    using keyed_spec(2)[OF all that] .
  show ?thesis
  proof (cases r)
    case None
    then have "ks = []" using r by (simp add: max_by_key_None)
    with all None w show ?thesis by (simp add: Let_def)
  next
    case (Some x)
    then obtain k where k: "(k, x) \<in> set ks" "\<forall>(l, b) \<in> set ks. l \<le> k" using max_by_key_Some[of ks x] r by auto
    have le: "\<exists>l. compare_versions_fn cfg y = Inr l \<and> l \<le> k" if "y \<in> set ?specs" for y
      using key[OF that] k(2) by fastforce
    show ?thesis
      unfolding Some Let_def option.case
      by (intro conjI exI[of _ k] ballI w True spec[OF k(1), THEN conjunct1] spec[OF k(1), THEN conjunct2] le)
  qed
qed

definition listing_env :: "nat spec_env" where
  "listing_env = example_env\<lparr>path_exists := (\<lambda>p n. True),
     list_dir := (\<lambda>p n. [''12.3.1.xml'', ''12.3.2.xml'', ''12.3.10.xml'', ''9.0.0.xml'', ''README''])\<rparr>"

theorem latest_spec_newest_witness:
  "(let specs = map splitext_root (filter (spec_name (BuildPrefix (example_version\<lparr>patch_number := ''1''\<rparr>))) (list_dir listing_env [] 0)) in
    case Some ''12.3.10'' of
      None \<Rightarrow> \<not> path_exists listing_env [] 0 \<or> specs = []
    | Some x \<Rightarrow> path_exists listing_env [] 0 \<and> x \<in> set specs
        \<and> (\<exists>k. compare_versions_fn (example_config False) x = Inr k \<and> (\<forall>y \<in> set specs. \<exists>l. compare_versions_fn (example_config False) y = Inr l \<and> l \<le> k)))"
proof -
  have f: "fst (LatestSpecFromDir listing_env (example_config False) (example_version\<lparr>patch_number := ''1''\<rparr>) [] 0) = Inr (Some ''12.3.10'')" by code_simp
  then have g: "LatestSpecFromDir listing_env (example_config False) (example_version\<lparr>patch_number := ''1''\<rparr>) [] 0
      = (Inr (Some ''12.3.10''), snd (LatestSpecFromDir listing_env (example_config False) (example_version\<lparr>patch_number := ''1''\<rparr>) [] 0))"
    by (metis prod.collapse)
  show ?thesis using latest_spec_newest[OF g] by blast
qed

end
