(* ===== verification/LkgmManager.thy ===== *)
theory LkgmManager
  imports BuildSpecs Patterns
begin

text \<open>
  Release candidates (\<open>cbuildbot/lkgm_manager.py\<close>): a version with a revision, and the manager of build
  specifications that publishes a new candidate, publishes a given manifest, and promotes a candidate. It is the
  manager of \<open>BuildSpecs\<close> with another comparison and another directory; what it overrides is defined again.
\<close>

section \<open>Candidates\<close>

text \<open>The attributes of the base class, and the revision.\<close>

record lkgm_info =
  base_info :: version_info
  revision_number :: int

text \<open>
  \<open>LKGM_RE\<close>. The revision is optional and tried first; a shorter run of the last digits cannot be followed by one, so
  that the alternatives can be tried one after the other.
\<close>

definition LKGM_RE :: "pitem list list" where
  "LKGM_RE =
     (let num = (\<lambda>n. Run (Some n) is_digit 1); ver = [num ''b'', Lit ''.'', num ''br'', Lit ''.'', num ''p'']
      in [ver @ [Lit ''-rc'', num ''rc''], ver])"

definition LKGMCandidateInfo :: "string \<Rightarrow> string option \<Rightarrow> string \<Rightarrow> lkgm_info res" where
  "LKGMCandidateInfo s cb incr =
     (if s = [] then Inl TypeError
      else (case search_any LKGM_RE s of None \<Rightarrow> Inl AssertionError
      | Some g \<Rightarrow>
          res_bind (VersionInfo_from_string (group g ''b'' @ ''.'' @ group g ''br'' @ ''.'' @ group g ''p'') cb incr) (\<lambda>v.
          res_bind (case map_of g ''rc'' of Some (c # r) \<Rightarrow> py_int (c # r) | _ \<Rightarrow> Inr 1) (\<lambda>n.
            Inr \<lparr>base_info = v, revision_number = n\<rparr>))))"

definition CandidateString :: "lkgm_info \<Rightarrow> string" where
  "CandidateString v = VersionString (base_info v) @ ''-rc'' @ str_of_int (revision_number v)"

definition CandidateComponents :: "lkgm_info \<Rightarrow> int list res" where
  "CandidateComponents v = res_bind (VersionComponents (base_info v)) (\<lambda>ns. Inr (ns @ [revision_number v]))"

definition IncrementCandidate :: "lkgm_info \<Rightarrow> lkgm_info" where
  "IncrementCandidate v = v\<lparr>revision_number := revision_number v + 1\<rparr>"

definition CandidateCompare :: "string \<Rightarrow> int list res" where
  "CandidateCompare s = res_bind (LKGMCandidateInfo s None []) CandidateComponents"

section \<open>The manager\<close>

record lkgm_manager =
  spec_cfg :: spec_config
  lkgm_path :: string
  build_type :: string

definition IsPFQType :: "string \<Rightarrow> bool" where
  "IsPFQType t \<longleftrightarrow> t \<in> {''pfq'', ''android''}"

definition LKGM_MANIFEST :: string where
  "LKGM_MANIFEST = ''LKGM/lkgm.xml''"

text \<open>The directory of the candidates; only an Android PFQ looks at its configuration, which may be missing.\<close>

definition working_dir :: "string \<Rightarrow> string option \<Rightarrow> string res" where
  "working_dir t android_package =
     (if t = ''android''
      then (case android_package of None \<Rightarrow> Inl AttributeError
        | Some p \<Rightarrow> if CHR ''/'' \<in> set p then Inl AssertionError else Inr (path_join ''android-LKGM-candidates'' [p]))
      else if t = ''toolchain'' then Inr ''toolchain''
      else if t = ''full'' then Inr ''full''
      else if t = ''binary'' then Inr ''incremental''
      else if IsPFQType t then Inr ''LKGM-candidates'' else Inl AssertionError)"

definition LKGMManager ::
    "string \<Rightarrow> string \<Rightarrow> string list \<Rightarrow> string \<Rightarrow> string option \<Rightarrow> string \<Rightarrow> bool \<Rightarrow> string \<Rightarrow> bool \<Rightarrow> bool option \<Rightarrow> string \<Rightarrow> 'w
      \<Rightarrow> (lkgm_manager \<times> 'w specs) res" where
  "LKGMManager dir repo names t android_package incr frc br dry config_master path_rel w =
     (let (cfg, s) = BuildSpecsManager dir repo names incr frc br dry config_master w in
      res_bind (working_dir t android_package) (\<lambda>rel.
        Inr (\<lparr>spec_cfg = cfg\<lparr>compare_versions_fn := CandidateCompare, rel_working_dir := rel\<rparr>,
              lkgm_path = path_join (manifest_dir cfg) [path_rel], build_type = t\<rparr>, s)))"

definition GetCurrentCandidate :: "'w spec_env \<Rightarrow> lkgm_manager \<Rightarrow> ('w specs, exn, lkgm_info) action" where
  "GetCurrentCandidate env m =
     act_bind (GetCurrentVersionInfo env (spec_cfg m)) (\<lambda>v.
     act_bind (lift_py (chrome_dir v)) (\<lambda>cb.
       lift_py (LKGMCandidateInfo (VersionString v) (Some cb) (cfg_incr_type (spec_cfg m)))))"

text \<open>
  An element with a version is added at the end of the document element. \<open>write_xml\<close> is how \<open>writexml\<close> prints a document;
  the file is its contents.
\<close>

definition AddVersionToManifest :: "'w spec_env \<Rightarrow> (xml \<Rightarrow> string) \<Rightarrow> string \<Rightarrow> string \<Rightarrow> string \<Rightarrow> string res" where
  "AddVersionToManifest env write_xml tag version manifest =
     res_bind (parse_manifest env manifest) (\<lambda>doc.
       case doc of Element t attrs cs \<Rightarrow> Inr (write_xml (Element t attrs (cs @ [Element tag [(''version'', version)] []])))
       | OtherNode x \<Rightarrow> Inl AttributeError)"

definition AddAndroidVersionToManifest :: "'w spec_env \<Rightarrow> (xml \<Rightarrow> string) \<Rightarrow> string \<Rightarrow> string \<Rightarrow> string res" where
  "AddAndroidVersionToManifest env write_xml = AddVersionToManifest env write_xml ''android''"

definition AddChromeVersionToManifest :: "'w spec_env \<Rightarrow> (xml \<Rightarrow> string) \<Rightarrow> string \<Rightarrow> string \<Rightarrow> string res" where
  "AddChromeVersionToManifest env write_xml = AddVersionToManifest env write_xml ''chrome''"

text \<open>A version that is not given or empty is not added.\<close>

definition add_if_given :: "(string \<Rightarrow> string \<Rightarrow> string res) \<Rightarrow> string option \<Rightarrow> string \<Rightarrow> string res" where
  "add_if_given add version manifest = (case version of Some (c # v) \<Rightarrow> add (c # v) manifest | _ \<Rightarrow> Inr manifest)"

section \<open>New candidates\<close>

text \<open>The local variable \<open>version_info\<close> is changed by the loop, and its object by an increment, also in an attempt that fails.\<close>

type_synonym 'w candidate_state = "lkgm_info \<times> 'w specs"

definition on_specs :: "('w specs, exn, 'a) action \<Rightarrow> ('w candidate_state, exn, 'a) action" where
  "on_specs m vs = (case m (snd vs) of (r, s) \<Rightarrow> (r, (fst vs, s)))"

definition set_info :: "lkgm_info \<Rightarrow> ('w candidate_state, exn, unit) action" where
  "set_info v vs = (Inr (), (v, snd vs))"

text \<open>The local variable while the loop runs.\<close>

definition with_info :: "lkgm_info \<Rightarrow> ('w candidate_state, exn, 'a) action \<Rightarrow> ('w specs, exn, 'a) action" where
  "with_info v m s = (case m (v, s) of (r, vs) \<Rightarrow> (r, snd vs))"

text \<open>\<open>for attempt in range(n)\<close>, whose body depends on the attempt.\<close>

fun try_range :: "('e \<Rightarrow> bool) \<Rightarrow> (nat \<Rightarrow> ('s, 'e, 'a) action) \<Rightarrow> ('s, 'e, 'a) action \<Rightarrow> nat \<Rightarrow> nat \<Rightarrow> ('s, 'e, 'a) action" where
  "try_range caught m final i 0 s = final s"
| "try_range caught m final i (Suc n) s =
     (case m i s of (Inl e, t) \<Rightarrow> if caught e then try_range caught m final (Suc i) n t else (Inl e, t) | r \<Rightarrow> r)"

definition refresh_specs :: "'w spec_env \<Rightarrow> lkgm_manager \<Rightarrow> version_info \<Rightarrow> ('w specs, exn, unit) action" where
  "refresh_specs env m v =
     act_bind (on_world (RefreshManifestCheckout env (manifest_dir (spec_cfg m)) (manifest_repo (spec_cfg m)))) (\<lambda>_.
     act_bind (InitializeManifestVariables env (spec_cfg m) (Some v) None) (\<lambda>_. act_return ()))"

text \<open>The greater of the latest candidate and the current version, the latest if they are equal.\<close>

definition base_on_latest :: "lkgm_manager \<Rightarrow> ('w candidate_state, exn, unit) action" where
  "base_on_latest m =
     act_bind (gets (\<lambda>vs. latest (snd vs))) (\<lambda>l. act_bind (gets fst) (\<lambda>v.
       case l of
         Some (c # r) \<Rightarrow>
           act_bind (lift_py (LatestSpecFromList (spec_cfg m) [c # r, CandidateString v])) (\<lambda>best.
           act_bind (lift_py (LKGMCandidateInfo (the best) (chrome_branch (base_info v)) (cfg_incr_type (spec_cfg m)))) set_info)
       | _ \<Rightarrow> act_return ()))"

text \<open>\<open>GetNextVersion\<close> for a candidate, where updating the version file does nothing.\<close>

definition GetNextCandidate :: "lkgm_manager \<Rightarrow> ('w candidate_state, exn, string) action" where
  "GetNextCandidate m =
     act_bind (gets fst) (\<lambda>v. act_bind (gets (\<lambda>vs. latest (snd vs))) (\<lambda>l.
       if l = Some (CandidateString v)
       then act_bind (first_name (build_names (spec_cfg m))) (\<lambda>_.
         if dry_run (spec_cfg m) then act_return (CandidateString v)
         else (let w = IncrementCandidate v in
           act_bind (set_info w) (\<lambda>_.
           act_bind (check_that (Some (CandidateString w) \<noteq> l) AssertionError) (\<lambda>_. act_return (CandidateString w)))))
       else act_return (CandidateString v)))"

definition publish_version ::
    "'w spec_env \<Rightarrow> lkgm_manager \<Rightarrow> string \<Rightarrow> string \<Rightarrow> int option \<Rightarrow> ('w specs, exn, string option) action" where
  "publish_version env m manifest version build_id =
     act_bind (PublishManifest env (spec_cfg m) manifest version build_id) (\<lambda>_.
     act_bind (update (\<lambda>s. s\<lparr>current_version := Some version\<rparr>)) (\<lambda>_. GetLocalManifest (Some version)))"

definition candidate_attempt ::
    "'w spec_env \<Rightarrow> lkgm_manager \<Rightarrow> string \<Rightarrow> int option \<Rightarrow> nat \<Rightarrow> ('w candidate_state, exn, string option) action" where
  "candidate_attempt env m manifest build_id attempt =
     act_bind (if attempt = 0 then act_return () else act_bind (gets fst) (\<lambda>v. on_specs (refresh_specs env m (base_info v)))) (\<lambda>_.
     act_bind (if force (spec_cfg m) then act_return False else on_specs (HasCheckoutBeenBuilt env)) (\<lambda>built.
       if built then act_return None
       else act_bind (base_on_latest m) (\<lambda>_.
         act_bind (on_specs (on_world (CreatePushBranch env PUSH_BRANCH (manifest_dir (spec_cfg m))))) (\<lambda>_.
         act_bind (GetNextCandidate m) (\<lambda>version.
           on_specs (publish_version env m manifest version build_id))))))"

definition CreateNewCandidate ::
    "'w spec_env \<Rightarrow> (xml \<Rightarrow> string) \<Rightarrow> lkgm_manager \<Rightarrow> string option \<Rightarrow> string option \<Rightarrow> int \<Rightarrow> int option
      \<Rightarrow> ('w specs, exn, string option) action" where
  "CreateNewCandidate env write_xml m android_version chrome_version retries build_id =
     act_bind (CheckoutSourceCode env) (\<lambda>_.
     act_bind (GetCurrentCandidate env m) (\<lambda>v.
     act_bind (refresh_specs env m (base_info v)) (\<lambda>_.
     act_bind (CreateManifest env) (\<lambda>manifest.
     act_bind (lift_py (add_if_given (AddAndroidVersionToManifest env write_xml) android_version manifest)) (\<lambda>manifest.
     act_bind (lift_py (add_if_given (AddChromeVersionToManifest env write_xml) chrome_version manifest)) (\<lambda>manifest.
       with_info v (try_range is_command_error (candidate_attempt env m manifest build_id)
         (act_raise (PyExc (Raised ''GenerateBuildSpecException''))) 0 (nat (retries + 1)))))))))"

section \<open>Given manifests, and promotion\<close>

definition from_manifest_attempt ::
    "'w spec_env \<Rightarrow> lkgm_manager \<Rightarrow> lkgm_info \<Rightarrow> string \<Rightarrow> string \<Rightarrow> int option \<Rightarrow> ('w specs, exn, string option) action" where
  "from_manifest_attempt env m v manifest version build_id =
     act_bind (refresh_specs env m (base_info v)) (\<lambda>_.
     act_bind (on_world (CreatePushBranch env PUSH_BRANCH (manifest_dir (spec_cfg m)))) (\<lambda>_.
       publish_version env m manifest version build_id))"

definition CreateFromManifest ::
    "'w spec_env \<Rightarrow> lkgm_manager \<Rightarrow> string \<Rightarrow> int \<Rightarrow> int option \<Rightarrow> ('w specs, exn, string option) action" where
  "CreateFromManifest env m manifest retries build_id =
     act_bind (on_world (read_file env manifest)) (\<lambda>contents.
     act_bind (lift_py (FilterManifest (parse_manifest env) (print_manifest env) contents (Some EXTERNAL_REMOTES) None)) (\<lambda>new_manifest.
     act_bind (GetCurrentCandidate env m) (\<lambda>v.
       try_attempts is_command_error
         (from_manifest_attempt env m v new_manifest (splitext_root (basename manifest)) build_id)
         (act_raise (PyExc (Raised ''GenerateBuildSpecException''))) (nat (retries + 1)))))"

definition promote_attempt :: "'w spec_env \<Rightarrow> lkgm_manager \<Rightarrow> string \<Rightarrow> string \<Rightarrow> nat \<Rightarrow> ('w specs, exn, unit) action" where
  "promote_attempt env m version candidate attempt =
     (let cfg = spec_cfg m in
      act_bind (if attempt = 0 then act_return () else on_world (RefreshManifestCheckout env (manifest_dir cfg) (manifest_repo cfg))) (\<lambda>_.
      act_bind (on_world (CreatePushBranch env PUSH_BRANCH (manifest_dir cfg))) (\<lambda>_.
      act_bind (on_world (CreateSymlink env candidate (lkgm_path m))) (\<lambda>_.
      act_bind (on_world (RunGit env (manifest_dir cfg) [''add'', lkgm_path m])) (\<lambda>_.
      act_bind (first_name (build_names cfg)) (\<lambda>name.
        PushSpecChanges env cfg (''Automatic: '' @ name @ '' promoting '' @ version @ '' to LKGM'')))))))"

definition PromoteCandidate :: "'w spec_env \<Rightarrow> lkgm_manager \<Rightarrow> int \<Rightarrow> ('w specs, exn, unit) action" where
  "PromoteCandidate env m retries =
     act_bind (gets current_version) (\<lambda>current.
       case current of
         Some (c # v) \<Rightarrow>
           act_bind (GetLocalManifest current) (\<lambda>candidate.
           act_bind (gets (\<lambda>s. path_exists env (the candidate) (world s))) (\<lambda>present.
           act_bind (check_that present AssertionError) (\<lambda>_.
             try_range is_command_error (promote_attempt env m (c # v) (the candidate))
               (act_raise (PyExc (Raised ''PromoteCandidateException''))) 0 (nat (retries + 1)))))
       | _ \<Rightarrow> act_raise (PyExc AssertionError))"

section \<open>Candidate strings\<close>

definition lkgm_ok :: "lkgm_info \<Rightarrow> bool" where
  "lkgm_ok v \<longleftrightarrow> numeric (build_number (base_info v)) \<and> numeric (branch_build_number (base_info v))
     \<and> numeric (patch_number (base_info v)) \<and> 0 \<le> revision_number v"

definition lkgm_components :: "lkgm_info \<Rightarrow> int list" where
  "lkgm_components v = components (base_info v) @ [revision_number v]"

text \<open>A string that prints as itself after it is parsed.\<close>

definition canonical :: "string \<Rightarrow> bool" where
  "canonical s \<longleftrightarrow> (\<exists>v. LKGMCandidateInfo s None [] = Inr v \<and> CandidateString v = s)"

lemma digit_runs_first:
  assumes "numeric d" "r = [] \<or> \<not> is_digit (r ! 0)"
  shows "\<exists>rest. digit_runs (d @ r) = (d, r) # rest"
proof -
  have "rev [1..<length (takeWhile is_digit (d @ r)) + 1] = length d # rev [1..<length d]"
    using takeWhile_run[of is_digit d r] assms by (cases d) (simp_all add: numeric_def)
  then show ?thesis by (simp add: digit_runs_def)
qed

lemma parse_base:
  assumes "numeric b" "numeric br" "numeric p"
  shows "VersionInfo_from_string (b @ ''.'' @ br @ ''.'' @ p) cb incr = Inr \<lparr>build_number = b, branch_build_number = br, patch_number = p,
    chrome_branch = cb, version_file = None, incr_type = incr\<rparr>"
proof -
  obtain r1 where r1: "digit_runs (b @ ''.'' @ br @ ''.'' @ p) = (b, ''.'' @ br @ ''.'' @ p) # r1"
    using digit_runs_first[OF assms(1), of "''.'' @ br @ ''.'' @ p"] by auto
  obtain r2 where r2: "digit_runs (br @ ''.'' @ p) = (br, ''.'' @ p) # r2" using digit_runs_first[OF assms(2), of "''.'' @ p"] by auto
  obtain r3 where r3: "digit_runs p = (p, []) # r3" using digit_runs_first[OF assms(3), of "[]"] by auto
  have "\<exists>rest. ver_matches (b @ ''.'' @ br @ ''.'' @ p) = (b, br, p) # rest"
    using r1 r2 r3 by (simp add: ver_matches_def any_char_def)
  moreover obtain c d where "b @ ''.'' @ br @ ''.'' @ p = c # d" using assms(1) by (cases b) (auto simp: numeric_def)
  ultimately have "search_version (b @ ''.'' @ br @ ''.'' @ p) = Some (b, br, p)" by auto
  then show ?thesis by (simp add: VersionInfo_from_string_def)
qed

lemma numeric_run: "numeric d \<Longrightarrow> list_all is_digit d \<and> 1 \<le> length d"
  by (cases d) (simp_all add: numeric_def)

lemma LKGM_RE_alt: "LKGM_RE =
  [[Run (Some ''b'') is_digit 1, Lit ''.'', Run (Some ''br'') is_digit 1, Lit ''.'', Run (Some ''p'') is_digit 1, Lit ''-rc'', Run (Some ''rc'') is_digit 1],
   [Run (Some ''b'') is_digit 1, Lit ''.'', Run (Some ''br'') is_digit 1, Lit ''.'', Run (Some ''p'') is_digit 1]]"
  by (simp add: LKGM_RE_def Let_def)

lemma candidate_string_match:
  assumes "numeric b" "numeric br" "numeric p" "numeric rc"
  shows "search_any LKGM_RE (b @ ''.'' @ br @ ''.'' @ p @ ''-rc'' @ rc @ []) = Some [(''b'', b), (''br'', br), (''p'', p), (''rc'', rc)]"
  unfolding LKGM_RE_alt
  by (intro search_any_first first_match_intros) (use assms numeric_run in \<open>auto simp: add_group_def intro: first_match_Nil\<close>)

lemma base_string_match:
  assumes "numeric b" "numeric br" "numeric p"
  shows "search_any LKGM_RE (b @ ''.'' @ br @ ''.'' @ p @ []) = Some [(''b'', b), (''br'', br), (''p'', p)]"
  unfolding LKGM_RE_alt
proof (rule search_any_second)
  let ?s = "b @ ''.'' @ br @ ''.'' @ p @ []"
  have "CHR ''-'' \<notin> set ?s" using assms by (auto simp: numeric_def list_all_iff)
  then show "m \<notin> set (seq_matches [Run (Some ''b'') is_digit 1, Lit ''.'', Run (Some ''br'') is_digit 1, Lit ''.'', Run (Some ''p'') is_digit 1,
      Lit ''-rc'', Run (Some ''rc'') is_digit 1] [] ?s)" for m
    unfolding match_iff by (auto dest!: arg_cong[where f = "\<lambda>z. CHR ''-'' \<in> set z"])
  show "first_match [(''b'', b), (''br'', br), (''p'', p)] [Run (Some ''b'') is_digit 1, Lit ''.'', Run (Some ''br'') is_digit 1, Lit ''.'',
      Run (Some ''p'') is_digit 1] [] ?s"
    by (intro first_match_intros) (use assms numeric_run in \<open>auto simp: add_group_def intro: first_match_Nil\<close>)
qed

lemma LKGM_RE_groups:
  assumes "search_any LKGM_RE s = Some g"
  shows "(case map_of g ''rc'' of Some rc \<Rightarrow> numeric rc | None \<Rightarrow> True)"
proof -
  obtain pat s' where "pat \<in> set LKGM_RE" "g \<in> set (seq_matches pat [] s')" using search_any_member[OF assms] by blast
  then show ?thesis
    unfolding LKGM_RE_alt by (auto simp: match_iff add_group_def numeric_def simp del: seq_matches.simps)
qed

lemma LKGMCandidateInfo_ok:
  assumes "LKGMCandidateInfo s cb incr = Inr v"
  shows "lkgm_ok v \<and> version_ok (base_info v) \<and> chrome_branch (base_info v) = cb \<and> version_file (base_info v) = None
    \<and> incr_type (base_info v) = incr"
proof -
  obtain g u n where g: "search_any LKGM_RE s = Some g"
    and u: "VersionInfo_from_string (group g ''b'' @ ''.'' @ group g ''br'' @ ''.'' @ group g ''p'') cb incr = Inr u"
    and n: "(case map_of g ''rc'' of Some (c # r) \<Rightarrow> py_int (c # r) | _ \<Rightarrow> Inr 1) = Inr n" and v: "v = \<lparr>base_info = u, revision_number = n\<rparr>"
    using assms by (auto simp: LKGMCandidateInfo_def pyres split: if_splits option.splits)
  have "0 \<le> n"
  proof (cases "map_of g ''rc''")
    case None
    with n show ?thesis by simp
  next
    case (Some rc)
    then have "numeric rc" using LKGM_RE_groups[OF g] by simp
    then obtain c r where "rc = c # r" by (cases rc) (simp_all add: numeric_def)
    with n Some numeric_py_int[OF \<open>numeric rc\<close>] show ?thesis by simp
  qed
  moreover obtain b br p where "search_version (group g ''b'' @ ''.'' @ group g ''br'' @ ''.'' @ group g ''p'') = Some (b, br, p)"
    "u = \<lparr>build_number = b, branch_build_number = br, patch_number = p, chrome_branch = cb, version_file = None, incr_type = incr\<rparr>"
    using u by (auto simp: VersionInfo_from_string_def split: option.splits)
  ultimately show ?thesis using search_version_numeric by (simp add: lkgm_ok_def version_ok_def v)
qed

lemma lkgm_ok_version: "lkgm_ok v \<Longrightarrow> VersionComponents (base_info v) = Inr (components (base_info v))"
  by (simp add: VersionComponents_def lkgm_ok_def components_def numeric_py_int)

text \<open>Printing and parsing.\<close>

lemma candidate_roundtrip:
  assumes "lkgm_ok v"
  shows "LKGMCandidateInfo (CandidateString v) cb incr
    = Inr (v\<lparr>base_info := (base_info v)\<lparr>chrome_branch := cb, version_file := None, incr_type := incr\<rparr>\<rparr>)"
proof -
  let ?b = "build_number (base_info v)" and ?br = "branch_build_number (base_info v)" and ?p = "patch_number (base_info v)"
  let ?rc = "str_of_int (revision_number v)"
  have num: "numeric ?b" "numeric ?br" "numeric ?p" "numeric ?rc" using assms by (simp_all add: lkgm_ok_def str_of_int_def)
  obtain c r where rc: "?rc = c # r" using num(4) by (cases ?rc) (simp_all add: numeric_def)
  have ne: "CandidateString v \<noteq> []" using num(1) by (auto simp: CandidateString_def VersionString_def numeric_def)
  show ?thesis
    using candidate_string_match[OF num] parse_base[OF num(1-3)] ne rc py_int_str_of_int[of "revision_number v"]
    by (simp add: LKGMCandidateInfo_def CandidateString_def VersionString_def group_def del: py_int_str_of_int)
qed

lemma base_parsed:
  assumes "version_ok v" "LKGMCandidateInfo (VersionString v) cb incr = Inr w"
  shows "components (base_info w) = components v \<and> revision_number w = 1"
proof -
  have num: "numeric (build_number v)" "numeric (branch_build_number v)" "numeric (patch_number v)" using assms(1) by (simp_all add: version_ok_def)
  have "VersionString v \<noteq> []" by simp
  with assms(2) base_string_match[OF num] parse_base[OF num] show ?thesis
    by (auto simp: LKGMCandidateInfo_def VersionString_def group_def components_def)
qed

lemma lkgm_compare: "lkgm_ok v \<Longrightarrow> CandidateCompare (CandidateString v) = Inr (lkgm_components v)"
  by (simp add: CandidateCompare_def candidate_roundtrip CandidateComponents_def lkgm_components_def components_def VersionComponents_def lkgm_ok_def
      numeric_py_int)

lemma CandidateCompare_parsed:
  assumes "LKGMCandidateInfo s cb incr = Inr v" shows "CandidateCompare s = Inr (lkgm_components v)"
proof -
  have "LKGMCandidateInfo s None [] = Inr (v\<lparr>base_info := (base_info v)\<lparr>chrome_branch := None, incr_type := []\<rparr>\<rparr>)"
    using assms by (auto simp: LKGMCandidateInfo_def VersionInfo_from_string_def pyres split: if_splits option.splits)
  moreover have "lkgm_ok v" using LKGMCandidateInfo_ok[OF assms] by simp
  ultimately show ?thesis
    by (simp add: CandidateCompare_def CandidateComponents_def lkgm_components_def components_def VersionComponents_def lkgm_ok_def numeric_py_int)
qed

lemma canonical_string: "lkgm_ok v \<Longrightarrow> canonical (CandidateString v)"
  unfolding canonical_def by (intro exI conjI, erule candidate_roundtrip) (simp add: CandidateString_def VersionString_def)

lemma Increment_ok: "lkgm_ok v \<Longrightarrow> lkgm_ok (IncrementCandidate v) \<and> lkgm_components v < lkgm_components (IncrementCandidate v)
    \<and> CandidateString (IncrementCandidate v) \<noteq> CandidateString v"
  using py_int_str_of_int[of "revision_number v"] py_int_str_of_int[of "revision_number v + 1"]
  by (auto simp: lkgm_ok_def IncrementCandidate_def lkgm_components_def CandidateString_def components_def simp del: py_int_str_of_int)

section \<open>Attempts\<close>

text \<open>A candidate that is newer than a version: not older, another string, and greater if the version is canonical, as the
  names of \<open>CreateNewCandidate\<close> are. A version that is not, such as the name \<open>R20-12.3.0-rc7\<close> that \<open>CreateFromManifest\<close> publishes
  under, may compare equal to it.\<close>

definition newer :: "string option \<Rightarrow> string \<Rightarrow> bool" where
  "newer l version \<longleftrightarrow> (case l of Some (c # r) \<Rightarrow>
       (\<exists>k k'. CandidateCompare (c # r) = Inr k \<and> CandidateCompare version = Inr k' \<and> k \<le> k' \<and> version \<noteq> c # r \<and> (canonical (c # r) \<longrightarrow> k < k'))
     | _ \<Rightarrow> True)"

lemma max_of_two: "max_by_key [(k, a), (l, b)] = Some (if k < l then b else a)"
  by simp

lemma base_on_latest_Inr:
  assumes cmp: "compare_versions_fn (spec_cfg m) = CandidateCompare" and ok: "lkgm_ok v"
    and run: "base_on_latest m (v, s) = (Inr u, (v', s'))"
  shows "s' = s \<and> lkgm_ok v' \<and> lkgm_components v \<le> lkgm_components v'
    \<and> (case latest s of Some (c # r) \<Rightarrow> (\<exists>k. CandidateCompare (c # r) = Inr k \<and> k \<le> lkgm_components v'
          \<and> (k = lkgm_components v' \<longrightarrow> LKGMCandidateInfo (c # r) (chrome_branch (base_info v)) (cfg_incr_type (spec_cfg m)) = Inr v')) | _ \<Rightarrow> True)"
proof (cases "latest s = None \<or> latest s = Some []")
  case True
  with run ok show ?thesis by (auto simp: base_on_latest_def split: option.splits)
next
  case False
  then obtain c r where l: "latest s = Some (c # r)" by (metis neq_Nil_conv option.exhaust)
  obtain best where best: "LatestSpecFromList (spec_cfg m) [c # r, CandidateString v] = Inr best"
    and v': "LKGMCandidateInfo (the best) (chrome_branch (base_info v)) (cfg_incr_type (spec_cfg m)) = Inr v'" and s': "s' = s"
    using run l by (auto simp: base_on_latest_def act_bind_Inr lift_py_Inr set_info_def)
  obtain k where k: "CandidateCompare (c # r) = Inr k" and b: "best = Some (if k < lkgm_components v then CandidateString v else c # r)"
    using best cmp lkgm_compare[OF ok]
    by (auto simp: LatestSpecFromList_def pyres list_all2_Cons1 simp del: map_res.simps split: if_splits)
  have key: "CandidateCompare (the best) = Inr (lkgm_components v')" by (rule CandidateCompare_parsed[OF v'])
  have le: "lkgm_components v \<le> lkgm_components v' \<and> k \<le> lkgm_components v' \<and> (k = lkgm_components v' \<longrightarrow> the best = c # r)"
    using key b k lkgm_compare[OF ok] by (auto split: if_splits)
  with v' k l s' LKGMCandidateInfo_ok[OF v'] show ?thesis by auto
qed

lemma GetNextCandidate_run:
  assumes "lkgm_ok v" "GetNextCandidate m (v, s) = (r, (v', s'))"
  shows "s' = s \<and> lkgm_ok v' \<and> lkgm_components v \<le> lkgm_components v'
    \<and> (\<forall>version. r = Inr version \<longrightarrow> version = CandidateString v' \<and> (\<not> dry_run (spec_cfg m) \<longrightarrow> latest s \<noteq> Some version
        \<and> (latest s = Some (CandidateString v) \<longrightarrow> lkgm_components v < lkgm_components v')))"
proof -
  have name: "x = x'" if "first_name names x' = (res, x)" for names res and x x' :: "'a candidate_state"
    using that by (auto simp: first_name_def lift_py_def split: sum.splits)
  show ?thesis
    using assms(2) Increment_ok[OF assms(1)] assms(1)
    by (auto simp: GetNextCandidate_def act_bind_def Let_def set_info_def check_that_def dest!: name split: if_splits sum.splits prod.splits)
qed

definition grown :: "int list \<Rightarrow> 'w candidate_state \<Rightarrow> bool" where
  "grown k vs \<longleftrightarrow> lkgm_ok (fst vs) \<and> k \<le> lkgm_components (fst vs)"

lemma keeps_on_specs_info: "keeps (grown k) (on_specs m)"
  by (rule keepsI) (auto simp: on_specs_def grown_def split: prod.splits)

lemma base_on_latest_Inl: "base_on_latest m (v, s) = (Inl e, vs) \<Longrightarrow> vs = (v, s)"
  by (auto simp: base_on_latest_def act_bind_def lift_py_def set_info_def split: option.splits list.splits sum.splits)

lemma keeps_base_on_latest:
  assumes "compare_versions_fn (spec_cfg m) = CandidateCompare" shows "keeps (grown k) (base_on_latest m)"
proof (rule keepsI)
  fix vs r t assume g: "grown k vs" and run: "base_on_latest m vs = (r, t)"
  obtain v s v' s' where vs: "vs = (v, s)" "t = (v', s')" by (metis prod.collapse)
  show "grown k t"
  proof (cases r)
    case (Inl e)
    with run vs base_on_latest_Inl g show ?thesis by blast
  next
    case (Inr u)
    with base_on_latest_Inr[OF assms, of v s u v' s'] run vs g show ?thesis by (auto simp: grown_def)
  qed
qed

lemma keeps_GetNextCandidate: "keeps (grown k) (GetNextCandidate m)"
proof (rule keepsI)
  fix vs r t assume "grown k vs" "GetNextCandidate m vs = (r, t)"
  moreover obtain v s v' s' where "vs = (v, s)" "t = (v', s')" by (metis prod.collapse)
  ultimately show "grown k t" using GetNextCandidate_run[of v m s r v' s'] by (auto simp: grown_def)
qed

lemma keeps_candidate_attempt:
  assumes "compare_versions_fn (spec_cfg m) = CandidateCompare"
  shows "keeps (grown k) (candidate_attempt env m manifest build_id i)"
  unfolding candidate_attempt_def
  by (intro keeps_bind keeps_if keeps_return keeps_gets keeps_on_specs_info keeps_base_on_latest[OF assms] keeps_GetNextCandidate)

lemma keeps_on_world_field: "(\<And>s w. P (s\<lparr>world := w\<rparr>) = P s) \<Longrightarrow> keeps P (on_world m)"
  by (rule keepsI) (auto simp: on_world_def split: prod.splits)

lemma publish_version_Inr:
  assumes "publish_version env m manifest version build_id s = (Inr path, t)" "version \<noteq> []"
  shows "latest t = latest s \<and> current_version t = Some version
    \<and> (\<exists>d. all_specs_dir t = Some d \<and> path = Some (path_join d [version @ ''.xml'']))"
proof -
  obtain s1 where p: "PublishManifest env (spec_cfg m) manifest version build_id s = (Inr (), s1)"
    and l: "GetLocalManifest (Some version) (s1\<lparr>current_version := Some version\<rparr>) = (Inr path, t)"
    using assms(1) by (auto simp: publish_version_def act_bind_Inr update_def)
  have "keeps (\<lambda>x. latest x = latest s) (PublishManifest env (spec_cfg m) manifest version build_id)"
    unfolding PublishManifest_def PushSpecChanges_def
    by (intro keeps_bind keeps_first_name keeps_gets keeps_lift_py keeps_seq) (auto intro: keeps_on_world_field)
  then have "latest s1 = latest s" by (rule keepsD) (use p in simp_all)
  with GetLocalManifest_Some[OF assms(2) l] show ?thesis by auto
qed

lemma HasCheckoutBeenBuilt_fields:
  "HasCheckoutBeenBuilt env s = (r, t) \<Longrightarrow> latest t = latest s"
proof -
  have "keeps (\<lambda>x. latest x = latest s) (HasCheckoutBeenBuilt env)"
    unfolding HasCheckoutBeenBuilt_def
    by (intro keeps_bind keeps_gets keeps_if keeps_lift_py keeps_return keeps_on_world_field) simp
  then show "HasCheckoutBeenBuilt env s = (r, t) \<Longrightarrow> latest t = latest s" by (auto dest: keepsD)
qed

lemma on_specs_run: "on_specs m vs = (r, vs') \<Longrightarrow> fst vs' = fst vs \<and> m (snd vs) = (r, snd vs')"
  by (auto simp: on_specs_def split: prod.splits)

lemma with_info_run: "with_info v m s = (r, t) \<longleftrightarrow> (\<exists>v'. m (v, s) = (r, (v', t)))"
  by (cases "m (v, s)") (auto simp: with_info_def)

lemmas bind_stage = act_bind_Inr[THEN iffD1]

lemma candidate_attempt_Some:
  assumes cmp: "compare_versions_fn (spec_cfg m) = CandidateCompare" and dry: "\<not> dry_run (spec_cfg m)" and ok: "lkgm_ok v"
    and run: "candidate_attempt env m manifest build_id i (v, s) = (Inr (Some path), (v', t))"
  shows "\<exists>d. current_version t = Some (CandidateString v') \<and> all_specs_dir t = Some d \<and> path = path_join d [CandidateString v' @ ''.xml'']
    \<and> newer (latest t) (CandidateString v')"
proof -
  from bind_stage[OF run[unfolded candidate_attempt_def]] obtain u vs1
    where 1: "(if i = 0 then act_return () else act_bind (gets fst) (\<lambda>v. on_specs (refresh_specs env m (base_info v)))) (v, s) = (Inr u, vs1)"
      and r1: "act_bind (if force (spec_cfg m) then act_return False else on_specs (HasCheckoutBeenBuilt env)) (\<lambda>built.
       if built then act_return None
       else act_bind (base_on_latest m) (\<lambda>_.
         act_bind (on_specs (on_world (CreatePushBranch env PUSH_BRANCH (manifest_dir (spec_cfg m))))) (\<lambda>_.
         act_bind (GetNextCandidate m) (\<lambda>version.
           on_specs (publish_version env m manifest version build_id))))) vs1 = (Inr (Some path), (v', t))"
    by (elim exE conjE) (rule that)
  have v1: "fst vs1 = v"
  proof (cases "i = 0")
    case False
    with 1 have "on_specs (refresh_specs env m (base_info v)) (v, s) = (Inr u, vs1)" by simp
    from on_specs_run[OF this] show ?thesis by simp
  qed (use 1 in auto)
  from bind_stage[OF r1] obtain b vs2 where 2: "(if force (spec_cfg m) then act_return False else on_specs (HasCheckoutBeenBuilt env)) vs1 = (Inr b, vs2)"
    and r2: "(if b then act_return None else act_bind (base_on_latest m) (\<lambda>_.
         act_bind (on_specs (on_world (CreatePushBranch env PUSH_BRANCH (manifest_dir (spec_cfg m))))) (\<lambda>_.
         act_bind (GetNextCandidate m) (\<lambda>version. on_specs (publish_version env m manifest version build_id))))) vs2 = (Inr (Some path), (v', t))"
    by (elim exE conjE) (rule that)
  have v2: "fst vs2 = v"
  proof (cases "force (spec_cfg m)")
    case False
    with 2 have "on_specs (HasCheckoutBeenBuilt env) vs1 = (Inr b, vs2)" by simp
    from on_specs_run[OF this] v1 show ?thesis by simp
  qed (use 2 v1 in auto)
  from r2 have r2: "act_bind (base_on_latest m) (\<lambda>_.
         act_bind (on_specs (on_world (CreatePushBranch env PUSH_BRANCH (manifest_dir (spec_cfg m))))) (\<lambda>_.
         act_bind (GetNextCandidate m) (\<lambda>version. on_specs (publish_version env m manifest version build_id)))) vs2 = (Inr (Some path), (v', t))"
    by (cases b) simp_all
  from bind_stage[OF r2] obtain u3 vs3 where 3: "base_on_latest m vs2 = (Inr u3, vs3)"
    and r3: "act_bind (on_specs (on_world (CreatePushBranch env PUSH_BRANCH (manifest_dir (spec_cfg m))))) (\<lambda>_.
         act_bind (GetNextCandidate m) (\<lambda>version. on_specs (publish_version env m manifest version build_id))) vs3 = (Inr (Some path), (v', t))"
    by (elim exE conjE) (rule that)
  from bind_stage[OF r3] obtain u4 vs4 where 4: "on_specs (on_world (CreatePushBranch env PUSH_BRANCH (manifest_dir (spec_cfg m)))) vs3 = (Inr u4, vs4)"
    and r4: "act_bind (GetNextCandidate m) (\<lambda>version. on_specs (publish_version env m manifest version build_id)) vs4 = (Inr (Some path), (v', t))"
    by (elim exE conjE) (rule that)
  from bind_stage[OF r4] obtain version vs5 where 5: "GetNextCandidate m vs4 = (Inr version, vs5)"
    and r5: "on_specs (publish_version env m manifest version build_id) vs5 = (Inr (Some path), (v', t))"
    by (elim exE conjE) (rule that)
  obtain v3 s3 where vs3: "vs3 = (v3, s3)" by (rule prod.exhaust)
  have b3: "s3 = snd vs2" "lkgm_ok v3"
    and l3: "case latest s3 of Some (c # r) \<Rightarrow> (\<exists>k. CandidateCompare (c # r) = Inr k \<and> k \<le> lkgm_components v3
          \<and> (k = lkgm_components v3 \<longrightarrow> LKGMCandidateInfo (c # r) (chrome_branch (base_info v)) (cfg_incr_type (spec_cfg m)) = Inr v3)) | _ \<Rightarrow> True"
    using base_on_latest_Inr[OF cmp ok, of "snd vs2" u3 v3 s3] 3 v2 vs3 by (cases vs2; simp)+
  obtain w where w: "snd vs4 = s3\<lparr>world := w\<rparr>" using on_world_state[OF on_specs_run[OF 4, THEN conjunct2]] vs3 by auto
  have vs4: "fst vs4 = v3" "latest (snd vs4) = latest s3" using on_specs_run[OF 4] vs3 w by simp_all
  obtain s4 where s4: "vs4 = (v3, s4)" "latest s4 = latest s3" using vs4 by (cases vs4) simp
  obtain v5 s5 where vs5: "vs5 = (v5, s5)" by (rule prod.exhaust)
  have 6: "s5 = s4" "lkgm_ok v5" "lkgm_components v3 \<le> lkgm_components v5" "version = CandidateString v5" "latest s4 \<noteq> Some version"
      "latest s4 = Some (CandidateString v3) \<longrightarrow> lkgm_components v3 < lkgm_components v5"
    using GetNextCandidate_run[OF b3(2), of m s4 "Inr version" v5 s5] 5 s4(1) vs5 dry by auto
  have v': "v' = v5" and pub: "publish_version env m manifest version build_id s5 = (Inr (Some path), t)"
    using on_specs_run[OF r5] vs5 by auto
  have "version \<noteq> []" using 6(4) by (simp add: CandidateString_def)
  from publish_version_Inr[OF pub this] obtain d where p: "latest t = latest s3" "current_version t = Some version" "all_specs_dir t = Some d"
    "path = path_join d [version @ ''.xml'']" using s4(2) 6(1) by auto
  have "newer (latest t) version"
  proof (cases "latest s3 = None \<or> latest s3 = Some []")
    case True
    with p(1) show ?thesis by (auto simp: newer_def)
  next
    case False
    then obtain c r where l: "latest s3 = Some (c # r)" by (metis neq_Nil_conv option.exhaust)
    with l3 obtain k where k: "CandidateCompare (c # r) = Inr k" "k \<le> lkgm_components v3"
      "k = lkgm_components v3 \<longrightarrow> LKGMCandidateInfo (c # r) (chrome_branch (base_info v)) (cfg_incr_type (spec_cfg m)) = Inr v3" by auto
    have key: "CandidateCompare version = Inr (lkgm_components v5)" using lkgm_compare[OF 6(2)] 6(4) by simp
    have "k < lkgm_components v5" if can: "canonical (c # r)"
    proof (cases "k = lkgm_components v3")
      case True
      with k(3) have parsed: "LKGMCandidateInfo (c # r) (chrome_branch (base_info v)) (cfg_incr_type (spec_cfg m)) = Inr v3" by simp
      have "CandidateString v3 = c # r" using can parsed
        by (auto simp: canonical_def LKGMCandidateInfo_def VersionInfo_from_string_def pyres CandidateString_def VersionString_def split: if_splits option.splits)
      with 6(6) l s4(2) True show ?thesis by simp
    next
      case False
      with k(2) 6(3) show ?thesis by simp
    qed
    moreover have "k \<le> lkgm_components v5" using k(2) 6(3) by (rule order_trans)
    moreover have "version \<noteq> c # r" using 6(5) l s4(2) by auto
    ultimately show ?thesis using k(1) key p(1) l by (auto simp: newer_def)
  qed
  with p v' 6(4) show ?thesis by auto
qed

section \<open>Properties\<close>

lemma try_range_grown:
  assumes "\<And>i. keeps P (m i)" and final: "\<And>s. final s = (Inl e, s)"
  shows "try_range caught m final i n s = (r, t) \<Longrightarrow> P s \<Longrightarrow>
    (\<exists>i s'. P s' \<and> m i s' = (r, t)) \<or> (r = Inl e \<and> P t)"
proof (induction n arbitrary: i s)
  case (Suc n)
  obtain r1 t1 where m: "m i s = (r1, t1)" by (rule prod.exhaust)
  have "P t1" by (rule keepsD[OF assms(1) Suc.prems(2) m])
  show ?case
  proof (cases "\<exists>e'. r1 = Inl e' \<and> caught e'")
    case True
    with Suc.prems(1) m have "try_range caught m final (Suc i) n t1 = (r, t)" by auto
    from Suc.IH[OF this \<open>P t1\<close>] show ?thesis .
  next
    case False
    with Suc.prems(1) m have "m i s = (r, t)" by (auto split: sum.splits if_splits)
    with Suc.prems(2) show ?thesis by blast
  qed
qed (auto simp: final)

text \<open>
  C28. A candidate that is created in a real run and its path are those of a version that is not older than the version of the source,
  with revision 1, and not older than the latest candidate that the last refresh has found, and another string. It is canonical: it
  prints as itself after it is parsed. If the latest candidate is canonical too, as every one that \<open>CreateNewCandidate\<close> has made, the
  new one is strictly greater. Over a latest candidate of another form, such as a name that \<open>CreateFromManifest\<close> has taken from its
  file (\<open>R20-12.3.0-rc7\<close>), strictness is not claimed: the new one can compare equal to it.
\<close>

theorem new_candidate_newer:
  fixes env :: "'w spec_env"
  assumes cfg: "LKGMManager dir repo names t android incr frc br False config_master path_rel w0 = Inr (m, s0)"
    and run: "CreateNewCandidate env write_xml m android_version chrome_version retries build_id s = (Inr (Some path), t')"
  shows "\<exists>version d v a b k. current_version t' = Some version \<and> all_specs_dir t' = Some d \<and> path = path_join d [version @ ''.xml'']
    \<and> canonical version \<and> newer (latest t') version \<and> CandidateCompare version = Inr k
    \<and> CheckoutSourceCode env s = (Inr (), a) \<and> GetCurrentVersionInfo env (spec_cfg m) a = (Inr v, b) \<and> components v @ [1] \<le> k"
proof -
  have cmp: "compare_versions_fn (spec_cfg m) = CandidateCompare" and dry: "\<not> dry_run (spec_cfg m)"
    using cfg by (auto simp: LKGMManager_def BuildSpecsManager_def pyres)
  from bind_stage[OF run[unfolded CreateNewCandidate_def]] obtain u a where a: "CheckoutSourceCode env s = (Inr u, a)"
    and r1: "act_bind (GetCurrentCandidate env m) (\<lambda>v.
     act_bind (refresh_specs env m (base_info v)) (\<lambda>_.
     act_bind (CreateManifest env) (\<lambda>manifest.
     act_bind (lift_py (add_if_given (AddAndroidVersionToManifest env write_xml) android_version manifest)) (\<lambda>manifest.
     act_bind (lift_py (add_if_given (AddChromeVersionToManifest env write_xml) chrome_version manifest)) (\<lambda>manifest.
       with_info v (try_range is_command_error (candidate_attempt env m manifest build_id)
         (act_raise (PyExc (Raised ''GenerateBuildSpecException''))) 0 (nat (retries + 1)))))))) a = (Inr (Some path), t')"
    by (elim exE conjE) (rule that)
  from bind_stage[OF r1] obtain lv a1 where cur: "GetCurrentCandidate env m a = (Inr lv, a1)"
    and r2: "act_bind (refresh_specs env m (base_info lv)) (\<lambda>_.
     act_bind (CreateManifest env) (\<lambda>manifest.
     act_bind (lift_py (add_if_given (AddAndroidVersionToManifest env write_xml) android_version manifest)) (\<lambda>manifest.
     act_bind (lift_py (add_if_given (AddChromeVersionToManifest env write_xml) chrome_version manifest)) (\<lambda>manifest.
       with_info lv (try_range is_command_error (candidate_attempt env m manifest build_id)
         (act_raise (PyExc (Raised ''GenerateBuildSpecException''))) 0 (nat (retries + 1))))))) a1 = (Inr (Some path), t')"
    by (elim exE conjE) (rule that)
  obtain v b cb where v: "GetCurrentVersionInfo env (spec_cfg m) a = (Inr v, b)"
    and lv: "LKGMCandidateInfo (VersionString v) (Some cb) (cfg_incr_type (spec_cfg m)) = Inr lv"
    using cur by (auto simp: GetCurrentCandidate_def act_bind_Inr lift_py_Inr)
  have "version_ok v" using v by (auto simp: GetCurrentVersionInfo_def Let_def act_bind_Inr lift_py_Inr dest: LoadFromFile_ok)
  from base_parsed[OF this lv] LKGMCandidateInfo_ok[OF lv] have lv_ok: "lkgm_ok lv" "lkgm_components lv = components v @ [1]"
    by (simp_all add: lkgm_components_def)
  obtain manifest a2 v' where loop: "try_range is_command_error (candidate_attempt env m manifest build_id)
      (act_raise (PyExc (Raised ''GenerateBuildSpecException''))) 0 (nat (retries + 1)) (lv, a2) = (Inr (Some path), (v', t'))"
    using r2 by (auto simp: act_bind_Inr with_info_run)
  have final: "act_raise (PyExc (Raised ''GenerateBuildSpecException'')) vs = (Inl (PyExc (Raised ''GenerateBuildSpecException'')), vs)"
    for vs :: "'w candidate_state" by simp
  have "grown (components v @ [1]) (lv, a2)" using lv_ok by (simp add: grown_def)
  from try_range_grown[OF keeps_candidate_attempt[OF cmp] final loop this] obtain i vs
    where vs: "grown (components v @ [1]) vs" "candidate_attempt env m manifest build_id i vs = (Inr (Some path), (v', t'))" by blast
  obtain v1 s1 where "vs = (v1, s1)" by (rule prod.exhaust)
  with vs have ok: "lkgm_ok v1" and run1: "candidate_attempt env m manifest build_id i (v1, s1) = (Inr (Some path), (v', t'))"
    by (simp_all add: grown_def)
  have "grown (components v @ [1]) (v', t')" by (rule keepsD[OF keeps_candidate_attempt[OF cmp] vs])
  then have ok': "lkgm_ok v'" "components v @ [1] \<le> lkgm_components v'" by (simp_all add: grown_def)
  from candidate_attempt_Some[OF cmp dry ok run1] obtain d where d: "current_version t' = Some (CandidateString v')" "all_specs_dir t' = Some d"
    "path = path_join d [CandidateString v' @ ''.xml'']" "newer (latest t') (CandidateString v')" by blast
  have a': "CheckoutSourceCode env s = (Inr (), a)" using a by simp
  show ?thesis
    by (rule exI conjI d canonical_string[OF ok'(1)] lkgm_compare[OF ok'(1)] a' v ok'(2))+
qed


text \<open>The specifications of the example are two candidates of the version of its version file.\<close>

definition candidate_env :: "nat spec_env" where
  "candidate_env = example_env\<lparr>path_exists := (\<lambda>p n. True), list_dir := (\<lambda>p n. [''12.3.0-rc9.xml'', ''12.3.0-rc10.xml'', ''x''])\<rparr>"

definition candidate_manager :: "bool \<Rightarrow> lkgm_manager \<times> nat specs" where
  "candidate_manager dry = projr (LKGMManager ''/r'' ''https://m'' [''b''] ''pfq'' None ''build'' True ''br'' dry None LKGM_MANIFEST 0)"

theorem new_candidate_newer_witness:
  "let r = CreateNewCandidate candidate_env (\<lambda>d. ''<manifest/>'') (fst (candidate_manager False)) None (Some ''108.0'') 3 None (snd (candidate_manager False))
   in fst r = Inr (Some ''/r/manifest-versions/LKGM-candidates/buildspecs/9/12.3.0-rc11.xml'') \<and> current_version (snd r) = Some ''12.3.0-rc11''
     \<and> newer (latest (snd r)) ''12.3.0-rc11'' \<and> canonical ''12.3.0-rc11''"
proof -
  let ?m = "fst (candidate_manager False)" and ?s = "snd (candidate_manager False)"
  let ?r = "CreateNewCandidate candidate_env (\<lambda>d. ''<manifest/>'') ?m None (Some ''108.0'') 3 None ?s"
  let ?path = "''/r/manifest-versions/LKGM-candidates/buildspecs/9/12.3.0-rc11.xml''"
  have cfg: "LKGMManager ''/r'' ''https://m'' [''b''] ''pfq'' None ''build'' True ''br'' False None LKGM_MANIFEST (0 :: nat) = Inr (?m, ?s)"
    by (simp add: candidate_manager_def LKGMManager_def BuildSpecsManager_def working_dir_def IsPFQType_def)
  have r: "fst ?r = Inr (Some ?path)" "current_version (snd ?r) = Some ''12.3.0-rc11''" by code_simp+
  from r(1) have "?r = (Inr (Some ?path), snd ?r)" by (metis prod.collapse)
  from new_candidate_newer[OF cfg this] r show ?thesis by (auto simp: Let_def)
qed

text \<open>A manifest published under its own name \<open>R20-12.3.0-rc7\<close>, and the candidate that is created when that name is the latest.\<close>

lemma from_manifest_name_tie:
  "let m = fst (candidate_manager False); s = snd (candidate_manager False);
       env = candidate_env\<lparr>list_dir := (\<lambda>p n. [''R20-12.3.0-rc7.xml''])\<rparr>;
       p = snd (CreateFromManifest candidate_env m ''/m/R20-12.3.0-rc7.xml'' 3 None s);
       c = snd (CreateNewCandidate env (\<lambda>d. ''<manifest/>'') m None None 3 None s)
   in current_version p = Some ''R20-12.3.0-rc7'' \<and> latest c = Some ''R20-12.3.0-rc7'' \<and> current_version c = Some ''12.3.0-rc7''
     \<and> CandidateCompare ''R20-12.3.0-rc7'' = CandidateCompare ''12.3.0-rc7''"
  by code_simp

section \<open>Dry runs\<close>

lemma keeps_on_specs: "keeps (\<lambda>s. P (world s)) a \<Longrightarrow> keeps (\<lambda>vs. P (world (snd vs))) (on_specs a)"
  by (rule keepsI) (auto simp: on_specs_def split: prod.splits dest: keepsD)

lemma keeps_set_info: "keeps (\<lambda>vs. P (snd vs)) (set_info v)"
  by (simp add: keeps_def set_info_def)

lemma keeps_try_range: "(\<And>i. keeps P (m i)) \<Longrightarrow> keeps P final \<Longrightarrow> keeps P (try_range caught m final i n)"
proof (induction n arbitrary: i)
  case (Suc n)
  show ?case
    by (rule keepsI) (auto split: prod.splits sum.splits if_splits dest: keepsD[OF Suc.prems(1)] keepsD[OF Suc.IH[OF Suc.prems]])
qed (simp add: keeps_def)

lemma keeps_dry_candidates:
  assumes env: "local_services P env" and dry: "dry_run (spec_cfg m)"
  shows "keeps (\<lambda>s. P (world s)) (refresh_specs env m v)" "keeps (\<lambda>s. P (world s)) (GetCurrentCandidate env m)"
    "keeps (\<lambda>s. P (world s)) (publish_version env m manifest version build_id)"
    "keeps (\<lambda>vs. P (world (snd vs))) (candidate_attempt env m manifest build_id i)"
    "keeps (\<lambda>s. P (world s)) (promote_attempt env m version' candidate i)"
proof -
  note git = local_services_rules[OF env]
  have local: "local_git P env" using env by (simp add: local_services_def)
  have refresh: "keeps (\<lambda>s. P (world s)) (on_world (RefreshManifestCheckout env dir url))" for dir url
    by (rule keeps_on_world) (rule keeps_dry_run[OF local])
  show specs: "keeps (\<lambda>s. P (world s)) (refresh_specs env m v)" for v
    unfolding refresh_specs_def by (intro keeps_bind keeps_return refresh keeps_InitializeManifestVariables[OF env])
  show "keeps (\<lambda>s. P (world s)) (GetCurrentCandidate env m)"
    unfolding GetCurrentCandidate_def by (intro keeps_bind keeps_lift_py keeps_GetCurrentVersionInfo[OF env])
  show pub: "keeps (\<lambda>s. P (world s)) (publish_version env m manifest version build_id)" for version
    unfolding publish_version_def
    by (intro keeps_bind keeps_GetLocalManifest keeps_PublishManifest[OF env dry] keeps_update) simp
  have push: "keeps (\<lambda>s. P (world s)) (on_world (CreatePushBranch env PUSH_BRANCH dir))" for dir
    by (rule keeps_on_world) (rule keeps_git[OF local])
  have base: "keeps (\<lambda>vs. P (world (snd vs))) (base_on_latest m)"
    unfolding base_on_latest_def by (intro keeps_bind keeps_gets keeps_option keeps_list keeps_return keeps_lift_py keeps_set_info[of "\<lambda>s. P (world s)"])
  have "next": "keeps (\<lambda>vs. P (world (snd vs))) (GetNextCandidate m)"
    unfolding GetNextCandidate_def Let_def
    by (intro keeps_bind keeps_gets keeps_if keeps_return keeps_first_name keeps_check_that keeps_set_info[of "\<lambda>s. P (world s)"])
  show "keeps (\<lambda>vs. P (world (snd vs))) (candidate_attempt env m manifest build_id i)"
    unfolding candidate_attempt_def
    by (intro keeps_bind keeps_gets keeps_if keeps_return base "next" keeps_on_specs specs pub push keeps_HasCheckoutBeenBuilt[OF env])
  show "keeps (\<lambda>s. P (world s)) (promote_attempt env m version' candidate i)"
    unfolding promote_attempt_def Let_def
    by (intro keeps_bind keeps_if keeps_return refresh push keeps_first_name keeps_PushSpecChanges[OF env dry] keeps_on_world)
      (auto simp: CreateSymlink_def intro!: keeps_bind keeps_return git keeps_RunGit[OF local] local_git_rules[OF local])
qed

text \<open>
  In a dry run creating a candidate, publishing a given manifest and promoting a candidate run no git push,
  whether they return or raise: a property of the world that only pushes can change is kept.
\<close>

theorem lkgm_dry_run_pushes_nothing:
  assumes "local_services P env" "dry_run (spec_cfg m)" "P (world s)"
  shows "P (world (snd (CreateNewCandidate env write_xml m android_version chrome_version retries build_id s)))
    \<and> P (world (snd (CreateFromManifest env m manifest retries build_id s)))
    \<and> P (world (snd (PromoteCandidate env m retries s)))"
proof -
  note keep = keeps_dry_candidates[OF assms(1,2)]
  note world = keeps_on_world[OF local_services_rules(5)[OF assms(1)]] keeps_on_world[OF local_services_rules(3)[OF assms(1)]]
  have local: "local_git P env" using assms(1) by (simp add: local_services_def)
  have loop: "keeps (\<lambda>s. P (world s)) (with_info v a)" if "keeps (\<lambda>vs. P (world (snd vs))) a" for v a
    using that by (auto simp: keeps_def with_info_def split: prod.splits) (metis snd_conv)
  have new: "keeps (\<lambda>s. P (world s)) (CreateNewCandidate env write_xml m android_version chrome_version retries build_id)"
    unfolding CreateNewCandidate_def CheckoutSourceCode_def CreateManifest_def
    by (intro keeps_bind keeps_lift_py world keep(1,2) loop keeps_try_range keep(4) keeps_raise)
  have "from": "keeps (\<lambda>s. P (world s)) (CreateFromManifest env m manifest retries build_id)"
    unfolding CreateFromManifest_def from_manifest_attempt_def
    by (intro keeps_bind keeps_lift_py keep(1-3) keeps_try_attempts keeps_raise keeps_on_world local_git_rules[OF local] keeps_git[OF local])
  have promote: "keeps (\<lambda>s. P (world s)) (PromoteCandidate env m retries)"
    unfolding PromoteCandidate_def
    by (intro keeps_bind keeps_gets keeps_option keeps_list keeps_raise keeps_GetLocalManifest keeps_check_that keeps_try_range keep(5))
  show ?thesis
    using new "from" promote assms(3) by (auto simp: keeps_def)
qed

theorem lkgm_dry_run_pushes_nothing_witness:
  "let m = fst (candidate_manager True); s = (snd (candidate_manager True))\<lparr>all_specs_dir := Some ''/d'', current_version := Some ''12.3.0-rc9''\<rparr> in
    world (snd (CreateNewCandidate candidate_env (\<lambda>d. ''<manifest/>'') m None None 3 None s)) = 0
    \<and> world (snd (CreateFromManifest candidate_env m ''/m/12.3.0-rc9.xml'' 3 None s)) = 0 \<and> world (snd (PromoteCandidate candidate_env m 3 s)) = 0"
proof -
  let ?m = "fst (candidate_manager True)" and ?s = "(snd (candidate_manager True))\<lparr>all_specs_dir := Some ''/d'', current_version := Some ''12.3.0-rc9''\<rparr>"
  have env: "local_services (\<lambda>n. n = 0) candidate_env"
    using example_local by (simp add: local_services_def local_git_def candidate_env_def)
  have "dry_run (spec_cfg ?m)" "world ?s = 0" by code_simp+
  from lkgm_dry_run_pushes_nothing[OF env, of ?m ?s, OF this] show ?thesis by (simp add: Let_def)
qed

end
