(* ===== verification/GsPaths.thy ===== *)
theory GsPaths
  imports Patterns Paths
begin

text \<open>
  Storage paths of images and payloads (\<open>lib/paygen/gspaths.py\<close>): the objects that describe builds,
  images and payloads, the names and URIs made from them, and the parsing of URIs. The restricted
  dictionaries of the source are records whose unset fields are \<^const>\<open>None\<close>; the four parts of a build
  that make a URI are always set. The random part of a name is a parameter.
\<close>

section \<open>Objects\<close>

record gs_build =
  bucket :: string
  channel :: string
  board :: string
  version :: string
  build_uri :: "string option"

record image =
  image_build :: "gs_build option"
  image_type :: "string option"
  image_key :: "string option"
  image_channel :: "string option"
  image_version :: "string option"
  image_uri :: "string option"

record dlc_image = image +
  dlc_id :: "string option"
  dlc_package :: "string option"
  dlc_file :: "string option"

record minios_image = image +
  minios :: bool

record unsigned_image =
  unsigned_build :: "gs_build option"
  unsigned_milestone :: "string option"
  unsigned_type :: "string option"
  unsigned_uri :: "string option"

datatype any_image = SignedImage image | DLC dlc_image | MiniOS minios_image | Unsigned unsigned_image

record payload =
  tgt_image :: any_image
  src_image :: "any_image option"
  payload_build :: "gs_build option"
  payload_uri :: "string option"
  payload_exists :: bool
  payload_minios :: "bool option"

definition DEFAULT_IMAGE_TYPE :: string where
  "DEFAULT_IMAGE_TYPE = ''recovery''"

definition clear_if_default :: "'a option \<Rightarrow> 'a option \<Rightarrow> 'a option" where
  "clear_if_default v d = (if v = d then None else v)"

text \<open>The constructors; what a class adds to an image is added to the result.\<close>

definition init_image :: "image \<Rightarrow> image" where
  "init_image i =
     (let i = (case image_build i of None \<Rightarrow> i
          | Some b \<Rightarrow> i\<lparr>image_channel := clear_if_default (image_channel i) (Some (channel b)),
                        image_version := clear_if_default (image_version i) (Some (version b))\<rparr>)
      in if image_type i = None \<or> image_type i = Some [] then i\<lparr>image_type := Some DEFAULT_IMAGE_TYPE\<rparr> else i)"

definition build_of :: "any_image \<Rightarrow> gs_build option" where
  "build_of a = (case a of SignedImage i \<Rightarrow> image_build i | DLC i \<Rightarrow> image_build i | MiniOS i \<Rightarrow> image_build i | Unsigned i \<Rightarrow> unsigned_build i)"

definition Payload :: "any_image \<Rightarrow> any_image option \<Rightarrow> gs_build option \<Rightarrow> string option \<Rightarrow> bool \<Rightarrow> bool option \<Rightarrow> payload" where
  "Payload tgt src bld u ex mini =
     \<lparr>tgt_image = tgt, src_image = src, payload_build = (if bld = None then build_of tgt else bld), payload_uri = u,
      payload_exists = ex, payload_minios = mini\<rparr>"

definition IsImage :: "any_image \<Rightarrow> bool" where
  "IsImage a = (case a of Unsigned _ \<Rightarrow> False | _ \<Rightarrow> True)"

definition IsUnsignedImageArchive :: "any_image \<Rightarrow> bool" where
  "IsUnsignedImageArchive a = (case a of Unsigned _ \<Rightarrow> True | _ \<Rightarrow> False)"

definition IsDLCImage :: "any_image \<Rightarrow> bool" where
  "IsDLCImage a = (case a of DLC _ \<Rightarrow> True | _ \<Rightarrow> False)"

definition IsMiniOSImage :: "any_image \<Rightarrow> bool" where
  "IsMiniOSImage a = (case a of MiniOS _ \<Rightarrow> True | _ \<Rightarrow> False)"

section \<open>Names and URIs\<close>

definition BuildUri :: "gs_build \<Rightarrow> string" where
  "BuildUri b = ''gs://'' @ bucket b @ ''/'' @ channel b @ ''/'' @ board b @ ''/'' @ version b"

definition BuildPayloadsUri :: "gs_build \<Rightarrow> string" where
  "BuildPayloadsUri b = path_join (BuildUri b) [''payloads'']"

definition BuildPayloadsSigningUri :: "gs_build \<Rightarrow> string" where
  "BuildPayloadsSigningUri b = path_join (BuildPayloadsUri b) [''signing'']"

definition FLAGS :: "string list" where
  "FLAGS = [''LOCK'']"

definition BuildPayloadsFlagUri :: "gs_build \<Rightarrow> string \<Rightarrow> string res" where
  "BuildPayloadsFlagUri b flag =
     (if flag \<in> set FLAGS then Inr (path_join (BuildPayloadsUri b) [flag @ ''_flag'']) else Inl AssertionError)"

definition ImageName :: "string \<Rightarrow> string \<Rightarrow> string \<Rightarrow> string \<Rightarrow> string \<Rightarrow> string" where
  "ImageName chan brd ver key typ = ''chromeos_'' @ ver @ ''_'' @ brd @ ''_'' @ typ @ ''_'' @ chan @ ''_'' @ key @ ''.bin''"

definition DLCImageName :: string where
  "DLCImageName = ''dlc.img''"

definition UnsignedImageArchiveName :: "string \<Rightarrow> string \<Rightarrow> string \<Rightarrow> string \<Rightarrow> string" where
  "UnsignedImageArchiveName brd ver milestone typ =
     ''ChromeOS-'' @ typ @ ''-'' @ milestone @ ''-'' @ ver @ ''-'' @ brd @ ''.tar.xz''"

text \<open>A parameter that Python takes as false stands for its default, or only \<open>None\<close> does.\<close>

definition or_default :: "string option \<Rightarrow> string \<Rightarrow> string" where
  "or_default v d = (case v of Some (c # cs) \<Rightarrow> c # cs | _ \<Rightarrow> d)"

definition if_none :: "string option \<Rightarrow> string \<Rightarrow> string" where
  "if_none v d = (case v of Some s \<Rightarrow> s | None \<Rightarrow> d)"

definition ImageUri :: "gs_build \<Rightarrow> string \<Rightarrow> string \<Rightarrow> string option \<Rightarrow> string option \<Rightarrow> string" where
  "ImageUri b key typ chan ver =
     path_join (BuildUri b) [ImageName (or_default chan (channel b)) (board b) (or_default ver (version b)) key typ]"

definition UnsignedImageUri :: "gs_build \<Rightarrow> string \<Rightarrow> string \<Rightarrow> string" where
  "UnsignedImageUri b milestone typ = path_join (BuildUri b) [UnsignedImageArchiveName (board b) (version b) milestone typ]"

definition DLCImageUri :: "gs_build \<Rightarrow> string \<Rightarrow> string \<Rightarrow> string \<Rightarrow> string" where
  "DLCImageUri b did pkg img = path_join (BuildUri b) [''dlc'', did, pkg, img]"

definition DLCImagesUri :: "gs_build \<Rightarrow> string" where
  "DLCImagesUri b = path_join (BuildUri b) [''dlc'', ''*'', ''*'', DLCImageName]"

text \<open>The common shape of payload names: of a full or, with a source version, of a delta payload.\<close>

definition versions_part :: "string option \<Rightarrow> string \<Rightarrow> string" where
  "versions_part src ver = (case src of Some (c # cs) \<Rightarrow> (c # cs) @ ''-'' @ ver | _ \<Rightarrow> ver)"

definition kind_part :: "string option \<Rightarrow> string" where
  "kind_part src = (case src of Some (c # cs) \<Rightarrow> ''delta'' | _ \<Rightarrow> ''full'')"

definition DLCPayloadName ::
    "string \<Rightarrow> string \<Rightarrow> string \<Rightarrow> string \<Rightarrow> string \<Rightarrow> string \<Rightarrow> string option \<Rightarrow> bool \<Rightarrow> string" where
  "DLCPayloadName chan brd ver did pkg rnd src sign =
     ''dlc_'' @ did @ ''_'' @ pkg @ ''_'' @ versions_part src ver @ ''_'' @ brd @ ''_'' @ chan @ ''_'' @ kind_part src
     @ ''.bin-'' @ rnd @ (if sign then ''.signed'' else [])"

definition signed_payload_name ::
    "string \<Rightarrow> string \<Rightarrow> string \<Rightarrow> string \<Rightarrow> string option \<Rightarrow> string \<Rightarrow> string option \<Rightarrow> string \<Rightarrow> string" where
  "signed_payload_name prefix chan brd ver key rnd src unsigned =
     prefix @ versions_part src ver @ ''_'' @ brd @ ''_'' @ chan @ ''_'' @ kind_part src @ ''_''
     @ or_default key unsigned @ ''.bin-'' @ rnd @ (if or_default key [] = [] then [] else ''.signed'')"

definition MiniOSPayloadName ::
    "string \<Rightarrow> string \<Rightarrow> string \<Rightarrow> string option \<Rightarrow> string \<Rightarrow> string option \<Rightarrow> string \<Rightarrow> string" where
  "MiniOSPayloadName = signed_payload_name ''minios_''"

definition PayloadName ::
    "string \<Rightarrow> string \<Rightarrow> string \<Rightarrow> string option \<Rightarrow> string \<Rightarrow> string option \<Rightarrow> string \<Rightarrow> string" where
  "PayloadName = signed_payload_name ''chromeos_''"

definition DLCPayloadUri ::
    "gs_build \<Rightarrow> string \<Rightarrow> string \<Rightarrow> string \<Rightarrow> string option \<Rightarrow> string option \<Rightarrow> string option \<Rightarrow> string" where
  "DLCPayloadUri b rnd did pkg chan ver src =
     path_join (BuildPayloadsUri b) [''dlc'', did, pkg,
       DLCPayloadName (if_none chan (channel b)) (board b) (if_none ver (version b)) did pkg rnd src True]"

definition MiniOSPayloadUri ::
    "gs_build \<Rightarrow> string \<Rightarrow> string option \<Rightarrow> string option \<Rightarrow> string option \<Rightarrow> string option \<Rightarrow> string" where
  "MiniOSPayloadUri b rnd key chan ver src =
     path_join (BuildPayloadsUri b) [''minios'',
       MiniOSPayloadName (if_none chan (channel b)) (board b) (if_none ver (version b)) key rnd src ''test'']"

definition PayloadUri ::
    "gs_build \<Rightarrow> string \<Rightarrow> string option \<Rightarrow> string option \<Rightarrow> string option \<Rightarrow> string option \<Rightarrow> string" where
  "PayloadUri b rnd key chan ver src =
     path_join (BuildPayloadsUri b)
       [PayloadName (if_none chan (channel b)) (board b) (if_none ver (version b)) key rnd src ''test'']"

text \<open>
  The random part of a name (\<open>GetRandomString\<close> of \<open>lib/cros_build_lib.py\<close>), from the time in seconds and the
  bytes of \<open>os.urandom(16)\<close>: the base 32 form of the time in hexadecimal and the bytes.
\<close>

definition B32_ALPHABET :: string where
  "B32_ALPHABET = ''ABCDEFGHIJKLMNOPQRSTUVWXYZ234567''"

definition bytes_val :: "int list \<Rightarrow> int" where
  "bytes_val bs = fold (\<lambda>b v. v * 256 + b) bs 0"

definition b32_quantum :: "int list \<Rightarrow> nat \<Rightarrow> string" where
  "b32_quantum bs k =
     map (\<lambda>i. B32_ALPHABET ! nat (bytes_val bs div 32 ^ (7 - i) mod 32)) [0..<k] @ replicate (8 - k) CHR ''=''"

fun b32encode :: "int list \<Rightarrow> string" where
  "b32encode [] = []"
| "b32encode [a] = b32_quantum [a, 0, 0, 0, 0] 2"
| "b32encode [a, b] = b32_quantum [a, b, 0, 0, 0] 4"
| "b32encode [a, b, c] = b32_quantum [a, b, c, 0, 0] 5"
| "b32encode [a, b, c, d] = b32_quantum [a, b, c, d, 0] 7"
| "b32encode (a # b # c # d # e # bs) = b32_quantum [a, b, c, d, e] 8 @ b32encode bs"

fun hex_bytes :: "nat \<Rightarrow> int list" where
  "hex_bytes n = (if n < 16 then [] else hex_bytes (n div 16)) @ [if n mod 16 < 10 then 48 + int (n mod 16) else 87 + int (n mod 16)]"

declare hex_bytes.simps [simp del]

definition GetRandomString :: "nat \<Rightarrow> int list \<Rightarrow> string" where
  "GetRandomString time bytes = map lower_char (take 32 (b32encode (hex_bytes time @ bytes)))"

definition ImageArchive_BuildUri :: "string \<Rightarrow> string \<Rightarrow> string \<Rightarrow> string option \<Rightarrow> string" where
  "ImageArchive_BuildUri brd milestone ver bkt =
     ''gs://'' @ or_default bkt ''chromeos-image-archive'' @ ''/'' @ brd @ ''-release/R'' @ milestone @ ''-'' @ ver"

section \<open>Parsing\<close>

definition dot :: "char \<Rightarrow> bool" where
  "dot c \<longleftrightarrow> c \<noteq> CHR 0x0A"

definition no_underscore :: "char \<Rightarrow> bool" where
  "no_underscore c \<longleftrightarrow> c \<noteq> CHR ''_''"

definition no_slash :: "char \<Rightarrow> bool" where
  "no_slash c \<longleftrightarrow> c \<noteq> CHR ''/''"

definition is_hex :: "char \<Rightarrow> bool" where
  "is_hex c \<longleftrightarrow> is_digit c \<or> 65 \<le> py_ord c \<and> py_ord c \<le> 70 \<or> 97 \<le> py_ord c \<and> py_ord c \<le> 102"

definition build_pattern :: "(char \<Rightarrow> bool) \<Rightarrow> nat \<Rightarrow> pitem list" where
  "build_pattern cls k =
     [Lit ''gs://'', Run (Some ''bucket'') cls k, Lit ''/'', Run (Some ''channel'') cls k, Lit ''/'',
      Run (Some ''board'') cls k, Lit ''/'', Run (Some ''version'') cls k]"

definition name_group :: "string \<Rightarrow> pitem" where
  "name_group n = Run (Some n) no_underscore 1"

definition IMAGE_PATTERN :: "pitem list" where
  "IMAGE_PATTERN = build_pattern dot 0 @
     [Lit ''/chromeos_'', name_group ''image_version'', Lit ''_'', Ref ''board'', Lit ''_'', name_group ''image_type'', Lit ''_'',
      name_group ''image_channel'', Lit ''_'', name_group ''key'', AnyChar, Lit ''bin'', AtEnd]"

definition UNSIGNED_IMAGE_TYPES :: "string list" where
  "UNSIGNED_IMAGE_TYPES = [''test'', ''recovery'', ''base'']"

text \<open>The milestone is a group of a literal and digits; it is put together from the two.\<close>

definition UNSIGNED_PATTERN :: "pitem list" where
  "UNSIGNED_PATTERN = build_pattern no_slash 1 @
     [Lit ''/ChromeOS-'', Choice ''image_type'' UNSIGNED_IMAGE_TYPES, Lit ''-R'', Run (Some ''milestone'') is_digit 1, Lit ''-'',
      Ref ''version'', Lit ''-'', Ref ''board'', AnyChar, Lit ''tar'', AnyChar, Lit ''xz'']"

definition DLC_PATTERN :: "pitem list" where
  "DLC_PATTERN = build_pattern dot 0 @
     [Lit ''/dlc/'', Run (Some ''dlc_id'') dot 0, Lit ''/'', Run (Some ''dlc_package'') dot 0, Lit ''/'',
      Run (Some ''dlc_image'') dot 0, AtEnd]"

definition payload_end :: "string \<Rightarrow> pitem list" where
  "payload_end kind = [Lit ''_'', Ref ''board'', Lit ''_'', name_group ''image_channel'', Lit kind, name_group ''key'',
     Lit ''.bin-'', Run None is_hex 1, Lit ''.signed'', AtEnd]"

definition FULL_PATTERN :: "pitem list" where
  "FULL_PATTERN = build_pattern dot 0 @ Lit ''/payloads/chromeos_'' # name_group ''image_version'' # payload_end ''_full_''"

definition DELTA_PATTERN :: "pitem list" where
  "DELTA_PATTERN = build_pattern dot 0 @
     Lit ''/payloads/chromeos_'' # name_group ''src_version'' # Lit ''-'' # name_group ''image_version'' # payload_end ''_delta_''"

definition build_of_groups :: "groups \<Rightarrow> gs_build" where
  "build_of_groups g =
     \<lparr>bucket = group g ''bucket'', channel = group g ''channel'', board = group g ''board'', version = group g ''version'', build_uri = None\<rparr>"

definition parsed_image :: "string \<Rightarrow> groups \<Rightarrow> image" where
  "parsed_image u g = init_image
     \<lparr>image_build = Some (build_of_groups g), image_type = Some (group g ''image_type''), image_key = Some (group g ''key''),
      image_channel = Some (group g ''image_channel''), image_version = Some (group g ''image_version''), image_uri = Some u\<rparr>"

definition ParseImageUri :: "string \<Rightarrow> image option" where
  "ParseImageUri u = map_option (parsed_image u) (re_match IMAGE_PATTERN u)"

definition ParseMiniOSImageUri :: "string \<Rightarrow> minios_image option" where
  "ParseMiniOSImageUri u = map_option (\<lambda>g. image.extend (parsed_image u g) (minios_image.fields True)) (re_match IMAGE_PATTERN u)"

definition ParseUnsignedImageUri :: "string \<Rightarrow> unsigned_image option" where
  "ParseUnsignedImageUri u = map_option (\<lambda>g.
     \<lparr>unsigned_build = Some (build_of_groups g), unsigned_milestone = Some (CHR ''R'' # group g ''milestone''),
      unsigned_type = Some (group g ''image_type''), unsigned_uri = Some u\<rparr>) (re_match UNSIGNED_PATTERN u)"

definition ParseDLCImageUri :: "string \<Rightarrow> dlc_image option" where
  "ParseDLCImageUri u = map_option (\<lambda>g. image.extend
     (init_image \<lparr>image_build = Some (build_of_groups g), image_type = None, image_key = None, image_channel = None,
        image_version = None, image_uri = Some u\<rparr>)
     (dlc_image.fields (Some (group g ''dlc_id'')) (Some (group g ''dlc_package'')) (Some (group g ''dlc_image''))))
     (re_match DLC_PATTERN u)"

definition payload_target :: "groups \<Rightarrow> image" where
  "payload_target g = init_image
     \<lparr>image_build = Some (build_of_groups g), image_type = None, image_key = Some (group g ''key''),
      image_channel = Some (group g ''image_channel''), image_version = Some (group g ''image_version''), image_uri = None\<rparr>"

definition payload_source :: "groups \<Rightarrow> image" where
  "payload_source g = init_image
     \<lparr>image_build = Some ((build_of_groups g)\<lparr>version := group g ''src_version''\<rparr>), image_type = None, image_key = None,
      image_channel = None, image_version = None, image_uri = None\<rparr>"

definition ParsePayloadUri :: "string \<Rightarrow> payload option" where
  "ParsePayloadUri u =
     (case re_match FULL_PATTERN u of
        Some g \<Rightarrow> Some (Payload (SignedImage (payload_target g)) None None (Some u) False None)
      | None \<Rightarrow> (case re_match DELTA_PATTERN u of
          Some g \<Rightarrow> Some (Payload (SignedImage (payload_target g)) (Some (SignedImage (payload_source g))) None (Some u) False None)
        | None \<Rightarrow> None))"

section \<open>Versions of builds\<close>

definition VersionKey :: "string \<Rightarrow> int list res" where
  "VersionKey v =
     res_bind (map_res py_int (split_on CHR ''.'' v)) (\<lambda>key.
       if length key = 3 then Inr ([1, 0] @ key) else if length key = 4 then Inr (0 # key) else Inl AssertionError)"

definition VersionGreater :: "string \<Rightarrow> string \<Rightarrow> bool res" where
  "VersionGreater l r = res_bind (VersionKey l) (\<lambda>a. res_bind (VersionKey r) (\<lambda>b. Inr (b < a)))"

section \<open>As text\<close>

definition str_opt :: "string option \<Rightarrow> string" where
  "str_opt v = (case v of Some s \<Rightarrow> s | None \<Rightarrow> ''None'')"

definition uri_name :: "string \<Rightarrow> string" where
  "uri_name u = last (split_on CHR ''/'' u)"

definition in_parens :: "string option \<Rightarrow> string" where
  "in_parens v = (case v of Some (c # cs) \<Rightarrow> ''('' @ (c # cs) @ '')'' | _ \<Rightarrow> [])"

definition Image_str :: "image \<Rightarrow> string res" where
  "Image_str i =
     (case image_uri i of
        Some (c # u) \<Rightarrow> Inr (uri_name (c # u))
      | _ \<Rightarrow> (case image_build i of
          None \<Rightarrow> Inl AttributeError
        | Some b \<Rightarrow> Inr (''Image: '' @ bucket b @ '':'' @ board b @ ''/'' @ channel b @ in_parens (image_channel i) @ ''/''
            @ version b @ in_parens (image_version i) @ ''/'' @ str_opt (image_type i) @ ''/'' @ str_opt (image_key i) @ '' (no uri)'')))"

definition DLCImage_str :: "dlc_image \<Rightarrow> string res" where
  "DLCImage_str i =
     (case image_uri i of
        Some (c # u) \<Rightarrow> Inr (uri_name (c # u))
      | _ \<Rightarrow> res_bind (Image_str (image.truncate i)) (\<lambda>s.
          Inr (s @ '' '' @ str_opt (dlc_id i) @ ''/'' @ str_opt (dlc_package i) @ ''/'' @ str_opt (dlc_file i))))"

definition MiniOSImage_str :: "minios_image \<Rightarrow> string res" where
  "MiniOSImage_str i =
     (case image_uri i of
        Some (c # u) \<Rightarrow> Inr (uri_name (c # u))
      | _ \<Rightarrow> res_bind (Image_str (image.truncate i)) (\<lambda>s. Inr (s @ '' '' @ (if minios i then ''True'' else ''False'') @ '' (minios)'')))"

definition UnsignedImage_str :: "unsigned_image \<Rightarrow> string res" where
  "UnsignedImage_str i =
     (case unsigned_uri i of
        Some (c # u) \<Rightarrow> Inr (uri_name (c # u))
      | _ \<Rightarrow> (case unsigned_build i of
          None \<Rightarrow> Inl AttributeError
        | Some b \<Rightarrow> Inr (''Unsigned image archive: '' @ bucket b @ '':'' @ board b @ ''/'' @ channel b @ ''/''
            @ str_opt (unsigned_milestone i) @ ''-'' @ version b @ ''/'' @ str_opt (unsigned_type i) @ '' (no uri)'')))"

definition any_image_str :: "any_image \<Rightarrow> string res" where
  "any_image_str a =
     (case a of SignedImage i \<Rightarrow> Image_str i | DLC i \<Rightarrow> DLCImage_str i | MiniOS i \<Rightarrow> MiniOSImage_str i | Unsigned i \<Rightarrow> UnsignedImage_str i)"

definition Payload_str :: "payload \<Rightarrow> string res" where
  "Payload_str p =
     (case payload_uri p of
        Some (c # u) \<Rightarrow> Inr (uri_name (c # u))
      | _ \<Rightarrow> res_bind (case src_image p of None \<Rightarrow> Inr ''any'' | Some a \<Rightarrow> any_image_str a) (\<lambda>src.
          res_bind (any_image_str (tgt_image p)) (\<lambda>tgt. Inr (src @ '' -> '' @ tgt @ '' (no uri)''))))"

section \<open>What the patterns match\<close>

lemma dot_iff: "list_all dot s \<longleftrightarrow> CHR 0x0A \<notin> set s"
  by (auto simp: dot_def list_all_iff)

lemma no_underscore_iff: "list_all no_underscore s \<longleftrightarrow> CHR ''_'' \<notin> set s"
  by (auto simp: no_underscore_def list_all_iff)

lemma no_slash_iff: "list_all no_slash s \<longleftrightarrow> CHR ''/'' \<notin> set s"
  by (auto simp: no_slash_def list_all_iff)

text \<open>The parts of a path, and the parts of a file name between underscores.\<close>

definition path_part :: "string \<Rightarrow> bool" where
  "path_part s \<longleftrightarrow> s \<noteq> [] \<and> CHR ''/'' \<notin> set s \<and> CHR 0x0A \<notin> set s"

definition name_part :: "string \<Rightarrow> bool" where
  "name_part s \<longleftrightarrow> s \<noteq> [] \<and> CHR ''_'' \<notin> set s \<and> CHR ''/'' \<notin> set s"

definition build_ok :: "gs_build \<Rightarrow> bool" where
  "build_ok b \<longleftrightarrow> path_part (bucket b) \<and> path_part (channel b) \<and> path_part (board b) \<and> path_part (version b) \<and> build_uri b = None"

definition build_groups :: "gs_build \<Rightarrow> groups" where
  "build_groups b = [(''bucket'', bucket b), (''channel'', channel b), (''board'', board b), (''version'', version b)]"

lemma build_of_groups_append: "build_uri b = None \<Longrightarrow> build_of_groups (build_groups b @ g) = b"
  by (cases b) (simp add: build_of_groups_def build_groups_def group_def)

lemma group_build_groups:
  "n \<notin> {''bucket'', ''channel'', ''board'', ''version''} \<Longrightarrow> group (build_groups b @ g) n = group g n"
  by (simp add: group_def build_groups_def)

lemma BuildUri_join: "BuildUri b = ''gs://'' @ join ''/'' [bucket b, channel b, board b, version b]"
  by (simp add: BuildUri_def)

text \<open>
  The first part of a pattern: where the rest of a URI has the slashes that follow the version, the
  four parts can only be those of the build.
\<close>

lemma build_pattern_append:
  "build_pattern cls k @ is = Lit ''gs://'' # Run (Some ''bucket'') cls k # Lit ''/'' # Run (Some ''channel'') cls k # Lit ''/''
     # Run (Some ''board'') cls k # Lit ''/'' # Run (Some ''version'') cls k # is"
  by (simp add: build_pattern_def)

lemma build_pattern_iff:
  "m \<in> set (seq_matches (build_pattern cls k @ is) [] s) \<longleftrightarrow>
     (\<exists>b r. build_uri b = None \<and> s = BuildUri b @ r \<and> k \<le> length (bucket b) \<and> k \<le> length (channel b) \<and> k \<le> length (board b)
        \<and> k \<le> length (version b) \<and> list_all cls (bucket b) \<and> list_all cls (channel b) \<and> list_all cls (board b)
        \<and> list_all cls (version b) \<and> m \<in> set (seq_matches is (build_groups b) r))"
  (is "?l \<longleftrightarrow> ?r")
proof
  assume ?l
  then obtain r1 B r2 r3 C r4 r5 D r6 r7 V r where s: "s = ''gs://'' @ r1" "r1 = B @ r2" "r2 = ''/'' @ r3" "r3 = C @ r4"
      "r4 = ''/'' @ r5" "r5 = D @ r6" "r6 = ''/'' @ r7" "r7 = V @ r"
    and "k \<le> length B" "list_all cls B" "k \<le> length C" "list_all cls C" "k \<le> length D" "list_all cls D" "k \<le> length V" "list_all cls V"
    and "m \<in> set (seq_matches is ((((([] @ [(''bucket'', B)]) @ [(''channel'', C)]) @ [(''board'', D)]) @ [(''version'', V)])) r)"
    unfolding build_pattern_append match_iff add_group_def option.case by (elim exE conjE) (rule that)
  then show ?r
    unfolding s by (intro exI[of _ "\<lparr>bucket = B, channel = C, board = D, version = V, build_uri = None\<rparr>"] exI[of _ r])
      (simp add: BuildUri_def build_groups_def)
next
  assume ?r
  then obtain b r where "s = BuildUri b @ r"
    and len: "k \<le> length (bucket b)" "k \<le> length (channel b)" "k \<le> length (board b)" "k \<le> length (version b)"
    and cls: "list_all cls (bucket b)" "list_all cls (channel b)" "list_all cls (board b)" "list_all cls (version b)"
    and "m \<in> set (seq_matches is (build_groups b) r)"
    by (elim exE conjE) (rule that)
  then have s: "s = ''gs://'' @ bucket b @ ''/'' @ channel b @ ''/'' @ board b @ ''/'' @ version b @ r"
    and m: "m \<in> set (seq_matches is ((((([] @ [(''bucket'', bucket b)]) @ [(''channel'', channel b)]) @ [(''board'', board b)])
        @ [(''version'', version b)])) r)"
    by (simp_all add: BuildUri_def build_groups_def)
  show ?l
    unfolding build_pattern_append match_iff add_group_def option.case by (rule exI conjI s refl len cls m)+
qed

lemma BuildUri_unique:
  assumes "build_ok b" "build_uri b' = None"
    and eq: "BuildUri b @ CHR ''/'' # join ''/'' xs = BuildUri b' @ CHR ''/'' # join ''/'' ys"
    and "length ys = length xs" "xs \<noteq> []" "\<And>x. x \<in> set xs \<Longrightarrow> CHR ''/'' \<notin> set x"
  shows "b' = b \<and> ys = xs"
proof -
  have ys: "ys \<noteq> []" using assms(4,5) by auto
  have "join ''/'' ([bucket b, channel b, board b, version b] @ xs) = join ''/'' ([bucket b', channel b', board b', version b'] @ ys)"
    using eq assms(5) ys by (simp add: BuildUri_def join_Cons)
  then have "[bucket b', channel b', board b', version b'] @ ys = [bucket b, channel b, board b, version b] @ xs"
    by (rule join_unique) (use assms(1,4,6) in \<open>auto simp: build_ok_def path_part_def\<close>)
  with assms(1,2) show ?thesis by (simp add: build_ok_def)
qed

lemma path_join_simple:
  "p \<noteq> [] \<Longrightarrow> \<not> endswith p ''/'' \<Longrightarrow> \<not> startswith q ''/'' \<Longrightarrow> path_join p (q # qs) = path_join (p @ ''/'' @ q) qs"
  by simp

lemma endswith_slash: "s \<noteq> [] \<Longrightarrow> endswith (p @ s) ''/'' \<longleftrightarrow> last s = CHR ''/''"
  by (cases s rule: rev_cases) (auto simp: endswith_iff)

lemma no_slash_end: "s \<noteq> [] \<Longrightarrow> CHR ''/'' \<notin> set s \<Longrightarrow> \<not> endswith (p @ s) ''/''"
  by (metis endswith_slash last_in_set)

lemma BuildUri_end:
  assumes "build_ok b" shows "BuildUri b \<noteq> [] \<and> \<not> endswith (BuildUri b) ''/''"
proof -
  have "BuildUri b = (''gs://'' @ bucket b @ ''/'' @ channel b @ ''/'' @ board b @ ''/'') @ version b" by (simp add: BuildUri_def)
  moreover have "version b \<noteq> []" "CHR ''/'' \<notin> set (version b)" using assms by (simp_all add: build_ok_def path_part_def)
  ultimately show ?thesis using no_slash_end by (metis append_is_Nil_conv)
qed

lemma path_join_BuildUri: "build_ok b \<Longrightarrow> \<not> startswith q ''/'' \<Longrightarrow> path_join (BuildUri b) [q] = BuildUri b @ ''/'' @ q"
  using BuildUri_end[of b] by simp

lemma BuildPayloadsUri_join: "build_ok b \<Longrightarrow> BuildPayloadsUri b = BuildUri b @ ''/payloads''"
  unfolding BuildPayloadsUri_def by (subst path_join_BuildUri) (simp_all add: startswith_def)

lemma path_join_payloads:
  assumes "build_ok b" "\<not> startswith q ''/''"
  shows "path_join (BuildPayloadsUri b) [q] = BuildUri b @ ''/payloads/'' @ q"
  using no_slash_end[of "''payloads''" "BuildUri b @ ''/''"] assms by (simp add: BuildPayloadsUri_join)

text \<open>The rules with which a string is shown to match, and what its groups are.\<close>

lemma board_group: "map_of (build_groups b) ''board'' = Some (board b)"
  by (simp add: build_groups_def)

lemma version_group: "map_of (build_groups b) ''version'' = Some (version b)"
  by (simp add: build_groups_def)

lemma map_of_snoc: "map_of g n = Some v \<Longrightarrow> map_of (g @ h) n = Some v"
  by (simp add: map_add_def)

lemma name_part_class: "name_part s \<Longrightarrow> list_all no_underscore s" "name_part s \<Longrightarrow> 1 \<le> length s"
  by (auto simp: name_part_def no_underscore_iff Suc_le_eq)

lemma build_ok_class:
  assumes "build_ok b"
  shows "list_all dot (bucket b)" "list_all dot (channel b)" "list_all dot (board b)" "list_all dot (version b)"
  using assms by (auto simp: build_ok_def path_part_def dot_iff)

section \<open>Images\<close>

definition image_groups :: "gs_build \<Rightarrow> string \<Rightarrow> string \<Rightarrow> string \<Rightarrow> string \<Rightarrow> groups" where
  "image_groups b ver typ chan key =
     (((build_groups b @ [(''image_version'', ver)]) @ [(''image_type'', typ)]) @ [(''image_channel'', chan)]) @ [(''key'', key)]"

lemma IMAGE_matched:
  assumes "build_ok b" "name_part ver" "name_part typ" "name_part chan" "name_part key"
  shows "image_groups b ver typ chan key \<in> set (seq_matches IMAGE_PATTERN []
    (BuildUri b @ ''/chromeos_'' @ ver @ ''_'' @ board b @ ''_'' @ typ @ ''_'' @ chan @ ''_'' @ key @ CHR ''.'' # ''bin'' @ []))"
proof -
  have nl: "CHR ''.'' \<noteq> CHR 0x0A" by simp
  have b: "build_uri b = None" using assms(1) by (simp add: build_ok_def)
  note name = name_part_class[OF assms(2)] name_part_class[OF assms(3)] name_part_class[OF assms(4)] name_part_class[OF assms(5)]
  show ?thesis
    unfolding IMAGE_PATTERN_def name_group_def build_pattern_iff match_iff add_group_def option.case image_groups_def
    by (rule exI conjI disjI1 b refl nl name build_ok_class[OF assms(1)] le0 map_of_snoc board_group)+
qed

lemma IMAGE_match:
  assumes "m \<in> set (seq_matches IMAGE_PATTERN [] u)"
  obtains b ver ty chan key x e where "build_uri b = None" "m = image_groups b ver ty chan key"
    "u = BuildUri b @ ''/chromeos_'' @ ver @ ''_'' @ board b @ ''_'' @ ty @ ''_'' @ chan @ ''_'' @ key @ x # ''bin'' @ e"
    "CHR ''_'' \<notin> set ver" "CHR ''_'' \<notin> set ty" "CHR ''_'' \<notin> set chan" "CHR ''_'' \<notin> set key" "e = [] \<or> e = [CHR 0x0A]"
proof -
  from assms obtain b r0 r1 ver r2 r3 brd r4 r5 ty r6 r7 chan r8 r9 key r10 x r11 e where
    u: "build_uri b = None" "u = BuildUri b @ r0" and r: "r0 = ''/chromeos_'' @ r1" "r1 = ver @ r2" and ver: "list_all no_underscore ver"
    and r': "r2 = ''_'' @ r3" and brd: "map_of (build_groups b @ [(''image_version'', ver)]) ''board'' = Some brd"
    and r'': "r3 = brd @ r4" "r4 = ''_'' @ r5" "r5 = ty @ r6" and ty: "list_all no_underscore ty"
    and r''': "r6 = ''_'' @ r7" "r7 = chan @ r8" and chan: "list_all no_underscore chan"
    and r'''': "r8 = ''_'' @ r9" "r9 = key @ r10" and key: "list_all no_underscore key"
    and x: "r10 = x # r11" "r11 = ''bin'' @ e" and e: "e = [] \<or> e = [CHR 0x0A]"
    and m: "m = (((build_groups b @ [(''image_version'', ver)]) @ [(''image_type'', ty)]) @ [(''image_channel'', chan)]) @ [(''key'', key)]"
    unfolding IMAGE_PATTERN_def name_group_def build_pattern_iff match_iff add_group_def option.case
    by (elim exE conjE) (rule that)
  have "brd = board b" using brd board_group[of b] by (simp add: map_of_snoc)
  then show thesis
    by (intro that[of b ver ty chan key x e])
      (use u r r' r'' r''' r'''' x ver ty chan key e m in \<open>simp_all add: no_underscore_iff image_groups_def\<close>)
qed

text \<open>What follows a separator-free part is determined by the whole, part by part.\<close>

lemma bin_suffix:
  assumes "key @ ''.bin'' = key' @ x # ''bin'' @ e" "e = [] \<or> e = [CHR 0x0A]"
  shows "key' = key"
  using assms(2)
proof
  assume "e = []"
  with assms(1) have "key @ ''.bin'' = key' @ [x, CHR ''b'', CHR ''i'', CHR ''n'']" by simp
  then show ?thesis by (simp add: append_eq_append_conv)
next
  assume "e = [CHR 0x0A]"
  with assms(1) have "last (key @ ''.bin'') = last (key' @ [x, CHR ''b'', CHR ''i'', CHR ''n'', CHR 0x0A])" by simp
  then show ?thesis by simp
qed

definition image_rest :: "string \<Rightarrow> string \<Rightarrow> string \<Rightarrow> string \<Rightarrow> string \<Rightarrow> string" where
  "image_rest ver brd ty chan rest = ''chromeos_'' @ ver @ CHR ''_'' # brd @ CHR ''_'' # ty @ CHR ''_'' # chan @ CHR ''_'' # rest"

lemma image_rest_unique:
  assumes "image_rest ver brd ty chan rest = image_rest ver' brd ty' chan' rest'"
    and "CHR ''_'' \<notin> set ver" "CHR ''_'' \<notin> set ty" "CHR ''_'' \<notin> set chan"
    and "CHR ''_'' \<notin> set ver'" "CHR ''_'' \<notin> set ty'" "CHR ''_'' \<notin> set chan'"
  shows "ver' = ver \<and> ty' = ty \<and> chan' = chan \<and> rest' = rest"
proof -
  have "ver = ver' \<and> brd @ CHR ''_'' # ty @ CHR ''_'' # chan @ CHR ''_'' # rest = brd @ CHR ''_'' # ty' @ CHR ''_'' # chan' @ CHR ''_'' # rest'"
    by (rule append_first_sep[OF assms(2,5)]) (use assms(1) in \<open>simp add: image_rest_def\<close>)
  then have v: "ver = ver'" and ty: "ty @ CHR ''_'' # chan @ CHR ''_'' # rest = ty' @ CHR ''_'' # chan' @ CHR ''_'' # rest'" by simp_all
  have t: "ty = ty' \<and> chan @ CHR ''_'' # rest = chan' @ CHR ''_'' # rest'" by (rule append_first_sep[OF assms(3,6) ty])
  have "chan = chan' \<and> rest = rest'" by (rule append_first_sep[OF assms(4,7) conjunct2[OF t]])
  with v t show ?thesis by simp
qed

lemma re_match_IMAGE:
  assumes b: "build_ok b" and parts: "name_part ver" "name_part ty" "name_part chan" "name_part key"
  shows "re_match IMAGE_PATTERN (BuildUri b @ CHR ''/'' # image_rest ver (board b) ty chan (key @ ''.bin''))
    = Some (image_groups b ver ty chan key)"
proof (rule re_match_unique)
  show "image_groups b ver ty chan key \<in> set (seq_matches IMAGE_PATTERN []
      (BuildUri b @ CHR ''/'' # image_rest ver (board b) ty chan (key @ ''.bin'')))"
    using IMAGE_matched[OF assms] by (simp add: image_rest_def)
next
  fix m
  assume "m \<in> set (seq_matches IMAGE_PATTERN [] (BuildUri b @ CHR ''/'' # image_rest ver (board b) ty chan (key @ ''.bin'')))"
  then obtain b' ver' ty' chan' key' x e where b': "build_uri b' = None" and m: "m = image_groups b' ver' ty' chan' key'"
    and u: "BuildUri b @ CHR ''/'' # image_rest ver (board b) ty chan (key @ ''.bin'') = BuildUri b' @ ''/chromeos_'' @ ver' @ ''_''
        @ board b' @ ''_'' @ ty' @ ''_'' @ chan' @ ''_'' @ key' @ x # ''bin'' @ e"
    and parts': "CHR ''_'' \<notin> set ver'" "CHR ''_'' \<notin> set ty'" "CHR ''_'' \<notin> set chan'"
    and e: "e = [] \<or> e = [CHR 0x0A]"
    by (rule IMAGE_match)
  have "b' = b \<and> [image_rest ver' (board b') ty' chan' (key' @ x # ''bin'' @ e)] = [image_rest ver (board b) ty chan (key @ ''.bin'')]"
    by (rule BuildUri_unique[OF b b'])
      (use u b parts in \<open>auto simp: image_rest_def build_ok_def path_part_def name_part_def\<close>)
  then have [simp]: "b' = b"
    and rest: "image_rest ver' (board b) ty' chan' (key' @ x # ''bin'' @ e) = image_rest ver (board b) ty chan (key @ ''.bin'')"
    by auto
  have "ver' = ver \<and> ty' = ty \<and> chan' = chan \<and> key' @ x # ''bin'' @ e = key @ ''.bin''"
    by (rule image_rest_unique[OF rest[symmetric]]) (use parts parts' in \<open>simp_all add: name_part_def\<close>)
  then show "m = image_groups b ver ty chan key" using bin_suffix[OF _ e, of key key' x] m by simp
qed

lemma ImageUri_rest:
  assumes "build_ok b"
  shows "ImageUri b key ty chan ver = BuildUri b @ CHR ''/''
    # image_rest (or_default ver (version b)) (board b) ty (or_default chan (channel b)) (key @ ''.bin'')"
  unfolding ImageUri_def
  by (subst path_join_BuildUri[OF assms]) (simp_all add: ImageName_def image_rest_def startswith_def)

lemma parsed_image_groups:
  assumes "build_ok b"
  shows "parsed_image u (image_groups b ver ty chan key) = init_image
    \<lparr>image_build = Some b, image_type = Some ty, image_key = Some key, image_channel = Some chan, image_version = Some ver,
     image_uri = Some u\<rparr>"
proof -
  have "build_uri b = None" using assms by (simp add: build_ok_def)
  then show ?thesis
    by (simp add: parsed_image_def image_groups_def build_of_groups_append group_build_groups) (simp add: group_def)
qed

section \<open>Payloads\<close>

definition payload_tail :: "string \<Rightarrow> string \<Rightarrow> string" where
  "payload_tail key rnd = key @ ''.bin'' @ CHR ''-'' # rnd @ ''.signed''"

lemma hex_no_sep: assumes "list_all is_hex s" shows "CHR ''-'' \<notin> set s"
proof
  assume "CHR ''-'' \<in> set s"
  with assms have "is_hex CHR ''-''" by (auto simp: list_all_iff)
  moreover have "\<not> is_hex CHR ''-''" by code_simp
  ultimately show False by blast
qed

lemma payload_tail_unique:
  assumes "payload_tail key rnd = payload_tail key' rnd' @ e" "e = [] \<or> e = [CHR 0x0A]" "CHR ''-'' \<notin> set rnd" "list_all is_hex rnd'"
  shows "key' = key \<and> rnd' = rnd"
  using assms(2)
proof
  assume "e = []"
  with assms(1) have "(key @ ''.bin'') @ CHR ''-'' # rnd @ ''.signed'' = (key' @ ''.bin'') @ CHR ''-'' # rnd' @ ''.signed''"
    by (simp add: payload_tail_def)
  then have "key @ ''.bin'' = key' @ ''.bin'' \<and> rnd @ ''.signed'' = rnd' @ ''.signed''"
    by (rule append_last_sep[rotated 2]) (use assms(3,4) in \<open>simp_all add: hex_no_sep\<close>)
  then show ?thesis by simp
next
  assume "e = [CHR 0x0A]"
  with assms(1) have "last (payload_tail key rnd) = last (payload_tail key' rnd' @ [CHR 0x0A])" by simp
  then show ?thesis by (simp add: payload_tail_def)
qed

text \<open>The file name of a payload is that of an image with the kind of payload in place of the channel.\<close>

lemma payload_end_iff:
  "m \<in> set (seq_matches (payload_end kind) g s) \<longleftrightarrow>
     (\<exists>brd chan key rnd e. map_of g ''board'' = Some brd \<and> 1 \<le> length chan \<and> list_all no_underscore chan
        \<and> 1 \<le> length key \<and> list_all no_underscore key \<and> 1 \<le> length rnd \<and> list_all is_hex rnd \<and> (e = [] \<or> e = [CHR 0x0A])
        \<and> s = ''_'' @ brd @ ''_'' @ chan @ kind @ payload_tail key rnd @ e
        \<and> m = (g @ [(''image_channel'', chan)]) @ [(''key'', key)])"
  (is "?l \<longleftrightarrow> ?r")
proof
  assume ?l
  then obtain r0 brd r1 r2 chan r3 r4 key r5 r6 rnd r7 e where
    s: "s = ''_'' @ r0" "r0 = brd @ r1" "r1 = ''_'' @ r2" "r2 = chan @ r3" "r3 = kind @ r4" "r4 = key @ r5" "r5 = ''.bin-'' @ r6"
      "r6 = rnd @ r7" "r7 = ''.signed'' @ e"
    and c: "map_of g ''board'' = Some brd" "1 \<le> length chan" "list_all no_underscore chan" "1 \<le> length key" "list_all no_underscore key"
      "1 \<le> length rnd" "list_all is_hex rnd" "e = [] \<or> e = [CHR 0x0A]" "m = (g @ [(''image_channel'', chan)]) @ [(''key'', key)]"
    unfolding payload_end_def name_group_def match_iff add_group_def option.case by (elim exE conjE) (rule that)
  have "s = ''_'' @ brd @ ''_'' @ chan @ kind @ payload_tail key rnd @ e" unfolding s by (simp add: payload_tail_def)
  then show ?r
    using c by (intro exI[of _ brd] exI[of _ chan] exI[of _ key] exI[of _ rnd] exI[of _ e] conjI)
next
  assume ?r
  then obtain brd chan key rnd e where c: "map_of g ''board'' = Some brd" "1 \<le> length chan" "list_all no_underscore chan"
      "1 \<le> length key" "list_all no_underscore key" "1 \<le> length rnd" "list_all is_hex rnd" "e = [] \<or> e = [CHR 0x0A]"
      "m = (g @ [(''image_channel'', chan)]) @ [(''key'', key)]"
    and "s = ''_'' @ brd @ ''_'' @ chan @ kind @ payload_tail key rnd @ e"
    by (elim exE conjE) (rule that)
  then have s: "s = ''_'' @ brd @ ''_'' @ chan @ kind @ key @ ''.bin-'' @ rnd @ ''.signed'' @ e"
    by (simp add: payload_tail_def)
  show ?l
    unfolding payload_end_def name_group_def match_iff add_group_def option.case by (rule exI conjI s refl c)+
qed

text \<open>The two patterns differ in the versions of the name and in the kind.\<close>

definition payload_pattern :: "bool \<Rightarrow> pitem list" where
  "payload_pattern delta = (if delta then DELTA_PATTERN else FULL_PATTERN)"

definition kind_name :: "bool \<Rightarrow> string" where
  "kind_name delta = (if delta then ''delta'' else ''full'')"

definition versions_match :: "bool \<Rightarrow> string \<Rightarrow> groups \<Rightarrow> bool" where
  "versions_match delta v g \<longleftrightarrow>
     (if delta then (\<exists>src ver. v = src @ ''-'' @ ver \<and> 1 \<le> length src \<and> list_all no_underscore src \<and> 1 \<le> length ver
        \<and> list_all no_underscore ver \<and> g = [(''src_version'', src), (''image_version'', ver)])
      else 1 \<le> length v \<and> list_all no_underscore v \<and> g = [(''image_version'', v)])"

definition versions_pattern :: "bool \<Rightarrow> pitem list" where
  "versions_pattern delta =
     (if delta then [name_group ''src_version'', Lit ''-'', name_group ''image_version''] else [name_group ''image_version''])"

lemma payload_pattern_split:
  "payload_pattern delta = build_pattern dot 0 @ Lit ''/payloads/chromeos_'' # versions_pattern delta
     @ payload_end (''_'' @ kind_name delta @ ''_'')"
  by (simp add: payload_pattern_def versions_pattern_def kind_name_def FULL_PATTERN_def DELTA_PATTERN_def)

lemma versions_pattern_iff:
  "m \<in> set (seq_matches (versions_pattern delta @ is) g s) \<longleftrightarrow>
     (\<exists>v h r. s = v @ r \<and> versions_match delta v h \<and> m \<in> set (seq_matches is (g @ h) r))"
proof (cases delta)
  case True
  show ?thesis
    unfolding versions_pattern_def versions_match_def if_P[OF True] name_group_def append.simps match_iff add_group_def option.case
    by (auto simp del: seq_matches.simps item_matches.simps) (metis append_assoc append_Cons append_Nil)+
next
  case False
  show ?thesis
    unfolding versions_pattern_def versions_match_def if_not_P[OF False] name_group_def append.simps match_iff add_group_def option.case
    by blast
qed

lemma versions_match_board: "versions_match delta v h \<Longrightarrow> map_of h ''board'' = None"
  by (auto simp: versions_match_def split: if_splits)

definition payload_rest :: "gs_build \<Rightarrow> string \<Rightarrow> string \<Rightarrow> bool \<Rightarrow> string \<Rightarrow> string \<Rightarrow> string" where
  "payload_rest b v chan delta key rnd = image_rest v (board b) chan (kind_name delta) (payload_tail key rnd)"

definition end_groups :: "string \<Rightarrow> string \<Rightarrow> groups" where
  "end_groups chan key = [(''image_channel'', chan), (''key'', key)]"

lemma payload_matched:
  assumes b: "build_ok b" and v: "versions_match delta v h" and parts: "name_part chan" "name_part key"
    and rnd: "rnd \<noteq> []" "list_all is_hex rnd"
  shows "build_groups b @ h @ end_groups chan key
    \<in> set (seq_matches (payload_pattern delta) [] (BuildUri b @ ''/payloads/'' @ payload_rest b v chan delta key rnd))"
proof -
  have u: "BuildUri b @ ''/payloads/'' @ payload_rest b v chan delta key rnd = BuildUri b @ ''/payloads/chromeos_'' @ v
      @ ''_'' @ board b @ ''_'' @ chan @ (''_'' @ kind_name delta @ ''_'') @ payload_tail key rnd @ []"
    by (simp add: payload_rest_def image_rest_def)
  have m: "build_groups b @ h @ end_groups chan key = ((build_groups b @ h) @ [(''image_channel'', chan)]) @ [(''key'', key)]"
    by (simp add: end_groups_def)
  have brd: "map_of (build_groups b @ h) ''board'' = Some (board b)" by (simp add: map_of_snoc board_group)
  have len: "1 \<le> length rnd" and none: "build_uri b = None" using rnd b by (simp_all add: Suc_le_eq build_ok_def)
  show ?thesis
    unfolding payload_pattern_split build_pattern_iff match_iff versions_pattern_iff payload_end_iff
    by (rule exI conjI u m refl none build_ok_class[OF b] le0 v brd len rnd(2) disjI1 name_part_class[OF parts(1)] name_part_class[OF parts(2)])+
qed

lemma payload_match:
  assumes "m \<in> set (seq_matches (payload_pattern delta) [] u)"
  obtains b v h chan key rnd e where "build_uri b = None" "versions_match delta v h" "list_all no_underscore chan" "rnd \<noteq> []" "list_all is_hex rnd"
    "e = [] \<or> e = [CHR 0x0A]" "u = BuildUri b @ ''/payloads/'' @ payload_rest b v chan delta key rnd @ e"
    "m = build_groups b @ h @ end_groups chan key"
proof -
  from assms obtain b r0 r1 v h r2 brd chan key rnd e where
    u: "u = BuildUri b @ r0" "r0 = ''/payloads/chromeos_'' @ r1" "r1 = v @ r2"
      "r2 = ''_'' @ brd @ ''_'' @ chan @ (''_'' @ kind_name delta @ ''_'') @ payload_tail key rnd @ e"
    and brd: "map_of (build_groups b @ h) ''board'' = Some brd" and b: "build_uri b = None" and v: "versions_match delta v h"
    and c: "list_all no_underscore chan" "1 \<le> length rnd" "list_all is_hex rnd" "e = [] \<or> e = [CHR 0x0A]"
    and m: "m = ((build_groups b @ h) @ [(''image_channel'', chan)]) @ [(''key'', key)]"
    unfolding payload_pattern_split build_pattern_iff match_iff versions_pattern_iff payload_end_iff
    by (elim exE conjE) (rule that)
  have "map_of (build_groups b @ h) ''board'' = Some (board b)" by (simp add: map_of_snoc board_group)
  with brd have "brd = board b" by simp
  then have "u = BuildUri b @ ''/payloads/'' @ payload_rest b v chan delta key rnd @ e"
    unfolding u by (simp add: payload_rest_def image_rest_def payload_tail_def)
  then show thesis using m c(2) by (intro that[OF b v c(1) _ c(3,4)]) (auto simp: end_groups_def)
qed

lemma versions_match_no_sep: "versions_match delta v h \<Longrightarrow> CHR ''_'' \<notin> set v"
  by (auto simp: versions_match_def no_underscore_iff split: if_splits)

lemma kind_name_parts [simp]: "CHR ''_'' \<notin> set (kind_name d)" "CHR ''/'' \<notin> set (kind_name d)" "kind_name d = kind_name d' \<longleftrightarrow> d = d'"
  by (auto simp: kind_name_def)

lemma hex_no_slash: assumes "list_all is_hex s" shows "CHR ''/'' \<notin> set s"
proof
  assume "CHR ''/'' \<in> set s"
  with assms have "is_hex CHR ''/''" by (auto simp: list_all_iff)
  moreover have "\<not> is_hex CHR ''/''" by code_simp
  ultimately show False by blast
qed

lemma payload_rest_parts:
  assumes "build_ok b" "CHR ''/'' \<notin> set v" "name_part chan" "name_part key" "CHR ''/'' \<notin> set rnd"
  shows "CHR ''/'' \<notin> set (payload_rest b v chan delta key rnd)"
  using assms
  by (simp add: payload_rest_def image_rest_def payload_tail_def name_part_def build_ok_def path_part_def)

lemma payload_unique:
  assumes b: "build_ok b" and v: "versions_match delta v h" "CHR ''/'' \<notin> set v"
    and parts: "name_part chan" "name_part key" "CHR ''/'' \<notin> set rnd" "CHR ''-'' \<notin> set rnd"
    and b': "build_uri b' = None" and v': "versions_match delta' v' h'" and parts': "list_all no_underscore chan'" "list_all is_hex rnd'"
    and e: "e = [] \<or> e = [CHR 0x0A]"
    and u: "BuildUri b @ ''/payloads/'' @ payload_rest b v chan delta key rnd = BuildUri b' @ ''/payloads/'' @ payload_rest b' v' chan' delta' key' rnd' @ e"
  shows "b' = b \<and> v' = v \<and> delta' = delta \<and> chan' = chan \<and> key' = key \<and> rnd' = rnd"
proof -
  have "b' = b \<and> [''payloads'', payload_rest b' v' chan' delta' key' rnd' @ e] = [''payloads'', payload_rest b v chan delta key rnd]"
    by (rule BuildUri_unique[OF b b']) (use u payload_rest_parts[OF b v(2) parts(1-3)] in auto)
  then have [simp]: "b' = b" and rest: "payload_rest b' v' chan' delta' key' rnd' @ e = payload_rest b v chan delta key rnd" by auto
  have "image_rest v (board b) chan (kind_name delta) (payload_tail key rnd)
      = image_rest v' (board b) chan' (kind_name delta') (payload_tail key' rnd' @ e)"
    using rest by (simp add: payload_rest_def image_rest_def)
  then have eq: "v' = v \<and> chan' = chan \<and> kind_name delta' = kind_name delta \<and> payload_tail key' rnd' @ e = payload_tail key rnd"
    by (rule image_rest_unique)
      (use versions_match_no_sep[OF v(1)] versions_match_no_sep[OF v'] parts parts' in \<open>simp_all add: name_part_def no_underscore_iff\<close>)
  then have "payload_tail key rnd = payload_tail key' rnd' @ e" by simp
  then have "key' = key \<and> rnd' = rnd" using e parts(4) parts'(2) by (rule payload_tail_unique)
  with eq show ?thesis by simp
qed

text \<open>A delta names both versions, which a dash separates.\<close>

definition src_ok :: "string option \<Rightarrow> string \<Rightarrow> bool" where
  "src_ok src ver \<longleftrightarrow> (case src of None \<Rightarrow> True | Some s \<Rightarrow> name_part s \<and> CHR ''-'' \<notin> set s \<and> CHR ''-'' \<notin> set ver)"

definition versions_groups :: "string option \<Rightarrow> string \<Rightarrow> groups" where
  "versions_groups src ver = (case src of None \<Rightarrow> [] | Some s \<Rightarrow> [(''src_version'', s)]) @ [(''image_version'', ver)]"

lemma versions_part_matched:
  assumes "name_part ver" "src_ok src ver"
  shows "versions_match (src \<noteq> None) (versions_part src ver) (versions_groups src ver)" "CHR ''/'' \<notin> set (versions_part src ver)"
    "kind_part src = kind_name (src \<noteq> None)"
  using assms
  by (auto simp: versions_match_def versions_part_def versions_groups_def kind_part_def kind_name_def src_ok_def name_part_def
      no_underscore_iff Suc_le_eq neq_Nil_conv split: option.splits list.splits)

lemma versions_part_unique:
  assumes "name_part ver" "src_ok src ver" "versions_match (src \<noteq> None) (versions_part src ver) h"
  shows "h = versions_groups src ver"
proof (cases src)
  case None
  with assms show ?thesis by (simp add: versions_match_def versions_groups_def versions_part_def)
next
  case (Some s)
  then have s: "s \<noteq> []" "CHR ''-'' \<notin> set s" "CHR ''-'' \<notin> set ver" using assms(2) by (simp_all add: src_ok_def name_part_def)
  have v: "versions_part src ver = s @ CHR ''-'' # ver" using Some s(1) by (simp add: versions_part_def split: list.splits)
  obtain s' ver' where eq: "versions_part src ver = s' @ ''-'' @ ver'" and h: "h = [(''src_version'', s'), (''image_version'', ver')]"
    using assms(3) Some unfolding versions_match_def by auto
  have "[s', ver'] = [s, ver]"
    by (rule join_unique[of "CHR ''-''"]) (use v eq s in auto)
  then show ?thesis using Some h by (simp add: versions_groups_def)
qed

definition payload_groups :: "gs_build \<Rightarrow> string \<Rightarrow> string option \<Rightarrow> string \<Rightarrow> string \<Rightarrow> groups" where
  "payload_groups b ver src chan key = build_groups b @ versions_groups src ver @ end_groups chan key"

lemma re_match_payload:
  assumes b: "build_ok b" and parts: "name_part ver" "src_ok src ver" "name_part chan" "name_part key"
    and rnd: "CHR ''/'' \<notin> set rnd" "CHR ''-'' \<notin> set rnd"
    and u: "u = BuildUri b @ ''/payloads/'' @ payload_rest b (versions_part src ver) chan (src \<noteq> None) key rnd"
  shows "re_match (payload_pattern delta) u 
    = (if delta = (src \<noteq> None) \<and> rnd \<noteq> [] \<and> list_all is_hex rnd then Some (payload_groups b ver src chan key) else None)"
proof -
  note v = versions_part_matched[OF parts(1,2)]
  have uniq: "(delta = (src \<noteq> None) \<and> rnd \<noteq> [] \<and> list_all is_hex rnd) \<and> m = payload_groups b ver src chan key"
    if "m \<in> set (seq_matches (payload_pattern delta) [] u)" for m
  proof -
    from that obtain b' v' h' chan' key' rnd' e where none: "build_uri b' = None" and v': "versions_match delta v' h'"
      and parts': "list_all no_underscore chan'" "rnd' \<noteq> []" "list_all is_hex rnd'" and e: "e = [] \<or> e = [CHR 0x0A]"
      and u': "u = BuildUri b' @ ''/payloads/'' @ payload_rest b' v' chan' delta key' rnd' @ e"
      and m: "m = build_groups b' @ h' @ end_groups chan' key'"
      by (rule payload_match)
    have eq: "b' = b \<and> v' = versions_part src ver \<and> delta = (src \<noteq> None) \<and> chan' = chan \<and> key' = key \<and> rnd' = rnd"
      by (rule payload_unique[OF b v(1,2) parts(3,4) rnd none v' parts'(1,3) e trans[OF u[symmetric] u']])
    then have "h' = versions_groups src ver" using v' parts(1,2) by (auto intro: versions_part_unique)
    with eq m parts'(2,3) show ?thesis by (simp add: payload_groups_def)
  qed
  show ?thesis
  proof (cases "delta = (src \<noteq> None) \<and> rnd \<noteq> [] \<and> list_all is_hex rnd")
    case True
    then have delta: "delta = (src \<noteq> None)" and hex: "rnd \<noteq> []" "list_all is_hex rnd" by simp_all
    have "payload_groups b ver src chan key \<in> set (seq_matches (payload_pattern delta) [] u)"
      unfolding payload_groups_def u delta by (rule payload_matched[OF b v(1) parts(3,4) hex])
    then have "re_match (payload_pattern delta) u = Some (payload_groups b ver src chan key)"
      by (rule re_match_unique) (drule uniq, rule conjunct2)
    with True show ?thesis by simp
  next
    case False
    then have "m \<notin> set (seq_matches (payload_pattern delta) [] u)" for m using uniq by blast
    then have "re_match (payload_pattern delta) u = None" by (rule re_match_none)
    with False show ?thesis by (rule trans[OF _ if_not_P[symmetric], rotated])
  qed
qed

lemma PayloadUri_rest:
  assumes "build_ok b" "src_ok src (if_none ver (version b))" "key \<noteq> []"
  shows "PayloadUri b rnd (Some key) chan ver src = BuildUri b @ ''/payloads/''
    @ payload_rest b (versions_part src (if_none ver (version b))) (if_none chan (channel b)) (src \<noteq> None) key rnd"
proof -
  obtain c cs where key: "key = c # cs" using assms(3) by (cases key) auto
  have kind: "kind_part src = kind_name (src \<noteq> None)"
    using assms(2) by (auto simp: src_ok_def name_part_def kind_part_def kind_name_def split: option.splits list.splits)
  show ?thesis
    unfolding PayloadUri_def
    by (subst path_join_payloads[OF assms(1)])
      (simp_all add: PayloadName_def signed_payload_name_def payload_rest_def image_rest_def payload_tail_def kind key or_default_def
        startswith_def)
qed

lemma payload_groups_values:
  assumes "build_uri b = None"
  shows "build_of_groups (payload_groups b ver src chan key) = b" "group (payload_groups b ver src chan key) ''image_version'' = ver"
    "group (payload_groups b ver src chan key) ''image_channel'' = chan" "group (payload_groups b ver src chan key) ''key'' = key"
    "src = Some s \<Longrightarrow> group (payload_groups b ver src chan key) ''src_version'' = s"
  using assms unfolding payload_groups_def
  by (simp_all add: build_of_groups_append group_build_groups)
    (auto simp: versions_groups_def end_groups_def group_def split: option.splits)

section \<open>Unsigned images and DLC images\<close>

lemma DLC_match:
  assumes "m \<in> set (seq_matches DLC_PATTERN [] u)"
  obtains b x y z e where "build_uri b = None" "e = [] \<or> e = [CHR 0x0A]"
    "u = BuildUri b @ ''/dlc/'' @ x @ ''/'' @ y @ ''/'' @ z @ e"
    "m = build_groups b @ [(''dlc_id'', x), (''dlc_package'', y), (''dlc_image'', z)]"
proof -
  from assms obtain b r0 r1 x r2 r3 y r4 r5 z e where
    b: "build_uri b = None" and e: "e = [] \<or> e = [CHR 0x0A]"
    and u: "u = BuildUri b @ r0" "r0 = ''/dlc/'' @ r1" "r1 = x @ r2" "r2 = ''/'' @ r3" "r3 = y @ r4" "r4 = ''/'' @ r5" "r5 = z @ e"
    and m: "m = ((build_groups b @ [(''dlc_id'', x)]) @ [(''dlc_package'', y)]) @ [(''dlc_image'', z)]"
    unfolding DLC_PATTERN_def build_pattern_iff match_iff add_group_def option.case by (elim exE conjE) (rule that)
  from u m show thesis by (intro that[OF b e]) simp_all
qed

lemma re_match_DLC:
  assumes b: "build_ok b" and parts: "path_part x" "path_part y" "path_part z"
  shows "re_match DLC_PATTERN (BuildUri b @ ''/dlc/'' @ x @ ''/'' @ y @ ''/'' @ z)
    = Some (build_groups b @ [(''dlc_id'', x), (''dlc_package'', y), (''dlc_image'', z)])"
proof (rule re_match_unique)
  have none: "build_uri b = None" using b by (simp add: build_ok_def)
  have u: "BuildUri b @ ''/dlc/'' @ x @ ''/'' @ y @ ''/'' @ z = BuildUri b @ ''/dlc/'' @ x @ ''/'' @ y @ ''/'' @ z @ []" by simp
  have m: "build_groups b @ [(''dlc_id'', x), (''dlc_package'', y), (''dlc_image'', z)]
      = ((build_groups b @ [(''dlc_id'', x)]) @ [(''dlc_package'', y)]) @ [(''dlc_image'', z)]" by simp
  have dots: "list_all dot x" "list_all dot y" "list_all dot z" using parts by (simp_all add: path_part_def dot_iff)
  show "build_groups b @ [(''dlc_id'', x), (''dlc_package'', y), (''dlc_image'', z)]
      \<in> set (seq_matches DLC_PATTERN [] (BuildUri b @ ''/dlc/'' @ x @ ''/'' @ y @ ''/'' @ z))"
    unfolding DLC_PATTERN_def build_pattern_iff match_iff add_group_def option.case
    by (rule exI conjI u m refl none build_ok_class[OF b] le0 dots disjI1)+
next
  fix m
  assume "m \<in> set (seq_matches DLC_PATTERN [] (BuildUri b @ ''/dlc/'' @ x @ ''/'' @ y @ ''/'' @ z))"
  then obtain b' x' y' z' e where b': "build_uri b' = None" and e: "e = [] \<or> e = [CHR 0x0A]"
    and u: "BuildUri b @ ''/dlc/'' @ x @ ''/'' @ y @ ''/'' @ z = BuildUri b' @ ''/dlc/'' @ x' @ ''/'' @ y' @ ''/'' @ z' @ e"
    and m: "m = build_groups b' @ [(''dlc_id'', x'), (''dlc_package'', y'), (''dlc_image'', z')]"
    by (rule DLC_match)
  have eq: "b' = b \<and> [''dlc'', x', y', z' @ e] = [''dlc'', x, y, z]"
    by (rule BuildUri_unique[OF b b']) (use u parts in \<open>auto simp: path_part_def\<close>)
  moreover have "e = []" using e eq parts(3) by (auto simp: path_part_def)
  ultimately show "m = build_groups b @ [(''dlc_id'', x), (''dlc_package'', y), (''dlc_image'', z)]" using m by simp
qed

lemma DLCImageUri_parts:
  assumes "build_ok b" "path_part x" "path_part y" "path_part z"
  shows "DLCImageUri b x y z = BuildUri b @ ''/dlc/'' @ x @ ''/'' @ y @ ''/'' @ z"
proof -
  have start: "\<not> startswith s ''/''" "\<not> endswith (p @ s) ''/''" "p @ s \<noteq> []" if "path_part s" for p s
    using that no_slash_end[of s p] by (auto simp: path_part_def startswith_iff)
  have "path_part ''dlc''" by (simp add: path_part_def)
  note dlc = start(1)[OF this] start(2,3)[OF this, of "BuildUri b @ ''/''"]
  show ?thesis
    unfolding DLCImageUri_def
    using BuildUri_end[OF assms(1)] dlc start(1)[OF assms(2)] start(2,3)[OF assms(2), of "BuildUri b @ ''/dlc/''"]
      start(1)[OF assms(3)] start(2,3)[OF assms(3), of "BuildUri b @ ''/dlc/'' @ x @ ''/''"] start(1)[OF assms(4)]
    by simp
qed

lemma UNSIGNED_match:
  assumes "m \<in> set (seq_matches UNSIGNED_PATTERN [] u)"
  obtains b ty d rest where "build_uri b = None" "ty \<in> set UNSIGNED_IMAGE_TYPES" "list_all is_digit d"
    "u = BuildUri b @ ''/ChromeOS-'' @ ty @ ''-R'' @ d @ CHR ''-'' # rest"
    "m = build_groups b @ [(''image_type'', ty), (''milestone'', d)]"
proof -
  from assms obtain b r0 r1 ty r2 r3 d r4 rest where
    b: "build_uri b = None" and ty: "ty \<in> set UNSIGNED_IMAGE_TYPES" and d: "list_all is_digit d"
    and u: "u = BuildUri b @ r0" "r0 = ''/ChromeOS-'' @ r1" "r1 = ty @ r2" "r2 = ''-R'' @ r3" "r3 = d @ r4" "r4 = ''-'' @ rest"
    and m: "m \<in> set (seq_matches [Ref ''version'', Lit ''-'', Ref ''board'', AnyChar, Lit ''tar'', AnyChar, Lit ''xz'']
        ((build_groups b @ [(''image_type'', ty)]) @ [(''milestone'', d)]) rest)"
    unfolding UNSIGNED_PATTERN_def build_pattern_iff match_Lit match_Choice match_Run add_group_def option.case
    by (elim exE conjE) (rule that)
  from m have "m = build_groups b @ [(''image_type'', ty), (''milestone'', d)]"
    unfolding match_iff by (elim exE conjE) simp
  then show thesis using u by (intro that[OF b ty d]) simp_all
qed

lemma UNSIGNED_types: "ty \<in> set UNSIGNED_IMAGE_TYPES \<Longrightarrow> CHR ''-'' \<notin> set ty \<and> CHR ''/'' \<notin> set ty"
  by (auto simp: UNSIGNED_IMAGE_TYPES_def)

lemma digits_no_sep: assumes "list_all is_digit d" shows "CHR ''-'' \<notin> set d" "CHR ''/'' \<notin> set d"
proof -
  have "\<not> is_digit CHR ''-''" "\<not> is_digit CHR ''/''" by code_simp+
  with assms show "CHR ''-'' \<notin> set d" "CHR ''/'' \<notin> set d" by (auto simp: list_all_iff)
qed

lemma re_match_UNSIGNED:
  assumes b: "build_ok b" and ty: "ty \<in> set UNSIGNED_IMAGE_TYPES" and d: "d \<noteq> []" "list_all is_digit d"
    and u: "u = BuildUri b @ CHR ''/'' # ''ChromeOS-'' @ ty @ ''-R'' @ d @ CHR ''-'' # version b @ ''-'' @ board b @ ''.tar.xz''"
  shows "re_match UNSIGNED_PATTERN u = Some (build_groups b @ [(''image_type'', ty), (''milestone'', d)])"
proof (rule re_match_unique)
  let ?g = "(build_groups b @ [(''image_type'', ty)]) @ [(''milestone'', d)]"
  have u': "u = BuildUri b @ ''/ChromeOS-'' @ ty @ ''-R'' @ d @ ''-'' @ version b @ ''-'' @ board b @ CHR ''.'' # ''tar'' @ CHR ''.'' # ''xz'' @ []"
    using u by simp
  have m: "build_groups b @ [(''image_type'', ty), (''milestone'', d)] = ?g" by simp
  have none: "build_uri b = None" and parts: "1 \<le> length (bucket b)" "1 \<le> length (channel b)" "1 \<le> length (board b)" "1 \<le> length (version b)"
      "list_all no_slash (bucket b)" "list_all no_slash (channel b)" "list_all no_slash (board b)" "list_all no_slash (version b)"
    using b by (simp_all add: build_ok_def path_part_def no_slash_iff Suc_le_eq)
  have g: "map_of ?g ''version'' = Some (version b)" "map_of ?g ''board'' = Some (board b)"
    by (intro map_of_snoc version_group board_group)+
  have misc: "CHR ''.'' \<noteq> CHR 0x0A" "1 \<le> length d" using d(1) by (simp_all add: Suc_le_eq)
  show "build_groups b @ [(''image_type'', ty), (''milestone'', d)] \<in> set (seq_matches UNSIGNED_PATTERN [] u)"
    unfolding UNSIGNED_PATTERN_def build_pattern_iff match_iff add_group_def option.case
    by (rule exI conjI u' refl m none parts ty misc d(2) g)+
next
  fix m
  assume "m \<in> set (seq_matches UNSIGNED_PATTERN [] u)"
  then obtain b' ty' d' rest where b': "build_uri b' = None" and ty': "ty' \<in> set UNSIGNED_IMAGE_TYPES" and d': "list_all is_digit d'"
    and u': "u = BuildUri b' @ ''/ChromeOS-'' @ ty' @ ''-R'' @ d' @ CHR ''-'' # rest"
    and m: "m = build_groups b' @ [(''image_type'', ty'), (''milestone'', d')]"
    by (rule UNSIGNED_match)
  have "b' = b \<and> [''ChromeOS-'' @ ty' @ ''-R'' @ d' @ CHR ''-'' # rest]
      = [''ChromeOS-'' @ ty @ ''-R'' @ d @ CHR ''-'' # version b @ ''-'' @ board b @ ''.tar.xz'']"
    by (rule BuildUri_unique[OF b b'])
      (use u u' UNSIGNED_types[OF ty] digits_no_sep[OF d(2)] b in \<open>auto simp: build_ok_def path_part_def\<close>)
  then have [simp]: "b' = b" and rest: "ty @ CHR ''-'' # CHR ''R'' # d @ CHR ''-'' # version b @ ''-'' @ board b @ ''.tar.xz''
      = ty' @ CHR ''-'' # CHR ''R'' # d' @ CHR ''-'' # rest" by auto
  have t: "ty = ty' \<and> CHR ''R'' # d @ CHR ''-'' # version b @ ''-'' @ board b @ ''.tar.xz'' = CHR ''R'' # d' @ CHR ''-'' # rest"
    using UNSIGNED_types[OF ty] UNSIGNED_types[OF ty'] rest by (intro append_first_sep) auto
  then have "d @ CHR ''-'' # version b @ ''-'' @ board b @ ''.tar.xz'' = d' @ CHR ''-'' # rest" by simp
  with digits_no_sep(1)[OF d(2)] digits_no_sep(1)[OF d'] have "d = d' \<and> version b @ ''-'' @ board b @ ''.tar.xz'' = rest"
    by (rule append_first_sep)
  with t m show "m = build_groups b @ [(''image_type'', ty), (''milestone'', d)]" by simp
qed

lemma UnsignedImageUri_parts:
  "build_ok b \<Longrightarrow> UnsignedImageUri b (CHR ''R'' # d) ty
     = BuildUri b @ CHR ''/'' # ''ChromeOS-'' @ ty @ ''-R'' @ d @ CHR ''-'' # version b @ ''-'' @ board b @ ''.tar.xz''"
  unfolding UnsignedImageUri_def
  by (subst path_join_BuildUri) (simp_all add: UnsignedImageArchiveName_def startswith_def)

section \<open>Round trips\<close>

lemma init_image_eq:
  "ty \<noteq> Some [] \<Longrightarrow> init_image \<lparr>image_build = Some b, image_type = ty, image_key = key, image_channel = chan, image_version = ver, image_uri = u\<rparr>
   = \<lparr>image_build = Some b, image_type = Some (case ty of Some t \<Rightarrow> t | None \<Rightarrow> ''recovery''), image_key = key,
      image_channel = (if chan = Some (channel b) then None else chan), image_version = (if ver = Some (version b) then None else ver),
      image_uri = u\<rparr>"
  by (simp add: init_image_def clear_if_default_def DEFAULT_IMAGE_TYPE_def split: option.splits)

text \<open>C24. For a build and name parts without the separators, the URI of an image parses as that image: its
  build, type and key, and channel and version where they differ from those of the build; as a MiniOS image
  it is the same and marked as such.\<close>

theorem image_uri_roundtrip:
  assumes "build_ok b" "name_part key" "name_part ty" "name_part (or_default chan (channel b))" "name_part (or_default ver (version b))"
  shows "let u = ImageUri b key ty chan ver; c = or_default chan (channel b); v = or_default ver (version b);
      i = \<lparr>image_build = Some b, image_type = Some ty, image_key = Some key,
            image_channel = (if c = channel b then None else Some c), image_version = (if v = version b then None else Some v),
            image_uri = Some u\<rparr>
    in ParseImageUri u = Some i \<and> ParseMiniOSImageUri u = Some (image.extend i (minios_image.fields True))"
proof -
  have "ty \<noteq> []" using assms(3) by (simp add: name_part_def)
  then show ?thesis
    unfolding ImageUri_rest[OF assms(1)] Let_def ParseImageUri_def ParseMiniOSImageUri_def
      re_match_IMAGE[OF assms(1,5,3,4,2)] parsed_image_groups[OF assms(1)] option.map
    by (simp add: init_image_eq)
qed

definition example_build :: gs_build where
  "example_build = \<lparr>bucket = ''chromeos-releases'', channel = ''stable-channel'', board = ''x86_mario'', version = ''4731.72.0'', build_uri = None\<rparr>"

lemma example_build_ok: "build_ok example_build" "name_part (or_default None (channel example_build))"
    "name_part (or_default (Some ''4731.72.1'') (version example_build))" "name_part ''mp-v3''" "name_part ''recovery''"
  by (simp_all add: example_build_def build_ok_def path_part_def name_part_def or_default_def)

lemma image_uri_roundtrip_witness:
  "ParseImageUri (ImageUri example_build ''mp-v3'' ''recovery'' None (Some ''4731.72.1'')) = Some
     \<lparr>image_build = Some example_build, image_type = Some ''recovery'', image_key = Some ''mp-v3'', image_channel = None,
      image_version = Some ''4731.72.1'',
      image_uri = Some ''gs://chromeos-releases/stable-channel/x86_mario/4731.72.0/chromeos_4731.72.1_x86_mario_recovery_stable-channel_mp-v3.bin''\<rparr>"
proof -
  have u: "ImageUri example_build ''mp-v3'' ''recovery'' None (Some ''4731.72.1'')
      = ''gs://chromeos-releases/stable-channel/x86_mario/4731.72.0/chromeos_4731.72.1_x86_mario_recovery_stable-channel_mp-v3.bin''"
    by code_simp
  show ?thesis
    using image_uri_roundtrip[OF example_build_ok(1,4,5,2,3)] unfolding Let_def u
    by (simp add: example_build_def or_default_def)
qed

text \<open>The URIs of unsigned image archives and of DLC images parse as what they were made from; an
  unsigned image has one of the known types and a milestone of R and digits.\<close>

theorem unsigned_and_dlc_roundtrip:
  assumes b: "build_ok b" and ty: "ty \<in> set UNSIGNED_IMAGE_TYPES" and d: "d \<noteq> []" "list_all is_digit d"
    and parts: "path_part did" "path_part pkg" "path_part img"
  shows "ParseUnsignedImageUri (UnsignedImageUri b (CHR ''R'' # d) ty) = Some
      \<lparr>unsigned_build = Some b, unsigned_milestone = Some (CHR ''R'' # d), unsigned_type = Some ty,
       unsigned_uri = Some (UnsignedImageUri b (CHR ''R'' # d) ty)\<rparr>
    \<and> ParseDLCImageUri (DLCImageUri b did pkg img) = Some (image.extend
      \<lparr>image_build = Some b, image_type = Some ''recovery'', image_key = None, image_channel = None, image_version = None,
       image_uri = Some (DLCImageUri b did pkg img)\<rparr> (dlc_image.fields (Some did) (Some pkg) (Some img)))"
proof (rule conjI)
  have none: "build_uri b = None" using b by (simp add: build_ok_def)
  note vals = build_of_groups_append[OF none] group_build_groups
  show "ParseUnsignedImageUri (UnsignedImageUri b (CHR ''R'' # d) ty) = Some
      \<lparr>unsigned_build = Some b, unsigned_milestone = Some (CHR ''R'' # d), unsigned_type = Some ty,
       unsigned_uri = Some (UnsignedImageUri b (CHR ''R'' # d) ty)\<rparr>"
    unfolding ParseUnsignedImageUri_def re_match_UNSIGNED[OF b ty d UnsignedImageUri_parts[OF b]]
    by (simp add: vals) (simp add: group_def)
  show "ParseDLCImageUri (DLCImageUri b did pkg img) = Some (image.extend
      \<lparr>image_build = Some b, image_type = Some ''recovery'', image_key = None, image_channel = None, image_version = None,
       image_uri = Some (DLCImageUri b did pkg img)\<rparr> (dlc_image.fields (Some did) (Some pkg) (Some img)))"
    unfolding ParseDLCImageUri_def DLCImageUri_parts[OF b parts] re_match_DLC[OF b parts]
    by (simp add: vals) (simp add: group_def init_image_eq)
qed

lemma unsigned_and_dlc_roundtrip_witness:
  "ParseUnsignedImageUri (UnsignedImageUri example_build ''R19'' ''test'') = Some
     \<lparr>unsigned_build = Some example_build, unsigned_milestone = Some ''R19'', unsigned_type = Some ''test'',
      unsigned_uri = Some (UnsignedImageUri example_build ''R19'' ''test'')\<rparr>"
proof (rule conjunct1[OF unsigned_and_dlc_roundtrip[OF example_build_ok(1)]])
  show "''test'' \<in> set UNSIGNED_IMAGE_TYPES" "list_all is_digit ''19''" by code_simp+
  show "path_part ''sample-dlc''" "path_part ''package''" "path_part ''dlc.img''" by (simp_all add: path_part_def)
qed simp

section \<open>Names with a generated random part\<close>

lemma b32_quantum_chars: "set (b32_quantum bs k) \<subseteq> set B32_ALPHABET \<union> {CHR ''=''}"
proof -
  have "B32_ALPHABET ! nat (v mod 32) \<in> set B32_ALPHABET" for v :: int
    by (rule nth_mem) (simp add: B32_ALPHABET_def nat_less_iff)
  then show ?thesis by (auto simp: b32_quantum_def)
qed

lemma b32encode_chars: "set (b32encode bs) \<subseteq> set B32_ALPHABET \<union> {CHR ''=''}"
  by (induction bs rule: b32encode.induct) (use b32_quantum_chars in auto)

lemma length_b32_quantum [simp]: "k \<le> 8 \<Longrightarrow> length (b32_quantum bs k) = 8"
  by (simp add: b32_quantum_def)

lemma length_b32encode: "length (b32encode bs) = 8 * ((length bs + 4) div 5)"
proof (induction bs rule: b32encode.induct)
  case (6 a b c d e bs)
  have "(9 + length bs) div 5 = (length bs + 4 + 5) div 5" by (simp add: add.commute)
  also have "\<dots> = (length bs + 4) div 5 + 1" by (rule div_add_self2) simp
  finally show ?case using 6 by simp
qed simp_all

lemma bytes_val_top:
  assumes "0 \<le> a" "a < 256" "\<forall>x\<in>set [b, c, d, e]. 0 \<le> x \<and> x < 256"
  shows "bytes_val [a, b, c, d, e] div 32 ^ 7 = a div 8"
proof -
  define r where "r = ((b * 256 + c) * 256 + d) * 256 + e"
  have r: "0 \<le> r" "r < 4294967296" using assms(3) by (simp_all add: r_def)
  have "bytes_val [a, b, c, d, e] = a * 4294967296 + r" by (simp add: bytes_val_def r_def)
  moreover have "(a * 4294967296 + r) div 4294967296 = a" using r by simp
  moreover have "(a * 4294967296 + r) div (4294967296 * 8) = (a * 4294967296 + r) div 4294967296 div 8"
    by (rule zdiv_zmult2_eq) simp
  ultimately show ?thesis by simp
qed

lemma hex_bytes_hex: "list_all (\<lambda>x. x \<in> {48..57} \<union> {97..102}) (hex_bytes n)" "hex_bytes n \<noteq> []"
proof (induction n rule: hex_bytes.induct)
  case (1 n)
  {
    case 1
    then show ?case using "1.IH"(1) by (subst hex_bytes.simps) (auto simp: list_all_iff)
  next
    case 2
    then show ?case by (subst hex_bytes.simps) simp
  }
qed

lemma GetRandomString_start:
  assumes "length bytes = 16" "list_all (\<lambda>x. 0 \<le> x \<and> x < 256) bytes"
  shows "\<exists>c cs. GetRandomString time bytes = c # cs \<and> \<not> is_hex c"
proof -
  obtain a hs where hex: "hex_bytes time = a # hs" using hex_bytes_hex(2)[of time] by (cases "hex_bytes time") auto
  have a: "a \<in> {48..57} \<union> {97..102}" and hs: "list_all (\<lambda>x. 0 \<le> x \<and> x < 256) hs"
    using hex_bytes_hex(1)[of time] hex by (auto simp: list_all_iff)
  have "4 \<le> length (hs @ bytes)" using assms(1) by simp
  then obtain b c d e r where rest: "hs @ bytes = b # c # d # e # r"
    by (cases "hs @ bytes" rule: list.exhaust; cases "tl (hs @ bytes)"; cases "tl (tl (hs @ bytes))"; cases "tl (tl (tl (hs @ bytes)))") auto
  have "list_all (\<lambda>x. 0 \<le> x \<and> x < 256) (hs @ bytes)" using hs assms(2) by simp
  then have small: "\<forall>x\<in>set [b, c, d, e]. 0 \<le> x \<and> x < 256" unfolding rest by simp
  let ?x = "lower_char (B32_ALPHABET ! nat (a div 8 mod 32))"
  have "b32encode (hex_bytes time @ bytes) = b32_quantum [a, b, c, d, e] 8 @ b32encode r"
    unfolding hex append_Cons rest by simp
  moreover have "b32_quantum [a, b, c, d, e] 8 = B32_ALPHABET ! nat (a div 8 mod 32) # tl (b32_quantum [a, b, c, d, e] 8)"
    using bytes_val_top[OF _ _ small, of a] a by (auto simp: b32_quantum_def upt_conv_Cons)
  ultimately obtain t where "b32encode (hex_bytes time @ bytes) = B32_ALPHABET ! nat (a div 8 mod 32) # t" by (metis append_Cons)
  then have start: "GetRandomString time bytes = ?x # map lower_char (take 31 t)" by (simp add: GetRandomString_def)
  have "a div 8 \<in> {6, 7, 12}" using a by auto
  then have "\<not> is_hex ?x" by (elim insertE emptyE) (simp_all, code_simp+)
  then show ?thesis unfolding start by blast
qed

lemma GetRandomString_chars: "CHR ''/'' \<notin> set (GetRandomString time bytes)" "CHR ''-'' \<notin> set (GetRandomString time bytes)"
proof -
  have "set (GetRandomString time bytes) \<subseteq> lower_char ` (set B32_ALPHABET \<union> {CHR ''=''})"
    unfolding GetRandomString_def set_map using b32encode_chars set_take_subset by (metis image_mono order_trans)
  moreover have "CHR ''/'' \<notin> lower_char ` (set B32_ALPHABET \<union> {CHR ''=''})" "CHR ''-'' \<notin> lower_char ` (set B32_ALPHABET \<union> {CHR ''=''})"
    by code_simp+
  ultimately show "CHR ''/'' \<notin> set (GetRandomString time bytes)" "CHR ''-'' \<notin> set (GetRandomString time bytes)" by blast+
qed

lemma length_GetRandomString:
  assumes "length bytes = 16" shows "length (GetRandomString time bytes) = 32"
proof -
  have "5 * 4 \<le> length (hex_bytes time @ bytes) + 4" using assms hex_bytes_hex(2)[of time] by (cases "hex_bytes time") auto
  then have "4 \<le> (length (hex_bytes time @ bytes) + 4) div 5" by linarith
  then show ?thesis by (simp add: GetRandomString_def length_b32encode min_def)
qed

text \<open>C23. The URI of a signed full or delta payload of a build, for name parts without the separators: its key,
  channel and versions have no underscore and no slash, the versions of a delta no hyphen, and the random part no
  slash and no hyphen. It parses if and only if the random part is a non-empty string of hexadecimal digits, and then as the
  payload that was named: the target has the build, the key, the channel and the version of the URI, a delta has
  as source the build of its source version, a full payload has none, and the payload has the build of its
  target. A random part that the program generates itself (from any time and any 16 random bytes) has 32
  characters that are not all hexadecimal, so the URI of a payload named with it is never parsed.\<close>

theorem payload_uri_roundtrip:
  assumes "build_ok b" "name_part key" "name_part (if_none chan (channel b))" "name_part (if_none ver (version b))"
    and "src_ok src (if_none ver (version b))" "CHR ''/'' \<notin> set rnd" "CHR ''-'' \<notin> set rnd"
  shows "ParsePayloadUri (PayloadUri b rnd (Some key) chan ver src) = (if rnd \<noteq> [] \<and> list_all is_hex rnd then Some
    \<lparr>tgt_image = SignedImage \<lparr>image_build = Some b, image_type = Some ''recovery'', image_key = Some key,
        image_channel = (if if_none chan (channel b) = channel b then None else Some (if_none chan (channel b))),
        image_version = (if if_none ver (version b) = version b then None else Some (if_none ver (version b))), image_uri = None\<rparr>,
     src_image = map_option (\<lambda>s. SignedImage \<lparr>image_build = Some (b\<lparr>version := s\<rparr>), image_type = Some ''recovery'',
        image_key = None, image_channel = None, image_version = None, image_uri = None\<rparr>) src,
     payload_build = Some b, payload_uri = Some (PayloadUri b rnd (Some key) chan ver src), payload_exists = False, payload_minios = None\<rparr>
     else None)
   \<and> (length bytes = 16 \<and> list_all (\<lambda>x. 0 \<le> x \<and> x < 256) bytes
       \<longrightarrow> length (GetRandomString time bytes) = 32
         \<and> ParsePayloadUri (PayloadUri b (GetRandomString time bytes) (Some key) chan ver src) = None)"
proof (intro conjI impI)
  let ?g = "payload_groups b (if_none ver (version b)) src (if_none chan (channel b)) key"
  have none: "build_uri b = None" and key: "key \<noteq> []" using assms(1,2) by (simp_all add: build_ok_def name_part_def)
  have m: "re_match (payload_pattern delta) (PayloadUri b r (Some key) chan ver src)
      = (if delta = (src \<noteq> None) \<and> r \<noteq> [] \<and> list_all is_hex r then Some ?g else None)"
    if "CHR ''/'' \<notin> set r" "CHR ''-'' \<notin> set r" for r delta
    by (rule re_match_payload[OF assms(1,4,5,3,2) that PayloadUri_rest[OF assms(1,5) key]])
  note pats = m[of _ False, unfolded payload_pattern_def] m[of _ True, unfolded payload_pattern_def]
  have image: "build_of (SignedImage (payload_target ?g)) = Some b"
    by (simp add: build_of_def payload_target_def payload_groups_values[OF none] init_image_eq)
  show "ParsePayloadUri (PayloadUri b rnd (Some key) chan ver src) = (if rnd \<noteq> [] \<and> list_all is_hex rnd then Some
    \<lparr>tgt_image = SignedImage \<lparr>image_build = Some b, image_type = Some ''recovery'', image_key = Some key,
        image_channel = (if if_none chan (channel b) = channel b then None else Some (if_none chan (channel b))),
        image_version = (if if_none ver (version b) = version b then None else Some (if_none ver (version b))), image_uri = None\<rparr>,
     src_image = map_option (\<lambda>s. SignedImage \<lparr>image_build = Some (b\<lparr>version := s\<rparr>), image_type = Some ''recovery'',
        image_key = None, image_channel = None, image_version = None, image_uri = None\<rparr>) src,
     payload_build = Some b, payload_uri = Some (PayloadUri b rnd (Some key) chan ver src), payload_exists = False, payload_minios = None\<rparr>
     else None)"
  proof (cases "rnd \<noteq> [] \<and> list_all is_hex rnd")
    case True
    then show ?thesis
      using pats[OF assms(6,7)] image
      by (cases src)
        (simp_all add: ParsePayloadUri_def Payload_def payload_target_def payload_source_def payload_groups_values[OF none] init_image_eq)
  next
    case False
    then have "re_match FULL_PATTERN (PayloadUri b rnd (Some key) chan ver src) = None"
        "re_match DELTA_PATTERN (PayloadUri b rnd (Some key) chan ver src) = None"
      using pats[OF assms(6,7)] by auto
    then show ?thesis by (simp add: ParsePayloadUri_def if_not_P[OF False])
  qed
  assume bytes: "length bytes = 16 \<and> list_all (\<lambda>x. 0 \<le> x \<and> x < 256) bytes"
  then show "length (GetRandomString time bytes) = 32" by (simp add: length_GetRandomString)
  have "\<not> list_all is_hex (GetRandomString time bytes)" using GetRandomString_start[of bytes time] bytes by auto
  then show "ParsePayloadUri (PayloadUri b (GetRandomString time bytes) (Some key) chan ver src) = None"
    using pats[OF GetRandomString_chars] by (simp add: ParsePayloadUri_def)
qed

lemma payload_uri_roundtrip_witness:
  "map_option (\<lambda>p. (map_option any_image_str (src_image p), payload_build p))
     (ParsePayloadUri (PayloadUri example_build ''3a90d8'' (Some ''mp-v3'') None None (Some ''4537.147.0'')))
     = Some (Some (Inr ''Image: chromeos-releases:x86_mario/stable-channel/4537.147.0/recovery/None (no uri)''), Some example_build)
   \<and> ParsePayloadUri (PayloadUri example_build (GetRandomString 1700000000 (replicate 16 171)) (Some ''mp-v3'') None None
       (Some ''4537.147.0'')) = None"
proof -
  have parts: "name_part (if_none None (channel example_build))" "name_part (if_none None (version example_build))"
      "src_ok (Some ''4537.147.0'') (if_none None (version example_build))" "CHR ''/'' \<notin> set ''3a90d8''" "CHR ''-'' \<notin> set ''3a90d8''"
    by (simp_all add: example_build_def name_part_def if_none_def src_ok_def)
  have hex: "list_all is_hex ''3a90d8''" by code_simp
  note run = payload_uri_roundtrip[OF example_build_ok(1,4) parts, of "replicate 16 171" 1700000000]
  have "ParsePayloadUri (PayloadUri example_build (GetRandomString 1700000000 (replicate 16 171)) (Some ''mp-v3'') None None
       (Some ''4537.147.0'')) = None"
    by (rule run[THEN conjunct2, THEN mp, THEN conjunct2]) (simp add: list_all_iff)
  with run[THEN conjunct1] hex show ?thesis
    by (simp add: any_image_str_def Image_str_def init_image_def clear_if_default_def example_build_def in_parens_def str_opt_def DEFAULT_IMAGE_TYPE_def)
qed

end
