(* ===== verification/GsContext.thy ===== *)
theory GsContext
  imports Services Patterns Paths
begin

text \<open>
  Google Storage (\<open>lib/gs.py\<close>): running \<open>gsutil\<close> with retries, what its errors mean, the operations on
  objects, and the counters that are kept in objects. The \<open>gsutil\<close> program and the local files are parameters;
  texts are ASCII, on which encoding and decoding are the identity.
\<close>

section \<open>Errors\<close>

definition GSContextException :: exn where
  "GSContextException = OtherExn ''GSContextException''"

definition GSContextPreconditionFailed :: exn where
  "GSContextPreconditionFailed = OtherExn ''GSContextPreconditionFailed''"

definition GSNoSuchKey :: exn where
  "GSNoSuchKey = OtherExn ''GSNoSuchKey''"

definition is_gs_exception :: "exn \<Rightarrow> bool" where
  "is_gs_exception e \<longleftrightarrow> (case e of GSCommandError _ _ \<Rightarrow> True
     | _ \<Rightarrow> e = GSContextException \<or> e = GSContextPreconditionFailed \<or> e = GSNoSuchKey)"

section \<open>URLs\<close>

definition BASE_GS_URL :: string where
  "BASE_GS_URL = ''gs://''"

definition PathIsGs :: "string \<Rightarrow> bool" where
  "PathIsGs p \<longleftrightarrow> startswith p BASE_GS_URL"

definition PUBLIC_BASE_HTTPS_URL :: string where
  "PUBLIC_BASE_HTTPS_URL = ''https://storage.googleapis.com/''"

definition PRIVATE_BASE_HTTPS_URL :: string where
  "PRIVATE_BASE_HTTPS_URL = ''https://storage.cloud.google.com/''"

definition PRIVATE_BASE_HTTPS_DOWNLOAD_URL :: string where
  "PRIVATE_BASE_HTTPS_DOWNLOAD_URL = ''https://stainless.corp.google.com/browse/''"

text \<open>The prefix is the first occurrence that \<open>replace\<close> finds.\<close>

definition GsUrlToHttp :: "string \<Rightarrow> bool \<Rightarrow> bool \<Rightarrow> string res" where
  "GsUrlToHttp p public dir =
     (if \<not> PathIsGs p then Inl AssertionError
      else (let rest = drop (length BASE_GS_URL) p in
        Inr ((if public then PUBLIC_BASE_HTTPS_URL
              else if dir \<or> endswith p ''/'' then PRIVATE_BASE_HTTPS_DOWNLOAD_URL else PRIVATE_BASE_HTTPS_URL) @ rest)))"

definition GetGsURL :: "string \<Rightarrow> bool \<Rightarrow> bool \<Rightarrow> string \<Rightarrow> string res" where
  "GetGsURL bkt for_gsutil public suburl =
     (let url = ''gs://'' @ bkt @ ''/'' @ suburl in if for_gsutil then Inr url else GsUrlToHttp url public False)"

definition ContainsWildcard :: "string \<Rightarrow> bool" where
  "ContainsWildcard url \<longleftrightarrow> list_ex (\<lambda>c. c \<in> {CHR ''*'', CHR ''?'', CHR ''['', CHR '']''}) url"

section \<open>Contexts and services\<close>

text \<open>
  The command is run with captured output and answers what it prints to the standard output and the standard
  error output, or raises \<open>RunCommandError\<close>; the environment and the ways output is encoded are left out.
  \<open>make_temp\<close> writes the data to upload to a temporary file. Times are in microseconds.
\<close>

record 'w gs_env =
  gsutil :: "string list \<Rightarrow> ('w, exn, string \<times> string) action"
  local_file :: "string \<Rightarrow> 'w \<Rightarrow> bool"
  local_exists :: "string \<Rightarrow> 'w \<Rightarrow> bool"
  local_size :: "string \<Rightarrow> ('w, exn, int) action"
  read_local :: "string \<Rightarrow> ('w, exn, string) action"
  make_temp :: "string \<Rightarrow> ('w, exn, string) action"
  drop_temp :: "string \<Rightarrow> ('w, exn, unit) action"
  local_now :: "'w \<Rightarrow> int"
  utc_now :: "'w \<Rightarrow> int"
  describe :: "exn \<Rightarrow> string"

record gs_context =
  gsutil_bin :: "string list"
  gsutil_flags :: "string list"
  default_acl :: "string option"
  ctx_dry_run :: bool
  ctx_retries :: int
  sleep_time :: rat

definition DEFAULT_RETRIES :: int where
  "DEFAULT_RETRIES = 3"

definition DEFAULT_SLEEP_TIME :: rat where
  "DEFAULT_SLEEP_TIME = 60"

text \<open>The constructor, given the program and without a proxy.\<close>

definition GSContext :: "string list \<Rightarrow> string option \<Rightarrow> bool \<Rightarrow> int option \<Rightarrow> rat option \<Rightarrow> gs_context" where
  "GSContext bin acl dry retries sleep =
     \<lparr>gsutil_bin = bin, gsutil_flags = [''-o'', ''Boto:num_retries=10''], default_acl = acl, ctx_dry_run = dry,
      ctx_retries = (case retries of None \<Rightarrow> DEFAULT_RETRIES | Some n \<Rightarrow> n),
      sleep_time = (case sleep of None \<Rightarrow> DEFAULT_SLEEP_TIME | Some s \<Rightarrow> s)\<rparr>"

section \<open>What went wrong\<close>

fun has_substring :: "string \<Rightarrow> string \<Rightarrow> bool" where
  "has_substring [] p = (p = [])"
| "has_substring (c # s) p = (startswith (c # s) p \<or> has_substring s p)"

definition FirstMatch :: "('a \<Rightarrow> bool) \<Rightarrow> 'a list \<Rightarrow> 'a option" where
  "FirstMatch p xs = (case filter p xs of x # _ \<Rightarrow> Some x | [] \<Rightarrow> None)"

definition FirstSubstring :: "string \<Rightarrow> string list \<Rightarrow> string option" where
  "FirstSubstring s haystack = FirstMatch (has_substring s) haystack"

definition RESUMABLE_ERROR_MESSAGE :: "string list" where
  "RESUMABLE_ERROR_MESSAGE =
     [''Too many resumable download attempts failed without progress'',
      ''Too many resumable upload attempts failed without progress'',
      ''ResumableUploadException'', ''ResumableUploadAbortException'', ''ResumableDownloadException'',
      ''ssl.SSLError: The read operation timed out'',
      ''ssl.SSLError: ('' @ [CHR 0x27] @ ''The read operation timed out'' @ [CHR 0x27] @ '',)'',
      ''ssl.SSLError: _ssl.c:495: The handshake operation timed out'', ''Unable to find the server'',
      ''doesn'' @ [CHR 0x27] @ ''t match cloud-supplied digest'', ''ssl.SSLError: [Errno 8]'',
      ''EOF occurred in violation of protocol'', ''AccessDeniedException'']"

definition TRANSIENT_ERROR_MESSAGE :: "string list" where
  "TRANSIENT_ERROR_MESSAGE =
     [''ServiceException: 5'', ''Failure: No JSON object could be decoded'', ''Oauth 2.0 User Account'', ''InvalidAccessKeyId'',
      ''socket.error: [Errno 104] Connection reset by peer'', ''Received bad request from server'',
      ''can'' @ [CHR 0x27] @ ''t start new thread'', ''OSError: None'']"

text \<open>The name of a signal is left out of the details.\<close>

record error_details =
  error_type :: string
  message_pattern :: string
  retriable :: bool
  exception :: "exn option"

definition known_precondition :: "string \<Rightarrow> bool" where
  "known_precondition err \<longleftrightarrow> has_substring err ''PreconditionException'' \<or> has_substring err ''412 Precondition Failed''"

definition known_missing :: "string \<Rightarrow> bool" where
  "known_missing err \<longleftrightarrow> has_substring err ''CommandException: No URLs matched'' \<or> has_substring err ''NotFoundException:''
     \<or> has_substring err ''One or more URLs matched no objects''"

definition MatchKnownError :: "exn \<Rightarrow> error_details" where
  "MatchKnownError e =
     (let unknown = \<lparr>error_type = ''unknown'', message_pattern = [], retriable = False, exception = None\<rparr> in
      case command_failure e of
        None \<Rightarrow> unknown
      | Some (None, err) \<Rightarrow> unknown\<lparr>error_type := ''failed_to_launch''\<rparr>
      | Some (Some c, err) \<Rightarrow>
          if c < 0 then unknown\<lparr>error_type := ''received_signal''\<rparr>
          else if err = [] then unknown
          else if known_precondition err
          then unknown\<lparr>error_type := ''precondition_exception'', exception := Some GSContextPreconditionFailed\<rparr>
          else if known_missing err then unknown\<lparr>error_type := ''no_such_key'', exception := Some GSNoSuchKey\<rparr>
          else (case FirstSubstring err RESUMABLE_ERROR_MESSAGE of
                  Some m \<Rightarrow> \<lparr>error_type = ''resumable'', message_pattern = m, retriable = True, exception = None\<rparr>
                | None \<Rightarrow> (case FirstSubstring err TRANSIENT_ERROR_MESSAGE of
                    Some m \<Rightarrow> \<lparr>error_type = ''transient'', message_pattern = m, retriable = True, exception = None\<rparr>
                  | None \<Rightarrow> unknown)))"

definition RetryFilter :: "exn \<Rightarrow> exn + bool" where
  "RetryFilter e = (let d = MatchKnownError e in case exception d of Some e' \<Rightarrow> Inl e' | None \<Rightarrow> Inr (retriable d))"

section \<open>Commands\<close>

record gs_options =
  opt_headers :: "string list"
  opt_retries :: "int option"
  opt_version :: "int option"
  opt_parallel :: bool

definition no_options :: gs_options where
  "no_options = \<lparr>opt_headers = [], opt_retries = None, opt_version = None, opt_parallel = False\<rparr>"

text \<open>The whole command line; no command reads the standard input, because \<open>Copy\<close> uploads from a file.\<close>

definition gs_command :: "gs_context \<Rightarrow> gs_options \<Rightarrow> string list \<Rightarrow> string list" where
  "gs_command ctx opts cmd =
     gsutil_bin ctx @ gsutil_flags ctx @ concat (map (\<lambda>h. [''-h'', h]) (opt_headers opts))
     @ (case opt_version opts of None \<Rightarrow> [] | Some v \<Rightarrow> [''-h'', ''x-goog-if-generation-match:'' @ str_of_int v])
     @ (if opt_parallel opts then [''-m''] else []) @ cmd"

definition GSUTIL :: string where
  "GSUTIL = ''Google Storage''"

text \<open>A failed command leaves as \<open>GSCommandError\<close>.\<close>

definition as_gs_error :: "exn \<Rightarrow> exn" where
  "as_gs_error e = (case command_failure e of Some (c, err) \<Rightarrow> GSCommandError c err | None \<Rightarrow> e)"

text \<open>Without output in a dry run. The statistics are those of a process that has not set them up.\<close>

definition DoCommand ::
    "('w, 'z) gs_env_scheme \<Rightarrow> gs_context \<Rightarrow> gs_options \<Rightarrow> string list \<Rightarrow> ('w, exn, (string \<times> string) option) action" where
  "DoCommand env ctx opts cmd w =
     (if ctx_dry_run ctx then (Inr None, w)
      else (case RetryWithStats (describe env) GSUTIL RetryFilter
              (case opt_retries opts of None \<Rightarrow> ctx_retries ctx | Some n \<Rightarrow> n)
              (plain_options (sleep_time ctx) 1 0 True None) (\<lambda>_. 0) (gsutil env (gs_command ctx opts cmd)) w None of
          ((Inl e, w', slept), _) \<Rightarrow> (Inl (as_gs_error e), w')
        | ((Inr out, w', slept), _) \<Rightarrow> (Inr (Some out), w')))"

definition output_of :: "(string \<times> string) option \<Rightarrow> (string \<times> string) res" where
  "output_of r = (case r of Some out \<Rightarrow> Inr out | None \<Rightarrow> Inl AttributeError)"

section \<open>Operations\<close>

text \<open>What \<open>Cat\<close> returns is bytes unless an encoding is asked for.\<close>

datatype py_text = Bytes string | Str string

definition is_missing_file :: "exn \<Rightarrow> bool" where
  "is_missing_file e \<longleftrightarrow> e = OtherExn ''FileNotFoundError''"

definition Cat :: "('w, 'z) gs_env_scheme \<Rightarrow> gs_context \<Rightarrow> gs_options \<Rightarrow> bool \<Rightarrow> string \<Rightarrow> ('w, exn, py_text) action" where
  "Cat env ctx opts encoded path =
     (let wrap = (if encoded then Str else Bytes) in
      if \<not> PathIsGs path
      then act_catch (act_bind (read_local env path) (\<lambda>s. act_return (wrap s)))
             (\<lambda>e. act_raise (if is_missing_file e then GSNoSuchKey else GSContextException))
      else if ctx_dry_run ctx then act_return (wrap [])
      else act_bind (DoCommand env ctx opts [''cat'', path]) (\<lambda>r.
        act_bind (lift_py (output_of r)) (\<lambda>out. act_return (wrap (fst out)))))"

definition int_of_digits :: "string \<Rightarrow> int" where
  "int_of_digits s = foldl (\<lambda>a c. 10 * a + int (digit_val c)) 0 s"

text \<open>
  The generation in the error output of a copy. A line of it is matched in one way only, with its last hash
  sign, so it does not matter that the optional part of the pattern is tried as an alternative.
\<close>

definition re_dot :: "char \<Rightarrow> bool" where
  "re_dot c \<longleftrightarrow> c \<noteq> CHR 0x0A"

definition created_patterns :: "pitem list list" where
  "created_patterns =
     (let start = [Lit ''Created: '', Run None re_dot 0, Lit ''#'', Run (Some ''1'') is_digit 1] in
      [start @ [Lit ''.'', Run None is_digit 1, Lit [CHR 0x0A]], start @ [Lit [CHR 0x0A]]])"

definition created_generation :: "string \<Rightarrow> int option" where
  "created_generation err = map_option (\<lambda>g. int_of_digits (group g ''1'')) (search_any created_patterns err)"

record copy_options =
  copy_acl :: "string option"
  recursive :: bool
  skip_symlinks :: bool
  auto_compress :: bool
  copy_input :: "string option"

definition copy_defaults :: copy_options where
  "copy_defaults = \<lparr>copy_acl = None, recursive = False, skip_symlinks = True, auto_compress = False, copy_input = None\<rparr>"

definition copy_flags :: "gs_context \<Rightarrow> copy_options \<Rightarrow> bool \<Rightarrow> string list" where
  "copy_flags ctx c src_is_file =
     [''cp'', ''-v''] @ (if recursive c \<and> \<not> src_is_file then [''-r''] @ (if skip_symlinks c then [''-e''] else []) else [])
     @ (if auto_compress c then [''-Z''] else [])
     @ (case (case copy_acl c of None \<Rightarrow> default_acl ctx | Some a \<Rightarrow> Some a) of None \<Rightarrow> [] | Some a \<Rightarrow> [''-a'', a])"

text \<open>From the flags on, with the file that is uploaded.\<close>

definition copy_from ::
    "('w, 'z) gs_env_scheme \<Rightarrow> gs_context \<Rightarrow> gs_options \<Rightarrow> string list \<Rightarrow> string \<Rightarrow> string \<Rightarrow> ('w, exn, int option) action" where
  "copy_from env ctx opts flags src dest =
     (let opts = (if PathIsGs src \<or> PathIsGs dest \<or> opt_retries opts \<noteq> None then opts else opts\<lparr>opt_retries := Some 0\<rparr>) in
      act_catch
        (act_bind (DoCommand env ctx opts (flags @ [''--'', src, dest])) (\<lambda>r.
          case r of None \<Rightarrow> act_return None | Some (out, err) \<Rightarrow> act_return (created_generation err)))
        (\<lambda>e. act_bind (gets (local_file env src)) (\<lambda>is_file.
          if e = GSNoSuchKey \<and> is_file then act_return None else act_raise e)))"

definition Copy ::
    "('w, 'z) gs_env_scheme \<Rightarrow> gs_context \<Rightarrow> gs_options \<Rightarrow> copy_options \<Rightarrow> string \<Rightarrow> string \<Rightarrow> ('w, exn, int option) action" where
  "Copy env ctx opts c src dest =
     act_bind (gets (local_file env src)) (\<lambda>is_file.
       let flags = copy_flags ctx c is_file in
       case (if src = ''-'' then copy_input c else None) of
         None \<Rightarrow> copy_from env ctx opts flags src dest
       | Some contents \<Rightarrow>
           act_bind (make_temp env contents) (\<lambda>name.
             act_finally (copy_from env ctx opts flags name dest) (drop_temp env name)))"

definition CopyInto ::
    "('w, 'z) gs_env_scheme \<Rightarrow> gs_context \<Rightarrow> gs_options \<Rightarrow> copy_options \<Rightarrow> string \<Rightarrow> string \<Rightarrow> string option \<Rightarrow> ('w, exn, int option) action" where
  "CopyInto env ctx opts c local_path remote_dir name =
     Copy env ctx opts c local_path (remote_dir @ ''/'' @ basename (case name of None \<Rightarrow> local_path | Some n \<Rightarrow> n))"

definition CreateWithContents ::
    "('w, 'z) gs_env_scheme \<Rightarrow> gs_context \<Rightarrow> gs_options \<Rightarrow> copy_options \<Rightarrow> string \<Rightarrow> string \<Rightarrow> ('w, exn, unit) action" where
  "CreateWithContents env ctx opts c uri contents =
     act_bind (Copy env ctx opts (c\<lparr>copy_input := Some contents\<rparr>) ''-'' uri) (\<lambda>_. act_return ())"

section \<open>Dates\<close>

text \<open>
  \<open>strptime\<close> with the format of the creation time, in microseconds of the calendar of \<open>datetime\<close>. Names of
  zones other than UTC and GMT depend on the machine and are left out.
\<close>

definition leap_year :: "int \<Rightarrow> bool" where
  "leap_year y \<longleftrightarrow> y mod 4 = 0 \<and> (y mod 100 \<noteq> 0 \<or> y mod 400 = 0)"

definition days_in_month :: "int \<Rightarrow> int \<Rightarrow> int" where
  "days_in_month y m = (if m = 2 then (if leap_year y then 29 else 28) else if m \<in> {4, 6, 9, 11} then 30 else 31)"

definition days_before_year :: "int \<Rightarrow> int" where
  "days_before_year y = (let p = y - 1 in p * 365 + p div 4 - p div 100 + p div 400)"

definition datetime :: "int \<Rightarrow> int \<Rightarrow> int \<Rightarrow> int \<Rightarrow> int \<Rightarrow> int \<Rightarrow> int res" where
  "datetime y m d hh mm ss =
     (if y < 1 \<or> 9999 < y \<or> m < 1 \<or> 12 < m \<or> d < 1 \<or> days_in_month y m < d \<or> 23 < hh \<or> 59 < mm \<or> 59 < ss
      then Inl ValueError
      else (let days = days_before_year y + sum_list (map (days_in_month y) [1..m - 1]) + d in
        Inr ((((days * 24 + hh) * 60 + mm) * 60 + ss) * 1000000)))"

definition two_digits :: "nat list \<Rightarrow> nat list \<Rightarrow> string list" where
  "two_digits as bs = concat (map (\<lambda>a. map (\<lambda>b. [digit_char a, digit_char b]) bs) as)"

definition one_digit :: "nat list \<Rightarrow> string list" where
  "one_digit ds = map (\<lambda>d. [digit_char d]) ds"

definition MONTHS :: "string list" where
  "MONTHS = [''jan'', ''feb'', ''mar'', ''apr'', ''may'', ''jun'', ''jul'', ''aug'', ''sep'', ''oct'', ''nov'', ''dec'']"

definition date_pattern :: "pitem list" where
  "date_pattern =
     (let ws = Run None is_space 1 in
      [Choice ''a'' [''mon'', ''tue'', ''wed'', ''thu'', ''fri'', ''sat'', ''sun''], Lit '','', ws,
       Choice ''d'' (two_digits [3] [0..<2] @ two_digits [1, 2] [0..<10] @ two_digits [0] [1..<10] @ one_digit [1..<10]
         @ map (\<lambda>s. CHR '' '' # s) (one_digit [1..<10])), ws,
       Choice ''b'' MONTHS, ws, Run (Some ''Y'') is_digit 4, ws,
       Choice ''H'' (two_digits [2] [0..<4] @ two_digits [0, 1] [0..<10] @ one_digit [0..<10]), Lit '':'',
       Choice ''M'' (two_digits [0..<6] [0..<10] @ one_digit [0..<10]), Lit '':'',
       Choice ''S'' (two_digits [6] [0..<2] @ two_digits [0..<6] [0..<10] @ one_digit [0..<10]), ws,
       Choice ''Z'' [''gmt'', ''utc''], AtEnd])"

definition month_number :: "string \<Rightarrow> nat" where
  "month_number m = length (takeWhile (\<lambda>n. n \<noteq> m) MONTHS) + 1"

definition strptime :: "string \<Rightarrow> int res" where
  "strptime s =
     (case re_match date_pattern (map lower_char s) of
        None \<Rightarrow> Inl ValueError
      | Some g \<Rightarrow>
          (let num = (\<lambda>n. int_of_digits (strip is_space (group g n))) in
           if length (group g ''Y'') \<noteq> 4 \<or> endswith s [CHR 0x0A] then Inl ValueError
           else datetime (num ''Y'') (int (month_number (group g ''b''))) (num ''d'') (num ''H'') (num ''M'') (num ''S'')))"

section \<open>The state of an object\<close>

record stat_result =
  creation_time :: int
  content_length :: int
  content_type :: string
  hash_crc32c :: string
  hash_md5 :: "string option"
  etag :: string
  generation :: int
  metageneration :: int

text \<open>\<open>_GetField\<close>, which finds the name anywhere in the output.\<close>

definition field_pattern :: "string \<Rightarrow> pitem list" where
  "field_pattern name = [Lit (name @ '':''), Run None is_space 0, Run (Some ''1'') re_dot 1]"

definition GetField_optional :: "string \<Rightarrow> string \<Rightarrow> string option" where
  "GetField_optional out name = map_option (\<lambda>g. group g ''1'') (search_any [field_pattern name] out)"

definition GetField :: "string \<Rightarrow> string \<Rightarrow> exn + string" where
  "GetField out name = (case GetField_optional out name of Some v \<Rightarrow> Inr v | None \<Rightarrow> Inl GSContextException)"

definition py_exn :: "'a res \<Rightarrow> exn + 'a" where
  "py_exn r = (case r of Inl e \<Rightarrow> Inl (PyExc e) | Inr a \<Rightarrow> Inr a)"

definition ParseStat :: "string \<Rightarrow> exn + stat_result" where
  "ParseStat out =
     (if \<not> startswith out ''gs://'' then Inl GSContextException
      else res_bind (GetField out ''Creation time'') (\<lambda>v. res_bind (py_exn (strptime v)) (\<lambda>created.
        res_bind (GetField out ''Content-Length'') (\<lambda>v. res_bind (py_exn (py_int v)) (\<lambda>len.
        res_bind (GetField out ''Content-Type'') (\<lambda>ctype.
        res_bind (GetField out ''Hash (crc32c)'') (\<lambda>crc.
        res_bind (GetField out ''ETag'') (\<lambda>tag.
        res_bind (GetField out ''Generation'') (\<lambda>v. res_bind (py_exn (py_int v)) (\<lambda>gen.
        res_bind (GetField out ''Metageneration'') (\<lambda>v. res_bind (py_exn (py_int v)) (\<lambda>meta.
          Inr \<lparr>creation_time = created, content_length = len, content_type = ctype, hash_crc32c = crc,
               hash_md5 = GetField_optional out ''Hash (md5)'', etag = tag, generation = gen, metageneration = meta\<rparr>))))))))))))"

text \<open>The result in a dry run, at the time that is passed along.\<close>

definition dry_stat :: "int \<Rightarrow> stat_result" where
  "dry_stat now = \<lparr>creation_time = now, content_length = 0, content_type = ''application/octet-stream'', hash_crc32c = ''AAAAAA=='',
     hash_md5 = Some [], etag = [], generation = 0, metageneration = 0\<rparr>"

definition stat_error :: "exn \<Rightarrow> exn" where
  "stat_error e = (case e of
     GSCommandError c err \<Rightarrow> if list_ex (\<lambda>l. startswith l ''No URLs matched'') (splitlines err) then GSNoSuchKey else e
   | _ \<Rightarrow> e)"

definition Stat :: "('w, 'z) gs_env_scheme \<Rightarrow> gs_context \<Rightarrow> gs_options \<Rightarrow> string \<Rightarrow> ('w, exn, stat_result) action" where
  "Stat env ctx opts path =
     act_bind (act_catch (DoCommand env ctx opts [''stat'', ''--'', path]) (\<lambda>e. act_raise (stat_error e))) (\<lambda>r.
       if ctx_dry_run ctx then act_bind (gets (local_now env)) (\<lambda>t. act_return (dry_stat t))
       else act_bind (lift_py (output_of r)) (\<lambda>out.
         case ParseStat (fst out) of Inl e \<Rightarrow> act_raise e | Inr st \<Rightarrow> act_return st))"

definition Exists :: "('w, 'z) gs_env_scheme \<Rightarrow> gs_context \<Rightarrow> gs_options \<Rightarrow> string \<Rightarrow> ('w, exn, bool) action" where
  "Exists env ctx opts path =
     (if \<not> PathIsGs path then gets (local_exists env path)
      else act_catch (act_bind (Stat env ctx opts path) (\<lambda>_. act_return True))
             (\<lambda>e. if e = GSNoSuchKey then act_return False else act_raise e))"

definition GetSize :: "('w, 'z) gs_env_scheme \<Rightarrow> gs_context \<Rightarrow> gs_options \<Rightarrow> string \<Rightarrow> ('w, exn, int) action" where
  "GetSize env ctx opts path =
     (if \<not> PathIsGs path then local_size env path
      else act_bind (Stat env ctx opts path) (\<lambda>st. act_return (content_length st)))"

definition GetGeneration :: "('w, 'z) gs_env_scheme \<Rightarrow> gs_context \<Rightarrow> string \<Rightarrow> ('w, exn, int \<times> int) action" where
  "GetGeneration env ctx path =
     act_catch (act_bind (Stat env ctx no_options path) (\<lambda>st. act_return (generation st, metageneration st)))
       (\<lambda>e. if e = GSNoSuchKey then act_return (0, 0) else act_raise e)"

text \<open>The paths are one or more.\<close>

definition Remove :: "('w, 'z) gs_env_scheme \<Rightarrow> gs_context \<Rightarrow> gs_options \<Rightarrow> bool \<Rightarrow> bool \<Rightarrow> string list \<Rightarrow> ('w, exn, unit) action" where
  "Remove env ctx opts recurse ignore_missing paths =
     act_catch
       (act_bind (DoCommand env ctx opts ([''rm''] @ (if recurse then [''-R''] else []) @ [''--''] @ paths)) (\<lambda>_. act_return ()))
       (\<lambda>e. if e = GSNoSuchKey \<and> ignore_missing then act_return () else act_raise e)"

definition Move :: "('w, 'z) gs_env_scheme \<Rightarrow> gs_context \<Rightarrow> gs_options \<Rightarrow> string \<Rightarrow> string \<Rightarrow> ('w, exn, (string \<times> string) option) action" where
  "Move env ctx opts src dest = DoCommand env ctx opts [''mv'', ''--'', src, dest]"

definition SetACL :: "('w, 'z) gs_env_scheme \<Rightarrow> gs_context \<Rightarrow> gs_options \<Rightarrow> string list \<Rightarrow> string option \<Rightarrow> ('w, exn, unit) action" where
  "SetACL env ctx opts paths acl =
     (let run = (\<lambda>a. act_bind (DoCommand env ctx opts ([''acl'', ''set'', ''--'', a] @ paths)) (\<lambda>_. act_return ())) in
      case acl of Some a \<Rightarrow> run a
      | None \<Rightarrow> (case default_acl ctx of Some (c # a) \<Rightarrow> run (c # a) | _ \<Rightarrow> act_raise GSContextException))"

text \<open>The arguments in a file: comments are cut off, and empty lines left out.\<close>

definition acl_file_args :: "string \<Rightarrow> string list" where
  "acl_file_args contents =
     (let strip_comment = (\<lambda>l. strip is_space (takeWhile (\<lambda>c. c \<noteq> CHR ''#'') l))
      in split_ws (join '' '' (filter (\<lambda>l. l \<noteq> []) (map strip_comment (splitlines contents)))))"

definition ChangeACL ::
    "('w, 'z) gs_env_scheme \<Rightarrow> gs_context \<Rightarrow> gs_options \<Rightarrow> string \<Rightarrow> string option \<Rightarrow> string list option \<Rightarrow> ('w, exn, unit) action" where
  "ChangeACL env ctx opts url args_file args =
     (let given_file = (args_file \<noteq> None \<and> args_file \<noteq> Some []); given_args = (args \<noteq> None \<and> args \<noteq> Some []) in
      if given_file = given_args then act_raise GSContextException
      else act_bind (if given_file then act_bind (read_local env (the args_file)) (\<lambda>s. act_return (acl_file_args s))
                     else act_return (the args)) (\<lambda>as. \<lambda>w.
        case RetryException (\<lambda>e. e = GSContextPreconditionFailed) 3 default_options (\<lambda>_. 0)
               (DoCommand env ctx opts ([''acl'', ''ch''] @ as @ [url])) w of
          (Inl e, w', slept) \<Rightarrow> (Inl e, w')
        | (Inr r, w', slept) \<Rightarrow> (Inr (), w')))"

text \<open>Listings without details: every line is a URL after its leading white space.\<close>

definition List_urls :: "('w, 'z) gs_env_scheme \<Rightarrow> gs_context \<Rightarrow> gs_options \<Rightarrow> string list \<Rightarrow> ('w, exn, string list) action" where
  "List_urls env ctx opts paths =
     (if ctx_dry_run ctx then act_return []
      else act_bind (DoCommand env ctx opts ([''ls'', ''--''] @ paths)) (\<lambda>r.
        act_bind (lift_py (output_of r)) (\<lambda>out.
          act_return (map (lstrip is_space) (splitlines (fst out))))))"

section \<open>Counters\<close>

definition text_of :: "py_text \<Rightarrow> string" where
  "text_of t = (case t of Bytes s \<Rightarrow> s | Str s \<Rightarrow> s)"

definition Counter_Get :: "('w, 'z) gs_env_scheme \<Rightarrow> gs_context \<Rightarrow> string \<Rightarrow> ('w, exn, int) action" where
  "Counter_Get env ctx path =
     act_catch (act_bind (Cat env ctx no_options False path) (\<lambda>t. lift_py (py_int (text_of t))))
       (\<lambda>e. if e = GSNoSuchKey then act_return 0 else act_raise e)"

text \<open>The body of \<open>try\<close>.\<close>

definition set_counter ::
    "('w, 'z) gs_env_scheme \<Rightarrow> gs_context \<Rightarrow> string \<Rightarrow> int \<Rightarrow> (int \<Rightarrow> int) \<Rightarrow> int \<Rightarrow> ('w, exn, int) action" where
  "set_counter env ctx path dflt upd gen =
     act_bind (if gen = 0 then act_return dflt else act_bind (Counter_Get env ctx path) (\<lambda>n :: int. act_return (upd n))) (\<lambda>value :: int.
     act_bind (Copy env ctx (no_options\<lparr>opt_version := Some gen\<rparr>) (copy_defaults\<lparr>copy_input := Some (str_of_int value)\<rparr>) ''-'' path) (\<lambda>_.
       act_return value))"

fun counter_loop ::
    "('w, 'z) gs_env_scheme \<Rightarrow> gs_context \<Rightarrow> string \<Rightarrow> int \<Rightarrow> (int \<Rightarrow> int) \<Rightarrow> nat \<Rightarrow> int \<Rightarrow> ('w, exn, int option) action" where
  "counter_loop env ctx path dflt upd 0 gen = act_return None"
| "counter_loop env ctx path dflt upd (Suc n) gen =
     act_catch (act_bind (set_counter env ctx path dflt upd gen) (\<lambda>v. act_return (Some v)))
       (\<lambda>e. if e = GSContextPreconditionFailed \<or> e = GSNoSuchKey
            then act_bind (GetGeneration env ctx path) (\<lambda>gm.
              if fst gm = gen then act_raise e else counter_loop env ctx path dflt upd n (fst gm))
            else act_raise e)"

definition AtomicCounterOperation ::
    "('w, 'z) gs_env_scheme \<Rightarrow> gs_context \<Rightarrow> string \<Rightarrow> int \<Rightarrow> (int \<Rightarrow> int) \<Rightarrow> ('w, exn, int option) action" where
  "AtomicCounterOperation env ctx path dflt upd =
     act_bind (GetGeneration env ctx path) (\<lambda>gm. counter_loop env ctx path dflt upd (nat (ctx_retries ctx + 1)) (fst gm))"

definition Increment :: "('w, 'z) gs_env_scheme \<Rightarrow> gs_context \<Rightarrow> string \<Rightarrow> ('w, exn, int option) action" where
  "Increment env ctx path = AtomicCounterOperation env ctx path 1 (\<lambda>x. x + 1)"

definition Decrement :: "('w, 'z) gs_env_scheme \<Rightarrow> gs_context \<Rightarrow> string \<Rightarrow> ('w, exn, int option) action" where
  "Decrement env ctx path = AtomicCounterOperation env ctx path (- 1) (\<lambda>x. x - 1)"

definition Reset :: "('w, 'z) gs_env_scheme \<Rightarrow> gs_context \<Rightarrow> string \<Rightarrow> ('w, exn, int option) action" where
  "Reset env ctx path = AtomicCounterOperation env ctx path 0 (\<lambda>x. 0)"

definition StreakIncrement :: "('w, 'z) gs_env_scheme \<Rightarrow> gs_context \<Rightarrow> string \<Rightarrow> ('w, exn, int option) action" where
  "StreakIncrement env ctx path = AtomicCounterOperation env ctx path 1 (\<lambda>x. if 0 < x then x + 1 else 1)"

definition StreakDecrement :: "('w, 'z) gs_env_scheme \<Rightarrow> gs_context \<Rightarrow> string \<Rightarrow> ('w, exn, int option) action" where
  "StreakDecrement env ctx path = AtomicCounterOperation env ctx path (- 1) (\<lambda>x. if x < 0 then x - 1 else - 1)"

section \<open>Retried commands\<close>

definition context_ok :: "gs_context \<Rightarrow> bool" where
  "context_ok ctx \<longleftrightarrow> 0 \<le> ctx_retries ctx \<and> 0 \<le> sleep_time ctx"

definition command_retries :: "gs_context \<Rightarrow> gs_options \<Rightarrow> int" where
  "command_retries ctx opts = (case opt_retries opts of None \<Rightarrow> ctx_retries ctx | Some n \<Rightarrow> n)"

lemma as_gs_error_id: "command_failure e = None \<Longrightarrow> as_gs_error e = e"
  by (simp add: as_gs_error_def)

lemma gs_exceptions_no_command [simp]:
  "command_failure GSNoSuchKey = None" "command_failure GSContextPreconditionFailed = None" "command_failure GSContextException = None"
  "GSNoSuchKey \<noteq> GSContextPreconditionFailed" "GSContextPreconditionFailed \<noteq> GSNoSuchKey"
  by (simp_all add: GSNoSuchKey_def GSContextPreconditionFailed_def GSContextException_def command_failure_def)

lemma MatchKnownError_exception: "exception (MatchKnownError e) = Some e' \<Longrightarrow> e' = GSNoSuchKey \<or> e' = GSContextPreconditionFailed"
  by (auto simp: MatchKnownError_def Let_def split: option.splits prod.splits if_splits)

text \<open>What a command ends with: the result of the last attempt, a known exception, or the first error.\<close>

definition command_result :: "(exn + string \<times> string) \<Rightarrow> (exn + string \<times> string) \<Rightarrow> exn + (string \<times> string) option" where
  "command_result first last_one =
     (case last_one of Inr out \<Rightarrow> Inr (Some out)
      | Inl e \<Rightarrow> (case exception (MatchKnownError e) of Some e' \<Rightarrow> Inl e' | None \<Rightarrow> Inl (as_gs_error (projl first))))"

lemma DoCommand_run:
  fixes env :: "('w, 'z) gs_env_scheme" and w :: 'w
  assumes "\<not> ctx_dry_run ctx" "0 \<le> command_retries ctx opts" "0 \<le> sleep_time ctx"
  shows "\<exists>k. last_call RetryFilter (nat (command_retries ctx opts)) (gsutil env (gs_command ctx opts cmd)) w k
    \<and> DoCommand env ctx opts cmd w
      = (command_result (call_at (gsutil env (gs_command ctx opts cmd)) w 0) (call_at (gsutil env (gs_command ctx opts cmd)) w k),
         iterate (gsutil env (gs_command ctx opts cmd)) (Suc k) w)"
proof -
  let ?f = "gsutil env (gs_command ctx opts cmd)" and ?n = "command_retries ctx opts"
  let ?o = "plain_options (sleep_time ctx) 1 0 True None :: ('w \<times> string option list) retry_options"
  obtain r where r: "WithRetry ?n (Some RetryFilter) None (sleep_time ctx) 1 0 True None None = Inr (r :: 'w retry)"
    using assms(2,3) by (simp add: WithRetry_def RetryDelayStrategy_def)
  have fe: "final_error r (Some e) = e" for e using WithRetry_Inr(10)[OF r] by (simp add: final_error_def)
  obtain k where k: "last_call RetryFilter (nat ?n) ?f w k" and plain: "GenericRetry RetryFilter ?n (plain_options (sleep_time ctx) 1 0 True None) (\<lambda>_. 0) ?f w
      = (retry_result r RetryFilter True (call_at ?f w 0) (call_at ?f w k), iterate ?f (Suc k) w, delays r (\<lambda>_. 0) (Suc k))"
    using GenericRetry_plain[OF r, of ?f w "\<lambda>_. 0"] unfolding plain_options_def by blast
  obtain run c where coll: "RetryWithStats (describe env) GSUTIL RetryFilter ?n ?o (\<lambda>_. 0) ?f w (Some []) = (run, c)" by (rule prod.exhaust)
  have "run = GenericRetry RetryFilter ?n (plain_options (sleep_time ctx) 1 0 True None) (\<lambda>_. 0) ?f w"
    using RetryWithStats_run[OF coll] by blast
  then have stats: "fst (RetryWithStats (describe env) GSUTIL RetryFilter ?n ?o (\<lambda>_. 0) ?f w None)
      = (retry_result r RetryFilter True (call_at ?f w 0) (call_at ?f w k), iterate ?f (Suc k) w, delays r (\<lambda>_. 0) (Suc k))"
    using coll unfolding plain[symmetric] by (auto simp: RetryWithStats_def split: prod.splits)
  then obtain c' where run: "RetryWithStats (describe env) GSUTIL RetryFilter ?n ?o (\<lambda>_. 0) ?f w None
      = ((retry_result r RetryFilter True (call_at ?f w 0) (call_at ?f w k), iterate ?f (Suc k) w, delays r (\<lambda>_. 0) (Suc k)), c')"
    by (metis prod.collapse)
  have "DoCommand env ctx opts cmd w = (command_result (call_at ?f w 0) (call_at ?f w k), iterate ?f (Suc k) w)"
  proof (cases "call_at ?f w k")
    case (Inr out)
    then show ?thesis
      unfolding DoCommand_def command_retries_def[symmetric] run using assms(1)
      by (simp add: retry_result_def command_result_def del: iterate_simps)
  next
    case (Inl e)
    show ?thesis
    proof (cases "exception (MatchKnownError e)")
      case None
      then show ?thesis
        unfolding DoCommand_def command_retries_def[symmetric] run using assms(1) Inl
        by (simp add: retry_result_def command_result_def RetryFilter_def Let_def fe del: iterate_simps)
    next
      case (Some e')
      then have "as_gs_error e' = e'" using MatchKnownError_exception[OF Some] by (auto intro: as_gs_error_id)
      with Some show ?thesis
        unfolding DoCommand_def command_retries_def[symmetric] run using assms(1) Inl
        by (simp add: retry_result_def command_result_def RetryFilter_def Let_def del: iterate_simps)
    qed
  qed
  with k show ?thesis by blast
qed

lemma RetryFilter_True: "RetryFilter e = Inr True \<longleftrightarrow> retriable (MatchKnownError e) \<and> exception (MatchKnownError e) = None"
  by (auto simp: RetryFilter_def Let_def split: option.splits)

text \<open>
  A command is run once more only after a failure that is known to be resumable or transient, and at most the
  given number of times. The last run decides: its output is returned; a failed precondition and a missing
  object are raised as such, and at once; and otherwise the failure of the first run is raised, as \<open>GSCommandError\<close>.
\<close>

theorem gs_command_outcome:
  fixes env :: "('w, 'z) gs_env_scheme" and w :: 'w and ctx opts cmd
  defines "f \<equiv> gsutil env (gs_command ctx opts cmd)"
  assumes "\<not> ctx_dry_run ctx" "0 \<le> command_retries ctx opts" "0 \<le> sleep_time ctx"
  shows "\<exists>k \<le> nat (command_retries ctx opts).
    (\<forall>i < k. \<exists>e. call_at f w i = Inl e \<and> retriable (MatchKnownError e) \<and> exception (MatchKnownError e) = None)
    \<and> snd (DoCommand env ctx opts cmd w) = iterate f (Suc k) w
    \<and> (case call_at f w k of
         Inr out \<Rightarrow> fst (DoCommand env ctx opts cmd w) = Inr (Some out)
       | Inl e \<Rightarrow> (case exception (MatchKnownError e) of
             Some e' \<Rightarrow> fst (DoCommand env ctx opts cmd w) = Inl e'
           | None \<Rightarrow> (int k = command_retries ctx opts \<or> \<not> retriable (MatchKnownError e))
               \<and> fst (DoCommand env ctx opts cmd w) = Inl (as_gs_error (projl (call_at f w 0)))))"
proof -
  obtain k where k: "last_call RetryFilter (nat (command_retries ctx opts)) f w k"
    and run: "DoCommand env ctx opts cmd w = (command_result (call_at f w 0) (call_at f w k), iterate f (Suc k) w)"
    using DoCommand_run[OF assms(2-4), of env cmd w] unfolding f_def by blast
  have le: "k \<le> nat (command_retries ctx opts)" and before: "\<forall>i < k. \<exists>e. call_at f w i = Inl e \<and> RetryFilter e = Inr True"
    and stop: "k = nat (command_retries ctx opts) \<or> isOk (call_at f w k) \<or> (\<exists>e. call_at f w k = Inl e \<and> RetryFilter e \<noteq> Inr True)"
    using k by (auto simp: last_call_def)
  have "int k = command_retries ctx opts \<or> \<not> retriable (MatchKnownError e)"
    if "call_at f w k = Inl e" "exception (MatchKnownError e) = None" for e
    using stop that assms(3) by (auto simp: RetryFilter_True isOk_iff)
  with le before show ?thesis
    by (intro exI[of _ k]) (auto simp: run command_result_def RetryFilter_True split: sum.splits option.splits)
qed

text \<open>A world that counts the runs: two transient failures, and then a failed precondition.\<close>

definition flaky_env :: "nat gs_env" where
  "flaky_env =
     \<lparr>gsutil = (\<lambda>cmd n. (Inl (RunCommandError (Some 1) (if n < 2 then ''ServiceException: 503'' else ''PreconditionException: 412'')), Suc n)),
      local_file = (\<lambda>p n. False), local_exists = (\<lambda>p n. False), local_size = (\<lambda>p n. (Inr 0, n)),
      read_local = (\<lambda>p n. (Inl (OtherExn ''FileNotFoundError''), n)), make_temp = (\<lambda>c n. (Inr ''/tmp/t'', n)),
      drop_temp = (\<lambda>p n. (Inr (), n)), local_now = (\<lambda>n. 0), utc_now = (\<lambda>n. 0), describe = (\<lambda>e. ''E: '')\<rparr>"

theorem gs_command_outcome_witness:
  "fst (DoCommand flaky_env (GSContext [''gsutil''] None False None None) no_options [''rm'', ''--'', ''gs://b/o''] 0)
    = Inl GSContextPreconditionFailed"
proof -
  let ?ctx = "GSContext [''gsutil''] None False None None" and ?cmd = "[''rm'', ''--'', ''gs://b/o'']"
  have ctx: "\<not> ctx_dry_run ?ctx" "0 \<le> command_retries ?ctx no_options" "0 \<le> sleep_time ?ctx" "command_retries ?ctx no_options = 3"
    by (simp_all add: GSContext_def command_retries_def no_options_def DEFAULT_RETRIES_def DEFAULT_SLEEP_TIME_def)
  let ?f = "gsutil flaky_env (gs_command ?ctx no_options ?cmd)"
  have it: "iterate ?f k 0 = k" for k by (induction k) (simp_all add: flaky_env_def)
  have call: "call_at ?f 0 k = Inl (RunCommandError (Some 1) (if k < 2 then ''ServiceException: 503'' else ''PreconditionException: 412''))" for k
    by (simp only: call_at_def it) (simp add: flaky_env_def)
  have known: "exception (MatchKnownError (RunCommandError (Some 1) ''ServiceException: 503'')) = None"
      "retriable (MatchKnownError (RunCommandError (Some 1) ''ServiceException: 503''))"
      "exception (MatchKnownError (RunCommandError (Some 1) ''PreconditionException: 412'')) = Some GSContextPreconditionFailed"
    by code_simp+
  from gs_command_outcome[OF ctx(1-3), of flaky_env ?cmd 0] show ?thesis
    unfolding call by (auto simp: known ctx(4) split: if_splits)
qed

end
