(* ===== verification/GsObject.thy ===== *)
theory GsObject
  imports GsContext "HOL-Library.Sublist"
begin

text \<open>
  One object of Google Storage that many clients use at the same time. What happens to it is its history, of
  the versions that were written and the removals, the newest first, each with the client; what one client's
  commands do to the history, with the steps of the others before, between and after, is a hypothesis on
  \<open>gsutil\<close>, from which the steps of the operations of \<open>lib/gs.py\<close> follow.
\<close>

section \<open>Histories\<close>

datatype gs_event = Written nat int string int | Removed nat int

text \<open>A version has its client, its generation, the contents and the time of its creation; a removal has its client and time.\<close>

fun event_client :: "gs_event \<Rightarrow> nat" where
  "event_client (Written c g d t) = c"
| "event_client (Removed c t) = c"

fun event_generation :: "gs_event \<Rightarrow> int option" where
  "event_generation (Written c g d t) = Some g"
| "event_generation (Removed c t) = None"

type_synonym gs_history = "gs_event list"

definition current :: "gs_history \<Rightarrow> (nat \<times> int \<times> string \<times> int) option" where
  "current h = (case h of Written c g d t # _ \<Rightarrow> Some (c, g, d, t) | _ \<Rightarrow> None)"

definition generation_of :: "gs_history \<Rightarrow> int" where
  "generation_of h = (case current h of None \<Rightarrow> 0 | Some (c, g, d, t) \<Rightarrow> g)"

text \<open>Generations are positive and never used again.\<close>

definition good_history :: "gs_history \<Rightarrow> bool" where
  "good_history h \<longleftrightarrow> distinct (List.map_filter event_generation h) \<and> (\<forall>g \<in> set (List.map_filter event_generation h). 0 < g)"

text \<open>The steps of a client between two histories, each with what was there before it.\<close>

definition own_steps :: "nat \<Rightarrow> (gs_event \<Rightarrow> gs_history \<Rightarrow> bool) \<Rightarrow> gs_history \<Rightarrow> gs_history \<Rightarrow> bool" where
  "own_steps me P h h' \<longleftrightarrow>
     (\<exists>new. h' = new @ h \<and> (\<forall>a e b. new = a @ e # b \<longrightarrow> event_client e = me \<longrightarrow> P e (b @ h)))"

lemma own_steps_refl [simp]: "own_steps me P h h"
  by (simp add: own_steps_def)

lemma own_steps_trans:
  assumes "own_steps me P h1 h2" "own_steps me P h2 h3" shows "own_steps me P h1 h3"
proof -
  obtain n1 where n1: "h2 = n1 @ h1" "\<And>a e b. n1 = a @ e # b \<Longrightarrow> event_client e = me \<Longrightarrow> P e (b @ h1)"
    using assms(1) by (auto simp: own_steps_def)
  obtain n2 where n2: "h3 = n2 @ h2" "\<And>a e b. n2 = a @ e # b \<Longrightarrow> event_client e = me \<Longrightarrow> P e (b @ h2)"
    using assms(2) by (auto simp: own_steps_def)
  have "P e (b @ h1)" if split: "n2 @ n1 = a @ e # b" and "event_client e = me" for a e b
  proof -
    from split consider us where "n2 = a @ us" "us @ n1 = e # b" | us where "n2 @ us = a" "n1 = us @ e # b"
      by (auto simp: append_eq_append_conv2)
    then show ?thesis
    proof cases
      case (1 us)
      then show ?thesis
      proof (cases us)
        case Nil
        with 1 have "n1 = [] @ e # b" by simp
        then show ?thesis using n1(2) that(2) by blast
      next
        case (Cons x r)
        with 1 have "n2 = a @ e # r" "b = r @ n1" by auto
        then show ?thesis using n2(2) that(2) n1(1) by simp
      qed
    next
      case (2 us)
      then show ?thesis using n1(2) that(2) by blast
    qed
  qed
  then show ?thesis unfolding own_steps_def using n1(1) n2(1) by (intro exI[of _ "n2 @ n1"]) auto
qed

lemma own_steps_mono:
  "own_steps me P h h' \<Longrightarrow> (\<And>e b. event_client e = me \<Longrightarrow> P e b \<Longrightarrow> Q e b) \<Longrightarrow> own_steps me Q h h'"
  unfolding own_steps_def by blast

lemma own_steps_suffix: "own_steps me P h h' \<Longrightarrow> suffix h h'"
  by (auto simp: own_steps_def suffix_def)

definition no_steps :: "gs_event \<Rightarrow> gs_history \<Rightarrow> bool" where
  "no_steps e b \<longleftrightarrow> False"

lemma own_steps_none: "own_steps me no_steps h h' \<Longrightarrow> own_steps me P h h'"
  by (erule own_steps_mono) (simp add: no_steps_def)

lemma current_generation: "current h = Some (c, g, d, t) \<Longrightarrow> generation_of h = g"
  by (simp add: generation_of_def)

lemma current_Some: "current h = Some (c, g, d, t) \<Longrightarrow> \<exists>r. h = Written c g d t # r"
  by (auto simp: current_def split: list.splits gs_event.splits)

lemma good_history_suffix: "good_history h \<Longrightarrow> suffix r h \<Longrightarrow> good_history r"
  by (auto simp: good_history_def suffix_def map_filter_def)

lemma good_history_positive: "good_history h \<Longrightarrow> current h = Some (c, g, d, t) \<Longrightarrow> 0 < g"
  by (auto simp: good_history_def map_filter_def dest!: current_Some)

text \<open>A version is current at one point of a history only.\<close>

lemma same_generation:
  assumes "good_history h" "suffix a h" "suffix b h" "generation_of a = g" "generation_of b = g" "g \<noteq> 0"
  shows "a = b"
proof -
  have event: "\<exists>c d t r. x = Written c g d t # r" if "generation_of x = g" for x
    using that assms(6) by (auto simp: generation_of_def current_def split: list.splits gs_event.splits)
  have "x = y" if xy: "suffix x y" "suffix y h" "generation_of x = g" "generation_of y = g" for x y
  proof -
    obtain n where n: "y = n @ x" using xy(1) by (auto simp: suffix_def)
    obtain c d t r where x: "x = Written c g d t # r" using event[OF xy(3)] by blast
    obtain c' d' t' r' where y: "y = Written c' g d' t' # r'" using event[OF xy(4)] by blast
    have "good_history y" by (rule good_history_suffix[OF assms(1) xy(2)])
    then have "distinct (List.map_filter event_generation y)" by (simp add: good_history_def)
    then show ?thesis
      using n x y by (cases n) (auto simp: map_filter_def)
  qed
  then show ?thesis using assms suffix_same_cases[OF assms(2,3)] by metis
qed

section \<open>What \<open>gsutil\<close> does\<close>

text \<open>A service that does nothing to the object, while time goes on and others may.\<close>

definition others :: "('w, 'z) gs_env_scheme \<Rightarrow> nat \<Rightarrow> ('w \<Rightarrow> gs_history) \<Rightarrow> 'w \<Rightarrow> 'w \<Rightarrow> bool" where
  "others env me hist w w' \<longleftrightarrow> own_steps me no_steps (hist w) (hist w') \<and> utc_now env w \<le> utc_now env w'"

text \<open>\<open>data\<close> holds the contents of the temporary files.\<close>

definition temp_laws :: "('w, 'z) gs_env_scheme \<Rightarrow> nat \<Rightarrow> ('w \<Rightarrow> gs_history) \<Rightarrow> (string \<Rightarrow> 'w \<Rightarrow> string option) \<Rightarrow> bool" where
  "temp_laws env me hist data \<longleftrightarrow>
     (\<forall>d w r w'. make_temp env d w = (r, w') \<longrightarrow> others env me hist w w' \<and> (\<forall>n. r = Inr n \<longrightarrow> data n w' = Some d))
     \<and> (\<forall>n w r w'. drop_temp env n w = (r, w') \<longrightarrow> others env me hist w w')"

definition upload_step :: "nat \<Rightarrow> int \<Rightarrow> string \<Rightarrow> int \<Rightarrow> gs_event \<Rightarrow> gs_history \<Rightarrow> bool" where
  "upload_step me v d now e b \<longleftrightarrow> (\<exists>g t. e = Written me g d t \<and> now \<le> t) \<and> generation_of b = v"

definition upload_command :: "gs_context \<Rightarrow> string \<Rightarrow> int \<Rightarrow> string \<Rightarrow> string list" where
  "upload_command ctx path v n = gs_command ctx (no_options\<lparr>opt_version := Some v\<rparr>) (copy_flags ctx copy_defaults False @ [''--'', n, path])"

text \<open>
  An upload with a generation to match writes, if it does, directly on that generation (0 for no object), at a
  time of the storage servers that is not before the time of the client's clock. Whether it does is not known
  when it fails, whatever it reports; when it succeeds it has, and the output has no other generation than the new one.
\<close>

definition known_as :: "(exn + 'a) \<Rightarrow> exn \<Rightarrow> bool" where
  "known_as r e' \<longleftrightarrow> (\<exists>e. r = Inl e \<and> exception (MatchKnownError e) = Some e')"

definition upload_law ::
    "('w, 'z) gs_env_scheme \<Rightarrow> gs_context \<Rightarrow> string \<Rightarrow> nat \<Rightarrow> ('w \<Rightarrow> gs_history) \<Rightarrow> (string \<Rightarrow> 'w \<Rightarrow> string option) \<Rightarrow> bool" where
  "upload_law env ctx path me hist data \<longleftrightarrow>
     (\<forall>v n d w r w'. data n w = Some d \<longrightarrow> gsutil env (upload_command ctx path v n) w = (r, w') \<longrightarrow>
        data n w' = Some d \<and> utc_now env w \<le> utc_now env w' \<and> own_steps me (upload_step me v d (utc_now env w)) (hist w) (hist w')
        \<and> (isOk r \<longrightarrow>
             (\<exists>a b g t. hist w' = a @ Written me g d t # b \<and> suffix (hist w) b \<and> upload_step me v d (utc_now env w) (Written me g d t) b
                \<and> (\<forall>out err k. r = Inr (out, err) \<longrightarrow> created_generation err = Some k \<longrightarrow> k = g))))"

text \<open>Reports have the state of the object at one moment, with the time of its creation in full seconds.\<close>

definition full_seconds :: "int \<Rightarrow> int" where
  "full_seconds t = t div 1000000 * 1000000"

definition stat_law :: "('w, 'z) gs_env_scheme \<Rightarrow> gs_context \<Rightarrow> string \<Rightarrow> nat \<Rightarrow> ('w \<Rightarrow> gs_history) \<Rightarrow> bool" where
  "stat_law env ctx path me hist \<longleftrightarrow>
     (\<forall>w r w'. gsutil env (gs_command ctx no_options [''stat'', ''--'', path]) w = (r, w') \<longrightarrow>
        others env me hist w w'
        \<and> (\<forall>out err st. r = Inr (out, err) \<longrightarrow> ParseStat out = Inr st \<longrightarrow>
             (\<exists>b c d t. suffix (hist w) b \<and> suffix b (hist w') \<and> current b = Some (c, generation st, d, t)
                \<and> creation_time st = full_seconds t)))"

definition cat_law :: "('w, 'z) gs_env_scheme \<Rightarrow> gs_context \<Rightarrow> string \<Rightarrow> nat \<Rightarrow> ('w \<Rightarrow> gs_history) \<Rightarrow> bool" where
  "cat_law env ctx path me hist \<longleftrightarrow>
     (\<forall>w r w'. gsutil env (gs_command ctx no_options [''cat'', path]) w = (r, w') \<longrightarrow>
        others env me hist w w'
        \<and> (\<exists>b. suffix (hist w) b \<and> suffix b (hist w')
             \<and> (\<forall>out err. r = Inr (out, err) \<longrightarrow> (\<exists>c g t. current b = Some (c, g, out, t)))
             \<and> (\<forall>e. r = Inl e \<longrightarrow> exception (MatchKnownError e) = Some GSNoSuchKey \<longrightarrow> current b = None)))"

definition remove_step :: "nat \<Rightarrow> int \<Rightarrow> int \<Rightarrow> gs_event \<Rightarrow> gs_history \<Rightarrow> bool" where
  "remove_step me v now e b \<longleftrightarrow> (\<exists>t. e = Removed me t \<and> now \<le> t) \<and> generation_of b = v"

definition remove_law :: "('w, 'z) gs_env_scheme \<Rightarrow> gs_context \<Rightarrow> string \<Rightarrow> nat \<Rightarrow> ('w \<Rightarrow> gs_history) \<Rightarrow> bool" where
  "remove_law env ctx path me hist \<longleftrightarrow>
     (\<forall>v w r w'. gsutil env (gs_command ctx (no_options\<lparr>opt_version := Some v\<rparr>) [''rm'', ''--'', path]) w = (r, w') \<longrightarrow>
        utc_now env w \<le> utc_now env w' \<and> own_steps me (remove_step me v (utc_now env w)) (hist w) (hist w'))"

definition object_laws ::
    "('w, 'z) gs_env_scheme \<Rightarrow> gs_context \<Rightarrow> string \<Rightarrow> nat \<Rightarrow> ('w \<Rightarrow> gs_history) \<Rightarrow> (string \<Rightarrow> 'w \<Rightarrow> string option) \<Rightarrow> bool" where
  "object_laws env ctx path me hist data \<longleftrightarrow>
     PathIsGs path \<and> context_ok ctx \<and> \<not> ctx_dry_run ctx \<and> (\<forall>w. good_history (hist w))
     \<and> (\<forall>cmd w e w'. gsutil env cmd w = (Inl e, w') \<longrightarrow> command_failure e \<noteq> None)
     \<and> temp_laws env me hist data \<and> upload_law env ctx path me hist data \<and> stat_law env ctx path me hist
     \<and> cat_law env ctx path me hist \<and> remove_law env ctx path me hist"

section \<open>Steps of the operations\<close>

lemma othersD: "others env me hist w w' \<Longrightarrow> own_steps me P (hist w) (hist w') \<and> suffix (hist w) (hist w') \<and> utc_now env w \<le> utc_now env w'"
  using own_steps_none own_steps_suffix by (auto simp: others_def)

lemma others_refl [simp]: "others env me hist w w"
  by (simp add: others_def)

lemma others_trans: "others env me hist w w' \<Longrightarrow> others env me hist w' w'' \<Longrightarrow> others env me hist w w''"
  by (auto simp: others_def intro: own_steps_trans)

text \<open>An action whose steps may depend on the time at which it begins.\<close>

definition steps :: "('w, 'z) gs_env_scheme \<Rightarrow> nat \<Rightarrow> ('w \<Rightarrow> gs_history) \<Rightarrow> ('w \<Rightarrow> gs_event \<Rightarrow> gs_history \<Rightarrow> bool) \<Rightarrow> 'w \<Rightarrow> 'w \<Rightarrow> bool" where
  "steps env me hist P w w' \<longleftrightarrow> own_steps me (P w) (hist w) (hist w') \<and> utc_now env w \<le> utc_now env w'"

definition later :: "('w, 'z) gs_env_scheme \<Rightarrow> ('w \<Rightarrow> gs_event \<Rightarrow> gs_history \<Rightarrow> bool) \<Rightarrow> bool" where
  "later env P \<longleftrightarrow> (\<forall>w w' e b. utc_now env w \<le> utc_now env w' \<longrightarrow> P w' e b \<longrightarrow> P w e b)"

lemma steps_refl [simp]: "steps env me hist P w w"
  by (simp add: steps_def)

lemma steps_trans:
  assumes "later env P" "steps env me hist P w w'" "steps env me hist P w' w''" shows "steps env me hist P w w''"
proof -
  have "own_steps me (P w) (hist w') (hist w'')"
    using assms unfolding steps_def later_def by (blast intro: own_steps_mono)
  with assms(2,3) show ?thesis unfolding steps_def by (auto intro: own_steps_trans)
qed

lemma steps_suffix: "steps env me hist P w w' \<Longrightarrow> suffix (hist w) (hist w')"
  by (auto simp: steps_def intro: own_steps_suffix)

lemma others_steps: "others env me hist w w' \<Longrightarrow> steps env me hist P w w'"
  by (simp add: others_def steps_def own_steps_none)

lemma later_upload: "later env (\<lambda>w. upload_step me v d (utc_now env w))"
  by (auto simp: later_def upload_step_def)

lemma later_remove: "later env (\<lambda>w. remove_step me v (utc_now env w))"
  by (auto simp: later_def remove_step_def)

lemma later_const: "later env (\<lambda>w. P)"
  by (simp add: later_def)

lemma iterate_steps:
  assumes "\<And>w r w'. I w \<Longrightarrow> f w = (r, w') \<Longrightarrow> I w' \<and> steps env me hist P w w'" "later env P" "I w"
  shows "I (iterate f k w) \<and> steps env me hist P w (iterate f k w)"
proof (induction k)
  case (Suc k)
  obtain r w' where "f (iterate f k w) = (r, w')" by force
  with assms(1)[of "iterate f k w" r w'] Suc steps_trans[OF assms(2)] show ?case by auto
qed (simp add: assms(3))

text \<open>A command is run until its last attempt, from a later state.\<close>

definition last_result :: "exn + 'a \<Rightarrow> exn + 'a option \<Rightarrow> bool" where
  "last_result r1 r \<longleftrightarrow> (case r1 of Inr out \<Rightarrow> r = Inr (Some out)
     | Inl e1 \<Rightarrow> (\<exists>e. r = Inl e \<and> (case exception (MatchKnownError e1) of Some e' \<Rightarrow> e = e' | None \<Rightarrow> (\<exists>c err. e = GSCommandError c err))))"

lemma DoCommand_steps:
  fixes env :: "('w, 'z) gs_env_scheme" and w :: 'w
  assumes step: "\<And>w r w'. I w \<Longrightarrow> gsutil env (gs_command ctx opts cmd) w = (r, w') \<Longrightarrow> I w' \<and> steps env me hist P w w'"
    and fails: "\<And>w e w'. gsutil env (gs_command ctx opts cmd) w = (Inl e, w') \<Longrightarrow> command_failure e \<noteq> None"
    and ctx: "later env P" "context_ok ctx" "\<not> ctx_dry_run ctx" "opt_retries opts = None"
    and I: "I w" and run: "DoCommand env ctx opts cmd w = (r, w')"
  obtains w1 r1 where "I w1" "steps env me hist P w w1" "gsutil env (gs_command ctx opts cmd) w1 = (r1, w')"
    "I w'" "steps env me hist P w w'" "last_result r1 r"
proof -
  let ?f = "gsutil env (gs_command ctx opts cmd)"
  have "0 \<le> command_retries ctx opts" "0 \<le> sleep_time ctx" using ctx by (simp_all add: context_ok_def command_retries_def)
  from DoCommand_run[OF ctx(3) this, of env cmd w] obtain k
    where res: "r = command_result (call_at ?f w 0) (call_at ?f w k)" and w': "w' = iterate ?f (Suc k) w"
      and k: "last_call RetryFilter (nat (command_retries ctx opts)) ?f w k" using run by auto
  have first: "\<exists>c err. as_gs_error (projl (call_at ?f w 0)) = GSCommandError c err" if bad: "\<not> isOk (call_at ?f w k)"
  proof -
    obtain e where e: "call_at ?f w 0 = Inl e"
      using bad k unfolding last_call_def by (cases "call_at ?f w 0") (auto simp: isOk_iff elim!: allE[where x = 0])
    then have "?f w = (Inl e, snd (?f w))" by (simp add: call_at_def prod_eq_iff)
    from fails[OF this] e show ?thesis by (auto simp: as_gs_error_def)
  qed
  note it = iterate_steps[where f = ?f and I = I, OF step ctx(1) I]
  show thesis
  proof (rule that)
    show "I (iterate ?f k w)" "steps env me hist P w (iterate ?f k w)" using it[where k = k] by simp_all
    show "?f (iterate ?f k w) = (call_at ?f w k, w')" by (simp add: call_at_def w' prod_eq_iff)
    show "I w'" "steps env me hist P w w'" using it[where k = "Suc k"] by (simp_all add: w' del: iterate_simps)
    show "last_result (call_at ?f w k) r"
      using first by (auto simp: last_result_def res command_result_def split: sum.splits option.splits)
  qed
qed

lemma steps_none: "steps env me hist (\<lambda>w. no_steps) w w' \<longleftrightarrow> others env me hist w w'"
  by (simp add: steps_def others_def)

lemma object_lawsD:
  assumes "object_laws env ctx path me hist data"
  shows "PathIsGs path" "context_ok ctx" "\<not> ctx_dry_run ctx" "good_history (hist w)"
    "gsutil env cmd w = (Inl e, w') \<Longrightarrow> command_failure e \<noteq> None"
    "temp_laws env me hist data" "upload_law env ctx path me hist data" "stat_law env ctx path me hist"
    "cat_law env ctx path me hist" "remove_law env ctx path me hist"
  using assms unfolding object_laws_def by blast+

lemma last_result_Inr: "last_result r1 (Inr x) \<longleftrightarrow> (\<exists>out. r1 = Inr out \<and> x = Some out)"
  by (auto simp: last_result_def split: sum.splits)

lemma gs_exceptions_differ [simp]:
  "GSCommandError c err \<noteq> GSNoSuchKey" "GSCommandError c err \<noteq> GSContextPreconditionFailed" "GSCommandError c err \<noteq> GSContextException"
  "PyExc e \<noteq> GSNoSuchKey" "PyExc e \<noteq> GSContextPreconditionFailed" "GSContextException \<noteq> GSNoSuchKey" "GSContextException \<noteq> GSContextPreconditionFailed"
  by (simp_all add: GSNoSuchKey_def GSContextPreconditionFailed_def GSContextException_def)

lemma last_result_known: "last_result r1 (Inl e) \<Longrightarrow> e = GSNoSuchKey \<or> e = GSContextPreconditionFailed \<Longrightarrow> known_as r1 e"
  by (auto simp: last_result_def known_as_def split: sum.splits option.splits)

lemma suffix_shift: "suffix x y \<Longrightarrow> suffix y z \<Longrightarrow> suffix x z"
  by (rule suffix_order.trans)

text \<open>A command that only reads.\<close>

lemma DoCommand_others:
  fixes env :: "('w, 'z) gs_env_scheme" and w :: 'w
  assumes laws: "object_laws env ctx path me hist data"
    and step: "\<forall>w r w'. gsutil env (gs_command ctx no_options cmd) w = (r, w') \<longrightarrow> others env me hist w w'"
    and run: "DoCommand env ctx no_options cmd w = (r, w')"
  obtains w1 r1 where "others env me hist w w1" "gsutil env (gs_command ctx no_options cmd) w1 = (r1, w')"
    "others env me hist w w'" "last_result r1 r"
proof (rule DoCommand_steps[where I = "\<lambda>w. True" and env = env and ctx = ctx and opts = no_options and cmd = cmd
      and P = "\<lambda>w. no_steps" and me = me and hist = hist and w = w and r = r and w' = w'])
  show "gsutil env (gs_command ctx no_options cmd) w = (r, w') \<Longrightarrow> True \<and> steps env me hist (\<lambda>w. no_steps) w w'" for w r w'
    using step by (simp add: steps_none)
  show "gsutil env (gs_command ctx no_options cmd) w = (Inl e, w') \<Longrightarrow> command_failure e \<noteq> None" for w e w'
    by (rule object_lawsD(5)[OF laws])
qed (use that object_lawsD(2,3)[OF laws] run in \<open>auto simp: steps_none later_const no_options_def\<close>)

lemma Stat_object:
  fixes env :: "('w, 'z) gs_env_scheme" and w :: 'w
  assumes laws: "object_laws env ctx path me hist data" and run: "Stat env ctx no_options path w = (r, w')"
  shows "others env me hist w w'
    \<and> (\<forall>st. r = Inr st \<longrightarrow> (\<exists>b c d t. suffix (hist w) b \<and> suffix b (hist w') \<and> current b = Some (c, generation st, d, t)
          \<and> creation_time st = full_seconds t))"
proof -
  obtain r2 where stat: "DoCommand env ctx no_options [''stat'', ''--'', path] w = (r2, w')"
    and r: "\<And>st. r = Inr st \<Longrightarrow> \<exists>out err. r2 = Inr (Some (out, err)) \<and> ParseStat out = Inr st"
    using run object_lawsD(3)[OF laws]
    by (auto simp: Stat_def act_bind_def act_catch_def output_of_def lift_py_def split: prod.splits sum.splits option.splits)
  have read: "\<forall>w r w'. gsutil env (gs_command ctx no_options [''stat'', ''--'', path]) w = (r, w') \<longrightarrow> others env me hist w w'"
    using object_lawsD(8)[OF laws] unfolding stat_law_def by blast
  obtain w1 r1 where s: "others env me hist w w1" "gsutil env (gs_command ctx no_options [''stat'', ''--'', path]) w1 = (r1, w')"
    "others env me hist w w'" "last_result r1 r2"
    using DoCommand_others[OF laws read stat] by blast
  have "\<exists>b c d t. suffix (hist w) b \<and> suffix b (hist w') \<and> current b = Some (c, generation st, d, t) \<and> creation_time st = full_seconds t"
    if ok: "r = Inr st" for st
  proof -
    obtain out err where out: "r2 = Inr (Some (out, err))" "ParseStat out = Inr st" using r[OF ok] by blast
    with s(4) have "r1 = Inr (out, err)" by (simp add: last_result_Inr)
    with s(2) out(2) object_lawsD(8)[OF laws] obtain b c d t where b: "suffix (hist w1) b" "suffix b (hist w')"
      "current b = Some (c, generation st, d, t)" "creation_time st = full_seconds t" unfolding stat_law_def by blast
    have "suffix (hist w) b" using othersD[OF s(1)] b(1) suffix_shift by blast
    with b show ?thesis by blast
  qed
  with s(3) show ?thesis by blast
qed

lemma Cat_object:
  fixes env :: "('w, 'z) gs_env_scheme" and w :: 'w
  assumes laws: "object_laws env ctx path me hist data" and run: "Cat env ctx no_options False path w = (r, w')"
  shows "others env me hist w w' \<and> (\<exists>b. suffix (hist w) b \<and> suffix b (hist w')
    \<and> (\<forall>t. r = Inr t \<longrightarrow> (\<exists>c g d tm. current b = Some (c, g, d, tm) \<and> t = Bytes d)) \<and> (r = Inl GSNoSuchKey \<longrightarrow> current b = None))"
proof -
  obtain r2 where cat: "DoCommand env ctx no_options [''cat'', path] w = (r2, w')"
    and ok: "\<And>t. r = Inr t \<Longrightarrow> \<exists>out err. r2 = Inr (Some (out, err)) \<and> t = Bytes out" and missing: "r = Inl GSNoSuchKey \<Longrightarrow> r2 = Inl GSNoSuchKey"
    using run object_lawsD(1,3)[OF laws]
    by (auto simp: Cat_def Let_def act_bind_def output_of_def lift_py_def split: prod.splits sum.splits option.splits)
  have read: "\<forall>w r w'. gsutil env (gs_command ctx no_options [''cat'', path]) w = (r, w') \<longrightarrow> others env me hist w w'"
    using object_lawsD(9)[OF laws] unfolding cat_law_def by blast
  obtain w1 r1 where s: "others env me hist w w1" "gsutil env (gs_command ctx no_options [''cat'', path]) w1 = (r1, w')"
    "others env me hist w w'" "last_result r1 r2"
    using DoCommand_others[OF laws read cat] by blast
  obtain b where b: "suffix (hist w1) b" "suffix b (hist w')" "\<forall>out err. r1 = Inr (out, err) \<longrightarrow> (\<exists>c g t. current b = Some (c, g, out, t))"
      "\<forall>e. r1 = Inl e \<longrightarrow> exception (MatchKnownError e) = Some GSNoSuchKey \<longrightarrow> current b = None"
    using object_lawsD(9)[OF laws, unfolded cat_law_def, THEN spec, THEN spec, THEN spec, THEN mp, OF s(2), THEN conjunct2]
    by (elim exE conjE) (rule that)
  have "suffix (hist w) b" using othersD[OF s(1)] b(1) suffix_shift by blast
  moreover have "\<exists>c g d tm. current b = Some (c, g, d, tm) \<and> t = Bytes d" if "r = Inr t" for t
    using ok[OF that] b(3) s(4) by (auto simp: last_result_Inr)
  moreover have "current b = None" if "r = Inl GSNoSuchKey"
    using last_result_known[of r1 GSNoSuchKey] missing[OF that] s(4) b(4) by (auto simp: known_as_def)
  ultimately show ?thesis using s(3) b(2) by blast
qed

text \<open>The client wrote \<open>d\<close> on generation \<open>v\<close>, which was current at some time after \<open>h\<close>.\<close>

definition wrote :: "nat \<Rightarrow> int \<Rightarrow> string \<Rightarrow> int \<Rightarrow> gs_history \<Rightarrow> gs_history \<Rightarrow> int option \<Rightarrow> bool" where
  "wrote me v d now h h' k \<longleftrightarrow>
     (\<exists>a b g t. h' = a @ Written me g d t # b \<and> suffix h b \<and> generation_of b = v \<and> now \<le> t \<and> (\<forall>g'. k = Some g' \<longrightarrow> g' = g))"

lemma wrote_mono:
  assumes "wrote me v d now h1 h2 k" "suffix h h1" "suffix h2 h'" "now' \<le> now" shows "wrote me v d now' h h' k"
proof -
  obtain a b g t where w: "h2 = a @ Written me g d t # b" "suffix h1 b" "generation_of b = v" "now \<le> t" "\<forall>g'. k = Some g' \<longrightarrow> g' = g"
    using assms(1) unfolding wrote_def by blast
  obtain x where "h' = x @ h2" using assms(3) by (auto simp: suffix_def)
  with w(1) have "h' = (x @ a) @ Written me g d t # b" by simp
  moreover have "suffix h b" "now' \<le> t" using w(2,4) assms(2,4) suffix_shift by auto
  ultimately show ?thesis using w(3,5) unfolding wrote_def by blast
qed

text \<open>
  Between two histories \<open>gsutil\<close> answered an upload of \<open>d\<close> with an error that the code takes for a missing object. \<open>Copy\<close>
  returns then as if it had been made; whether it was is not known.
\<close>

definition missing_upload ::
    "('w, 'z) gs_env_scheme \<Rightarrow> gs_context \<Rightarrow> string \<Rightarrow> ('w \<Rightarrow> gs_history) \<Rightarrow> (string \<Rightarrow> 'w \<Rightarrow> string option) \<Rightarrow> int \<Rightarrow> string
      \<Rightarrow> gs_history \<Rightarrow> gs_history \<Rightarrow> bool" where
  "missing_upload env ctx path hist data v d h h' \<longleftrightarrow>
     (\<exists>n w e w'. data n w = Some d \<and> suffix h (hist w) \<and> suffix (hist w') h'
        \<and> gsutil env (upload_command ctx path v n) w = (Inl e, w') \<and> exception (MatchKnownError e) = Some GSNoSuchKey)"

lemma missing_upload_mono:
  "missing_upload env ctx path hist data v d h1 h2 \<Longrightarrow> suffix h h1 \<Longrightarrow> suffix h2 h' \<Longrightarrow> missing_upload env ctx path hist data v d h h'"
  unfolding missing_upload_def using suffix_shift by blast

definition versioned :: "int \<Rightarrow> gs_options" where
  "versioned v = no_options\<lparr>opt_version := Some v\<rparr>"

definition uploading :: "string \<Rightarrow> copy_options" where
  "uploading d = copy_defaults\<lparr>copy_input := Some d\<rparr>"

lemma upload_command_alt: "gs_command ctx (versioned v) (copy_flags ctx (uploading d) f @ [''--'', n, path]) = upload_command ctx path v n"
  by (simp add: upload_command_def versioned_def uploading_def copy_flags_def copy_defaults_def)

lemma copy_from_object:
  fixes env :: "('w, 'z) gs_env_scheme" and w :: 'w
  assumes laws: "object_laws env ctx path me hist data" and data: "data n w = Some d"
    and run: "copy_from env ctx (versioned v) (copy_flags ctx (uploading d) f) n path w = (r, w')"
  shows "steps env me hist (\<lambda>w. upload_step me v d (utc_now env w)) w w'
    \<and> (\<forall>k. r = Inr k \<longrightarrow> wrote me v d (utc_now env w) (hist w) (hist w') k
         \<or> k = None \<and> missing_upload env ctx path hist data v d (hist w) (hist w'))"
proof -
  let ?cmd = "copy_flags ctx (uploading d) f @ [''--'', n, path]"
  let ?P = "\<lambda>w. upload_step me v d (utc_now env w)"
  obtain r2 where cp: "DoCommand env ctx (versioned v) ?cmd w = (r2, w')"
    and r: "\<forall>k. r = Inr k \<longrightarrow> r2 = Inl GSNoSuchKey \<and> k = None \<or> (r2 = Inr None \<and> k = None) \<or> (\<exists>out err. r2 = Inr (Some (out, err)) \<and> k = created_generation err)"
    using run object_lawsD(1)[OF laws]
    by (auto simp: copy_from_def act_bind_def act_catch_def split: prod.splits sum.splits option.splits if_splits)
  have law: "data n w' = Some d \<and> utc_now env w \<le> utc_now env w' \<and> own_steps me (?P w) (hist w) (hist w')
      \<and> (isOk r \<longrightarrow>
             (\<exists>a b g t. hist w' = a @ Written me g d t # b \<and> suffix (hist w) b \<and> upload_step me v d (utc_now env w) (Written me g d t) b
                \<and> (\<forall>out err k. r = Inr (out, err) \<longrightarrow> created_generation err = Some k \<longrightarrow> k = g)))"
    if "data n w = Some d" "gsutil env (gs_command ctx (versioned v) ?cmd) w = (r, w')" for w r w'
    using object_lawsD(7)[OF laws, unfolded upload_law_def, rule_format, OF that(1), of v r w'] that(2)
    unfolding upload_command_alt by blast
  obtain w1 r1 where s: "data n w1 = Some d" "steps env me hist ?P w w1" "gsutil env (gs_command ctx (versioned v) ?cmd) w1 = (r1, w')"
    "steps env me hist ?P w w'" "last_result r1 r2"
  proof (rule DoCommand_steps[where I = "\<lambda>w. data n w = Some d" and env = env and ctx = ctx and opts = "versioned v" and cmd = ?cmd
        and P = ?P and me = me and hist = hist and w = w and r = r2 and w' = w'])
    show "data n w' = Some d \<and> steps env me hist ?P w w'"
      if "data n w = Some d" "gsutil env (gs_command ctx (versioned v) ?cmd) w = (r, w')" for w r w'
      using law[OF that] by (simp add: steps_def)
    show "command_failure e \<noteq> None" if "gsutil env (gs_command ctx (versioned v) ?cmd) w = (Inl e, w')" for w e w'
      by (rule object_lawsD(5)[OF laws that])
  qed (use object_lawsD(2,3)[OF laws] cp data later_upload in \<open>auto simp: versioned_def no_options_def\<close>)
  have "wrote me v d (utc_now env w) (hist w) (hist w') k \<or> k = None \<and> missing_upload env ctx path hist data v d (hist w) (hist w')"
    if "r = Inr k" for k
  proof (cases r1)
    case (Inl e)
    then have "r2 = Inl GSNoSuchKey" "k = None" using r that s(5) by (auto simp: last_result_Inr)
    with s(5) have "exception (MatchKnownError e) = Some GSNoSuchKey"
      using last_result_known[of r1 GSNoSuchKey] Inl by (auto simp: known_as_def)
    moreover have "gsutil env (upload_command ctx path v n) w1 = (Inl e, w')" using s(3) Inl by (simp add: upload_command_alt)
    ultimately show ?thesis using s(1) steps_suffix[OF s(2)] \<open>k = None\<close> unfolding missing_upload_def by blast
  next
    case (Inr out)
    then have "isOk r1" by simp
    with law[OF s(1,3)] obtain a b g t where b: "hist w' = a @ Written me g d t # b" "suffix (hist w1) b"
      "upload_step me v d (utc_now env w1) (Written me g d t) b" "\<forall>out err k. r1 = Inr (out, err) \<longrightarrow> created_generation err = Some k \<longrightarrow> k = g"
      by blast
    have "suffix (hist w) b" using steps_suffix[OF s(2)] b(2) suffix_shift by blast
    moreover have "utc_now env w \<le> t" using s(2) b(3) by (auto simp: steps_def upload_step_def)
    moreover have "\<forall>g'. k = Some g' \<longrightarrow> g' = g"
      using r[THEN spec, THEN mp, OF that] b(4) s(5) by (auto simp: last_result_Inr)
    ultimately have "wrote me v d (utc_now env w) (hist w) (hist w') k" using b(1,3) unfolding wrote_def upload_step_def by blast
    then show ?thesis ..
  qed
  with s(4) show ?thesis by blast
qed

lemma Copy_object:
  fixes env :: "('w, 'z) gs_env_scheme" and w :: 'w
  assumes laws: "object_laws env ctx path me hist data"
    and run: "Copy env ctx (versioned v) (uploading d) ''-'' path w = (r, w')"
  shows "steps env me hist (\<lambda>w. upload_step me v d (utc_now env w)) w w'
    \<and> (\<forall>k. r = Inr k \<longrightarrow> wrote me v d (utc_now env w) (hist w) (hist w') k
         \<or> k = None \<and> missing_upload env ctx path hist data v d (hist w) (hist w'))"
proof -
  let ?P = "\<lambda>w. upload_step me v d (utc_now env w)"
  have temp: "others env me hist w w'" "r = Inr n \<Longrightarrow> data n w' = Some d" if "make_temp env d w = (r, w')" for w r w' n
    using object_lawsD(6)[OF laws] that unfolding temp_laws_def by blast+
  have drop: "others env me hist w w'" if "drop_temp env n w = (r, w')" for w r w' n
    using object_lawsD(6)[OF laws] that unfolding temp_laws_def by blast
  have copy: "Copy env ctx (versioned v) (uploading d) ''-'' path w
      = act_bind (make_temp env d) (\<lambda>name. act_finally (copy_from env ctx (versioned v) (copy_flags ctx (uploading d) (local_file env ''-'' w)) name path)
          (drop_temp env name)) w"
    by (simp add: Copy_def act_bind_def Let_def uploading_def)
  obtain rt w1 where mk: "make_temp env d w = (rt, w1)" by force
  show ?thesis
  proof (cases rt)
    case (Inl e)
    with mk copy run have "w' = w1" "r = Inl e" by simp_all
    with temp(1)[OF mk] show ?thesis by (simp add: others_steps)
  next
    case (Inr n)
    obtain rc w2 where cp: "copy_from env ctx (versioned v) (copy_flags ctx (uploading d) (local_file env ''-'' w)) n path w1 = (rc, w2)" by force
    obtain rd w3 where dr: "drop_temp env n w2 = (rd, w3)" by force
    have fin: "w' = w3" "\<And>k. r = Inr k \<Longrightarrow> rc = Inr k"
      using run copy mk Inr cp dr by (auto simp: act_finally_def split: sum.splits)
    note c = copy_from_object[OF laws temp(2)[OF mk Inr] cp]
    have w01: "others env me hist w w1" and w23: "others env me hist w2 w3" using temp(1)[OF mk] drop[OF dr] by simp_all
    have "steps env me hist ?P w w'"
      using steps_trans[OF later_upload steps_trans[OF later_upload others_steps[OF w01] c[THEN conjunct1]] others_steps[OF w23]] fin(1) by simp
    moreover have "wrote me v d (utc_now env w) (hist w) (hist w') k \<or> k = None \<and> missing_upload env ctx path hist data v d (hist w) (hist w')"
      if "r = Inr k" for k
      using c fin(2)[OF that] fin(1) othersD[OF w01] othersD[OF w23] by (blast intro: wrote_mono missing_upload_mono)
    ultimately show ?thesis by blast
  qed
qed

lemma Remove_object:
  fixes env :: "('w, 'z) gs_env_scheme" and w :: 'w
  assumes laws: "object_laws env ctx path me hist data"
    and run: "Remove env ctx (versioned v) False ignore_missing [path] w = (r, w')"
  shows "steps env me hist (\<lambda>w. remove_step me v (utc_now env w)) w w'"
proof -
  obtain r2 where rm: "DoCommand env ctx (versioned v) [''rm'', ''--'', path] w = (r2, w')"
    using run by (auto simp: Remove_def act_bind_def act_catch_def split: prod.splits sum.splits if_splits)
  show ?thesis
  proof (rule DoCommand_steps[where I = "\<lambda>w. True" and env = env and ctx = ctx and opts = "versioned v" and cmd = "[''rm'', ''--'', path]"
        and P = "\<lambda>w. remove_step me v (utc_now env w)" and me = me and hist = hist and w = w and r = r2 and w' = w'])
    show "True \<and> steps env me hist (\<lambda>w. remove_step me v (utc_now env w)) w w'"
      if "gsutil env (gs_command ctx (versioned v) [''rm'', ''--'', path]) w = (r, w')" for w r w'
      using object_lawsD(10)[OF laws] that unfolding remove_law_def versioned_def steps_def by blast
    show "command_failure e \<noteq> None" if "gsutil env (gs_command ctx (versioned v) [''rm'', ''--'', path]) w = (Inl e, w')" for w e w'
      by (rule object_lawsD(5)[OF laws that])
  qed (use object_lawsD(2,3)[OF laws] rm later_remove in \<open>auto simp: versioned_def no_options_def\<close>)
qed

lemma own_steps_within:
  assumes "own_steps me P h h'" and "\<And>e b. event_client e = me \<Longrightarrow> suffix h b \<Longrightarrow> suffix b h' \<Longrightarrow> P e b \<Longrightarrow> Q e b"
  shows "own_steps me Q h h'"
proof -
  obtain new where new: "h' = new @ h" "\<forall>a e b. new = a @ e # b \<longrightarrow> event_client e = me \<longrightarrow> P e (b @ h)"
    using assms(1) unfolding own_steps_def by blast
  have "Q e (b @ h)" if "new = a @ e # b" "event_client e = me" for a e b
    using assms(2)[of e "b @ h"] new that by (simp add: suffix_def)
  with new(1) show ?thesis unfolding own_steps_def by blast
qed

section \<open>Counters\<close>

text \<open>What an update of a counter writes is computed from the version that it replaces.\<close>

definition counter_value :: "int \<Rightarrow> (int \<Rightarrow> int) \<Rightarrow> gs_history \<Rightarrow> int \<Rightarrow> bool" where
  "counter_value dflt upd b v \<longleftrightarrow>
     (case current b of None \<Rightarrow> v = dflt | Some (c, g, s, t) \<Rightarrow> (\<exists>n. py_int s = Inr n \<and> v = upd n))"

definition counter_step :: "nat \<Rightarrow> int \<Rightarrow> (int \<Rightarrow> int) \<Rightarrow> gs_event \<Rightarrow> gs_history \<Rightarrow> bool" where
  "counter_step me dflt upd e b \<longleftrightarrow> (\<exists>g v t. e = Written me g (str_of_int v) t \<and> counter_value dflt upd b v)"

text \<open>A generation that was seen before.\<close>

definition seen :: "int \<Rightarrow> gs_history \<Rightarrow> bool" where
  "seen g h \<longleftrightarrow> g = 0 \<or> g \<noteq> 0 \<and> (\<exists>b. suffix b h \<and> generation_of b = g)"

lemma seen_mono: "seen g h \<Longrightarrow> suffix h h' \<Longrightarrow> seen g h'"
  unfolding seen_def using suffix_shift by blast

lemma generation_None: "good_history b \<Longrightarrow> generation_of b = 0 \<longleftrightarrow> current b = None"
  by (auto simp: generation_of_def dest: good_history_positive split: option.splits)

lemma GetGeneration_object:
  fixes env :: "('w, 'z) gs_env_scheme" and w :: 'w
  assumes laws: "object_laws env ctx path me hist data" and run: "GetGeneration env ctx path w = (r, w')"
  shows "others env me hist w w' \<and> (\<forall>g m. r = Inr (g, m) \<longrightarrow> seen g (hist w'))"
proof -
  obtain rs where st: "Stat env ctx no_options path w = (rs, w')"
    and r: "\<forall>g m. r = Inr (g, m) \<longrightarrow> (\<exists>st. rs = Inr st \<and> g = generation st) \<or> g = 0"
    using run by (auto simp: GetGeneration_def act_bind_def act_catch_def split: prod.splits sum.splits if_splits)
  note s = Stat_object[OF laws st]
  have "seen g (hist w')" if ok: "r = Inr (g, m)" for g m
  proof -
    consider "g = 0" | st where "rs = Inr st" "g = generation st" using r ok by blast
    then show ?thesis
    proof cases
      case (2 st)
      with s obtain b c d t where "suffix b (hist w')" "current b = Some (c, g, d, t)" by blast
      then show ?thesis by (auto simp: seen_def dest: current_generation)
    qed (simp add: seen_def)
  qed
  with s show ?thesis by blast
qed

lemma Counter_Get_object:
  fixes env :: "('w, 'z) gs_env_scheme" and w :: 'w
  assumes laws: "object_laws env ctx path me hist data" and run: "Counter_Get env ctx path w = (r, w')"
  shows "others env me hist w w' \<and> (\<forall>n. r = Inr n \<longrightarrow> (\<exists>b. suffix (hist w) b \<and> suffix b (hist w')
    \<and> (\<forall>c g d t. current b = Some (c, g, d, t) \<longrightarrow> py_int d = Inr n)))"
proof -
  obtain rc where cat: "Cat env ctx no_options False path w = (rc, w')"
    and r: "\<forall>n. r = Inr n \<longrightarrow> rc = Inl GSNoSuchKey \<or> (\<exists>t. rc = Inr t \<and> py_int (text_of t) = Inr n)"
    using run by (auto simp: Counter_Get_def act_bind_def act_catch_def lift_py_def split: prod.splits sum.splits if_splits)
  have c: "others env me hist w w'" and "\<exists>b. suffix (hist w) b \<and> suffix b (hist w')
      \<and> (\<forall>t. rc = Inr t \<longrightarrow> (\<exists>c g d tm. current b = Some (c, g, d, tm) \<and> t = Bytes d)) \<and> (rc = Inl GSNoSuchKey \<longrightarrow> current b = None)"
    using Cat_object[OF laws cat] by simp_all
  then obtain b where b: "suffix (hist w) b" "suffix b (hist w')" "\<forall>t. rc = Inr t \<longrightarrow> (\<exists>c g d tm. current b = Some (c, g, d, tm) \<and> t = Bytes d)"
    "rc = Inl GSNoSuchKey \<longrightarrow> current b = None" by blast
  have "py_int d = Inr n" if "r = Inr n" "current b = Some (c, g, d, t)" for n c g d t
    using r that b(3,4) by (auto simp: text_of_def)
  with b(1,2) c show ?thesis by blast
qed

definition counted :: "nat \<Rightarrow> int \<Rightarrow> (int \<Rightarrow> int) \<Rightarrow> gs_history \<Rightarrow> gs_history \<Rightarrow> int \<Rightarrow> bool" where
  "counted me dflt upd h h' v \<longleftrightarrow> (\<exists>a b g t. h' = a @ Written me g (str_of_int v) t # b \<and> suffix h b \<and> counter_value dflt upd b v)"

text \<open>A returned value: it was written, or its upload was answered as that of a missing object.\<close>

definition returned_value ::
    "('w, 'z) gs_env_scheme \<Rightarrow> gs_context \<Rightarrow> string \<Rightarrow> ('w \<Rightarrow> gs_history) \<Rightarrow> (string \<Rightarrow> 'w \<Rightarrow> string option)
      \<Rightarrow> nat \<Rightarrow> int \<Rightarrow> (int \<Rightarrow> int) \<Rightarrow> gs_history \<Rightarrow> gs_history \<Rightarrow> int \<Rightarrow> bool" where
  "returned_value env ctx path hist data me dflt upd h h' v \<longleftrightarrow>
     counted me dflt upd h h' v \<or> (\<exists>gen. missing_upload env ctx path hist data gen (str_of_int v) h h')"

lemma returned_value_mono:
  assumes "returned_value env ctx path hist data me dflt upd h1 h2 v" "suffix h h1"
  shows "returned_value env ctx path hist data me dflt upd h h2 v"
proof -
  have "counted me dflt upd h h2 v" if "counted me dflt upd h1 h2 v"
    using that suffix_shift[OF assms(2)] unfolding counted_def by blast
  moreover have "missing_upload env ctx path hist data gen (str_of_int v) h h2"
    if "missing_upload env ctx path hist data gen (str_of_int v) h1 h2" for gen
    using missing_upload_mono[OF that assms(2)] by simp
  ultimately show ?thesis using assms(1) unfolding returned_value_def by metis
qed

text \<open>One attempt: if the version that is replaced is the one that was seen, the value was read from it.\<close>

lemma set_counter_object:
  fixes env :: "('w, 'z) gs_env_scheme" and w :: 'w
  assumes laws: "object_laws env ctx path me hist data" and seen: "seen gen (hist w)"
    and run: "set_counter env ctx path dflt upd gen w = (r, w')"
  shows "own_steps me (counter_step me dflt upd) (hist w) (hist w') \<and> (\<forall>v. r = Inr v \<longrightarrow> returned_value env ctx path hist data me dflt upd (hist w) (hist w') v)"
proof -
  obtain rv w1 where val: "(if gen = 0 then act_return dflt else act_bind (Counter_Get env ctx path) (\<lambda>n :: int. act_return (upd n))) w = (rv, w1)"
    by (rule prod.exhaust)
  have before: "others env me hist w w1 \<and> (\<forall>v. rv = Inr v \<longrightarrow> (if gen = 0 then v = dflt else
      (\<exists>b n. suffix (hist w) b \<and> suffix b (hist w1) \<and> v = upd n \<and> (\<forall>c g d t. current b = Some (c, g, d, t) \<longrightarrow> py_int d = Inr n))))"
  proof (cases "gen = 0")
    case True
    with val show ?thesis by auto
  next
    case False
    obtain rn where get: "Counter_Get env ctx path w = (rn, w1)" and rv: "\<forall>v. rv = Inr v \<longrightarrow> (\<exists>n. rn = Inr n \<and> v = upd n)"
      using val False by (auto simp: act_bind_def split: prod.splits sum.splits)
    from Counter_Get_object[OF laws get] rv False show ?thesis by fastforce
  qed
  show ?thesis
  proof (cases rv)
    case (Inl e)
    with run val have "w' = w1" "r = Inl e" by (simp_all add: set_counter_def)
    with othersD[OF before[THEN conjunct1]] show ?thesis by simp
  next
    case (Inr v)
    obtain rk where cp: "Copy env ctx (versioned gen) (uploading (str_of_int v)) ''-'' path w1 = (rk, w')"
      and r: "\<forall>v'. r = Inr v' \<longrightarrow> v' = v \<and> (\<exists>k. rk = Inr k)"
      using run val Inr by (auto simp: set_counter_def versioned_def uploading_def act_bind_def split: prod.splits sum.splits)
    note c = Copy_object[OF laws cp]
    have good: "counter_value dflt upd b v" if b: "suffix (hist w1) b" "suffix b (hist w')" "generation_of b = gen" for b
    proof (cases "gen = 0")
      case True
      then have "current b = None" using generation_None[OF good_history_suffix[OF object_lawsD(4)[OF laws] b(2)]] b(3) by simp
      with True before Inr show ?thesis by (simp add: counter_value_def)
    next
      case False
      obtain b1 where b1: "suffix b1 (hist w)" "generation_of b1 = gen" using seen False by (auto simp: seen_def)
      obtain b2 n where b2: "suffix (hist w) b2" "suffix b2 (hist w1)" "v = upd n"
        "\<forall>c g d t. current b2 = Some (c, g, d, t) \<longrightarrow> py_int d = Inr n" using before False Inr by auto
      have "suffix b1 b2" "suffix b2 b" "suffix b1 (hist w')" using b1(1) b2(1,2) b(1,2) suffix_shift by blast+
      moreover from this have "b1 = b"
        by (intro same_generation[OF object_lawsD(4)[OF laws] _ b(2) b1(2) b(3) False])
      ultimately have eq: "b2 = b" by (simp add: suffix_order.antisym)
      obtain c g d t where cur: "current b = Some (c, g, d, t)" using b(3) False by (cases "current b") (auto simp: generation_of_def)
      then have "py_int d = Inr n" using b2(4) eq by blast
      with cur b2(3) show ?thesis by (simp add: counter_value_def)
    qed
    have "own_steps me (upload_step me gen (str_of_int v) (utc_now env w1)) (hist w1) (hist w')"
      using c by (simp add: steps_def)
    then have "own_steps me (counter_step me dflt upd) (hist w1) (hist w')"
      by (rule own_steps_within) (use good in \<open>auto simp: upload_step_def counter_step_def\<close>)
    with othersD[OF before[THEN conjunct1]] have "own_steps me (counter_step me dflt upd) (hist w) (hist w')"
      by (blast intro: own_steps_trans)
    moreover have "returned_value env ctx path hist data me dflt upd (hist w) (hist w') v'" if ok: "r = Inr v'" for v'
    proof -
      obtain k where "rk = Inr k" and v': "v' = v" using r ok by blast
      with c consider (wrote) "wrote me gen (str_of_int v) (utc_now env w1) (hist w1) (hist w') k"
        | (missing) "missing_upload env ctx path hist data gen (str_of_int v) (hist w1) (hist w')" by blast
      then have "returned_value env ctx path hist data me dflt upd (hist w1) (hist w') v"
      proof cases
        case wrote
        then obtain a b g t where x: "hist w' = a @ Written me g (str_of_int v) t # b" "suffix (hist w1) b" "generation_of b = gen"
          unfolding wrote_def by blast
        have "suffix b (hist w')" using x(1) by (auto intro: suffix_appendI suffix_ConsI)
        with x good show ?thesis unfolding returned_value_def counted_def by blast
      next
        case missing
        then show ?thesis unfolding returned_value_def by blast
      qed
      from returned_value_mono[OF this] othersD[OF before[THEN conjunct1]] v' show ?thesis by simp
    qed
    ultimately show ?thesis by blast
  qed
qed

lemma counter_loop_object:
  fixes env :: "('w, 'z) gs_env_scheme" and w :: 'w
  assumes laws: "object_laws env ctx path me hist data"
  shows "seen gen (hist w) \<Longrightarrow> counter_loop env ctx path dflt upd n gen w = (r, w')
    \<Longrightarrow> own_steps me (counter_step me dflt upd) (hist w) (hist w') \<and> (\<forall>v. r = Inr (Some v) \<longrightarrow> returned_value env ctx path hist data me dflt upd (hist w) (hist w') v)"
proof (induction n arbitrary: gen w r w')
  case (Suc n)
  obtain rs w1 where set: "set_counter env ctx path dflt upd gen w = (rs, w1)" by (rule prod.exhaust)
  note s = set_counter_object[OF laws Suc.prems(1) set]
  show ?case
  proof (cases rs)
    case (Inr v)
    with Suc.prems(2) set have "r = Inr (Some v)" "w' = w1" by (simp_all add: act_catch_def act_bind_def)
    with s Inr show ?thesis by simp
  next
    case (Inl e)
    show ?thesis
    proof (cases "e = GSContextPreconditionFailed \<or> e = GSNoSuchKey")
      case False
      with Suc.prems(2) set Inl have "r = Inl e" "w' = w1" by (auto simp: act_catch_def act_bind_def)
      with s show ?thesis by simp
    next
      case True
      obtain rg w2 where gg: "GetGeneration env ctx path w1 = (rg, w2)" by (rule prod.exhaust)
      note g = GetGeneration_object[OF laws gg]
      have run: "(r, w') = act_bind (GetGeneration env ctx path) (\<lambda>gm.
          if fst gm = gen then act_raise e else counter_loop env ctx path dflt upd n (fst gm)) w1"
        using Suc.prems(2) set Inl True by (simp add: act_catch_def act_bind_def)
      have w2: "own_steps me (counter_step me dflt upd) (hist w) (hist w2)"
        using s othersD[OF g[THEN conjunct1]] by (blast intro: own_steps_trans)
      show ?thesis
      proof (cases "\<exists>g m. rg = Inr (g, m) \<and> g \<noteq> gen")
        case False
        with run gg have "w' = w2" "\<exists>e. r = Inl e" by (auto simp: act_bind_def split: sum.splits if_splits)
        with w2 show ?thesis by auto
      next
        case True
        then obtain g' m where "rg = Inr (g', m)" "g' \<noteq> gen" by blast
        with run gg have loop: "counter_loop env ctx path dflt upd n g' w2 = (r, w')" by (simp add: act_bind_def)
        have "seen g' (hist w2)" using g \<open>rg = Inr (g', m)\<close> by blast
        from Suc.IH[OF this loop] w2 own_steps_suffix[OF w2] show ?thesis
          by (blast intro: own_steps_trans returned_value_mono)
      qed
    qed
  qed
qed auto


section \<open>A storage with one object\<close>

text \<open>
  The object has a first version, of another client; the only command that changes it replaces this version. Every
  other upload, and every removal, fails because of its precondition. The state is whether the version is replaced, and the temporary file.
\<close>

definition one_path :: string where
  "one_path = ''gs://b/o''"

definition one_ctx :: gs_context where
  "one_ctx = GSContext [''gsutil''] None False None None"

definition one_stat_text :: string where
  "one_stat_text = join [CHR 0x0A] [''gs://b/o:'', ''  Creation time:  Sat, 01 Jan 2022 00:00:07 GMT'', ''  Content-Length:  1'',
     ''  Content-Type:  text/plain'', ''  Hash (crc32c):  AAAAAA=='', ''  ETag:  e'', ''  Generation:  77'', ''  Metageneration:  1'', []]"

definition one_created :: int where
  "one_created = 63776678407000000"

definition one_old :: "string \<Rightarrow> gs_event" where
  "one_old old = Written 2 77 old (one_created + 5)"

definition one_hist :: "int \<Rightarrow> string \<Rightarrow> string \<Rightarrow> bool \<times> string option \<Rightarrow> gs_history" where
  "one_hist now old new w = (if fst w then [Written 1 78 new now, one_old old] else [one_old old])"

definition one_data :: "string \<Rightarrow> bool \<times> string option \<Rightarrow> string option" where
  "one_data n w = (if n = ''/tmp/t'' then snd w else None)"

definition one_gsutil :: "string \<Rightarrow> string \<Rightarrow> string list \<Rightarrow> (bool \<times> string option, exn, string \<times> string) action" where
  "one_gsutil old new cmd w =
     (if cmd = gs_command one_ctx no_options [''stat'', ''--'', one_path] \<and> \<not> fst w then (Inr (one_stat_text, []), w)
      else if cmd = gs_command one_ctx no_options [''cat'', one_path] \<and> \<not> fst w then (Inr (old, []), w)
      else if cmd = upload_command one_ctx one_path 77 ''/tmp/t'' \<and> \<not> fst w \<and> snd w = Some new
      then (Inr ([], ''Created: gs://b/o#78'' @ [CHR 0x0A]), (True, snd w))
      else (Inl (RunCommandError (Some 1) ''PreconditionException: 412''), w))"

definition one_env :: "int \<Rightarrow> string \<Rightarrow> string \<Rightarrow> (bool \<times> string option) gs_env" where
  "one_env now old new =
     \<lparr>gsutil = one_gsutil old new,
      local_file = (\<lambda>p w. False), local_exists = (\<lambda>p w. False), local_size = (\<lambda>p w. (Inr 0, w)),
      read_local = (\<lambda>p w. (Inl (OtherExn ''FileNotFoundError''), w)), make_temp = (\<lambda>c w. (Inr ''/tmp/t'', (fst w, Some c))),
      drop_temp = (\<lambda>p w. (Inr (), w)), local_now = (\<lambda>w. now), utc_now = (\<lambda>w. now), describe = (\<lambda>e. ''E: '')\<rparr>"

lemma one_stat: "ParseStat one_stat_text = Inr \<lparr>creation_time = one_created, content_length = 1, content_type = ''text/plain'',
    hash_crc32c = ''AAAAAA=='', hash_md5 = None, etag = ''e'', generation = 77, metageneration = 1\<rparr>"
  by code_simp

lemma one_known: "exception (MatchKnownError (RunCommandError (Some 1) ''PreconditionException: 412'')) = Some GSContextPreconditionFailed"
    "created_generation (''Created: gs://b/o#78'' @ [CHR 0x0A]) = Some 78" "PathIsGs one_path"
  by code_simp+

lemma one_context: "gsutil_bin one_ctx = [''gsutil'']" "gsutil_flags one_ctx = [''-o'', ''Boto:num_retries=10'']" "default_acl one_ctx = None"
    "\<not> ctx_dry_run one_ctx" "context_ok one_ctx"
  by (simp_all add: one_ctx_def GSContext_def context_ok_def DEFAULT_RETRIES_def DEFAULT_SLEEP_TIME_def)

lemmas one_command = gs_command_def upload_command_def copy_flags_def copy_defaults_def no_options_def one_context

lemma one_commands_differ:
  "gs_command one_ctx no_options [''cat'', one_path] \<noteq> gs_command one_ctx no_options [''stat'', ''--'', one_path]"
  "upload_command one_ctx one_path v n \<noteq> gs_command one_ctx no_options [''stat'', ''--'', one_path]"
  "upload_command one_ctx one_path v n \<noteq> gs_command one_ctx no_options [''cat'', one_path]"
  "gs_command one_ctx (no_options\<lparr>opt_version := Some v\<rparr>) [''rm'', ''--'', one_path] \<noteq> gs_command one_ctx no_options [''stat'', ''--'', one_path]"
  "gs_command one_ctx (no_options\<lparr>opt_version := Some v\<rparr>) [''rm'', ''--'', one_path] \<noteq> gs_command one_ctx no_options [''cat'', one_path]"
  "gs_command one_ctx (no_options\<lparr>opt_version := Some v\<rparr>) [''rm'', ''--'', one_path] \<noteq> upload_command one_ctx one_path 77 ''/tmp/t''"
  by (simp_all add: one_command)

lemma one_upload_inject: "upload_command one_ctx one_path v n = upload_command one_ctx one_path v' n' \<longleftrightarrow> v = v' \<and> n = n'"
  by (auto simp: one_command dest: arg_cong[where f = py_int])

lemma one_unchanged: "one_hist now old new w = one_hist now old new w' \<Longrightarrow> others (one_env now old new) me (one_hist now old new) w w'"
  by (simp add: others_def one_env_def)

lemma one_current: "current (one_hist now old new w) = (if fst w then Some (1, 78, new, now) else Some (2, 77, old, one_created + 5))"
  by (simp add: one_hist_def current_def one_old_def)

lemma one_env_simps [simp]:
  "gsutil (one_env now old new) = one_gsutil old new" "utc_now (one_env now old new) w = now" "local_file (one_env now old new) p w = False"
  "make_temp (one_env now old new) d w = (Inr ''/tmp/t'', (fst w, Some d))" "drop_temp (one_env now old new) p w = (Inr (), w)"
  by (simp_all add: one_env_def)

lemma one_upload: "upload_law (one_env now old new) one_ctx one_path 1 (one_hist now old new) one_data"
proof -
  have "own_steps 1 (upload_step 1 77 new now) (one_hist now old new (False, t)) (one_hist now old new (True, t))" for t
    unfolding own_steps_def
    by (intro exI[of _ "[Written 1 78 new now]"]) (auto simp: one_hist_def upload_step_def generation_of_def current_def one_old_def Cons_eq_append_conv)
  moreover have "\<exists>a b g u. one_hist now old new (True, t) = a @ Written 1 g new u # b \<and> suffix (one_hist now old new (False, t)) b
      \<and> upload_step 1 77 new now (Written 1 g new u) b \<and> g = 78" for t
    by (intro exI[of _ "[]"] exI[of _ "[one_old old]"] exI[of _ 78] exI[of _ now])
      (simp add: one_hist_def upload_step_def generation_of_def current_def one_old_def)
  ultimately show ?thesis
    unfolding upload_law_def one_env_simps one_gsutil_def
    using one_known(2) by (auto simp: one_commands_differ one_upload_inject one_data_def known_as_def one_known split: if_splits)
qed

lemma one_stat_law: "stat_law (one_env now old new) one_ctx one_path 1 (one_hist now old new)"
  unfolding stat_law_def one_env_simps
proof (intro allI impI)
  fix w r w' assume run: "one_gsutil old new (gs_command one_ctx no_options [''stat'', ''--'', one_path]) w = (r, w')"
  have seconds: "full_seconds (one_created + 5) = one_created" by (simp add: full_seconds_def one_created_def)
  have w': "w' = w" and out: "\<forall>out err. r = Inr (out, err) \<longrightarrow> \<not> fst w \<and> out = one_stat_text"
    using run by (auto simp: one_gsutil_def one_commands_differ one_commands_differ[symmetric] split: if_splits)
  have "\<exists>b c d t. suffix (one_hist now old new w) b \<and> suffix b (one_hist now old new w') \<and> current b = Some (c, generation st, d, t)
      \<and> creation_time st = full_seconds t" if "r = Inr (out, err)" "ParseStat out = Inr st" for out err st
    by (intro exI[of _ "one_hist now old new w"]) (use out that w' in \<open>auto simp: one_stat one_current seconds\<close>)
  then show "others (one_env now old new) 1 (one_hist now old new) w w' \<and> (\<forall>out err st. r = Inr (out, err) \<longrightarrow> ParseStat out = Inr st \<longrightarrow>
      (\<exists>b c d t. suffix (one_hist now old new w) b \<and> suffix b (one_hist now old new w') \<and> current b = Some (c, generation st, d, t)
        \<and> creation_time st = full_seconds t))"
    using w' by (intro conjI allI impI) (simp, blast)
qed

lemma one_cat_law: "cat_law (one_env now old new) one_ctx one_path 1 (one_hist now old new)"
  unfolding cat_law_def one_env_simps
proof (intro allI impI)
  fix w r w' assume run: "one_gsutil old new (gs_command one_ctx no_options [''cat'', one_path]) w = (r, w')"
  have "w' = w" "\<forall>out err. r = Inr (out, err) \<longrightarrow> \<not> fst w \<and> out = old"
      "\<forall>e. r = Inl e \<longrightarrow> exception (MatchKnownError e) = Some GSContextPreconditionFailed"
    using run by (auto simp: one_gsutil_def one_commands_differ one_commands_differ[symmetric] one_known split: if_splits)
  then show "others (one_env now old new) 1 (one_hist now old new) w w' \<and> (\<exists>b. suffix (one_hist now old new w) b \<and> suffix b (one_hist now old new w')
      \<and> (\<forall>out err. r = Inr (out, err) \<longrightarrow> (\<exists>c g t. current b = Some (c, g, out, t)))
      \<and> (\<forall>e. r = Inl e \<longrightarrow> exception (MatchKnownError e) = Some GSNoSuchKey \<longrightarrow> current b = None))"
    by (auto simp: one_current intro!: exI[of _ "one_hist now old new w"])
qed

lemma one_laws: "object_laws (one_env now old new) one_ctx one_path 1 (one_hist now old new) one_data"
  unfolding object_laws_def
proof (intro conjI)
  show "\<forall>w. good_history (one_hist now old new w)"
    by (simp add: good_history_def one_hist_def one_old_def map_filter_def)
  show "\<forall>cmd w e w'. gsutil (one_env now old new) cmd w = (Inl e, w') \<longrightarrow> command_failure e \<noteq> None"
    by (auto simp: one_gsutil_def command_failure_def split: if_splits)
  show "temp_laws (one_env now old new) 1 (one_hist now old new) one_data"
    by (auto simp: temp_laws_def one_data_def intro!: one_unchanged) (simp_all add: one_hist_def)
  show "remove_law (one_env now old new) one_ctx one_path 1 (one_hist now old new)"
    by (auto simp: remove_law_def one_gsutil_def one_commands_differ split: if_splits)
qed (rule one_context one_known one_upload one_stat_law one_cat_law)+

lemma DoCommand_first:
  fixes env :: "('w, 'z) gs_env_scheme"
  assumes "\<not> ctx_dry_run ctx" "context_ok ctx" "opt_retries opts = None"
  shows "gsutil env (gs_command ctx opts cmd) w = (Inr out, w') \<Longrightarrow> DoCommand env ctx opts cmd w = (Inr (Some out), w')"
    and "gsutil env (gs_command ctx opts cmd) w = (Inl e, w') \<Longrightarrow> exception (MatchKnownError e) = Some e' \<Longrightarrow> DoCommand env ctx opts cmd w = (Inl e', w')"
proof -
  let ?f = "gsutil env (gs_command ctx opts cmd)"
  have "0 \<le> command_retries ctx opts" "0 \<le> sleep_time ctx" using assms by (simp_all add: context_ok_def command_retries_def)
  from DoCommand_run[OF assms(1) this, of env cmd w] obtain k where k: "last_call RetryFilter (nat (command_retries ctx opts)) ?f w k"
    and run: "DoCommand env ctx opts cmd w = (command_result (call_at ?f w 0) (call_at ?f w k), iterate ?f (Suc k) w)" by blast
  have "k = 0" if "\<forall>e. call_at ?f w 0 = Inl e \<longrightarrow> RetryFilter e \<noteq> Inr True"
    using k that by (cases k) (auto simp: last_call_def)
  then show "?f w = (Inr out, w') \<Longrightarrow> DoCommand env ctx opts cmd w = (Inr (Some out), w')"
      "?f w = (Inl e, w') \<Longrightarrow> exception (MatchKnownError e) = Some e' \<Longrightarrow> DoCommand env ctx opts cmd w = (Inl e', w')"
    using run by (simp_all add: call_at_def command_result_def RetryFilter_def)
qed

lemma one_replaceable:
  "GetGeneration (one_env now old new) one_ctx one_path (False, d) = (Inr (77, 1), (False, d))"
  "Stat (one_env now old new) one_ctx no_options one_path (False, d) = (Inr \<lparr>creation_time = one_created, content_length = 1,
     content_type = ''text/plain'', hash_crc32c = ''AAAAAA=='', hash_md5 = None, etag = ''e'', generation = 77, metageneration = 1\<rparr>, (False, d))"
  "Cat (one_env now old new) one_ctx no_options False one_path (False, d) = (Inr (Bytes old), (False, d))"
  "Copy (one_env now old new) one_ctx (versioned 77) (uploading new) ''-'' one_path (False, d) = (Inr (Some 78), (True, Some new))"
  "Copy (one_env now old new) one_ctx (versioned 0) (uploading s) ''-'' one_path (False, d) = (Inl GSContextPreconditionFailed, (False, Some s))"
proof -
  note once = DoCommand_first[OF one_context(4,5)]
  have no_retries: "opt_retries no_options = None" "opt_retries (versioned v) = None" for v by (simp_all add: no_options_def versioned_def)
  let ?env = "one_env now old new"
  have "DoCommand ?env one_ctx no_options [''stat'', ''--'', one_path] (False, d) = (Inr (Some (one_stat_text, [])), (False, d))"
    by (rule once(1)[OF no_retries(1)]) (simp add: one_gsutil_def)
  then show stat: "Stat ?env one_ctx no_options one_path (False, d) = (Inr \<lparr>creation_time = one_created, content_length = 1,
     content_type = ''text/plain'', hash_crc32c = ''AAAAAA=='', hash_md5 = None, etag = ''e'', generation = 77, metageneration = 1\<rparr>, (False, d))"
    by (simp add: Stat_def act_bind_def act_catch_def one_context output_of_def lift_py_def one_stat)
  then show "GetGeneration ?env one_ctx one_path (False, d) = (Inr (77, 1), (False, d))"
    by (simp add: GetGeneration_def act_bind_def act_catch_def)
  have "DoCommand ?env one_ctx no_options [''cat'', one_path] (False, d) = (Inr (Some (old, [])), (False, d))"
    by (rule once(1)[OF no_retries(1)]) (simp add: one_gsutil_def one_commands_differ)
  then show "Cat ?env one_ctx no_options False one_path (False, d) = (Inr (Bytes old), (False, d))"
    by (simp add: Cat_def Let_def one_known one_context act_bind_def output_of_def lift_py_def)
  have "DoCommand ?env one_ctx (versioned 77) (copy_flags one_ctx (uploading new) False @ [''--'', ''/tmp/t'', one_path]) (False, Some new)
      = (Inr (Some ([], ''Created: gs://b/o#78'' @ [CHR 0x0A])), (True, Some new))"
    by (rule once(1)[OF no_retries(2)]) (simp add: upload_command_alt one_gsutil_def one_commands_differ)
  then show "Copy ?env one_ctx (versioned 77) (uploading new) ''-'' one_path (False, d) = (Inr (Some 78), (True, Some new))"
    using one_known(2) by (simp add: Copy_def uploading_def Let_def copy_from_def one_known(3) act_finally_def act_catch_def act_bind_def)
  have "DoCommand ?env one_ctx (versioned 0) (copy_flags one_ctx (uploading s) False @ [''--'', ''/tmp/t'', one_path]) (False, Some s)
      = (Inl GSContextPreconditionFailed, (False, Some s))"
    by (rule once(2)[OF no_retries(2) _ one_known(1)]) (simp add: upload_command_alt one_gsutil_def one_commands_differ one_upload_inject)
  then show "Copy ?env one_ctx (versioned 0) (uploading s) ''-'' one_path (False, d) = (Inl GSContextPreconditionFailed, (False, Some s))"
    by (simp add: Copy_def uploading_def Let_def copy_from_def one_known(3) act_finally_def act_catch_def act_bind_def)
qed


end
