(* ===== verification/GsLock.thy ===== *)
theory GsLock
  imports GsObject
begin

text \<open>
  Locks that are objects of Google Storage (\<open>lib/paygen/gslock.py\<close>): acquiring, releasing and renewing a lock,
  and stealing one that has expired, while other clients do the same.
\<close>

section \<open>Locks\<close>

definition LockNotAcquired :: exn where
  "LockNotAcquired = OtherExn ''LockNotAcquired''"

definition LockProbeError :: exn where
  "LockProbeError = OtherExn ''LockProbeError''"

text \<open>The time-out is in microseconds, like all times. The generation is the only field that changes.\<close>

record gs_lock =
  lock_path :: string
  lock_timeout :: int
  lock_contents :: string
  lock_generation :: int
  lock_dry_run :: bool
  lock_ctx :: gs_context

text \<open>The constructor, given what \<open>MachineDetails\<close> answers and the program for a context of its own.\<close>

definition Lock :: "string list \<Rightarrow> string \<Rightarrow> string \<Rightarrow> int \<Rightarrow> bool \<Rightarrow> gs_context option \<Rightarrow> gs_lock" where
  "Lock bin details path mins dry ctx =
     \<lparr>lock_path = path, lock_timeout = mins * 60 * 1000000, lock_contents = details, lock_generation = 0, lock_dry_run = dry,
      lock_ctx = (case ctx of Some c \<Rightarrow> c | None \<Rightarrow> GSContext bin None dry None None)\<rparr>"

definition DEFAULT_LOCK_TIMEOUT_MINS :: int where
  "DEFAULT_LOCK_TIMEOUT_MINS = 120"

text \<open>The methods change the lock and the world.\<close>

type_synonym ('w, 'a) lock_action = "(gs_lock \<times> 'w, exn, 'a) action"

definition on_world :: "(gs_lock \<Rightarrow> ('w, exn, 'a) action) \<Rightarrow> ('w, 'a) lock_action" where
  "on_world m s = (case m (fst s) (snd s) of (r, w) \<Rightarrow> (r, (fst s, w)))"

definition set_generation :: "int \<Rightarrow> ('w, unit) lock_action" where
  "set_generation g s = (Inr (), ((fst s)\<lparr>lock_generation := g\<rparr>, snd s))"

definition lock_stat :: "('w, 'z) gs_env_scheme \<Rightarrow> ('w, stat_result) lock_action" where
  "lock_stat env = on_world (\<lambda>l. Stat env (lock_ctx l) no_options (lock_path l))"

definition LockExpired :: "('w, 'z) gs_env_scheme \<Rightarrow> ('w, bool \<times> int) lock_action" where
  "LockExpired env =
     act_catch
       (act_bind (lock_stat env) (\<lambda>st.
        act_bind (gets (\<lambda>s. creation_time st + lock_timeout (fst s) < utc_now env (snd s))) (\<lambda>expired.
          act_return (expired, generation st))))
       (\<lambda>e. if e = GSNoSuchKey then act_return (False, 0) else act_raise e)"

text \<open>The contents of the object, for the message of the exception and to find out whether it is ours.\<close>

definition held_contents :: "('w, 'z) gs_env_scheme \<Rightarrow> ('w, py_text) lock_action" where
  "held_contents env =
     act_catch (on_world (\<lambda>l. Cat env (lock_ctx l) no_options False (lock_path l)))
       (\<lambda>e. if is_gs_exception e then act_return (Str ''Unknown'') else act_raise e)"

text \<open>Whether the lock is already ours, with its generation then.\<close>

definition already_ours :: "('w, 'z) gs_env_scheme \<Rightarrow> py_text \<Rightarrow> ('w, bool) lock_action" where
  "already_ours env c s =
     (if lock_generation (fst s) = 0 \<and> c = Str (lock_contents (fst s))
      then act_catch (act_bind (lock_stat env) (\<lambda>st. act_bind (set_generation (generation st)) (\<lambda>_. act_return True)))
             (\<lambda>e. if e = GSNoSuchKey then act_return False else act_raise e) s
      else act_return False s)"

definition not_acquired :: "('w, 'z) gs_env_scheme \<Rightarrow> ('w, unit) lock_action" where
  "not_acquired env =
     act_bind (held_contents env) (\<lambda>c. act_bind (already_ours env c) (\<lambda>ours.
       if ours then act_return () else act_bind (set_generation 0) (\<lambda>_. act_raise LockNotAcquired)))"

definition lock_upload :: "('w, 'z) gs_env_scheme \<Rightarrow> ('w, int option) lock_action" where
  "lock_upload env = on_world (\<lambda>l. Copy env (lock_ctx l) (versioned (lock_generation l)) (uploading (lock_contents l)) ''-'' (lock_path l))"

definition AcquireLock :: "('w, 'z) gs_env_scheme \<Rightarrow> ('w, unit) lock_action" where
  "AcquireLock env =
     act_catch
       (act_bind (lock_upload env) (\<lambda>k. case k of Some g \<Rightarrow> set_generation g
          | None \<Rightarrow> act_bind (set_generation 0) (\<lambda>_. act_bind (gets (\<lambda>s. lock_dry_run (fst s))) (\<lambda>dry.
              if dry then act_return () else act_raise LockProbeError))))
       (\<lambda>e. if e = GSContextPreconditionFailed then not_acquired env else act_raise e)"

definition Acquire :: "('w, 'z) gs_env_scheme \<Rightarrow> ('w, unit) lock_action" where
  "Acquire env =
     act_catch (AcquireLock env) (\<lambda>e. if e = LockNotAcquired
       then act_bind (LockExpired env) (\<lambda>(expired, gen).
         if \<not> expired then act_raise e else act_bind (set_generation gen) (\<lambda>_. AcquireLock env))
       else act_raise e)"

text \<open>A tuple with elements is true, whatever its elements are.\<close>

definition tuple_truth :: "'a \<times> 'b \<Rightarrow> bool" where
  "tuple_truth p \<longleftrightarrow> True"

definition lock_remove :: "('w, 'z) gs_env_scheme \<Rightarrow> ('w, unit) lock_action" where
  "lock_remove env = on_world (\<lambda>l. Remove env (lock_ctx l) (versioned (lock_generation l)) False True [lock_path l])"

definition Release :: "('w, 'z) gs_env_scheme \<Rightarrow> ('w, unit) lock_action" where
  "Release env =
     act_bind
       (act_catch (lock_remove env) (\<lambda>e. if e = GSContextPreconditionFailed
          then act_bind (LockExpired env) (\<lambda>r. if \<not> tuple_truth r then act_raise e else act_return ())
          else act_raise e))
       (\<lambda>_. set_generation 0)"

definition Renew :: "('w, 'z) gs_env_scheme \<Rightarrow> ('w, unit) lock_action" where
  "Renew env s = (if lock_generation (fst s) = 0 then act_raise LockNotAcquired s else Acquire env s)"

text \<open>\<open>with lock:\<close>, by \<open>__enter__\<close> and \<open>__exit__\<close>.\<close>

definition with_lock :: "('w, 'z) gs_env_scheme \<Rightarrow> ('w, 'a) lock_action \<Rightarrow> ('w, 'a) lock_action" where
  "with_lock env body = act_bind (Acquire env) (\<lambda>_. act_finally body (Release env))"

section \<open>What a client may do\<close>

fun event_time :: "gs_event \<Rightarrow> int" where
  "event_time (Written c g d t) = t"
| "event_time (Removed c t) = t"

text \<open>At a time a client may replace or remove no version, its own, and one that has expired.\<close>

definition may_replace :: "nat \<Rightarrow> int \<Rightarrow> int \<Rightarrow> gs_history \<Rightarrow> bool" where
  "may_replace me T now b \<longleftrightarrow> (case current b of None \<Rightarrow> True | Some (c, g, d, t) \<Rightarrow> c = me \<or> full_seconds t + T < now)"

definition lawful :: "int \<Rightarrow> gs_event \<Rightarrow> gs_history \<Rightarrow> bool" where
  "lawful T e b \<longleftrightarrow> may_replace (event_client e) T (event_time e) b"

text \<open>What the generation of a lock stands for.\<close>

definition entitled :: "('w, 'z) gs_env_scheme \<Rightarrow> nat \<Rightarrow> ('w \<Rightarrow> gs_history) \<Rightarrow> gs_lock \<times> 'w \<Rightarrow> bool" where
  "entitled env me hist s \<longleftrightarrow> lock_generation (fst s) = 0 \<or> lock_generation (fst s) \<noteq> 0 \<and>
     (\<exists>b. suffix b (hist (snd s)) \<and> generation_of b = lock_generation (fst s) \<and> may_replace me (lock_timeout (fst s)) (utc_now env (snd s)) b)"

definition lock_laws :: "('w, 'z) gs_env_scheme \<Rightarrow> nat \<Rightarrow> ('w \<Rightarrow> gs_history) \<Rightarrow> (string \<Rightarrow> 'w \<Rightarrow> string option) \<Rightarrow> gs_lock \<Rightarrow> bool" where
  "lock_laws env me hist data l \<longleftrightarrow> object_laws env (lock_ctx l) (lock_path l) me hist data"

definition moves :: "('w, 'z) gs_env_scheme \<Rightarrow> nat \<Rightarrow> ('w \<Rightarrow> gs_history) \<Rightarrow> gs_lock \<times> 'w \<Rightarrow> gs_lock \<times> 'w \<Rightarrow> bool" where
  "moves env me hist s s' \<longleftrightarrow> own_steps me (lawful (lock_timeout (fst s))) (hist (snd s)) (hist (snd s'))
     \<and> utc_now env (snd s) \<le> utc_now env (snd s') \<and> (\<exists>g. fst s' = (fst s)\<lparr>lock_generation := g\<rparr>)"

lemma may_replace_mono: "may_replace me T t b \<Longrightarrow> t \<le> t' \<Longrightarrow> may_replace me T t' b"
  by (auto simp: may_replace_def split: option.splits)

lemma moves_refl [simp]: "moves env me hist s s"
  by (auto simp: moves_def intro: exI[of _ "lock_generation (fst s)"])

lemma moves_trans: "moves env me hist s s' \<Longrightarrow> moves env me hist s' s'' \<Longrightarrow> moves env me hist s s''"
  unfolding moves_def by (auto intro: own_steps_trans)

lemma moves_suffix: "moves env me hist s s' \<Longrightarrow> suffix (hist (snd s)) (hist (snd s'))"
  by (auto simp: moves_def intro: own_steps_suffix)

lemma moves_lock: "moves env me hist s s' \<Longrightarrow> lock_laws env me hist data (fst s') = lock_laws env me hist data (fst s)
    \<and> lock_contents (fst s') = lock_contents (fst s) \<and> lock_dry_run (fst s') = lock_dry_run (fst s)"
  by (auto simp: moves_def lock_laws_def)

lemma moves_others: "others env me hist w w' \<Longrightarrow> moves env me hist (l, w) (l, w')"
  using othersD[of env me hist w w' "lawful (lock_timeout l)"] by (auto simp: moves_def intro!: exI[of _ "lock_generation l"])

lemma moves_set [simp]: "moves env me hist (l, w) (l\<lparr>lock_generation := g\<rparr>, w)"
  by (auto simp: moves_def)

lemma entitled_later:
  assumes "entitled env me hist (l, w)" "suffix (hist w) (hist w')" "utc_now env w \<le> utc_now env w'"
  shows "entitled env me hist (l, w')"
  using assms suffix_shift may_replace_mono unfolding entitled_def by (auto; blast)

lemma entitled_none [simp]: "entitled env me hist (l\<lparr>lock_generation := 0\<rparr>, w)"
  by (simp add: entitled_def)

text \<open>The version that the generation stands for is the only one that has it.\<close>

lemma entitled_version:
  assumes "lock_laws env me hist data l" "entitled env me hist (l, w)" "suffix (hist w) b" "suffix b (hist w')"
    "generation_of b = lock_generation l" "utc_now env w \<le> t"
  shows "may_replace me (lock_timeout l) t b"
proof (cases "lock_generation l = 0")
  case True
  have "good_history b" by (rule good_history_suffix[OF object_lawsD(4)[OF assms(1)[unfolded lock_laws_def]] assms(4)])
  with True assms(5) have "current b = None" by (simp add: generation_None)
  then show ?thesis by (simp add: may_replace_def)
next
  case False
  then obtain b0 where b0: "suffix b0 (hist w)" "generation_of b0 = lock_generation l" "may_replace me (lock_timeout l) (utc_now env w) b0"
    using assms(2) by (auto simp: entitled_def)
  have "suffix b0 (hist w')" using b0(1) assms(3,4) suffix_shift by blast
  then have "b0 = b"
    by (rule same_generation[OF object_lawsD(4)[OF assms(1)[unfolded lock_laws_def]] _ assms(4) b0(2) assms(5) False])
  with may_replace_mono[OF b0(3) assms(6)] show ?thesis by simp
qed

text \<open>The object has the version of the lock, which the client wrote since then.\<close>

definition acquired :: "nat \<Rightarrow> ('w \<Rightarrow> gs_history) \<Rightarrow> gs_lock \<times> 'w \<Rightarrow> gs_lock \<times> 'w \<Rightarrow> bool" where
  "acquired me hist s s' \<longleftrightarrow> (\<exists>a b t. hist (snd s') = a @ Written me (lock_generation (fst s')) (lock_contents (fst s')) t # b \<and> suffix (hist (snd s)) b)"

lemma acquired_mono: "acquired me hist s1 s' \<Longrightarrow> suffix (hist (snd s)) (hist (snd s1)) \<Longrightarrow> acquired me hist s s'"
  unfolding acquired_def using suffix_shift by blast

lemma on_world_run: "on_world m (l, w) = (r, s') \<Longrightarrow> \<exists>w'. s' = (l, w') \<and> m l w = (r, w')"
  by (auto simp: on_world_def split: prod.splits)

lemma lock_upload_steps:
  assumes laws: "lock_laws env me hist data l" and ent: "entitled env me hist (l, w)" and run: "lock_upload env (l, w) = (r, s')"
  shows "\<exists>w'. s' = (l, w') \<and> moves env me hist (l, w) (l, w')
    \<and> (\<forall>g. r = Inr (Some g) \<longrightarrow> acquired me hist (l, w) (l\<lparr>lock_generation := g\<rparr>, w'))"
proof -
  obtain w' where w': "s' = (l, w')" and cp: "Copy env (lock_ctx l) (versioned (lock_generation l)) (uploading (lock_contents l)) ''-'' (lock_path l) w = (r, w')"
    using on_world_run[OF run[unfolded lock_upload_def]] by blast
  have c: "steps env me hist (\<lambda>w. upload_step me (lock_generation l) (lock_contents l) (utc_now env w)) w w'"
      "\<forall>g. r = Inr (Some g) \<longrightarrow> wrote me (lock_generation l) (lock_contents l) (utc_now env w) (hist w) (hist w') (Some g)"
    using Copy_object[OF laws[unfolded lock_laws_def] cp] by blast+
  have "own_steps me (lawful (lock_timeout l)) (hist w) (hist w')"
  proof (rule own_steps_within)
    show "own_steps me (upload_step me (lock_generation l) (lock_contents l) (utc_now env w)) (hist w) (hist w')" using c(1) by (simp add: steps_def)
    show "lawful (lock_timeout l) e b" if hyp: "event_client e = me" "suffix (hist w) b" "suffix b (hist w')"
      "upload_step me (lock_generation l) (lock_contents l) (utc_now env w) e b" for e b
    proof -
      obtain g t where e: "e = Written me g (lock_contents l) t" "utc_now env w \<le> t" "generation_of b = lock_generation l"
        using hyp(4) by (auto simp: upload_step_def)
      with entitled_version[OF laws ent hyp(2,3) e(3,2)] show ?thesis by (simp add: lawful_def)
    qed
  qed
  then have "moves env me hist (l, w) (l, w')" using c(1) by (auto simp: moves_def steps_def intro!: exI[of _ "lock_generation l"])
  moreover have "acquired me hist (l, w) (l\<lparr>lock_generation := g\<rparr>, w')" if "r = Inr (Some g)" for g
    using c(2) that unfolding acquired_def wrote_def by auto
  ultimately show ?thesis using w' by blast
qed

lemma lock_stat_steps:
  assumes laws: "lock_laws env me hist data l" and run: "lock_stat env (l, w) = (r, s')"
  shows "\<exists>w'. s' = (l, w') \<and> others env me hist w w' \<and> (\<forall>st. r = Inr st \<longrightarrow>
    (\<exists>b c d t. suffix b (hist w') \<and> current b = Some (c, generation st, d, t) \<and> creation_time st = full_seconds t))"
proof -
  obtain w' where s: "s' = (l, w')" "Stat env (lock_ctx l) no_options (lock_path l) w = (r, w')"
    using on_world_run[OF run[unfolded lock_stat_def]] by blast
  from Stat_object[OF laws[unfolded lock_laws_def] s(2)] s(1) show ?thesis by blast
qed

lemma LockExpired_steps:
  assumes laws: "lock_laws env me hist data l" and run: "LockExpired env (l, w) = (r, s')"
  shows "\<exists>w'. s' = (l, w') \<and> others env me hist w w' \<and> (\<forall>g. r = Inr (True, g) \<longrightarrow> entitled env me hist (l\<lparr>lock_generation := g\<rparr>, w'))"
proof -
  obtain rs s1 where st: "lock_stat env (l, w) = (rs, s1)" by (rule prod.exhaust)
  obtain w' where s: "s1 = (l, w')" "others env me hist w w'" "\<forall>st. rs = Inr st \<longrightarrow>
    (\<exists>b c d t. suffix b (hist w') \<and> current b = Some (c, generation st, d, t) \<and> creation_time st = full_seconds t)"
    using lock_stat_steps[OF laws st] by blast
  have s': "s' = (l, w')" and r: "\<forall>g. r = Inr (True, g) \<longrightarrow> (\<exists>st. rs = Inr st \<and> g = generation st \<and> creation_time st + lock_timeout l < utc_now env w')"
    using run st s(1) by (auto simp: LockExpired_def act_bind_def act_catch_def split: sum.splits if_splits)
  have "entitled env me hist (l\<lparr>lock_generation := g\<rparr>, w')" if ok: "r = Inr (True, g)" for g
  proof -
    obtain st where st: "rs = Inr st" "g = generation st" "creation_time st + lock_timeout l < utc_now env w'" using r ok by blast
    with s(3) obtain b c d t where "suffix b (hist w')" "current b = Some (c, g, d, t)" "creation_time st = full_seconds t" by blast
    then show ?thesis using st(3) by (auto simp: entitled_def may_replace_def dest: current_generation)
  qed
  with s(2) s' show ?thesis by blast
qed

lemma held_contents_steps:
  assumes laws: "lock_laws env me hist data l" and run: "held_contents env (l, w) = (r, s')"
  shows "\<exists>w'. s' = (l, w') \<and> others env me hist w w' \<and> (\<forall>c. r = Inr c \<longrightarrow> c = Str ''Unknown'' \<or> (\<exists>d. c = Bytes d))"
proof -
  obtain rc w' where cat: "Cat env (lock_ctx l) no_options False (lock_path l) w = (rc, w')" by (rule prod.exhaust)
  have c: "others env me hist w w'" "\<forall>t. rc = Inr t \<longrightarrow> (\<exists>d. t = Bytes d)"
    using Cat_object[OF laws[unfolded lock_laws_def] cat] by blast+
  have "s' = (l, w')" "\<forall>c. r = Inr c \<longrightarrow> c = Str ''Unknown'' \<or> rc = Inr c"
    using run cat by (auto simp: held_contents_def on_world_def act_catch_def split: sum.splits if_splits)
  with c show ?thesis by blast
qed

text \<open>Bytes are never equal to the contents, so that the lock is not taken for ours.\<close>

lemma not_acquired_steps:
  assumes laws: "lock_laws env me hist data l" and "entitled env me hist (l, w)" "lock_contents l \<noteq> ''Unknown''"
    and run: "not_acquired env (l, w) = (r, s')"
  shows "moves env me hist (l, w) s' \<and> entitled env me hist s' \<and> (\<exists>e. r = Inl e)"
proof -
  obtain rc s1 where held: "held_contents env (l, w) = (rc, s1)" by (rule prod.exhaust)
  obtain w1 where s1: "s1 = (l, w1)" "others env me hist w w1" "\<forall>c. rc = Inr c \<longrightarrow> c = Str ''Unknown'' \<or> (\<exists>d. c = Bytes d)"
    using held_contents_steps[OF laws held] by blast
  have m: "moves env me hist (l, w) (l, w1)" by (rule moves_others[OF s1(2)])
  show ?thesis
  proof (cases rc)
    case (Inl e)
    then have "s' = (l, w1)" "r = Inl e" using run held s1(1) by (simp_all add: not_acquired_def)
    with m entitled_later[OF assms(2)] othersD[OF s1(2)] show ?thesis by simp
  next
    case (Inr c)
    with s1(3) assms(3) have "c \<noteq> Str (lock_contents l)" by auto
    then have "s' = (l\<lparr>lock_generation := 0\<rparr>, w1)" "r = Inl LockNotAcquired"
      using run held s1(1) Inr by (simp_all add: not_acquired_def already_ours_def set_generation_def act_bind_def)
    then show ?thesis using moves_trans[OF m moves_set] by simp
  qed
qed

lemma acquired_entitled:
  assumes "lock_laws env me hist data (fst s')" "acquired me hist s s'"
  shows "entitled env me hist s'"
proof -
  obtain a b t where h: "hist (snd s') = a @ Written me (lock_generation (fst s')) (lock_contents (fst s')) t # b"
    using assms(2) by (auto simp: acquired_def)
  let ?b = "Written me (lock_generation (fst s')) (lock_contents (fst s')) t # b"
  have b: "suffix ?b (hist (snd s'))" by (simp add: h suffix_def)
  have cur: "current ?b = Some (me, lock_generation (fst s'), lock_contents (fst s'), t)" by (simp add: current_def)
  have "good_history ?b" by (rule good_history_suffix[OF object_lawsD(4)[OF assms(1)[unfolded lock_laws_def]] b])
  from good_history_positive[OF this cur] show ?thesis
    unfolding entitled_def using b cur by (auto simp: may_replace_def dest: current_generation intro!: exI[of _ ?b])
qed

lemma AcquireLock_steps:
  assumes laws: "lock_laws env me hist data l" and "entitled env me hist (l, w)" "lock_contents l \<noteq> ''Unknown''" "\<not> lock_dry_run l"
    and run: "AcquireLock env (l, w) = (r, s')"
  shows "moves env me hist (l, w) s' \<and> entitled env me hist s' \<and> (r = Inr () \<longrightarrow> acquired me hist (l, w) s')"
proof -
  obtain rk s1 where up: "lock_upload env (l, w) = (rk, s1)" by (rule prod.exhaust)
  obtain w1 where s1: "s1 = (l, w1)" and m: "moves env me hist (l, w) (l, w1)"
    and acq: "\<forall>g. rk = Inr (Some g) \<longrightarrow> acquired me hist (l, w) (l\<lparr>lock_generation := g\<rparr>, w1)"
    using lock_upload_steps[OF laws assms(2) up] by blast
  have ent: "entitled env me hist (l, w1)"
    using entitled_later[OF assms(2)] moves_suffix[OF m] m by (simp add: moves_def)
  consider (new) g where "rk = Inr (Some g)" | (none) "rk = Inr None"
    | (held) "rk = Inl GSContextPreconditionFailed" | (failed) e where "rk = Inl e" "e \<noteq> GSContextPreconditionFailed"
    by (cases rk) (auto simp: not_None_eq[symmetric] simp del: not_None_eq)
  then show ?thesis
  proof cases
    case new
    then have s': "s' = (l\<lparr>lock_generation := g\<rparr>, w1)" and "r = Inr ()"
      using run up s1 by (simp_all add: AcquireLock_def act_bind_def act_catch_def set_generation_def)
    have a: "acquired me hist (l, w) s'" using acq new s' by simp
    have m': "moves env me hist (l, w) s'" using moves_trans[OF m moves_set] s' by simp
    then have "lock_laws env me hist data (fst s')" using moves_lock laws by fastforce
    from acquired_entitled[OF this a] a m' show ?thesis by simp
  next
    case none
    then have s': "s' = (l\<lparr>lock_generation := 0\<rparr>, w1)" and "r = Inl LockProbeError"
      using run up s1 assms(4) by (simp_all add: AcquireLock_def act_bind_def act_catch_def set_generation_def LockProbeError_def GSContextPreconditionFailed_def)
    then show ?thesis using moves_trans[OF m moves_set] by simp
  next
    case held
    then have "not_acquired env (l, w1) = (r, s')"
      using run up s1 by (simp add: AcquireLock_def act_bind_def act_catch_def)
    from not_acquired_steps[OF laws ent assms(3) this] m show ?thesis by (auto intro: moves_trans)
  next
    case failed
    then have "s' = (l, w1)" "r = Inl e" using run up s1 by (simp_all add: AcquireLock_def act_bind_def act_catch_def)
    with m ent show ?thesis by simp
  qed
qed

lemma Acquire_steps:
  assumes laws: "lock_laws env me hist data l" and "entitled env me hist (l, w)" "lock_contents l \<noteq> ''Unknown''" "\<not> lock_dry_run l"
    and run: "Acquire env (l, w) = (r, s')"
  shows "moves env me hist (l, w) s' \<and> entitled env me hist s' \<and> (r = Inr () \<longrightarrow> acquired me hist (l, w) s')"
proof -
  obtain r1 s1 where first: "AcquireLock env (l, w) = (r1, s1)" by (rule prod.exhaust)
  note f = AcquireLock_steps[OF laws assms(2-4) first]
  show ?thesis
  proof (cases "r1 = Inl LockNotAcquired")
    case False
    with run first have "r = r1" "s' = s1" by (auto simp: Acquire_def act_catch_def split: sum.splits if_splits)
    with f show ?thesis by simp
  next
    case True
    obtain l1 w1 where s1: "s1 = (l1, w1)" by (rule prod.exhaust)
    have l1: "lock_laws env me hist data l1" "lock_contents l1 \<noteq> ''Unknown''" "\<not> lock_dry_run l1"
      using moves_lock[of env me hist "(l, w)" s1 data] f s1 laws assms(3,4) by auto
    obtain re s2 where exp: "LockExpired env (l1, w1) = (re, s2)" by (rule prod.exhaust)
    obtain w2 where s2: "s2 = (l1, w2)" "others env me hist w1 w2"
      and expired: "\<forall>g. re = Inr (True, g) \<longrightarrow> entitled env me hist (l1\<lparr>lock_generation := g\<rparr>, w2)"
      using LockExpired_steps[OF l1(1) exp] by blast
    have m2: "moves env me hist (l, w) (l1, w2)" using f s1 moves_others[OF s2(2)] by (auto intro: moves_trans)
    have e2: "entitled env me hist (l1, w2)" using f s1 entitled_later[of env me hist l1 w1 w2] othersD[OF s2(2)] by auto
    show ?thesis
    proof (cases "\<exists>g. re = Inr (True, g)")
      case False
      with run first True s1 exp s2(1) have "s' = (l1, w2)" "\<exists>e. r = Inl e"
        by (auto simp: Acquire_def act_catch_def act_bind_def split: sum.splits prod.splits)
      with m2 e2 show ?thesis by auto
    next
      case True
      then obtain g where g: "re = Inr (True, g)" by blast
      have again: "AcquireLock env (l1\<lparr>lock_generation := g\<rparr>, w2) = (r, s')"
        using run first \<open>r1 = Inl LockNotAcquired\<close> s1 exp s2(1) g
        by (simp add: Acquire_def act_catch_def act_bind_def set_generation_def)
      have "lock_laws env me hist data (l1\<lparr>lock_generation := g\<rparr>)" using l1(1) by (simp add: lock_laws_def)
      from AcquireLock_steps[OF this _ _ _ again] expired g l1(2,3)
      have a: "moves env me hist (l1\<lparr>lock_generation := g\<rparr>, w2) s' \<and> entitled env me hist s' \<and> (r = Inr () \<longrightarrow> acquired me hist (l1\<lparr>lock_generation := g\<rparr>, w2) s')"
        by simp
      have m3: "moves env me hist (l, w) (l1\<lparr>lock_generation := g\<rparr>, w2)" by (rule moves_trans[OF m2 moves_set])
      with a show ?thesis using moves_suffix[OF m3] by (auto intro: moves_trans acquired_mono)
    qed
  qed
qed

lemma Release_steps:
  assumes laws: "lock_laws env me hist data l" and ent: "entitled env me hist (l, w)" and run: "Release env (l, w) = (r, s')"
  shows "moves env me hist (l, w) s' \<and> entitled env me hist s'"
proof -
  obtain rr w1 where rm: "Remove env (lock_ctx l) (versioned (lock_generation l)) False True [lock_path l] w = (rr, w1)" by (rule prod.exhaust)
  have st: "steps env me hist (\<lambda>w. remove_step me (lock_generation l) (utc_now env w)) w w1"
    by (rule Remove_object[OF laws[unfolded lock_laws_def] rm])
  have "own_steps me (lawful (lock_timeout l)) (hist w) (hist w1)"
  proof (rule own_steps_within)
    show "own_steps me (remove_step me (lock_generation l) (utc_now env w)) (hist w) (hist w1)" using st by (simp add: steps_def)
    show "lawful (lock_timeout l) e b" if hyp: "event_client e = me" "suffix (hist w) b" "suffix b (hist w1)"
      "remove_step me (lock_generation l) (utc_now env w) e b" for e b
    proof -
      obtain t where e: "e = Removed me t" "utc_now env w \<le> t" "generation_of b = lock_generation l" using hyp(4) by (auto simp: remove_step_def)
      with entitled_version[OF laws ent hyp(2,3) e(3,2)] show ?thesis by (simp add: lawful_def)
    qed
  qed
  then have m: "moves env me hist (l, w) (l, w1)" using st by (auto simp: moves_def steps_def intro!: exI[of _ "lock_generation l"])
  have e1: "entitled env me hist (l, w1)" using entitled_later[OF ent] st steps_suffix[OF st] by (simp add: steps_def)
  obtain re s2 where exp: "LockExpired env (l, w1) = (re, s2)" by (rule prod.exhaust)
  obtain w2 where s2: "s2 = (l, w2)" "others env me hist w1 w2" using LockExpired_steps[OF laws exp] by blast
  have m2: "moves env me hist (l, w) (l, w2)" by (rule moves_trans[OF m moves_others[OF s2(2)]])
  have e2: "entitled env me hist (l, w2)" using entitled_later[OF e1] othersD[OF s2(2)] by simp
  have "s' \<in> {(l, w1), (l, w2), (l\<lparr>lock_generation := 0\<rparr>, w1), (l\<lparr>lock_generation := 0\<rparr>, w2)}"
    using run rm exp s2(1)
    by (auto simp: Release_def lock_remove_def on_world_def act_bind_def act_catch_def tuple_truth_def set_generation_def split: sum.splits if_splits)
  then show ?thesis using m m2 e1 e2 moves_trans[OF m moves_set] moves_trans[OF m2 moves_set] by auto
qed

lemma Renew_Acquire: "Renew env s = (r, s') \<Longrightarrow> s' = s \<and> r = Inl LockNotAcquired \<or> Acquire env s = (r, s')"
  by (auto simp: Renew_def split: if_splits)

text \<open>
  C8. Acquiring, renewing and releasing a lock change its object only in lawful ways: what they replace or remove is
  no version, one that this client wrote, or one that has expired by then. The generation that the lock remembers, whatever
  the outcome, stands for such a version, as it did before.
\<close>

theorem lock_operations_lawful:
  fixes env :: "('w, 'z) gs_env_scheme" and w :: 'w
  assumes laws: "lock_laws env me hist data l" and "entitled env me hist (l, w)" "lock_contents l \<noteq> ''Unknown''" "\<not> lock_dry_run l"
    and run: "operation \<in> {Acquire env, Renew env, Release env}" "operation (l, w) = (r, s')"
  shows "own_steps me (lawful (lock_timeout l)) (hist w) (hist (snd s')) \<and> entitled env me hist s'
    \<and> fst s' = l\<lparr>lock_generation := lock_generation (fst s')\<rparr>"
proof -
  have "moves env me hist (l, w) s' \<and> entitled env me hist s'"
  proof -
    consider "Acquire env (l, w) = (r, s')" | "s' = (l, w)" | "Release env (l, w) = (r, s')"
      using run Renew_Acquire[of env "(l, w)" r s'] by blast
    then show ?thesis
    proof cases
      case 1
      from Acquire_steps[OF assms(1-4) this] show ?thesis by blast
    next
      case 2
      with assms(2) show ?thesis by simp
    next
      case 3
      from Release_steps[OF assms(1,2) this] show ?thesis .
    qed
  qed
  then show ?thesis by (auto simp: moves_def)
qed

text \<open>A lock on the object of \<open>one_env\<close>, which another client has locked.\<close>

definition one_lock :: gs_lock where
  "one_lock = Lock [] ''PROG=a'' one_path DEFAULT_LOCK_TIMEOUT_MINS False (Some one_ctx)"

definition one_expired :: int where
  "one_expired = one_created + 7200000001"

lemma one_lock_simps [simp]:
  "lock_path one_lock = one_path" "lock_ctx one_lock = one_ctx" "lock_generation one_lock = 0" "lock_contents one_lock = ''PROG=a''"
  "lock_timeout one_lock = 7200000000" "\<not> lock_dry_run one_lock"
  by (simp_all add: one_lock_def Lock_def DEFAULT_LOCK_TIMEOUT_MINS_def)

lemma one_acquire:
  "Acquire (one_env one_expired ''PROG=b'' ''PROG=a'') (one_lock, (False, None)) = (Inr (), (one_lock\<lparr>lock_generation := 78\<rparr>, (True, Some ''PROG=a'')))"
  by (simp add: Acquire_def AcquireLock_def lock_upload_def not_acquired_def held_contents_def already_ours_def LockExpired_def lock_stat_def
      on_world_def set_generation_def act_catch_def act_bind_def one_replaceable one_expired_def LockNotAcquired_def GSContextPreconditionFailed_def)

lemma one_lock_start:
  "lock_laws (one_env now old new) 1 (one_hist now old new) one_data one_lock" "entitled (one_env now old new) 1 (one_hist now old new) (one_lock, w)"
  "lock_contents one_lock \<noteq> ''Unknown''" "\<not> lock_dry_run one_lock"
  using one_laws by (simp_all add: lock_laws_def entitled_def)

theorem lock_operations_lawful_witness:
  "own_steps 1 (lawful 7200000000) [one_old ''PROG=b''] [Written 1 78 ''PROG=a'' one_expired, one_old ''PROG=b'']"
proof -
  let ?env = "one_env one_expired ''PROG=b'' ''PROG=a''"
  have "Acquire ?env \<in> {Acquire ?env, Renew ?env, Release ?env}" by simp
  from lock_operations_lawful[OF one_lock_start this one_acquire] show ?thesis by (simp add: one_hist_def)
qed

section \<open>Exclusion\<close>

text \<open>A history in which every client does only what is lawful, and time goes on.\<close>

definition lawful_history :: "int \<Rightarrow> gs_history \<Rightarrow> bool" where
  "lawful_history T h \<longleftrightarrow> (\<forall>a e b. h = a @ e # b \<longrightarrow> lawful T e b \<and> (\<forall>e' \<in> set b. event_time e' \<le> event_time e))"

lemma lawful_history_Cons: "lawful_history T (e # h) \<Longrightarrow> lawful_history T h \<and> lawful T e h \<and> (\<forall>e' \<in> set h. event_time e' \<le> event_time e)"
  unfolding lawful_history_def by (metis append_Cons append_Nil)

lemma full_seconds_mono: "t \<le> t' \<Longrightarrow> full_seconds t \<le> full_seconds t'"
  by (simp add: full_seconds_def zdiv_mono1)

lemma exclusion:
  "lawful_history T (n @ Written c g d t # b) \<Longrightarrow> \<forall>u. Removed c u \<notin> set n \<Longrightarrow> x \<in> set n \<Longrightarrow> event_client x \<noteq> c
    \<Longrightarrow> full_seconds t + T < event_time x"
proof (induction n arbitrary: x)
  case (Cons y n)
  have h: "lawful_history T (n @ Written c g d t # b)" "lawful T y (n @ Written c g d t # b)"
      "\<forall>e' \<in> set (n @ Written c g d t # b). event_time e' \<le> event_time y"
    using lawful_history_Cons[of T y] Cons.prems(1) by simp_all
  note IH = Cons.IH[OF h(1)]
  show ?case
  proof (cases "x \<in> set n")
    case True
    with IH Cons.prems show ?thesis by simp
  next
    case False
    then have x: "x = y" using Cons.prems(3) by simp
    show ?thesis
    proof (cases n)
      case Nil
      then show ?thesis using h(2) Cons.prems(4) x by (simp add: lawful_def may_replace_def current_def)
    next
      case (Cons z n')
      show ?thesis
      proof (cases "event_client z = c")
        case True
        then obtain g' d' t' where z: "z = Written c g' d' t'" using Cons.prems(2) Cons by (cases z) auto
        have "Written c g d t \<in> set (n' @ Written c g d t # b)" by simp
        then have "t \<le> t'" using lawful_history_Cons[of T z "n' @ Written c g d t # b"] h(1) Cons z by fastforce
        moreover have "full_seconds t' + T < event_time y"
          using h(2) Cons z Cons.prems(4) x by (simp add: lawful_def may_replace_def current_def)
        ultimately show ?thesis using full_seconds_mono[of t t'] x by simp
      next
        case False
        then have "full_seconds t + T < event_time z" using IH[of z] Cons Cons.prems(2) by simp
        moreover have "event_time z \<le> event_time y" using h(3) Cons by simp
        ultimately show ?thesis using x by simp
      qed
    qed
  qed
qed simp

text \<open>
  C10. When \<open>Acquire\<close> or \<open>Renew\<close> returns, the client has written the version whose generation the lock has. As long
  as all clients keep to what is lawful and this one does not remove its lock, no other client writes or removes anything until the time-out
  after the full second of that version has passed.
\<close>

theorem acquire_excludes:
  fixes env :: "('w, 'z) gs_env_scheme" and w :: 'w
  assumes laws: "lock_laws env me hist data l" and "entitled env me hist (l, w)" "lock_contents l \<noteq> ''Unknown''" "\<not> lock_dry_run l"
    and run: "operation \<in> {Acquire env, Renew env}" "operation (l, w) = (Inr (), s')"
    and later: "suffix (hist (snd s')) h" "lawful_history (lock_timeout l) h"
  shows "\<exists>n b t. h = n @ Written me (lock_generation (fst s')) (lock_contents l) t # b \<and> suffix (hist w) b
    \<and> ((\<forall>u. Removed me u \<notin> set n) \<longrightarrow> (\<forall>x \<in> set n. event_client x \<noteq> me \<longrightarrow> full_seconds t + lock_timeout l < event_time x))"
proof -
  have "Acquire env (l, w) = (Inr (), s')" using run Renew_Acquire[of env "(l, w)" "Inr ()" s'] by blast
  from Acquire_steps[OF assms(1-4) this] have m: "moves env me hist (l, w) s'" and a: "acquired me hist (l, w) s'" by simp_all
  have c: "lock_contents (fst s') = lock_contents l" using moves_lock[OF m] by simp
  obtain n b t where "hist (snd s') = n @ Written me (lock_generation (fst s')) (lock_contents l) t # b" "suffix (hist w) b"
    using a c by (auto simp: acquired_def)
  moreover obtain n' where "h = n' @ hist (snd s')" using later(1) by (auto simp: suffix_def)
  ultimately have h: "h = (n' @ n) @ Written me (lock_generation (fst s')) (lock_contents l) t # b" and b: "suffix (hist w) b" by simp_all
  show ?thesis
    using exclusion[OF later(2)[unfolded h]] h b by blast
qed

theorem acquire_excludes_witness:
  "fst (Acquire (one_env one_expired ''PROG=b'' ''PROG=a'') (one_lock, (False, None))) = Inr ()
    \<and> (\<exists>n b t. [Written 3 79 ''PROG=c'' (one_expired + 7200000000), Written 1 78 ''PROG=a'' one_expired, one_old ''PROG=b''] = n @ Written 1 78 ''PROG=a'' t # b
         \<and> (\<forall>x \<in> set n. event_client x \<noteq> 1 \<longrightarrow> full_seconds t + 7200000000 < event_time x))"
proof -
  let ?env = "one_env one_expired ''PROG=b'' ''PROG=a''" and ?hist = "one_hist one_expired ''PROG=b'' ''PROG=a''"
  let ?s = "(one_lock\<lparr>lock_generation := 78\<rparr>, (True, Some ''PROG=a''))"
  let ?h = "[Written 3 79 ''PROG=c'' (one_expired + 7200000000), Written 1 78 ''PROG=a'' one_expired, one_old ''PROG=b'']"
  have ops: "Acquire ?env \<in> {Acquire ?env, Renew ?env}" by simp
  have suffix: "suffix (?hist (snd ?s)) ?h" by (simp add: one_hist_def suffix_ConsI)
  have lawful: "lawful_history (lock_timeout one_lock) ?h"
    by (auto simp: lawful_history_def Cons_eq_append_conv lawful_def may_replace_def current_def one_old_def one_expired_def one_created_def full_seconds_def)
  from acquire_excludes[OF one_lock_start ops one_acquire suffix lawful] obtain n b t
    where h: "?h = n @ Written 1 78 ''PROG=a'' t # b"
      and x: "(\<forall>u. Removed 1 u \<notin> set n) \<longrightarrow> (\<forall>x \<in> set n. event_client x \<noteq> 1 \<longrightarrow> full_seconds t + 7200000000 < event_time x)" by auto
  from h have "\<forall>u. Removed 1 u \<notin> set n" by (auto simp: Cons_eq_append_conv one_old_def)
  with h x one_acquire show ?thesis by (metis fst_conv)
qed

section \<open>Lost locks\<close>

text \<open>
  C39. A lock that was lost is released like any other: when its version is not the current one any more, \<open>Release\<close> returns,
  whether the lock of the other client had been due or not, because the test is of a tuple.
\<close>

theorem release_hides_loss:
  fixes env :: "('w, 'z) gs_env_scheme" and w :: 'w
  assumes lost: "Remove env (lock_ctx l) (versioned (lock_generation l)) False True [lock_path l] w = (Inl GSContextPreconditionFailed, w1)"
    and asked: "LockExpired env (l, w1) = (Inr (expired, gen), s2)"
  shows "Release env (l, w) = (Inr (), ((fst s2)\<lparr>lock_generation := 0\<rparr>, snd s2))"
  using assms by (simp add: Release_def lock_remove_def on_world_def act_catch_def act_bind_def tuple_truth_def set_generation_def)

text \<open>
  A lock is never found to be ours already: after a failed precondition \<open>AcquireLock\<close> raises whatever the object has, even
  the contents of this lock because an earlier run of the same upload wrote it. What is compared are bytes and a string.
\<close>

theorem own_lock_not_recognised:
  fixes env :: "('w, 'z) gs_env_scheme" and w :: 'w
  assumes "lock_contents l \<noteq> ''Unknown''" "lock_upload env (l, w) = (Inl GSContextPreconditionFailed, (l, w1))"
    and "Cat env (lock_ctx l) no_options False (lock_path l) w1 = (Inr c, w2)"
  shows "AcquireLock env (l, w) = (Inl LockNotAcquired, (l\<lparr>lock_generation := 0\<rparr>, w2))"
proof -
  have "\<exists>d. c = Bytes d"
    using assms(3) by (auto simp: Cat_def Let_def act_catch_def act_bind_def lift_py_def split: sum.splits prod.splits if_splits)
  then show ?thesis
    using assms by (auto simp: AcquireLock_def not_acquired_def held_contents_def already_ours_def on_world_def set_generation_def act_catch_def act_bind_def)
qed

theorem release_hides_loss_witness:
  "LockExpired (one_env 0 ''PROG=b'' []) (one_lock\<lparr>lock_generation := 5\<rparr>, (False, None)) = (Inr (False, 77), (one_lock\<lparr>lock_generation := 5\<rparr>, (False, None)))
    \<and> Release (one_env 0 ''PROG=b'' []) (one_lock\<lparr>lock_generation := 5\<rparr>, (False, None)) = (Inr (), (one_lock, (False, None)))"
proof -
  let ?env = "one_env 0 ''PROG=b'' []" and ?l = "one_lock\<lparr>lock_generation := 5\<rparr>"
  have "DoCommand ?env one_ctx (versioned 5) [''rm'', ''--'', one_path] (False, None) = (Inl GSContextPreconditionFailed, (False, None))"
    by (rule DoCommand_first(2)[OF one_context(4,5) _ _ one_known(1)])
      (simp_all add: versioned_def no_options_def one_gsutil_def one_commands_differ[unfolded no_options_def, simplified])
  then have rm: "Remove ?env (lock_ctx ?l) (versioned (lock_generation ?l)) False True [lock_path ?l] (False, None) = (Inl GSContextPreconditionFailed, (False, None))"
    by (simp add: Remove_def act_bind_def act_catch_def)
  have asked: "LockExpired ?env (?l, (False, None)) = (Inr (False, 77), (?l, (False, None)))"
    by (simp add: LockExpired_def lock_stat_def on_world_def act_catch_def act_bind_def one_replaceable one_created_def)
  from release_hides_loss[OF rm asked] have "Release ?env (?l, (False, None)) = (Inr (), (?l\<lparr>lock_generation := 0\<rparr>, (False, None)))" by simp
  moreover have "?l\<lparr>lock_generation := 0\<rparr> = one_lock" by (rule gs_lock.equality) simp_all
  ultimately show ?thesis using asked by (simp only:)
qed

text \<open>A world in which the first upload writes the object but is reported to have failed.\<close>

definition retried_env :: "bool gs_env" where
  "retried_env =
     \<lparr>gsutil = (\<lambda>cmd written.
        if cmd = gs_command one_ctx no_options [''cat'', one_path] then (Inr (''PROG=a'', []), written)
        else (Inl (RunCommandError (Some 1) (if written then ''PreconditionException: 412'' else ''ServiceException: 503'')), True)),
      local_file = (\<lambda>p n. False), local_exists = (\<lambda>p n. False), local_size = (\<lambda>p n. (Inr 0, n)),
      read_local = (\<lambda>p n. (Inl (OtherExn ''FileNotFoundError''), n)), make_temp = (\<lambda>c n. (Inr ''/tmp/t'', n)),
      drop_temp = (\<lambda>p n. (Inr (), n)), local_now = (\<lambda>n. 0), utc_now = (\<lambda>n. 0), describe = (\<lambda>e. ''E: '')\<rparr>"

lemma retried_upload: "lock_upload retried_env (one_lock, False) = (Inl GSContextPreconditionFailed, (one_lock, True))"
proof -
  let ?cmd = "copy_flags one_ctx (uploading ''PROG=a'') False @ [''--'', ''/tmp/t'', one_path]"
  let ?f = "gsutil retried_env (gs_command one_ctx (versioned 0) ?cmd)"
  have f: "?f w = (Inl (RunCommandError (Some 1) (if w then ''PreconditionException: 412'' else ''ServiceException: 503'')), True)" for w
    unfolding upload_command_alt by (simp add: retried_env_def one_commands_differ)
  have calls: "call_at ?f False 0 = Inl (RunCommandError (Some 1) ''ServiceException: 503'')"
    "call_at ?f False (Suc 0) = Inl (RunCommandError (Some 1) ''PreconditionException: 412'')" "iterate ?f (Suc k) False = True" for k
    by (simp_all add: call_at_def f)
  have known: "RetryFilter (RunCommandError (Some 1) ''ServiceException: 503'') = Inr True"
    "RetryFilter (RunCommandError (Some 1) ''PreconditionException: 412'') = Inl GSContextPreconditionFailed"
    by code_simp+
  have ctx: "command_retries one_ctx (versioned 0) = 3" "0 \<le> sleep_time one_ctx"
    by (simp_all add: command_retries_def versioned_def no_options_def one_ctx_def GSContext_def DEFAULT_RETRIES_def DEFAULT_SLEEP_TIME_def)
  obtain k where k: "last_call RetryFilter 3 ?f False k"
    and run: "DoCommand retried_env one_ctx (versioned 0) ?cmd False = (command_result (call_at ?f False 0) (call_at ?f False k), iterate ?f (Suc k) False)"
    using DoCommand_run[OF one_context(4), of "versioned 0" retried_env ?cmd False] ctx by auto
  have "k \<noteq> 0" by (rule notI) (use k calls(1) known(1) in \<open>simp add: last_call_def\<close>)
  moreover have "\<not> Suc 0 < k" using k calls(2) known(2) by (auto simp: last_call_def)
  ultimately have "k = Suc 0" by simp
  then have "DoCommand retried_env one_ctx (versioned 0) ?cmd False = (Inl GSContextPreconditionFailed, True)"
    unfolding run calls by (simp add: command_result_def calls(2) one_known(1))
  then show ?thesis
    by (simp add: lock_upload_def on_world_def Copy_def uploading_def Let_def copy_from_def one_known(3) act_finally_def act_catch_def act_bind_def
        retried_env_def)
qed

theorem own_lock_not_recognised_witness:
  "Cat retried_env one_ctx no_options False one_path True = (Inr (Bytes (lock_contents one_lock)), True)
    \<and> AcquireLock retried_env (one_lock, False) = (Inl LockNotAcquired, (one_lock\<lparr>lock_generation := 0\<rparr>, True))"
proof -
  have "DoCommand retried_env one_ctx no_options [''cat'', one_path] True = (Inr (Some (''PROG=a'', [])), True)"
    by (rule DoCommand_first(1)[OF one_context(4,5)]) (simp_all add: retried_env_def no_options_def)
  then have cat: "Cat retried_env (lock_ctx one_lock) no_options False (lock_path one_lock) True = (Inr (Bytes ''PROG=a''), True)"
    by (simp add: Cat_def Let_def one_known one_context act_bind_def output_of_def lift_py_def)
  from own_lock_not_recognised[OF one_lock_start(3) retried_upload cat] cat show ?thesis by simp
qed

end
