(* ===== verification/Spec2Isabelle.thy ===== *)
theory Spec2Isabelle
  imports Uprev ConfigRoundtrip Pms PackageInfo KernelCmdline IterUtils DependencyGraph UserDB Table PatchSeries Retry BinPkg LkgmManager GsPaths GsLock
begin

text \<open>
  A verification library of chromite, the Chromium OS build tools. It models the libraries that decide
  something (what a version is and which is newer, what depends on what, what is applied, published,
  uploaded or retried) and leaves the programs they drive (git, gsutil, curl, Portage, the file system, Gerrit) as
  parameters: functions over a state of the world, or the texts and answers they return.

  How the parts interact. Builders choose what to build with the \<^emph>\<open>build specifications\<close>, which compare
  and increment \<^emph>\<open>version numbers\<close>, filter manifests and publish with \<^emph>\<open>git operations\<close> and \<^emph>\<open>retries\<close>. What
  changes are built is decided by the \<^emph>\<open>patch series\<close>, on the identifiers and caches of the \<^emph>\<open>patches\<close>. What
  has to be rebuilt is decided on the \<^emph>\<open>dependency graph\<close> of packages, whose names and versions are those
  of the \<^emph>\<open>package info\<close>, ordered by the \<^emph>\<open>PMS\<close>; the \<^emph>\<open>ebuilds\<close> of packages whose sources have changed are
  uprevved; what is built is uploaded by way of the \<^emph>\<open>binary package indexes\<close>. What the builders are is the
  \<^emph>\<open>site configuration\<close>. Payloads have their \<^emph>\<open>storage paths\<close>, and \<^emph>\<open>storage locks\<close> keep their generators apart.
  Images get their \<^emph>\<open>kernel command line\<close> and the \<^emph>\<open>users and groups\<close> of a sysroot; reports are
  \<^emph>\<open>tables\<close>.

  Shared theories.
  \<^item> \<open>Prelude\<close>: exceptions as sums, the string functions, \<open>int()\<close> and \<open>str()\<close>, slices, lines; the collections
    \<open>pystr\<close> and \<open>pyres\<close>. A Python \<open>str\<close> is a list of code points below 256.
  \<^item> \<open>Comparison\<close>: the locales \<open>three_way\<close> and \<open>keyed_cmp\<close> of comparison functions, interpreted in \<open>Pms\<close> on
    \<open>cmp_versions\<close>. \<open>Store\<close>: the locales \<open>keyed_store\<close> and \<open>deletable_store\<close>, interpreted on Python's \<open>dict\<close>
    there and on the argument lists of \<open>KernelCmdline\<close>. \<open>UserDB\<close> has a locale of its own, \<open>record_codec\<close>, for the
    line formats of users and groups, interpreted on both.
  \<^item> \<open>Paths\<close>: \<open>os.path\<close>. \<open>Actions\<close>: operations that change a state and may raise, with \<open>try\<close>/\<open>except\<close>,
    \<open>try\<close>/\<open>finally\<close>, loops of attempts, and the collection \<open>keeps_rules\<close> for what they leave unchanged. \<open>Services\<close>: failed commands and
    assertions as actions.

  Components.
  \<^item> \<open>Pms\<close> (\<open>utils/pms.py\<close>): the version regular expression as a matcher (\<open>version_fullmatch\<close>) and the comparison
    algorithms of the Package Manager Specification, on decimal digit strings without bound. Shown: the matcher
    accepts the grammar; \<open>cmp_versions\<close> is the three-way comparison of explicit keys of a linear order.
  \<^item> \<open>PackageInfo\<close> (\<open>lib/parser/package_info.py\<close>): splitting, formatting and comparing package names.
    Shown: the round trip of \<open>parse\<close>, the order of fully specified packages, the hash against equality.
  \<^item> \<open>KernelCmdline\<close> (\<open>lib/kernel_cmdline.py\<close>): arguments, argument lists, device mapper configurations. Shown: printing and
    parsing are inverse, and the updates of the dm and verity arguments change what they should and nothing else.
  \<^item> \<open>IterUtils\<close> (\<open>lib/iter_utils.py\<close>): intersection of intervals and chunking.
  \<^item> \<open>DependencyGraph\<close> (\<open>lib/dependency_graph.py\<close>): the nodes live in a heap, references are indices. Shown: what construction
    indexes, that iteration ends and yields each reachable node once, that \<open>is_dependency\<close> is reachability (or a single
    step, when asked so) and raises in a graph without packages of the sysroot.
  \<^item> \<open>UserDB\<close> (\<open>lib/user_db.py\<close>): the cached databases over the files; the file may change between the read and the
    lock. Shown: what adding users and groups keeps and adds.
  \<^item> \<open>Table\<close> (\<open>lib/table.py\<close>): rows and columns, merging, CSV. Shown: what merging a row or a table does, and the CSV round trip.
  \<^item> \<open>Patch\<close> (\<open>lib/patch.py\<close>) and \<open>PatchSeries\<close> (\<open>cbuildbot/patch_series.py\<close>): identifiers, queries, dependencies in commit
    messages, the caches with their aliases; looking up dependencies, ordering them into transactions, applying
    these to the checkouts with roll back. Shown: a plan is exactly the uncommitted transitive dependencies in order; a
    transaction is all or nothing; the loop refines the application of the reported changes; who is blamed.
  \<^item> \<open>Retry\<close> (\<open>lib/retry_util.py\<close>, \<open>lib/retry_stats.py\<close>): the decorator, the delays, \<open>RunCurl\<close>, the statistics. Shown: which
    attempt is the last, bounds of the delays, what curl errors become.
  \<^item> \<open>BinPkg\<close> (\<open>lib/binpkg.py\<close>): reading and writing \<open>Packages\<close> files, re-using uploads. Shown: the round trip, and that a
    re-used upload is the newest that fits.
  \<^item> \<open>VersionInfo\<close>, \<open>GitRepo\<close>, \<open>ManifestFilter\<close>, \<open>BuildSpecs\<close> (\<open>cbuildbot/manifest_version.py\<close> and the functions of
    \<open>lib/git.py\<close> it uses): version strings and the version file; committing and pushing; whitelists of remotes and
    groups; choosing, publishing and recording specifications. Shown: versions are well typed and increments
    strictly greater, the rewritten file loads as the incremented version, a filtered manifest has what is allowed, the
    next version is new, a dry run pushes nothing, and the loops of attempts come to an end, with what result and in what
    state.
  \<^item> \<open>LkgmManager\<close> (\<open>cbuildbot/lkgm_manager.py\<close>): release candidates, the specifications with a revision and another comparison. Shown:
    a new candidate is newer than the latest of those that \<open>CreateNewCandidate\<close> has made (but can compare equal to a name of
    another form that \<open>CreateFromManifest\<close> has published), and dry runs push nothing.
  \<^item> \<open>Patterns\<close>, \<open>GsPaths\<close> (\<open>lib/paygen/gspaths.py\<close>): regular expressions as sequences of items, and the storage paths of builds,
    images and payloads with their parsers. Shown: what is made from a build parses as what it was made from; a
    payload does so just when its random part is hexadecimal, and with a generated random part never.
  \<^item> \<open>GsContext\<close> (\<open>lib/gs.py\<close>): commands of \<open>gsutil\<close> with retries, the meaning of its errors, \<open>Stat\<close>, \<open>Cat\<close>, \<open>Copy\<close>, \<open>Remove\<close> and
    counters. \<open>GsObject\<close>: the history of one object that many clients use, with laws on \<open>gsutil\<close> as hypotheses. \<open>GsLock\<close>
    (\<open>lib/paygen/gslock.py\<close>): locks that are such objects. Shown: a counter is computed from the version it replaces, a
    lock is held by one client until it times out, and what releasing a lost lock does.
  \<^item> \<open>Json\<close>, \<open>ConfigValues\<close>, \<open>ConfigLib\<close>, \<open>ConfigJson\<close>, \<open>ConfigRoundtrip\<close> (\<open>lib/config_lib.py\<close>): the values of settings, the
    operations on build and site configurations, and saving them as JSON. Shown: templates compose, the last layer with
    a fixed value decides, use flags are overridden, the invariant of the site configuration over any sequence of
    its operations, and that loading what has been saved gives the same configurations. Left out: floats, tuples, code points
    above 255, the sharing of lists between configurations, and the identity of callables.
  \<^item> \<open>EbuildFile\<close>, \<open>Ebuild\<close>, \<open>Uprev\<close> (\<open>lib/portage_util.py\<close>): the text of an ebuild, the \<open>CROS_WORKON\<close> variables, the decision on a
    new revision and the writing of it. What bash exports when it sources an ebuild, git, the version scripts,
    the manifest checkout and Portage's \<open>vercmp\<close> are parameters. Shown: an uprev follows the trees of the sources, writes the
    next revision with the new variables and touches nothing else; the newest ebuild is the candidate.

  Bounds and fuel. \<open>recursion_limit\<close> (1000) is the fuel of the recursions of \<open>DependencyGraph\<close>, as Python limits
  them, and running out is \<open>RecursionError\<close>; the theorems assume no depth, or that the limit is not reached, as they say.
  \<open>MAX_PLAN_RECURSION\<close> (150) is the limit that \<open>AddChangeToPlanWithDeps\<close> has in the code, and its structural fuel here;
  running out is the exception that the code raises. A retry loop runs by the attempts it has left, \<open>max_retry + 1\<close>
  (\<open>retries + 1\<close> for specifications), which is the range of the loop of the code. The JSON parser has twice the length of the
  text as fuel, which \<open>loads_returns\<close> shows to be enough for every text. Every other function is total by
  structural recursion or a measure. Numbers are unbounded, as in Python.

  Not modelled. What formats log output, and the processes, services and files themselves. Of the components
  above: what each lists as left out in its note, mostly string forms for people, file access and the polling of other builds.
  Of the system: the device, chroot and image tools, the builders and stages, the command line and the API on top
  of them, which assemble and run commands; generated protobuf code, vendored code and configuration data.

  Not taken up, though they would fit: the upgrade table of \<open>lib/upgrade_table.py\<close>, results and failures
  (\<open>lib/results_lib.py\<close>), the version choices of \<open>lib/uprev_lib.py\<close>, key-value stores and field masks (\<open>utils\<close>), and the
  functions of \<open>lib/config_lib.py\<close> that read the configuration of the boards (\<open>ge_build_config\<close>).
\<close>

end
